(* ===== verification/Prelude.thy ===== *)
theory Prelude
  imports Complex_Main "HOL-Library.AList" "HOL-Library.List_Lexorder"
    "HOL-Library.Char_ord" "HOL-Library.Product_Lexorder"
begin

section \<open>Shared vocabulary: exceptions, dictionaries, lists\<close>

text \<open>
  What every component theory uses: the Python exceptions the modelled code can raise and the
  sum monad that propagates them, dictionaries as association lists in insertion order (a Python
  \<open>dict\<close> keeps the position of a key it overwrites and appends a new one, which is what
  \<open>AList.update\<close> does), and generic lemmas on folds, sums and sorted lists.
  The order on strings is lexicographic on code points (List_Lexorder over Char_ord) and the order
  on tuples is lexicographic (Product_Lexorder), as in Python.
\<close>

named_theorems dec_simps \<open>arithmetic of the rounded decimal operations\<close>
named_theorems res_simps \<open>inversion of the exception monad\<close>
named_theorems eval_rules \<open>unfolding a closed term of the model to a literal\<close>
named_theorems dict_simps \<open>reads of an updated dictionary\<close>

subsection \<open>Exceptions\<close>

datatype py_exc = DivisionByZero | InvalidOperation | ValueError | KeyError | TypeError | HTTPError

type_synonym 'a res = "py_exc + 'a"

definition bindE :: "'e + 'a \<Rightarrow> ('a \<Rightarrow> 'e + 'b) \<Rightarrow> 'e + 'b" where
  "bindE m f = (case m of Inl e \<Rightarrow> Inl e | Inr a \<Rightarrow> f a)"

lemma bindE_simps [simp]: "bindE (Inl e) f = Inl e" "bindE (Inr a) f = f a"
  by (simp_all add: bindE_def)

lemma bindE_cong [fundef_cong]:
  "m = m' \<Longrightarrow> (\<And>a. m' = Inr a \<Longrightarrow> f a = f' a) \<Longrightarrow> bindE m f = bindE m' f'"
  by (cases m') simp_all

lemma bindE_Inr_iff [res_simps]: "bindE m f = Inr b \<longleftrightarrow> (\<exists>a. m = Inr a \<and> f a = Inr b)"
  by (cases m) simp_all

lemma bindE_Inl_iff [res_simps]:
  "bindE m f = Inl e \<longleftrightarrow> m = Inl e \<or> (\<exists>a. m = Inr a \<and> f a = Inl e)"
  by (cases m) simp_all

text \<open>A list of fallible steps, run left to right and stopped by the first exception.\<close>

fun mapE :: "('a \<Rightarrow> 'e + 'b) \<Rightarrow> 'a list \<Rightarrow> 'e + 'b list" where
  "mapE f [] = Inr []"
| "mapE f (x # xs) = bindE (f x) (\<lambda>y. bindE (mapE f xs) (\<lambda>ys. Inr (y # ys)))"

lemma mapE_Inr_iff: "mapE f xs = Inr ys \<longleftrightarrow> list_all2 (\<lambda>x y. f x = Inr y) xs ys"
  by (induction xs arbitrary: ys) (auto simp: res_simps list_all2_Cons1)

text \<open>A loop over a list with an accumulator, stopped by the first exception.\<close>

fun foldE :: "('a \<Rightarrow> 'b \<Rightarrow> 'e + 'b) \<Rightarrow> 'a list \<Rightarrow> 'b \<Rightarrow> 'e + 'b" where
  "foldE f [] acc = Inr acc"
| "foldE f (x # xs) acc = bindE (f x acc) (foldE f xs)"

lemma foldE_append: "foldE f (xs @ ys) acc = bindE (foldE f xs acc) (foldE f ys)"
  by (induction xs arbitrary: acc) (auto simp: bindE_def split: sum.splits)

lemma foldE_invariant:
  assumes "foldE f xs acc = Inr r" "P acc"
    and "\<And>x a b. x \<in> set xs \<Longrightarrow> P a \<Longrightarrow> f x a = Inr b \<Longrightarrow> P b"
  shows "P r"
  using assms
proof (induction xs arbitrary: acc)
  case (Cons x xs)
  then obtain b where b: "f x acc = Inr b" "foldE f xs b = Inr r" by (auto simp: res_simps)
  with Cons.prems have "P b" by auto
  with b(2) show ?case by (rule Cons.IH) (meson Cons.prems(3) list.set_intros(2))
qed simp

lemma foldE_Inr_total:
  "(\<And>x a. x \<in> set xs \<Longrightarrow> \<exists>b. f x a = Inr b) \<Longrightarrow> \<exists>r. foldE f xs acc = Inr r"
proof (induction xs arbitrary: acc)
  case (Cons x xs)
  then obtain b where "f x acc = Inr b" by fastforce
  with Cons show ?case by simp
qed simp

lemma foldE_Inl:
  "foldE f xs acc = Inl e \<Longrightarrow> \<exists>x \<in> set xs. \<exists>a. f x a = Inl e"
  by (induction xs arbitrary: acc) (auto simp: res_simps)

subsection \<open>Dictionaries\<close>

type_synonym ('k, 'v) dict = "('k \<times> 'v) list"

abbreviation dict_ok :: "('k, 'v) dict \<Rightarrow> bool" where
  "dict_ok d \<equiv> distinct (map fst d)"

abbreviation dict_set :: "'k \<Rightarrow> 'v \<Rightarrow> ('k, 'v) dict \<Rightarrow> ('k, 'v) dict" where
  "dict_set \<equiv> AList.update"

abbreviation dict_pop :: "'k \<Rightarrow> ('k, 'v) dict \<Rightarrow> ('k, 'v) dict" where
  "dict_pop \<equiv> AList.delete"

definition dict_get :: "'v \<Rightarrow> ('k, 'v) dict \<Rightarrow> 'k \<Rightarrow> 'v" where
  "dict_get z d k = (case map_of d k of None \<Rightarrow> z | Some v \<Rightarrow> v)"

lemma map_of_dict_set [simp, dict_simps]:
  "map_of (AList.update k v d) k' = (if k' = k then Some v else map_of d k')"
  by (simp add: update_conv')

lemma map_of_dict_pop [simp, dict_simps]:
  "map_of (AList.delete k d) k' = (if k' = k then None else map_of d k')"
  by (simp add: delete_conv')

lemma dict_get_set [simp, dict_simps]:
  "dict_get z (AList.update k v d) k' = (if k' = k then v else dict_get z d k')"
  by (simp add: dict_get_def)

declare dict_get_def [eval_rules]

lemma dict_get_Nil [simp]: "dict_get z [] k = z"
  by (simp add: dict_get_def)

lemma dict_ok_set [simp]: "dict_ok d \<Longrightarrow> dict_ok (AList.update k v d)"
  by (rule distinct_update)

lemma dict_ok_pop [simp]: "dict_ok d \<Longrightarrow> dict_ok (AList.delete k d)"
  by (rule distinct_delete)

lemma set_dict_set_subset: "set (AList.update k v d) \<subseteq> insert (k, v) (set d)"
  by (induction d) auto

lemma in_set_dict_set: "kv \<in> set (AList.update k v d) \<Longrightarrow> kv = (k, v) \<or> kv \<in> set d"
  using set_dict_set_subset by fastforce

lemma dict_get_in_set: "map_of d k = Some v \<Longrightarrow> dict_get z d k = v"
  by (simp add: dict_get_def)

lemma map_of_filter_dict:
  "dict_ok d \<Longrightarrow> map_of (filter P d) k =
     (case map_of d k of None \<Rightarrow> None | Some v \<Rightarrow> if P (k, v) then Some v else None)"
proof (induction d)
  case (Cons p d)
  then show ?case
    by (cases p) (auto simp: map_of_eq_None_iff split: option.splits dest!: map_of_SomeD)
qed simp

lemma dict_get_nonneg:
  "(\<And>k v. (k, v) \<in> set d \<Longrightarrow> 0 \<le> v) \<Longrightarrow> 0 \<le> dict_get (0::'a::linordered_ab_group_add) d k"
  by (auto simp: dict_get_def split: option.splits dest: map_of_SomeD)

text \<open>A property of every value of a dictionary.\<close>

definition dict_all :: "('v \<Rightarrow> bool) \<Rightarrow> ('k, 'v) dict \<Rightarrow> bool" where
  "dict_all P d \<longleftrightarrow> list_all (\<lambda>(_, v). P v) d"

lemma dict_all_Nil [simp]: "dict_all P []"
  by (simp add: dict_all_def)

lemma dict_all_iff: "dict_all P d \<longleftrightarrow> (\<forall>(k, v) \<in> set d. P v)"
  by (simp add: dict_all_def list_all_iff)

lemma dict_all_set [intro]: "dict_all P d \<Longrightarrow> P v \<Longrightarrow> dict_all P (AList.update k v d)"
  by (fastforce simp: dict_all_iff dest!: in_set_dict_set)

lemma dict_all_pop [intro]: "dict_all P d \<Longrightarrow> dict_all P (AList.delete k d)"
  by (auto simp: dict_all_iff AList.delete_eq)

lemma dict_all_get: "dict_all P d \<Longrightarrow> P z \<Longrightarrow> P (dict_get z d k)"
  by (fastforce simp: dict_all_iff dict_get_def split: option.splits dest: map_of_SomeD)

lemma dict_all_map:
  "(\<And>v. P v \<Longrightarrow> Q (f v)) \<Longrightarrow> dict_all P d \<Longrightarrow> dict_all Q (map (\<lambda>(k, v). (k, f v)) d)"
  by (auto simp: dict_all_iff)

lemma map_of_map_values: "map_of (map (\<lambda>(k, v). (k, f v)) d) k = map_option f (map_of d k)"
  by (induction d) auto

lemma fst_map_values [simp]: "fst \<circ> (\<lambda>(k, v). (k, f v)) = fst"
  by auto

declare dict_all_def [eval_rules]

subsection \<open>Exact sums over a dictionary\<close>

lemma sum_list_dict_set:
  fixes f :: "'k \<times> 'v \<Rightarrow> 'a::ab_group_add"
  assumes "dict_ok d"
  shows "sum_list (map f (AList.update k v d)) =
    sum_list (map f d) + f (k, v) - (case map_of d k of None \<Rightarrow> 0 | Some w \<Rightarrow> f (k, w))"
  using assms
proof (induction d)
  case Nil
  then show ?case by simp
next
  case (Cons p d)
  show ?case
  proof (cases "fst p = k")
    case True
    with Cons.prems have "map_of d k = None"
      by (auto simp: map_of_eq_None_iff)
    with True show ?thesis by (cases p) (simp add: algebra_simps)
  next
    case False
    with Cons show ?thesis by (cases p) (simp add: algebra_simps)
  qed
qed

subsection \<open>Numbers in messages\<close>

fun nat_str :: "nat \<Rightarrow> string" where
  "nat_str n = (if n < 10 then [''0123456789'' ! n] else nat_str (n div 10) @ [''0123456789'' ! (n mod 10)])"

declare nat_str.simps [simp del, eval_rules]

subsection \<open>Slices of equal length\<close>

text \<open>\<open>[xs[i : i + n] for i in range(0, len(xs), n)]\<close>\<close>

function chunks :: "nat \<Rightarrow> 'a list \<Rightarrow> 'a list list" where
  "chunks n xs = (if n = 0 \<or> xs = [] then [] else take n xs # chunks n (drop n xs))"
  by pat_completeness auto
termination by (relation "measure (\<lambda>(_, xs). length xs)") auto

declare chunks.simps [simp del, eval_rules]

lemma concat_chunks: "0 < n \<Longrightarrow> concat (chunks n xs) = xs"
  by (induction n xs rule: chunks.induct) (subst chunks.simps, auto)

lemma chunks_length: "c \<in> set (chunks n xs) \<Longrightarrow> c \<noteq> [] \<and> length c \<le> n"
  by (induction n xs rule: chunks.induct) (subst (asm) (2) chunks.simps, auto split: if_splits)

subsection \<open>Optional bounds\<close>

definition opt_le :: "'a::linorder option \<Rightarrow> 'a option \<Rightarrow> bool" where
  "opt_le a b = (case (a, b) of (_, None) \<Rightarrow> True | (None, Some _) \<Rightarrow> False | (Some x, Some y) \<Rightarrow> x \<le> y)"

lemma Min_list_le: "xs \<noteq> [] \<Longrightarrow> x \<in> set xs \<Longrightarrow> Min (set xs) \<le> (x::'a::linorder)"
  by simp

end
