(* ===== verification/Decimal.thy ===== *)
theory Decimal
  imports Prelude
begin

section \<open>Rounded arithmetic: Python's Decimal and float\<close>

text \<open>
  Values are rationals. Every arithmetic operation of Python's default decimal context returns the
  exact result rounded to 28 significant digits, ties to even; every binary64 operation returns the
  exact result rounded to 53 significant bits, ties to even. Both are \<open>round_sig\<close>, at base 10
  and base 2. Comparisons are exact and never round. Not modelled: NaN and the infinities (every
  quote passes a range check, which rejects them), the sign of zero and trailing zeros (they
  compare equal), and exponent overflow and underflow (beyond 10^999999 for Decimal).
  Money is Decimal; seconds on a clock are floats.

  The locale \<open>rounding\<close> states what the rest of the development relies on: a rounding is
  monotone, odd, idempotent and has a relative error below one. It is interpreted twice, for
  the decimal context and for binary64.
\<close>

subsection \<open>Definitions\<close>

definition round_half_even :: "rat \<Rightarrow> int" where
  "round_half_even x = (let n = \<lfloor>x\<rfloor>; f = x - of_int n in
     if f < 1/2 then n else if f > 1/2 then n + 1 else if even n then n else n + 1)"

function ilog :: "int \<Rightarrow> int \<Rightarrow> int" where
  "ilog b n = (if b < 2 \<or> n < b then 0 else 1 + ilog b (n div b))"
  by pat_completeness auto
termination
proof (relation "measure (\<lambda>(b, n). nat n)")
  fix b n :: int
  assume "\<not> (b < 2 \<or> n < b)"
  then have "0 < n" "1 < b" by auto
  then have "n div b < n" by (rule int_div_less_self)
  with \<open>0 < n\<close> show "((b, n div b), b, n) \<in> measure (\<lambda>(b, n). nat n)" by simp
qed simp

declare ilog.simps [simp del]

definition expo :: "int \<Rightarrow> rat \<Rightarrow> int" where
  "expo b x = (if 1 \<le> x then ilog b \<lfloor>x\<rfloor> else - (1 + ilog b (\<lceil>1 / x\<rceil> - 1)))"

definition powz :: "int \<Rightarrow> int \<Rightarrow> rat" where
  "powz b e = (if 0 \<le> e then of_int (b ^ nat e) else 1 / of_int (b ^ nat (- e)))"

definition round_sig :: "int \<Rightarrow> int \<Rightarrow> rat \<Rightarrow> rat" where
  "round_sig b p x = (if x = 0 then 0
     else (let u = powz b (expo b \<bar>x\<bar> - p + 1) in of_int (round_half_even (x / u)) * u))"

subsection \<open>Rounding to an integer\<close>

lemma round_half_even_of_int [simp]: "round_half_even (of_int n) = n"
  by (simp add: round_half_even_def)

lemma round_half_even_cases:
  obtains "round_half_even x = \<lfloor>x\<rfloor>" "x - of_int \<lfloor>x\<rfloor> \<le> 1/2"
  | "round_half_even x = \<lfloor>x\<rfloor> + 1" "x - of_int \<lfloor>x\<rfloor> \<ge> 1/2"
  by (cases "x - of_int \<lfloor>x\<rfloor> < 1/2"; cases "x - of_int \<lfloor>x\<rfloor> > 1/2"; cases "even \<lfloor>x\<rfloor>")
     (auto simp: round_half_even_def Let_def)

lemma round_half_even_error: "\<bar>of_int (round_half_even x) - x\<bar> \<le> 1/2"
proof (cases x rule: round_half_even_cases)
  case 1
  moreover have "of_int \<lfloor>x\<rfloor> \<le> x" by simp
  ultimately show ?thesis by simp
next
  case 2
  moreover have "x < of_int \<lfloor>x\<rfloor> + 1" using floor_correct [of x] by simp
  ultimately show ?thesis by (simp add: abs_if)
qed

lemma round_half_even_mono: assumes "x \<le> y" shows "round_half_even x \<le> round_half_even y"
proof (cases "\<lfloor>x\<rfloor> = \<lfloor>y\<rfloor>")
  case True
  with assms show ?thesis by (auto simp: round_half_even_def Let_def)
next
  case False
  with floor_mono [OF assms] have lt: "\<lfloor>x\<rfloor> + 1 \<le> \<lfloor>y\<rfloor>" by linarith
  have "round_half_even x \<le> \<lfloor>x\<rfloor> + 1" by (cases x rule: round_half_even_cases) auto
  also note lt
  also have "\<lfloor>y\<rfloor> \<le> round_half_even y" by (cases y rule: round_half_even_cases) auto
  finally show ?thesis .
qed

lemma round_half_even_minus: "round_half_even (- x) = - round_half_even x"
proof (cases "x = of_int \<lfloor>x\<rfloor>")
  case True
  then show ?thesis
    by (metis of_int_minus round_half_even_of_int)
next
  case False
  have le: "of_int \<lfloor>x\<rfloor> \<le> x" and lt: "x < of_int \<lfloor>x\<rfloor> + 1"
    using floor_correct [of x] by simp_all
  from le False have "of_int \<lfloor>x\<rfloor> < x" by (metis order_le_less)
  with lt have fl: "\<lfloor>- x\<rfloor> = - \<lfloor>x\<rfloor> - 1"
    by (intro floor_unique) auto
  have "even (- \<lfloor>x\<rfloor> - 1) \<longleftrightarrow> \<not> even \<lfloor>x\<rfloor>" by simp
  with le lt show ?thesis
    unfolding round_half_even_def Let_def fl by auto
qed

subsection \<open>The exponent\<close>

lemma div_bounds: "2 \<le> b \<Longrightarrow> b * (n div b) \<le> n \<and> n < b * (n div b + 1)" for b n :: int
proof -
  assume b: "2 \<le> b"
  have "n = b * (n div b) + n mod b" by simp
  moreover from b have "0 \<le> n mod b" "n mod b < b" by simp_all
  ultimately show ?thesis unfolding distrib_left by linarith
qed

lemma ilog_bounds: "2 \<le> b \<Longrightarrow> 1 \<le> n \<Longrightarrow>
    0 \<le> ilog b n \<and> b ^ nat (ilog b n) \<le> n \<and> n < b ^ (nat (ilog b n) + 1)"
proof (induction b n rule: ilog.induct)
  case (1 b n)
  show ?case
  proof (cases "n < b")
    case True
    with "1.prems" show ?thesis by (simp add: ilog.simps [of b n])
  next
    case False
    let ?q = "n div b"
    let ?k = "nat (ilog b ?q)"
    from "1.prems" div_bounds [of b n] have q: "b * ?q \<le> n" "n < b * (?q + 1)" by auto
    from "1.prems" False have "1 \<le> ?q" by (simp add: zdiv_mono1 [of b n b, simplified])
    with "1.IH" "1.prems" False have IH: "0 \<le> ilog b ?q" "b ^ ?k \<le> ?q" "?q < b ^ (?k + 1)"
      by auto
    have k: "nat (ilog b n) = ?k + 1" "0 \<le> ilog b n"
      using IH(1) "1.prems" False by (auto simp: ilog.simps [of b n] nat_add_distrib)
    have "b * b ^ ?k \<le> b * ?q" using IH(2) "1.prems" by (intro mult_left_mono) auto
    with q(1) have lo: "b ^ (?k + 1) \<le> n" by simp
    have "b * (?q + 1) \<le> b * b ^ (?k + 1)" using IH(3) "1.prems" by (intro mult_left_mono) auto
    with q(2) have hi: "n < b ^ (?k + 1 + 1)" by simp
    from lo hi k show ?thesis by simp
  qed
qed

lemma powz_powi: "powz b e = of_int b powi e"
  by (simp add: powz_def power_int_def field_simps)

lemma powz_pos: "2 \<le> b \<Longrightarrow> 0 < powz b e"
  by (simp add: powz_powi)

lemma powz_add: "2 \<le> b \<Longrightarrow> powz b (d + e) = powz b d * powz b e"
  by (simp add: powz_powi power_int_add)

lemma powz_mono: "2 \<le> b \<Longrightarrow> d \<le> e \<Longrightarrow> powz b d \<le> powz b e"
  by (simp add: powz_powi power_int_increasing)

lemma powz_less_imp: "2 \<le> b \<Longrightarrow> powz b d < powz b e \<Longrightarrow> d < e"
  using powz_mono [of b e d] by (meson not_le)

lemma powz_nat: "powz b (int n) = of_int (b ^ n)"
  by (simp add: powz_def)

lemma powz_nonneg: "0 \<le> e \<Longrightarrow> powz b e = of_int (b ^ nat e)"
  by (simp add: powz_def)

lemma expo_bounds:
  assumes b: "2 \<le> b" and x: "0 < x"
  shows "powz b (expo b x) \<le> x \<and> x < powz b (expo b x + 1)"
proof (cases "1 \<le> x")
  case True
  let ?n = "\<lfloor>x\<rfloor>"
  from True have "1 \<le> ?n" by simp
  with b ilog_bounds [of b ?n] have B: "0 \<le> ilog b ?n" "b ^ nat (ilog b ?n) \<le> ?n"
    "?n + 1 \<le> b ^ (nat (ilog b ?n) + 1)" by auto
  have lo: "powz b (ilog b ?n) \<le> of_int ?n" using B by (simp add: powz_def)
  have "of_int (?n + 1) \<le> (of_int (b ^ (nat (ilog b ?n) + 1)) :: rat)"
    using B(3) by (simp only: of_int_le_iff)
  also have "\<dots> = powz b (ilog b ?n + 1)"
    using B(1) by (simp add: powz_def nat_add_distrib)
  finally have "of_int (?n + 1) \<le> powz b (ilog b ?n + 1)" .
  moreover from lo of_int_floor_le [of x] have "powz b (ilog b ?n) \<le> x" by (rule order_trans)
  ultimately show ?thesis
    using True floor_correct [of x] by (simp add: expo_def)
next
  case False
  let ?m = "\<lceil>1 / x\<rceil> - 1"
  let ?k = "ilog b ?m"
  from False x have "1 < 1 / x" by simp
  then have "1 \<le> ?m" by (simp add: less_ceiling_iff)
  with b ilog_bounds [of b ?m] have B: "0 \<le> ?k" "b ^ nat ?k \<le> ?m" "?m + 1 \<le> b ^ (nat ?k + 1)"
    by auto
  have m: "of_int ?m < 1 / x" "1 / x \<le> of_int (?m + 1)"
    using ceiling_correct [of "1 / x"] by auto
  have "of_int (b ^ nat ?k) \<le> (of_int ?m :: rat)" using B(2) by (simp only: of_int_le_iff)
  with B(1) have "powz b ?k \<le> of_int ?m" by (simp only: powz_nonneg)
  with m(1) have "powz b ?k < 1 / x" by linarith
  then have hi: "x < powz b (- ?k)"
    using x powz_pos [OF b, of ?k] by (simp add: powz_powi power_int_minus field_simps)
  have "of_int (?m + 1) \<le> (of_int (b ^ (nat (?k) + 1)) :: rat)"
    using B(3) by (simp only: of_int_le_iff)
  also have "\<dots> = powz b (?k + 1)"
    using B(1) by (simp add: powz_def nat_add_distrib)
  finally have "of_int (?m + 1) \<le> powz b (?k + 1)" .
  with m(2) have "1 / x \<le> powz b (?k + 1)" by linarith
  then have lo: "powz b (- (?k + 1)) \<le> x"
    using x powz_pos [OF b, of "?k + 1"]
    by (simp add: powz_powi power_int_minus field_simps del: minus_add_distrib)
  have "expo b x = - (?k + 1)" "expo b x + 1 = - ?k" using False by (simp_all add: expo_def)
  with hi lo show ?thesis by (simp only:)
qed

subsection \<open>Rounding to significant digits\<close>

text \<open>\<open>scaled\<close> is the significand before it is rounded: between \<open>b ^ (p - 1)\<close> and \<open>b ^ p\<close>.\<close>

lemma round_sig_pos_eq:
  assumes "0 < x"
  shows "round_sig b p x =
    of_int (round_half_even (x / powz b (expo b x - p + 1))) * powz b (expo b x - p + 1)"
  using assms by (simp add: round_sig_def Let_def)

lemma round_sig_minus: "round_sig b p (- x) = - round_sig b p x"
proof (cases "x = 0")
  case False
  then show ?thesis
    using round_half_even_minus [of "x / powz b (expo b \<bar>x\<bar> - p + 1)"]
    by (simp add: round_sig_def Let_def)
qed (simp add: round_sig_def)

lemma scaled_bounds:
  assumes b: "2 \<le> b" and p: "1 \<le> p" and x: "0 < x"
  defines "u \<equiv> powz b (expo b x - p + 1)"
  shows "of_int (b ^ nat (p - 1)) \<le> x / u" "x / u < of_int (b ^ nat p)"
proof -
  have u: "0 < u" using b by (simp add: u_def powz_pos)
  have "powz b (expo b x) = powz b (p - 1) * u" "powz b (expo b x + 1) = powz b p * u"
    using b by (simp_all add: u_def flip: powz_add)
  with expo_bounds [OF b x] have "powz b (p - 1) * u \<le> x" "x < powz b p * u" by auto
  with u p show "of_int (b ^ nat (p - 1)) \<le> x / u" "x / u < of_int (b ^ nat p)"
    by (simp_all add: powz_def field_simps)
qed

lemma round_sig_bounds:
  assumes b: "2 \<le> b" and p: "1 \<le> p" and x: "0 < x"
  shows "powz b (expo b x) \<le> round_sig b p x" "round_sig b p x \<le> powz b (expo b x + 1)"
proof -
  let ?u = "powz b (expo b x - p + 1)"
  have u: "0 < ?u" using b by (simp add: powz_pos)
  note S = scaled_bounds [OF b p x]
  have "b ^ nat (p - 1) \<le> round_half_even (x / ?u)"
    using round_half_even_mono [OF S(1)] by (simp only: round_half_even_of_int)
  then have "of_int (b ^ nat (p - 1)) * ?u \<le> round_sig b p x"
    using u x by (simp only: round_sig_pos_eq mult_le_cancel_right of_int_le_iff) simp
  moreover have "of_int (b ^ nat (p - 1)) * ?u = powz b (expo b x)"
    using b p by (simp add: powz_nonneg [of "p - 1", symmetric] del: of_int_power flip: powz_add)
  ultimately show "powz b (expo b x) \<le> round_sig b p x" by simp
  have "round_half_even (x / ?u) \<le> b ^ nat p"
    using round_half_even_mono [OF less_imp_le [OF S(2)]] by (simp only: round_half_even_of_int)
  then have "round_sig b p x \<le> of_int (b ^ nat p) * ?u"
    using u x by (simp only: round_sig_pos_eq mult_le_cancel_right of_int_le_iff) simp
  moreover have "of_int (b ^ nat p) * ?u = powz b (expo b x + 1)"
    using b p by (simp add: powz_nonneg [of p, symmetric] del: of_int_power flip: powz_add)
  ultimately show "round_sig b p x \<le> powz b (expo b x + 1)" by simp
qed

lemma round_sig_pos: "2 \<le> b \<Longrightarrow> 1 \<le> p \<Longrightarrow> 0 < x \<Longrightarrow> 0 < round_sig b p x"
  using round_sig_bounds(1) powz_pos by (meson less_le_trans)

lemma round_sig_mono_pos:
  assumes b: "2 \<le> b" and p: "1 \<le> p" and x: "0 < x" and xy: "x \<le> y"
  shows "round_sig b p x \<le> round_sig b p y"
proof (cases "expo b x = expo b y")
  case True
  let ?u = "powz b (expo b y - p + 1)"
  have u: "0 < ?u" using b by (simp add: powz_pos)
  with xy have "x / ?u \<le> y / ?u" by (simp add: divide_right_mono)
  then have "round_half_even (x / ?u) \<le> round_half_even (y / ?u)" by (rule round_half_even_mono)
  with True u x xy show ?thesis by (simp add: round_sig_pos_eq)
next
  case False
  from x xy have y: "0 < y" by simp
  have "powz b (expo b x) < powz b (expo b y + 1)"
    using expo_bounds [OF b x] expo_bounds [OF b y] xy by linarith
  with b have "expo b x < expo b y + 1" by (rule powz_less_imp)
  with False have "expo b x + 1 \<le> expo b y" by simp
  with b have "powz b (expo b x + 1) \<le> powz b (expo b y)" by (rule powz_mono)
  with round_sig_bounds(2) [OF b p x] round_sig_bounds(1) [OF b p y] show ?thesis by linarith
qed

lemma round_sig_zero [simp]: "round_sig b p 0 = 0"
  by (simp add: round_sig_def)

lemma round_sig_mono:
  assumes b: "2 \<le> b" and p: "1 \<le> p" and xy: "x \<le> y"
  shows "round_sig b p x \<le> round_sig b p y"
proof (cases "0 < x \<or> y < 0")
  case True
  then show ?thesis
  proof
    assume "0 < x"
    with assms show ?thesis by (simp add: round_sig_mono_pos)
  next
    assume "y < 0"
    with xy round_sig_mono_pos [OF b p, of "- y" "- x"] show ?thesis by (simp add: round_sig_minus)
  qed
next
  case False
  have "round_sig b p x \<le> 0"
    using False round_sig_pos [OF b p, of "- x"] by (cases "x = 0") (auto simp: round_sig_minus)
  moreover have "0 \<le> round_sig b p y"
    using False round_sig_pos [OF b p, of y] by (cases "y = 0") auto
  ultimately show ?thesis by simp
qed

text \<open>A value with at most \<open>p\<close> digits is not changed: the key to every exactness theorem.\<close>

lemma round_sig_exact_pos:
  assumes b: "2 \<le> b" and p: "1 \<le> p" and m: "0 < m" "m \<le> b ^ nat p" and x: "x = of_int m * powz b k"
  shows "round_sig b p x = x"
proof -
  have x0: "0 < x" using m(1) b by (simp add: x powz_pos)
  define e u where "e = expo b x" and "u = powz b (e - p + 1)"
  have u: "0 < u" using b by (simp add: u_def powz_pos)
  have "\<exists>n. x / u = of_int n"
  proof (cases "e - p + 1 \<le> k")
    case True
    then obtain d :: nat where d: "k = e - p + 1 + int d" using zle_iff_zadd by blast
    then have "powz b k = u * of_int (b ^ d)"
      using b by (simp only: u_def powz_add powz_nat)
    then have "x / u = of_int (m * b ^ d)" using u by (simp add: x)
    then show ?thesis by blast
  next
    case False
    have "of_int m \<le> (of_int (b ^ nat p) :: rat)" using m(2) by (simp only: of_int_le_iff)
    then have "x \<le> powz b p * powz b k"
      using p powz_pos [OF b, of k] by (simp add: x powz_nonneg)
    moreover have "powz b e \<le> x" using expo_bounds [OF b x0] by (simp add: e_def)
    moreover have "powz b p * powz b k \<le> powz b e"
      using b False by (simp add: powz_mono flip: powz_add)
    ultimately have "x = powz b e" by simp
    also have "\<dots> = powz b (p - 1) * u" using b by (simp add: u_def flip: powz_add)
    finally have "x / u = of_int (b ^ nat (p - 1))" using u p by (simp add: powz_nonneg)
    then show ?thesis by blast
  qed
  then obtain n where n: "x / u = of_int n" by blast
  have "round_sig b p x = of_int (round_half_even (x / u)) * u"
    using x0 by (simp add: round_sig_pos_eq u_def e_def)
  also have "\<dots> = of_int n * u" by (simp only: n round_half_even_of_int)
  also have "\<dots> = x" using n u by (simp add: field_simps)
  finally show ?thesis .
qed

lemma round_sig_exact:
  assumes "2 \<le> b" "1 \<le> p" "\<bar>m\<bar> \<le> b ^ nat p" "x = of_int m * powz b k"
  shows "round_sig b p x = x"
proof (cases m "0::int" rule: linorder_cases)
  case less
  then have "round_sig b p (- x) = - x"
    using assms by (intro round_sig_exact_pos [of b p "- m" _ k]) auto
  then show ?thesis by (simp add: round_sig_minus)
next
  case greater
  then show ?thesis using assms by (intro round_sig_exact_pos [of b p m _ k]) auto
qed (use assms in simp)

lemma round_sig_form:
  assumes b: "2 \<le> b" and p: "1 \<le> p"
  shows "\<exists>m k. round_sig b p x = of_int m * powz b k \<and> \<bar>m\<bar> \<le> b ^ nat p"
proof -
  have pos: "\<exists>m k. round_sig b p y = of_int m * powz b k \<and> \<bar>m\<bar> \<le> b ^ nat p" if y: "0 < y" for y
  proof -
    let ?u = "powz b (expo b y - p + 1)"
    have u: "0 < y / ?u" using b y by (simp add: powz_pos)
    have "round_half_even (y / ?u) \<le> b ^ nat p"
      using round_half_even_mono [OF less_imp_le [OF scaled_bounds(2) [OF b p y]]]
      by (simp only: round_half_even_of_int)
    moreover have "0 \<le> round_half_even (y / ?u)"
      using round_half_even_mono [OF less_imp_le [OF u]] round_half_even_of_int [of 0] by simp
    ultimately show ?thesis using round_sig_pos_eq [OF y, of b p] by auto
  qed
  consider "x = 0" | "0 < x" | "0 < - x" by linarith
  then show ?thesis
  proof cases
    case 1
    with b show ?thesis by (intro exI [of _ 0]) simp
  next
    case 3
    then obtain m k where "round_sig b p (- x) = of_int m * powz b k" "\<bar>m\<bar> \<le> b ^ nat p"
      using pos by blast
    then show ?thesis by (intro exI [of _ "- m"] exI [of _ k]) (simp add: round_sig_minus)
  qed (rule pos)
qed

lemma round_sig_idem: "2 \<le> b \<Longrightarrow> 1 \<le> p \<Longrightarrow> round_sig b p (round_sig b p x) = round_sig b p x"
  using round_sig_form [of b p x] by (auto intro: round_sig_exact)

lemma round_sig_error_pos:
  assumes b: "2 \<le> b" and p: "1 \<le> p" and x: "0 < x"
  shows "\<bar>round_sig b p x - x\<bar> \<le> x / (2 * of_int (b ^ nat (p - 1)))"
proof -
  define u where "u = powz b (expo b x - p + 1)"
  have u: "0 < u" using b by (simp add: u_def powz_pos)
  have "round_sig b p x - x = (of_int (round_half_even (x / u)) - x / u) * u"
    using x u by (simp add: round_sig_pos_eq u_def field_simps)
  then have "\<bar>round_sig b p x - x\<bar> = \<bar>of_int (round_half_even (x / u)) - x / u\<bar> * u"
    using u by (simp add: abs_mult)
  also have "\<dots> \<le> 1/2 * u"
    using u by (intro mult_right_mono round_half_even_error) simp
  finally have le: "\<bar>round_sig b p x - x\<bar> \<le> u / 2" by simp
  have B: "0 < of_int (b ^ nat (p - 1)) * (2 :: rat)" using b by simp
  have "of_int (b ^ nat (p - 1)) * u \<le> x"
    using scaled_bounds(1) [OF b p x] u by (simp add: u_def [symmetric] pos_le_divide_eq)
  with B have "u / 2 \<le> x / (2 * of_int (b ^ nat (p - 1)))"
    by (simp add: pos_le_divide_eq ac_simps)
  with le show ?thesis by linarith
qed

lemma round_sig_error:
  assumes "2 \<le> b" "1 \<le> p"
  shows "\<bar>round_sig b p x - x\<bar> \<le> 1 / (2 * of_int (b ^ nat (p - 1))) * \<bar>x\<bar>"
proof (cases x "0::rat" rule: linorder_cases)
  case less
  then show ?thesis
    using round_sig_error_pos [OF assms, of "- x"] by (simp add: round_sig_minus abs_if split: if_splits)
qed (use round_sig_error_pos [OF assms] in simp_all)

subsection \<open>The interface: what a rounding promises\<close>

locale rounding =
  fixes r :: "rat \<Rightarrow> rat" and eps :: rat
  assumes mono: "x \<le> y \<Longrightarrow> r x \<le> r y"
    and minus: "r (- x) = - r x"
    and idem: "r (r x) = r x"
    and error: "\<bar>r x - x\<bar> \<le> eps * \<bar>x\<bar>"
    and eps_range: "0 \<le> eps" "eps < 1"
begin

lemma zero: "r 0 = 0"
  using minus [of 0] by simp

lemma nonneg: "0 \<le> x \<Longrightarrow> 0 \<le> r x"
  using mono [of 0 x] by (simp add: zero)

lemma pos: "0 < x \<Longrightarrow> 0 < r x"
proof -
  assume x: "0 < x"
  from eps_range x have "eps * x < 1 * x" by (intro mult_strict_right_mono) auto
  with error [of x] x show ?thesis by linarith
qed

lemma pos_iff: "0 < r x \<longleftrightarrow> 0 < x"
  using pos [of x] mono [of x 0] by (auto simp: zero not_less [symmetric])

lemma neg_iff: "r x < 0 \<longleftrightarrow> x < 0"
  using pos_iff [of "- x"] by (simp add: minus)

lemma nonneg_iff: "0 \<le> r x \<longleftrightarrow> 0 \<le> x"
  using neg_iff [of x] by (simp add: not_less [symmetric])

lemma nonpos_iff: "r x \<le> 0 \<longleftrightarrow> x \<le> 0"
  using pos_iff [of x] by (simp add: not_less [symmetric])

lemma zero_iff: "r x = 0 \<longleftrightarrow> x = 0"
  using nonneg_iff [of x] nonpos_iff [of x] by (auto simp: order_eq_iff)

lemma le_fixed: "r y = y \<Longrightarrow> x \<le> y \<Longrightarrow> r x \<le> y"
  using mono [of x y] by simp

lemma ge_fixed: "r y = y \<Longrightarrow> y \<le> x \<Longrightarrow> y \<le> r x"
  using mono [of y x] by simp

lemma upper: "0 \<le> x \<Longrightarrow> r x \<le> (1 + eps) * x"
  using error [of x] by (simp add: distrib_right abs_le_iff)

lemma lower: "0 \<le> x \<Longrightarrow> (1 - eps) * x \<le> r x"
  using error [of x] by (simp add: left_diff_distrib abs_le_iff)

lemma less_imp: "r x < r y \<Longrightarrow> x < y"
  using mono [of y x] by (meson not_le)

lemmas sign_iffs = pos_iff neg_iff nonneg_iff nonpos_iff zero_iff

end

subsection \<open>Decimal: 28 digits, and float: 53 bits\<close>

definition dec_round :: "rat \<Rightarrow> rat" where
  "dec_round = round_sig 10 28"

definition dec_eps :: rat where
  "dec_eps = 1 / (2 * 10 ^ 27)"

definition flt_round :: "rat \<Rightarrow> rat" where
  "flt_round = round_sig 2 53"

definition flt_eps :: rat where
  "flt_eps = 1 / 2 ^ 53"

interpretation dec: rounding dec_round dec_eps
proof
  fix x :: rat
  show "\<bar>dec_round x - x\<bar> \<le> dec_eps * \<bar>x\<bar>"
    using round_sig_error [of 10 28 x] by (simp add: dec_round_def dec_eps_def)
qed (simp_all add: dec_round_def dec_eps_def round_sig_mono round_sig_minus round_sig_idem)

interpretation flt: rounding flt_round flt_eps
proof
  fix x :: rat
  show "\<bar>flt_round x - x\<bar> \<le> flt_eps * \<bar>x\<bar>"
    using round_sig_error [of 2 53 x] by (simp add: flt_round_def flt_eps_def)
qed (simp_all add: flt_round_def flt_eps_def round_sig_mono round_sig_minus round_sig_idem)

declare dec.zero [simp] dec.sign_iffs [simp, dec_simps] dec.idem [simp]
declare flt.zero [simp] flt.sign_iffs [simp] flt.idem [simp]

text \<open>The operations of the decimal context. Division raises on a zero divisor.\<close>

definition dadd :: "rat \<Rightarrow> rat \<Rightarrow> rat" where
  "dadd a b = dec_round (a + b)"

definition dsub :: "rat \<Rightarrow> rat \<Rightarrow> rat" where
  "dsub a b = dec_round (a - b)"

definition dmul :: "rat \<Rightarrow> rat \<Rightarrow> rat" where
  "dmul a b = dec_round (a * b)"

definition ddiv :: "rat \<Rightarrow> rat \<Rightarrow> rat res" where
  "ddiv a b = (if b = 0 then Inl (if a = 0 then InvalidOperation else DivisionByZero)
     else Inr (dec_round (a / b)))"

definition dneg :: "rat \<Rightarrow> rat" where
  "dneg a = dec_round (- a)"

definition dsum :: "rat list \<Rightarrow> rat" where
  "dsum = foldl dadd 0"

text \<open>
  \<open>x.quantize(10 ** -k, rounding=ROUND_DOWN)\<close>: truncate towards zero to \<open>k\<close> places; a result
  that needs more than 28 digits signals InvalidOperation.
\<close>

definition truncate_rat :: "rat \<Rightarrow> int" where
  "truncate_rat x = (if 0 \<le> x then \<lfloor>x\<rfloor> else \<lceil>x\<rceil>)"

definition dquantize_down :: "nat \<Rightarrow> rat \<Rightarrow> rat res" where
  "dquantize_down k x = (let c = truncate_rat (x * 10 ^ k) in
     if 10 ^ 28 \<le> \<bar>c\<bar> then Inl InvalidOperation else Inr (of_int c / 10 ^ k))"

definition dec_rep :: "rat \<Rightarrow> bool" where
  "dec_rep x \<longleftrightarrow> dec_round x = x"

lemma dadd_nonneg: "0 \<le> a \<Longrightarrow> 0 \<le> b \<Longrightarrow> 0 \<le> dadd a b"
  by (simp add: dadd_def)

lemma dmul_nonneg: "0 \<le> a \<Longrightarrow> 0 \<le> b \<Longrightarrow> 0 \<le> dmul a b"
  by (simp add: dmul_def)

lemma dsub_sign [dec_simps]:
  "0 \<le> dsub a b \<longleftrightarrow> b \<le> a" "0 < dsub a b \<longleftrightarrow> b < a" "dsub a b \<le> 0 \<longleftrightarrow> a \<le> b"
  "dsub a b < 0 \<longleftrightarrow> a < b" "dsub a b = 0 \<longleftrightarrow> a = b"
  by (simp_all add: dsub_def)

lemma dec_rep_round [simp]: "dec_rep (dec_round x)"
  by (simp add: dec_rep_def)

lemma dec_rep_ops [simp]: "dec_rep (dadd a b)" "dec_rep (dsub a b)" "dec_rep (dmul a b)"
  by (simp_all add: dadd_def dsub_def dmul_def)

lemma dec_rep_0 [simp]: "dec_rep 0"
  by (simp add: dec_rep_def)

lemma dec_round_rep: "dec_rep x \<Longrightarrow> dec_round x = x"
  by (simp add: dec_rep_def)

lemma dadd_0: "dec_rep x \<Longrightarrow> dadd 0 x = x" "dec_rep x \<Longrightarrow> dadd x 0 = x"
  by (simp_all add: dadd_def dec_rep_def)

lemma dsub_self [simp]: "dsub x x = 0"
  by (simp add: dsub_def)

lemma dsub_0: "dec_rep x \<Longrightarrow> dsub x 0 = x"
  by (simp add: dsub_def dec_rep_def)

text \<open>Decimal fractions with few enough digits are exact.\<close>

definition on_grid :: "nat \<Rightarrow> rat \<Rightarrow> bool" where
  "on_grid k x \<longleftrightarrow> of_int \<lfloor>x * 10 ^ k\<rfloor> = x * 10 ^ k"

lemma on_gridE: assumes "on_grid k x" obtains m :: int where "x = of_int m / 10 ^ k"
proof
  from assms have "of_int \<lfloor>x * 10 ^ k\<rfloor> = x * 10 ^ k" unfolding on_grid_def .
  then show "x = of_int \<lfloor>x * 10 ^ k\<rfloor> / 10 ^ k" by (simp only:) simp
qed

lemma on_gridI: "x = of_int m / 10 ^ k \<Longrightarrow> on_grid k x"
  by (simp add: on_grid_def)

lemma on_grid_add: "on_grid k x \<Longrightarrow> on_grid k y \<Longrightarrow> on_grid k (x + y)"
  by (elim on_gridE, rule on_gridI [of _ "_ + _"]) (simp add: add_divide_distrib)

lemma on_grid_diff: "on_grid k x \<Longrightarrow> on_grid k y \<Longrightarrow> on_grid k (x - y)"
  by (elim on_gridE, rule on_gridI [of _ "_ - _"]) (simp add: diff_divide_distrib)

lemma on_grid_mult: "on_grid j x \<Longrightarrow> on_grid k y \<Longrightarrow> on_grid (j + k) (x * y)"
  by (elim on_gridE, rule on_gridI [of _ "_ * _"]) (simp add: power_add)

lemma on_grid_mono: assumes "on_grid j x" "j \<le> k" shows "on_grid k x"
proof -
  from assms(1) obtain m where x: "x = of_int m / 10 ^ j" by (rule on_gridE)
  from assms(2) obtain d where k: "k = j + d" using le_Suc_ex by blast
  show ?thesis by (rule on_gridI [of _ "m * 10 ^ d"]) (simp add: x k power_add)
qed

lemma ten_power_not_le [simp]: "\<not> (10::rat) ^ k \<le> 0"
  by (simp add: not_le)

lemma dec_rep_grid:
  assumes "on_grid k x" "\<bar>x\<bar> * 10 ^ k \<le> 10 ^ 28"
  shows "dec_rep x"
proof -
  from assms(1) obtain m where x: "x = of_int m / 10 ^ k" by (rule on_gridE)
  from assms(2) have "of_int \<bar>m\<bar> \<le> (of_int (10 ^ 28) :: rat)" by (simp add: x)
  then have m: "\<bar>m\<bar> \<le> 10 ^ 28" by (simp only: of_int_le_iff)
  have "x = of_int m * powz 10 (- int k)" by (simp add: x powz_def)
  with m show ?thesis
    unfolding dec_rep_def dec_round_def by (intro round_sig_exact [of 10 28 m]) auto
qed

lemma dec_rep_1 [simp]: "dec_rep 1"
  using dec_rep_grid [of 0 1] by (simp add: on_grid_def)

lemma dec_rep_form: "dec_rep x \<longleftrightarrow> (\<exists>m k. x = of_int m * powz 10 k \<and> \<bar>m\<bar> \<le> 10 ^ 28)"
proof
  assume "dec_rep x"
  then have "x = round_sig 10 28 x" by (simp add: dec_rep_def dec_round_def)
  moreover obtain m k where "round_sig 10 28 x = of_int m * powz 10 k" "\<bar>m\<bar> \<le> 10 ^ nat 28"
    using round_sig_form [of 10 28 x] by auto
  ultimately show "\<exists>m k. x = of_int m * powz 10 k \<and> \<bar>m\<bar> \<le> 10 ^ 28"
    by (intro exI [of _ m] exI [of _ k]) simp
next
  assume "\<exists>m k. x = of_int m * powz 10 k \<and> \<bar>m\<bar> \<le> 10 ^ 28"
  then show "dec_rep x"
    unfolding dec_rep_def dec_round_def by (auto intro: round_sig_exact)
qed

text \<open>Moving the decimal point changes neither representability nor exactness.\<close>

lemma dec_rep_shift: "dec_rep x \<Longrightarrow> dec_rep (x * 10 ^ k)"
proof -
  assume "dec_rep x"
  then obtain m e where m: "x = of_int m * powz 10 e" "\<bar>m\<bar> \<le> 10 ^ 28" by (auto simp: dec_rep_form)
  have "x * 10 ^ k = of_int m * powz 10 (e + int k)"
    using m(1) by (simp add: powz_add powz_nat)
  with m(2) show "dec_rep (x * 10 ^ k)" unfolding dec_rep_form by blast
qed

subsection \<open>Evaluation\<close>

text \<open>
  \<open>simp add: eval_rules\<close> computes a closed term: arithmetic on literals is done by the simplifier's
  numerals, and these rules round a literal. They fire on literals only, so they never unfold a
  rounding of a variable.
\<close>

lemma ilog_base [eval_rules]: "n < b \<Longrightarrow> ilog b n = 0"
  by (simp add: ilog.simps)

lemma ilog_step [eval_rules]: "2 \<le> b \<Longrightarrow> b \<le> n \<Longrightarrow> ilog b n = 1 + ilog b (n div b)"
  by (simp add: ilog.simps [of b n])

lemma floor_rat_numeral [eval_rules]:
  "\<lfloor>(numeral a / numeral b :: rat)\<rfloor> = numeral a div numeral b"
  "\<lfloor>(1 / numeral b :: rat)\<rfloor> = 1 div numeral b"
  using floor_divide_of_int_eq [of "numeral a" "numeral b"] floor_divide_of_int_eq [of 1 "numeral b"]
  by simp_all

lemma ceiling_rat_numeral [eval_rules]:
  "\<lceil>(numeral a / numeral b :: rat)\<rceil> = - (- numeral a div numeral b)"
  "\<lceil>(1 / numeral b :: rat)\<rceil> = - (- 1 div numeral b)"
  using ceiling_divide_eq_div [where 'a = rat, of "numeral a" "numeral b"]
    ceiling_divide_eq_div [where 'a = rat, of 1 "numeral b"]
  by simp_all

lemma dec_round_literal [eval_rules]:
  "dec_round (numeral a) = round_sig 10 28 (numeral a)"
  "dec_round 1 = round_sig 10 28 1"
  "dec_round (numeral a / numeral b) = round_sig 10 28 (numeral a / numeral b)"
  "dec_round (1 / numeral b) = round_sig 10 28 (1 / numeral b)"
  "dec_round (- x) = - dec_round x"
  by (simp_all add: dec_round_def round_sig_minus)

lemma flt_round_literal [eval_rules]:
  "flt_round (numeral a) = round_sig 2 53 (numeral a)"
  "flt_round 1 = round_sig 2 53 1"
  "flt_round (numeral a / numeral b) = round_sig 2 53 (numeral a / numeral b)"
  "flt_round (1 / numeral b) = round_sig 2 53 (1 / numeral b)"
  "flt_round (- x) = - flt_round x"
  by (simp_all add: flt_round_def round_sig_minus)

declare round_sig_def [eval_rules] expo_def [eval_rules] powz_def [eval_rules]
  round_half_even_def [eval_rules] Let_def [eval_rules] dadd_def [eval_rules] dsub_def [eval_rules]
  dmul_def [eval_rules] ddiv_def [eval_rules] dneg_def [eval_rules] truncate_rat_def [eval_rules]
  dquantize_down_def [eval_rules] dsum_def [eval_rules] dec_rep_def [eval_rules]

end
