(* ===== verification/Types.thy ===== *)
theory Types
  imports Decimal
begin

section \<open>Domain types\<close>

text \<open>
  The dataclasses of \<open>arbys/shared/types.py\<close> and \<open>arbys/adapters/base.py\<close>. Field names carry a
  short prefix because record fields share one name space. A \<open>datetime\<close> is its microseconds since
  the epoch, with or without a time zone; the code reads a naive one as UTC.
  \<open>quote_init\<close> is \<open>Quote.__post_init__\<close>: a quote exists only if its prices pass it.
\<close>

datatype venue_kind = EXCHANGE | SPORTSBOOK

datatype side = YES | NO

record venue =
  v_id :: string
  v_name :: string
  v_kind :: venue_kind

record outcome =
  o_id :: string
  o_venue_id :: string
  o_market_id :: string
  o_label :: string
  o_side :: "side option"

record quote =
  q_outcome_id :: string
  bid :: rat
  ask :: rat
  bid_size :: "rat option"
  ask_size :: "rat option"
  source_age_s :: "rat option"

definition quote_init :: "quote \<Rightarrow> quote res" where
  "quote_init q =
     (if \<not> (0 \<le> bid q \<and> bid q \<le> 1) then Inl ValueError
      else if \<not> (0 \<le> ask q \<and> ask q \<le> 1) then Inl ValueError
      else if ask q < bid q then Inl ValueError
      else Inr q)"

definition quote_ok :: "quote \<Rightarrow> bool" where
  "quote_ok q \<longleftrightarrow> quote_init q = Inr q"

datatype py_datetime = Aware int | Naive int

fun as_utc :: "py_datetime \<Rightarrow> int" where
  "as_utc (Aware t) = t"
| "as_utc (Naive t) = t"

record event_group_leg =
  leg_outcome :: string
  leg_venue :: string
  is_yes_side :: bool

record event_group =
  g_id :: string
  g_title :: string
  resolution_source_by_venue :: "(string, string) dict"
  g_legs :: "event_group_leg list"
  start_time :: "py_datetime option"
  in_play :: "bool option"
  ended :: "bool option"
  g_source :: string

datatype order_status = PENDING | FILLED | PARTIAL | CANCELLED | REJECTED

fun status_str :: "order_status \<Rightarrow> string" where
  "status_str PENDING = ''pending''"
| "status_str FILLED = ''filled''"
| "status_str PARTIAL = ''partial''"
| "status_str CANCELLED = ''cancelled''"
| "status_str REJECTED = ''rejected''"

record order =
  ord_id :: string
  ord_venue :: string
  ord_outcome :: string
  ord_is_buy :: bool
  ord_qty :: rat
  ord_limit :: rat
  ord_status :: order_status
  ord_ticket :: "string option"

record fill =
  fill_order_id :: string
  fill_qty :: rat
  fill_price :: rat
  fill_fee :: rat

record intent_leg =
  il_venue :: string
  il_outcome :: string
  il_is_buy :: bool
  il_qty :: rat
  il_limit :: rat

record execution_intent =
  ei_group :: string
  ei_account :: string
  ei_legs :: "intent_leg list"
  ei_ticket :: "string option"

lemma quote_init_cases:
  "quote_init q = Inr q \<and> 0 \<le> bid q \<and> bid q \<le> ask q \<and> ask q \<le> 1 \<or>
   quote_init q = Inl ValueError \<and> \<not> (0 \<le> bid q \<and> bid q \<le> ask q \<and> ask q \<le> 1)"
  by (auto simp: quote_init_def)

lemma quote_ok_iff: "quote_ok q \<longleftrightarrow> 0 \<le> bid q \<and> bid q \<le> ask q \<and> ask q \<le> 1"
  using quote_init_cases [of q] by (auto simp: quote_ok_def)

lemma quote_init_ok: "quote_init q = Inr q' \<Longrightarrow> q' = q \<and> quote_ok q"
  using quote_init_cases [of q] by (auto simp: quote_ok_def)

text \<open>Enumerations have a decidable equality and a size the library can use.\<close>

fun status_rank :: "order_status \<Rightarrow> nat" where
  "status_rank PENDING = 0"
| "status_rank FILLED = 1"
| "status_rank PARTIAL = 2"
| "status_rank CANCELLED = 3"
| "status_rank REJECTED = 4"

lemma status_rank_inject: "status_rank a = status_rank b \<Longrightarrow> a = b"
  by (cases a; cases b) simp_all

instantiation order_status :: linorder
begin

definition less_eq_order_status :: "order_status \<Rightarrow> order_status \<Rightarrow> bool" where
  "less_eq_order_status a b \<longleftrightarrow> status_rank a \<le> status_rank b"

definition less_order_status :: "order_status \<Rightarrow> order_status \<Rightarrow> bool" where
  "less_order_status a b \<longleftrightarrow> status_rank a < status_rank b"

instance
  by standard (auto simp: less_eq_order_status_def less_order_status_def intro: status_rank_inject)

end

end
