(* ===== verification/Fees.thy ===== *)
theory Fees
  imports Types
begin

section \<open>Fee models and odds conversion\<close>

text \<open>
  \<open>arbys/shared/fees.py\<close> and \<open>arbys/shared/odds.py\<close>. The classes of the fee protocol are the
  constructors of \<open>fee_model\<close>; \<open>fee\<close> is their method, with the rounded products in the order the
  code multiplies. The locale \<open>fee_schedule\<close> is the \<open>FeeModel\<close> protocol with the laws its clients
  (engine and broker) rely on; it is interpreted on \<open>fee\<close>.
\<close>

datatype fee_model =
    ZeroFeeModel string
  | KalshiFeeModel string rat
  | PolymarketUsFeeModel string rat
  | NovigFeeModel string rat
  | SportsbookFeeModel string

type_synonym fee_registry = "(string, fee_model) dict"

definition kalshi_default :: fee_model where
  "kalshi_default = KalshiFeeModel ''kalshi'' (7 / 100)"

definition polymarket_us_default :: fee_model where
  "polymarket_us_default = PolymarketUsFeeModel ''polymarket_us'' (6 / 100)"

definition novig_default :: fee_model where
  "novig_default = NovigFeeModel ''novig'' (3 / 100)"

definition quadratic_fee :: "rat \<Rightarrow> rat \<Rightarrow> rat \<Rightarrow> rat" where
  "quadratic_fee rate price qty =
     (if qty \<le> 0 then 0 else dmul (dmul (dmul rate price) (dsub 1 price)) qty)"

fun fee :: "fee_model \<Rightarrow> rat \<Rightarrow> rat \<Rightarrow> bool \<Rightarrow> rat" where
  "fee (ZeroFeeModel _) price qty is_buy = 0"
| "fee (KalshiFeeModel _ rate) price qty is_buy = quadratic_fee rate price qty"
| "fee (PolymarketUsFeeModel _ rate) price qty is_buy = quadratic_fee rate price qty"
| "fee (NovigFeeModel _ rate) price qty is_buy = quadratic_fee rate price qty"
| "fee (SportsbookFeeModel _) price qty is_buy = 0"

fun fee_rate :: "fee_model \<Rightarrow> rat" where
  "fee_rate (ZeroFeeModel _) = 0"
| "fee_rate (KalshiFeeModel _ rate) = rate"
| "fee_rate (PolymarketUsFeeModel _ rate) = rate"
| "fee_rate (NovigFeeModel _ rate) = rate"
| "fee_rate (SportsbookFeeModel _) = 0"

definition fee_ok :: "fee_model \<Rightarrow> bool" where
  "fee_ok m \<longleftrightarrow> 0 \<le> fee_rate m \<and> fee_rate m \<le> 1"

subsection \<open>The protocol and its laws\<close>

locale fee_schedule =
  fixes charge :: "'m \<Rightarrow> rat \<Rightarrow> rat \<Rightarrow> bool \<Rightarrow> rat" and ok :: "'m \<Rightarrow> bool"
  assumes charge_nonneg: "ok m \<Longrightarrow> 0 \<le> p \<Longrightarrow> p \<le> 1 \<Longrightarrow> 0 \<le> charge m p q b"
    and charge_free: "q \<le> 0 \<Longrightarrow> charge m p q b = 0"
    and charge_rep: "dec_rep (charge m p q b)"
    and charge_le_gross: "ok m \<Longrightarrow> 0 \<le> p \<Longrightarrow> p \<le> 1 \<Longrightarrow> dec_rep p \<Longrightarrow> 0 \<le> q \<Longrightarrow> charge m p q b \<le> dmul p q"
begin

text \<open>What a buy debits: price times quantity plus the fee, each product rounded.\<close>

lemma buy_cost_nonneg:
  "ok m \<Longrightarrow> 0 \<le> p \<Longrightarrow> p \<le> 1 \<Longrightarrow> 0 \<le> q \<Longrightarrow> 0 \<le> dadd (dmul p q) (charge m p q b)"
  by (simp add: dadd_nonneg dmul_nonneg charge_nonneg)

lemma buy_cost_ge_price:
  assumes "ok m" "0 \<le> p" "p \<le> 1"
  shows "dmul p q \<le> dadd (dmul p q) (charge m p q b)"
  unfolding dadd_def using assms
  by (intro dec.ge_fixed) (simp_all add: charge_nonneg flip: dec_rep_def)

text \<open>What a sale credits is never negative.\<close>

lemma sale_proceeds_nonneg:
  "ok m \<Longrightarrow> 0 \<le> p \<Longrightarrow> p \<le> 1 \<Longrightarrow> dec_rep p \<Longrightarrow> 0 \<le> q \<Longrightarrow> 0 \<le> dsub (dmul p q) (charge m p q b)"
  by (simp add: dec_simps charge_le_gross)

lemma unit_cost_pos:
  "ok m \<Longrightarrow> 0 < p \<Longrightarrow> p \<le> 1 \<Longrightarrow> 0 < dadd p (charge m p q b)"
  using charge_nonneg [of m p q b] by (simp add: dadd_def)

end

lemma quadratic_fee_nonneg: "0 \<le> rate \<Longrightarrow> 0 \<le> p \<Longrightarrow> p \<le> 1 \<Longrightarrow> 0 \<le> quadratic_fee rate p q"
  by (simp add: quadratic_fee_def dmul_nonneg dec_simps)

lemma quadratic_fee_rep: "dec_rep (quadratic_fee rate p q)"
  by (simp add: quadratic_fee_def)

text \<open>The fee never exceeds the traded value, also after rounding.\<close>

lemma quadratic_fee_le_gross:
  assumes "0 \<le> rate" "rate \<le> 1" "0 \<le> p" "p \<le> 1" "dec_rep p" "0 \<le> q"
  shows "quadratic_fee rate p q \<le> dmul p q"
proof -
  have a: "dmul rate p \<le> p" unfolding dmul_def using assms
    by (intro dec.le_fixed) (simp_all add: mult_left_le_one_le flip: dec_rep_def)
  have s: "0 \<le> dsub 1 p" "dsub 1 p \<le> 1" unfolding dsub_def using assms
    by (auto intro!: dec.le_fixed simp flip: dec_rep_def)
  have "dmul (dmul rate p) (dsub 1 p) \<le> p" unfolding dmul_def [of "dmul rate p"]
  proof (rule dec.le_fixed)
    have "dmul rate p * dsub 1 p \<le> p * 1"
      using a s assms by (intro mult_mono) (auto simp: dmul_nonneg)
    then show "dmul rate p * dsub 1 p \<le> p" by simp
  qed (use assms(5) dec_rep_def in blast)
  then show ?thesis using assms
    by (auto simp: quadratic_fee_def dmul_nonneg) (auto simp: dmul_def intro!: dec.mono mult_right_mono)
qed

interpretation fees: fee_schedule fee fee_ok
proof
  fix m and p q :: rat and b
  assume "fee_ok m" "0 \<le> p" "p \<le> 1"
  then show "0 \<le> fee m p q b"
    by (cases m) (simp_all add: fee_ok_def quadratic_fee_nonneg)
next
  fix q m p b
  assume "q \<le> (0::rat)"
  then show "fee m p q b = 0" by (cases m) (simp_all add: quadratic_fee_def)
next
  fix m p q b
  show "dec_rep (fee m p q b)" by (cases m) (simp_all add: quadratic_fee_rep)
next
  fix m and p q :: rat and b
  assume "fee_ok m" "0 \<le> p" "p \<le> 1" "dec_rep p" "0 \<le> q"
  then show "fee m p q b \<le> dmul p q"
    by (cases m) (simp_all add: fee_ok_def quadratic_fee_le_gross dmul_nonneg)
qed

lemma default_fees_ok [simp]:
  "fee_ok kalshi_default" "fee_ok polymarket_us_default" "fee_ok novig_default"
  by (simp_all add: fee_ok_def kalshi_default_def polymarket_us_default_def novig_default_def)

subsection \<open>Shape of the fee\<close>

lemma quadratic_fee_extremes: "quadratic_fee rate 0 q = 0" "quadratic_fee rate 1 q = 0"
  by (simp_all add: quadratic_fee_def dmul_def)

text \<open>The fee peaks at even money: at most a quarter of the rate per contract, up to rounding.\<close>

lemma price_variance: "p * (1 - p) \<le> 1 / 4" for p :: rat
proof -
  have "0 \<le> (p - 1/2) * (p - 1/2)" by simp
  then show ?thesis by (simp add: algebra_simps)
qed

lemma dmul_upper: "0 \<le> a \<Longrightarrow> 0 \<le> b \<Longrightarrow> dmul a b \<le> (1 + dec_eps) * (a * b)"
  by (simp add: dmul_def dec.upper)

lemma quadratic_fee_upper:
  assumes "0 \<le> rate" "0 \<le> p" "p \<le> 1" "0 \<le> q"
  shows "quadratic_fee rate p q \<le> (1 + dec_eps) ^ 4 * (rate / 4 * q)"
proof (cases "q \<le> 0")
  case True
  with assms show ?thesis by (simp add: quadratic_fee_def)
next
  case False
  let ?e = "1 + dec_eps"
  have e: "0 \<le> ?e" by (simp add: dec_eps_def)
  have s: "0 \<le> dsub 1 p" using assms by (simp add: dec_simps)
  have s_le: "dsub 1 p \<le> ?e * (1 - p)" unfolding dsub_def using assms by (intro dec.upper) simp
  have "dmul (dmul rate p) (dsub 1 p) \<le> ?e * (dmul rate p * dsub 1 p)"
    using assms s by (intro dmul_upper dmul_nonneg)
  also have "\<dots> \<le> ?e * ((?e * (rate * p)) * (?e * (1 - p)))"
    using assms s s_le e by (intro mult_left_mono mult_mono dmul_upper mult_nonneg_nonneg) auto
  finally have m: "dmul (dmul rate p) (dsub 1 p) \<le> ?e ^ 3 * (rate * (p * (1 - p)))"
    by (simp add: power3_eq_cube algebra_simps)
  also have "\<dots> \<le> ?e ^ 3 * (rate * (1 / 4))"
    using assms e price_variance [of p] by (intro mult_left_mono) auto
  finally have m': "dmul (dmul rate p) (dsub 1 p) \<le> ?e ^ 3 * (rate / 4)" by simp
  have "quadratic_fee rate p q \<le> ?e * (dmul (dmul rate p) (dsub 1 p) * q)"
    using False assms s by (simp add: quadratic_fee_def dmul_upper dmul_nonneg)
  also have "\<dots> \<le> ?e * ((?e ^ 3 * (rate / 4)) * q)"
    using e m' assms by (intro mult_left_mono mult_right_mono) auto
  also have "\<dots> = ?e ^ 4 * (rate / 4 * q)"
    by (simp add: mult.assoc flip: power_Suc [of ?e 3, simplified])
  finally show ?thesis .
qed

subsection \<open>Odds\<close>

definition american_to_decimal :: "int \<Rightarrow> rat res" where
  "american_to_decimal american =
     (if american = 0 then Inl ValueError
      else if american > 0
      then bindE (ddiv (of_int american) 100) (\<lambda>d. Inr (dadd d 1))
      else bindE (ddiv 100 (of_int (- american))) (\<lambda>d. Inr (dadd d 1)))"

definition decimal_to_implied_prob :: "rat \<Rightarrow> rat res" where
  "decimal_to_implied_prob decimal_odds =
     (if decimal_odds \<le> 1 then Inl ValueError else ddiv 1 decimal_odds)"

definition american_to_implied_prob :: "int \<Rightarrow> rat res" where
  "american_to_implied_prob american = bindE (american_to_decimal american) decimal_to_implied_prob"

definition devig_two_way :: "rat \<Rightarrow> rat \<Rightarrow> (rat \<times> rat) res" where
  "devig_two_way p_a p_b =
     (let total = dadd p_a p_b in
      if total \<le> 0 then Inl ValueError
      else bindE (ddiv p_a total) (\<lambda>a. bindE (ddiv p_b total) (\<lambda>b. Inr (a, b))))"

lemma ddiv_Inr_iff [res_simps]: "ddiv a b = Inr c \<longleftrightarrow> b \<noteq> 0 \<and> c = dec_round (a / b)"
  by (auto simp: ddiv_def)

lemma ddiv_nonzero: "b \<noteq> 0 \<Longrightarrow> ddiv a b = Inr (dec_round (a / b))"
  by (simp add: ddiv_def)

declare quadratic_fee_def [eval_rules] kalshi_default_def [eval_rules]
  polymarket_us_default_def [eval_rules] novig_default_def [eval_rules] fee_ok_def [eval_rules]
  american_to_decimal_def [eval_rules] decimal_to_implied_prob_def [eval_rules]
  american_to_implied_prob_def [eval_rules] devig_two_way_def [eval_rules]

end
