(* ===== verification/Qty.thy ===== *)
theory Qty
  imports Fees
begin

section \<open>How many contracts are tradeable\<close>

text \<open>
  \<open>arbys/shared/qty.py\<close>. A depth is \<open>None\<close> (unknown, no ceiling), zero (known empty) or a
  resting size. Division can raise, and so can \<open>quantize\<close> when the quotient needs more than 28
  digits, so the results are in the exception monad.
\<close>

definition round_down_tick :: "rat \<Rightarrow> rat \<Rightarrow> rat res" where
  "round_down_tick value tick =
     (if tick \<le> 0 then Inr value
      else bindE (ddiv value tick) (\<lambda>v. bindE (dquantize_down 0 v) (\<lambda>n. Inr (dmul n tick))))"

definition LEGACY_UNBOUNDED_QTY :: rat where
  "LEGACY_UNBOUNDED_QTY = 100"

definition known_depths :: "rat option list \<Rightarrow> rat list" where
  "known_depths depths = map the (filter (\<lambda>d. d \<noteq> None) depths)"

definition depth_qty :: "rat option list \<Rightarrow> rat option" where
  "depth_qty depths = (case known_depths depths of [] \<Rightarrow> None | known \<Rightarrow> Some (min_list known))"

definition budget_qty :: "rat option \<Rightarrow> rat \<Rightarrow> rat option \<Rightarrow> rat option res" where
  "budget_qty qty unit_cost max_stake =
     (case max_stake of
        None \<Rightarrow> Inr qty
      | Some m \<Rightarrow>
          if 0 < m \<and> 0 < unit_cost
          then bindE (ddiv m unit_cost) (\<lambda>b. Inr (Some (case qty of None \<Rightarrow> b | Some q \<Rightarrow> min q b)))
          else Inr qty)"

definition tradeable_qty :: "rat \<Rightarrow> rat option list \<Rightarrow> rat option \<Rightarrow> rat \<Rightarrow> rat res" where
  "tradeable_qty unit_cost depths max_stake tick =
     (if \<exists>d \<in> set depths. (case d of None \<Rightarrow> False | Some x \<Rightarrow> x \<le> 0) then Inr 0
      else bindE (budget_qty (depth_qty depths) unit_cost max_stake) (\<lambda>qo.
        let qty = (case qo of None \<Rightarrow> LEGACY_UNBOUNDED_QTY | Some q \<Rightarrow> q) in
        bindE (if 0 < tick then round_down_tick qty tick else Inr qty) (\<lambda>qty.
        Inr (if 0 < qty then qty else 0))))"

subsection \<open>Rounding down to a tick\<close>

lemma truncate_rat_bounds:
  "0 \<le> x \<Longrightarrow> 0 \<le> truncate_rat x \<and> of_int (truncate_rat x) \<le> x \<and> x < of_int (truncate_rat x) + 1"
  using floor_correct [of x] by (simp add: truncate_rat_def)

lemma dquantize_down_Inr:
  assumes "dquantize_down k x = Inr y"
  shows "\<exists>c. y = of_int c / 10 ^ k \<and> c = truncate_rat (x * 10 ^ k) \<and> \<bar>c\<bar> < 10 ^ 28"
  using assms by (auto simp: dquantize_down_def Let_def split: if_splits)

lemma dquantize_down_le:
  assumes "dquantize_down k x = Inr y" "0 \<le> x"
  shows "0 \<le> y" "y \<le> x" "x < y + 1 / 10 ^ k"
proof -
  from dquantize_down_Inr [OF assms(1)] obtain c
    where y: "y = of_int c / 10 ^ k" and c: "c = truncate_rat (x * 10 ^ k)" by blast
  from assms(2) have "0 \<le> c \<and> of_int c \<le> x * 10 ^ k \<and> x * 10 ^ k < of_int c + 1"
    unfolding c by (intro truncate_rat_bounds) simp
  then show "0 \<le> y" "y \<le> x" "x < y + 1 / 10 ^ k"
    by (simp_all add: y pos_divide_le_eq pos_less_divide_eq flip: add_divide_distrib)
qed

lemma dquantize_down_rep: "dquantize_down k x = Inr y \<Longrightarrow> dec_rep y"
  by (drule dquantize_down_Inr, elim exE conjE, rule dec_rep_grid [OF on_gridI])
     (auto simp flip: of_int_abs of_int_power intro: less_imp_le)

lemma dquantize_down_ok: "0 \<le> x \<Longrightarrow> x * 10 ^ k < 10 ^ 28 \<Longrightarrow> \<exists>y. dquantize_down k x = Inr y"
proof -
  assume x: "0 \<le> x" "x * 10 ^ k < 10 ^ 28"
  let ?c = "truncate_rat (x * 10 ^ k)"
  have c: "0 \<le> ?c \<and> of_int ?c \<le> x * 10 ^ k" using x truncate_rat_bounds [of "x * 10 ^ k"] by simp
  with x have "of_int ?c < (of_int (10 ^ 28) :: rat)" by simp
  then have "?c < 10 ^ 28" by (simp only: of_int_less_iff)
  with c show ?thesis by (simp add: dquantize_down_def Let_def)
qed

text \<open>
  A tick-rounded size is a whole number of ticks and exceeds the value by at most the rounding of
  the one division; it does not exceed it at all where the quotient is exact.
\<close>

lemma round_down_tick_multiple:
  assumes "round_down_tick v t = Inr q" "0 < t"
  shows "\<exists>n::int. q = dec_round (of_int n * t)"
  using assms dquantize_down_Inr [of 0]
  by (fastforce simp: round_down_tick_def res_simps dmul_def)

lemma round_down_tick_le:
  assumes "round_down_tick v t = Inr q" "0 < t" "0 \<le> v" "dec_rep v" "dec_rep (v / t)"
  shows "0 \<le> q" "q \<le> v"
proof -
  from assms(1,2,5) obtain n where n: "dquantize_down 0 (v / t) = Inr n" and q: "q = dmul n t"
    by (auto simp: round_down_tick_def res_simps dec_rep_def)
  have nv: "0 \<le> n" "n \<le> v / t" using dquantize_down_le [OF n] assms by auto
  then show "0 \<le> q" using assms by (simp add: q dmul_nonneg)
  have "n * t \<le> v" using nv assms by (simp add: pos_le_divide_eq)
  then show "q \<le> v" using assms by (simp add: q dmul_def dec.le_fixed flip: dec_rep_def)
qed

lemma round_down_tick_upper:
  assumes "round_down_tick v t = Inr q" "0 < t" "0 \<le> v"
  shows "0 \<le> q" "q \<le> (1 + dec_eps) ^ 2 * v"
proof -
  from assms obtain n where n: "dquantize_down 0 (dec_round (v / t)) = Inr n" and q: "q = dmul n t"
    by (auto simp: round_down_tick_def res_simps)
  have nv: "0 \<le> n" "n \<le> dec_round (v / t)" using dquantize_down_le [OF n] assms by auto
  then show "0 \<le> q" using assms by (simp add: q dmul_nonneg)
  have e: "0 \<le> 1 + dec_eps" by (simp add: dec_eps_def)
  have "q \<le> (1 + dec_eps) * (n * t)" using nv assms by (simp add: q dmul_upper)
  also have "\<dots> \<le> (1 + dec_eps) * (((1 + dec_eps) * (v / t)) * t)"
    using nv dec.upper [of "v / t"] assms e by (intro mult_left_mono mult_right_mono) auto
  also have "\<dots> = (1 + dec_eps) ^ 2 * v" using assms by (simp add: power2_eq_square)
  finally show "q \<le> (1 + dec_eps) ^ 2 * v" .
qed

subsection \<open>The tradeable quantity\<close>

lemma set_known_depths: "set (known_depths ds) = {x. Some x \<in> set ds}"
  by (force simp: known_depths_def)

lemma depth_qty_None: "depth_qty ds = None \<longleftrightarrow> (\<forall>d \<in> set ds. d = None)"
proof -
  have "depth_qty ds = None \<longleftrightarrow> set (known_depths ds) = {}"
    by (simp add: depth_qty_def split: list.splits)
  then show ?thesis unfolding set_known_depths by auto (metis option.exhaust)
qed

lemma depth_qty_Some:
  assumes "depth_qty ds = Some q"
  shows "Some q \<in> set ds" "Some d \<in> set ds \<Longrightarrow> q \<le> d"
proof -
  from assms have ne: "known_depths ds \<noteq> []" and q: "q = Min (set (known_depths ds))"
    by (auto simp: depth_qty_def min_list_Min simp del: min_list.simps split: list.splits)
  from ne have "q \<in> set (known_depths ds)" unfolding q by (intro Min_in) auto
  then show "Some q \<in> set ds" by (simp add: set_known_depths)
  assume "Some d \<in> set ds"
  then have "d \<in> set (known_depths ds)" by (simp add: set_known_depths)
  then show "q \<le> d" unfolding q by (rule Min_le [rotated]) simp
qed

lemma budget_qty_Inr:
  assumes "budget_qty qo c ms = Inr r"
  shows "(r = qo \<and> (\<forall>m. ms = Some m \<longrightarrow> m \<le> 0 \<or> c \<le> 0)) \<or>
    (\<exists>m. ms = Some m \<and> 0 < m \<and> 0 < c \<and>
       r = Some (case qo of None \<Rightarrow> dec_round (m / c) | Some q \<Rightarrow> min q (dec_round (m / c))))"
  using assms by (auto simp: budget_qty_def ddiv_def split: option.splits if_splits)

lemma tradeable_qty_known_empty:
  "Some d \<in> set ds \<Longrightarrow> d \<le> 0 \<Longrightarrow> tradeable_qty c ds ms t = Inr 0"
  by (force simp: tradeable_qty_def)

text \<open>Inversion: a positive result was the bounded size, floored to the tick.\<close>

lemma tradeable_qtyE:
  assumes "tradeable_qty c ds ms t = Inr q" "0 < q"
  obtains qo q0 where "budget_qty (depth_qty ds) c ms = Inr qo"
    "q0 = (case qo of None \<Rightarrow> LEGACY_UNBOUNDED_QTY | Some x \<Rightarrow> x)"
    "(if 0 < t then round_down_tick q0 t else Inr q0) = Inr q"
    "\<forall>d. Some d \<in> set ds \<longrightarrow> 0 < d"
proof -
  have no: "\<not> (\<exists>d \<in> set ds. (case d of None \<Rightarrow> False | Some x \<Rightarrow> x \<le> 0))"
  proof
    assume "\<exists>d \<in> set ds. (case d of None \<Rightarrow> False | Some x \<Rightarrow> x \<le> 0)"
    then have "tradeable_qty c ds ms t = Inr 0" unfolding tradeable_qty_def by (simp only: if_True)
    with assms show False by simp
  qed
  then have "\<forall>d. Some d \<in> set ds \<longrightarrow> 0 < d" by force
  moreover from no assms have "bindE (budget_qty (depth_qty ds) c ms) (\<lambda>qo.
        let qty = (case qo of None \<Rightarrow> LEGACY_UNBOUNDED_QTY | Some q \<Rightarrow> q) in
        bindE (if 0 < t then round_down_tick qty t else Inr qty) (\<lambda>qty.
        Inr (if 0 < qty then qty else 0))) = Inr q"
    unfolding tradeable_qty_def by (simp only: if_False)
  ultimately show thesis
    using assms(2) by (auto simp: res_simps Let_def split: if_splits intro: that)
qed

lemma tradeable_qty_nonneg: "tradeable_qty c ds ms t = Inr q \<Longrightarrow> 0 \<le> q"
  by (auto simp: tradeable_qty_def res_simps Let_def split: if_splits)

text \<open>
  The bounds of a ticket size under a tick of \<open>1 / 10 ^ k\<close> (the default is 0.01): it never exceeds a
  known depth, it is a whole number of ticks, and it costs at most the stake cap up to the rounding
  of the division that derived it.
\<close>

lemma round_down_tick_grid:
  assumes "round_down_tick v (1 / 10 ^ k) = Inr q"
  shows "on_grid k q"
proof -
  from assms obtain n where n: "dquantize_down 0 (dec_round (v * 10 ^ k)) = Inr n" "q = dmul n (1 / 10 ^ k)"
    by (auto simp: round_down_tick_def res_simps)
  from dquantize_down_Inr [OF n(1)] obtain c where c: "n = of_int c" "\<bar>c\<bar> < 10 ^ 28" by auto
  have g: "on_grid k (of_int c / 10 ^ k)" by (rule on_gridI) simp
  have "\<bar>of_int c / 10 ^ k\<bar> * 10 ^ k = (of_int \<bar>c\<bar> :: rat)" by simp
  also have "\<dots> \<le> of_int (10 ^ 28)" using c(2) by (simp only: of_int_le_iff)
  finally have "dec_rep (of_int c / 10 ^ k)" by (intro dec_rep_grid [OF g]) simp
  with g show ?thesis by (simp add: n(2) c(1) dmul_def dec_rep_def)
qed

lemma LEGACY_rep: "dec_rep LEGACY_UNBOUNDED_QTY"
  by (rule dec_rep_grid [of 0]) (simp_all add: LEGACY_UNBOUNDED_QTY_def on_grid_def)

lemma budget_qty_bounds:
  assumes "budget_qty qo c ms = Inr r"
  shows "qo = Some d \<Longrightarrow> \<exists>x. r = Some x \<and> x \<le> d"
    and "ms = Some m \<Longrightarrow> 0 < m \<Longrightarrow> 0 < c \<Longrightarrow> \<exists>x. r = Some x \<and> x \<le> dec_round (m / c)"
  using budget_qty_Inr [OF assms] by (auto split: option.splits)

lemma budget_qty_rep:
  assumes "budget_qty qo c ms = Inr (Some x)" "\<And>q. qo = Some q \<Longrightarrow> dec_rep q"
  shows "dec_rep x"
  using budget_qty_Inr [OF assms(1)] assms(2) by (auto simp: min_def split: option.splits if_splits)

lemma tradeable_qty_bounds:
  assumes tq: "tradeable_qty c ds ms (1 / 10 ^ k) = Inr q"
    and rep: "\<And>d. Some d \<in> set ds \<Longrightarrow> dec_rep d"
    and pos: "0 < q"
  shows "on_grid k q"
    and "Some d \<in> set ds \<Longrightarrow> q \<le> d"
    and "ms = Some m \<Longrightarrow> 0 < m \<Longrightarrow> 0 < c \<Longrightarrow> q * c \<le> (1 + dec_eps) * m"
proof -
  from tq pos obtain qo q0 where bq: "budget_qty (depth_qty ds) c ms = Inr qo"
    and q0: "q0 = (case qo of None \<Rightarrow> LEGACY_UNBOUNDED_QTY | Some x \<Rightarrow> x)"
    and rd: "(if 0 < (1 / 10 ^ k :: rat) then round_down_tick q0 (1 / 10 ^ k) else Inr q0) = Inr q"
    and dpos: "\<forall>d. Some d \<in> set ds \<longrightarrow> 0 < d" by (rule tradeable_qtyE)
  from rd have rd': "round_down_tick q0 (1 / 10 ^ k) = Inr q" by simp
  then show "on_grid k q" by (rule round_down_tick_grid)
  have dec_rep_q0: "dec_rep q0"
  proof (cases qo)
    case None
    then show ?thesis by (simp add: q0 LEGACY_rep)
  next
    case (Some x)
    with bq rep depth_qty_Some(1) [of ds] show ?thesis
      by (auto simp: q0 intro: budget_qty_rep)
  qed
  then have rep': "dec_rep (q0 * 10 ^ k)" by (rule dec_rep_shift)
  have "0 \<le> q0"
  proof (cases qo)
    case (Some x)
    have "0 \<le> d" if "depth_qty ds = Some d" for d
      using dpos depth_qty_Some(1) [OF that] by (simp add: less_imp_le)
    with budget_qty_Inr [OF bq] Some show ?thesis
      by (auto simp: q0 min_def split: option.splits)
  qed (simp add: q0 LEGACY_UNBOUNDED_QTY_def)
  with round_down_tick_le [OF rd'] rep' dec_rep_q0 have qq0: "q \<le> q0" by simp
  {
    assume d: "Some d \<in> set ds"
    then obtain x where x: "depth_qty ds = Some x" using depth_qty_None [of ds] by fastforce
    with budget_qty_bounds(1) [OF bq] have "q0 \<le> x" by (auto simp: q0)
    with x d qq0 depth_qty_Some(2) show "q \<le> d" by fastforce
  }
  assume m: "ms = Some m" "0 < m" "0 < c"
  with budget_qty_bounds(2) [OF bq] have "q0 \<le> dec_round (m / c)" by (auto simp: q0)
  with qq0 dec.upper [of "m / c"] m have "q \<le> (1 + dec_eps) * (m / c)" by fastforce
  then have "q * c \<le> (1 + dec_eps) * (m / c) * c" using m by (intro mult_right_mono) auto
  with m show "q * c \<le> (1 + dec_eps) * m" by simp
qed

declare round_down_tick_def [eval_rules] known_depths_def [eval_rules] depth_qty_def [eval_rules]
  budget_qty_def [eval_rules] tradeable_qty_def [eval_rules] LEGACY_UNBOUNDED_QTY_def [eval_rules]

end
