(* ===== verification/Arb_Engine.thy ===== *)
theory Arb_Engine
  imports Qty
begin

section \<open>Arbitrage detection\<close>

text \<open>
  \<open>arbys/shared/arb_engine.py\<close>: the two detectors. The nested loops of
  \<open>detect_cross_venue_two_leg\<close> are \<open>foldE\<close> over the YES legs and, inside, over the NO legs;
  \<open>cross_pair\<close> is one iteration of the inner body, where \<open>Inr None\<close> is each \<open>continue\<close>. Division
  raises, so a detector can end in an exception instead of a result.
\<close>

record arb_leg =
  al_outcome :: string
  al_venue :: string
  al_is_buy :: bool
  al_price :: rat
  al_qty :: rat
  al_fee :: rat

record arb_opportunity =
  opp_group :: string
  opp_legs :: "arb_leg list"
  total_stake :: rat
  guaranteed_profit :: rat
  guaranteed_profit_bps :: rat

definition DEFAULT_QTY_TICK :: rat where
  "DEFAULT_QTY_TICK = 1 / 100"

definition leg_unit_cost :: "rat \<Rightarrow> fee_model \<Rightarrow> bool \<Rightarrow> rat" where
  "leg_unit_cost a m is_buy = dadd a (fee m a 1 is_buy)"

definition net_edge_per_contract :: "rat list \<Rightarrow> rat" where
  "net_edge_per_contract unit_costs = dsub 1 (dsum unit_costs)"

definition buy_leg :: "event_group_leg \<Rightarrow> rat \<Rightarrow> rat \<Rightarrow> rat \<Rightarrow> arb_leg" where
  "buy_leg l price qty f = \<lparr>al_outcome = leg_outcome l, al_venue = leg_venue l, al_is_buy = True,
     al_price = price, al_qty = qty, al_fee = f\<rparr>"

text \<open>The knobs the callers pass: stake cap, size floor, per-venue ticks.\<close>

record sizing_params =
  max_ticket_stake :: "rat option"
  min_qty :: rat
  tick_by_venue :: "(string, rat) dict"

definition leg_tick :: "sizing_params \<Rightarrow> event_group_leg \<Rightarrow> rat" where
  "leg_tick ps l = dict_get DEFAULT_QTY_TICK (tick_by_venue ps) (leg_venue l)"

definition cross_size :: "sizing_params \<Rightarrow> rat \<Rightarrow> event_group_leg \<times> quote \<Rightarrow> event_group_leg \<times> quote \<Rightarrow> rat res" where
  "cross_size ps unit_cost y n =
     tradeable_qty unit_cost [ask_size (snd y), ask_size (snd n)] (max_ticket_stake ps)
       (max (leg_tick ps (fst y)) (leg_tick ps (fst n)))"

definition cross_opportunity ::
  "string \<Rightarrow> event_group_leg \<times> quote \<times> fee_model \<Rightarrow> event_group_leg \<times> quote \<times> fee_model \<Rightarrow> rat
    \<Rightarrow> arb_opportunity option res" where
  "cross_opportunity gid yc nc qty =
     (case (yc, nc) of ((y, yq, ym), (n, nq, nm)) \<Rightarrow>
       let y_fee = fee ym (ask yq) qty True;
           n_fee = fee nm (ask nq) qty True;
           stake = dadd (dadd (dadd (dmul (ask yq) qty) (dmul (ask nq) qty)) y_fee) n_fee;
           profit = dsub qty stake
       in if profit \<le> 0 then Inr None
          else bindE (ddiv profit stake) (\<lambda>ratio.
            Inr (Some \<lparr>opp_group = gid,
              opp_legs = [buy_leg y (ask yq) qty y_fee, buy_leg n (ask nq) qty n_fee],
              total_stake = stake, guaranteed_profit = profit,
              guaranteed_profit_bps = dmul ratio 10000\<rparr>)))"

definition cross_pair ::
  "string \<Rightarrow> (string, quote) dict \<Rightarrow> fee_registry \<Rightarrow> sizing_params
    \<Rightarrow> event_group_leg \<times> quote \<times> fee_model \<Rightarrow> event_group_leg \<Rightarrow> arb_opportunity option res" where
  "cross_pair gid quotes fees ps yc n =
     (case yc of (y, yq, ym) \<Rightarrow>
       if leg_venue n = leg_venue y then Inr None
       else case map_of quotes (leg_outcome n) of None \<Rightarrow> Inr None | Some nq \<Rightarrow>
         (case map_of fees (leg_venue n) of None \<Rightarrow> Inr None | Some nm \<Rightarrow>
           let y_unit = leg_unit_cost (ask yq) ym True;
               n_unit = leg_unit_cost (ask nq) nm True;
               unit_cost = dadd y_unit n_unit
           in if net_edge_per_contract [y_unit, n_unit] \<le> 0 then Inr None
              else bindE (cross_size ps unit_cost (y, yq) (n, nq)) (\<lambda>qty.
                if qty \<le> 0 \<or> qty < min_qty ps then Inr None
                else cross_opportunity gid yc (n, nq, nm) qty)))"

definition better :: "arb_opportunity option \<Rightarrow> arb_opportunity option \<Rightarrow> arb_opportunity option" where
  "better best cand = (case cand of None \<Rightarrow> best | Some opp \<Rightarrow>
     (case best of None \<Rightarrow> Some opp
      | Some b \<Rightarrow> if guaranteed_profit b < guaranteed_profit opp then Some opp else Some b))"

definition cross_yes_leg ::
  "event_group \<Rightarrow> (string, quote) dict \<Rightarrow> fee_registry \<Rightarrow> sizing_params \<Rightarrow> event_group_leg list
    \<Rightarrow> event_group_leg \<Rightarrow> arb_opportunity option \<Rightarrow> arb_opportunity option res" where
  "cross_yes_leg g quotes fees ps no_legs y best =
     (case map_of quotes (leg_outcome y) of None \<Rightarrow> Inr best | Some yq \<Rightarrow>
       (case map_of fees (leg_venue y) of None \<Rightarrow> Inr best | Some ym \<Rightarrow>
         foldE (\<lambda>n b. bindE (cross_pair (g_id g) quotes fees ps (y, yq, ym) n) (\<lambda>c. Inr (better b c)))
           no_legs best))"

definition detect_cross_venue_two_leg ::
  "event_group \<Rightarrow> (string, quote) dict \<Rightarrow> fee_registry \<Rightarrow> sizing_params \<Rightarrow> arb_opportunity option res" where
  "detect_cross_venue_two_leg g quotes fees ps =
     (let yes_legs = filter is_yes_side (g_legs g);
          no_legs = filter (\<lambda>l. \<not> is_yes_side l) (g_legs g)
      in if yes_legs = [] \<or> no_legs = [] then Inr None
         else foldE (cross_yes_leg g quotes fees ps no_legs) yes_legs None)"

subsection \<open>The complementary set\<close>

text \<open>The first loop: resolve every leg to its quote and fee model, or give up.\<close>

fun resolve_legs ::
  "(string, quote) dict \<Rightarrow> fee_registry \<Rightarrow> event_group_leg list
    \<Rightarrow> (event_group_leg \<times> quote \<times> fee_model) list option" where
  "resolve_legs quotes fees [] = Some []"
| "resolve_legs quotes fees (l # ls) =
     (case map_of quotes (leg_outcome l) of None \<Rightarrow> None | Some q \<Rightarrow>
       (case map_of fees (leg_venue l) of None \<Rightarrow> None | Some m \<Rightarrow>
         map_option ((#) (l, q, m)) (resolve_legs quotes fees ls)))"

definition resolved_unit_cost :: "event_group_leg \<times> quote \<times> fee_model \<Rightarrow> rat" where
  "resolved_unit_cost r = (case r of (l, q, m) \<Rightarrow> leg_unit_cost (ask q) m True)"

definition resolved_leg :: "rat \<Rightarrow> event_group_leg \<times> quote \<times> fee_model \<Rightarrow> arb_leg" where
  "resolved_leg qty r = (case r of (l, q, m) \<Rightarrow> buy_leg l (ask q) qty (fee m (ask q) qty True))"

definition leg_cost :: "arb_leg \<Rightarrow> rat" where
  "leg_cost a = dadd (dmul (al_price a) (al_qty a)) (al_fee a)"

definition set_tick :: "sizing_params \<Rightarrow> (event_group_leg \<times> quote \<times> fee_model) list \<Rightarrow> rat" where
  "set_tick ps rs = (case map (\<lambda>(l, _, _). leg_tick ps l) rs of [] \<Rightarrow> DEFAULT_QTY_TICK | t # ts \<Rightarrow> foldl max t ts)"

definition detect_complementary_set ::
  "string \<Rightarrow> event_group_leg list \<Rightarrow> (string, quote) dict \<Rightarrow> fee_registry \<Rightarrow> sizing_params
    \<Rightarrow> arb_opportunity option res" where
  "detect_complementary_set gid legs quotes fees ps =
     (if length legs < 2 then Inr None
      else case resolve_legs quotes fees legs of None \<Rightarrow> Inr None | Some rs \<Rightarrow>
        let unit_costs = map resolved_unit_cost rs;
            depths = map (\<lambda>(_, q, _). ask_size q) rs
        in if net_edge_per_contract unit_costs \<le> 0 then Inr None
           else bindE (tradeable_qty (dsum unit_costs) depths (max_ticket_stake ps) (set_tick ps rs)) (\<lambda>qty.
             if qty \<le> 0 \<or> qty < min_qty ps then Inr None
             else let arb_legs = map (resolved_leg qty) rs;
                      stake = foldl (\<lambda>t a. dadd t (leg_cost a)) 0 arb_legs;
                      profit = dsub qty stake
                  in if profit \<le> 0 then Inr None
                     else bindE (ddiv profit stake) (\<lambda>ratio.
                       Inr (Some \<lparr>opp_group = gid, opp_legs = arb_legs, total_stake = stake,
                         guaranteed_profit = profit, guaranteed_profit_bps = dmul ratio 10000\<rparr>))))"

subsection \<open>One pair of legs\<close>

text \<open>Everything the inner loop body checked, for a pair it turned into an opportunity.\<close>

definition priced_pair ::
  "event_group \<Rightarrow> (string, quote) dict \<Rightarrow> fee_registry \<Rightarrow> sizing_params
    \<Rightarrow> event_group_leg \<Rightarrow> event_group_leg \<Rightarrow> arb_opportunity \<Rightarrow> bool" where
  "priced_pair g quotes fees ps y n opp \<longleftrightarrow>
     (\<exists>yq ym. map_of quotes (leg_outcome y) = Some yq \<and> map_of fees (leg_venue y) = Some ym \<and>
        cross_pair (g_id g) quotes fees ps (y, yq, ym) n = Inr (Some opp))"

lemma cross_opportunity_Some:
  assumes "cross_opportunity gid (y, yq, ym) (n, nq, nm) qty = Inr (Some opp)"
  shows "opp_group opp = gid"
    and "opp_legs opp = [buy_leg y (ask yq) qty (fee ym (ask yq) qty True),
      buy_leg n (ask nq) qty (fee nm (ask nq) qty True)]"
    and "total_stake opp < qty" "guaranteed_profit opp = dsub qty (total_stake opp)"
    and "total_stake opp = dadd (dadd (dadd (dmul (ask yq) qty) (dmul (ask nq) qty))
      (fee ym (ask yq) qty True)) (fee nm (ask nq) qty True)"
    and "total_stake opp \<noteq> 0"
  using assms by (auto simp: cross_opportunity_def Let_def res_simps dec_simps not_le split: if_splits)

lemma cross_pair_Some:
  assumes "cross_pair gid quotes fees ps (y, yq, ym) n = Inr (Some opp)"
  obtains nq nm qty where
    "leg_venue n \<noteq> leg_venue y" "map_of quotes (leg_outcome n) = Some nq" "map_of fees (leg_venue n) = Some nm"
    "net_edge_per_contract [leg_unit_cost (ask yq) ym True, leg_unit_cost (ask nq) nm True] > 0"
    "cross_size ps (dadd (leg_unit_cost (ask yq) ym True) (leg_unit_cost (ask nq) nm True)) (y, yq) (n, nq) = Inr qty"
    "0 < qty" "min_qty ps \<le> qty"
    "cross_opportunity gid (y, yq, ym) (n, nq, nm) qty = Inr (Some opp)"
  using assms
  by (auto simp: cross_pair_def Let_def res_simps not_le not_less split: if_splits option.splits)

subsection \<open>The scan keeps the best candidate\<close>

definition scan_best :: "('a \<Rightarrow> arb_opportunity option res) \<Rightarrow> 'a list \<Rightarrow> arb_opportunity option
    \<Rightarrow> arb_opportunity option res" where
  "scan_best f = foldE (\<lambda>x b. bindE (f x) (\<lambda>c. Inr (better b c)))"

lemma scan_best_simps:
  "scan_best f [] b = Inr b"
  "scan_best f (x # xs) b = bindE (f x) (\<lambda>c. scan_best f xs (better b c))"
  by (simp_all add: scan_best_def bindE_def split: sum.splits)

lemma better_Some_cases: "better b c = Some r \<Longrightarrow> b = Some r \<or> c = Some r"
  by (auto simp: better_def split: option.splits if_splits)

lemma better_None: "better b c = None \<longleftrightarrow> b = None \<and> c = None"
  by (auto simp: better_def split: option.splits)

definition worth_at_most :: "arb_opportunity option \<Rightarrow> arb_opportunity option \<Rightarrow> bool" where
  "worth_at_most a b \<longleftrightarrow>
     (\<forall>x. a = Some x \<longrightarrow> (\<exists>y. b = Some y \<and> guaranteed_profit x \<le> guaranteed_profit y))"

lemma worth_at_most_trans: "worth_at_most a b \<Longrightarrow> worth_at_most b c \<Longrightarrow> worth_at_most a c"
  by (cases a; cases b; cases c) (auto simp: worth_at_most_def)

lemma worth_at_most_better: "worth_at_most b (better b c)" "worth_at_most c (better b c)"
  by (auto simp: worth_at_most_def better_def split: option.splits)

lemma scan_best_source:
  "scan_best f xs b = Inr (Some r) \<Longrightarrow> b = Some r \<or> (\<exists>x \<in> set xs. f x = Inr (Some r))"
proof (induction xs arbitrary: b)
  case (Cons x xs)
  then obtain c where c: "f x = Inr c" "scan_best f xs (better b c) = Inr (Some r)"
    by (auto simp: scan_best_simps res_simps)
  from Cons.IH [OF c(2)] better_Some_cases [of b c r] c(1) show ?case by auto
qed (simp add: scan_best_simps)

lemma scan_best_max:
  "scan_best f xs b = Inr r \<Longrightarrow>
     worth_at_most b r \<and> (\<forall>x \<in> set xs. \<exists>c. f x = Inr c \<and> worth_at_most c r)"
proof (induction xs arbitrary: b)
  case Nil
  then show ?case by (simp add: scan_best_simps worth_at_most_def)
next
  case (Cons x xs)
  then obtain c where c: "f x = Inr c" "scan_best f xs (better b c) = Inr r"
    by (auto simp: scan_best_simps res_simps)
  from Cons.IH [OF c(2)] have IH: "worth_at_most (better b c) r"
    "\<forall>x \<in> set xs. \<exists>c. f x = Inr c \<and> worth_at_most c r" by auto
  from worth_at_most_trans [OF worth_at_most_better(1) IH(1)]
    worth_at_most_trans [OF worth_at_most_better(2) IH(1)] IH(2) c(1)
  show ?case by auto
qed

lemma cross_yes_leg_scan:
  "cross_yes_leg g quotes fees ps ns y b =
     (case map_of quotes (leg_outcome y) of None \<Rightarrow> Inr b | Some yq \<Rightarrow>
       (case map_of fees (leg_venue y) of None \<Rightarrow> Inr b | Some ym \<Rightarrow>
         scan_best (cross_pair (g_id g) quotes fees ps (y, yq, ym)) ns b))"
  by (simp add: cross_yes_leg_def scan_best_def split: option.split)

lemma cross_yes_leg_source:
  assumes "cross_yes_leg g quotes fees ps ns y b = Inr (Some r)"
  shows "b = Some r \<or> (\<exists>n \<in> set ns. priced_pair g quotes fees ps y n r)"
  using assms scan_best_source
  by (fastforce simp: cross_yes_leg_scan priced_pair_def split: option.splits)

lemma cross_yes_leg_max:
  assumes "cross_yes_leg g quotes fees ps ns y b = Inr r"
  shows "worth_at_most b r"
    and "n \<in> set ns \<Longrightarrow> priced_pair g quotes fees ps y n c \<Longrightarrow> worth_at_most (Some c) r"
  using assms scan_best_max
  by (fastforce simp: cross_yes_leg_scan priced_pair_def worth_at_most_def split: option.splits)+

lemma yes_fold_source:
  "foldE (cross_yes_leg g quotes fees ps ns) ys b = Inr (Some r) \<Longrightarrow>
     b = Some r \<or> (\<exists>y \<in> set ys. \<exists>n \<in> set ns. priced_pair g quotes fees ps y n r)"
proof (induction ys arbitrary: b)
  case (Cons y ys)
  then obtain b' where b': "cross_yes_leg g quotes fees ps ns y b = Inr b'"
    "foldE (cross_yes_leg g quotes fees ps ns) ys b' = Inr (Some r)" by (auto simp: res_simps)
  from Cons.IH [OF b'(2)] b'(1) cross_yes_leg_source [of g quotes fees ps ns y b r] show ?case by auto
qed simp

lemma yes_fold_max:
  "foldE (cross_yes_leg g quotes fees ps ns) ys b = Inr r \<Longrightarrow>
     worth_at_most b r \<and>
     (\<forall>y \<in> set ys. \<forall>n \<in> set ns. \<forall>c. priced_pair g quotes fees ps y n c \<longrightarrow> worth_at_most (Some c) r)"
proof (induction ys arbitrary: b)
  case Nil
  then show ?case by (simp add: worth_at_most_def)
next
  case (Cons y ys)
  then obtain b' where b': "cross_yes_leg g quotes fees ps ns y b = Inr b'"
    "foldE (cross_yes_leg g quotes fees ps ns) ys b' = Inr r" by (auto simp: res_simps)
  from Cons.IH [OF b'(2)] have IH: "worth_at_most b' r"
    "\<forall>y \<in> set ys. \<forall>n \<in> set ns. \<forall>c. priced_pair g quotes fees ps y n c \<longrightarrow> worth_at_most (Some c) r"
    by auto
  show ?case
    using IH worth_at_most_trans [OF cross_yes_leg_max(1) [OF b'(1)] IH(1)]
      worth_at_most_trans [OF cross_yes_leg_max(2) [OF b'(1)] IH(1)] by auto
qed

lemma detect_cross_source:
  assumes "detect_cross_venue_two_leg g quotes fees ps = Inr (Some opp)"
  obtains y n where "y \<in> set (g_legs g)" "is_yes_side y" "n \<in> set (g_legs g)" "\<not> is_yes_side n"
    "priced_pair g quotes fees ps y n opp"
  using assms yes_fold_source [of g quotes fees ps _ _ None opp]
  by (fastforce simp: detect_cross_venue_two_leg_def Let_def split: if_splits)

text \<open>What settlement pays: each leg's resolved value times its quantity, exactly.\<close>

definition opp_payout :: "(string \<Rightarrow> rat) \<Rightarrow> arb_opportunity \<Rightarrow> rat" where
  "opp_payout v opp = (\<Sum>a \<leftarrow> opp_legs opp. v (al_outcome a) * al_qty a)"

declare detect_cross_venue_two_leg_def [eval_rules] cross_yes_leg_def [eval_rules]
  cross_pair_def [eval_rules] cross_size_def [eval_rules] cross_opportunity_def [eval_rules]
  leg_tick_def [eval_rules] better_def [eval_rules] leg_unit_cost_def [eval_rules]
  net_edge_per_contract_def [eval_rules] DEFAULT_QTY_TICK_def [eval_rules] buy_leg_def [eval_rules]
  detect_complementary_set_def [eval_rules] resolved_unit_cost_def [eval_rules]
  resolved_leg_def [eval_rules] leg_cost_def [eval_rules] set_tick_def [eval_rules]
  opp_payout_def [eval_rules]

subsection \<open>A worked ticket\<close>

text \<open>One game quoted on two venues, used by the witnesses.\<close>

definition ex_leg :: "string \<Rightarrow> string \<Rightarrow> bool \<Rightarrow> event_group_leg" where
  "ex_leg oid v b = \<lparr>leg_outcome = oid, leg_venue = v, is_yes_side = b\<rparr>"

definition ex_quote :: "string \<Rightarrow> rat \<Rightarrow> rat \<Rightarrow> rat option \<Rightarrow> quote" where
  "ex_quote oid b a sz = \<lparr>q_outcome_id = oid, bid = b, ask = a, bid_size = sz, ask_size = sz,
     source_age_s = None\<rparr>"

definition ex_group :: event_group where
  "ex_group = \<lparr>g_id = ''g'', g_title = ''demo'', resolution_source_by_venue = [],
     g_legs = [ex_leg ''KY'' ''kalshi'' True, ex_leg ''PN'' ''polymarket_us'' False],
     start_time = None, in_play = None, ended = None, g_source = ''manual''\<rparr>"

definition ex_quotes :: "rat \<Rightarrow> rat \<Rightarrow> (string, quote) dict" where
  "ex_quotes a b = [(''KY'', ex_quote ''KY'' a a (Some 25)), (''PN'', ex_quote ''PN'' b b None)]"

definition ex_fees :: fee_registry where
  "ex_fees = [(''polymarket_us'', polymarket_us_default), (''kalshi'', kalshi_default)]"

definition ex_params :: sizing_params where
  "ex_params = \<lparr>max_ticket_stake = Some 200, min_qty = 0, tick_by_venue = []\<rparr>"

declare ex_leg_def [eval_rules] ex_quote_def [eval_rules] ex_group_def [eval_rules]
  ex_quotes_def [eval_rules] ex_fees_def [eval_rules] ex_params_def [eval_rules]

subsection \<open>Properties\<close>

lemma detect_cross_shape:
  assumes "detect_cross_venue_two_leg g quotes fees ps = Inr (Some opp)"
  obtains y n q yq nq where "y \<in> set (g_legs g)" "n \<in> set (g_legs g)" "is_yes_side y" "\<not> is_yes_side n"
    "leg_venue y \<noteq> leg_venue n" "map_of quotes (leg_outcome y) = Some yq"
    "map_of quotes (leg_outcome n) = Some nq" "0 < q" "min_qty ps \<le> q"
    "\<exists>fy fn. opp_legs opp = [buy_leg y (ask yq) q fy, buy_leg n (ask nq) q fn]"
    "total_stake opp < q" "guaranteed_profit opp = dsub q (total_stake opp)" "opp_group opp = g_id g"
    "\<exists>c. cross_size ps c (y, yq) (n, nq) = Inr q"
proof -
  from assms obtain y n where yn: "y \<in> set (g_legs g)" "is_yes_side y" "n \<in> set (g_legs g)"
    "\<not> is_yes_side n" "priced_pair g quotes fees ps y n opp" by (rule detect_cross_source)
  then obtain yq ym where y: "map_of quotes (leg_outcome y) = Some yq"
    and cp: "cross_pair (g_id g) quotes fees ps (y, yq, ym) n = Inr (Some opp)"
    by (auto simp: priced_pair_def)
  from cp show thesis
  proof (rule cross_pair_Some)
    fix nq nm qty
    assume co: "cross_opportunity (g_id g) (y, yq, ym) (n, nq, nm) qty = Inr (Some opp)"
      and *: "leg_venue n \<noteq> leg_venue y" "map_of quotes (leg_outcome n) = Some nq" "0 < qty"
        "min_qty ps \<le> qty" "cross_size ps (dadd (leg_unit_cost (ask yq) ym True)
          (leg_unit_cost (ask nq) nm True)) (y, yq) (n, nq) = Inr qty"
    note cross_opportunity_Some [OF co]
    with * yn y show thesis
      by (intro that [of y n yq nq qty]) (auto simp del: not_None_eq)
  qed
qed


definition ex_opp :: arb_opportunity where
  "ex_opp = \<lparr>opp_group = ''g'',
     opp_legs = [\<lparr>al_outcome = ''KY'', al_venue = ''kalshi'', al_is_buy = True, al_price = 2 / 5,
         al_qty = 25, al_fee = 21 / 50\<rparr>,
       \<lparr>al_outcome = ''PN'', al_venue = ''polymarket_us'', al_is_buy = True, al_price = 1 / 2,
         al_qty = 25, al_fee = 3 / 8\<rparr>],
     total_stake = 4659 / 200, guaranteed_profit = 341 / 200,
     guaranteed_profit_bps = 3659583601631251341489590041 / 5000000000000000000000000\<rparr>"

lemma ex_detect:
  "detect_cross_venue_two_leg ex_group (ex_quotes (2 / 5) (1 / 2)) ex_fees ex_params = Inr (Some ex_opp)"
  by (simp add: eval_rules ex_opp_def)


text \<open>
  C17: no other pair of legs of the group beats the published one, and when nothing is published no
  pair of legs passes the loop body's checks.
\<close>

theorem detect_cross_optimal:
  assumes "detect_cross_venue_two_leg g quotes fees ps = Inr r"
    and "y \<in> set (g_legs g)" "is_yes_side y" "n \<in> set (g_legs g)" "\<not> is_yes_side n"
    and "priced_pair g quotes fees ps y n c"
  shows "\<exists>best. r = Some best \<and> guaranteed_profit c \<le> guaranteed_profit best"
proof -
  from assms(2-5) have "filter is_yes_side (g_legs g) \<noteq> []" "filter (\<lambda>l. \<not> is_yes_side l) (g_legs g) \<noteq> []"
    by (auto simp: filter_empty_conv)
  with assms(1) have "foldE (cross_yes_leg g quotes fees ps (filter (\<lambda>l. \<not> is_yes_side l) (g_legs g)))
      (filter is_yes_side (g_legs g)) None = Inr r"
    by (simp add: detect_cross_venue_two_leg_def Let_def)
  from yes_fold_max [OF this] assms(2-6) have "worth_at_most (Some c) r" by simp
  then show ?thesis by (simp add: worth_at_most_def)
qed

theorem detect_cross_optimal_witness:
  "\<exists>best. Some ex_opp = Some best \<and> guaranteed_profit ex_opp \<le> guaranteed_profit best"
  by (rule detect_cross_optimal [OF ex_detect, of "ex_leg ''KY'' ''kalshi'' True"
        "ex_leg ''PN'' ''polymarket_us'' False"])
     (simp_all add: priced_pair_def eval_rules ex_opp_def)

text \<open>
  What a published opportunity is made of: one YES leg and one NO leg of the group, on
  different venues, both bought at the current ask and for the same positive quantity, which is at
  least the configured minimum and, on the default tick, never more than a known depth.
\<close>

theorem detect_cross_legs:
  assumes "detect_cross_venue_two_leg g quotes fees ps = Inr (Some opp)"
    and "tick_by_venue ps = []"
    and "\<And>oid q d. map_of quotes oid = Some q \<Longrightarrow> ask_size q = Some d \<Longrightarrow> dec_rep d"
  shows "\<exists>y n yq nq q fy fn. {y, n} \<subseteq> set (g_legs g) \<and> is_yes_side y \<and> \<not> is_yes_side n \<and>
    leg_venue y \<noteq> leg_venue n \<and> map_of quotes (leg_outcome y) = Some yq \<and>
    map_of quotes (leg_outcome n) = Some nq \<and> 0 < q \<and> min_qty ps \<le> q \<and>
    opp_legs opp = [buy_leg y (ask yq) q fy, buy_leg n (ask nq) q fn] \<and>
    (\<forall>d. ask_size yq = Some d \<or> ask_size nq = Some d \<longrightarrow> q \<le> d)"
  using assms(1)
proof (rule detect_cross_shape)
  fix y n q yq nq
  assume yn: "y \<in> set (g_legs g)" "n \<in> set (g_legs g)" "is_yes_side y" "\<not> is_yes_side n"
      "leg_venue y \<noteq> leg_venue n" "map_of quotes (leg_outcome y) = Some yq"
      "map_of quotes (leg_outcome n) = Some nq" "0 < q" "min_qty ps \<le> q"
      "\<exists>fy fn. opp_legs opp = [buy_leg y (ask yq) q fy, buy_leg n (ask nq) q fn]"
    and "\<exists>c. cross_size ps c (y, yq) (n, nq) = Inr q"
  then obtain c where "tradeable_qty c [ask_size yq, ask_size nq] (max_ticket_stake ps) (1 / 10 ^ 2) = Inr q"
    using assms(2) by (auto simp: cross_size_def leg_tick_def DEFAULT_QTY_TICK_def)
  note tradeable_qty_bounds(2) [OF this]
  then have "\<forall>d. ask_size yq = Some d \<or> ask_size nq = Some d \<longrightarrow> q \<le> d"
    using assms(3) yn(6-8) by (metis list.set_intros(1,2) set_ConsD empty_set empty_iff)
  with yn show ?thesis by blast
qed

theorem detect_cross_legs_witness:
  "\<exists>y n yq nq q fy fn. {y, n} \<subseteq> set (g_legs ex_group) \<and> is_yes_side y \<and> \<not> is_yes_side n \<and>
    leg_venue y \<noteq> leg_venue n \<and> map_of (ex_quotes (2 / 5) (1 / 2)) (leg_outcome y) = Some yq \<and>
    map_of (ex_quotes (2 / 5) (1 / 2)) (leg_outcome n) = Some nq \<and> 0 < q \<and> min_qty ex_params \<le> q \<and>
    opp_legs ex_opp = [buy_leg y (ask yq) q fy, buy_leg n (ask nq) q fn] \<and>
    (\<forall>d. ask_size yq = Some d \<or> ask_size nq = Some d \<longrightarrow> q \<le> d)"
  by (rule detect_cross_legs [OF ex_detect])
     (auto simp: eval_rules split: if_splits)

subsection \<open>Exceptions\<close>

lemma round_down_tick_Inl: "round_down_tick v t = Inl e \<Longrightarrow> e = InvalidOperation"
  by (auto simp: round_down_tick_def ddiv_def dquantize_down_def Let_def res_simps split: if_splits)

lemma budget_qty_total: "\<exists>r. budget_qty qo c ms = Inr r"
  by (auto simp: budget_qty_def ddiv_def split: option.splits)

lemma tradeable_qty_Inl: "tradeable_qty c ds ms t = Inl e \<Longrightarrow> e = InvalidOperation"
  using budget_qty_total [of "depth_qty ds" c ms] round_down_tick_Inl
  by (auto simp: tradeable_qty_def res_simps Let_def split: if_splits)

lemma cross_opportunity_Inl:
  assumes "cross_opportunity gid (y, yq, ym) (n, nq, nm) qty = Inl e"
    and "0 < qty" "fee_ok ym" "fee_ok nm" "quote_ok yq" "quote_ok nq"
  shows "e = DivisionByZero \<and> ask yq = 0 \<and> ask nq = 0"
proof -
  let ?fy = "fee ym (ask yq) qty True" and ?fn = "fee nm (ask nq) qty True"
  let ?stake = "dadd (dadd (dadd (dmul (ask yq) qty) (dmul (ask nq) qty)) ?fy) ?fn"
  from assms(1) have z: "?stake = 0" and e: "e = DivisionByZero"
    by (auto simp: cross_opportunity_def Let_def res_simps ddiv_def dsub_sign not_le split: if_splits)
  have nn: "0 \<le> ask yq" "ask yq \<le> 1" "0 \<le> ask nq" "ask nq \<le> 1"
    using assms(5,6) by (auto simp: quote_ok_iff)
  have f: "0 \<le> ?fy" "0 \<le> ?fn" using assms nn by (auto intro: fees.charge_nonneg)
  have p: "0 \<le> dmul (ask yq) qty" "0 \<le> dmul (ask nq) qty" using assms(2) nn by (auto intro: dmul_nonneg)
  have "dmul (ask yq) qty = 0" "dmul (ask nq) qty = 0"
    using z f p by (auto simp: dadd_def add_nonneg_eq_0_iff)
  with assms(2) e show ?thesis by (auto simp: dmul_def)
qed

lemma cross_pair_Inl:
  assumes "cross_pair gid quotes fees ps (y, yq, ym) n = Inl e"
    and "fee_ok ym" "quote_ok yq"
    and "\<And>v m. map_of fees v = Some m \<Longrightarrow> fee_ok m" "\<And>oid q. map_of quotes oid = Some q \<Longrightarrow> quote_ok q"
  shows "e = InvalidOperation \<or> e = DivisionByZero \<and> ask yq = 0 \<and>
    (\<exists>nq. map_of quotes (leg_outcome n) = Some nq \<and> ask nq = 0)"
proof -
  from assms(1) obtain nq nm where n: "map_of quotes (leg_outcome n) = Some nq" "map_of fees (leg_venue n) = Some nm"
    and "(\<exists>c. cross_size ps c (y, yq) (n, nq) = Inl e) \<or>
      (\<exists>qty. 0 < qty \<and> cross_opportunity gid (y, yq, ym) (n, nq, nm) qty = Inl e)"
    by (auto simp: cross_pair_def Let_def res_simps not_le not_less split: if_splits option.splits)
  then show ?thesis
    using tradeable_qty_Inl cross_opportunity_Inl [OF _ _ assms(2) assms(4) assms(3) assms(5), of gid y n nq nm _ e] n
    by (fastforce simp: cross_size_def)
qed

lemma scan_best_Inl: "scan_best f xs b = Inl e \<Longrightarrow> \<exists>x \<in> set xs. f x = Inl e"
  by (induction xs arbitrary: b) (auto simp: scan_best_simps res_simps)

text \<open>
  The only exceptions detection can raise on valid quotes and fee rates: InvalidOperation, from
  a size of more than 28 digits, and DivisionByZero, which needs a YES leg and a NO leg both
  quoted at an ask of zero.
\<close>

theorem detect_cross_exceptions:
  assumes "detect_cross_venue_two_leg g quotes fees ps = Inl e"
    and "\<And>v m. map_of fees v = Some m \<Longrightarrow> fee_ok m"
    and "\<And>oid q. map_of quotes oid = Some q \<Longrightarrow> quote_ok q"
  shows "e = InvalidOperation \<or> e = DivisionByZero \<and> (\<exists>y \<in> set (g_legs g). \<exists>n \<in> set (g_legs g).
    is_yes_side y \<and> \<not> is_yes_side n \<and>
    map_option ask (map_of quotes (leg_outcome y)) = Some 0 \<and>
    map_option ask (map_of quotes (leg_outcome n)) = Some 0)"
proof -
  let ?ns = "filter (\<lambda>l. \<not> is_yes_side l) (g_legs g)"
  from assms(1) obtain y b where y: "y \<in> set (g_legs g)" "is_yes_side y"
    and "cross_yes_leg g quotes fees ps ?ns y b = Inl e"
    by (auto simp: detect_cross_venue_two_leg_def Let_def split: if_splits dest!: foldE_Inl)
  then obtain yq ym n where yq: "map_of quotes (leg_outcome y) = Some yq" "map_of fees (leg_venue y) = Some ym"
    and n: "n \<in> set (g_legs g)" "\<not> is_yes_side n"
    and cp: "cross_pair (g_id g) quotes fees ps (y, yq, ym) n = Inl e"
    by (auto simp: cross_yes_leg_scan split: option.splits dest!: scan_best_Inl)
  have "e = InvalidOperation \<or> e = DivisionByZero \<and> ask yq = 0 \<and>
      (\<exists>nq. map_of quotes (leg_outcome n) = Some nq \<and> ask nq = 0)"
    by (rule cross_pair_Inl [OF cp]) (use assms(2,3) yq in blast)+
  with y n yq(1) show ?thesis by auto
qed

theorem detect_cross_exceptions_witness:
  "DivisionByZero = InvalidOperation \<or> DivisionByZero = DivisionByZero \<and>
    (\<exists>y \<in> set (g_legs ex_group). \<exists>n \<in> set (g_legs ex_group). is_yes_side y \<and> \<not> is_yes_side n \<and>
      map_option ask (map_of (ex_quotes 0 0) (leg_outcome y)) = Some 0 \<and>
      map_option ask (map_of (ex_quotes 0 0) (leg_outcome n)) = Some 0)"
proof (rule detect_cross_exceptions)
  show "detect_cross_venue_two_leg ex_group (ex_quotes 0 0) ex_fees ex_params = Inl DivisionByZero"
    by (simp add: eval_rules)
next
  fix v m
  assume "map_of ex_fees v = Some m"
  then show "fee_ok m" by (auto simp: ex_fees_def split: if_splits)
next
  fix oid q
  assume "map_of (ex_quotes 0 0) oid = Some q"
  then show "quote_ok q" by (auto simp: ex_quotes_def ex_quote_def quote_ok_iff split: if_splits)
qed

text \<open>
  The defect behind it: a group whose YES and NO legs are both quoted at an ask of zero, which
  a valid quote allows, makes the detector raise DivisionByZero (profit over a zero stake) instead
  of reporting the best edge there is.
\<close>

theorem detect_cross_zero_ask_raises:
  assumes "g_legs g = [y, n]" "is_yes_side y" "\<not> is_yes_side n" "leg_venue y \<noteq> leg_venue n"
    and "map_of quotes (leg_outcome y) = Some yq" "map_of quotes (leg_outcome n) = Some nq"
    and "ask yq = 0" "ask nq = 0" "ask_size yq = None" "ask_size nq = None"
    and "map_of fees (leg_venue y) = Some ym" "map_of fees (leg_venue n) = Some nm"
    and "tick_by_venue ps = []" "min_qty ps \<le> 100"
  shows "detect_cross_venue_two_leg g quotes fees ps = Inl DivisionByZero"
proof -
  have free: "fee m 0 q b = 0" for m q b
    by (cases m) (simp_all add: quadratic_fee_extremes)
  have u: "leg_unit_cost 0 m b = 0" for m b by (simp add: leg_unit_cost_def free dadd_def)
  have size: "cross_size ps 0 (y, yq) (n, nq) = Inr 100"
    using assms(9,10,13) by (cases "max_ticket_stake ps")
      (simp_all add: cross_size_def leg_tick_def eval_rules)
  have "dec_round 100 = 100" "dec_round 1 = 1" by (simp_all add: eval_rules)
  then have "cross_pair (g_id g) quotes fees ps (y, yq, ym) n = Inl DivisionByZero"
    using assms size
    by (simp add: cross_pair_def u net_edge_per_contract_def dsum_def dadd_def dsub_def Let_def
        cross_opportunity_def free dmul_def ddiv_def)
  with assms show ?thesis
    by (simp add: detect_cross_venue_two_leg_def cross_yes_leg_scan scan_best_simps)
qed

theorem detect_cross_zero_ask_raises_witness:
  "detect_cross_venue_two_leg ex_group
     [(''KY'', ex_quote ''KY'' 0 0 None), (''PN'', ex_quote ''PN'' 0 0 None)] ex_fees ex_params
   = Inl DivisionByZero"
  by (rule detect_cross_zero_ask_raises [where y = "ex_leg ''KY'' ''kalshi'' True"
        and n = "ex_leg ''PN'' ''polymarket_us'' False" and yq = "ex_quote ''KY'' 0 0 None"
        and nq = "ex_quote ''PN'' 0 0 None" and ym = kalshi_default and nm = polymarket_us_default])
     (simp_all add: eval_rules)

subsection \<open>Complementary sets\<close>

lemma resolve_legs_fst: "resolve_legs quotes fees ls = Some rs \<Longrightarrow> map fst rs = ls"
  by (induction ls arbitrary: rs) (auto split: option.splits)

lemma detect_complementary_Some:
  assumes "detect_complementary_set gid legs quotes fees ps = Inr (Some opp)"
  obtains rs q where "2 \<le> length legs" "resolve_legs quotes fees legs = Some rs" "0 < q" "min_qty ps \<le> q"
    "tradeable_qty (dsum (map resolved_unit_cost rs)) (map (\<lambda>(_, q, _). ask_size q) rs)
       (max_ticket_stake ps) (set_tick ps rs) = Inr q"
    "opp_legs opp = map (resolved_leg q) rs" "total_stake opp < q" "opp_group opp = gid"
  using assms
  by (auto simp: detect_complementary_set_def Let_def res_simps not_le not_less dsub_sign
      split: if_splits option.splits)

lemma resolved_leg_payout:
  "(\<Sum>a \<leftarrow> map (resolved_leg q) rs. v (al_outcome a) * al_qty a) =
   (\<Sum>a \<leftarrow> map (resolved_leg q) rs. v (al_outcome a)) * q"
  by (induction rs) (auto simp: resolved_leg_def buy_leg_def distrib_right)



end
