(* ===== verification/Sizing.thy ===== *)
theory Sizing
  imports Arb_Engine
begin

section \<open>Resizing a detected opportunity\<close>

text \<open>
  \<open>arbys/shared/sizing.py\<close>. Both functions return \<open>None\<close> where the code does; the only exceptions are
  those of the rounding to a tick and of the last division, by a stake of zero.
\<close>

definition per_venue_cost :: "arb_leg list \<Rightarrow> (string, rat) dict" where
  "per_venue_cost legs = fold (\<lambda>l d. dict_set (al_venue l) (dadd (dict_get 0 d (al_venue l)) (leg_cost l)) d) legs []"

fun venue_scale :: "(string, rat) dict \<Rightarrow> (string \<times> rat) list \<Rightarrow> rat option \<Rightarrow> rat option option" where
  "venue_scale bankroll [] scale = Some scale"
| "venue_scale bankroll ((v, cost) # rest) scale =
     (let bank = dict_get 0 bankroll v in
      if bank \<le> 0 \<or> cost \<le> 0 then None
      else let s = dec_round (bank / cost)
           in venue_scale bankroll rest (Some (case scale of None \<Rightarrow> s | Some t \<Rightarrow> min t s)))"

definition resize_leg :: "(string, rat) dict \<Rightarrow> rat \<Rightarrow> arb_leg \<Rightarrow> arb_leg option res" where
  "resize_leg ticks scale l =
     (let tick = dict_get 0 ticks (al_venue l) in
      bindE (if 0 < tick then round_down_tick (dmul (al_qty l) scale) tick else Inr (dmul (al_qty l) scale)) (\<lambda>new_qty.
        if new_qty \<le> 0 then Inr None
        else Inr (Some (l\<lparr>al_qty := new_qty,
          al_fee := (if 0 < al_qty l then dmul (al_fee l) (dec_round (new_qty / al_qty l)) else 0)\<rparr>))))"

fun resize_legs :: "(string, rat) dict \<Rightarrow> rat \<Rightarrow> arb_leg list \<Rightarrow> arb_leg list option res" where
  "resize_legs ticks scale [] = Inr (Some [])"
| "resize_legs ticks scale (l # ls) = bindE (resize_leg ticks scale l) (\<lambda>r. case r of None \<Rightarrow> Inr None
     | Some l' \<Rightarrow> bindE (resize_legs ticks scale ls) (\<lambda>rs. Inr (map_option ((#) l') rs)))"

definition size_to_bankroll ::
  "arb_opportunity \<Rightarrow> (string, rat) dict \<Rightarrow> (string, rat) dict \<Rightarrow> arb_opportunity option res" where
  "size_to_bankroll opp bankroll ticks =
     (if opp_legs opp = [] then Inr None
      else case venue_scale bankroll (per_venue_cost (opp_legs opp)) None of
        None \<Rightarrow> Inr None
      | Some None \<Rightarrow> Inr None
      | Some (Some scale) \<Rightarrow>
          if scale \<le> 0 then Inr None
          else bindE (resize_legs ticks scale (opp_legs opp)) (\<lambda>r. case r of None \<Rightarrow> Inr None
            | Some legs \<Rightarrow>
                let stake = dsum (map leg_cost legs);
                    payoff = Min (set (map al_qty legs));
                    profit = dsub payoff stake
                in if profit \<le> 0 then Inr None
                   else bindE (ddiv profit stake) (\<lambda>ratio. Inr (Some \<lparr>opp_group = opp_group opp, opp_legs = legs,
                     total_stake = stake, guaranteed_profit = profit, guaranteed_profit_bps = dmul ratio 10000\<rparr>))))"

definition size_to_max_stake :: "arb_opportunity \<Rightarrow> rat \<Rightarrow> (string, rat) dict \<Rightarrow> arb_opportunity option res" where
  "size_to_max_stake opp max_stake ticks =
     (if total_stake opp \<le> 0 \<or> max_stake \<le> 0 then Inr None
      else if total_stake opp \<le> max_stake then Inr (Some opp)
      else let scale = dec_round (max_stake / total_stake opp);
               bankroll = map (\<lambda>(v, c). (v, dmul c scale)) (per_venue_cost (opp_legs opp))
           in size_to_bankroll opp bankroll ticks)"

declare per_venue_cost_def [eval_rules] resize_leg_def [eval_rules] size_to_bankroll_def [eval_rules]
  size_to_max_stake_def [eval_rules]

lemma resize_legs_Some:
  "resize_legs ticks scale ls = Inr (Some ls') \<Longrightarrow> list_all2 (\<lambda>l l'. al_outcome l' = al_outcome l \<and>
     al_venue l' = al_venue l \<and> al_price l' = al_price l \<and> al_is_buy l' = al_is_buy l \<and> 0 < al_qty l') ls ls'"
  by (induction ls arbitrary: ls')
    (auto simp: res_simps resize_leg_def Let_def not_le split: option.splits if_splits)

lemma payout_at_least_min:
  assumes "\<And>a. a \<in> set legs \<Longrightarrow> q \<le> al_qty a" "\<And>oid. 0 \<le> v oid"
  shows "q * (\<Sum>a \<leftarrow> legs. v (al_outcome a)) \<le> (\<Sum>a \<leftarrow> legs. v (al_outcome a) * al_qty a)"
  using assms
proof (induction legs)
  case (Cons a legs)
  from Cons.prems have "v (al_outcome a) * q \<le> v (al_outcome a) * al_qty a" by (intro mult_left_mono) auto
  with Cons show ?case by (simp add: distrib_left mult.commute)
qed simp

text \<open>
  Resizing keeps the hedge: the resized opportunity has the same legs at the same prices, each in a
  positive quantity, and its payout still exceeds its stake whatever the outcomes resolve to, as long
  as no value is negative and they add up to one.
\<close>

theorem size_to_bankroll_sound:
  assumes "size_to_bankroll opp bankroll ticks = Inr (Some opp')"
    and "\<And>oid. 0 \<le> v oid" "(\<Sum>a \<leftarrow> opp_legs opp. v (al_outcome a)) = 1"
  shows "total_stake opp' < opp_payout v opp' \<and> map al_outcome (opp_legs opp') = map al_outcome (opp_legs opp) \<and>
    map al_price (opp_legs opp') = map al_price (opp_legs opp) \<and> list_all (\<lambda>a. 0 < al_qty a) (opp_legs opp')"
proof -
  from assms(1) obtain scale legs where r: "resize_legs ticks scale (opp_legs opp) = Inr (Some legs)"
    and ne: "opp_legs opp \<noteq> []" and p: "total_stake opp' < Min (set (map al_qty legs))" and l: "opp_legs opp' = legs"
    by (auto simp: size_to_bankroll_def Let_def res_simps not_le dsub_sign split: if_splits option.splits)
  note a2 = resize_legs_Some [OF r]
  have same: "map al_outcome legs = map al_outcome (opp_legs opp)" "map al_price legs = map al_price (opp_legs opp)"
      "list_all (\<lambda>a. 0 < al_qty a) legs"
    using a2 by (induction rule: list_all2_induct) auto
  have "legs \<noteq> []" using a2 ne by (auto dest: list_all2_lengthD)
  then have "\<And>a. a \<in> set legs \<Longrightarrow> Min (set (map al_qty legs)) \<le> al_qty a" by simp
  from payout_at_least_min [OF this assms(2)]
  have "Min (set (map al_qty legs)) * (\<Sum>a \<leftarrow> legs. v (al_outcome a)) \<le> opp_payout v opp'"
    by (simp add: opp_payout_def l)
  moreover have "(\<Sum>a \<leftarrow> legs. v (al_outcome a)) = sum_list (map v (map al_outcome legs))" by (simp add: comp_def)
  then have "(\<Sum>a \<leftarrow> legs. v (al_outcome a)) = 1" using assms(3) by (simp add: same comp_def)
  ultimately show ?thesis using p l same by simp
qed

definition ex_small :: arb_opportunity where
  "ex_small = \<lparr>opp_group = ''g'',
     opp_legs = [\<lparr>al_outcome = ''KY'', al_venue = ''kalshi'', al_is_buy = True, al_price = 2 / 5, al_qty = 10, al_fee = 0\<rparr>,
       \<lparr>al_outcome = ''PN'', al_venue = ''novig'', al_is_buy = True, al_price = 1 / 2, al_qty = 10, al_fee = 0\<rparr>],
     total_stake = 9, guaranteed_profit = 1, guaranteed_profit_bps = 1111\<rparr>"

lemma ex_resize: "\<exists>opp'. size_to_bankroll ex_small [(''kalshi'', 8), (''novig'', 20)] [] = Inr (Some opp')"
  by (simp add: eval_rules ex_small_def)

theorem size_to_bankroll_sound_witness:
  "\<exists>opp'. size_to_bankroll ex_small [(''kalshi'', 8), (''novig'', 20)] [] = Inr (Some opp') \<and>
     total_stake opp' < opp_payout (\<lambda>oid. if oid = ''KY'' then 1 else 0) opp'"
proof -
  obtain opp' where r: "size_to_bankroll ex_small [(''kalshi'', 8), (''novig'', 20)] [] = Inr (Some opp')"
    using ex_resize by blast
  have "(\<Sum>a \<leftarrow> opp_legs ex_small. (if al_outcome a = ''KY'' then 1 else 0) :: rat) = 1" by (simp add: ex_small_def)
  with size_to_bankroll_sound [OF r, of "\<lambda>oid. if oid = ''KY'' then 1 else 0"] r show ?thesis by auto
qed

end
