(* ===== verification/QuoteBook.thy ===== *)
theory QuoteBook
  imports Types
begin

section \<open>The quote book\<close>

text \<open>
  \<open>arbys/shared/quotebook.py\<close>. The book maps an outcome to its latest quote and the stamp it is aged
  from. Every method reads the monotonic clock once; the reading is the argument \<open>now\<close>. Stamps are
  floats, so their differences are rounded with \<open>flt_round\<close>. The lock makes each method atomic,
  which is what a state-passing function is.
\<close>

record quotebook =
  qb_quotes :: "(string, quote \<times> rat) dict"
  qb_max_age :: "rat option"

definition DEFAULT_MAX_AGE_S :: rat where
  "DEFAULT_MAX_AGE_S = 600"

definition REGRESSION_TOLERANCE_S :: rat where
  "REGRESSION_TOLERANCE_S = 5"

definition fadd :: "rat \<Rightarrow> rat \<Rightarrow> rat" where
  "fadd a b = flt_round (a + b)"

definition fsub :: "rat \<Rightarrow> rat \<Rightarrow> rat" where
  "fsub a b = flt_round (a - b)"

definition empty_book :: "rat option \<Rightarrow> quotebook" where
  "empty_book max_age = \<lparr>qb_quotes = [], qb_max_age = max_age\<rparr>"

definition is_stale :: "quotebook \<Rightarrow> rat \<Rightarrow> rat \<Rightarrow> bool" where
  "is_stale b now stamp = (case qb_max_age b of None \<Rightarrow> False | Some m \<Rightarrow> m < fsub now stamp)"

definition quote_stamp :: "quote \<Rightarrow> rat \<Rightarrow> rat" where
  "quote_stamp q now = (case source_age_s q of
     None \<Rightarrow> now | Some age \<Rightarrow> if 0 < age then fsub now age else now)"

definition qb_upsert :: "quotebook \<Rightarrow> rat \<Rightarrow> quote \<Rightarrow> quotebook" where
  "qb_upsert b now q =
     (let stamp = quote_stamp q now;
          store = b\<lparr>qb_quotes := dict_set (q_outcome_id q) (q, stamp) (qb_quotes b)\<rparr>
      in case map_of (qb_quotes b) (q_outcome_id q) of
           None \<Rightarrow> store
         | Some (_, old) \<Rightarrow> if stamp < fsub old REGRESSION_TOLERANCE_S then b else store)"

definition qb_get :: "quotebook \<Rightarrow> rat \<Rightarrow> string \<Rightarrow> quote option" where
  "qb_get b now oid = (case map_of (qb_quotes b) oid of
     None \<Rightarrow> None | Some (q, stamp) \<Rightarrow> if is_stale b now stamp then None else Some q)"

definition qb_age_s :: "quotebook \<Rightarrow> rat \<Rightarrow> string \<Rightarrow> rat option" where
  "qb_age_s b now oid = (case map_of (qb_quotes b) oid of
     None \<Rightarrow> None | Some (_, stamp) \<Rightarrow> Some (fsub now stamp))"

definition qb_get_with_age :: "quotebook \<Rightarrow> rat \<Rightarrow> string \<Rightarrow> (quote \<times> rat) option" where
  "qb_get_with_age b now oid = (case map_of (qb_quotes b) oid of
     None \<Rightarrow> None | Some (q, stamp) \<Rightarrow> Some (q, fsub now stamp))"

definition qb_snapshot :: "quotebook \<Rightarrow> rat \<Rightarrow> (string, quote) dict" where
  "qb_snapshot b now = map (\<lambda>(oid, q, _). (oid, q))
     (filter (\<lambda>(_, _, stamp). \<not> is_stale b now stamp) (qb_quotes b))"

definition qb_purge_stale :: "quotebook \<Rightarrow> rat \<Rightarrow> quotebook \<times> nat" where
  "qb_purge_stale b now =
     (let dead = map fst (filter (\<lambda>(_, _, stamp). is_stale b now stamp) (qb_quotes b))
      in (b\<lparr>qb_quotes := fold dict_pop dead (qb_quotes b)\<rparr>, length dead))"

declare fsub_def [eval_rules] empty_book_def [eval_rules] is_stale_def [eval_rules]
  quote_stamp_def [eval_rules] qb_upsert_def [eval_rules] qb_get_def [eval_rules]
  qb_age_s_def [eval_rules] qb_get_with_age_def [eval_rules] qb_snapshot_def [eval_rules]
  qb_purge_stale_def [eval_rules] REGRESSION_TOLERANCE_S_def [eval_rules] DEFAULT_MAX_AGE_S_def [eval_rules]

subsection \<open>The invariant\<close>

text \<open>Keys are unique, an entry is filed under its own outcome, and every stored quote is valid.\<close>

definition book_ok :: "quotebook \<Rightarrow> bool" where
  "book_ok b \<longleftrightarrow> dict_ok (qb_quotes b) \<and>
     (\<forall>(oid, q, _) \<in> set (qb_quotes b). q_outcome_id q = oid \<and> quote_ok q)"

lemma book_ok_entry: "book_ok b \<Longrightarrow> map_of (qb_quotes b) oid = Some (q, t) \<Longrightarrow> q_outcome_id q = oid \<and> quote_ok q"
  by (fastforce simp: book_ok_def dest: map_of_SomeD)

lemma book_ok_empty: "book_ok (empty_book m)"
  by (simp add: book_ok_def empty_book_def)

lemma book_ok_store:
  "book_ok b \<Longrightarrow> quote_ok q \<Longrightarrow> book_ok (b\<lparr>qb_quotes := dict_set (q_outcome_id q) (q, t) (qb_quotes b)\<rparr>)"
  by (fastforce simp: book_ok_def dest!: in_set_dict_set)

lemma book_ok_upsert: "book_ok b \<Longrightarrow> quote_ok q \<Longrightarrow> book_ok (qb_upsert b now q)"
  by (auto simp: qb_upsert_def Let_def book_ok_store split: option.splits)

lemma fold_dict_pop: "fold dict_pop ks d = filter (\<lambda>kv. fst kv \<notin> set ks) d"
  by (induction ks arbitrary: d) (auto simp: AList.delete_eq filter_filter conj_commute split_def intro!: filter_cong)

lemma book_ok_purge: "book_ok b \<Longrightarrow> book_ok (fst (qb_purge_stale b now))"
  by (auto simp: book_ok_def qb_purge_stale_def Let_def fold_dict_pop distinct_map_filter)

subsection \<open>The interface to its clients\<close>

text \<open>
  What the engine, the paper broker and settlement rely on: a book whose operations keep an
  invariant, under which a lookup returns a valid quote of the outcome it was asked for, and a
  write to one outcome does not disturb another.
\<close>

locale quote_source =
  fixes put :: "'b \<Rightarrow> rat \<Rightarrow> quote \<Rightarrow> 'b" and lookup :: "'b \<Rightarrow> rat \<Rightarrow> string \<Rightarrow> quote option"
    and invar :: "'b \<Rightarrow> bool"
  assumes put_invar: "invar b \<Longrightarrow> quote_ok q \<Longrightarrow> invar (put b now q)"
    and lookup_valid: "invar b \<Longrightarrow> lookup b now oid = Some q \<Longrightarrow> quote_ok q \<and> q_outcome_id q = oid"
    and put_other: "oid \<noteq> q_outcome_id q \<Longrightarrow> lookup (put b now q) now' oid = lookup b now' oid"
begin

lemma lookup_prices: "invar b \<Longrightarrow> lookup b now oid = Some q \<Longrightarrow> 0 \<le> bid q \<and> bid q \<le> ask q \<and> ask q \<le> 1"
  using lookup_valid [of b now oid q] by (simp add: quote_ok_iff)

lemma puts_invar: "invar b \<Longrightarrow> \<forall>(now, q) \<in> set us. quote_ok q \<Longrightarrow> invar (foldl (\<lambda>b (now, q). put b now q) b us)"
  by (induction us arbitrary: b) (auto simp: put_invar)

lemma puts_other:
  "\<forall>(now, q) \<in> set us. q_outcome_id q \<noteq> oid \<Longrightarrow>
     lookup (foldl (\<lambda>b (now, q). put b now q) b us) now' oid = lookup b now' oid"
  by (induction us arbitrary: b) (auto simp: put_other)

text \<open>The dictionary of live quotes the engine hands to a detector holds valid quotes only.\<close>

lemma live_quotes_valid:
  assumes "invar b" "map_of (List.map_filter (\<lambda>oid. map_option (Pair oid) (lookup b now oid)) oids) oid = Some q"
  shows "quote_ok q"
  using assms lookup_valid
  by (fastforce simp: List.map_filter_def dest!: map_of_SomeD)

end

lemma qb_get_Some_iff:
  "qb_get b now oid = Some q \<longleftrightarrow> (\<exists>t. map_of (qb_quotes b) oid = Some (q, t) \<and> \<not> is_stale b now t)"
  by (auto simp: qb_get_def split: option.splits)

lemma qb_upsert_max_age [simp]: "qb_max_age (qb_upsert b now q) = qb_max_age b"
  by (simp add: qb_upsert_def Let_def split: option.splits)

lemma is_stale_upsert [simp]: "is_stale (qb_upsert b now' q) now t = is_stale b now t"
  by (simp add: is_stale_def)

lemma qb_upsert_other:
  "oid \<noteq> q_outcome_id q \<Longrightarrow> map_of (qb_quotes (qb_upsert b now q)) oid = map_of (qb_quotes b) oid"
  by (simp add: qb_upsert_def Let_def split: option.splits)

interpretation book: quote_source qb_upsert qb_get book_ok
proof
  fix b now and q :: quote
  assume "book_ok b" "quote_ok q"
  then show "book_ok (qb_upsert b now q)" by (rule book_ok_upsert)
next
  fix b now oid q
  assume "book_ok b" "qb_get b now oid = Some q"
  then show "quote_ok q \<and> q_outcome_id q = oid"
    by (auto simp: qb_get_Some_iff dest: book_ok_entry)
next
  fix oid and q :: quote and b now now'
  assume "oid \<noteq> q_outcome_id q"
  then show "qb_get (qb_upsert b now q) now' oid = qb_get b now' oid"
    by (simp add: qb_get_def qb_upsert_other split: option.split)
qed

subsection \<open>Freshness\<close>

lemma is_stale_mono: "now \<le> now' \<Longrightarrow> is_stale b now t \<Longrightarrow> is_stale b now' t"
  using flt.mono [of "now - t" "now' - t"] by (auto simp: is_stale_def fsub_def split: option.splits)

lemma qb_upsert_self:
  "map_of (qb_quotes (qb_upsert b now q)) (q_outcome_id q) =
     (case map_of (qb_quotes b) (q_outcome_id q) of
        Some (q0, old) \<Rightarrow> if quote_stamp q now < fsub old REGRESSION_TOLERANCE_S then Some (q0, old)
          else Some (q, quote_stamp q now)
      | None \<Rightarrow> Some (q, quote_stamp q now))"
  by (simp add: qb_upsert_def Let_def split: option.splits)

text \<open>A live entry, and the same market's cached book two hours old, for the witnesses.\<close>

definition live_q :: quote where
  "live_q = \<lparr>q_outcome_id = ''A'', bid = 1 / 2, ask = 3 / 5, bid_size = None, ask_size = Some 10,
     source_age_s = None\<rparr>"

definition replay_q :: quote where
  "replay_q = \<lparr>q_outcome_id = ''A'', bid = 1 / 10, ask = 1 / 5, bid_size = None, ask_size = Some 10,
     source_age_s = Some 7200\<rparr>"

definition live_book :: quotebook where
  "live_book = qb_upsert (empty_book (Some DEFAULT_MAX_AGE_S)) 1000 live_q"

declare live_q_def [eval_rules] replay_q_def [eval_rules] live_book_def [eval_rules]

lemma live_book_ok: "book_ok live_book"
  unfolding live_book_def
  by (rule book.put_invar [OF book_ok_empty]) (simp add: quote_ok_iff live_q_def)

text \<open>
  A replayed snapshot is never served: if the venue says a book is already older than the age
  limit, recording it can only hide an entry, so any quote the book still returns for any outcome
  is one it returned before.
\<close>

theorem qb_replay_not_served:
  assumes "qb_max_age b = Some m" "m < fsub now (quote_stamp q now)"
    and "qb_get (qb_upsert b now q) now oid = Some r"
  shows "qb_get b now oid = Some r"
proof (cases "oid = q_outcome_id q")
  case False
  with assms(3) show ?thesis by (simp add: book.put_other)
next
  case True
  have "is_stale b now (quote_stamp q now)" using assms by (simp add: is_stale_def)
  with True assms(3) show ?thesis
    by (auto simp: qb_get_Some_iff qb_upsert_self split: option.splits if_splits)
qed

theorem qb_replay_not_served_witness: "qb_get live_book 1001 ''A'' = Some live_q"
  by (rule qb_replay_not_served [where m = 600 and q = replay_q]) (simp_all add: eval_rules)

text \<open>
  C14: the stored stamp of an outcome never moves back by more than the tolerance in one update, so a
  late cached book cannot replace materially newer prices.
\<close>

theorem qb_no_regression:
  assumes "map_of (qb_quotes b) oid = Some (q0, old)"
  shows "\<exists>q' t. map_of (qb_quotes (qb_upsert b now q)) oid = Some (q', t) \<and>
    (t = old \<and> q' = q0 \<or> fsub old REGRESSION_TOLERANCE_S \<le> t)"
  using assms by (cases "oid = q_outcome_id q") (auto simp: qb_upsert_self qb_upsert_other not_less)

theorem qb_no_regression_witness:
  "\<exists>q' t. map_of (qb_quotes (qb_upsert live_book 1001 replay_q)) ''A'' = Some (q', t) \<and>
    (t = 1000 \<and> q' = live_q \<or> fsub 1000 REGRESSION_TOLERANCE_S \<le> t)"
  by (rule qb_no_regression) (simp add: eval_rules)

text \<open>
  Purging drops exactly what a reader could no longer see: it reports how many entries it
  removed, and every lookup at that moment or later is answered as it was before.
\<close>

theorem qb_purge_neutral:
  assumes "book_ok b" "now \<le> now'"
  shows "qb_get (fst (qb_purge_stale b now)) now' oid = qb_get b now' oid \<and>
    length (qb_quotes (fst (qb_purge_stale b now))) + snd (qb_purge_stale b now) = length (qb_quotes b)"
proof
  let ?d = "qb_quotes b"
  let ?dead = "map fst (filter (\<lambda>(_, _, t). is_stale b now t) ?d)"
  from assms(1) have ok: "dict_ok ?d" by (simp add: book_ok_def)
  have keep: "filter (\<lambda>kv. fst kv \<notin> set ?dead) ?d = filter (\<lambda>(_, _, t). \<not> is_stale b now t) ?d"
  proof (rule filter_cong [OF refl])
    fix kv assume kv: "kv \<in> set ?d"
    have "fst kv \<in> set ?dead \<longleftrightarrow> (\<exists>q t. (fst kv, q, t) \<in> set ?d \<and> is_stale b now t)"
      by (force simp: image_iff)
    also have "\<dots> \<longleftrightarrow> is_stale b now (snd (snd kv))"
    proof
      assume "\<exists>q t. (fst kv, q, t) \<in> set ?d \<and> is_stale b now t"
      then obtain q t where qt: "(fst kv, q, t) \<in> set ?d" "is_stale b now t" by blast
      have "(fst kv, snd kv) \<in> set ?d" using kv by simp
      with qt(1) have "snd kv = (q, t)" by (rule eq_key_imp_eq_value [OF ok, rotated])
      with qt(2) show "is_stale b now (snd (snd kv))" by simp
    next
      assume "is_stale b now (snd (snd kv))"
      moreover have "(fst kv, fst (snd kv), snd (snd kv)) \<in> set ?d" using kv by simp
      ultimately show "\<exists>q t. (fst kv, q, t) \<in> set ?d \<and> is_stale b now t" by blast
    qed
    finally show "(fst kv \<notin> set ?dead) = (case kv of (_, _, t) \<Rightarrow> \<not> is_stale b now t)"
      by (simp add: split_def)
  qed
  have purged: "qb_quotes (fst (qb_purge_stale b now)) = filter (\<lambda>(_, _, t). \<not> is_stale b now t) ?d"
    by (simp add: qb_purge_stale_def Let_def fold_dict_pop keep [simplified])
  have st: "is_stale (fst (qb_purge_stale b now)) = is_stale b"
    by (simp add: qb_purge_stale_def Let_def is_stale_def fun_eq_iff)
  show "qb_get (fst (qb_purge_stale b now)) now' oid = qb_get b now' oid"
    using ok is_stale_mono [OF assms(2)]
    by (auto simp: qb_get_def purged st map_of_filter_dict split: option.splits)
  show "length (qb_quotes (fst (qb_purge_stale b now))) + snd (qb_purge_stale b now) = length ?d"
    by (simp add: purged) (simp add: qb_purge_stale_def Let_def sum_length_filter_compl add.commute split_def)
qed

theorem qb_purge_neutral_witness:
  "qb_get (fst (qb_purge_stale live_book 2000)) 2001 ''A'' = qb_get live_book 2001 ''A'' \<and>
    length (qb_quotes (fst (qb_purge_stale live_book 2000))) + snd (qb_purge_stale live_book 2000) =
      length (qb_quotes live_book)"
  by (rule qb_purge_neutral [OF live_book_ok]) simp

text \<open>
  A snapshot is the lookups: the dictionary it returns answers every outcome exactly as a lookup
  at the same moment does.
\<close>

theorem qb_snapshot_is_get:
  assumes "book_ok b"
  shows "map_of (qb_snapshot b now) oid = qb_get b now oid"
proof -
  from assms have ok: "dict_ok (qb_quotes b)" by (simp add: book_ok_def)
  have "map_of (qb_snapshot b now) oid =
      map_option fst (map_of (filter (\<lambda>kv. \<not> is_stale b now (snd (snd kv))) (qb_quotes b)) oid)"
    by (simp add: qb_snapshot_def split_def map_of_map [where f = fst, unfolded split_def] del: map_of_map)
  also have "\<dots> = qb_get b now oid"
    using ok by (auto simp: map_of_filter_dict qb_get_def split: option.splits)
  finally show ?thesis .
qed

theorem qb_snapshot_is_get_witness:
  "map_of (qb_snapshot live_book 1200) ''A'' = qb_get live_book 1200 ''A''"
  by (rule qb_snapshot_is_get [OF live_book_ok])

end
