(* ===== verification/Config.thy ===== *)
theory Config
  imports QuoteBook
begin

section \<open>Configuration knobs\<close>

text \<open>
  The environment readers of \<open>arbys/backend/state.py\<close>: an environment maps a variable name to its raw
  string. \<open>py_float\<close>, \<open>py_decimal\<close> and \<open>py_int\<close> are what \<open>float(raw)\<close>, \<open>Decimal(raw)\<close> and \<open>int(raw)\<close>
  accept: both \<open>float\<close> and \<open>Decimal\<close> also read \<open>inf\<close> and \<open>nan\<close>, which is why their result is a \<open>pynum\<close>.
  An ordering comparison with NaN is False for floats and raises InvalidOperation for Decimals, and that
  comparison stands outside the \<open>try\<close> of the readers. Strings are taken as Latin-1; exponents beyond the
  limits of the decimal module (about 10 to the 18) are not singled out.
\<close>

datatype pynum = Fin rat | PInf | NInf | NaN

fun num_lt :: "pynum \<Rightarrow> pynum \<Rightarrow> bool" where
  "num_lt NaN _ = False"
| "num_lt _ NaN = False"
| "num_lt (Fin a) (Fin b) = (a < b)"
| "num_lt (Fin _) y = (y = PInf)"
| "num_lt PInf _ = False"
| "num_lt NInf y = (y \<noteq> NInf)"

definition num_le :: "pynum \<Rightarrow> pynum \<Rightarrow> bool" where
  "num_le x y \<longleftrightarrow> num_lt x y \<or> (x = y \<and> x \<noteq> NaN)"

text \<open>\<open>max(a, b)\<close> keeps \<open>a\<close> unless \<open>b > a\<close>.\<close>

definition num_max :: "pynum \<Rightarrow> pynum \<Rightarrow> pynum" where
  "num_max a b = (if num_lt a b then b else a)"

text \<open>Comparisons of Decimals signal on NaN.\<close>

definition dec_cmp :: "(pynum \<Rightarrow> pynum \<Rightarrow> bool) \<Rightarrow> pynum \<Rightarrow> pynum \<Rightarrow> bool res" where
  "dec_cmp r x y = (if x = NaN \<or> y = NaN then Inl InvalidOperation else Inr (r x y))"

subsection \<open>Reading a number\<close>

definition is_digit :: "char \<Rightarrow> bool" where
  "is_digit c \<longleftrightarrow> c \<in> set ''0123456789''"

definition digit_val :: "char \<Rightarrow> int" where
  "digit_val c = of_char c - 48"

definition digits_val :: "string \<Rightarrow> int" where
  "digits_val = foldl (\<lambda>n c. 10 * n + digit_val c) 0"

definition is_space :: "char \<Rightarrow> bool" where
  "is_space c \<longleftrightarrow> (of_char c :: nat) \<in> set [9, 10, 11, 12, 13, 28, 29, 30, 31, 32, 133, 160]"

definition strip :: "string \<Rightarrow> string" where
  "strip s = rev (dropWhile is_space (rev (dropWhile is_space s)))"

definition lower :: "char \<Rightarrow> char" where
  "lower c = (case map_of (zip ''ABCDEFGHIJKLMNOPQRSTUVWXYZ'' ''abcdefghijklmnopqrstuvwxyz'') c of
     None \<Rightarrow> c | Some d \<Rightarrow> d)"

definition to_upper :: "string \<Rightarrow> string" where
  "to_upper = map (\<lambda>c. case map_of (zip ''abcdefghijklmnopqrstuvwxyz'' ''ABCDEFGHIJKLMNOPQRSTUVWXYZ'') c of
     None \<Rightarrow> c | Some d \<Rightarrow> d)"

fun split_sign :: "string \<Rightarrow> bool \<times> string" where
  "split_sign (c # s) = (if c = CHR ''-'' then (True, s) else if c = CHR ''+'' then (False, s) else (False, c # s))"
| "split_sign [] = (False, [])"

definition signed_int :: "string \<Rightarrow> int option" where
  "signed_int s = (case split_sign s of (neg, ds) \<Rightarrow>
     if ds \<noteq> [] \<and> list_all is_digit ds then Some (if neg then - digits_val ds else digits_val ds) else None)"

definition exponent :: "string \<Rightarrow> int option" where
  "exponent s = (case s of [] \<Rightarrow> Some 0 | c # r \<Rightarrow> if lower c = CHR ''e'' then signed_int r else None)"

definition unsigned_num :: "string \<Rightarrow> rat option" where
  "unsigned_num s =
     (let ip = takeWhile is_digit s; r = dropWhile is_digit s;
          fp = (case r of c # t \<Rightarrow> if c = CHR ''.'' then takeWhile is_digit t else [] | [] \<Rightarrow> []);
          r' = (case r of c # t \<Rightarrow> if c = CHR ''.'' then dropWhile is_digit t else r | [] \<Rightarrow> [])
      in if ip = [] \<and> fp = [] then None
         else map_option (\<lambda>e. of_int (digits_val (ip @ fp)) * powz 10 (e - int (length fp))) (exponent r'))"

text \<open>An underscore is allowed between two digits by \<open>float\<close> and \<open>int\<close>, and anywhere by \<open>Decimal\<close>.\<close>

fun underscores_ok :: "char \<Rightarrow> string \<Rightarrow> bool" where
  "underscores_ok prev [] = (prev \<noteq> CHR ''_'')"
| "underscores_ok prev (c # s) = ((c = CHR ''_'' \<longrightarrow> is_digit prev) \<and> (prev = CHR ''_'' \<longrightarrow> is_digit c) \<and>
     underscores_ok c s)"

definition drop_underscores :: "string \<Rightarrow> string" where
  "drop_underscores = filter (\<lambda>c. c \<noteq> CHR ''_'')"

definition flip :: "bool \<Rightarrow> pynum \<Rightarrow> pynum" where
  "flip neg x = (if neg then (case x of Fin r \<Rightarrow> Fin (- r) | PInf \<Rightarrow> NInf | NInf \<Rightarrow> PInf | NaN \<Rightarrow> NaN) else x)"

definition num_body :: "(string \<Rightarrow> bool) \<Rightarrow> string \<Rightarrow> pynum option" where
  "num_body is_nan s = (case split_sign s of (neg, b) \<Rightarrow>
     let w = map lower b in
     if w = ''inf'' \<or> w = ''infinity'' then Some (flip neg PInf)
     else if is_nan w then Some NaN
     else map_option (\<lambda>x. flip neg (Fin x)) (unsigned_num b))"

definition decimal_nan :: "string \<Rightarrow> bool" where
  "decimal_nan w \<longleftrightarrow> (let t = (if take 1 w = ''s'' then drop 1 w else w)
     in take 3 t = ''nan'' \<and> list_all is_digit (drop 3 t))"

definition py_decimal :: "string \<Rightarrow> pynum option" where
  "py_decimal raw = num_body decimal_nan (drop_underscores (strip raw))"

text \<open>Binary64: round to 53 digits, to the subnormal grid below 2 to the -1022, overflow to infinity.\<close>

definition to_binary64 :: "rat \<Rightarrow> pynum" where
  "to_binary64 x =
     (if \<bar>x\<bar> < 1 / 2 ^ 1022 then Fin (of_int (round_half_even (x * 2 ^ 1074)) / 2 ^ 1074)
      else let r = flt_round x in
        if \<bar>r\<bar> < 2 ^ 1024 then Fin r else if 0 < r then PInf else NInf)"

definition py_float :: "string \<Rightarrow> pynum option" where
  "py_float raw = (let s = strip raw in
     if underscores_ok CHR ''.'' s
     then map_option (\<lambda>v. case v of Fin x \<Rightarrow> to_binary64 x | _ \<Rightarrow> v)
            (num_body (\<lambda>w. w = ''nan'') (drop_underscores s))
     else None)"

definition py_int :: "string \<Rightarrow> int option" where
  "py_int raw = (let s = strip raw in
     if underscores_ok CHR ''.'' s then signed_int (drop_underscores s) else None)"

subsection \<open>The readers\<close>

type_synonym env = "string \<Rightarrow> string option"

definition getenv :: "env \<Rightarrow> string \<Rightarrow> string \<Rightarrow> string" where
  "getenv env name dflt = (case env name of None \<Rightarrow> dflt | Some raw \<Rightarrow> raw)"

definition ingest_enabled :: "env \<Rightarrow> bool" where
  "ingest_enabled env \<longleftrightarrow> getenv env ''ARBYS_ENABLE_INGEST'' ''0'' = ''1''"

definition discovery_enabled :: "env \<Rightarrow> bool" where
  "discovery_enabled env \<longleftrightarrow> getenv env ''ARBYS_ENABLE_DISCOVERY'' ''0'' = ''1''"

definition cash_sweep_enabled :: "env \<Rightarrow> bool" where
  "cash_sweep_enabled env \<longleftrightarrow> getenv env ''ARBYS_ENABLE_CASH_SWEEP'' ''1'' = ''1''"

definition venue_settle_enabled :: "env \<Rightarrow> bool" where
  "venue_settle_enabled env \<longleftrightarrow> getenv env ''ARBYS_ENABLE_VENUE_SETTLE'' ''1'' = ''1''"

definition auto_trade_enabled :: "env \<Rightarrow> bool" where
  "auto_trade_enabled env \<longleftrightarrow> getenv env ''ARBYS_ENABLE_AUTO_TRADE'' ''0'' = ''1''"

definition cross_venue_only :: "env \<Rightarrow> bool" where
  "cross_venue_only env \<longleftrightarrow> getenv env ''ARBYS_CROSS_VENUE_ONLY'' ''1'' = ''1''"

definition discovery_interval_s :: "env \<Rightarrow> pynum" where
  "discovery_interval_s env = (case py_float (getenv env ''ARBYS_DISCOVERY_INTERVAL_S'' ''600'') of
     None \<Rightarrow> Fin 600 | Some v \<Rightarrow> num_max (Fin 30) v)"

definition cash_sweep_interval_s :: "env \<Rightarrow> pynum" where
  "cash_sweep_interval_s env = (case py_float (getenv env ''ARBYS_CASH_SWEEP_INTERVAL_S'' ''60'') of
     None \<Rightarrow> Fin 60 | Some v \<Rightarrow> num_max (Fin 5) v)"

definition venue_settle_interval_s :: "env \<Rightarrow> pynum" where
  "venue_settle_interval_s env = (case py_float (getenv env ''ARBYS_VENUE_SETTLE_INTERVAL_S'' ''900'') of
     None \<Rightarrow> Fin 900 | Some v \<Rightarrow> num_max (Fin 60) v)"

definition cash_sweep_min :: "env \<Rightarrow> pynum res" where
  "cash_sweep_min env = (case py_decimal (getenv env ''ARBYS_CASH_SWEEP_MIN'' ''25'') of
     None \<Rightarrow> Inr (Fin 25)
   | Some v \<Rightarrow> bindE (dec_cmp num_lt (Fin 0) v) (\<lambda>pos. Inr (if pos then v else Fin 0)))"

definition DEFAULT_AUTO_TRADE_COOLDOWN_S :: pynum where
  "DEFAULT_AUTO_TRADE_COOLDOWN_S = Fin 60"

definition auto_trade_cooldown_s :: "env \<Rightarrow> pynum" where
  "auto_trade_cooldown_s env = (case env ''ARBYS_AUTO_TRADE_COOLDOWN_S'' of
     None \<Rightarrow> DEFAULT_AUTO_TRADE_COOLDOWN_S
   | Some raw \<Rightarrow> (case py_float raw of
        None \<Rightarrow> DEFAULT_AUTO_TRADE_COOLDOWN_S | Some v \<Rightarrow> num_max (Fin 0) v))"

definition DEFAULT_AUTO_TRADE_NONFILL_LOG_S :: pynum where
  "DEFAULT_AUTO_TRADE_NONFILL_LOG_S = Fin 60"

definition auto_trade_nonfill_log_s :: "env \<Rightarrow> pynum" where
  "auto_trade_nonfill_log_s env = (case env ''ARBYS_AUTO_TRADE_NONFILL_LOG_S'' of
     None \<Rightarrow> DEFAULT_AUTO_TRADE_NONFILL_LOG_S
   | Some raw \<Rightarrow> (case py_float raw of
        None \<Rightarrow> DEFAULT_AUTO_TRADE_NONFILL_LOG_S | Some v \<Rightarrow> num_max (Fin 0) v))"

definition DEFAULT_MAX_LEG_AGE_SKEW_S :: pynum where
  "DEFAULT_MAX_LEG_AGE_SKEW_S = Fin 30"

definition max_leg_age_skew_s :: "env \<Rightarrow> pynum option" where
  "max_leg_age_skew_s env = (case env ''ARBYS_MAX_LEG_AGE_SKEW_S'' of
     None \<Rightarrow> Some DEFAULT_MAX_LEG_AGE_SKEW_S
   | Some raw \<Rightarrow> (case py_float raw of
        None \<Rightarrow> Some DEFAULT_MAX_LEG_AGE_SKEW_S
      | Some v \<Rightarrow> if num_le v (Fin 0) then None else Some v))"

definition quote_max_age_s :: "env \<Rightarrow> pynum option" where
  "quote_max_age_s env = (case env ''ARBYS_QUOTE_MAX_AGE_S'' of
     None \<Rightarrow> Some (Fin DEFAULT_MAX_AGE_S)
   | Some raw \<Rightarrow> (case py_float raw of
        None \<Rightarrow> Some (Fin DEFAULT_MAX_AGE_S)
      | Some v \<Rightarrow> if num_le v (Fin 0) then None else Some v))"

definition DEFAULT_POLYMARKET_US_POLL_S :: pynum where
  "DEFAULT_POLYMARKET_US_POLL_S = Fin 5"

definition polymarket_us_poll_s :: "env \<Rightarrow> pynum" where
  "polymarket_us_poll_s env = (case env ''ARBYS_POLYMARKET_US_POLL_S'' of
     None \<Rightarrow> DEFAULT_POLYMARKET_US_POLL_S
   | Some raw \<Rightarrow> (case py_float raw of
        None \<Rightarrow> DEFAULT_POLYMARKET_US_POLL_S | Some v \<Rightarrow> num_max (Fin 1) v))"

definition DEFAULT_POLYMARKET_US_WS_SHARD_SIZE :: int where
  "DEFAULT_POLYMARKET_US_WS_SHARD_SIZE = 100"

definition polymarket_us_ws_shard_size :: "env \<Rightarrow> int" where
  "polymarket_us_ws_shard_size env = (case env ''ARBYS_POLYMARKET_US_WS_SHARD_SIZE'' of
     None \<Rightarrow> DEFAULT_POLYMARKET_US_WS_SHARD_SIZE
   | Some raw \<Rightarrow> (case py_int raw of
        None \<Rightarrow> DEFAULT_POLYMARKET_US_WS_SHARD_SIZE | Some n \<Rightarrow> max 1 n))"

definition DEFAULT_POLYMARKET_US_DARK_AFTER_S :: pynum where
  "DEFAULT_POLYMARKET_US_DARK_AFTER_S = Fin 120"

definition polymarket_us_dark_after_s :: "env \<Rightarrow> pynum" where
  "polymarket_us_dark_after_s env = (case env ''ARBYS_POLYMARKET_US_DARK_AFTER_S'' of
     None \<Rightarrow> DEFAULT_POLYMARKET_US_DARK_AFTER_S
   | Some raw \<Rightarrow> (case py_float raw of
        None \<Rightarrow> DEFAULT_POLYMARKET_US_DARK_AFTER_S | Some v \<Rightarrow> num_max (Fin 0) v))"

definition DEFAULT_POLYMARKET_US_PRIORITY_DARK_AFTER_S :: pynum where
  "DEFAULT_POLYMARKET_US_PRIORITY_DARK_AFTER_S = Fin 6"

definition polymarket_us_priority_dark_after_s :: "env \<Rightarrow> pynum" where
  "polymarket_us_priority_dark_after_s env = (case env ''ARBYS_POLYMARKET_US_PRIORITY_DARK_AFTER_S'' of
     None \<Rightarrow> DEFAULT_POLYMARKET_US_PRIORITY_DARK_AFTER_S
   | Some raw \<Rightarrow> (case py_float raw of
        None \<Rightarrow> DEFAULT_POLYMARKET_US_PRIORITY_DARK_AFTER_S | Some v \<Rightarrow> num_max (Fin 0) v))"

text \<open>The Decimal limits: 0 or less switches a limit off, and a NaN raises when it is compared with 0.\<close>

definition decimal_limit :: "env \<Rightarrow> string \<Rightarrow> pynum \<Rightarrow> pynum option res" where
  "decimal_limit env name dflt = (case env name of
     None \<Rightarrow> Inr (Some dflt)
   | Some raw \<Rightarrow> (case py_decimal raw of
        None \<Rightarrow> Inr (Some dflt)
      | Some v \<Rightarrow> bindE (dec_cmp num_le v (Fin 0)) (\<lambda>off. Inr (if off then None else Some v))))"

definition DEFAULT_MAX_OUTCOME_STAKE :: pynum where
  "DEFAULT_MAX_OUTCOME_STAKE = Fin 500"

definition max_outcome_stake :: "env \<Rightarrow> pynum option res" where
  "max_outcome_stake env = decimal_limit env ''ARBYS_MAX_OUTCOME_STAKE'' DEFAULT_MAX_OUTCOME_STAKE"

definition DEFAULT_MAX_TICKET_STAKE :: pynum where
  "DEFAULT_MAX_TICKET_STAKE = Fin 250"

definition max_ticket_stake_env :: "env \<Rightarrow> pynum option res" where
  "max_ticket_stake_env env = decimal_limit env ''ARBYS_MAX_TICKET_STAKE'' DEFAULT_MAX_TICKET_STAKE"

definition DEFAULT_MAX_PLAUSIBLE_EDGE :: pynum where
  "DEFAULT_MAX_PLAUSIBLE_EDGE = Fin (15 / 100)"

definition max_plausible_edge :: "env \<Rightarrow> pynum option res" where
  "max_plausible_edge env = decimal_limit env ''ARBYS_MAX_PLAUSIBLE_EDGE'' DEFAULT_MAX_PLAUSIBLE_EDGE"

definition DEFAULT_MIN_CONTRACT_QTY :: pynum where
  "DEFAULT_MIN_CONTRACT_QTY = Fin 5"

definition min_contract_qty :: "env \<Rightarrow> pynum res" where
  "min_contract_qty env = (case env ''ARBYS_MIN_CONTRACT_QTY'' of
     None \<Rightarrow> Inr DEFAULT_MIN_CONTRACT_QTY
   | Some raw \<Rightarrow> (case py_decimal raw of
        None \<Rightarrow> Inr DEFAULT_MIN_CONTRACT_QTY
      | Some v \<Rightarrow> bindE (dec_cmp num_le v (Fin 0)) (\<lambda>off. Inr (if off then Fin 0 else v))))"

definition DEFAULT_MAX_DAYS_TO_START :: rat where
  "DEFAULT_MAX_DAYS_TO_START = 7"

text \<open>The one float limit that refuses infinities and NaN, so its value is a plain number.\<close>

definition max_days_to_start :: "env \<Rightarrow> rat option" where
  "max_days_to_start env = (case env ''ARBYS_MAX_DAYS_TO_START'' of
     None \<Rightarrow> Some DEFAULT_MAX_DAYS_TO_START
   | Some raw \<Rightarrow> (case py_float raw of
        Some (Fin v) \<Rightarrow> if v \<le> 0 then None else Some v
      | _ \<Rightarrow> Some DEFAULT_MAX_DAYS_TO_START))"

declare is_digit_def [eval_rules] digit_val_def [eval_rules] digits_val_def [eval_rules] is_space_def [eval_rules]
  strip_def [eval_rules] lower_def [eval_rules] signed_int_def [eval_rules] exponent_def [eval_rules]
  unsigned_num_def [eval_rules] drop_underscores_def [eval_rules] flip_def [eval_rules] num_body_def [eval_rules]
  decimal_nan_def [eval_rules] py_decimal_def [eval_rules] to_binary64_def [eval_rules] py_float_def [eval_rules]
  py_int_def [eval_rules] num_le_def [eval_rules] num_max_def [eval_rules] dec_cmp_def [eval_rules]
  getenv_def [eval_rules] decimal_limit_def [eval_rules] max_outcome_stake_def [eval_rules]
  max_ticket_stake_env_def [eval_rules] max_plausible_edge_def [eval_rules] min_contract_qty_def [eval_rules]
  max_days_to_start_def [eval_rules] max_leg_age_skew_s_def [eval_rules] quote_max_age_s_def [eval_rules]
  discovery_interval_s_def [eval_rules] cash_sweep_interval_s_def [eval_rules] venue_settle_interval_s_def [eval_rules]
  cash_sweep_min_def [eval_rules] auto_trade_cooldown_s_def [eval_rules] auto_trade_nonfill_log_s_def [eval_rules]
  polymarket_us_poll_s_def [eval_rules] polymarket_us_ws_shard_size_def [eval_rules]
  DEFAULT_MAX_OUTCOME_STAKE_def [eval_rules] DEFAULT_MAX_TICKET_STAKE_def [eval_rules]
  DEFAULT_MAX_PLAUSIBLE_EDGE_def [eval_rules] DEFAULT_MIN_CONTRACT_QTY_def [eval_rules]
  DEFAULT_MAX_DAYS_TO_START_def [eval_rules] DEFAULT_MAX_LEG_AGE_SKEW_S_def [eval_rules]
  DEFAULT_AUTO_TRADE_COOLDOWN_S_def [eval_rules] DEFAULT_AUTO_TRADE_NONFILL_LOG_S_def [eval_rules]

subsection \<open>Order facts\<close>

lemma num_le_refl [simp]: "num_le x x \<longleftrightarrow> x \<noteq> NaN"
  by (cases x) (simp_all add: num_le_def)

lemma num_le_Fin [simp]: "num_le (Fin a) (Fin b) \<longleftrightarrow> a \<le> b"
  by (auto simp: num_le_def)

lemma num_not_le: "x \<noteq> NaN \<Longrightarrow> y \<noteq> NaN \<Longrightarrow> \<not> num_le x y \<longleftrightarrow> num_lt y x"
  by (cases x; cases y) (auto simp: num_le_def)

lemma num_max_floor: "num_le (Fin a) (num_max (Fin a) v)"
  by (cases v) (auto simp: num_max_def num_le_def)

lemma num_max_not_NaN: "num_max (Fin a) v \<noteq> NaN"
  by (cases v) (auto simp: num_max_def)

text \<open>Numbers the readers accept and refuse.\<close>

lemma py_decimal_examples:
  "py_decimal ''25'' = Some (Fin 25)"
  "py_decimal '' +1_0.5e1 '' = Some (Fin 105)"
  "py_decimal ''-Infinity'' = Some NInf"
  "py_decimal ''sNaN12'' = Some NaN"
  "py_decimal ''1.2.3'' = None"
  "py_decimal '''' = None"
  by (simp_all add: eval_rules powz_def)

lemma py_float_examples:
  "py_float ''7'' = Some (Fin 7)"
  "py_float ''nan'' = Some NaN"
  "py_float ''1_0'' = Some (Fin 10)"
  "py_float ''1__0'' = None"
  "py_float ''nan12'' = None"
  by (simp_all add: eval_rules powz_def)

subsection \<open>What a reader can return\<close>

lemma dec_cmp_le_zero:
  "dec_cmp num_le v (Fin 0) = (if v = NaN then Inl InvalidOperation else Inr (\<not> num_lt (Fin 0) v))"
  by (cases v) (auto simp: dec_cmp_def num_le_def)

lemma decimal_limit_cases:
  assumes "dflt \<noteq> NaN" "num_lt (Fin 0) dflt"
  shows "(case decimal_limit env name dflt of
     Inl e \<Rightarrow> e = InvalidOperation \<and> (\<exists>raw. env name = Some raw \<and> py_decimal raw = Some NaN)
   | Inr None \<Rightarrow> \<exists>raw v. env name = Some raw \<and> py_decimal raw = Some v \<and> num_le v (Fin 0)
   | Inr (Some v) \<Rightarrow> num_lt (Fin 0) v)"
proof (cases "env name")
  case (Some raw)
  show ?thesis
  proof (cases "py_decimal raw")
    case (Some v)
    with \<open>env name = Some raw\<close> show ?thesis
      by (cases v) (auto simp: decimal_limit_def dec_cmp_le_zero num_le_def)
  qed (simp add: decimal_limit_def Some assms)
qed (simp add: decimal_limit_def assms)

lemma decimal_limit_pos:
  "decimal_limit env name dflt = Inr (Some v) \<Longrightarrow> dflt \<noteq> NaN \<Longrightarrow> num_lt (Fin 0) dflt \<Longrightarrow> num_lt (Fin 0) v"
  using decimal_limit_cases [of dflt env name] by simp

lemma float_limit_pos: "\<not> num_le v (Fin 0) \<Longrightarrow> num_lt (Fin 0) v \<or> v = NaN"
  by (cases v) (auto simp: num_le_def)

lemma floor_knobs:
  "num_le (Fin 30) (discovery_interval_s env)" "num_le (Fin 5) (cash_sweep_interval_s env)"
  "num_le (Fin 60) (venue_settle_interval_s env)" "num_le (Fin 1) (polymarket_us_poll_s env)"
  "num_le (Fin 0) (auto_trade_cooldown_s env)" "num_le (Fin 0) (auto_trade_nonfill_log_s env)"
  "1 \<le> polymarket_us_ws_shard_size env"
  by (auto simp: discovery_interval_s_def cash_sweep_interval_s_def venue_settle_interval_s_def
      polymarket_us_poll_s_def auto_trade_cooldown_s_def auto_trade_nonfill_log_s_def
      polymarket_us_ws_shard_size_def DEFAULT_POLYMARKET_US_POLL_S_def DEFAULT_AUTO_TRADE_COOLDOWN_S_def
      DEFAULT_AUTO_TRADE_NONFILL_LOG_S_def DEFAULT_POLYMARKET_US_WS_SHARD_SIZE_def num_max_floor split: option.split)



end
