(* ===== verification/Paper_Broker.thy ===== *)
theory Paper_Broker
  imports Fees QuoteBook
begin

section \<open>The paper broker\<close>

text \<open>
  \<open>arbys/shared/paper_broker.py\<close>: one \<open>PaperExecutionAdapter\<close> per venue. Its state is the record
  \<open>paper_broker\<close>; a method that mutates it returns the new state. The shared quote book is the
  argument \<open>lk\<close> (what \<open>QuoteBook.get\<close> answers at the time of the call) and the order id, a fresh
  uuid in the code, is an argument. The persistence sink is the log of the calls made on it; the
  code swallows whatever a sink raises, so a call never changes the broker.
  A \<open>defaultdict\<close> read that only inserts the default is modelled as a read of the default: every
  reader treats a missing key as that default.
\<close>

record account_state =
  ac_balances :: "(string, rat) dict"
  ac_positions :: "(string, rat) dict"
  ac_avg_price :: "(string, rat) dict"
  ac_realized_pnl :: rat
  ac_realized_by_outcome :: "(string, rat) dict"
  ac_open_fees :: "(string, rat) dict"

definition empty_account :: account_state where
  "empty_account = \<lparr>ac_balances = [], ac_positions = [], ac_avg_price = [], ac_realized_pnl = 0,
     ac_realized_by_outcome = [], ac_open_fees = []\<rparr>"

datatype sink_event =
    OnOrder order "string option"
  | OnFill order fill
  | OnBalance string string rat
  | OnPosition string string rat rat rat string rat
  | OnSettlement string rat string string
  | OnSettled string rat string string "(string \<times> rat \<times> rat \<times> rat) list"

record sink =
  has_on_settled :: bool
  sink_log :: "sink_event list"

record paper_broker =
  br_venue :: string
  br_fee :: fee_model
  br_slippage_bps :: rat
  br_sink :: "sink option"
  br_orders :: "(string, order) dict"
  br_fills :: "(string, fill list) dict"
  br_accounts :: "(string, account_state) dict"

definition new_broker :: "string \<Rightarrow> fee_model \<Rightarrow> rat \<Rightarrow> sink option \<Rightarrow> paper_broker" where
  "new_broker v m slip snk = \<lparr>br_venue = v, br_fee = m, br_slippage_bps = slip, br_sink = snk,
     br_orders = [], br_fills = [], br_accounts = []\<rparr>"

definition acct :: "paper_broker \<Rightarrow> string \<Rightarrow> account_state" where
  "acct br a = dict_get empty_account (br_accounts br) a"

definition put_acct :: "paper_broker \<Rightarrow> string \<Rightarrow> account_state \<Rightarrow> paper_broker" where
  "put_acct br a st = br\<lparr>br_accounts := dict_set a st (br_accounts br)\<rparr>"

definition set_sink :: "paper_broker \<Rightarrow> sink option \<Rightarrow> paper_broker" where
  "set_sink br snk = br\<lparr>br_sink := snk\<rparr>"

subsection \<open>Cash and hydration\<close>

definition venue_cash :: "paper_broker \<Rightarrow> account_state \<Rightarrow> rat" where
  "venue_cash br st = dict_get 0 (ac_balances st) (br_venue br)"

definition set_cash :: "paper_broker \<Rightarrow> rat \<Rightarrow> account_state \<Rightarrow> account_state" where
  "set_cash br x st = st\<lparr>ac_balances := dict_set (br_venue br) x (ac_balances st)\<rparr>"

definition cash :: "paper_broker \<Rightarrow> string \<Rightarrow> rat" where
  "cash br a = venue_cash br (acct br a)"

definition deposit :: "paper_broker \<Rightarrow> string \<Rightarrow> rat \<Rightarrow> paper_broker" where
  "deposit br a amount = put_acct br a (set_cash br (dadd (cash br a) amount) (acct br a))"

definition withdraw :: "paper_broker \<Rightarrow> string \<Rightarrow> rat \<Rightarrow> paper_broker \<times> bool" where
  "withdraw br a amount =
     (let c = cash br a in
      if amount \<le> 0 \<or> c < amount then (br, False)
      else (put_acct br a (set_cash br (dsub c amount) (acct br a)), True))"

definition hydrate_balance :: "paper_broker \<Rightarrow> string \<Rightarrow> rat \<Rightarrow> paper_broker" where
  "hydrate_balance br a amount = put_acct br a (set_cash br amount (acct br a))"

definition reset_account :: "paper_broker \<Rightarrow> string \<Rightarrow> paper_broker" where
  "reset_account br a =
     br\<lparr>br_accounts := dict_pop a (br_accounts br), br_orders := [], br_fills := []\<rparr>"

definition hydrate_position ::
  "paper_broker \<Rightarrow> string \<Rightarrow> string \<Rightarrow> rat \<Rightarrow> rat \<Rightarrow> rat \<Rightarrow> rat \<Rightarrow> paper_broker" where
  "hydrate_position br a oid qty avg realized fees =
     (let st = acct br a in
      put_acct br a (st\<lparr>ac_positions := dict_set oid qty (ac_positions st),
        ac_avg_price := dict_set oid avg (ac_avg_price st),
        ac_realized_by_outcome := dict_set oid realized (ac_realized_by_outcome st),
        ac_realized_pnl := dadd (ac_realized_pnl st) realized,
        ac_open_fees := dict_set oid fees (ac_open_fees st)\<rparr>))"

definition account_snapshot :: "paper_broker \<Rightarrow> string \<Rightarrow> rat \<times> (string, rat \<times> rat \<times> rat) dict" where
  "account_snapshot br a =
     (let st = acct br a in
      (venue_cash br st,
       map (\<lambda>(oid, q). (oid, q, dict_get 0 (ac_avg_price st) oid, dict_get 0 (ac_realized_by_outcome st) oid))
         (filter (\<lambda>(_, q). q \<noteq> 0) (ac_positions st))))"

subsection \<open>Pricing an order\<close>

definition dquot :: "rat \<Rightarrow> rat \<Rightarrow> rat" where
  \<comment> \<open>a division whose divisor the code has just checked, or a non-zero constant\<close>
  "dquot a b = dec_round (a / b)"

definition apply_slippage :: "paper_broker \<Rightarrow> rat \<Rightarrow> bool \<Rightarrow> rat" where
  "apply_slippage br price is_buy =
     (let adj = dquot (dmul price (br_slippage_bps br)) 10000;
          p = (if is_buy then dadd price adj else dsub price adj)
      in if p < 0 then 0 else if 1 < p then 1 else p)"

definition preview_fill ::
  "paper_broker \<Rightarrow> (string \<Rightarrow> quote option) \<Rightarrow> string \<Rightarrow> bool \<Rightarrow> rat \<Rightarrow> rat \<Rightarrow> string + rat \<times> rat" where
  "preview_fill br lk oid is_buy qty limit_price =
     (case lk oid of None \<Rightarrow> Inl ''no_quote'' | Some q \<Rightarrow>
       let resting = (if is_buy then ask_size q else bid_size q);
           px = apply_slippage br (if is_buy then ask q else bid q) is_buy;
           f = fee (br_fee br) px qty is_buy
       in if \<exists>r. resting = Some r \<and> r \<le> 0 then Inl ''no_liquidity''
          else if \<exists>r. resting = Some r \<and> r < qty then Inl ''insufficient_liquidity''
          else if is_buy \<and> limit_price < px then Inl ''limit_exceeded''
          else if \<not> is_buy \<and> px < limit_price then Inl ''limit_exceeded''
          else Inr (px, if is_buy then dadd (dmul px qty) f else dadd (dneg (dmul px qty)) f))"

subsection \<open>Position bookkeeping\<close>

definition acquire :: "account_state \<Rightarrow> string \<Rightarrow> rat \<Rightarrow> rat \<Rightarrow> account_state" where
  "acquire st oid qty price =
     (let cur_qty = dict_get 0 (ac_positions st) oid;
          cur_avg = dict_get 0 (ac_avg_price st) oid;
          new_qty = dadd cur_qty qty
      in st\<lparr>ac_avg_price := dict_set oid
              (if 0 < new_qty then dquot (dadd (dmul cur_qty cur_avg) (dmul qty price)) new_qty else 0)
              (ac_avg_price st),
            ac_positions := dict_set oid new_qty (ac_positions st)\<rparr>)"

definition consume_fees :: "account_state \<Rightarrow> string \<Rightarrow> rat \<Rightarrow> rat \<Rightarrow> account_state \<times> rat" where
  "consume_fees st oid released held =
     (let carried = dict_get 0 (ac_open_fees st) oid in
      if carried = 0 \<or> held \<le> 0 then (st, 0)
      else let share = (if held \<le> released then carried else dmul carried (dquot released held))
           in (st\<lparr>ac_open_fees := dict_set oid (dsub carried share) (ac_open_fees st)\<rparr>, share))"

definition book_realized :: "account_state \<Rightarrow> string \<Rightarrow> rat \<Rightarrow> account_state" where
  "book_realized st oid realized =
     st\<lparr>ac_realized_pnl := dadd (ac_realized_pnl st) realized,
        ac_realized_by_outcome := dict_set oid
          (dadd (dict_get 0 (ac_realized_by_outcome st) oid) realized) (ac_realized_by_outcome st)\<rparr>"

definition release :: "account_state \<Rightarrow> string \<Rightarrow> rat \<Rightarrow> rat \<Rightarrow> account_state" where
  "release st oid qty price =
     (let cur_qty = dict_get 0 (ac_positions st) oid;
          cur_avg = dict_get 0 (ac_avg_price st) oid;
          gross = dmul (dsub price cur_avg) (min qty cur_qty)
      in case consume_fees st oid qty cur_qty of (st', share) \<Rightarrow>
           let st'' = book_realized st' oid (dsub gross share)
           in st''\<lparr>ac_positions := dict_set oid (dsub cur_qty qty) (ac_positions st'')\<rparr>)"

subsection \<open>Filling an order\<close>

definition mk_order ::
  "paper_broker \<Rightarrow> string \<Rightarrow> intent_leg \<Rightarrow> order_status \<Rightarrow> string option \<Rightarrow> order" where
  "mk_order br order_id l status ticket = \<lparr>ord_id = order_id, ord_venue = br_venue br,
     ord_outcome = il_outcome l, ord_is_buy = il_is_buy l, ord_qty = il_qty l, ord_limit = il_limit l,
     ord_status = status, ord_ticket = ticket\<rparr>"

definition record_order :: "paper_broker \<Rightarrow> order \<Rightarrow> paper_broker" where
  "record_order br ord = br\<lparr>br_orders := dict_set (ord_id ord) ord (br_orders br)\<rparr>"

definition record_fill :: "paper_broker \<Rightarrow> fill \<Rightarrow> paper_broker" where
  "record_fill br f = br\<lparr>br_fills := dict_set (fill_order_id f)
     (dict_get [] (br_fills br) (fill_order_id f) @ [f]) (br_fills br)\<rparr>"

definition fill_account :: "paper_broker \<Rightarrow> account_state \<Rightarrow> intent_leg \<Rightarrow> rat \<Rightarrow> rat \<Rightarrow> account_state" where
  "fill_account br st l px f =
     (let c = venue_cash br st;
          st1 = st\<lparr>ac_open_fees := dict_set (il_outcome l)
                  (dadd (dict_get 0 (ac_open_fees st) (il_outcome l)) f) (ac_open_fees st)\<rparr>
      in if il_is_buy l
         then acquire (set_cash br (dsub c (dadd (dmul px (il_qty l)) f)) st1) (il_outcome l) (il_qty l) px
         else release (set_cash br (dadd c (dsub (dmul px (il_qty l)) f)) st1) (il_outcome l) (il_qty l) px)"

text \<open>\<open>apply_fill\<close> returns the broker, the order, the fill and the rejection reason.\<close>

definition apply_fill ::
  "paper_broker \<Rightarrow> (string \<Rightarrow> quote option) \<Rightarrow> string \<Rightarrow> string \<Rightarrow> string option \<Rightarrow> intent_leg
    \<Rightarrow> paper_broker \<times> order \<times> fill option \<times> string option" where
  "apply_fill br lk order_id a ticket l =
     (let rejected = (\<lambda>reason. let ord = mk_order br order_id l REJECTED ticket
                              in (record_order br ord, ord, None, Some reason))
      in case preview_fill br lk (il_outcome l) (il_is_buy l) (il_qty l) (il_limit l) of
           Inl reason \<Rightarrow> rejected reason
         | Inr (px, cost) \<Rightarrow>
             if il_is_buy l \<and> cash br a < cost then rejected ''insufficient_funds''
             else let f = fee (br_fee br) px (il_qty l) (il_is_buy l);
                      br' = put_acct br a (fill_account br (acct br a) l px f);
                      ord = mk_order br order_id l FILLED ticket;
                      fl = \<lparr>fill_order_id = order_id, fill_qty = il_qty l, fill_price = px, fill_fee = f\<rparr>
                  in (record_fill (record_order br' ord) fl, ord, Some fl, None))"


text \<open>The rollback copy of an account. The code copies these five components and no other.\<close>

type_synonym account_copy =
  "(string, rat) dict \<times> (string, rat) dict \<times> (string, rat) dict \<times> rat \<times> (string, rat) dict"

definition snapshot_account :: "paper_broker \<Rightarrow> string \<Rightarrow> account_copy" where
  "snapshot_account br a =
     (let st = acct br a in
      (ac_balances st, ac_positions st, ac_avg_price st, ac_realized_pnl st, ac_realized_by_outcome st))"

fun restore_account :: "paper_broker \<Rightarrow> string \<Rightarrow> account_copy \<Rightarrow> paper_broker" where
  "restore_account br a (bal, pos, avg, pnl, by_outcome) =
     put_acct br a ((acct br a)\<lparr>ac_balances := bal, ac_positions := pos, ac_avg_price := avg,
       ac_realized_by_outcome := by_outcome, ac_realized_pnl := pnl\<rparr>)"

definition forget_order :: "paper_broker \<Rightarrow> string \<Rightarrow> paper_broker" where
  "forget_order br order_id =
     br\<lparr>br_orders := dict_pop order_id (br_orders br), br_fills := dict_pop order_id (br_fills br)\<rparr>"

subsection \<open>Notifications\<close>

definition emit :: "sink_event list \<Rightarrow> paper_broker \<Rightarrow> paper_broker" where
  "emit evs br = br\<lparr>br_sink := map_option (\<lambda>s. s\<lparr>sink_log := sink_log s @ evs\<rparr>) (br_sink br)\<rparr>"

definition position_event :: "paper_broker \<Rightarrow> string \<Rightarrow> string \<Rightarrow> account_state \<Rightarrow> sink_event" where
  "position_event br a oid st = OnPosition a oid (dict_get 0 (ac_positions st) oid)
     (dict_get 0 (ac_avg_price st) oid) (dict_get 0 (ac_realized_by_outcome st) oid) (br_venue br)
     (dict_get 0 (ac_open_fees st) oid)"

text \<open>The exception is the \<open>KeyError\<close> of a venue with no balance entry; what was emitted stays.\<close>

definition emit_order_events ::
  "paper_broker \<Rightarrow> string \<Rightarrow> order \<Rightarrow> fill option \<Rightarrow> string option \<Rightarrow> paper_broker \<times> py_exc option" where
  "emit_order_events br a ord fl reason =
     (case br_sink br of None \<Rightarrow> (br, None) | Some _ \<Rightarrow>
        (case fl of None \<Rightarrow> (emit [OnOrder ord reason] br, None) | Some f \<Rightarrow>
           (let st = acct br a;
                br1 = emit [OnOrder ord None, OnFill ord f] br
            in case map_of (ac_balances st) (br_venue br) of
                 None \<Rightarrow> (br1, Some KeyError)
               | Some bal \<Rightarrow> (emit [OnBalance a (br_venue br) bal, position_event br a (ord_outcome ord) st] br1,
                   None))))"

definition place_order ::
  "paper_broker \<Rightarrow> (string \<Rightarrow> quote option) \<Rightarrow> string \<Rightarrow> string \<Rightarrow> string option \<Rightarrow> intent_leg
    \<Rightarrow> paper_broker \<times> order res" where
  "place_order br lk order_id a ticket l =
     (case apply_fill br lk order_id a ticket l of (br1, ord, fl, reason) \<Rightarrow>
        case emit_order_events br1 a ord fl reason of
          (br2, None) \<Rightarrow> (br2, Inr ord)
        | (br2, Some e) \<Rightarrow> (br2, Inl e))"

definition cancel_order :: "paper_broker \<Rightarrow> string \<Rightarrow> order res" where
  "cancel_order br order_id = (case map_of (br_orders br) order_id of None \<Rightarrow> Inl KeyError | Some ord \<Rightarrow> Inr ord)"

definition get_balances :: "paper_broker \<Rightarrow> string \<Rightarrow> (string, rat) dict" where
  "get_balances br a = ac_balances (acct br a)"

definition get_positions :: "paper_broker \<Rightarrow> string \<Rightarrow> (string, rat) dict" where
  "get_positions br a = ac_positions (acct br a)"

definition get_fills :: "paper_broker \<Rightarrow> string \<Rightarrow> fill list" where
  "get_fills br order_id = dict_get [] (br_fills br) order_id"

definition realized_pnl :: "paper_broker \<Rightarrow> string \<Rightarrow> rat" where
  "realized_pnl br a = ac_realized_pnl (acct br a)"

subsection \<open>Settlement\<close>

definition holds :: "string \<Rightarrow> account_state \<Rightarrow> bool" where
  "holds oid st \<longleftrightarrow> dict_get 0 (ac_positions st) oid \<noteq> 0"

definition zero_position :: "string \<Rightarrow> account_state \<Rightarrow> account_state" where
  "zero_position oid st = st\<lparr>ac_positions := dict_set oid 0 (ac_positions st),
     ac_avg_price := dict_set oid 0 (ac_avg_price st)\<rparr>"

definition settle_account :: "paper_broker \<Rightarrow> string \<Rightarrow> rat \<Rightarrow> account_state \<Rightarrow> account_state" where
  "settle_account br oid v st =
     (let qty = dict_get 0 (ac_positions st) oid;
          avg = dict_get 0 (ac_avg_price st) oid;
          gross = dmul (dsub v avg) qty
      in case consume_fees st oid qty qty of (st', share) \<Rightarrow>
           let st'' = book_realized st' oid (dsub gross share)
           in zero_position oid (set_cash br (dadd (venue_cash br st'') (dmul v qty)) st''))"

definition settle_if_held :: "paper_broker \<Rightarrow> string \<Rightarrow> rat \<Rightarrow> account_state \<Rightarrow> account_state" where
  "settle_if_held br oid v st = (if holds oid st then settle_account br oid v st else st)"

definition settle_outcome :: "paper_broker \<Rightarrow> string \<Rightarrow> rat \<Rightarrow> paper_broker" where
  "settle_outcome br oid v =
     br\<lparr>br_accounts := map (\<lambda>(a, st). (a, settle_if_held br oid v st)) (br_accounts br)\<rparr>"

definition closed_accounts ::
  "paper_broker \<Rightarrow> string \<Rightarrow> rat \<Rightarrow> (string \<times> rat \<times> rat \<times> rat) list" where
  "closed_accounts br oid v =
     map (\<lambda>(a, st). let st' = settle_account br oid v st in
            (a, venue_cash br st', dict_get 0 (ac_realized_by_outcome st') oid, dict_get 0 (ac_open_fees st') oid))
       (filter (\<lambda>(_, st). holds oid st) (br_accounts br))"

definition settle_outcome_async :: "paper_broker \<Rightarrow> string \<Rightarrow> rat \<Rightarrow> string \<Rightarrow> paper_broker" where
  "settle_outcome_async br oid v src =
     (let closed = closed_accounts br oid v;
          br' = br\<lparr>br_accounts := map (\<lambda>(a, st). (a, if holds oid st then settle_account br oid v st else st))
                    (br_accounts br)\<rparr>
      in case br_sink br of None \<Rightarrow> br' | Some s \<Rightarrow>
           if has_on_settled s then emit [OnSettled oid v (br_venue br) src closed] br'
           else emit (concat (map (\<lambda>(a, bal, realized, fees).
                        [OnBalance a (br_venue br) bal, OnPosition a oid 0 0 realized (br_venue br) fees]) closed)
                      @ [OnSettlement oid v (br_venue br) src]) br')"

definition close_account :: "string \<Rightarrow> account_state \<Rightarrow> account_state" where
  "close_account oid st = (zero_position oid st)\<lparr>ac_open_fees := dict_set oid 0 (ac_open_fees st)\<rparr>"

definition close_already_settled :: "paper_broker \<Rightarrow> string \<Rightarrow> paper_broker \<times> nat" where
  "close_already_settled br oid =
     (let held = filter (\<lambda>(_, st). holds oid st) (br_accounts br);
          br' = br\<lparr>br_accounts := map (\<lambda>(a, st). (a, if holds oid st then close_account oid st else st))
                    (br_accounts br)\<rparr>
      in (emit (map (\<lambda>(a, st). OnPosition a oid 0 0 (dict_get 0 (ac_realized_by_outcome st) oid)
                 (br_venue br) 0) held) br', length held))"

declare empty_account_def [eval_rules] new_broker_def [eval_rules] acct_def [eval_rules]
  put_acct_def [eval_rules] set_sink_def [eval_rules] venue_cash_def [eval_rules] set_cash_def [eval_rules]
  cash_def [eval_rules] deposit_def [eval_rules] withdraw_def [eval_rules] hydrate_balance_def [eval_rules]
  reset_account_def [eval_rules] hydrate_position_def [eval_rules] account_snapshot_def [eval_rules]
  dquot_def [eval_rules] apply_slippage_def [eval_rules] preview_fill_def [eval_rules]
  acquire_def [eval_rules] consume_fees_def [eval_rules] book_realized_def [eval_rules]
  release_def [eval_rules] mk_order_def [eval_rules] record_order_def [eval_rules]
  record_fill_def [eval_rules] fill_account_def [eval_rules] apply_fill_def [eval_rules]
  snapshot_account_def [eval_rules] forget_order_def [eval_rules] emit_def [eval_rules]
  position_event_def [eval_rules] emit_order_events_def [eval_rules] place_order_def [eval_rules]
  cancel_order_def [eval_rules] get_balances_def [eval_rules] get_positions_def [eval_rules]
  get_fills_def [eval_rules] realized_pnl_def [eval_rules] holds_def [eval_rules]
  zero_position_def [eval_rules] settle_account_def [eval_rules] settle_if_held_def [eval_rules]
  settle_outcome_def [eval_rules] closed_accounts_def [eval_rules] settle_outcome_async_def [eval_rules]
  close_account_def [eval_rules] close_already_settled_def [eval_rules]

subsection \<open>Reads of an updated broker\<close>

lemma acct_put [simp]: "acct (put_acct br a st) a' = (if a' = a then st else acct br a')"
  by (simp add: acct_def put_acct_def)

lemma put_acct_keeps [simp]:
  "br_venue (put_acct br a st) = br_venue br" "br_fee (put_acct br a st) = br_fee br"
  "br_slippage_bps (put_acct br a st) = br_slippage_bps br" "br_sink (put_acct br a st) = br_sink br"
  "br_orders (put_acct br a st) = br_orders br" "br_fills (put_acct br a st) = br_fills br"
  by (simp_all add: put_acct_def)

lemma record_keeps [simp]:
  "br_accounts (record_order br ord) = br_accounts br" "br_accounts (record_fill br f) = br_accounts br"
  "br_accounts (forget_order br i) = br_accounts br" "br_accounts (emit evs br) = br_accounts br"
  "br_venue (record_order br ord) = br_venue br" "br_venue (record_fill br f) = br_venue br"
  "br_venue (forget_order br i) = br_venue br" "br_venue (emit evs br) = br_venue br"
  "br_fee (record_order br ord) = br_fee br" "br_fee (record_fill br f) = br_fee br"
  "br_fee (forget_order br i) = br_fee br" "br_fee (emit evs br) = br_fee br"
  by (simp_all add: record_order_def record_fill_def forget_order_def emit_def)

lemma acct_cong: "br_accounts br = br_accounts br' \<Longrightarrow> acct br a = acct br' a"
  by (simp add: acct_def)

lemma acct_record [simp]:
  "acct (record_order br ord) a = acct br a" "acct (record_fill br f) a = acct br a"
  "acct (forget_order br i) a = acct br a" "acct (emit evs br) a = acct br a"
  by (simp_all add: acct_def)

lemma venue_cash_cong: "br_venue br = br_venue br' \<Longrightarrow> venue_cash br st = venue_cash br' st"
  by (simp add: venue_cash_def)

lemma cash_keeps [simp]:
  "venue_cash (put_acct br a s) st = venue_cash br st" "venue_cash (record_order br ord) st = venue_cash br st"
  "venue_cash (record_fill br f) st = venue_cash br st" "venue_cash (forget_order br i) st = venue_cash br st"
  "venue_cash (emit evs br) st = venue_cash br st"
  "cash (record_order br ord) a = cash br a" "cash (record_fill br f) a = cash br a"
  "cash (forget_order br i) a = cash br a" "cash (emit evs br) a = cash br a"
  by (simp_all add: venue_cash_def cash_def)

lemma venue_cash_set [simp]: "venue_cash br (set_cash br x st) = x"
  by (simp add: venue_cash_def set_cash_def)

lemma set_cash_keeps [simp]:
  "ac_positions (set_cash br x st) = ac_positions st" "ac_avg_price (set_cash br x st) = ac_avg_price st"
  "ac_realized_pnl (set_cash br x st) = ac_realized_pnl st"
  "ac_realized_by_outcome (set_cash br x st) = ac_realized_by_outcome st"
  "ac_open_fees (set_cash br x st) = ac_open_fees st"
  by (simp_all add: set_cash_def)

lemma acquire_keeps [simp]:
  "ac_balances (acquire st oid q p) = ac_balances st" "ac_open_fees (acquire st oid q p) = ac_open_fees st"
  "ac_realized_pnl (acquire st oid q p) = ac_realized_pnl st"
  "ac_realized_by_outcome (acquire st oid q p) = ac_realized_by_outcome st"
  by (simp_all add: acquire_def Let_def)

lemma book_realized_keeps [simp]:
  "ac_balances (book_realized st oid r) = ac_balances st" "ac_positions (book_realized st oid r) = ac_positions st"
  "ac_avg_price (book_realized st oid r) = ac_avg_price st" "ac_open_fees (book_realized st oid r) = ac_open_fees st"
  by (simp_all add: book_realized_def)

lemma zero_position_keeps [simp]:
  "ac_balances (zero_position oid st) = ac_balances st" "ac_open_fees (zero_position oid st) = ac_open_fees st"
  "ac_realized_pnl (zero_position oid st) = ac_realized_pnl st"
  "ac_realized_by_outcome (zero_position oid st) = ac_realized_by_outcome st"
  by (simp_all add: zero_position_def)

lemma consume_fees_keeps:
  assumes "consume_fees st oid r h = (st', share)"
  shows "ac_balances st' = ac_balances st" "ac_positions st' = ac_positions st"
    "ac_avg_price st' = ac_avg_price st" "ac_realized_pnl st' = ac_realized_pnl st"
    "ac_realized_by_outcome st' = ac_realized_by_outcome st"
  using assms by (auto simp: consume_fees_def Let_def split: if_splits)

subsection \<open>Prices and costs\<close>

lemma dec_rep_dquot [simp]: "dec_rep (dquot a b)"
  by (simp add: dquot_def)

lemma dquot_nonneg: "0 \<le> a \<Longrightarrow> 0 \<le> b \<Longrightarrow> 0 \<le> dquot a b"
  by (simp add: dquot_def)

lemma dquot_le_1: "0 \<le> a \<Longrightarrow> a \<le> b \<Longrightarrow> dquot a b \<le> 1"
  unfolding dquot_def by (rule dec.le_fixed) (use dec_rep_1 in \<open>auto simp: dec_rep_def divide_le_eq_1\<close>)

lemma dmul_le_left: "0 \<le> a \<Longrightarrow> dec_rep a \<Longrightarrow> 0 \<le> b \<Longrightarrow> b \<le> 1 \<Longrightarrow> dmul a b \<le> a"
  unfolding dmul_def by (rule dec.le_fixed) (auto simp: mult_left_le dec_rep_def)

lemma apply_slippage_range: "0 \<le> apply_slippage br p b \<and> apply_slippage br p b \<le> 1 \<and> dec_rep (apply_slippage br p b)"
  by (auto simp: apply_slippage_def Let_def)

lemma apply_slippage_adverse:
  assumes "0 \<le> br_slippage_bps br" "0 \<le> p" "p \<le> 1" "dec_rep p"
  shows "p \<le> apply_slippage br p True" "apply_slippage br p False \<le> p"
proof -
  have adj: "0 \<le> dquot (dmul p (br_slippage_bps br)) 10000"
    using assms by (intro dquot_nonneg dmul_nonneg) auto
  have "p \<le> dadd p (dquot (dmul p (br_slippage_bps br)) 10000)"
    unfolding dadd_def using adj assms by (intro dec.ge_fixed) (auto simp: dec_rep_def)
  then show "p \<le> apply_slippage br p True" using assms by (auto simp: apply_slippage_def Let_def)
  have "dsub p (dquot (dmul p (br_slippage_bps br)) 10000) \<le> p"
    unfolding dsub_def using adj assms by (intro dec.le_fixed) (auto simp: dec_rep_def)
  then show "apply_slippage br p False \<le> p" using assms by (auto simp: apply_slippage_def Let_def)
qed

lemma preview_fill_Inr:
  assumes "preview_fill br lk oid b qty limit = Inr (px, cost)"
  obtains q where "lk oid = Some q" "px = apply_slippage br (if b then ask q else bid q) b"
    "b \<longrightarrow> px \<le> limit" "\<not> b \<longrightarrow> limit \<le> px"
    "cost = dadd (if b then dmul px qty else dneg (dmul px qty)) (fee (br_fee br) px qty b)"
    "\<forall>r. (if b then ask_size q else bid_size q) = Some r \<longrightarrow> 0 < r \<and> qty \<le> r"
  using assms
  by (auto simp: preview_fill_def Let_def not_less not_le split: option.splits if_splits)

subsection \<open>The invariant of an account\<close>

text \<open>
  No cash, position or carried fee is negative, an average price is a probability, and positions and
  fees are representable decimals.
\<close>

definition account_ok :: "account_state \<Rightarrow> bool" where
  "account_ok st \<longleftrightarrow> dict_all (\<lambda>x. 0 \<le> x) (ac_balances st) \<and>
     dict_all (\<lambda>q. 0 \<le> q \<and> dec_rep q) (ac_positions st) \<and>
     dict_all (\<lambda>p. 0 \<le> p \<and> p \<le> 1) (ac_avg_price st) \<and>
     dict_all (\<lambda>f. 0 \<le> f \<and> dec_rep f) (ac_open_fees st)"

definition broker_ok :: "paper_broker \<Rightarrow> bool" where
  "broker_ok br \<longleftrightarrow> fee_ok (br_fee br) \<and> dict_ok (br_accounts br) \<and> dict_all account_ok (br_accounts br)"

declare account_ok_def [eval_rules] broker_ok_def [eval_rules]

lemma account_ok_empty [simp]: "account_ok empty_account"
  by (simp add: account_ok_def empty_account_def)

lemma broker_ok_new: "fee_ok m \<Longrightarrow> broker_ok (new_broker v m slip snk)"
  by (simp add: broker_ok_def new_broker_def)

lemma broker_ok_acct: "broker_ok br \<Longrightarrow> account_ok (acct br a)"
  unfolding broker_ok_def acct_def by (simp add: dict_all_get)

lemma broker_ok_put: "broker_ok br \<Longrightarrow> account_ok st \<Longrightarrow> broker_ok (put_acct br a st)"
  by (auto simp: broker_ok_def put_acct_def)

lemma broker_ok_cong:
  "br_accounts br' = br_accounts br \<Longrightarrow> br_fee br' = br_fee br \<Longrightarrow> broker_ok br' = broker_ok br"
  by (simp add: broker_ok_def)

lemma account_ok_reads:
  assumes "account_ok st"
  shows "0 \<le> venue_cash br st" "0 \<le> dict_get 0 (ac_positions st) oid" "dec_rep (dict_get 0 (ac_positions st) oid)"
    "0 \<le> dict_get 0 (ac_avg_price st) oid" "dict_get 0 (ac_avg_price st) oid \<le> 1"
    "0 \<le> dict_get 0 (ac_open_fees st) oid" "dec_rep (dict_get 0 (ac_open_fees st) oid)"
  using assms dict_all_get [of "\<lambda>x. 0 \<le> x" "ac_balances st" 0 "br_venue br"]
    dict_all_get [of "\<lambda>q. 0 \<le> q \<and> dec_rep q" "ac_positions st" 0 oid]
    dict_all_get [of "\<lambda>p. 0 \<le> p \<and> p \<le> 1" "ac_avg_price st" 0 oid]
    dict_all_get [of "\<lambda>f. 0 \<le> f \<and> dec_rep f" "ac_open_fees st" 0 oid]
  by (auto simp: account_ok_def venue_cash_def)

lemma account_ok_set_cash: "account_ok st \<Longrightarrow> 0 \<le> x \<Longrightarrow> account_ok (set_cash br x st)"
  by (auto simp: account_ok_def set_cash_def)

lemma account_ok_fees:
  "account_ok st \<Longrightarrow> 0 \<le> f \<Longrightarrow> dec_rep f \<Longrightarrow> account_ok (st\<lparr>ac_open_fees := dict_set oid f (ac_open_fees st)\<rparr>)"
  by (auto simp: account_ok_def)

lemma account_ok_acquire:
  assumes ok: "account_ok st" and q: "0 \<le> qty" "dec_rep qty" and p: "0 \<le> price" "price \<le> 1"
  shows "account_ok (acquire st oid qty price)"
proof -
  let ?cq = "dict_get 0 (ac_positions st) oid" and ?ca = "dict_get 0 (ac_avg_price st) oid"
  note r = account_ok_reads [OF ok]
  have num: "0 \<le> dadd (dmul ?cq ?ca) (dmul qty price)" "dadd (dmul ?cq ?ca) (dmul qty price) \<le> dadd ?cq qty"
    using r q p by (simp_all add: dadd_nonneg dmul_nonneg)
      (simp add: dadd_def dec.mono add_mono dmul_le_left)
  have avg: "0 \<le> dquot (dadd (dmul ?cq ?ca) (dmul qty price)) (dadd ?cq qty)"
      "dquot (dadd (dmul ?cq ?ca) (dmul qty price)) (dadd ?cq qty) \<le> 1"
    using num r q by (auto intro!: dquot_nonneg dquot_le_1 simp: dadd_nonneg)
  show ?thesis
    using ok avg r q by (auto simp: account_ok_def acquire_def Let_def dadd_nonneg intro!: dict_all_set)
qed

lemma consume_fees_ok:
  assumes "account_ok st" "consume_fees st oid r h = (st', share)" "0 \<le> r"
  shows "account_ok st'"
proof -
  let ?c = "dict_get 0 (ac_open_fees st) oid"
  note rd = account_ok_reads [OF assms(1)]
  have "dmul ?c (dquot r h) \<le> ?c" if "r < h"
    using rd that assms(3) by (intro dmul_le_left dquot_le_1 dquot_nonneg) auto
  then show ?thesis using assms
    by (auto simp: consume_fees_def Let_def dec_simps intro!: account_ok_fees split: if_splits)
qed

lemma account_ok_book: "account_ok st \<Longrightarrow> account_ok (book_realized st oid r)"
  by (simp add: account_ok_def)

lemma account_ok_release:
  assumes ok: "account_ok st" and q: "0 \<le> qty" "qty \<le> dict_get 0 (ac_positions st) oid"
  shows "account_ok (release st oid qty price)"
proof -
  obtain st' share where c: "consume_fees st oid qty (dict_get 0 (ac_positions st) oid) = (st', share)" by force
  have "account_ok st'" using consume_fees_ok [OF ok c q(1)] .
  then have "account_ok (book_realized st' oid r)" for r by (rule account_ok_book)
  then show ?thesis using q
    by (auto simp: release_def c Let_def account_ok_def dec_simps intro!: dict_all_set)
qed

lemma account_ok_settle:
  assumes ok: "account_ok st" and v: "0 \<le> v"
  shows "account_ok (settle_account br oid v st)"
proof -
  let ?q = "dict_get 0 (ac_positions st) oid"
  note rd = account_ok_reads [OF ok]
  obtain st' share where c: "consume_fees st oid ?q ?q = (st', share)" by force
  have ok': "account_ok (book_realized st' oid r)" for r
    using consume_fees_ok [OF ok c] rd by (intro account_ok_book) blast
  have "account_ok (set_cash br x (book_realized st' oid r))" if "0 \<le> x" for x r
    using ok' that by (rule account_ok_set_cash)
  moreover have "0 \<le> dadd (venue_cash br (book_realized st' oid r)) (dmul v ?q)" for r
    using account_ok_reads [OF ok'] v rd by (intro dadd_nonneg dmul_nonneg)
  ultimately show ?thesis
    by (auto simp: settle_account_def c Let_def account_ok_def zero_position_def intro!: dict_all_set)
qed

lemma account_ok_close: "account_ok st \<Longrightarrow> account_ok (close_account oid st)"
  by (auto simp: account_ok_def close_account_def zero_position_def)

subsection \<open>Reachable brokers\<close>

lemma broker_ok_map:
  "(\<And>st. account_ok st \<Longrightarrow> account_ok (f st)) \<Longrightarrow> broker_ok br \<Longrightarrow>
     broker_ok (br\<lparr>br_accounts := map (\<lambda>(a, st). (a, f st)) (br_accounts br)\<rparr>)"
  by (auto simp: broker_ok_def intro: dict_all_map)

lemma broker_ok_events [simp]:
  "broker_ok (emit evs br) = broker_ok br" "broker_ok (record_order br ord) = broker_ok br"
  "broker_ok (record_fill br f) = broker_ok br" "broker_ok (forget_order br i) = broker_ok br"
  "broker_ok (set_sink br s) = broker_ok br"
  by (simp_all add: broker_ok_def set_sink_def)

lemma venue_cash_upd [simp]:
  "venue_cash br (st\<lparr>ac_open_fees := x\<rparr>) = venue_cash br st"
  "venue_cash (br\<lparr>br_accounts := y\<rparr>) st = venue_cash br st"
  by (simp_all add: venue_cash_def)

lemma account_ok_fill:
  assumes br: "broker_ok br" and q: "0 < il_qty l" "dec_rep (il_qty l)"
    and sell: "il_is_buy l \<or> il_qty l \<le> dict_get 0 (ac_positions (acct br a)) (il_outcome l)"
    and p: "0 \<le> px" "px \<le> 1" "dec_rep px"
    and c: "il_is_buy l \<Longrightarrow>
      dadd (dmul px (il_qty l)) (fee (br_fee br) px (il_qty l) (il_is_buy l)) \<le> cash br a"
  shows "account_ok (fill_account br (acct br a) l px (fee (br_fee br) px (il_qty l) (il_is_buy l)))"
proof -
  let ?st = "acct br a" and ?f = "fee (br_fee br) px (il_qty l) (il_is_buy l)"
  from br have ok: "account_ok ?st" and fm: "fee_ok (br_fee br)"
    by (simp_all add: broker_ok_acct) (simp add: broker_ok_def)
  note rd = account_ok_reads [OF ok]
  have f: "0 \<le> ?f" using fm p by (intro fees.charge_nonneg) auto
  have st1: "account_ok (?st\<lparr>ac_open_fees := dict_set (il_outcome l)
      (dadd (dict_get 0 (ac_open_fees ?st) (il_outcome l)) ?f) (ac_open_fees ?st)\<rparr>)" (is "account_ok ?st1")
    using rd f by (intro account_ok_fees [OF ok] dadd_nonneg) auto
  show ?thesis
  proof (cases "il_is_buy l")
    case True
    then have "0 \<le> dsub (venue_cash br ?st) (dadd (dmul px (il_qty l)) ?f)"
      using c by (simp add: dec_simps cash_def)
    then have "account_ok (set_cash br (dsub (venue_cash br ?st) (dadd (dmul px (il_qty l)) ?f)) ?st1)"
      by (rule account_ok_set_cash [OF st1])
    with True p q show ?thesis by (simp add: fill_account_def Let_def account_ok_acquire)
  next
    case False
    have "0 \<le> dsub (dmul px (il_qty l)) ?f"
      using fm p q by (intro fees.sale_proceeds_nonneg) auto
    then have "account_ok (set_cash br (dadd (venue_cash br ?st) (dsub (dmul px (il_qty l)) ?f)) ?st1)"
      using rd by (intro account_ok_set_cash [OF st1] dadd_nonneg) auto
    with False sell q show ?thesis by (simp add: fill_account_def Let_def account_ok_release)
  qed
qed

lemma apply_fill_filled:
  assumes "apply_fill br lk i a t l = (br', ord, Some f, reason)"
  obtains px where "fill_price f = px" "fill_qty f = il_qty l" "fill_order_id f = i"
    "fill_fee f = fee (br_fee br) px (il_qty l) (il_is_buy l)" "reason = None"
    "preview_fill br lk (il_outcome l) (il_is_buy l) (il_qty l) (il_limit l) =
       Inr (px, dadd (if il_is_buy l then dmul px (il_qty l) else dneg (dmul px (il_qty l))) (fill_fee f))"
    "il_is_buy l \<longrightarrow> dadd (dmul px (il_qty l)) (fill_fee f) \<le> cash br a"
    "ord = mk_order br i l FILLED t" "0 \<le> px" "px \<le> 1" "dec_rep px"
    "br' = record_fill (record_order (put_acct br a (fill_account br (acct br a) l px (fill_fee f))) ord) f"
proof -
  from assms obtain px cost where
    p: "preview_fill br lk (il_outcome l) (il_is_buy l) (il_qty l) (il_limit l) = Inr (px, cost)"
    by (auto simp: apply_fill_def Let_def split: sum.splits)
  from p obtain q :: quote where px: "px = apply_slippage br (if il_is_buy l then ask q else bid q) (il_is_buy l)"
    and cost: "cost = dadd (if il_is_buy l then dmul px (il_qty l) else dneg (dmul px (il_qty l)))
      (fee (br_fee br) px (il_qty l) (il_is_buy l))"
    by (rule preview_fill_Inr) blast
  have "0 \<le> px" "px \<le> 1" "dec_rep px" using apply_slippage_range by (simp_all add: px)
  with assms p show thesis
    by (intro that [of px]) (auto simp: apply_fill_def Let_def cost not_less split: if_splits)
qed

lemma apply_fill_rejected:
  assumes "apply_fill br lk i a t l = (br', ord, None, reason)"
  shows "ord = mk_order br i l REJECTED t" "br' = record_order br ord"
  using assms by (auto simp: apply_fill_def Let_def split: sum.splits if_splits)

lemma broker_ok_apply_fill:
  assumes "broker_ok br" "0 < il_qty l" "dec_rep (il_qty l)"
    and "il_is_buy l \<or> il_qty l \<le> dict_get 0 (ac_positions (acct br a)) (il_outcome l)"
  shows "broker_ok (fst (apply_fill br lk i a t l))"
proof (cases "apply_fill br lk i a t l")
  case (fields br' ord fl reason)
  show ?thesis
  proof (cases fl)
    case None
    with fields have "br' = record_order br ord" using apply_fill_rejected(2) by blast
    with fields assms(1) show ?thesis by simp
  next
    case (Some f)
    with fields have "apply_fill br lk i a t l = (br', ord, Some f, reason)" by simp
    then show ?thesis
    proof (rule apply_fill_filled)
      fix px
      assume "il_is_buy l \<longrightarrow> dadd (dmul px (il_qty l)) (fill_fee f) \<le> cash br a" "0 \<le> px" "px \<le> 1"
        "dec_rep px" and f: "fill_fee f = fee (br_fee br) px (il_qty l) (il_is_buy l)"
        and br': "br' = record_fill (record_order (put_acct br a (fill_account br (acct br a) l px (fill_fee f))) ord) f"
      then show ?thesis using assms fields
        by (simp add: broker_ok_put account_ok_fill)
    qed
  qed
qed

lemma emit_order_events_accounts [simp]:
  "br_accounts (fst (emit_order_events br a ord fl r)) = br_accounts br"
  "br_fee (fst (emit_order_events br a ord fl r)) = br_fee br"
  "br_venue (fst (emit_order_events br a ord fl r)) = br_venue br"
  by (simp_all add: emit_order_events_def Let_def split: option.split)

lemma place_order_broker:
  "fst (place_order br lk i a t l) =
     (case apply_fill br lk i a t l of (br1, ord, fl, r) \<Rightarrow> fst (emit_order_events br1 a ord fl r))"
  by (simp add: place_order_def split: prod.split option.split)

lemma broker_ok_place_order:
  assumes "broker_ok br" "0 < il_qty l" "dec_rep (il_qty l)"
    and "il_is_buy l \<or> il_qty l \<le> dict_get 0 (ac_positions (acct br a)) (il_outcome l)"
  shows "broker_ok (fst (place_order br lk i a t l))"
  using broker_ok_apply_fill [OF assms, of lk i t]
  by (cases "apply_fill br lk i a t l") (simp add: place_order_broker broker_ok_def)

lemma broker_ok_settle: "broker_ok br \<Longrightarrow> 0 \<le> v \<Longrightarrow> broker_ok (settle_outcome br oid v)"
  unfolding settle_outcome_def by (rule broker_ok_map) (auto simp: settle_if_held_def account_ok_settle)

lemma settle_async_accounts:
  "br_accounts (settle_outcome_async br oid v src) = br_accounts (settle_outcome br oid v)"
  "br_fee (settle_outcome_async br oid v src) = br_fee br"
  "br_venue (settle_outcome_async br oid v src) = br_venue br"
  by (simp_all add: settle_outcome_async_def settle_outcome_def settle_if_held_def Let_def split: option.split)

lemma settle_keeps [simp]:
  "br_fee (settle_outcome br oid v) = br_fee br" "br_venue (settle_outcome br oid v) = br_venue br"
  by (simp_all add: settle_outcome_def)

lemma broker_ok_close: "broker_ok br \<Longrightarrow> broker_ok (fst (close_already_settled br oid))"
  unfolding close_already_settled_def
  by (auto simp: Let_def account_ok_close intro!: broker_ok_map [of "\<lambda>st. if holds oid st then close_account oid st else st"])

text \<open>
  The operations a running system performs on a broker. A fill may carry any limit and any quotes; a
  sale is bounded by the holding (every detector emits buys), a deposit is not negative, a market
  resolves to a value in [0, 1], and what is hydrated from the database is a valid account.
\<close>

inductive broker_step :: "paper_broker \<Rightarrow> paper_broker \<Rightarrow> bool" where
  place: "0 < il_qty l \<Longrightarrow> dec_rep (il_qty l) \<Longrightarrow>
    il_is_buy l \<or> il_qty l \<le> dict_get 0 (ac_positions (acct br a)) (il_outcome l) \<Longrightarrow>
    broker_step br (fst (place_order br lk i a t l))"
| fill: "0 < il_qty l \<Longrightarrow> dec_rep (il_qty l) \<Longrightarrow>
    il_is_buy l \<or> il_qty l \<le> dict_get 0 (ac_positions (acct br a)) (il_outcome l) \<Longrightarrow>
    broker_step br (fst (apply_fill br lk i a t l))"
| notify: "broker_step br (fst (emit_order_events br a ord fl r))"
| credit: "0 \<le> amount \<Longrightarrow> broker_step br (deposit br a amount)"
| debit: "broker_step br (fst (withdraw br a amount))"
| settle: "0 \<le> v \<Longrightarrow> v \<le> 1 \<Longrightarrow> broker_step br (settle_outcome br oid v)"
| settle_async: "0 \<le> v \<Longrightarrow> v \<le> 1 \<Longrightarrow> broker_step br (settle_outcome_async br oid v src)"
| ghost: "broker_step br (fst (close_already_settled br oid))"
| load_balance: "0 \<le> amount \<Longrightarrow> broker_step br (hydrate_balance br a amount)"
| load_position: "0 \<le> qty \<Longrightarrow> dec_rep qty \<Longrightarrow> 0 \<le> avg \<Longrightarrow> avg \<le> 1 \<Longrightarrow> 0 \<le> fees \<Longrightarrow> dec_rep fees \<Longrightarrow>
    broker_step br (hydrate_position br a oid qty avg realized fees)"
| reset: "broker_step br (reset_account br a)"
| forget: "broker_step br (forget_order br i)"
| sink: "broker_step br (set_sink br s)"

inductive_cases broker_stepE: "broker_step br br'"

lemma broker_ok_hydrate:
  assumes "broker_ok br" "0 \<le> qty" "dec_rep qty" "0 \<le> avg" "avg \<le> 1" "0 \<le> fees" "dec_rep fees"
  shows "broker_ok (hydrate_position br a oid qty avg realized fees)"
  using assms broker_ok_acct [OF assms(1), of a]
  by (auto simp: hydrate_position_def Let_def account_ok_def intro!: broker_ok_put dict_all_set)

lemma broker_step_ok: "broker_step br br' \<Longrightarrow> broker_ok br \<Longrightarrow> broker_ok br'"
proof (induction rule: broker_step.induct)
  case (notify br a ord fl r)
  then show ?case by (simp add: broker_ok_def)
next
  case (credit amount br a)
  then show ?case
    unfolding deposit_def cash_def
    by (intro broker_ok_put account_ok_set_cash dadd_nonneg account_ok_reads broker_ok_acct)
next
  case (debit br a amount)
  then show ?case
    by (auto simp: withdraw_def Let_def not_less not_le dec_simps intro!: broker_ok_put account_ok_set_cash broker_ok_acct)
next
  case (settle_async v br oid src)
  then show ?case
    using broker_ok_settle [of br v oid] by (simp add: broker_ok_def settle_async_accounts)
next
  case (load_balance amount br a)
  then show ?case
    unfolding hydrate_balance_def by (intro broker_ok_put account_ok_set_cash broker_ok_acct)
next
  case (reset br a)
  then show ?case by (auto simp: broker_ok_def reset_account_def)
qed (simp_all add: broker_ok_place_order broker_ok_apply_fill broker_ok_settle broker_ok_close broker_ok_hydrate)

lemma broker_reachable_ok: "broker_step\<^sup>*\<^sup>* br br' \<Longrightarrow> broker_ok br \<Longrightarrow> broker_ok br'"
  by (induction rule: rtranclp_induct) (auto intro: broker_step_ok)

subsection \<open>The cash interface\<close>

text \<open>What the cash sweep relies on: the free cash of an account on one venue, and the two moves.\<close>

locale cash_book =
  fixes bal :: "'b \<Rightarrow> string \<Rightarrow> rat" and dep :: "'b \<Rightarrow> string \<Rightarrow> rat \<Rightarrow> 'b"
    and wd :: "'b \<Rightarrow> string \<Rightarrow> rat \<Rightarrow> 'b \<times> bool" and invar :: "'b \<Rightarrow> bool"
  assumes dep_bal: "bal (dep b a x) a' = (if a' = a then dadd (bal b a) x else bal b a')"
    and wd_bal: "bal (fst (wd b a x)) a' = (if a' = a \<and> snd (wd b a x) then dsub (bal b a) x else bal b a')"
    and wd_covered: "snd (wd b a x) \<longleftrightarrow> 0 < x \<and> x \<le> bal b a"
    and dep_invar: "invar b \<Longrightarrow> 0 \<le> x \<Longrightarrow> invar (dep b a x)"
    and wd_invar: "invar b \<Longrightarrow> invar (fst (wd b a x))"
    and bal_nonneg: "invar b \<Longrightarrow> 0 \<le> bal b a"
begin

text \<open>A transfer: withdraw from one book, and deposit in another what was withdrawn.\<close>

definition transfer :: "'b \<Rightarrow> 'b \<Rightarrow> string \<Rightarrow> rat \<Rightarrow> ('b \<times> 'b) \<times> bool" where
  "transfer src dst a x =
     (case wd src a x of (src', True) \<Rightarrow> ((src', dep dst a x), True) | (src', False) \<Rightarrow> ((src', dst), False))"

lemma transfer_ok: "snd (transfer src dst a x) \<longleftrightarrow> 0 < x \<and> x \<le> bal src a"
  using wd_covered [of src a x] by (auto simp: transfer_def split: prod.splits bool.splits)

lemma transfer_balances:
  "transfer src dst a x = ((src', dst'), True) \<Longrightarrow>
     bal src' a = dsub (bal src a) x \<and> bal dst' a = dadd (bal dst a) x"
  "transfer src dst a x = ((src', dst'), False) \<Longrightarrow> bal src' a' = bal src a' \<and> dst' = dst"
  using wd_bal [of src a x a] wd_bal [of src a x a'] dep_bal [of dst a x a]
  by (auto simp: transfer_def split: prod.splits bool.splits)

lemma transfer_others:
  "a' \<noteq> a \<Longrightarrow> transfer src dst a x = ((src', dst'), ok) \<Longrightarrow> bal src' a' = bal src a' \<and> bal dst' a' = bal dst a'"
  using wd_bal [of src a x a'] dep_bal [of dst a x a']
  by (auto simp: transfer_def split: prod.splits bool.splits)

lemma transfer_invar:
  "invar src \<Longrightarrow> invar dst \<Longrightarrow> transfer src dst a x = ((src', dst'), ok) \<Longrightarrow> invar src' \<and> invar dst'"
  using wd_invar [of src a x] dep_invar [of dst x a] wd_covered [of src a x]
  by (auto simp: transfer_def split: prod.splits bool.splits)

text \<open>Where the two sums need no rounding, the money is conserved.\<close>

lemma transfer_conserves:
  assumes "transfer src dst a x = ((src', dst'), ok)"
    and "dec_rep (bal src a - x)" "dec_rep (bal dst a + x)"
  shows "bal src' a + bal dst' a = bal src a + bal dst a"
  using assms transfer_balances(1) [of src dst a x src' dst'] transfer_balances(2) [of src dst a x src' dst' a]
  by (cases ok) (auto simp: dsub_def dadd_def dec_rep_def)

end

lemma cash_put [simp]: "cash (put_acct br a st) a' = (if a' = a then venue_cash br st else cash br a')"
  by (simp add: cash_def venue_cash_def)

lemma cash_nonneg: "broker_ok br \<Longrightarrow> 0 \<le> cash br a"
  unfolding cash_def by (intro account_ok_reads broker_ok_acct)

interpretation books: cash_book cash deposit withdraw broker_ok
proof
  fix b a x a'
  show "cash (deposit b a x) a' = (if a' = a then dadd (cash b a) x else cash b a')"
    by (simp add: deposit_def)
  show "cash (fst (withdraw b a x)) a' =
      (if a' = a \<and> snd (withdraw b a x) then dsub (cash b a) x else cash b a')"
    by (simp add: withdraw_def Let_def)
  show "snd (withdraw b a x) \<longleftrightarrow> 0 < x \<and> x \<le> cash b a"
    by (auto simp: withdraw_def Let_def not_le not_less)
qed (auto intro: broker_step_ok broker_step.credit broker_step.debit cash_nonneg)

subsection \<open>Worked account\<close>

definition ex_sink :: sink where
  "ex_sink = \<lparr>has_on_settled = True, sink_log = []\<rparr>"

definition ex_broker :: paper_broker where
  "ex_broker = deposit (new_broker ''kalshi'' kalshi_default 0 (Some ex_sink)) ''demo'' 500"

definition ex_book :: "string \<Rightarrow> quote option" where
  "ex_book oid = (if oid = ''A'' then Some live_q else None)"

definition ex_buy :: intent_leg where
  "ex_buy = \<lparr>il_venue = ''kalshi'', il_outcome = ''A'', il_is_buy = True, il_qty = 10, il_limit = 6 / 10\<rparr>"

definition ex_held :: paper_broker where
  "ex_held = fst (place_order ex_broker ex_book ''o1'' ''demo'' None ex_buy)"

declare ex_sink_def [eval_rules] ex_broker_def [eval_rules] ex_book_def [eval_rules] ex_buy_def [eval_rules]
  ex_held_def [eval_rules]

lemma ex_held_reachable: "broker_step\<^sup>*\<^sup>* (new_broker ''kalshi'' kalshi_default 0 (Some ex_sink)) ex_held"
proof -
  have "broker_step (new_broker ''kalshi'' kalshi_default 0 (Some ex_sink)) ex_broker"
    unfolding ex_broker_def by (rule broker_step.credit) simp
  moreover have "broker_step ex_broker ex_held"
    unfolding ex_held_def by (rule broker_step.place) (simp_all add: eval_rules)
  ultimately show ?thesis by simp
qed

subsection \<open>Properties\<close>



lemma fill_account_buy:
  assumes "il_is_buy l"
  shows "venue_cash br (fill_account br st l px f) = dsub (venue_cash br st) (dadd (dmul px (il_qty l)) f)"
    "ac_positions (fill_account br st l px f) =
       dict_set (il_outcome l) (dadd (dict_get 0 (ac_positions st) (il_outcome l)) (il_qty l)) (ac_positions st)"
  using assms by (simp_all add: fill_account_def Let_def) (simp_all add: acquire_def Let_def venue_cash_def set_cash_def)

text \<open>
  A filled buy is one whose quote was live, whose price (the ask after slippage) is within the
  limit, whose quantity the known depth covers and whose cost the cash covers. It debits exactly
  price times quantity plus fee, adds exactly the quantity to the position, leaves every other
  account and every other outcome alone, and records the order and the fill.
\<close>

theorem buy_fill_effect:
  assumes fill: "apply_fill br lk i a t l = (br', ord, Some f, reason)" and buy: "il_is_buy l"
  shows "\<exists>q. lk (il_outcome l) = Some q \<and> fill_price f = apply_slippage br (ask q) True \<and>
      fill_price f \<le> il_limit l \<and> (\<forall>r. ask_size q = Some r \<longrightarrow> 0 < r \<and> il_qty l \<le> r) \<and>
      dadd (dmul (fill_price f) (il_qty l)) (fill_fee f) \<le> cash br a \<and>
      fill_fee f = fee (br_fee br) (fill_price f) (il_qty l) True \<and> fill_qty f = il_qty l \<and>
      cash br' a = dsub (cash br a) (dadd (dmul (fill_price f) (il_qty l)) (fill_fee f)) \<and>
      dict_get 0 (get_positions br' a) (il_outcome l) =
        dadd (dict_get 0 (get_positions br a) (il_outcome l)) (il_qty l) \<and>
      (a' \<noteq> a \<longrightarrow> acct br' a' = acct br a') \<and>
      (oid \<noteq> il_outcome l \<longrightarrow> dict_get 0 (get_positions br' a) oid = dict_get 0 (get_positions br a) oid) \<and>
      cancel_order br' i = Inr ord \<and> ord_status ord = FILLED \<and> get_fills br' i = get_fills br i @ [f]"
proof -
  from fill obtain px where px: "fill_price f = px" "fill_qty f = il_qty l" "fill_order_id f = i"
      "fill_fee f = fee (br_fee br) px (il_qty l) (il_is_buy l)"
    and p: "preview_fill br lk (il_outcome l) (il_is_buy l) (il_qty l) (il_limit l) =
       Inr (px, dadd (if il_is_buy l then dmul px (il_qty l) else dneg (dmul px (il_qty l))) (fill_fee f))"
    and c: "il_is_buy l \<longrightarrow> dadd (dmul px (il_qty l)) (fill_fee f) \<le> cash br a"
    and ord: "ord = mk_order br i l FILLED t"
    and br': "br' = record_fill (record_order (put_acct br a (fill_account br (acct br a) l px (fill_fee f))) ord) f"
    by (rule apply_fill_filled) blast
  from p obtain q :: quote where "lk (il_outcome l) = Some q" "px = apply_slippage br (ask q) True"
      "px \<le> il_limit l" "\<forall>r. ask_size q = Some r \<longrightarrow> 0 < r \<and> il_qty l \<le> r"
    by (rule preview_fill_Inr) (use buy in auto)
  moreover have "cash br' a = dsub (cash br a) (dadd (dmul px (il_qty l)) (fill_fee f))"
    using buy by (simp add: br' fill_account_buy) (simp add: cash_def)
  moreover have "dict_get 0 (get_positions br' a) (il_outcome l) =
      dadd (dict_get 0 (get_positions br a) (il_outcome l)) (il_qty l)"
    using buy by (simp add: br' get_positions_def fill_account_buy)
  moreover have "a' \<noteq> a \<longrightarrow> acct br' a' = acct br a'" by (simp add: br')
  moreover have "oid \<noteq> il_outcome l \<longrightarrow> dict_get 0 (get_positions br' a) oid = dict_get 0 (get_positions br a) oid"
    by (simp add: br' get_positions_def fill_account_buy buy)
  moreover have "cancel_order br' i = Inr ord \<and> ord_status ord = FILLED \<and> get_fills br' i = get_fills br i @ [f]"
    by (simp add: br' cancel_order_def record_fill_def record_order_def get_fills_def ord mk_order_def px)
  ultimately show ?thesis using px c buy by auto
qed

definition ex_fill :: fill where
  "ex_fill = \<lparr>fill_order_id = ''o1'', fill_qty = 10, fill_price = 3 / 5, fill_fee = 21 / 125\<rparr>"

declare ex_fill_def [eval_rules]

lemma ex_apply: "apply_fill ex_broker ex_book ''o1'' ''demo'' None ex_buy =
  (fst (apply_fill ex_broker ex_book ''o1'' ''demo'' None ex_buy), mk_order ex_broker ''o1'' ex_buy FILLED None,
   Some ex_fill, None)"
  by (simp add: eval_rules)

theorem buy_fill_effect_witness:
  "\<exists>br'. apply_fill ex_broker ex_book ''o1'' ''demo'' None ex_buy =
      (br', mk_order ex_broker ''o1'' ex_buy FILLED None, Some ex_fill, None) \<and>
    cash br' ''demo'' = dsub (cash ex_broker ''demo'') (dadd (dmul (3 / 5) 10) (21 / 125)) \<and>
    get_fills br' ''o1'' = get_fills ex_broker ''o1'' @ [ex_fill]"
  using buy_fill_effect [OF ex_apply, where a' = "''x''" and oid = "''B''"] ex_apply
  by (auto simp: ex_buy_def ex_fill_def)

lemma preview_fill_Inl:
  "preview_fill br lk oid b qty l = Inl r \<Longrightarrow>
     r \<in> {''no_quote'', ''no_liquidity'', ''insufficient_liquidity'', ''limit_exceeded''}"
  by (auto simp: preview_fill_def Let_def split: option.splits if_splits)

text \<open>
  A rejected order changes nothing but the order log: no cash, position or fill moves, the order
  is recorded as REJECTED under its id, and the reason is one of the five the code names, where
  \<open>insufficient_funds\<close> is given only to a buy whose priced cost exceeds the cash.
\<close>

theorem apply_fill_rejection:
  assumes "apply_fill br lk i a t l = (br', ord, None, reason)"
  shows "br_accounts br' = br_accounts br \<and> br_fills br' = br_fills br \<and> ord_status ord = REJECTED \<and>
    br_orders br' = dict_set i ord (br_orders br) \<and>
    (\<exists>r. reason = Some r \<and>
      (r \<in> {''no_quote'', ''no_liquidity'', ''insufficient_liquidity'', ''limit_exceeded''} \<and>
         preview_fill br lk (il_outcome l) (il_is_buy l) (il_qty l) (il_limit l) = Inl r \<or>
       r = ''insufficient_funds'' \<and> il_is_buy l \<and>
         (\<exists>px cost. preview_fill br lk (il_outcome l) True (il_qty l) (il_limit l) = Inr (px, cost) \<and> cash br a < cost)))"
proof -
  have "br_accounts br' = br_accounts br \<and> br_fills br' = br_fills br \<and> ord_status ord = REJECTED \<and>
      br_orders br' = dict_set i ord (br_orders br)"
    using apply_fill_rejected [OF assms] by (simp add: mk_order_def record_order_def)
  moreover have "\<exists>r. reason = Some r \<and>
      (r \<in> {''no_quote'', ''no_liquidity'', ''insufficient_liquidity'', ''limit_exceeded''} \<and>
         preview_fill br lk (il_outcome l) (il_is_buy l) (il_qty l) (il_limit l) = Inl r \<or>
       r = ''insufficient_funds'' \<and> il_is_buy l \<and>
         (\<exists>px cost. preview_fill br lk (il_outcome l) True (il_qty l) (il_limit l) = Inr (px, cost) \<and> cash br a < cost))"
  proof (cases "preview_fill br lk (il_outcome l) (il_is_buy l) (il_qty l) (il_limit l)")
    case (Inl r)
    with assms preview_fill_Inl [OF Inl] show ?thesis by (auto simp: apply_fill_def Let_def)
  next
    case (Inr c)
    with assms show ?thesis by (cases c) (auto simp: apply_fill_def Let_def split: if_splits)
  qed
  ultimately show ?thesis by blast
qed

definition ex_big :: intent_leg where
  "ex_big = ex_buy\<lparr>il_qty := 11\<rparr>"

theorem apply_fill_rejection_witness:
  "\<exists>br' ord. apply_fill ex_broker ex_book ''o2'' ''demo'' None ex_big =
      (br', ord, None, Some ''insufficient_liquidity'') \<and>
    br_accounts br' = br_accounts ex_broker \<and> ord_status ord = REJECTED"
proof -
  have "apply_fill ex_broker ex_book ''o2'' ''demo'' None ex_big =
      (record_order ex_broker (mk_order ex_broker ''o2'' ex_big REJECTED None),
       mk_order ex_broker ''o2'' ex_big REJECTED None, None, Some ''insufficient_liquidity'')"
    by (simp add: eval_rules ex_big_def)
  from this apply_fill_rejection [OF this] show ?thesis by blast
qed

lemma map_of_set_cash: "map_of (ac_balances (set_cash br x st)) (br_venue br) = Some x"
  by (simp add: set_cash_def)

lemma release_balances [simp]: "ac_balances (release st oid q p) = ac_balances st"
  by (auto simp: release_def Let_def split_def consume_fees_keeps [OF prod.collapse [symmetric]])

lemma fill_account_has_cash:
  "\<exists>x. map_of (ac_balances (fill_account br st l px f)) (br_venue br) = Some x"
  by (simp add: fill_account_def Let_def map_of_set_cash)

text \<open>
  Placing an order never raises, and what it persists is the state it leaves: on a fill the
  sink receives the order, the fill, the account's new cash on the venue and the new position, in
  that order; on a rejection the order with its reason and nothing else.
\<close>

theorem place_order_persists:
  "\<exists>br' ord. place_order br lk i a t l = (br', Inr ord) \<and>
    (case br_sink br of None \<Rightarrow> br_sink br' = None | Some s \<Rightarrow>
      \<exists>evs. br_sink br' = Some (s\<lparr>sink_log := sink_log s @ evs\<rparr>) \<and>
        (if ord_status ord = FILLED
         then \<exists>f. evs = [OnOrder ord None, OnFill ord f, OnBalance a (br_venue br') (cash br' a),
                position_event br' a (il_outcome l) (acct br' a)] \<and> get_fills br' i = get_fills br i @ [f]
         else \<exists>r. evs = [OnOrder ord (Some r)] \<and> br_accounts br' = br_accounts br))"
proof (cases "apply_fill br lk i a t l")
  case (fields br1 ord fl reason)
  show ?thesis
  proof (cases fl)
    case None
    with fields have f: "apply_fill br lk i a t l = (br1, ord, None, reason)" by simp
    obtain r where r: "reason = Some r" using apply_fill_rejection [OF f] by blast
    have "br1 = record_order br ord" "ord_status ord = REJECTED"
      using apply_fill_rejected [OF f] by (simp_all add: mk_order_def)
    with f r show ?thesis
      by (auto simp: place_order_def emit_order_events_def record_order_def emit_def split: option.split)
  next
    case (Some fl')
    with fields have f: "apply_fill br lk i a t l = (br1, ord, Some fl', reason)" by simp
    then obtain px where ord: "ord = mk_order br i l FILLED t" "fill_order_id fl' = i"
      and br1: "br1 = record_fill (record_order (put_acct br a (fill_account br (acct br a) l px (fill_fee fl'))) ord) fl'"
      by (rule apply_fill_filled) blast
    obtain x where x: "map_of (ac_balances (acct br1 a)) (br_venue br1) = Some x"
      using fill_account_has_cash [of br "acct br a" l px "fill_fee fl'"] by (auto simp: br1)
    then have c: "cash br1 a = x" by (simp add: cash_def venue_cash_def dict_get_def)
    have s: "br_sink br1 = br_sink br" by (simp add: br1 record_fill_def record_order_def)
    have g: "get_fills br1 i = get_fills br i @ [fl']"
      by (simp add: br1 get_fills_def record_fill_def record_order_def ord)
    show ?thesis
    proof (cases "br_sink br")
      case None
      with f s show ?thesis by (auto simp: place_order_def emit_order_events_def)
    next
      case (Some sk)
      with f s x c g show ?thesis
        by (auto simp: place_order_def emit_order_events_def emit_def ord mk_order_def cash_def acct_def
            venue_cash_def position_event_def get_fills_def Let_def)
    qed
  qed
qed

lemma acct_map:
  "f empty_account = empty_account \<Longrightarrow>
     acct (br\<lparr>br_accounts := map (\<lambda>(a, st). (a, f st)) (br_accounts br)\<rparr>) a = f (acct br a)"
  by (simp add: acct_def dict_get_def map_of_map_values split: option.split)

lemma empty_not_held [simp]: "\<not> holds oid empty_account"
  by (simp add: holds_def empty_account_def)

lemma acct_settle: "acct (settle_outcome br oid v) a = settle_if_held br oid v (acct br a)"
  unfolding settle_outcome_def by (rule acct_map) (simp add: settle_if_held_def)

lemma acct_close: "acct (fst (close_already_settled br oid)) a =
    (if holds oid (acct br a) then close_account oid (acct br a) else acct br a)"
  using acct_map [of "\<lambda>st. if holds oid st then close_account oid st else st" br a]
  by (simp add: close_already_settled_def Let_def)

lemma venue_cash_settle: "venue_cash (settle_outcome br oid v) st = venue_cash br st"
  by (simp add: settle_outcome_def)

lemma consume_fees_other:
  assumes "consume_fees st oid r h = (st', share)" "oid' \<noteq> oid"
  shows "dict_get 0 (ac_open_fees st') oid' = dict_get 0 (ac_open_fees st) oid'"
  using assms by (auto simp: consume_fees_def Let_def split: if_splits)

lemma settle_account_effect:
  assumes q_def: "q = dict_get 0 (ac_positions st) oid"
  shows "venue_cash br (settle_account br oid v st) = dadd (venue_cash br st) (dmul v q)"
    "\<not> holds oid (settle_account br oid v st)"
    "oid' \<noteq> oid \<Longrightarrow> dict_get 0 (ac_positions (settle_account br oid v st)) oid' = dict_get 0 (ac_positions st) oid'"
    "oid' \<noteq> oid \<Longrightarrow> dict_get 0 (ac_avg_price (settle_account br oid v st)) oid' = dict_get 0 (ac_avg_price st) oid'"
    "oid' \<noteq> oid \<Longrightarrow> dict_get 0 (ac_open_fees (settle_account br oid v st)) oid' = dict_get 0 (ac_open_fees st) oid'"
    "dict_get 0 (ac_realized_by_outcome (settle_account br oid v st)) oid =
       dadd (dict_get 0 (ac_realized_by_outcome st) oid)
         (dsub (dmul (dsub v (dict_get 0 (ac_avg_price st) oid)) q) (snd (consume_fees st oid q q)))"
    "ac_realized_pnl (settle_account br oid v st) = dadd (ac_realized_pnl st)
       (dsub (dmul (dsub v (dict_get 0 (ac_avg_price st) oid)) q) (snd (consume_fees st oid q q)))"
proof -
  obtain st' share where c: "consume_fees st oid q q = (st', share)" by force
  note k = consume_fees_keeps [OF c] and f = consume_fees_other [OF c]
  note s = settle_account_def [of br oid v st, folded q_def, unfolded Let_def c prod.case]
  show "venue_cash br (settle_account br oid v st) = dadd (venue_cash br st) (dmul v q)"
    by (simp add: s venue_cash_def set_cash_def k)
  show "\<not> holds oid (settle_account br oid v st)" by (simp add: s holds_def zero_position_def)
  show "oid' \<noteq> oid \<Longrightarrow> dict_get 0 (ac_positions (settle_account br oid v st)) oid' = dict_get 0 (ac_positions st) oid'"
    by (simp add: s zero_position_def k)
  show "oid' \<noteq> oid \<Longrightarrow> dict_get 0 (ac_avg_price (settle_account br oid v st)) oid' = dict_get 0 (ac_avg_price st) oid'"
    by (simp add: s zero_position_def k)
  show "oid' \<noteq> oid \<Longrightarrow> dict_get 0 (ac_open_fees (settle_account br oid v st)) oid' = dict_get 0 (ac_open_fees st) oid'"
    by (simp add: s f)
  show "dict_get 0 (ac_realized_by_outcome (settle_account br oid v st)) oid =
       dadd (dict_get 0 (ac_realized_by_outcome st) oid)
         (dsub (dmul (dsub v (dict_get 0 (ac_avg_price st) oid)) q) (snd (consume_fees st oid q q)))"
    by (simp add: s book_realized_def k c)
  show "ac_realized_pnl (settle_account br oid v st) = dadd (ac_realized_pnl st)
       (dsub (dmul (dsub v (dict_get 0 (ac_avg_price st) oid)) q) (snd (consume_fees st oid q q)))"
    by (simp add: s book_realized_def k c)
qed

lemma settle_again: "settle_if_held br' oid v' (settle_if_held br oid v st) = settle_if_held br oid v st"
  by (simp add: settle_if_held_def settle_account_effect(2) [OF refl])

text \<open>
  C7: settling an outcome pays every holder exactly the resolved value times the quantity and closes
  the position; an account that does not hold it, and every other outcome, is untouched; and
  settling the same outcome again, at any value, changes nothing.
\<close>

theorem settle_outcome_pays_once:
  assumes "oid' \<noteq> oid"
  shows "cash (settle_outcome br oid v) a =
      (if holds oid (acct br a) then dadd (cash br a) (dmul v (dict_get 0 (get_positions br a) oid)) else cash br a) \<and>
    dict_get 0 (get_positions (settle_outcome br oid v) a) oid = 0 \<and>
    dict_get 0 (get_positions (settle_outcome br oid v) a) oid' = dict_get 0 (get_positions br a) oid' \<and>
    dict_get 0 (ac_avg_price (acct (settle_outcome br oid v) a)) oid' = dict_get 0 (ac_avg_price (acct br a)) oid' \<and>
    dict_get 0 (ac_open_fees (acct (settle_outcome br oid v) a)) oid' = dict_get 0 (ac_open_fees (acct br a)) oid' \<and>
    settle_outcome (settle_outcome br oid v) oid v' = settle_outcome br oid v"
proof -
  have "settle_outcome (settle_outcome br oid v) oid v' = settle_outcome br oid v"
    by (simp add: settle_outcome_def settle_again [simplified settle_outcome_def] comp_def split_def)
  moreover have "dict_get 0 (get_positions (settle_outcome br oid v) a) oid = 0"
    using settle_account_effect(2) [OF refl, of oid br v "acct br a"]
    by (simp add: get_positions_def acct_settle settle_if_held_def) (simp add: holds_def)
  ultimately show ?thesis using assms
    by (simp add: cash_def venue_cash_settle acct_settle settle_if_held_def settle_account_effect [OF refl] get_positions_def)
qed

theorem settle_outcome_pays_once_witness:
  "cash (settle_outcome ex_held ''A'' 1) ''demo'' = dadd (cash ex_held ''demo'') (dmul 1 10) \<and>
    settle_outcome (settle_outcome ex_held ''A'' 1) ''A'' 0 = settle_outcome ex_held ''A'' 1"
proof -
  have "dict_get 0 (get_positions ex_held ''demo'') ''A'' = 10" by (simp add: eval_rules)
  with settle_outcome_pays_once [of "''B''" "''A''" ex_held 1 "''demo''" 0] show ?thesis
    by (simp add: holds_def get_positions_def)
qed

text \<open>
  The persisted settlement is the in-memory one: both settlement paths leave the same accounts,
  and the one transaction handed to the sink lists exactly the accounts that held the outcome, each
  with the cash, the realized profit and the carried fees it is left with.
\<close>

theorem settle_async_consistent:
  assumes "dict_ok (br_accounts br)" "br_sink br = Some s" "has_on_settled s"
  shows "\<exists>closed. br_sink (settle_outcome_async br oid v src) =
      Some (s\<lparr>sink_log := sink_log s @ [OnSettled oid v (br_venue br) src closed]\<rparr>) \<and>
    br_accounts (settle_outcome_async br oid v src) = br_accounts (settle_outcome br oid v) \<and>
    map fst closed = map fst (filter (\<lambda>(_, st). holds oid st) (br_accounts br)) \<and>
    (\<forall>(a, bal, realized, fees) \<in> set closed. let br' = settle_outcome_async br oid v src in
       cash br' a = bal \<and> dict_get 0 (ac_realized_by_outcome (acct br' a)) oid = realized \<and>
       dict_get 0 (ac_open_fees (acct br' a)) oid = fees \<and> dict_get 0 (get_positions br' a) oid = 0)"
proof (intro exI conjI)
  let ?br' = "settle_outcome_async br oid v src" and ?closed = "closed_accounts br oid v"
  show "br_sink ?br' = Some (s\<lparr>sink_log := sink_log s @ [OnSettled oid v (br_venue br) src ?closed]\<rparr>)"
    using assms(2,3) by (simp add: settle_outcome_async_def Let_def emit_def)
  show "br_accounts ?br' = br_accounts (settle_outcome br oid v)" by (rule settle_async_accounts)
  show "map fst ?closed = map fst (filter (\<lambda>(_, st). holds oid st) (br_accounts br))"
    by (simp add: closed_accounts_def Let_def split_def comp_def)
  have "acct ?br' a = settle_if_held br oid v (acct br a)" for a
    using acct_settle by (simp add: acct_def settle_async_accounts)
  moreover have "acct br a = st" if "(a, st) \<in> set (br_accounts br)" for a st
    using assms(1) that by (simp add: acct_def dict_get_def)
  moreover have "venue_cash ?br' st = venue_cash br st" for st
    by (simp add: venue_cash_def settle_async_accounts)
  moreover have "dict_get 0 (ac_positions (settle_account br oid v st)) oid = 0" for st
    using settle_account_effect(2) [OF refl] by (simp add: holds_def)
  ultimately show "\<forall>(a, bal, realized, fees) \<in> set ?closed. let br' = ?br' in
       cash br' a = bal \<and> dict_get 0 (ac_realized_by_outcome (acct br' a)) oid = realized \<and>
       dict_get 0 (ac_open_fees (acct br' a)) oid = fees \<and> dict_get 0 (get_positions br' a) oid = 0"
    by (auto simp: closed_accounts_def Let_def cash_def settle_if_held_def get_positions_def)
qed

theorem settle_async_consistent_witness:
  "\<exists>s closed. br_sink ex_held = Some s \<and> map fst closed = [''demo''] \<and>
    br_sink (settle_outcome_async ex_held ''A'' 1 ''venue'') =
      Some (s\<lparr>sink_log := sink_log s @ [OnSettled ''A'' 1 (br_venue ex_held) ''venue'' closed]\<rparr>)"
proof -
  have ok: "dict_ok (br_accounts ex_held)" and h: "map fst (filter (\<lambda>(_, st). holds ''A'' st) (br_accounts ex_held)) = [''demo'']"
    by (simp_all add: eval_rules)
  have "\<exists>s. br_sink ex_held = Some s \<and> has_on_settled s" by (simp add: eval_rules)
  then obtain s where s: "br_sink ex_held = Some s" "has_on_settled s" by blast
  have "\<exists>closed. br_sink (settle_outcome_async ex_held ''A'' 1 ''venue'') =
      Some (s\<lparr>sink_log := sink_log s @ [OnSettled ''A'' 1 (br_venue ex_held) ''venue'' closed]\<rparr>) \<and>
    map fst closed = [''demo'']"
    using settle_async_consistent [OF ok s, where oid = "''A''" and v = 1 and src = "''venue''"]
    unfolding h by (elim exE conjE) (rule exI, rule conjI)
  then obtain closed where c: "br_sink (settle_outcome_async ex_held ''A'' 1 ''venue'') =
      Some (s\<lparr>sink_log := sink_log s @ [OnSettled ''A'' 1 (br_venue ex_held) ''venue'' closed]\<rparr>)"
    "map fst closed = [''demo'']" by (elim exE conjE)
  show ?thesis by (intro exI [where x = s] exI [where x = closed] conjI s(1) c)
qed

text \<open>
  Closing a position whose settlement already paid moves no money: cash and realized profit of
  every account are unchanged, no account holds the outcome afterwards, the count returned is the
  number of holders, and a later settlement of the same outcome pays nobody.
\<close>

theorem close_already_settled_pays_nothing:
  "cash (fst (close_already_settled br oid)) a = cash br a \<and>
   realized_pnl (fst (close_already_settled br oid)) a = realized_pnl br a \<and>
   dict_get 0 (get_positions (fst (close_already_settled br oid)) a) oid = 0 \<and>
   snd (close_already_settled br oid) = length (filter (\<lambda>(_, st). holds oid st) (br_accounts br)) \<and>
   cash (settle_outcome (fst (close_already_settled br oid)) oid v) a = cash br a"
proof -
  let ?br' = "fst (close_already_settled br oid)"
  have v: "venue_cash ?br' st = venue_cash br st" for st
    by (simp add: close_already_settled_def Let_def)
  have k: "ac_balances (close_account oid st) = ac_balances st"
      "ac_realized_pnl (close_account oid st) = ac_realized_pnl st" for st
    by (simp_all add: close_account_def zero_position_def)
  have n: "\<not> holds oid (acct ?br' a)"
    by (simp add: acct_close) (simp add: holds_def close_account_def zero_position_def)
  have c: "cash ?br' a = cash br a" using k by (simp add: cash_def v acct_close) (simp add: venue_cash_def)
  have "cash (settle_outcome ?br' oid v) a = cash ?br' a"
    using n by (simp add: cash_def venue_cash_settle acct_settle settle_if_held_def)
  moreover have "dict_get 0 (get_positions ?br' a) oid = 0"
    using n by (simp add: holds_def get_positions_def)
  moreover have "realized_pnl ?br' a = realized_pnl br a" by (simp add: realized_pnl_def acct_close k)
  moreover have "snd (close_already_settled br oid) = length (filter (\<lambda>(_, st). holds oid st) (br_accounts br))"
    by (simp add: close_already_settled_def Let_def)
  ultimately show ?thesis using c by simp
qed

lemma exact_rep: "on_grid 12 x \<Longrightarrow> \<bar>x\<bar> \<le> 10 ^ 16 \<Longrightarrow> dec_rep x"
  by (rule dec_rep_grid [of 12]) (auto intro: mult_right_mono [of _ "10 ^ 16" "10 ^ 12", simplified])

lemma exact_mult:
  assumes "on_grid j x" "on_grid k y" "j + k \<le> 12" "\<bar>x\<bar> \<le> 10 ^ 8" "\<bar>y\<bar> \<le> 10 ^ 8"
  shows "dmul x y = x * y \<and> on_grid (j + k) (x * y)"
proof -
  have g: "on_grid (j + k) (x * y)" using assms by (intro on_grid_mult)
  have "\<bar>x\<bar> * \<bar>y\<bar> \<le> 10 ^ 8 * 10 ^ 8" using assms(4,5) by (intro mult_mono) auto
  then have "\<bar>x * y\<bar> \<le> 10 ^ 16" by (simp add: abs_mult)
  with on_grid_mono [OF g assms(3)] have "dec_rep (x * y)" by (rule exact_rep)
  with g show ?thesis by (simp add: dmul_def dec_rep_def)
qed

lemma fee_exact:
  assumes "fee_ok m" "on_grid 2 (fee_rate m)" "on_grid 4 p" "0 \<le> p" "p \<le> 1" "on_grid 2 q" "0 \<le> q" "q \<le> 10 ^ 6"
  shows "on_grid 12 (fee m p q b) \<and> 0 \<le> fee m p q b \<and> fee m p q b \<le> 10 ^ 6"
proof -
  have z: "on_grid 12 0" by (rule on_gridI [of _ 0]) simp
  have one: "on_grid 4 1" by (rule on_gridI [of _ "10 ^ 4"]) simp
  have r: "0 \<le> fee_rate m" "fee_rate m \<le> 1" using assms(1) by (auto simp: fee_ok_def)
  have rp: "dmul (fee_rate m) p = fee_rate m * p \<and> on_grid (2 + 4) (fee_rate m * p)"
    using assms r by (intro exact_mult) auto
  have b1: "0 \<le> fee_rate m * p" "fee_rate m * p \<le> 1" using r assms by (auto intro: mult_le_one)
  have s: "on_grid 4 (1 - p)" using one assms(3) by (rule on_grid_diff)
  have "dec_rep (1 - p)" using on_grid_mono [OF s, of 12] assms by (intro exact_rep) auto
  then have sp: "dsub 1 p = 1 - p" by (simp add: dsub_def dec_rep_def)
  have rps: "dmul (fee_rate m * p) (1 - p) = fee_rate m * p * (1 - p) \<and> on_grid (6 + 4) (fee_rate m * p * (1 - p))"
    using rp b1 s assms by (intro exact_mult) auto
  have b2: "0 \<le> fee_rate m * p * (1 - p)" "fee_rate m * p * (1 - p) \<le> 1"
    using b1 assms by (auto intro: mult_le_one)
  have full: "dmul (fee_rate m * p * (1 - p)) q = fee_rate m * p * (1 - p) * q \<and>
      on_grid (10 + 2) (fee_rate m * p * (1 - p) * q)"
    using rps b2 assms by (intro exact_mult) auto
  have "fee_rate m * p * (1 - p) * q \<le> 1 * 10 ^ 6" using b2 assms by (intro mult_mono) auto
  then have "on_grid 12 (quadratic_fee (fee_rate m) p q) \<and> 0 \<le> quadratic_fee (fee_rate m) p q \<and>
      quadratic_fee (fee_rate m) p q \<le> 10 ^ 6"
    using full rp sp rps b2 assms z by (auto simp: quadratic_fee_def)
  with z show ?thesis by (cases m) simp_all
qed

lemma settle_realized:
  "realized_pnl (settle_outcome br oid v) a =
     (let st = acct br a; q = dict_get 0 (ac_positions st) oid in
      if holds oid st then dadd (ac_realized_pnl st)
         (dsub (dmul (dsub v (dict_get 0 (ac_avg_price st) oid)) q) (snd (consume_fees st oid q q)))
      else ac_realized_pnl st)"
  by (simp add: realized_pnl_def acct_settle settle_if_held_def settle_account_effect [OF refl] Let_def)

lemma dmul_0 [simp]: "dmul 0 x = 0" "dmul x 0 = 0"
  by (simp_all add: dmul_def)

lemma fill_account_flat:
  assumes "il_is_buy l" "0 < il_qty l" "dec_rep (il_qty l)" "dec_rep f" "dec_rep px"
    and "dmul (il_qty l) px = il_qty l * px"
    and flat: "dict_get 0 (ac_positions st) (il_outcome l) = 0" "dict_get 0 (ac_open_fees st) (il_outcome l) = 0"
  shows "dict_get 0 (ac_positions (fill_account br st l px f)) (il_outcome l) = il_qty l"
    "dict_get 0 (ac_avg_price (fill_account br st l px f)) (il_outcome l) = px"
    "dict_get 0 (ac_open_fees (fill_account br st l px f)) (il_outcome l) = f"
    "ac_realized_pnl (fill_account br st l px f) = ac_realized_pnl st"
proof -
  show "ac_realized_pnl (fill_account br st l px f) = ac_realized_pnl st"
    using assms by (simp add: fill_account_def Let_def)
next
  have "dec_rep (il_qty l * px)" using dec_rep_ops(3) [of "il_qty l" px] by (simp only: assms(6))
  then have e: "dadd 0 (il_qty l * px) = il_qty l * px" "dadd 0 (il_qty l) = il_qty l" "dadd 0 f = f"
    using assms by (simp_all add: dadd_0)
  show "dict_get 0 (ac_avg_price (fill_account br st l px f)) (il_outcome l) = px"
    using assms e by (simp add: fill_account_def acquire_def Let_def dquot_def dec_rep_def)
  show "dict_get 0 (ac_positions (fill_account br st l px f)) (il_outcome l) = il_qty l"
    using assms e by (simp add: fill_account_def acquire_def Let_def)
  show "dict_get 0 (ac_open_fees (fill_account br st l px f)) (il_outcome l) = f"
    using assms e by (simp add: fill_account_def Let_def)
qed

text \<open>
  The books balance: buying into a flat position and settling it changes the realized profit by
  exactly what it changes the cash, entry fee included. Prices to four decimals, quantities and fee
  rates to two, and amounts below ten to the twelfth keep every intermediate result within the 28
  digits of the arithmetic, so the equality is exact.
\<close>

theorem trade_roundtrip_pnl:
  assumes fill: "apply_fill br lk i a t l = (br', ord, Some f, reason)" and buy: "il_is_buy l"
    and flat: "dict_get 0 (get_positions br a) (il_outcome l) = 0"
      "dict_get 0 (ac_open_fees (acct br a)) (il_outcome l) = 0"
    and fees: "fee_ok (br_fee br)" "on_grid 2 (fee_rate (br_fee br))"
    and qty: "on_grid 2 (il_qty l)" "0 < il_qty l" "il_qty l \<le> 10 ^ 6"
    and prices: "on_grid 4 (fill_price f)" "on_grid 4 v" "0 \<le> v" "v \<le> 1"
    and before: "on_grid 12 (cash br a)" "\<bar>cash br a\<bar> \<le> 10 ^ 12" "on_grid 12 (realized_pnl br a)"
      "\<bar>realized_pnl br a\<bar> \<le> 10 ^ 12"
  shows "realized_pnl (settle_outcome br' (il_outcome l) v) a - realized_pnl br a =
    cash (settle_outcome br' (il_outcome l) v) a - cash br a"
proof -
  let ?q = "il_qty l" and ?o = "il_outcome l" and ?c = "cash br a" and ?r = "realized_pnl br a"
  from fill obtain px where px: "fill_price f = px" "0 \<le> px" "px \<le> 1" "dec_rep px"
    and f: "fill_fee f = fee (br_fee br) px ?q (il_is_buy l)"
    and br': "br' = record_fill (record_order (put_acct br a (fill_account br (acct br a) l px (fill_fee f))) ord) f"
    by (rule apply_fill_filled) blast
  let ?f = "fill_fee f"
  have fe: "on_grid 12 ?f" "0 \<le> ?f" "?f \<le> 10 ^ 6" "dec_rep ?f"
    using fee_exact [OF fees, of px ?q "il_is_buy l"] prices px qty by (auto simp: f fees.charge_rep)
  have pq: "dmul px ?q = px * ?q" "dmul ?q px = ?q * px" "on_grid 6 (px * ?q)"
    using exact_mult [of 4 px 2 ?q] prices px qty by (auto simp: dmul_def mult.commute)
  have vq: "dmul v ?q = v * ?q" "on_grid 6 (v * ?q)"
    using exact_mult [of 4 v 2 ?q] prices qty by auto
  have bpq: "0 \<le> px * ?q" "px * ?q \<le> 1 * 10 ^ 6" "0 \<le> v * ?q" "v * ?q \<le> 1 * 10 ^ 6"
    using mult_mono [of px 1 ?q "10 ^ 6"] mult_mono [of v 1 ?q "10 ^ 6"] px qty prices by simp_all
  have gv: "on_grid 4 (v - px)" using prices px by (intro on_grid_diff) auto
  have dvp: "dsub v px = v - px"
    using exact_rep [OF on_grid_mono [OF gv]] prices px by (auto simp: dsub_def dec_rep_def)
  have gq: "dmul (v - px) ?q = (v - px) * ?q"
    using exact_mult [of 4 "v - px" 2 ?q] gv prices px qty by auto
  have rq: "dec_rep ?q" using exact_rep [OF on_grid_mono [OF qty(1)]] qty by auto
  note g12 = on_grid_mono [OF pq(3), of 12, simplified] on_grid_mono [OF vq(2), of 12, simplified]
  note grid = on_grid_add on_grid_diff g12 fe(1) before(1,3)
  note ex = exact_rep [unfolded dec_rep_def]
  have cost: "dadd (px * ?q) ?f = px * ?q + ?f" unfolding dadd_def using bpq fe by (intro ex grid) auto
  have c1: "dsub ?c (px * ?q + ?f) = ?c - (px * ?q + ?f)"
    unfolding dsub_def using bpq fe before by (intro ex grid) auto
  have c2: "dadd (?c - (px * ?q + ?f)) (v * ?q) = ?c - (px * ?q + ?f) + v * ?q"
    unfolding dadd_def using bpq fe before by (intro ex grid) auto
  have net: "dsub ((v - px) * ?q) ?f = v * ?q - px * ?q - ?f"
    unfolding dsub_def left_diff_distrib using bpq fe by (intro ex grid) auto
  have r1: "dadd ?r (v * ?q - px * ?q - ?f) = ?r + (v * ?q - px * ?q - ?f)"
    unfolding dadd_def using bpq fe before by (intro ex grid) auto
  have st: "acct br' a = fill_account br (acct br a) l px ?f" by (simp add: br')
  note flat' = fill_account_flat [OF buy qty(2) rq fe(4) px(4) pq(2) flat [unfolded get_positions_def], of br, folded st]
  have h: "holds ?o (acct br' a)" using flat' qty by (simp add: holds_def)
  have share: "snd (consume_fees (acct br' a) ?o ?q ?q) = ?f"
    using flat' qty by (simp add: consume_fees_def Let_def)
  have "realized_pnl (settle_outcome br' ?o v) a = ?r + (v * ?q - px * ?q - ?f)"
    using h r1 by (simp add: settle_realized Let_def flat' share dvp gq net realized_pnl_def [of br])
  moreover have "cash br' a = ?c - (px * ?q + ?f)"
    using buy by (simp add: br' fill_account_buy pq cost c1) (simp add: cash_def [symmetric] c1)
  then have "cash (settle_outcome br' ?o v) a = ?c - (px * ?q + ?f) + v * ?q"
    using h by (simp add: cash_def venue_cash_settle acct_settle settle_if_held_def settle_account_effect [OF refl] flat' vq c2 [unfolded cash_def])
  ultimately show ?thesis by simp
qed

theorem trade_roundtrip_pnl_witness:
  "realized_pnl (settle_outcome (fst (apply_fill ex_broker ex_book ''o1'' ''demo'' None ex_buy)) ''A'' 1) ''demo''
      - realized_pnl ex_broker ''demo'' =
    cash (settle_outcome (fst (apply_fill ex_broker ex_book ''o1'' ''demo'' None ex_buy)) ''A'' 1) ''demo''
      - cash ex_broker ''demo''"
proof -
  have g: "on_grid 2 10" "on_grid 2 (7 / 100)" "on_grid 4 (3 / 5)" "on_grid 4 1" "on_grid 12 500" "on_grid 12 0"
    by (rule on_gridI [of _ 1000], simp, rule on_gridI [of _ 7], simp, rule on_gridI [of _ 6000], simp,
        rule on_gridI [of _ 10000], simp, rule on_gridI [of _ "500 * 10 ^ 12"], simp, rule on_gridI [of _ 0], simp)
  have e: "cash ex_broker ''demo'' = 500" "realized_pnl ex_broker ''demo'' = 0"
      "dict_get 0 (get_positions ex_broker ''demo'') ''A'' = 0" "dict_get 0 (ac_open_fees (acct ex_broker ''demo'')) ''A'' = 0"
      "br_fee ex_broker = kalshi_default"
    by (simp_all add: eval_rules)
  from trade_roundtrip_pnl [OF ex_apply, where v = 1] g show ?thesis
    by (simp add: e ex_buy_def ex_fill_def) (simp add: kalshi_default_def)
qed

end
