(* ===== verification/Execution_Router.thy ===== *)
theory Execution_Router
  imports Paper_Broker
begin

section \<open>The execution router\<close>

text \<open>
  \<open>arbys/shared/execution_router.py\<close>: an intent is previewed leg by leg against the paper brokers, and
  committed on all of them or on none. An adapter is a paper broker, or a live venue whose state and
  \<open>place_order\<close> are a parameter \<open>live\<close>. Adapters are kept by venue id; two legs on one venue share the
  adapter object, which is what a read through the venue id models. The k-th order of a submission
  takes the id \<open>uid k\<close>.
\<close>

datatype 'l adapter = Paper paper_broker | Live 'l

type_synonym 'l adapters = "(string, 'l adapter) dict"

record leg_rejection =
  rej_venue :: string
  rej_outcome :: string
  rej_reason :: string

record insufficient_legs =
  ie_rejections :: "leg_rejection list"
  ie_message :: string
  ie_persisted :: bool

datatype submit_result = Submitted "order list" | Refused insufficient_legs | Raised py_exc

definition rejections_message :: "leg_rejection list \<Rightarrow> string" where
  "rejections_message rs = (case map (\<lambda>r. rej_venue r @ '':'' @ rej_reason r) rs of
     [] \<Rightarrow> [] | m # ms \<Rightarrow> m @ concat (map (\<lambda>x. '', '' @ x) ms))"

definition insufficient_of_rejections :: "leg_rejection list \<Rightarrow> insufficient_legs" where
  "insufficient_of_rejections rs = \<lparr>ie_rejections = rs, ie_message = rejections_message rs, ie_persisted = False\<rparr>"

definition insufficient_of_text :: "string \<Rightarrow> bool \<Rightarrow> insufficient_legs" where
  "insufficient_of_text msg persisted = \<lparr>ie_rejections = [], ie_message = msg, ie_persisted = persisted\<rparr>"

subsection \<open>Preview\<close>

definition mk_rejection :: "intent_leg \<Rightarrow> string \<Rightarrow> leg_rejection" where
  "mk_rejection l reason = \<lparr>rej_venue = il_venue l, rej_outcome = il_outcome l, rej_reason = reason\<rparr>"

definition preview_leg ::
  "'l adapters \<Rightarrow> (string \<Rightarrow> quote option) \<Rightarrow> string \<Rightarrow> intent_leg \<Rightarrow> leg_rejection option" where
  "preview_leg ads lk a l =
     (case map_of ads (il_venue l) of
        None \<Rightarrow> Some (mk_rejection l ''no_adapter'')
      | Some (Live _) \<Rightarrow> None
      | Some (Paper br) \<Rightarrow>
          (case preview_fill br lk (il_outcome l) (il_is_buy l) (il_qty l) (il_limit l) of
             Inl reason \<Rightarrow> Some (mk_rejection l reason)
           | Inr (px, cost) \<Rightarrow>
               if il_is_buy l \<and> dict_get 0 (get_balances br a) (il_venue l) < cost
               then Some (mk_rejection l ''insufficient_funds'') else None))"

definition preview_all ::
  "'l adapters \<Rightarrow> (string \<Rightarrow> quote option) \<Rightarrow> execution_intent \<Rightarrow> leg_rejection list" where
  "preview_all ads lk intent = List.map_filter (preview_leg ads lk (ei_account intent)) (ei_legs intent)"

subsection \<open>Atomic commit on paper brokers\<close>

fun paper_of :: "'l adapter option \<Rightarrow> paper_broker option" where
  "paper_of (Some (Paper br)) = Some br"
| "paper_of _ = None"

definition paper_at :: "'l adapters \<Rightarrow> string \<Rightarrow> paper_broker option" where
  "paper_at ads v = paper_of (map_of ads v)"

definition at_broker :: "(paper_broker \<Rightarrow> paper_broker) \<Rightarrow> string \<Rightarrow> 'l adapters \<Rightarrow> 'l adapters" where
  "at_broker f v ads = (case paper_at ads v of None \<Rightarrow> ads | Some br \<Rightarrow> dict_set v (Paper (f br)) ads)"

definition take_snapshots :: "'l adapters \<Rightarrow> execution_intent \<Rightarrow> (string \<times> account_copy) list" where
  "take_snapshots ads intent =
     List.map_filter (\<lambda>v. map_option (\<lambda>br. (v, snapshot_account br (ei_account intent))) (paper_at ads v))
       (rev (remdups (rev (map il_venue (ei_legs intent)))))"

type_synonym applied_leg = "string \<times> order \<times> fill option"

text \<open>The commit loop: it stops at the first leg that does not fill, and forgets that leg's order.\<close>

fun apply_legs ::
  "(string \<Rightarrow> quote option) \<Rightarrow> (nat \<Rightarrow> string) \<Rightarrow> string \<Rightarrow> string option \<Rightarrow> nat \<Rightarrow> intent_leg list
    \<Rightarrow> 'l adapters \<Rightarrow> applied_leg list \<Rightarrow> 'l adapters \<times> applied_leg list \<times> string option" where
  "apply_legs lk uid a t k [] ads done_legs = (ads, done_legs, None)"
| "apply_legs lk uid a t k (l # ls) ads done_legs =
     (case paper_at ads (il_venue l) of
        None \<Rightarrow> (ads, done_legs, None)
      | Some br \<Rightarrow>
          (case apply_fill br lk (uid k) a t l of (br', ord, fl, reason) \<Rightarrow>
             if ord_status ord \<noteq> FILLED
             then (dict_set (il_venue l) (Paper (forget_order br' (ord_id ord))) ads, done_legs,
                   Some (''post-preview rejection on '' @ il_venue l @ '': '' @
                     (case reason of None \<Rightarrow> status_str (ord_status ord) | Some r \<Rightarrow> r)))
             else apply_legs lk uid a t (Suc k) ls (dict_set (il_venue l) (Paper br') ads)
                    (done_legs @ [(il_venue l, ord, fl)])))"

definition restore_all :: "string \<Rightarrow> (string \<times> account_copy) list \<Rightarrow> 'l adapters \<Rightarrow> 'l adapters" where
  "restore_all a snaps ads = foldl (\<lambda>ads (v, snap). at_broker (\<lambda>br. restore_account br a snap) v ads) ads snaps"

definition forget_all :: "applied_leg list \<Rightarrow> 'l adapters \<Rightarrow> 'l adapters" where
  "forget_all ls ads = foldl (\<lambda>ads (v, ord, _). at_broker (\<lambda>br. forget_order br (ord_id ord)) v ads) ads ls"

fun notify_all :: "string \<Rightarrow> applied_leg list \<Rightarrow> 'l adapters \<Rightarrow> 'l adapters \<times> py_exc option" where
  "notify_all a [] ads = (ads, None)"
| "notify_all a ((v, ord, fl) # ls) ads =
     (case paper_at ads v of
        None \<Rightarrow> notify_all a ls ads
      | Some br \<Rightarrow> (case emit_order_events br a ord fl None of
            (br', Some e) \<Rightarrow> (dict_set v (Paper br') ads, Some e)
          | (br', None) \<Rightarrow> notify_all a ls (dict_set v (Paper br') ads)))"

definition commit_atomically ::
  "(string \<Rightarrow> quote option) \<Rightarrow> (nat \<Rightarrow> string) \<Rightarrow> execution_intent \<Rightarrow> 'l adapters \<Rightarrow> 'l adapters \<times> submit_result" where
  "commit_atomically lk uid intent ads =
     (let a = ei_account intent;
          snaps = take_snapshots ads intent
      in case apply_legs lk uid a (ei_ticket intent) 0 (ei_legs intent) ads [] of
           (ads1, applied, Some failure) \<Rightarrow>
             (forget_all applied (restore_all a snaps ads1), Refused (insufficient_of_text failure False))
         | (ads1, applied, None) \<Rightarrow>
             (case notify_all a applied ads1 of
                (ads2, Some e) \<Rightarrow> (ads2, Raised e)
              | (ads2, None) \<Rightarrow> (ads2, Submitted (map (\<lambda>(_, ord, _). ord) applied))))"

subsection \<open>Sequential commit, when a leg is on a live venue\<close>

type_synonym 'l live_venue = "'l \<Rightarrow> string \<Rightarrow> string option \<Rightarrow> intent_leg \<Rightarrow> 'l \<times> order res"

definition place_on ::
  "'l live_venue \<Rightarrow> (string \<Rightarrow> quote option) \<Rightarrow> string \<Rightarrow> string \<Rightarrow> string option \<Rightarrow> intent_leg
    \<Rightarrow> 'l adapter \<Rightarrow> 'l adapter \<times> order res" where
  "place_on live lk i a t l ad =
     (case ad of
        Paper br \<Rightarrow> (case place_order br lk i a t l of (br', r) \<Rightarrow> (Paper br', r))
      | Live s \<Rightarrow> (case live s a t l of (s', r) \<Rightarrow> (Live s', r)))"

fun commit_sequentially ::
  "'l live_venue \<Rightarrow> (string \<Rightarrow> quote option) \<Rightarrow> (nat \<Rightarrow> string) \<Rightarrow> string \<Rightarrow> string option \<Rightarrow> intent_leg list
    \<Rightarrow> 'l adapters \<Rightarrow> order list \<Rightarrow> 'l adapters \<times> submit_result" where
  "commit_sequentially live lk uid a t [] ads orders = (ads, Submitted orders)"
| "commit_sequentially live lk uid a t (l # ls) ads orders =
     (case map_of ads (il_venue l) of
        None \<Rightarrow> (ads, Raised KeyError)
      | Some ad \<Rightarrow>
          (case place_on live lk (uid (length orders)) a t l ad of
             (ad', Inl e) \<Rightarrow> (dict_set (il_venue l) ad' ads, Raised e)
           | (ad', Inr ord) \<Rightarrow>
               if ord_status ord \<noteq> FILLED
               then (dict_set (il_venue l) ad' ads, Refused (insufficient_of_text
                      (''post-preview rejection on '' @ il_venue l @ '': '' @ status_str (ord_status ord) @
                       '' ('' @ nat_str (length orders) @ '' leg(s) already filled and NOT reversed)'') True))
               else commit_sequentially live lk uid a t ls (dict_set (il_venue l) ad' ads) (orders @ [ord])))"

definition submit ::
  "'l live_venue \<Rightarrow> (string \<Rightarrow> quote option) \<Rightarrow> (nat \<Rightarrow> string) \<Rightarrow> 'l adapters \<Rightarrow> execution_intent
    \<Rightarrow> 'l adapters \<times> submit_result" where
  "submit live lk uid ads intent =
     (let rejections = preview_all ads lk intent
      in if rejections \<noteq> [] then (ads, Refused (insufficient_of_rejections rejections))
         else if list_all (\<lambda>l. paper_at ads (il_venue l) \<noteq> None) (ei_legs intent)
         then commit_atomically lk uid intent ads
         else commit_sequentially live lk uid (ei_account intent) (ei_ticket intent) (ei_legs intent) ads [])"

declare rejections_message_def [eval_rules] insufficient_of_rejections_def [eval_rules]
  insufficient_of_text_def [eval_rules] mk_rejection_def [eval_rules] preview_leg_def [eval_rules]
  preview_all_def [eval_rules] List.map_filter_simps [eval_rules] paper_at_def [eval_rules] at_broker_def [eval_rules]
  take_snapshots_def [eval_rules] restore_all_def [eval_rules] forget_all_def [eval_rules]
  commit_atomically_def [eval_rules] place_on_def [eval_rules] submit_def [eval_rules]

subsection \<open>Reads of the adapter table\<close>

lemma paper_at_set [simp]:
  "paper_at (dict_set v ad ads) v' = (if v' = v then paper_of (Some ad) else paper_at ads v')"
  by (simp add: paper_at_def)

lemma paper_atD: "paper_at ads v = Some br \<Longrightarrow> map_of ads v = Some (Paper br)"
  unfolding paper_at_def by (cases "map_of ads v" rule: paper_of.cases) auto

lemma paper_at_broker [simp]:
  "paper_at (at_broker f v ads) v' = (if v' = v then map_option f (paper_at ads v) else paper_at ads v')"
  by (simp add: at_broker_def split: option.split)

lemma paper_at_broker_None: "paper_at ads v' = None \<Longrightarrow> paper_at (at_broker f v ads) v' = None"
  by auto

lemma live_at_broker: "paper_at ads v' = None \<Longrightarrow> map_of (at_broker f v ads) v' = map_of ads v'"
  by (auto simp: at_broker_def split: option.split)

text \<open>What \<open>apply_fill\<close> leaves alone, filled or rejected.\<close>

lemma apply_fill_keeps:
  assumes "apply_fill br lk i a t l = (br', ord, fl, reason)"
  shows "br_venue br' = br_venue br" "br_fee br' = br_fee br" "br_slippage_bps br' = br_slippage_bps br"
    "br_sink br' = br_sink br" "ord_id ord = i" "a' \<noteq> a \<Longrightarrow> acct br' a' = acct br a'"
    "i' \<noteq> i \<Longrightarrow> map_of (br_orders br') i' = map_of (br_orders br) i'"
    "i' \<noteq> i \<Longrightarrow> map_of (br_fills br') i' = map_of (br_fills br) i'"
    "ord_status ord = FILLED \<longleftrightarrow> fl \<noteq> None"
proof -
  note d = apply_fill_def [of br lk i a t l]
  show "br_venue br' = br_venue br" "br_fee br' = br_fee br" "br_slippage_bps br' = br_slippage_bps br"
    "br_sink br' = br_sink br" "ord_id ord = i" "a' \<noteq> a \<Longrightarrow> acct br' a' = acct br a'"
    "i' \<noteq> i \<Longrightarrow> map_of (br_orders br') i' = map_of (br_orders br) i'"
    "i' \<noteq> i \<Longrightarrow> map_of (br_fills br') i' = map_of (br_fills br) i'"
    "ord_status ord = FILLED \<longleftrightarrow> fl \<noteq> None"
    using assms
    by (auto simp: d Let_def mk_order_def record_order_def record_fill_def acct_def put_acct_def dict_get_def
        split: sum.splits prod.splits if_splits)
qed

subsection \<open>The relation between a broker before and during a ticket\<close>

definition ticket_rel :: "string \<Rightarrow> string set \<Rightarrow> paper_broker \<Rightarrow> paper_broker \<Rightarrow> bool" where
  "ticket_rel a ids br br' \<longleftrightarrow> br_venue br' = br_venue br \<and> br_fee br' = br_fee br \<and>
     br_slippage_bps br' = br_slippage_bps br \<and> br_sink br' = br_sink br \<and>
     (\<forall>a'. a' \<noteq> a \<longrightarrow> acct br' a' = acct br a') \<and>
     (\<forall>i. i \<notin> ids \<longrightarrow> map_of (br_orders br') i = map_of (br_orders br) i \<and>
        map_of (br_fills br') i = map_of (br_fills br) i)"

lemma ticket_rel_refl: "ticket_rel a ids br br"
  by (simp add: ticket_rel_def)

lemma ticket_rel_apply:
  assumes "ticket_rel a ids br0 br" "apply_fill br lk i a t l = (br', ord, fl, reason)"
  shows "ticket_rel a (insert i ids) br0 br'"
  using assms(1) apply_fill_keeps [OF assms(2)] by (simp add: ticket_rel_def)

lemma ticket_rel_forget:
  assumes "ticket_rel a (insert i ids) br0 br" "map_of (br_orders br0) i = None" "map_of (br_fills br0) i = None"
  shows "ticket_rel a ids br0 (forget_order br i)"
  using assms by (auto simp: ticket_rel_def forget_order_def acct_def)

lemma ticket_rel_mono: "ticket_rel a ids br br' \<Longrightarrow> ids \<subseteq> ids' \<Longrightarrow> ticket_rel a ids' br br'"
  unfolding ticket_rel_def by blast

definition ids_at :: "string \<Rightarrow> applied_leg list \<Rightarrow> string list" where
  "ids_at v ls = List.map_filter (\<lambda>(v', ord, _). if v' = v then Some (ord_id ord) else None) ls"

definition ticket_inv :: "string \<Rightarrow> 'l adapters \<Rightarrow> 'l adapters \<Rightarrow> applied_leg list \<Rightarrow> bool" where
  "ticket_inv a ads0 ads ls \<longleftrightarrow> (\<forall>v. case paper_at ads0 v of
     None \<Rightarrow> map_of ads v = map_of ads0 v
   | Some br \<Rightarrow> \<exists>br'. paper_at ads v = Some br' \<and> ticket_rel a (set (ids_at v ls)) br br')"

definition fresh_ids :: "(nat \<Rightarrow> string) \<Rightarrow> 'l adapters \<Rightarrow> bool" where
  "fresh_ids uid ads \<longleftrightarrow> (\<forall>v br k. paper_at ads v = Some br \<longrightarrow>
     map_of (br_orders br) (uid k) = None \<and> map_of (br_fills br) (uid k) = None)"

lemma ids_at_snoc: "ids_at v (ls @ [(v', ord, fl)]) = ids_at v ls @ (if v' = v then [ord_id ord] else [])"
  by (simp add: ids_at_def List.map_filter_def)

lemma ticket_inv_refl: "ticket_inv a ads ads []"
  by (auto simp: ticket_inv_def ticket_rel_refl split: option.split)

lemma ticket_inv_live: "ticket_inv a ads0 ads ls \<Longrightarrow> paper_at ads0 v = None \<Longrightarrow> map_of ads v = map_of ads0 v"
  by (auto simp: ticket_inv_def dest!: spec [of _ v])

lemma ticket_inv_paper:
  "ticket_inv a ads0 ads ls \<Longrightarrow> paper_at ads0 v = Some br0 \<Longrightarrow>
     \<exists>br. paper_at ads v = Some br \<and> ticket_rel a (set (ids_at v ls)) br0 br"
  by (auto simp: ticket_inv_def dest!: spec [of _ v])

lemma ticket_inv_at:
  "ticket_inv a ads0 ads ls \<Longrightarrow> paper_at ads v = Some br \<Longrightarrow> \<exists>br0. paper_at ads0 v = Some br0 \<and>
     ticket_rel a (set (ids_at v ls)) br0 br"
  using ticket_inv_live [of a ads0 ads ls v] ticket_inv_paper [of a ads0 ads ls v]
  by (cases "paper_at ads0 v") (auto simp: paper_at_def)

lemma ticket_inv_step:
  assumes "ticket_inv a ads0 ads ls" "paper_at ads0 v = Some br0" "ticket_rel a (set (ids_at v ls')) br0 br"
    and "\<And>v'. v' \<noteq> v \<Longrightarrow> ids_at v' ls' = ids_at v' ls"
  shows "ticket_inv a ads0 (dict_set v (Paper br) ads) ls'"
  unfolding ticket_inv_def
proof
  fix v'
  show "case paper_at ads0 v' of None \<Rightarrow> map_of (dict_set v (Paper br) ads) v' = map_of ads0 v'
    | Some b \<Rightarrow> \<exists>br'. paper_at (dict_set v (Paper br) ads) v' = Some br' \<and> ticket_rel a (set (ids_at v' ls')) b br'"
    using assms(1) [unfolded ticket_inv_def, rule_format, of v'] assms(2-4)
    by (cases "v' = v") (auto split: option.splits)
qed

lemma apply_legs_inv:
  assumes "apply_legs lk uid a t k ls ads done_legs = (ads', done', failure)"
    and "ticket_inv a ads0 ads done_legs" "fresh_ids uid ads0"
  shows "ticket_inv a ads0 ads' done'"
  using assms(1,2)
proof (induction ls arbitrary: k ads done_legs)
  case (Cons l ls)
  show ?case
  proof (cases "paper_at ads (il_venue l)")
    case None
    with Cons.prems show ?thesis by simp
  next
    case (Some br)
    obtain br' ord fl reason where f: "apply_fill br lk (uid k) a t l = (br', ord, fl, reason)"
      by (cases "apply_fill br lk (uid k) a t l")
    from ticket_inv_at [OF Cons.prems(2) Some] obtain br0 where br0: "paper_at ads0 (il_venue l) = Some br0"
      and rel: "ticket_rel a (set (ids_at (il_venue l) done_legs)) br0 br" by blast
    note rel' = ticket_rel_apply [OF rel f]
    have id: "ord_id ord = uid k" using apply_fill_keeps(5) [OF f] .
    show ?thesis
    proof (cases "ord_status ord = FILLED")
      case True
      have "ticket_inv a ads0 (dict_set (il_venue l) (Paper br') ads) (done_legs @ [(il_venue l, ord, fl)])"
        using rel' id by (intro ticket_inv_step [OF Cons.prems(2) br0]) (auto simp: ids_at_snoc)
      with True Some f Cons show ?thesis by simp
    next
      case False
      have "ticket_rel a (set (ids_at (il_venue l) done_legs)) br0 (forget_order br' (uid k))"
        using rel' assms(3) br0 by (intro ticket_rel_forget) (auto simp: fresh_ids_def)
      then have "ticket_inv a ads0 (dict_set (il_venue l) (Paper (forget_order br' (ord_id ord))) ads) done_legs"
        using id by (intro ticket_inv_step [OF Cons.prems(2) br0]) auto
      with False Some f Cons.prems show ?thesis by simp
    qed
  qed
qed simp

subsection \<open>Rolling a ticket back\<close>

lemma paper_at_restore_all:
  assumes "dict_ok snaps"
  shows "paper_at (restore_all a snaps ads) v = (case map_of snaps v of None \<Rightarrow> paper_at ads v
    | Some s \<Rightarrow> map_option (\<lambda>br. restore_account br a s) (paper_at ads v))"
  using assms
proof (induction snaps arbitrary: ads)
  case (Cons s snaps)
  obtain v' c where s: "s = (v', c)" by (cases s)
  from Cons.prems s have "map_of snaps v' = None" by (simp add: map_of_eq_None_iff)
  with Cons.IH [of "at_broker (\<lambda>br. restore_account br a c) v' ads"] Cons.prems s show ?case
    by (auto simp: restore_all_def split: option.splits)
qed (simp add: restore_all_def)

lemma live_restore_all: "paper_at ads v = None \<Longrightarrow> map_of (restore_all a snaps ads) v = map_of ads v"
proof (induction snaps arbitrary: ads)
  case (Cons s snaps)
  obtain v' c where s: "s = (v', c)" by (cases s)
  from Cons.IH [OF paper_at_broker_None [OF Cons.prems]] Cons.prems show ?case
    by (simp add: restore_all_def s live_at_broker)
qed (simp add: restore_all_def)

lemma live_forget_all: "paper_at ads v = None \<Longrightarrow> map_of (forget_all ls ads) v = map_of ads v"
proof (induction ls arbitrary: ads)
  case (Cons x ls)
  obtain v' ord fl where x: "x = (v', ord, fl)" by (cases x)
  from Cons.IH [OF paper_at_broker_None [OF Cons.prems]] Cons.prems show ?case
    by (simp add: forget_all_def x live_at_broker)
qed (simp add: forget_all_def)

lemma paper_at_forget_all:
  "paper_at (forget_all ls ads) v = map_option (\<lambda>br. foldl forget_order br (ids_at v ls)) (paper_at ads v)"
proof (induction ls arbitrary: ads)
  case (Cons x ls)
  obtain v' ord fl where x: "x = (v', ord, fl)" by (cases x)
  from Cons [of "at_broker (\<lambda>br. forget_order br (ord_id ord)) v' ads"] show ?case
    by (auto simp: forget_all_def x ids_at_def List.map_filter_simps option.map_comp comp_def)
qed (simp add: forget_all_def ids_at_def List.map_filter_simps option.map_ident)

lemma foldl_forget:
  "br_accounts (foldl forget_order br is) = br_accounts br"
  "br_sink (foldl forget_order br is) = br_sink br" "br_venue (foldl forget_order br is) = br_venue br"
  "map_of (br_orders (foldl forget_order br is)) i = (if i \<in> set is then None else map_of (br_orders br) i)"
  "map_of (br_fills (foldl forget_order br is)) i = (if i \<in> set is then None else map_of (br_fills br) i)"
  by (induction "is" arbitrary: br) (auto simp: forget_order_def)

lemma map_filter_venues:
  "map_of (List.map_filter (\<lambda>v. map_option (\<lambda>br. (v, f br)) (g v)) vs) v =
     (if v \<in> set vs then map_option f (g v) else None)"
  by (induction vs) (auto simp: List.map_filter_simps split: option.splits)

lemma map_filter_keys:
  "map fst (List.map_filter (\<lambda>v. map_option (\<lambda>br. (v, f br)) (g v)) vs) = filter (\<lambda>v. g v \<noteq> None) vs"
  by (induction vs) (auto simp: List.map_filter_simps split: option.splits)

lemma take_snapshots_ok: "dict_ok (take_snapshots ads intent)"
  unfolding take_snapshots_def map_filter_keys by simp

lemma take_snapshots_at:
  "map_of (take_snapshots ads intent) v = (if v \<in> il_venue ` set (ei_legs intent)
     then map_option (\<lambda>br. snapshot_account br (ei_account intent)) (paper_at ads v) else None)"
  unfolding take_snapshots_def map_filter_venues by simp

lemma apply_legs_untouched:
  assumes "apply_legs lk uid a t k ls ads done_legs = (ads', done', failure)" "v \<notin> il_venue ` set ls"
  shows "map_of ads' v = map_of ads v"
  using assms by (induction ls arbitrary: k ads done_legs) (auto split: option.splits prod.splits if_splits)

lemma snapshot_restore: "snapshot_account (restore_account br a c) a' = (if a' = a then c else snapshot_account br a')"
  by (cases c) (auto simp: snapshot_account_def Let_def)

lemma restore_keeps:
  "br_orders (restore_account br a c) = br_orders br" "br_fills (restore_account br a c) = br_fills br"
  "br_sink (restore_account br a c) = br_sink br" "br_venue (restore_account br a c) = br_venue br"
  by (cases c; simp)+

text \<open>What a refused ticket may not change on a broker, for one account and one order id.\<close>

definition same_trace :: "paper_broker \<Rightarrow> paper_broker \<Rightarrow> string \<Rightarrow> string \<Rightarrow> bool" where
  "same_trace br br' a i \<longleftrightarrow> snapshot_account br' a = snapshot_account br a \<and>
     map_of (br_orders br') i = map_of (br_orders br) i \<and> map_of (br_fills br') i = map_of (br_fills br) i \<and>
     br_sink br' = br_sink br"

lemma ids_at_applied:
  assumes "apply_legs lk uid a t k ls ads done_legs = (ads', done', failure)"
    and "\<forall>i \<in> set (ids_at v done_legs). \<exists>k. i = uid k"
  shows "\<forall>i \<in> set (ids_at v done'). \<exists>k. i = uid k"
  using assms
proof (induction ls arbitrary: k ads done_legs)
  case (Cons l ls)
  then show ?case
    by (fastforce simp: ids_at_snoc apply_fill_keeps(5) split: option.splits prod.splits if_splits)
qed simp

lemma rollback_same_trace:
  assumes f: "apply_legs lk uid (ei_account intent) t 0 (ei_legs intent) ads [] = (ads1, applied, failure)"
    and fresh: "fresh_ids uid ads" and br: "paper_at ads v = Some br"
  shows "\<exists>br'. paper_at (forget_all applied (restore_all (ei_account intent) (take_snapshots ads intent) ads1)) v = Some br'
    \<and> same_trace br br' a i"
proof -
  let ?a = "ei_account intent" and ?ids = "ids_at v applied"
  from ticket_inv_paper [OF apply_legs_inv [OF f ticket_inv_refl fresh] br]
  obtain br1 where br1: "paper_at ads1 v = Some br1" and rel: "ticket_rel ?a (set ?ids) br br1" by blast
  have new: "\<forall>j \<in> set ?ids. map_of (br_orders br) j = None \<and> map_of (br_fills br) j = None"
    using ids_at_applied [OF f, of v] fresh br by (fastforce simp: ids_at_def List.map_filter_simps fresh_ids_def)
  define br2 where "br2 = (if v \<in> il_venue ` set (ei_legs intent)
    then restore_account br1 ?a (snapshot_account br ?a) else br1)"
  have r: "paper_at (restore_all ?a (take_snapshots ads intent) ads1) v = Some br2"
    using br br1 by (simp add: paper_at_restore_all [OF take_snapshots_ok] take_snapshots_at br2_def)
  have same: "snapshot_account br2 a' = snapshot_account br a'" for a'
  proof (cases "v \<in> il_venue ` set (ei_legs intent)")
    case True
    then show ?thesis using rel by (simp add: br2_def snapshot_restore) (simp add: ticket_rel_def snapshot_account_def)
  next
    case False
    then have "map_of ads1 v = map_of ads v" by (rule apply_legs_untouched [OF f])
    with False br br1 show ?thesis by (simp add: br2_def paper_at_def)
  qed
  have k: "br_orders br2 = br_orders br1" "br_fills br2 = br_fills br1" "br_sink br2 = br_sink br1"
    by (simp_all add: br2_def restore_keeps)
  have "same_trace br (foldl forget_order br2 ?ids) a i"
    using same rel new k
    by (auto simp: same_trace_def foldl_forget ticket_rel_def snapshot_account_def acct_def)
  with r show ?thesis by (auto simp: paper_at_forget_all)
qed

subsection \<open>A ticket that commits\<close>

lemma apply_fill_buy_keys:
  "apply_fill br lk i a t l = (br', ord, Some f, reason) \<Longrightarrow>
     \<exists>x. map_of (ac_balances (acct br' a)) (br_venue br') = Some x"
  by (erule apply_fill_filled) (simp add: fill_account_has_cash)

lemma release_position:
  "ac_positions (release st oid q p) = dict_set oid (dsub (dict_get 0 (ac_positions st) oid) q) (ac_positions st)"
  by (auto simp: release_def Let_def split_def consume_fees_keeps [OF prod.collapse [symmetric]])

lemma fill_account_positions:
  "ac_positions (fill_account br st l px f) = dict_set (il_outcome l)
     (if il_is_buy l then dadd (dict_get 0 (ac_positions st) (il_outcome l)) (il_qty l)
      else dsub (dict_get 0 (ac_positions st) (il_outcome l)) (il_qty l)) (ac_positions st)"
  by (simp add: fill_account_def Let_def release_position) (simp add: acquire_def Let_def)

text \<open>The signed rounded sum of the quantities a ticket trades of an outcome on a venue.\<close>

definition leg_position :: "string \<Rightarrow> string \<Rightarrow> rat \<Rightarrow> intent_leg \<Rightarrow> rat" where
  "leg_position v oid q l = (if il_venue l = v \<and> il_outcome l = oid
     then (if il_is_buy l then dadd q (il_qty l) else dsub q (il_qty l)) else q)"

lemma apply_fill_position:
  assumes "apply_fill br lk i a t l = (br', ord, Some f, reason)" "il_venue l = v"
  shows "dict_get 0 (get_positions br' a) oid = leg_position v oid (dict_get 0 (get_positions br a) oid) l"
  using assms(1)
proof (rule apply_fill_filled)
  fix px
  assume br': "br' = record_fill (record_order (put_acct br a (fill_account br (acct br a) l px (fill_fee f))) ord) f"
  show ?thesis using assms(2)
    by (simp add: br' get_positions_def leg_position_def fill_account_positions)
qed

definition matches_leg :: "string option \<Rightarrow> (nat \<Rightarrow> string) \<Rightarrow> nat \<Rightarrow> intent_leg \<Rightarrow> string \<times> order \<times> fill option \<Rightarrow> bool" where
  "matches_leg t uid k l ap = (case ap of (v, ord, fl) \<Rightarrow> v = il_venue l \<and> ord_outcome ord = il_outcome l \<and>
     ord_is_buy ord = il_is_buy l \<and> ord_qty ord = il_qty l \<and> ord_limit ord = il_limit l \<and>
     ord_status ord = FILLED \<and> ord_ticket ord = t \<and> ord_id ord = uid k \<and> fl \<noteq> None)"

lemma apply_legs_success:
  assumes "apply_legs lk uid a t k ls ads done_legs = (ads', done', None)"
    and "\<forall>l \<in> set ls. paper_at ads (il_venue l) \<noteq> None"
  shows "\<exists>new. done' = done_legs @ new \<and> length new = length ls \<and>
      (\<forall>j < length ls. matches_leg t uid (k + j) (ls ! j) (new ! j)) \<and>
      (\<forall>v br. paper_at ads v = Some br \<longrightarrow> (\<exists>br'. paper_at ads' v = Some br' \<and>
        dict_get 0 (get_positions br' a) oid =
          foldl (leg_position v oid) (dict_get 0 (get_positions br a) oid) ls))"
  using assms
proof (induction ls arbitrary: k ads done_legs)
  case (Cons l ls)
  from Cons.prems(2) obtain br where br: "paper_at ads (il_venue l) = Some br" by auto
  obtain br' ord fl reason where f: "apply_fill br lk (uid k) a t l = (br', ord, fl, reason)"
    by (cases "apply_fill br lk (uid k) a t l")
  let ?ads = "dict_set (il_venue l) (Paper br') ads" and ?done = "done_legs @ [(il_venue l, ord, fl)]"
  from Cons.prems(1) br f have filled: "ord_status ord = FILLED"
    and rest: "apply_legs lk uid a t (Suc k) ls ?ads ?done = (ads', done', None)"
    by (auto split: if_splits)
  then obtain fl' where fl: "fl = Some fl'" using apply_fill_keeps(9) [OF f] by auto
  from f fl have f': "apply_fill br lk (uid k) a t l = (br', ord, Some fl', reason)" by simp
  have m: "matches_leg t uid k l (il_venue l, ord, fl)"
    using f' by (rule apply_fill_filled) (simp add: matches_leg_def mk_order_def fl)
  note pos = apply_fill_position [OF f' refl, of oid]
  have "\<forall>l \<in> set ls. paper_at ?ads (il_venue l) \<noteq> None" using Cons.prems(2) by auto
  from Cons.IH [OF rest this] obtain new where new: "done' = ?done @ new" "length new = length ls"
      "\<forall>j < length ls. matches_leg t uid (Suc k + j) (ls ! j) (new ! j)"
    and step: "\<forall>v br. paper_at ?ads v = Some br \<longrightarrow> (\<exists>br'. paper_at ads' v = Some br' \<and>
        dict_get 0 (get_positions br' a) oid = foldl (leg_position v oid) (dict_get 0 (get_positions br a) oid) ls)"
    by blast
  have "\<forall>v b. paper_at ads v = Some b \<longrightarrow> (\<exists>b'. paper_at ads' v = Some b' \<and>
        dict_get 0 (get_positions b' a) oid = foldl (leg_position v oid) (dict_get 0 (get_positions b a) oid) (l # ls))"
  proof (intro allI impI)
    fix v b assume b: "paper_at ads v = Some b"
    show "\<exists>b'. paper_at ads' v = Some b' \<and> dict_get 0 (get_positions b' a) oid =
        foldl (leg_position v oid) (dict_get 0 (get_positions b a) oid) (l # ls)"
    proof (cases "v = il_venue l")
      case True
      with step [rule_format, of v br'] b br pos show ?thesis by simp
    next
      case False
      with step [rule_format, of v b] b show ?thesis by (simp add: leg_position_def)
    qed
  qed
  moreover have "\<forall>j < length (l # ls). matches_leg t uid (k + j) ((l # ls) ! j) (((il_venue l, ord, fl) # new) ! j)"
    using m new(3) by (simp add: nth_Cons split: nat.split)
  ultimately show ?case using new(1,2) by (intro exI [of _ "(il_venue l, ord, fl) # new"]) simp
qed simp

text \<open>Notifying a committed ticket raises nothing and moves nothing: every filled account has a balance.\<close>

definition has_balance :: "string \<Rightarrow> paper_broker \<Rightarrow> bool" where
  "has_balance a br \<longleftrightarrow> map_of (ac_balances (acct br a)) (br_venue br) \<noteq> None"

lemma emit_order_events_keeps:
  assumes "has_balance a br"
  shows "snd (emit_order_events br a ord fl r) = None" "has_balance a' (fst (emit_order_events br a ord fl r)) = has_balance a' br"
    "get_positions (fst (emit_order_events br a ord fl r)) a' = get_positions br a'"
    "cash (fst (emit_order_events br a ord fl r)) a' = cash br a'"
  using assms
  by (auto simp: emit_order_events_def has_balance_def get_positions_def Let_def split: option.splits)

lemma notify_all_ok:
  assumes "\<forall>(v, _) \<in> set ls. \<forall>br. paper_at ads v = Some br \<longrightarrow> has_balance a br"
  shows "snd (notify_all a ls ads) = None \<and> (\<forall>v br. paper_at ads v = Some br \<longrightarrow>
    (\<exists>br'. paper_at (fst (notify_all a ls ads)) v = Some br' \<and> br_accounts br' = br_accounts br \<and>
      br_venue br' = br_venue br))"
  using assms
proof (induction ls arbitrary: ads)
  case (Cons x ls)
  obtain v ord fl where x: "x = (v, ord, fl)" by (cases x)
  show ?case
  proof (cases "paper_at ads v")
    case None
    with Cons x show ?thesis by simp
  next
    case (Some br)
    obtain br' e where e: "emit_order_events br a ord fl None = (br', e)" by force
    from Cons.prems x Some have b: "has_balance a br" by simp
    from emit_order_events_keeps(1) [OF b, of ord fl None] e have [simp]: "e = None" by simp
    have k: "br_accounts br' = br_accounts br" "br_venue br' = br_venue br"
      using emit_order_events_accounts [of br a ord fl None] e by simp_all
    then have hb: "has_balance a br' = has_balance a br" by (simp add: has_balance_def acct_def)
    let ?ads = "dict_set v (Paper br') ads"
    have "\<forall>(v, _) \<in> set ls. \<forall>br. paper_at ?ads v = Some br \<longrightarrow> has_balance a br"
      using Cons.prems hb b x by (auto split: if_splits)
    from Cons.IH [OF this] have IH: "snd (notify_all a ls ?ads) = None"
        "\<And>v br. paper_at ?ads v = Some br \<Longrightarrow> \<exists>br'. paper_at (fst (notify_all a ls ?ads)) v = Some br' \<and>
           br_accounts br' = br_accounts br \<and> br_venue br' = br_venue br" by auto
    have n: "notify_all a (x # ls) ads = notify_all a ls ?ads" by (simp add: x Some e)
    show ?thesis
    proof (intro conjI allI impI)
      show "snd (notify_all a (x # ls) ads) = None" by (simp only: n IH(1))
      fix v' b' assume b': "paper_at ads v' = Some b'"
      show "\<exists>br'. paper_at (fst (notify_all a (x # ls) ads)) v' = Some br' \<and> br_accounts br' = br_accounts b' \<and>
          br_venue br' = br_venue b'"
        using IH(2) [of v' "if v' = v then br' else b'"] b' Some k by (cases "v' = v") (simp_all add: n)
    qed
  qed
qed simp

lemma apply_legs_balances:
  assumes "apply_legs lk uid a t k ls ads done_legs = (ads', done', failure)"
    and "\<forall>(v, _) \<in> set done_legs. \<forall>br. paper_at ads v = Some br \<longrightarrow> has_balance a br"
    and "failure = None"
  shows "\<forall>(v, _) \<in> set done'. \<forall>br. paper_at ads' v = Some br \<longrightarrow> has_balance a br"
  using assms
proof (induction ls arbitrary: k ads done_legs)
  case (Cons l ls)
  show ?case
  proof (cases "paper_at ads (il_venue l)")
    case None
    with Cons.prems show ?thesis by simp
  next
    case (Some br)
    obtain br' ord fl reason where f: "apply_fill br lk (uid k) a t l = (br', ord, fl, reason)"
      by (cases "apply_fill br lk (uid k) a t l")
    from Cons.prems(1,3) Some f have filled: "ord_status ord = FILLED"
      and rest: "apply_legs lk uid a t (Suc k) ls (dict_set (il_venue l) (Paper br') ads)
        (done_legs @ [(il_venue l, ord, fl)]) = (ads', done', failure)"
      by (auto split: if_splits)
    then obtain fl' where "fl = Some fl'" using apply_fill_keeps(9) [OF f] by auto
    with f have "has_balance a br'" using apply_fill_buy_keys by (fastforce simp: has_balance_def)
    with Cons.prems(2) have "\<forall>(v, _) \<in> set (done_legs @ [(il_venue l, ord, fl)]).
        \<forall>br. paper_at (dict_set (il_venue l) (Paper br') ads) v = Some br \<longrightarrow> has_balance a br"
      by (fastforce split: if_splits)
    from Cons.IH [OF rest this Cons.prems(3)] show ?thesis .
  qed
qed simp

lemma commit_cases:
  obtains (failed) ads1 applied m where
      "apply_legs lk uid (ei_account intent) (ei_ticket intent) 0 (ei_legs intent) ads [] = (ads1, applied, Some m)"
      "commit_atomically lk uid intent ads =
         (forget_all applied (restore_all (ei_account intent) (take_snapshots ads intent) ads1),
          Refused (insufficient_of_text m False))"
  | (filled) ads1 applied where
      "apply_legs lk uid (ei_account intent) (ei_ticket intent) 0 (ei_legs intent) ads [] = (ads1, applied, None)"
      "commit_atomically lk uid intent ads =
         (fst (notify_all (ei_account intent) applied ads1), Submitted (map (\<lambda>(_, ord, _). ord) applied))"
proof -
  obtain ads1 applied r where
    f: "apply_legs lk uid (ei_account intent) (ei_ticket intent) 0 (ei_legs intent) ads [] = (ads1, applied, r)"
    by (cases "apply_legs lk uid (ei_account intent) (ei_ticket intent) 0 (ei_legs intent) ads []")
  show thesis
  proof (cases r)
    case (Some m)
    with f show thesis by (intro failed [of ads1 applied m]) (simp_all add: commit_atomically_def)
  next
    case None
    with f have f': "apply_legs lk uid (ei_account intent) (ei_ticket intent) 0 (ei_legs intent) ads [] = (ads1, applied, None)"
      by simp
    have "snd (notify_all (ei_account intent) applied ads1) = None"
      using apply_legs_balances [OF f'] notify_all_ok [of applied ads1 "ei_account intent"] by simp
    with f' show thesis
      by (intro filled [of ads1 applied]) (auto simp: commit_atomically_def split: prod.splits option.splits)
  qed
qed

definition all_paper :: "'l adapters \<Rightarrow> execution_intent \<Rightarrow> bool" where
  "all_paper ads intent \<longleftrightarrow> list_all (\<lambda>l. paper_at ads (il_venue l) \<noteq> None) (ei_legs intent)"

declare all_paper_def [eval_rules] same_trace_def [eval_rules]

lemma submit_all_paper:
  "all_paper ads intent \<Longrightarrow> submit live lk uid ads intent =
     (if preview_all ads lk intent \<noteq> [] then (ads, Refused (insufficient_of_rejections (preview_all ads lk intent)))
      else commit_atomically lk uid intent ads)"
  by (simp add: submit_def Let_def all_paper_def)

subsection \<open>Worked tickets\<close>

definition ex_pm :: paper_broker where
  "ex_pm = deposit (new_broker ''polymarket_us'' polymarket_us_default 0 None) ''demo'' 500"

definition ex_adapters :: "unit adapters" where
  "ex_adapters = [(''kalshi'', Paper ex_broker), (''polymarket_us'', Paper ex_pm)]"

definition ex_lk :: "string \<Rightarrow> quote option" where
  "ex_lk oid = map_of [
     (''A'', \<lparr>q_outcome_id = ''A'', bid = 2 / 5, ask = 2 / 5, bid_size = None, ask_size = None, source_age_s = None\<rparr>),
     (''B'', \<lparr>q_outcome_id = ''B'', bid = 1 / 2, ask = 1 / 2, bid_size = None, ask_size = Some 900, source_age_s = None\<rparr>)] oid"

definition ex_uid :: "nat \<Rightarrow> string" where
  "ex_uid k = ''order-'' @ nat_str k"

definition ex_buy_leg :: "string \<Rightarrow> string \<Rightarrow> rat \<Rightarrow> intent_leg" where
  "ex_buy_leg v oid q = \<lparr>il_venue = v, il_outcome = oid, il_is_buy = True, il_qty = q, il_limit = 1\<rparr>"

definition ex_intent :: "intent_leg list \<Rightarrow> execution_intent" where
  "ex_intent ls = \<lparr>ei_group = ''g'', ei_account = ''demo'', ei_legs = ls, ei_ticket = Some ''t1''\<rparr>"

definition ex_live :: "unit live_venue" where
  "ex_live s a t l = (s, Inl ValueError)"

text \<open>Two legs that each fit the cash on their venue, and two legs on one venue that only fit it one at a time.\<close>

definition ex_pair :: execution_intent where
  "ex_pair = ex_intent [ex_buy_leg ''kalshi'' ''A'' 10, ex_buy_leg ''polymarket_us'' ''B'' 10]"

definition ex_crowded :: execution_intent where
  "ex_crowded = ex_intent [ex_buy_leg ''kalshi'' ''A'' 700, ex_buy_leg ''kalshi'' ''B'' 800]"

declare ex_pm_def [eval_rules] ex_adapters_def [eval_rules] ex_lk_def [eval_rules] ex_uid_def [eval_rules]
  ex_buy_leg_def [eval_rules] ex_intent_def [eval_rules] ex_live_def [eval_rules] ex_pair_def [eval_rules]
  ex_crowded_def [eval_rules]

lemma ex_fresh: "fresh_ids ex_uid ex_adapters"
  by (auto simp: fresh_ids_def ex_adapters_def paper_at_def ex_broker_def ex_pm_def deposit_def new_broker_def split: if_splits)

lemma ex_all_paper: "all_paper ex_adapters ex_pair" "all_paper ex_adapters ex_crowded"
  by (simp_all add: eval_rules)

lemma ex_crowded_refused: "\<exists>ads' e. submit ex_live ex_lk ex_uid ex_adapters ex_crowded = (ads', Refused e)"
  by (simp add: eval_rules)

lemma ex_pair_submitted: "\<exists>ads' ords. submit ex_live ex_lk ex_uid ex_adapters ex_pair = (ads', Submitted ords)"
  by (simp add: eval_rules)

text \<open>A refusal in preview changes nothing; one in the commit is rolled back.\<close>

lemma submit_refused_trace:
  assumes "submit live lk uid ads intent = (ads', Refused e)" "all_paper ads intent" "fresh_ids uid ads"
    and "paper_at ads v = Some br"
  shows "\<exists>br'. paper_at ads' v = Some br' \<and> same_trace br br' a i \<and> \<not> ie_persisted e"
proof (cases "preview_all ads lk intent = []")
  case False
  with assms show ?thesis
    by (auto simp: submit_all_paper same_trace_def insufficient_of_rejections_def)
next
  case True
  with assms have c: "commit_atomically lk uid intent ads = (ads', Refused e)" by (simp add: submit_all_paper)
  show ?thesis
  proof (cases rule: commit_cases [of lk uid intent ads])
    case (failed ads1 applied m)
    with rollback_same_trace [OF failed(1) assms(3,4)] c show ?thesis
      by (auto simp: insufficient_of_text_def)
  qed (use c in simp)
qed

subsection \<open>Properties\<close>

text \<open>
  C5: a refused ticket leaves the books alone: whichever leg was refused, in preview or after earlier
  legs had already filled, every account on every paper broker has the cash, the positions, the
  average prices and the realized profit it had, no order or fill of the ticket remains, nothing was
  sent to a sink, and the error says that no leg row was persisted.
\<close>

theorem submit_refused_no_trace:
  assumes "submit live lk uid ads intent = (ads', Refused e)" "all_paper ads intent" "fresh_ids uid ads"
    and "paper_at ads v = Some br"
  shows "\<exists>br'. paper_at ads' v = Some br' \<and> same_trace br br' a i \<and> \<not> ie_persisted e"
  using assms by (rule submit_refused_trace)

theorem submit_refused_no_trace_witness:
  "\<exists>ads' e br'. submit ex_live ex_lk ex_uid ex_adapters ex_crowded = (ads', Refused e) \<and>
    paper_at ads' ''kalshi'' = Some br' \<and> same_trace ex_broker br' ''demo'' ''order-0''"
proof -
  obtain ads' e where s: "submit ex_live ex_lk ex_uid ex_adapters ex_crowded = (ads', Refused e)"
    using ex_crowded_refused by blast
  have "paper_at ex_adapters ''kalshi'' = Some ex_broker" by (simp add: ex_adapters_def paper_at_def)
  from submit_refused_no_trace [OF s ex_all_paper(2) ex_fresh this, of "''demo''" "''order-0''"] s
  show ?thesis by blast
qed

text \<open>
  C6: a submitted ticket is filled on every leg: the orders answer the legs one by one, each FILLED
  with the leg's outcome, side, quantity and limit, and every position on every paper broker moves by
  exactly the legs that trade it.
\<close>

theorem submit_fills_every_leg:
  assumes "submit live lk uid ads intent = (ads', Submitted ords)" "all_paper ads intent"
  shows "length ords = length (ei_legs intent) \<and>
    (\<forall>j < length ords. let l = ei_legs intent ! j; ord = ords ! j in ord_status ord = FILLED \<and> ord_id ord = uid j \<and>
       ord_outcome ord = il_outcome l \<and> ord_is_buy ord = il_is_buy l \<and> ord_qty ord = il_qty l \<and>
       ord_limit ord = il_limit l \<and> ord_ticket ord = ei_ticket intent) \<and>
    (\<forall>v br. paper_at ads v = Some br \<longrightarrow> (\<exists>br'. paper_at ads' v = Some br' \<and>
       dict_get 0 (get_positions br' (ei_account intent)) oid =
         foldl (leg_position v oid) (dict_get 0 (get_positions br (ei_account intent)) oid) (ei_legs intent)))"
proof -
  from assms have c: "commit_atomically lk uid intent ads = (ads', Submitted ords)"
    by (auto simp: submit_all_paper split: if_splits)
  show ?thesis
  proof (cases rule: commit_cases [of lk uid intent ads])
    case (filled ads1 applied)
    from filled(2) c have ords: "ords = map (\<lambda>(_, ord, _). ord) applied"
      and ads': "ads' = fst (notify_all (ei_account intent) applied ads1)" by auto
    have p: "\<forall>l \<in> set (ei_legs intent). paper_at ads (il_venue l) \<noteq> None"
      using assms(2) by (simp add: all_paper_def list_all_iff)
    from apply_legs_success [OF filled(1) p, of oid] have s: "length applied = length (ei_legs intent)"
        "\<forall>j < length (ei_legs intent). matches_leg (ei_ticket intent) uid j (ei_legs intent ! j) (applied ! j)"
      and pos: "\<And>v br. paper_at ads v = Some br \<Longrightarrow> \<exists>br'. paper_at ads1 v = Some br' \<and>
        dict_get 0 (get_positions br' (ei_account intent)) oid =
          foldl (leg_position v oid) (dict_get 0 (get_positions br (ei_account intent)) oid) (ei_legs intent)"
      by auto
    have keep: "\<And>v br. paper_at ads1 v = Some br \<Longrightarrow>
        \<exists>br'. paper_at ads' v = Some br' \<and> br_accounts br' = br_accounts br"
      using notify_all_ok [OF apply_legs_balances [OF filled(1) _ refl]] by (fastforce simp: ads')
    have "\<exists>br'. paper_at ads' v = Some br' \<and> dict_get 0 (get_positions br' (ei_account intent)) oid =
        foldl (leg_position v oid) (dict_get 0 (get_positions br (ei_account intent)) oid) (ei_legs intent)"
      if "paper_at ads v = Some br" for v br
    proof -
      from pos [OF that] obtain b1 where b1: "paper_at ads1 v = Some b1" "dict_get 0 (get_positions b1 (ei_account intent)) oid =
        foldl (leg_position v oid) (dict_get 0 (get_positions br (ei_account intent)) oid) (ei_legs intent)" by blast
      from keep [OF b1(1)] b1(2) show ?thesis by (auto simp: get_positions_def acct_def)
    qed
    with s show ?thesis by (auto simp: ords Let_def matches_leg_def split: prod.splits)
  qed (use c in simp)
qed

theorem submit_fills_every_leg_witness:
  "\<exists>ads' ords br'. submit ex_live ex_lk ex_uid ex_adapters ex_pair = (ads', Submitted ords) \<and> length ords = 2 \<and>
    paper_at ads' ''kalshi'' = Some br' \<and> dict_get 0 (get_positions br' ''demo'') ''A'' = 10"
proof -
  obtain ads' ords where s: "submit ex_live ex_lk ex_uid ex_adapters ex_pair = (ads', Submitted ords)"
    using ex_pair_submitted by blast
  have k: "paper_at ex_adapters ''kalshi'' = Some ex_broker" by (simp add: ex_adapters_def paper_at_def)
  have p: "foldl (leg_position ''kalshi'' ''A'') (dict_get 0 (get_positions ex_broker ''demo'') ''A'') (ei_legs ex_pair) = 10"
    by (simp add: eval_rules leg_position_def)
  have "length (ei_legs ex_pair) = 2" "ei_account ex_pair = ''demo''" by (simp_all add: ex_pair_def ex_intent_def)
  with submit_fills_every_leg [OF s ex_all_paper(1), of "''A''"] have "length ords = 2"
    and "\<And>v br. paper_at ex_adapters v = Some br \<Longrightarrow> \<exists>br'. paper_at ads' v = Some br' \<and>
      dict_get 0 (get_positions br' ''demo'') ''A'' =
        foldl (leg_position v ''A'') (dict_get 0 (get_positions br ''demo'') ''A'') (ei_legs ex_pair)"
    by simp_all
  from this(2) [OF k, unfolded p] this(1) s show ?thesis by blast
qed

lemma apply_fill_ok:
  assumes "preview_fill br lk (il_outcome l) (il_is_buy l) (il_qty l) (il_limit l) = Inr (px, cost)"
    and "il_is_buy l \<longrightarrow> cost \<le> cash br a"
  shows "\<exists>br' ord f. apply_fill br lk i a t l = (br', ord, Some f, None) \<and> ord_status ord = FILLED"
  using assms by (simp add: apply_fill_def Let_def mk_order_def not_less)

lemma preview_leg_None:
  assumes "preview_leg ads lk a l = None" "paper_at ads (il_venue l) = Some br" "br_venue br = il_venue l"
  obtains px cost where
    "preview_fill br lk (il_outcome l) (il_is_buy l) (il_qty l) (il_limit l) = Inr (px, cost)"
    "il_is_buy l \<longrightarrow> cost \<le> cash br a"
  using assms paper_atD [OF assms(2)]
  by (auto simp: preview_leg_def get_balances_def cash_def venue_cash_def not_less split: sum.splits if_splits)

lemma preview_all_Nil: "preview_all ads lk intent = [] \<longleftrightarrow>
    (\<forall>l \<in> set (ei_legs intent). preview_leg ads lk (ei_account intent) l = None)"
  by (auto simp: preview_all_def List.map_filter_def filter_empty_conv)

lemma preview_leg_other:
  "il_venue l \<noteq> v \<Longrightarrow> preview_leg (dict_set v ad ads) lk a l = preview_leg ads lk a l"
  by (simp add: preview_leg_def)

lemma apply_legs_distinct:
  assumes "\<forall>l \<in> set ls. preview_leg ads lk a l = None \<and> (\<exists>br. paper_at ads (il_venue l) = Some br \<and> br_venue br = il_venue l)"
    and "distinct (map il_venue ls)"
  shows "\<exists>ads' done'. apply_legs lk uid a t k ls ads done_legs = (ads', done', None)"
  using assms
proof (induction ls arbitrary: k ads done_legs)
  case (Cons l ls)
  from Cons.prems(1) obtain br where br: "paper_at ads (il_venue l) = Some br" "br_venue br = il_venue l"
    and p: "preview_leg ads lk a l = None" by auto
  from preview_leg_None [OF p br] obtain px cost where
    "preview_fill br lk (il_outcome l) (il_is_buy l) (il_qty l) (il_limit l) = Inr (px, cost)"
    "il_is_buy l \<longrightarrow> cost \<le> cash br a" .
  from apply_fill_ok [OF this, of "uid k" t] obtain br' ord f where
    f: "apply_fill br lk (uid k) a t l = (br', ord, Some f, None)" "ord_status ord = FILLED" by blast
  let ?ads = "dict_set (il_venue l) (Paper br') ads"
  have "\<forall>l' \<in> set ls. il_venue l' \<noteq> il_venue l" using Cons.prems(2) by (auto simp: image_iff)
  then have "\<forall>l' \<in> set ls. preview_leg ?ads lk a l' = None \<and>
      (\<exists>br. paper_at ?ads (il_venue l') = Some br \<and> br_venue br = il_venue l')"
    using Cons.prems(1) by (simp add: preview_leg_other)
  from Cons.IH [OF this, of "Suc k" "done_legs @ [(il_venue l, ord, Some f)]"] Cons.prems(2) br f show ?case by simp
qed simp

text \<open>
  The usual arbitrage ticket, one leg per venue, cannot fail between preview and commit: when every
  leg previews clean, the ticket is submitted, and nothing is raised.
\<close>

theorem submit_one_leg_per_venue_commits:
  assumes "preview_all ads lk intent = []" "distinct (map il_venue (ei_legs intent))" "all_paper ads intent"
    and "\<forall>v br. paper_at ads v = Some br \<longrightarrow> br_venue br = v"
  shows "\<exists>ads' ords. submit live lk uid ads intent = (ads', Submitted ords)"
proof -
  have "\<forall>l \<in> set (ei_legs intent). preview_leg ads lk (ei_account intent) l = None \<and>
      (\<exists>br. paper_at ads (il_venue l) = Some br \<and> br_venue br = il_venue l)"
    using assms by (auto simp: preview_all_Nil all_paper_def list_all_iff)
  from apply_legs_distinct [OF this assms(2), of uid "ei_ticket intent" 0 "[]"]
  obtain ads1 applied where
    "apply_legs lk uid (ei_account intent) (ei_ticket intent) 0 (ei_legs intent) ads [] = (ads1, applied, None)" by blast
  then have "\<exists>ads' ords. commit_atomically lk uid intent ads = (ads', Submitted ords)"
    by (cases rule: commit_cases [of lk uid intent ads]) auto
  with assms show ?thesis by (simp add: submit_all_paper)
qed

theorem submit_one_leg_per_venue_commits_witness:
  "\<exists>ads' ords. submit ex_live ex_lk ex_uid ex_adapters ex_pair = (ads', Submitted ords)"
proof (rule submit_one_leg_per_venue_commits)
  show "preview_all ex_adapters ex_lk ex_pair = []" by (simp add: eval_rules)
  show "distinct (map il_venue (ei_legs ex_pair))" by (simp add: eval_rules)
  show "\<forall>v br. paper_at ex_adapters v = Some br \<longrightarrow> br_venue br = v"
    by (auto simp: ex_adapters_def paper_at_def ex_broker_def ex_pm_def deposit_def new_broker_def split: if_splits)
qed (rule ex_all_paper)

text \<open>
  The rollback is not complete: when two buy legs share a venue, each affordable alone and not
  together, the ticket is refused but the first leg's fee stays in the account's carried fees, where
  it will be charged to the next position of that outcome.
\<close>

theorem rollback_keeps_fees:
  assumes "submit live lk uid ads intent = (ads', Refused e)" "preview_all ads lk intent = []"
    and legs: "ei_legs intent = [l0, l1]" "il_venue l0 = v" "il_venue l1 = v" "il_is_buy l0"
    and br: "paper_at ads v = Some br" "br_venue br = v"
  shows "\<exists>br' px cost. paper_at ads' v = Some br' \<and>
    preview_fill br lk (il_outcome l0) True (il_qty l0) (il_limit l0) = Inr (px, cost) \<and>
    dict_get 0 (ac_open_fees (acct br' (ei_account intent))) (il_outcome l0) =
      dadd (dict_get 0 (ac_open_fees (acct br (ei_account intent))) (il_outcome l0))
        (fee (br_fee br) px (il_qty l0) True)"
proof -
  let ?a = "ei_account intent"
  have p: "preview_leg ads lk ?a l0 = None" using assms(2) legs by (simp add: preview_all_Nil)
  have "all_paper ads intent" using legs br by (simp add: all_paper_def)
  with assms(1,2) have c: "commit_atomically lk uid intent ads = (ads', Refused e)" by (simp add: submit_all_paper)
  obtain px cost where px: "preview_fill br lk (il_outcome l0) (il_is_buy l0) (il_qty l0) (il_limit l0) = Inr (px, cost)"
      "il_is_buy l0 \<longrightarrow> cost \<le> cash br ?a"
    using preview_leg_None [OF p] br legs by metis
  obtain b0 o0 f0 where f0: "apply_fill br lk (uid 0) ?a (ei_ticket intent) l0 = (b0, o0, Some f0, None)" "ord_status o0 = FILLED"
    using apply_fill_ok [OF px] by blast
  obtain b1 o1 fl1 r1 where f1: "apply_fill b0 lk (uid 1) ?a (ei_ticket intent) l1 = (b1, o1, fl1, r1)"
    by (cases "apply_fill b0 lk (uid 1) ?a (ei_ticket intent) l1")
  show ?thesis
  proof (cases rule: commit_cases [of lk uid intent ads])
    case (failed ads1 applied m)
    from failed(1) f0 f1 legs br have r: "ord_status o1 \<noteq> FILLED" and ads1: "paper_at ads1 v = Some (forget_order b1 (ord_id o1))"
      by (auto split: if_splits)
    then have "fl1 = None" using apply_fill_keeps(9) [OF f1] by auto
    with f1 have b1: "br_accounts b1 = br_accounts b0" using apply_fill_rejection by blast
    have fee: "dict_get 0 (ac_open_fees (acct b0 ?a)) (il_outcome l0) =
        dadd (dict_get 0 (ac_open_fees (acct br ?a)) (il_outcome l0)) (fee (br_fee br) px (il_qty l0) True)"
      using f0(1) px(1) legs(4)
      by (elim apply_fill_filled) (auto simp: fill_account_def Let_def)
    from failed(2) c have ads': "ads' = forget_all applied (restore_all ?a (take_snapshots ads intent) ads1)" by simp
    have rest: "ac_open_fees (acct (restore_account b ?a s) ?a) = ac_open_fees (acct b ?a)" for b s
      by (cases s) simp
    have "\<exists>br'. paper_at ads' v = Some br' \<and> ac_open_fees (acct br' ?a) = ac_open_fees (acct b0 ?a)"
      using ads1 rest b1 foldl_forget(1)
      by (auto simp: ads' paper_at_forget_all paper_at_restore_all [OF take_snapshots_ok] acct_def split: option.split)
    with fee px legs show ?thesis by auto
  qed (use c in simp)
qed

theorem rollback_keeps_fees_witness:
  "\<exists>ads' e br'. submit ex_live ex_lk ex_uid ex_adapters ex_crowded = (ads', Refused e) \<and>
    paper_at ads' ''kalshi'' = Some br' \<and> dict_get 0 (ac_open_fees (acct ex_broker ''demo'')) ''A'' = 0 \<and>
    dict_get 0 (ac_open_fees (acct br' ''demo'')) ''A'' = 294 / 25"
proof -
  obtain ads' e where s: "submit ex_live ex_lk ex_uid ex_adapters ex_crowded = (ads', Refused e)"
    using ex_crowded_refused by blast
  have e: "preview_all ex_adapters ex_lk ex_crowded = []" "paper_at ex_adapters ''kalshi'' = Some ex_broker"
      "br_venue ex_broker = ''kalshi''" "dict_get 0 (ac_open_fees (acct ex_broker ''demo'')) ''A'' = 0"
      "preview_fill ex_broker ex_lk ''A'' True 700 1 = Inr (2 / 5, dadd 280 (294 / 25))"
      "fee (br_fee ex_broker) (2 / 5) 700 True = 294 / 25" "dadd 0 (294 / 25) = 294 / 25"
    by (simp_all add: eval_rules)
  have l: "ei_legs ex_crowded = [ex_buy_leg ''kalshi'' ''A'' 700, ex_buy_leg ''kalshi'' ''B'' 800]"
      "ei_account ex_crowded = ''demo''"
    by (simp_all add: ex_crowded_def ex_intent_def)
  from rollback_keeps_fees [OF s e(1) l(1) _ _ _ e(2,3)] obtain br' px cost where
    b: "paper_at ads' ''kalshi'' = Some br'" "preview_fill ex_broker ex_lk ''A'' True 700 1 = Inr (px, cost)"
      "dict_get 0 (ac_open_fees (acct br' ''demo'')) ''A'' = dadd 0 (fee (br_fee ex_broker) px 700 True)"
    by (auto simp: ex_buy_leg_def e(4) l(2))
  from b(2) e(5) have "px = 2 / 5" by simp
  with b(3) have "dict_get 0 (ac_open_fees (acct br' ''demo'')) ''A'' = 294 / 25" by (simp only: e(6,7))
  with s b(1) e(4) show ?thesis by blast
qed

end
