(* ===== verification/Engine_Runtime.thy ===== *)
theory Engine_Runtime
  imports Arb_Engine Execution_Router
begin

section \<open>The engine runtime, the ingest worker and the backtest\<close>

text \<open>
  \<open>arbys/ingest/engine_runtime.py\<close>: the registered groups, the index from an outcome to the groups
  that have a leg on it, and the evaluation of the affected groups on a quote. The callbacks are a log
  of the calls made on them, in order; an exception of a detector stops the loop after the calls
  already made. A set of group ids is kept as a list without duplicates: the order in which
  \<open>on_quote\<close> visits a set is not specified, and nothing proved here depends on it.
  \<open>arbys/ingest/worker.py\<close>: one streamed quote (the stream itself is the caller's argument).
  \<open>arbys/backtest/__init__.py\<close>: the deterministic replay over the same parts.
\<close>

record engine =
  en_fees :: fee_registry
  en_max_ticket_stake :: "rat option"
  en_min_qty :: rat
  en_cross_venue_only :: bool
  en_groups :: "(string, event_group) dict"
  en_index :: "(string, string list) dict"

datatype engine_event = FoundOpp arb_opportunity | FoundSet string "arb_opportunity list"

definition ENGINE_DEFAULT_MAX_TICKET_STAKE :: "rat option" where
  "ENGINE_DEFAULT_MAX_TICKET_STAKE = Some 200"

definition new_engine :: "fee_registry \<Rightarrow> rat option \<Rightarrow> rat \<Rightarrow> bool \<Rightarrow> engine" where
  "new_engine fees stake mq cross_only = \<lparr>en_fees = fees, en_max_ticket_stake = stake, en_min_qty = mq,
     en_cross_venue_only = cross_only, en_groups = [], en_index = []\<rparr>"

definition index_add :: "string \<Rightarrow> string \<Rightarrow> (string, string list) dict \<Rightarrow> (string, string list) dict" where
  "index_add gid oid idx = dict_set oid (List.insert gid (dict_get [] idx oid)) idx"

definition index_discard :: "string \<Rightarrow> string \<Rightarrow> (string, string list) dict \<Rightarrow> (string, string list) dict" where
  "index_discard gid oid idx = dict_set oid (removeAll gid (dict_get [] idx oid)) idx"

definition register_group :: "event_group \<Rightarrow> engine \<Rightarrow> engine" where
  "register_group g en = en\<lparr>en_groups := dict_set (g_id g) g (en_groups en),
     en_index := fold (\<lambda>l. index_add (g_id g) (leg_outcome l)) (g_legs g) (en_index en)\<rparr>"

definition unregister_group :: "string \<Rightarrow> engine \<Rightarrow> engine" where
  "unregister_group gid en = (case map_of (en_groups en) gid of None \<Rightarrow> en | Some g \<Rightarrow>
     en\<lparr>en_groups := dict_pop gid (en_groups en),
        en_index := fold (\<lambda>l. index_discard gid (leg_outcome l)) (g_legs g) (en_index en)\<rparr>)"

definition engine_params :: "engine \<Rightarrow> sizing_params" where
  "engine_params en = \<lparr>max_ticket_stake = en_max_ticket_stake en, min_qty = en_min_qty en, tick_by_venue = []\<rparr>"

definition live_quotes :: "(string \<Rightarrow> quote option) \<Rightarrow> event_group \<Rightarrow> (string, quote) dict" where
  "live_quotes lk g =
     List.map_filter (\<lambda>oid. map_option (Pair oid) (lk oid)) (map leg_outcome (g_legs g))"

definition legs_by_venue :: "event_group \<Rightarrow> (string, event_group_leg list) dict" where
  "legs_by_venue g = fold (\<lambda>l d. dict_set (leg_venue l) (dict_get [] d (leg_venue l) @ [l]) d) (g_legs g) []"

fun complementary_opps ::
  "string \<Rightarrow> (string, quote) dict \<Rightarrow> engine \<Rightarrow> (string \<times> event_group_leg list) list \<Rightarrow> arb_opportunity list res" where
  "complementary_opps gid quotes en [] = Inr []"
| "complementary_opps gid quotes en ((v, legs) # rest) =
     (if length legs < 2 then complementary_opps gid quotes en rest
      else bindE (detect_complementary_set (gid @ '':'' @ v) legs quotes (en_fees en) (engine_params en)) (\<lambda>c.
           bindE (complementary_opps gid quotes en rest) (\<lambda>others.
           Inr (case c of None \<Rightarrow> others | Some opp \<Rightarrow> opp # others))))"

definition evaluate_now :: "(string \<Rightarrow> quote option) \<Rightarrow> engine \<Rightarrow> string \<Rightarrow> arb_opportunity list res" where
  "evaluate_now lk en gid = (case map_of (en_groups en) gid of None \<Rightarrow> Inr [] | Some g \<Rightarrow>
     let quotes = live_quotes lk g in
     bindE (detect_cross_venue_two_leg g quotes (en_fees en) (engine_params en)) (\<lambda>cross.
       let found = (case cross of None \<Rightarrow> [] | Some opp \<Rightarrow> [opp])
       in if en_cross_venue_only en then Inr found
          else bindE (complementary_opps gid quotes en (legs_by_venue g)) (\<lambda>others. Inr (found @ others))))"

text \<open>\<open>_evaluate\<close>: the calls on the two callbacks; the second one is optional.\<close>

definition evaluate_events :: "bool \<Rightarrow> (string \<Rightarrow> quote option) \<Rightarrow> engine \<Rightarrow> string \<Rightarrow> engine_event list res" where
  "evaluate_events has_set_handler lk en gid = bindE (evaluate_now lk en gid) (\<lambda>found.
     Inr (map FoundOpp found @ (if has_set_handler then [FoundSet gid found] else [])))"

fun evaluate_all ::
  "bool \<Rightarrow> (string \<Rightarrow> quote option) \<Rightarrow> engine \<Rightarrow> string list \<Rightarrow> engine_event list \<times> py_exc option" where
  "evaluate_all h lk en [] = ([], None)"
| "evaluate_all h lk en (gid # gids) =
     (case evaluate_events h lk en gid of
        Inl e \<Rightarrow> ([], Some e)
      | Inr evs \<Rightarrow> (case evaluate_all h lk en gids of (others, r) \<Rightarrow> (evs @ others, r)))"

definition affected :: "engine \<Rightarrow> string \<Rightarrow> string list" where
  "affected en oid = dict_get [] (en_index en) oid"

definition engine_on_quote ::
  "bool \<Rightarrow> (string \<Rightarrow> quote option) \<Rightarrow> engine \<Rightarrow> quote \<Rightarrow> engine_event list \<times> py_exc option" where
  "engine_on_quote h lk en q = evaluate_all h lk en (affected en (q_outcome_id q))"

subsection \<open>The ingest worker\<close>

text \<open>One quote of a stream: stored first, then evaluated; an exception of the handler is logged only.\<close>

definition pump_quote ::
  "bool \<Rightarrow> engine \<Rightarrow> quotebook \<times> engine_event list \<Rightarrow> rat \<times> quote \<Rightarrow> quotebook \<times> engine_event list" where
  "pump_quote h en st nq = (case (st, nq) of ((b, calls), (now, q)) \<Rightarrow>
     let b' = qb_upsert b now q in (b', calls @ fst (engine_on_quote h (qb_get b' now) en q)))"

definition pump :: "bool \<Rightarrow> engine \<Rightarrow> quotebook \<Rightarrow> (rat \<times> quote) list \<Rightarrow> quotebook \<times> engine_event list" where
  "pump h en b stream = foldl (pump_quote h en) (b, []) stream"

subsection \<open>The backtest\<close>

record backtest_result =
  bt_opportunities :: "arb_opportunity list"
  bt_orders :: "string list"
  bt_rejections :: "string list"

record backtest =
  bt_book :: quotebook
  bt_adapters :: "unit adapters"
  bt_submissions :: nat
  bt_result :: backtest_result

definition backtest_intent :: "string \<Rightarrow> arb_opportunity \<Rightarrow> execution_intent" where
  "backtest_intent account opp = \<lparr>ei_group = opp_group opp, ei_account = account,
     ei_legs = map (\<lambda>a. \<lparr>il_venue = al_venue a, il_outcome = al_outcome a, il_is_buy = al_is_buy a,
       il_qty = al_qty a, il_limit = al_price a\<rparr>) (opp_legs opp),
     ei_ticket = None\<rparr>"

definition backtest_brokers :: "fee_registry \<Rightarrow> (string, rat) dict \<Rightarrow> string \<Rightarrow> unit adapters" where
  "backtest_brokers fees balances account = fold (\<lambda>(v, m) d.
     let br = new_broker v m 0 None in
     dict_set v (Paper (case map_of balances v of None \<Rightarrow> br | Some x \<Rightarrow> deposit br account x)) d) fees []"

definition no_live :: "unit live_venue" where
  "no_live s a t l = (s, Inl KeyError)"

text \<open>\<open>uid n k\<close> is the id of the k-th order of the n-th submission. Refused tickets are recorded, any
  other exception ends the run.\<close>

fun backtest_submit ::
  "(nat \<Rightarrow> nat \<Rightarrow> string) \<Rightarrow> (string \<Rightarrow> quote option) \<Rightarrow> string \<Rightarrow> arb_opportunity list \<Rightarrow> backtest \<Rightarrow> backtest res" where
  "backtest_submit uid lk account [] bt = Inr bt"
| "backtest_submit uid lk account (opp # opps) bt =
     (case submit no_live lk (uid (bt_submissions bt)) (bt_adapters bt) (backtest_intent account opp) of (ads, r) \<Rightarrow>
        let bt' = bt\<lparr>bt_adapters := ads, bt_submissions := Suc (bt_submissions bt)\<rparr>; res = bt_result bt
        in case r of
             Submitted orders \<Rightarrow> backtest_submit uid lk account opps
               (bt'\<lparr>bt_result := res\<lparr>bt_orders := bt_orders res @ map ord_id orders\<rparr>\<rparr>)
           | Refused e \<Rightarrow> backtest_submit uid lk account opps
               (bt'\<lparr>bt_result := res\<lparr>bt_rejections := bt_rejections res @ [ie_message e]\<rparr>\<rparr>)
           | Raised e \<Rightarrow> Inl e)"

definition event_opps :: "engine_event list \<Rightarrow> arb_opportunity list" where
  "event_opps evs = List.map_filter (\<lambda>e. case e of FoundOpp opp \<Rightarrow> Some opp | FoundSet _ _ \<Rightarrow> None) evs"

definition backtest_quote ::
  "(nat \<Rightarrow> nat \<Rightarrow> string) \<Rightarrow> bool \<Rightarrow> string \<Rightarrow> engine \<Rightarrow> rat \<times> quote \<Rightarrow> backtest \<Rightarrow> backtest res" where
  "backtest_quote uid execute account en nq bt = (case nq of (now, q) \<Rightarrow>
     let b = qb_upsert (bt_book bt) now q; lk = qb_get b now; res = bt_result bt
     in case engine_on_quote False lk en q of
          (evs, Some e) \<Rightarrow> Inl e
        | (evs, None) \<Rightarrow>
            let new = event_opps evs;
                bt' = bt\<lparr>bt_book := b, bt_result := res\<lparr>bt_opportunities := bt_opportunities res @ new\<rparr>\<rparr>
            in if execute then backtest_submit uid lk account new bt' else Inr bt')"

definition run_backtest ::
  "(nat \<Rightarrow> nat \<Rightarrow> string) \<Rightarrow> (rat \<times> quote) list \<Rightarrow> event_group list \<Rightarrow> fee_registry \<Rightarrow> (string, rat) dict \<Rightarrow> bool
    \<Rightarrow> string \<Rightarrow> rat option \<Rightarrow> backtest_result res" where
  "run_backtest uid quotes groups fees balances execute account stake =
     (let en = fold register_group groups (new_engine fees stake 0 True);
          bt = \<lparr>bt_book = empty_book None,
                bt_adapters = (if execute then backtest_brokers fees balances account else []),
                bt_submissions = 0,
                bt_result = \<lparr>bt_opportunities = [], bt_orders = [], bt_rejections = []\<rparr>\<rparr>
      in bindE (foldE (backtest_quote uid execute account en) quotes bt) (\<lambda>bt. Inr (bt_result bt)))"

declare new_engine_def [eval_rules] index_add_def [eval_rules] index_discard_def [eval_rules]
  register_group_def [eval_rules] unregister_group_def [eval_rules] engine_params_def [eval_rules]
  live_quotes_def [eval_rules] legs_by_venue_def [eval_rules] evaluate_now_def [eval_rules]
  evaluate_events_def [eval_rules] affected_def [eval_rules] engine_on_quote_def [eval_rules]
  pump_quote_def [eval_rules] pump_def [eval_rules] backtest_intent_def [eval_rules]
  backtest_brokers_def [eval_rules] event_opps_def [eval_rules] backtest_quote_def [eval_rules]
  run_backtest_def [eval_rules] ENGINE_DEFAULT_MAX_TICKET_STAKE_def [eval_rules]

subsection \<open>The detector contract\<close>

text \<open>
  What the engine relies on of a detector: an opportunity buys every leg at the ask of a quote it was
  given, all in one quantity, and stakes less than that quantity.
\<close>

locale detector =
  fixes detect :: "(string, quote) dict \<Rightarrow> arb_opportunity option res"
  assumes priced: "detect quotes = Inr (Some opp) \<Longrightarrow> a \<in> set (opp_legs opp) \<Longrightarrow>
      al_is_buy a \<and> (\<exists>q. map_of quotes (al_outcome a) = Some q \<and> al_price a = ask q)"
    and hedged: "detect quotes = Inr (Some opp) \<Longrightarrow>
      \<exists>qty. 0 < qty \<and> (\<forall>a \<in> set (opp_legs opp). al_qty a = qty) \<and> total_stake opp < qty"
begin

lemma locked_profit:
  assumes "detect quotes = Inr (Some opp)" "(\<Sum>a \<leftarrow> opp_legs opp. v (al_outcome a)) = 1"
  shows "total_stake opp < opp_payout v opp"
proof -
  from hedged [OF assms(1)] obtain qty where q: "\<forall>a \<in> set (opp_legs opp). al_qty a = qty" "total_stake opp < qty"
    by blast
  have "opp_payout v opp = (\<Sum>a \<leftarrow> opp_legs opp. v (al_outcome a) * qty)"
    unfolding opp_payout_def using q(1) by (intro arg_cong [of _ _ sum_list] map_cong) auto
  also have "\<dots> = (\<Sum>a \<leftarrow> opp_legs opp. v (al_outcome a)) * qty" by (rule sum_list_mult_const)
  finally show ?thesis using q(2) assms(2) by simp
qed

lemma fair_prices:
  assumes "detect quotes = Inr (Some opp)" "a \<in> set (opp_legs opp)" "\<And>oid q. map_of quotes oid = Some q \<Longrightarrow> quote_ok q"
  shows "0 \<le> al_price a \<and> al_price a \<le> 1"
  using priced [OF assms(1,2)] assms(3) by (auto simp: quote_ok_iff) (meson order.trans)+

end

interpretation cross: detector "\<lambda>quotes. detect_cross_venue_two_leg g quotes fees ps" for g fees ps
proof
  fix quotes opp a
  assume "detect_cross_venue_two_leg g quotes fees ps = Inr (Some opp)"
  then show "\<exists>qty. 0 < qty \<and> (\<forall>a \<in> set (opp_legs opp). al_qty a = qty) \<and> total_stake opp < qty"
    by (rule detect_cross_shape) (auto simp: buy_leg_def)
next
  fix quotes opp a
  assume "detect_cross_venue_two_leg g quotes fees ps = Inr (Some opp)" "a \<in> set (opp_legs opp)"
  then show "al_is_buy a \<and> (\<exists>q. map_of quotes (al_outcome a) = Some q \<and> al_price a = ask q)"
    by (elim detect_cross_shape) (auto simp: buy_leg_def)
qed

lemma resolve_legs_quotes:
  "resolve_legs quotes fees ls = Some rs \<Longrightarrow> (l, q, m) \<in> set rs \<Longrightarrow> map_of quotes (leg_outcome l) = Some q"
  by (induction ls arbitrary: rs) (auto split: option.splits)

interpretation comp: detector "\<lambda>quotes. detect_complementary_set gid legs quotes fees ps" for gid legs fees ps
proof
  fix quotes opp
  assume "detect_complementary_set gid legs quotes fees ps = Inr (Some opp)"
  then show "\<exists>qty. 0 < qty \<and> (\<forall>a \<in> set (opp_legs opp). al_qty a = qty) \<and> total_stake opp < qty"
    by (rule detect_complementary_Some) (auto simp: resolved_leg_def buy_leg_def split: prod.splits)
next
  fix quotes opp a
  assume "detect_complementary_set gid legs quotes fees ps = Inr (Some opp)" "a \<in> set (opp_legs opp)"
  then show "al_is_buy a \<and> (\<exists>q. map_of quotes (al_outcome a) = Some q \<and> al_price a = ask q)"
    by (elim detect_complementary_Some)
      (auto simp: resolved_leg_def buy_leg_def split: prod.splits dest: resolve_legs_quotes)
qed

subsection \<open>What an evaluation publishes\<close>

lemma live_quotes_lookup: "map_of (live_quotes lk g) oid = Some q \<Longrightarrow> lk oid = Some q"
  by (auto simp: live_quotes_def List.map_filter_def dest!: map_of_SomeD)

lemma complementary_opps_source:
  assumes "complementary_opps gid quotes en vls = Inr opps" "opp \<in> set opps"
  shows "\<exists>v legs. detect_complementary_set (gid @ '':'' @ v) legs quotes (en_fees en) (engine_params en) = Inr (Some opp)"
  using assms
proof (induction vls arbitrary: opps)
  case (Cons p vls)
  obtain v legs where p: "p = (v, legs)" by (cases p)
  show ?case
  proof (cases "length legs < 2")
    case True
    with Cons p show ?thesis by simp
  next
    case False
    with Cons.prems(1) p obtain c others where c:
      "detect_complementary_set (gid @ '':'' @ v) legs quotes (en_fees en) (engine_params en) = Inr c"
      "complementary_opps gid quotes en vls = Inr others" "opps = (case c of None \<Rightarrow> others | Some opp \<Rightarrow> opp # others)"
      by (auto simp: res_simps)
    show ?thesis
    proof (cases "c = Some opp")
      case True
      with c(1) show ?thesis by blast
    next
      case False
      with c(3) Cons.prems(2) have "opp \<in> set others" by (auto split: option.splits)
      with c(2) show ?thesis by (rule Cons.IH)
    qed
  qed
qed simp

lemma evaluate_now_source:
  assumes "evaluate_now lk en gid = Inr found" "opp \<in> set found"
  shows "\<exists>g. map_of (en_groups en) gid = Some g \<and>
    (detect_cross_venue_two_leg g (live_quotes lk g) (en_fees en) (engine_params en) = Inr (Some opp) \<and>
       (en_cross_venue_only en \<longrightarrow> found = [opp]) \<or>
     \<not> en_cross_venue_only en \<and> (\<exists>v legs.
       detect_complementary_set (gid @ '':'' @ v) legs (live_quotes lk g) (en_fees en) (engine_params en) = Inr (Some opp)))"
proof -
  from assms obtain g c others where g: "map_of (en_groups en) gid = Some g"
      "detect_cross_venue_two_leg g (live_quotes lk g) (en_fees en) (engine_params en) = Inr c"
    and f: "found = (case c of None \<Rightarrow> [] | Some opp \<Rightarrow> [opp]) @ others"
    and o: "if en_cross_venue_only en then others = []
       else complementary_opps gid (live_quotes lk g) en (legs_by_venue g) = Inr others"
    by (auto simp: evaluate_now_def Let_def res_simps split: option.splits if_splits)
  show ?thesis
  proof (cases "c = Some opp")
    case True
    with g f o show ?thesis by (auto split: if_splits)
  next
    case False
    with f assms(2) have "opp \<in> set others" by (auto split: option.splits)
    with o have "\<not> en_cross_venue_only en" "complementary_opps gid (live_quotes lk g) en (legs_by_venue g) = Inr others"
      by (auto split: if_splits)
    with complementary_opps_source [OF this(2) \<open>opp \<in> set others\<close>] g(1) show ?thesis by blast
  qed
qed

lemma evaluate_now_locked:
  assumes "evaluate_now lk en gid = Inr found" "opp \<in> set found"
  shows "((\<Sum>a \<leftarrow> opp_legs opp. v (al_outcome a)) = 1 \<longrightarrow> total_stake opp < opp_payout v opp) \<and>
    (\<forall>a \<in> set (opp_legs opp). al_is_buy a \<and> (\<exists>q. lk (al_outcome a) = Some q \<and> al_price a = ask q))"
proof -
  have lift: "?thesis" if d: "detect (live_quotes lk g) = Inr (Some opp)" and l: "detector detect" for detect g
    using detector.locked_profit [OF l d, of v] detector.priced [OF l d] live_quotes_lookup [of lk g] by blast
  from evaluate_now_source [OF assms] show ?thesis
    using lift [OF _ cross.detector_axioms] lift [OF _ comp.detector_axioms] by blast
qed


definition ex_engine :: engine where
  "ex_engine = register_group ex_group (new_engine ex_fees (Some 200) 0 True)"

definition ex_live_lk :: "string \<Rightarrow> quote option" where
  "ex_live_lk oid = map_of (ex_quotes (2 / 5) (1 / 2)) oid"

declare ex_engine_def [eval_rules] ex_live_lk_def [eval_rules]

lemma ex_evaluate: "evaluate_now ex_live_lk ex_engine ''g'' = Inr [ex_opp]"
  by (simp add: eval_rules ex_opp_def)


subsection \<open>The index\<close>

inductive engine_step :: "engine \<Rightarrow> engine \<Rightarrow> bool" where
  register: "engine_step en (register_group g en)"
| unregister: "engine_step en (unregister_group gid en)"

inductive_cases engine_stepE: "engine_step en en'"

definition index_complete :: "engine \<Rightarrow> bool" where
  "index_complete en \<longleftrightarrow> (\<forall>(gid, g) \<in> set (en_groups en). \<forall>l \<in> set (g_legs g). gid \<in> set (affected en (leg_outcome l)))"

lemma fold_index_add:
  "set (dict_get [] (fold (\<lambda>l. index_add gid (leg_outcome l)) ls idx) oid) =
     (if oid \<in> leg_outcome ` set ls then insert gid (set (dict_get [] idx oid)) else set (dict_get [] idx oid))"
  by (induction ls arbitrary: idx) (auto simp: index_add_def)

lemma fold_index_discard:
  "set (dict_get [] (fold (\<lambda>l. index_discard gid (leg_outcome l)) ls idx) oid) =
     (if oid \<in> leg_outcome ` set ls then set (dict_get [] idx oid) - {gid} else set (dict_get [] idx oid))"
  by (induction ls arbitrary: idx) (auto simp: index_discard_def)

lemma set_dict_pop: "set (dict_pop k d) = {kv \<in> set d. fst kv \<noteq> k}"
  by (auto simp: AList.delete_eq)

lemma engine_step_complete: "engine_step en en' \<Longrightarrow> index_complete en \<Longrightarrow> index_complete en'"
proof (induction rule: engine_step.induct)
  case (register en g)
  then show ?case
    by (fastforce simp: index_complete_def register_group_def affected_def fold_index_add dest!: in_set_dict_set)
next
  case (unregister en gid)
  then show ?case
    by (fastforce simp: index_complete_def unregister_group_def affected_def fold_index_discard set_dict_pop
        split: option.splits)
qed

lemma evaluate_all_reports:
  "evaluate_all True lk en gids = (evs, None) \<Longrightarrow> gid \<in> set gids \<Longrightarrow>
     \<exists>found. evaluate_now lk en gid = Inr found \<and> FoundSet gid found \<in> set evs"
  by (induction gids arbitrary: evs) (auto simp: evaluate_events_def res_simps split: sum.splits prod.splits)

text \<open>
  No group is missed: whatever groups were registered and dropped before, a quote for an outcome
  of a registered group makes the engine report that group's complete current opportunity set, the
  empty set included, unless a detector raised.
\<close>

theorem engine_reports_affected_groups:
  assumes "engine_step\<^sup>*\<^sup>* (new_engine fees stake mq cross_only) en"
    and "map_of (en_groups en) gid = Some g" "l \<in> set (g_legs g)" "q_outcome_id q = leg_outcome l"
    and "engine_on_quote True lk en q = (evs, None)"
  shows "\<exists>found. evaluate_now lk en gid = Inr found \<and> FoundSet gid found \<in> set evs"
proof -
  have "index_complete en" using assms(1)
  proof (induction rule: rtranclp_induct)
    case base
    show ?case by (simp add: index_complete_def new_engine_def)
  qed (rule engine_step_complete)
  with assms(2-4) have "gid \<in> set (affected en (q_outcome_id q))"
    by (auto simp: index_complete_def dest!: map_of_SomeD)
  with assms(5) show ?thesis unfolding engine_on_quote_def by (rule_tac evaluate_all_reports)
qed

theorem engine_reports_affected_groups_witness:
  "\<exists>evs found. engine_on_quote True ex_live_lk ex_engine (ex_quote ''KY'' (2 / 5) (2 / 5) (Some 25)) = (evs, None) \<and>
    evaluate_now ex_live_lk ex_engine ''g'' = Inr found \<and> FoundSet ''g'' found \<in> set evs"
proof -
  let ?q = "ex_quote ''KY'' (2 / 5) (2 / 5) (Some 25)"
  have step: "engine_step\<^sup>*\<^sup>* (new_engine ex_fees (Some 200) 0 True) ex_engine"
    unfolding ex_engine_def by (rule r_into_rtranclp) (rule engine_step.register)
  have a: "affected ex_engine (q_outcome_id ?q) = [''g'']" by (simp add: eval_rules)
  then have q: "engine_on_quote True ex_live_lk ex_engine ?q = ([FoundOpp ex_opp, FoundSet ''g'' [ex_opp]], None)"
    by (simp add: engine_on_quote_def evaluate_events_def ex_evaluate)
  have g: "map_of (en_groups ex_engine) ''g'' = Some ex_group" by (simp add: eval_rules)
  have l: "ex_leg ''KY'' ''kalshi'' True \<in> set (g_legs ex_group)"
    "q_outcome_id ?q = leg_outcome (ex_leg ''KY'' ''kalshi'' True)" by (simp_all add: eval_rules)
  from engine_reports_affected_groups [OF step g l q] q show ?thesis by blast
qed

end
