(* ===== verification/Cash.thy ===== *)
theory Cash
  imports Qty Paper_Broker
begin

section \<open>Levelling cash, and equity\<close>

text \<open>
  \<open>arbys/shared/cash.py\<close> (the plan and its application), \<open>arbys/ingest/cash_sweep_service.py\<close> (the periodic
  sweep over accounts, with what it writes as the log \<open>sw_writes\<close>), \<open>arbys/shared/equity.py\<close> and the
  snapshots of \<open>arbys/ingest/pnl_service.py\<close>. The brokers of a venue map are kept by venue id. The
  \<open>while\<close> loop of the plan is the function \<open>drain\<close>, which always terminates. The set of touched venues
  is written in the order of the broker map; the rows have distinct keys, so the order is immaterial.
\<close>

record cash_transfer =
  from_venue :: string
  to_venue :: string
  tr_amount :: rat

definition CENT :: rat where
  "CENT = 1 / 100"

definition floor_cent :: "rat \<Rightarrow> rat res" where
  "floor_cent amount = dquantize_down 2 amount"

subsection \<open>The plan\<close>

function drain :: "rat \<Rightarrow> string \<Rightarrow> rat \<Rightarrow> (string \<times> rat) list \<Rightarrow> (cash_transfer list \<times> (string \<times> rat) list) res" where
  "drain min_transfer to_v remaining [] = Inr ([], [])"
| "drain min_transfer to_v remaining ((from_v, spare) # surplus) =
     (if remaining \<le> 0 then Inr ([], (from_v, spare) # surplus)
      else let move = min remaining spare in
        bindE (floor_cent move) (\<lambda>amount.
        bindE (drain min_transfer to_v (dsub remaining move)
          (if dsub spare move \<le> 0 then surplus else (from_v, dsub spare move) # surplus)) (\<lambda>(plan, left).
        Inr ((if min_transfer \<le> amount then [\<lparr>from_venue = from_v, to_venue = to_v, tr_amount = amount\<rparr>] else [])
             @ plan, left))))"
  by pat_completeness auto

termination
  by (relation "measure (\<lambda>(_, _, remaining, surplus). length surplus + (if 0 < remaining then 1 else 0))")
    (auto simp: min_def dec_simps)

definition by_amount :: "(string \<times> rat) list \<Rightarrow> (string \<times> rat) list" where
  "by_amount ps = sort_key (\<lambda>(v, amt). (dneg amt, v)) ps"

definition cash_target :: "(string, rat) dict \<Rightarrow> rat" where
  "cash_target balances = dquot (dsum (map snd balances)) (of_nat (length balances))"

definition surplus_of :: "(string, rat) dict \<Rightarrow> (string \<times> rat) list" where
  "surplus_of balances = by_amount (map (\<lambda>(v, amt). (v, dsub amt (cash_target balances)))
     (filter (\<lambda>(_, amt). cash_target balances < amt) balances))"

definition deficit_of :: "(string, rat) dict \<Rightarrow> (string \<times> rat) list" where
  "deficit_of balances = by_amount (map (\<lambda>(v, amt). (v, dsub (cash_target balances) amt))
     (filter (\<lambda>(_, amt). amt < cash_target balances) balances))"

definition plan_transfers :: "(string, rat) dict \<Rightarrow> rat \<Rightarrow> cash_transfer list res" where
  "plan_transfers balances min_transfer =
     (if length balances < 2 then Inr []
      else if dsum (map snd balances) \<le> 0 then Inr []
      else bindE (foldE (\<lambda>(to_v, want) (plan, surplus).
               bindE (drain min_transfer to_v want surplus) (\<lambda>(more, left). Inr (plan @ more, left)))
             (deficit_of balances) ([], surplus_of balances))
           (\<lambda>(plan, _). Inr plan))"

subsection \<open>Applying a plan\<close>

type_synonym brokers = "(string, paper_broker) dict"

definition apply_transfer :: "string \<Rightarrow> cash_transfer \<Rightarrow> brokers \<Rightarrow> brokers \<times> bool" where
  "apply_transfer a t bs =
     (case map_of bs (from_venue t) of None \<Rightarrow> (bs, False) | Some src \<Rightarrow>
        case map_of bs (to_venue t) of None \<Rightarrow> (bs, False) | Some _ \<Rightarrow>
          (case withdraw src a (tr_amount t) of
             (src', False) \<Rightarrow> (dict_set (from_venue t) src' bs, False)
           | (src', True) \<Rightarrow>
               (let bs' = dict_set (from_venue t) src' bs
                in case map_of bs' (to_venue t) of None \<Rightarrow> (bs', True)
                   | Some dst \<Rightarrow> (dict_set (to_venue t) (deposit dst a (tr_amount t)) bs', True))))"

fun apply_transfers :: "string \<Rightarrow> cash_transfer list \<Rightarrow> brokers \<Rightarrow> brokers \<times> cash_transfer list" where
  "apply_transfers a [] bs = (bs, [])"
| "apply_transfers a (t # plan) bs =
     (case apply_transfer a t bs of (bs', ok) \<Rightarrow>
        case apply_transfers a plan bs' of (bs'', applied) \<Rightarrow> (bs'', if ok then t # applied else applied))"

subsection \<open>The sweep service\<close>

record sweep =
  sw_brokers :: brokers
  sw_transfers :: nat
  sw_moved :: rat
  sw_writes :: "(string \<times> cash_transfer list \<times> (string \<times> rat) list) list"

definition sweep_persist :: "string \<Rightarrow> cash_transfer list \<Rightarrow> sweep \<Rightarrow> sweep" where
  "sweep_persist a moved sw =
     (let touched = map from_venue moved @ map to_venue moved;
          amounts = map (\<lambda>(v, b). (v, cash b a)) (filter (\<lambda>(v, _). v \<in> set touched) (sw_brokers sw))
      in sw\<lparr>sw_writes := sw_writes sw @ [(a, moved, amounts)]\<rparr>)"

definition sweep_account :: "rat \<Rightarrow> string \<Rightarrow> sweep \<Rightarrow> sweep \<times> cash_transfer list res" where
  "sweep_account min_transfer a sw =
     (case plan_transfers (map (\<lambda>(v, b). (v, cash b a)) (sw_brokers sw)) min_transfer of
        Inl e \<Rightarrow> (sw, Inl e)
      | Inr plan \<Rightarrow>
          if plan = [] then (sw, Inr [])
          else (case apply_transfers a plan (sw_brokers sw) of (bs, moved) \<Rightarrow>
            if moved = [] then (sw\<lparr>sw_brokers := bs\<rparr>, Inr [])
            else (sweep_persist a moved (sw\<lparr>sw_brokers := bs, sw_transfers := sw_transfers sw + length moved,
                    sw_moved := dadd (sw_moved sw) (dsum (map tr_amount moved))\<rparr>), Inr moved)))"

fun sweep_accounts :: "rat \<Rightarrow> string list \<Rightarrow> sweep \<Rightarrow> sweep \<times> cash_transfer list res" where
  "sweep_accounts min_transfer [] sw = (sw, Inr [])"
| "sweep_accounts min_transfer (a # as) sw =
     (case sweep_account min_transfer a sw of
        (sw', Inl e) \<Rightarrow> (sw', Inl e)
      | (sw', Inr moved) \<Rightarrow>
          (case sweep_accounts min_transfer as sw' of (sw'', r) \<Rightarrow> (sw'', map_sum id (\<lambda>more. moved @ more) r)))"

definition sweep_once :: "bool \<Rightarrow> rat \<Rightarrow> string list \<Rightarrow> sweep \<Rightarrow> sweep \<times> cash_transfer list res" where
  "sweep_once enabled min_transfer accounts sw =
     (if \<not> enabled then (sw, Inr []) else sweep_accounts min_transfer accounts sw)"

subsection \<open>Equity\<close>

record equity_strip =
  eq_cash :: rat
  eq_position_value :: rat
  eq_equity :: rat
  eq_unrealized :: rat
  eq_realized :: rat

definition mid :: "quote \<Rightarrow> rat" where
  "mid q = dquot (dadd (bid q) (ask q)) 2"

definition mark :: "(string \<Rightarrow> quote option) \<Rightarrow> string \<Rightarrow> rat \<Rightarrow> rat" where
  "mark lk oid avg = (case lk oid of Some q \<Rightarrow> mid q | None \<Rightarrow> avg)"

definition add_position ::
  "(string \<Rightarrow> quote option) \<Rightarrow> rat \<times> rat \<Rightarrow> string \<times> rat \<times> rat \<times> rat \<Rightarrow> rat \<times> rat" where
  "add_position lk acc p = (case (acc, p) of ((value, unrealized), (oid, qty, avg, _)) \<Rightarrow>
     let m = mark lk oid avg in (dadd value (dmul m qty), dadd unrealized (dmul (dsub m avg) qty)))"

definition add_broker ::
  "(string \<Rightarrow> quote option) \<Rightarrow> string \<Rightarrow> rat \<times> rat \<times> rat \<times> rat \<Rightarrow> paper_broker \<Rightarrow> rat \<times> rat \<times> rat \<times> rat" where
  "add_broker lk a acc br = (case acc of (c, value, unrealized, realized) \<Rightarrow>
     case account_snapshot br a of (broker_cash, positions) \<Rightarrow>
       case foldl (add_position lk) (value, unrealized) positions of (value', unrealized') \<Rightarrow>
         (dadd c broker_cash, value', unrealized', dadd realized (realized_pnl br a)))"

definition account_equity :: "(string \<Rightarrow> quote option) \<Rightarrow> brokers \<Rightarrow> string \<Rightarrow> equity_strip" where
  "account_equity lk bs a =
     (case foldl (add_broker lk a) (0, 0, 0, 0) (map snd bs) of (c, value, unrealized, realized) \<Rightarrow>
        \<lparr>eq_cash = c, eq_position_value = value, eq_equity = dadd c value, eq_unrealized = unrealized,
         eq_realized = realized\<rparr>)"

text \<open>One snapshot row per account: cash, marked positions, equity.\<close>

definition snapshot_once :: "(string \<Rightarrow> quote option) \<Rightarrow> brokers \<Rightarrow> string list \<Rightarrow> (string \<times> rat \<times> rat \<times> rat) list" where
  "snapshot_once lk bs accounts = map (\<lambda>a. let eq = account_equity lk bs a in
     (a, eq_cash eq, eq_position_value eq, eq_equity eq)) accounts"

declare CENT_def [eval_rules] floor_cent_def [eval_rules] by_amount_def [eval_rules] cash_target_def [eval_rules]
  surplus_of_def [eval_rules] deficit_of_def [eval_rules] plan_transfers_def [eval_rules]
  apply_transfer_def [eval_rules] sweep_persist_def [eval_rules] sweep_account_def [eval_rules]
  sweep_once_def [eval_rules] mid_def [eval_rules] mark_def [eval_rules] add_position_def [eval_rules]
  add_broker_def [eval_rules] account_equity_def [eval_rules] snapshot_once_def [eval_rules]

subsection \<open>The plan is sound\<close>

lemma dsub_le: "dec_rep a \<Longrightarrow> 0 \<le> b \<Longrightarrow> dsub a b \<le> a"
  unfolding dsub_def by (rule dec.le_fixed) (auto simp: dec_rep_def)

lemma floor_cent_bounds:
  "floor_cent x = Inr y \<Longrightarrow> 0 \<le> x \<Longrightarrow> 0 \<le> y \<and> y \<le> x \<and> x < y + CENT \<and> on_grid 2 y"
  unfolding floor_cent_def CENT_def
  using dquantize_down_le [of 2 x y] dquantize_down_Inr [of 2 x y] on_gridI [of y _ 2] by auto

definition covered_by :: "(string \<times> rat) list \<Rightarrow> (string \<times> rat) list \<Rightarrow> bool" where
  "covered_by ps qs \<longleftrightarrow> (\<forall>(v, s) \<in> set ps. 0 < s \<and> dec_rep s \<and> (\<exists>s'. (v, s') \<in> set qs \<and> s \<le> s'))"

lemma drain_sound:
  assumes "drain m to_v remaining surplus = Inr (plan, left)" "covered_by surplus qs" "dec_rep remaining"
  shows "covered_by left qs \<and> (\<forall>t \<in> set plan. to_venue t = to_v \<and> m \<le> tr_amount t \<and> 0 \<le> tr_amount t \<and>
    tr_amount t \<le> remaining \<and> on_grid 2 (tr_amount t) \<and> (\<exists>s. (from_venue t, s) \<in> set qs \<and> tr_amount t \<le> s))"
  using assms
proof (induction m to_v remaining surplus arbitrary: plan left rule: drain.induct)
  case (2 m to_v remaining from_v spare surplus)
  show ?case
  proof (cases "remaining \<le> 0")
    case True
    with 2 show ?thesis by simp
  next
    case False
    let ?move = "min remaining spare"
    let ?rest = "if dsub spare ?move \<le> 0 then surplus else (from_v, dsub spare ?move) # surplus"
    from False "2.prems"(1) obtain amount plan' where a: "floor_cent ?move = Inr amount"
      and d: "drain m to_v (dsub remaining ?move) ?rest = Inr (plan', left)"
      and p: "plan = (if m \<le> amount then [\<lparr>from_venue = from_v, to_venue = to_v, tr_amount = amount\<rparr>] else []) @ plan'"
      by (auto simp: res_simps Let_def split: prod.splits)
    from "2.prems"(2) obtain s' where s': "(from_v, s') \<in> set qs" "spare \<le> s'" and rep: "0 < spare" "dec_rep spare"
      by (auto simp: covered_by_def)
    with False have mv: "0 \<le> ?move" by simp
    note fc = floor_cent_bounds [OF a mv]
    have w: "covered_by ?rest qs"
      using "2.prems"(2) s' dsub_le [OF rep(2) mv] by (force simp: covered_by_def)
    have r: "dsub remaining ?move \<le> remaining" using "2.prems"(3) mv by (rule dsub_le)
    from "2.IH" [OF False refl a d w] have IH: "covered_by left qs \<and> (\<forall>t \<in> set plan'. to_venue t = to_v \<and>
        m \<le> tr_amount t \<and> 0 \<le> tr_amount t \<and> tr_amount t \<le> dsub remaining ?move \<and> on_grid 2 (tr_amount t) \<and>
        (\<exists>s. (from_venue t, s) \<in> set qs \<and> tr_amount t \<le> s))" by simp
    have "amount \<le> remaining" "amount \<le> s'" using fc s' by auto
    with IH r fc s' show ?thesis by (fastforce simp: p split: if_splits)
  qed
qed auto

lemma surplus_of_set:
  "(v, s) \<in> set (surplus_of balances) \<Longrightarrow>
     \<exists>amt. (v, amt) \<in> set balances \<and> cash_target balances < amt \<and> s = dsub amt (cash_target balances)"
  by (auto simp: surplus_of_def by_amount_def)

lemma deficit_of_set:
  "(v, s) \<in> set (deficit_of balances) \<Longrightarrow>
     \<exists>amt. (v, amt) \<in> set balances \<and> amt < cash_target balances \<and> s = dsub (cash_target balances) amt"
  by (auto simp: deficit_of_def by_amount_def)

lemma covered_surplus: "covered_by (surplus_of balances) (surplus_of balances)"
  by (auto simp: covered_by_def dest!: surplus_of_set simp: dec_simps) (auto simp: surplus_of_def by_amount_def)

text \<open>
  Every transfer the cash sweep plans moves whole cents, at least the minimum, out of a venue
  that holds more than the equal share and into one that holds less, and no more than the first
  has above the share or than the second lacks.
\<close>

theorem plan_transfers_sound:
  assumes "plan_transfers balances min_transfer = Inr plan" "t \<in> set plan"
  shows "\<exists>have_amt lack_amt. (from_venue t, have_amt) \<in> set balances \<and> (to_venue t, lack_amt) \<in> set balances \<and>
    cash_target balances < have_amt \<and> lack_amt < cash_target balances \<and>
    min_transfer \<le> tr_amount t \<and> 0 \<le> tr_amount t \<and> on_grid 2 (tr_amount t) \<and>
    tr_amount t \<le> dsub have_amt (cash_target balances) \<and> tr_amount t \<le> dsub (cash_target balances) lack_amt"
proof -
  define good where "good t \<longleftrightarrow> min_transfer \<le> tr_amount t \<and> 0 \<le> tr_amount t \<and> on_grid 2 (tr_amount t) \<and>
      (\<exists>w. (to_venue t, w) \<in> set (deficit_of balances) \<and> tr_amount t \<le> w) \<and>
      (\<exists>s. (from_venue t, s) \<in> set (surplus_of balances) \<and> tr_amount t \<le> s)" for t :: cash_transfer
  let ?step = "\<lambda>(to_v, want) (plan, surplus).
    bindE (drain min_transfer to_v want surplus) (\<lambda>(more, left). Inr (plan @ more, left))"
  let ?inv = "\<lambda>(plan, surplus). covered_by surplus (surplus_of balances) \<and> (\<forall>t \<in> set plan. good t)"
  from assms obtain left where "foldE ?step (deficit_of balances) ([], surplus_of balances) = Inr (plan, left)"
    by (auto simp: plan_transfers_def res_simps split: if_splits)
  then have "?inv (plan, left)"
  proof (rule foldE_invariant)
    show "?inv ([], surplus_of balances)" by (simp add: covered_surplus)
  next
    fix x st b
    assume x: "x \<in> set (deficit_of balances)" and inv: "?inv st" and step: "?step x st = Inr b"
    obtain to_v want ts surplus where e: "x = (to_v, want)" "st = (ts, surplus)" by (cases x; cases st)
    from step e obtain more left where d: "drain min_transfer to_v want surplus = Inr (more, left)"
      and b: "b = (ts @ more, left)" by (auto simp: res_simps)
    have "dec_rep want" using x e(1) deficit_of_set by fastforce
    from drain_sound [OF d _ this] inv e have "covered_by left (surplus_of balances) \<and> (\<forall>t \<in> set more.
        to_venue t = to_v \<and> min_transfer \<le> tr_amount t \<and> 0 \<le> tr_amount t \<and> tr_amount t \<le> want \<and>
        on_grid 2 (tr_amount t) \<and> (\<exists>s. (from_venue t, s) \<in> set (surplus_of balances) \<and> tr_amount t \<le> s))" by auto
    then show "?inv b" using inv x e b by (auto simp: good_def)
  qed
  with assms(2) have g: "good t" by simp
  then obtain w s where w: "(to_venue t, w) \<in> set (deficit_of balances)" "tr_amount t \<le> w"
    and s: "(from_venue t, s) \<in> set (surplus_of balances)" "tr_amount t \<le> s" by (auto simp: good_def)
  from deficit_of_set [OF w(1)] surplus_of_set [OF s(1)] w(2) s(2) g show ?thesis by (auto simp: good_def)
qed

definition ex_balances :: "(string, rat) dict" where
  "ex_balances = [(''kalshi'', 500), (''polymarket_us'', 100)]"

declare ex_balances_def [eval_rules]

lemma ex_plan: "plan_transfers ex_balances 25 =
  Inr [\<lparr>from_venue = ''kalshi'', to_venue = ''polymarket_us'', tr_amount = 200\<rparr>]"
  by (simp add: eval_rules)

theorem plan_transfers_sound_witness:
  "\<exists>have_amt lack_amt. (''kalshi'', have_amt) \<in> set ex_balances \<and> (''polymarket_us'', lack_amt) \<in> set ex_balances \<and>
    cash_target ex_balances < have_amt \<and> lack_amt < cash_target ex_balances \<and> 200 \<le> dsub have_amt (cash_target ex_balances)"
  using plan_transfers_sound [OF ex_plan, of "\<lparr>from_venue = ''kalshi'', to_venue = ''polymarket_us'', tr_amount = 200\<rparr>"]
  by simp blast

subsection \<open>Applying a plan conserves the money\<close>

definition book_total :: "string \<Rightarrow> brokers \<Rightarrow> rat" where
  "book_total a bs = sum_list (map (\<lambda>(_, b). cash b a) bs)"

definition exact_books :: "string \<Rightarrow> brokers \<Rightarrow> bool" where
  "exact_books a bs \<longleftrightarrow> dict_ok bs \<and> dict_all (\<lambda>b. broker_ok b \<and> on_grid 12 (cash b a)) bs \<and> book_total a bs \<le> 10 ^ 15"

lemma exact_books_entry:
  assumes "exact_books a bs" "map_of bs v = Some b"
  shows "broker_ok b" "on_grid 12 (cash b a)" "0 \<le> cash b a" "cash b a \<le> book_total a bs"
proof -
  from assms have m: "(v, b) \<in> set bs" by (simp add: map_of_SomeD)
  with assms(1) show "broker_ok b" "on_grid 12 (cash b a)" by (auto simp: exact_books_def dict_all_iff)
  then show "0 \<le> cash b a" by (rule_tac books.bal_nonneg)
  have "\<forall>x \<in> set (map (\<lambda>(_, b). cash b a) bs). 0 \<le> x"
    using assms(1) by (auto simp: exact_books_def dict_all_iff intro: books.bal_nonneg)
  moreover have "cash b a \<in> set (map (\<lambda>(_, b). cash b a) bs)" using m by force
  ultimately show "cash b a \<le> book_total a bs"
    unfolding book_total_def by (intro member_le_sum_list) auto
qed

lemma book_total_set:
  "dict_ok bs \<Longrightarrow> map_of bs v = Some b \<Longrightarrow> book_total a (dict_set v b' bs) = book_total a bs + cash b' a - cash b a"
  by (simp add: book_total_def sum_list_dict_set)

lemma keys_dict_set: "v \<in> dom (map_of d) \<Longrightarrow> map fst (dict_set v x d) = map fst d"
  by (simp add: update_keys dom_map_of_conv_image_fst)

lemma apply_transfer_conserves:
  assumes ok: "exact_books a bs" and x: "on_grid 2 (tr_amount t)" and app: "apply_transfer a t bs = (bs', done)"
  shows "exact_books a bs' \<and> book_total a bs' = book_total a bs \<and> map fst bs' = map fst bs"
proof (cases "map_of bs (from_venue t)")
  case None
  with ok app show ?thesis by (simp add: apply_transfer_def)
next
  case (Some src)
  note src = exact_books_entry [OF ok Some]
  obtain src' w where w: "withdraw src a (tr_amount t) = (src', w)" by force
  from ok have d: "dict_ok bs" by (simp add: exact_books_def)
  let ?bs = "dict_set (from_venue t) src' bs" and ?x = "tr_amount t"
  have k1: "map fst ?bs = map fst bs" using Some by (intro keys_dict_set) auto
  have gx: "on_grid 12 ?x" by (rule on_grid_mono [OF x]) simp
  show ?thesis
  proof (cases w)
    case False
    then have "src' = src" using w by (auto simp: withdraw_def Let_def split: if_splits)
    moreover have "dict_set (from_venue t) src bs = bs" using Some d
      by (metis (no_types, lifting) update_nonempty update_triv map_of_SomeD)
    ultimately show ?thesis using app Some w False ok
      by (auto simp: apply_transfer_def split: option.splits)
  next
    case True
    then have c: "0 < ?x" "?x \<le> cash src a" using books.wd_covered [of src a ?x] w by auto
    have ex: "dsub (cash src a) ?x = cash src a - ?x"
      unfolding dsub_def using src gx c ok
      by (intro exact_rep [unfolded dec_rep_def] on_grid_diff) (auto simp: exact_books_def)
    have cs: "cash src' a = cash src a - ?x" using books.wd_bal [of src a ?x a] w True ex by simp
    have bo: "broker_ok src'" using books.wd_invar [OF src(1), of a ?x] w by simp
    have t1: "book_total a ?bs = book_total a bs - ?x" using Some d cs by (simp add: book_total_set)
    have ok1: "exact_books a ?bs"
      using ok bo cs src gx c t1 by (auto simp: exact_books_def intro!: dict_all_set on_grid_diff)
    show ?thesis
    proof (cases "map_of ?bs (to_venue t)")
      case None
      then have "map_of bs (to_venue t) = None" by (simp split: if_splits)
      with app Some w True ok show ?thesis by (simp add: apply_transfer_def)
    next
      case (Some dst)
      note dst = exact_books_entry [OF ok1 Some]
      let ?bs2 = "dict_set (to_venue t) (deposit dst a ?x) ?bs"
      have "dadd (cash dst a) ?x = cash dst a + ?x"
        unfolding dadd_def using dst gx c ok t1
        by (intro exact_rep [unfolded dec_rep_def] on_grid_add) (auto simp: exact_books_def)
      then have cd: "cash (deposit dst a ?x) a = cash dst a + ?x" using books.dep_bal [of dst a ?x a] by simp
      have "broker_ok (deposit dst a ?x)" using books.dep_invar [OF dst(1)] c by simp
      moreover have t2: "book_total a ?bs2 = book_total a bs"
        using ok1 Some cd t1 by (simp add: book_total_set exact_books_def)
      ultimately have "exact_books a ?bs2"
        using ok1 cd dst gx ok by (auto simp: exact_books_def intro!: dict_all_set on_grid_add)
      moreover have "map fst ?bs2 = map fst ?bs" using Some by (intro keys_dict_set) auto
      moreover have "bs' = ?bs2"
        using app \<open>map_of bs (from_venue t) = Some src\<close> w True Some
        by (auto simp: apply_transfer_def Let_def split: option.splits if_splits)
      ultimately show ?thesis using k1 t2 by simp
    qed
  qed
qed

text \<open>
  C15: levelling moves money and never makes or loses any: after any plan in whole cents, covered or
  not, the account's cash over all venues adds up to what it did, no venue is overdrawn, and the
  venues are the same. Balances on twelve decimals totalling at most ten to the fifteenth keep the
  sums exact.
\<close>

theorem apply_transfers_conserves:
  assumes "exact_books a bs" "\<forall>t \<in> set plan. on_grid 2 (tr_amount t)" "apply_transfers a plan bs = (bs', applied)"
  shows "book_total a bs' = book_total a bs \<and> dict_all (\<lambda>b. 0 \<le> cash b a) bs' \<and> map fst bs' = map fst bs"
proof -
  have "exact_books a bs' \<and> book_total a bs' = book_total a bs \<and> map fst bs' = map fst bs"
    using assms
  proof (induction plan arbitrary: bs bs' applied)
    case (Cons t plan)
    obtain bs1 ok1 where t: "apply_transfer a t bs = (bs1, ok1)" by force
    obtain bs2 app2 where p: "apply_transfers a plan bs1 = (bs2, app2)" by force
    from apply_transfer_conserves [OF Cons.prems(1) _ t] Cons.prems(2)
    have "exact_books a bs1 \<and> book_total a bs1 = book_total a bs \<and> map fst bs1 = map fst bs" by simp
    with Cons.IH [OF _ _ p] Cons.prems(2,3) t p show ?case by auto
  qed simp
  then show ?thesis by (auto simp: exact_books_def dict_all_iff intro: books.bal_nonneg)
qed

definition ex_books :: brokers where
  "ex_books = [(''kalshi'', ex_broker),
     (''polymarket_us'', deposit (new_broker ''polymarket_us'' polymarket_us_default 0 None) ''demo'' 100)]"

lemma ex_books_exact: "exact_books ''demo'' ex_books"
proof -
  have g: "on_grid 12 500" "on_grid 12 100"
    by (rule on_gridI [of _ "500 * 10 ^ 12"], simp, rule on_gridI [of _ "100 * 10 ^ 12"], simp)
  have "cash ex_broker ''demo'' = 500"
      "cash (deposit (new_broker ''polymarket_us'' polymarket_us_default 0 None) ''demo'' 100) ''demo'' = 100"
    by (simp_all add: eval_rules)
  moreover have "broker_ok ex_broker" "broker_ok (deposit (new_broker ''polymarket_us'' polymarket_us_default 0 None) ''demo'' 100)"
    unfolding ex_broker_def by (intro books.dep_invar broker_ok_new; simp)+
  ultimately show ?thesis using g by (simp add: exact_books_def ex_books_def dict_all_def book_total_def)
qed

theorem apply_transfers_conserves_witness:
  "book_total ''demo'' (fst (apply_transfers ''demo'' [\<lparr>from_venue = ''kalshi'', to_venue = ''polymarket_us'', tr_amount = 200\<rparr>] ex_books))
     = book_total ''demo'' ex_books"
proof -
  let ?plan = "[\<lparr>from_venue = ''kalshi'', to_venue = ''polymarket_us'', tr_amount = 200\<rparr>]"
  have "\<forall>t \<in> set ?plan. on_grid 2 (tr_amount t)" by (simp add: on_gridI [of 200 "20000"])
  from apply_transfers_conserves [OF ex_books_exact this surjective_pairing] show ?thesis by blast
qed

lemma on_grid_half: "on_grid 2 x \<Longrightarrow> on_grid 3 (x / 2)"
proof -
  assume "on_grid 2 x"
  then obtain m where "x = of_int m / 10 ^ 2" by (rule on_gridE)
  then have "x / 2 = of_int (5 * m) / 10 ^ 3" by simp
  then show ?thesis by (rule on_gridI)
qed

text \<open>
  Between two venues one planned transfer levels the account to within two cents, provided half
  the gap is at least a cent more than the minimum transfer.
\<close>

theorem two_venues_level:
  assumes grid: "on_grid 2 x" "on_grid 2 y" and b: "0 \<le> y" "y < x" "x \<le> 10 ^ 12"
    and m: "min_transfer + CENT \<le> (x - y) / 2"
  shows "\<exists>amt. plan_transfers [(v, x), (w, y)] min_transfer = Inr [\<lparr>from_venue = v, to_venue = w, tr_amount = amt\<rparr>] \<and>
    0 \<le> (x - amt) - (y + amt) \<and> (x - amt) - (y + amt) < 2 * CENT"
proof -
  have rep: "dec_rep z" if "on_grid 3 z" "\<bar>z\<bar> \<le> 10 ^ 13" for z
    using that by (intro exact_rep on_grid_mono [of 3 _ 12]) auto
  have s: "on_grid 2 (x + y)" "on_grid 2 (x - y)" using grid by (auto intro: on_grid_add on_grid_diff)
  have rx: "dec_rep x" and rs: "dec_rep (x + y)" and rt: "dec_rep ((x + y) / 2)" and rd: "dec_rep ((x - y) / 2)"
    using b grid s by (auto intro!: rep on_grid_half on_grid_mono [of 2 _ 3])
  have sum: "dsum (map snd [(v, x), (w, y)]) = x + y"
    using rx rs by (simp add: dsum_def dadd_0) (simp add: dadd_def dec_rep_def)
  have target: "cash_target [(v, x), (w, y)] = (x + y) / 2"
    unfolding cash_target_def sum using rt by (simp add: dquot_def dec_rep_def)
  have d: "dsub x ((x + y) / 2) = (x - y) / 2" "dsub ((x + y) / 2) y = (x - y) / 2"
    using rd by (simp_all add: dsub_def dec_rep_def field_simps)
  have lt: "(x + y) / 2 < x" "\<not> (x + y) / 2 < y" "y < (x + y) / 2" "\<not> x < (x + y) / 2" using b by auto
  have sp: "surplus_of [(v, x), (w, y)] = [(v, (x - y) / 2)]" "deficit_of [(v, x), (w, y)] = [(w, (x - y) / 2)]"
    using lt by (simp_all add: surplus_of_def deficit_of_def target d by_amount_def)
  have "(x - y) / 2 * 10 ^ 2 < 10 ^ 28" using b by simp
  then obtain amt where amt: "floor_cent ((x - y) / 2) = Inr amt"
    unfolding floor_cent_def using dquantize_down_ok [of "(x - y) / 2" 2] b by auto
  with floor_cent_bounds [OF amt] b m have bnd: "0 \<le> amt" "amt \<le> (x - y) / 2" "(x - y) / 2 < amt + CENT" "min_transfer \<le> amt"
    by auto
  have "\<not> x + y \<le> 0" "\<not> (x - y) / 2 \<le> 0" using b by auto
  then have "plan_transfers [(v, x), (w, y)] min_transfer = Inr [\<lparr>from_venue = v, to_venue = w, tr_amount = amt\<rparr>]"
    using amt bnd sum by (simp add: plan_transfers_def sp)
  with bnd show ?thesis by (intro exI [of _ amt]) (auto simp: field_simps)
qed

theorem two_venues_level_witness:
  "\<exists>amt. plan_transfers [(''kalshi'', 500), (''polymarket_us'', 101 / 100)] 25 =
      Inr [\<lparr>from_venue = ''kalshi'', to_venue = ''polymarket_us'', tr_amount = amt\<rparr>] \<and>
    0 \<le> (500 - amt) - (101 / 100 + amt) \<and> (500 - amt) - (101 / 100 + amt) < 2 * CENT"
  by (rule two_venues_level)
    (simp_all add: CENT_def on_gridI [of 500 "50000"] on_gridI [of "101 / 100" "101"])

subsection \<open>Equity\<close>

lemma account_snapshot_positions:
  assumes "broker_ok br" "(oid, q, avg, r) \<in> set (snd (account_snapshot br a))"
  shows "0 \<le> q" "0 \<le> avg" "avg \<le> 1"
proof -
  from assms(2) have q: "(oid, q) \<in> set (ac_positions (acct br a))" and avg: "avg = dict_get 0 (ac_avg_price (acct br a)) oid"
    by (auto simp: account_snapshot_def Let_def)
  note ok = broker_ok_acct [OF assms(1), of a]
  from q ok show "0 \<le> q" by (auto simp: account_ok_def dict_all_iff)
  from account_ok_reads [OF ok] show "0 \<le> avg" "avg \<le> 1" by (simp_all add: avg)
qed

lemma mid_bounds: "quote_ok q \<Longrightarrow> 0 \<le> mid q"
  by (simp add: mid_def quote_ok_iff dquot_nonneg dadd_nonneg)

lemma foldl_add_position:
  assumes "\<forall>(oid, q, avg, r) \<in> set ps. 0 \<le> q \<and> 0 \<le> avg" "\<forall>oid q. lk oid = Some q \<longrightarrow> quote_ok q" "0 \<le> val"
  shows "0 \<le> fst (foldl (add_position lk) (val, unr) ps) \<and>
    ((\<forall>(oid, _) \<in> set ps. lk oid = None) \<longrightarrow> dec_rep unr \<longrightarrow> snd (foldl (add_position lk) (val, unr) ps) = unr)"
  using assms
proof (induction ps arbitrary: val unr)
  case (Cons p ps)
  obtain oid q avg r where p: "p = (oid, q, avg, r)" by (cases p)
  from Cons.prems p have "0 \<le> dmul (mark lk oid avg) q"
    by (auto simp: mark_def mid_bounds intro!: dmul_nonneg split: option.split)
  with Cons.prems(3) have "0 \<le> dadd val (dmul (mark lk oid avg) q)" by (rule dadd_nonneg)
  from Cons.IH [OF _ Cons.prems(2) this, of "dadd unr (dmul (dsub (mark lk oid avg) avg) q)"] Cons.prems(1) p show ?case
    by (auto simp: add_position_def Let_def mark_def dadd_0 split: option.splits)
qed simp

text \<open>
  The equity strip of a solvent account is never negative, and what no venue quotes marks flat:
  with no live quote for any position the unrealized profit is exactly zero.
\<close>

theorem account_equity_flat:
  assumes "dict_all broker_ok bs" "\<forall>oid q. lk oid = Some q \<longrightarrow> quote_ok q"
  shows "0 \<le> eq_cash (account_equity lk bs a) \<and> 0 \<le> eq_position_value (account_equity lk bs a) \<and>
    0 \<le> eq_equity (account_equity lk bs a) \<and>
    ((\<forall>(_, b) \<in> set bs. \<forall>(oid, _) \<in> set (snd (account_snapshot b a)). lk oid = None) \<longrightarrow>
       eq_unrealized (account_equity lk bs a) = 0)"
proof -
  define P where "P acc \<longleftrightarrow> (case acc of (c, val, unr, _) \<Rightarrow> 0 \<le> c \<and> 0 \<le> val \<and>
    ((\<forall>(_, b) \<in> set bs. \<forall>(oid, _) \<in> set (snd (account_snapshot b a)). lk oid = None) \<longrightarrow> unr = 0))"
    for acc :: "rat \<times> rat \<times> rat \<times> rat"
  have step: "P (add_broker lk a acc br)" if br: "br \<in> snd ` set bs" and P: "P acc" for acc br
  proof -
    obtain c val unr real where acc: "acc = (c, val, unr, real)" by (cases acc)
    obtain bc ps where snap: "account_snapshot br a = (bc, ps)" by force
    have ok: "broker_ok br" using br assms(1) by (auto simp: dict_all_iff)
    have bc: "0 \<le> bc" using account_ok_reads(1) [OF broker_ok_acct [OF ok], of br a] snap
      by (simp add: account_snapshot_def Let_def)
    have ps: "\<forall>(oid, q, avg, r) \<in> set ps. 0 \<le> q \<and> 0 \<le> avg"
    proof (clarify)
      fix oid q avg r assume "(oid, q, avg, r) \<in> set ps"
      then have "(oid, q, avg, r) \<in> set (snd (account_snapshot br a))" by (simp add: snap)
      from account_snapshot_positions [OF ok this] show "0 \<le> q \<and> 0 \<le> avg" by blast
    qed
    obtain val' unr' where f: "foldl (add_position lk) (val, unr) ps = (val', unr')" by force
    have "0 \<le> val" using P acc by (simp add: P_def)
    note g = foldl_add_position [OF ps assms(2) this, of unr, unfolded f]
    have "(\<forall>(_, b) \<in> set bs. \<forall>(oid, _) \<in> set (snd (account_snapshot b a)). lk oid = None) \<Longrightarrow> unr' = 0"
    proof -
      assume none: "\<forall>(_, b) \<in> set bs. \<forall>(oid, _) \<in> set (snd (account_snapshot b a)). lk oid = None"
      with P acc have "unr = 0" by (simp add: P_def)
      moreover have "\<forall>(oid, _) \<in> set ps. lk oid = None" using none br snap by fastforce
      ultimately show "unr' = 0" using g by simp
    qed
    with g bc P acc show ?thesis by (simp add: P_def add_broker_def snap f dadd_nonneg)
  qed
  have "P (foldl (add_broker lk a) acc brs)" if "set brs \<subseteq> snd ` set bs" "P acc" for brs acc
    using that by (induction brs arbitrary: acc) (auto simp: step)
  from this [of "map snd bs" "(0, 0, 0, 0)"] have "P (foldl (add_broker lk a) (0, 0, 0, 0) (map snd bs))"
    by (simp add: P_def)
  then show ?thesis
    by (auto simp: P_def account_equity_def dadd_nonneg split: prod.splits)
qed

theorem account_equity_flat_witness:
  "0 \<le> eq_equity (account_equity (\<lambda>_. None) [(''kalshi'', ex_held)] ''demo'') \<and>
    eq_unrealized (account_equity (\<lambda>_. None) [(''kalshi'', ex_held)] ''demo'') = 0"
proof -
  have "broker_ok ex_held" using broker_reachable_ok [OF ex_held_reachable broker_ok_new] by simp
  then have "dict_all broker_ok [(''kalshi'', ex_held)]" by (simp add: dict_all_def)
  from account_equity_flat [OF this, of "\<lambda>_. None" "''demo''"] show ?thesis by auto
qed

end
