(* ===== verification/Auto_Settle.thy ===== *)
theory Auto_Settle
  imports Cash
begin

section \<open>Settling from the quote book\<close>

text \<open>
  \<open>arbys/ingest/auto_settle_service.py\<close>. One \<open>tick\<close> reads the registered groups, the clock \<open>now\<close> and the
  quote book twice: \<open>lk\<close> is \<open>QuoteBook.get\<close> and \<open>dark\<close> the last known quote, stale included
  (\<open>get_with_age\<close>). The state is the service's four maps and sets plus the brokers it settles on. A tick
  is modelled as one step; what other coroutines do while a settlement is persisted is not.
\<close>

definition ASK_THRESHOLD :: rat where
  "ASK_THRESHOLD = 99 / 100"

definition RESOLVED_ASK_THRESHOLD :: rat where
  "RESOLVED_ASK_THRESHOLD = 90 / 100"

definition CONSECUTIVE_HITS :: nat where
  "CONSECUTIVE_HITS = 3"

record auto_settle =
  se_brokers :: brokers
  se_settled :: "string list"
  se_hits :: "(string, bool \<times> nat) dict"
  se_seen :: "(string, event_group) dict"
  se_unresolved :: "(string, event_group) dict"

definition clear_settled :: "auto_settle \<Rightarrow> auto_settle" where
  "clear_settled st = st\<lparr>se_settled := [], se_hits := [], se_seen := [], se_unresolved := []\<rparr>"

definition mark_settled :: "string \<Rightarrow> auto_settle \<Rightarrow> auto_settle" where
  "mark_settled gid st = st\<lparr>se_settled := List.insert gid (se_settled st), se_hits := dict_pop gid (se_hits st),
     se_unresolved := dict_pop gid (se_unresolved st)\<rparr>"

definition base_group_id :: "string \<Rightarrow> string" where
  "base_group_id gid = takeWhile (\<lambda>c. c \<noteq> CHR '':'') gid"

definition is_settled :: "string \<Rightarrow> auto_settle \<Rightarrow> bool" where
  "is_settled gid st \<longleftrightarrow> base_group_id gid \<in> set (se_settled st)"

definition unresolved_groups :: "auto_settle \<Rightarrow> string list" where
  "unresolved_groups st = sort (map fst (se_unresolved st))"

definition has_started :: "int \<Rightarrow> event_group \<Rightarrow> bool" where
  "has_started now g = (case start_time g of None \<Rightarrow> True | Some s \<Rightarrow> as_utc s \<le> now)"

definition side_hit :: "(string \<Rightarrow> quote option) \<Rightarrow> rat \<Rightarrow> bool \<Rightarrow> event_group \<Rightarrow> bool" where
  "side_hit lk threshold yes g = list_ex (\<lambda>l. is_yes_side l = yes \<and>
     (case lk (leg_outcome l) of None \<Rightarrow> False | Some q \<Rightarrow> threshold \<le> ask q)) (g_legs g)"

definition winning_side :: "(string \<Rightarrow> quote option) \<Rightarrow> rat \<Rightarrow> event_group \<Rightarrow> bool option" where
  "winning_side lk threshold g =
     (let yes_hit = side_hit lk threshold True g; no_hit = side_hit lk threshold False g
      in if yes_hit \<and> \<not> no_hit then Some True else if no_hit \<and> \<not> yes_hit then Some False else None)"

definition settle_leg :: "bool \<Rightarrow> brokers \<Rightarrow> event_group_leg \<Rightarrow> brokers" where
  "settle_leg winner bs l = (case map_of bs (leg_venue l) of None \<Rightarrow> bs | Some br \<Rightarrow>
     dict_set (leg_venue l)
       (settle_outcome_async br (leg_outcome l) (if is_yes_side l = winner then 1 else 0) ''heuristic'') bs)"

definition settle_group :: "event_group \<Rightarrow> bool \<Rightarrow> brokers \<Rightarrow> brokers" where
  "settle_group g winner bs = foldl (settle_leg winner) bs (g_legs g)"

definition settle_final :: "int \<Rightarrow> (string \<Rightarrow> quote option) \<Rightarrow> event_group \<Rightarrow> auto_settle \<Rightarrow> auto_settle" where
  "settle_final now dark g st =
     (if \<not> has_started now g then st
      else case winning_side dark RESOLVED_ASK_THRESHOLD g of
        None \<Rightarrow> (if g_id g \<in> fst ` set (se_unresolved st) then st
                 else st\<lparr>se_unresolved := dict_set (g_id g) g (se_unresolved st)\<rparr>)
      | Some winner \<Rightarrow> st\<lparr>se_brokers := settle_group g winner (se_brokers st),
          se_settled := List.insert (g_id g) (se_settled st), se_unresolved := dict_pop (g_id g) (se_unresolved st)\<rparr>)"

text \<open>First loop of a tick: a group seen before and gone from the registry.\<close>

definition retire_group ::
  "int \<Rightarrow> (string \<Rightarrow> quote option) \<Rightarrow> (string, event_group) dict \<Rightarrow> auto_settle \<Rightarrow> string \<times> event_group \<Rightarrow> auto_settle" where
  "retire_group now dark current st p = (case p of (gid, g) \<Rightarrow>
     if gid \<in> fst ` set current then st
     else let st' = st\<lparr>se_seen := dict_pop gid (se_seen st), se_hits := dict_pop gid (se_hits st)\<rparr>
          in if gid \<in> set (se_settled st') then st' else settle_final now dark g st')"

text \<open>Second loop: a registered group.\<close>

definition forget_hits :: "string \<Rightarrow> auto_settle \<Rightarrow> auto_settle" where
  "forget_hits gid st = st\<lparr>se_hits := dict_pop gid (se_hits st)\<rparr>"

definition count_hit :: "string \<Rightarrow> event_group \<Rightarrow> bool \<Rightarrow> auto_settle \<Rightarrow> auto_settle" where
  "count_hit gid g winner st =
     (let new_count = (case map_of (se_hits st) gid of None \<Rightarrow> 1
            | Some (prev_side, prev_count) \<Rightarrow> if prev_side \<noteq> winner then 1 else prev_count + 1);
          st1 = st\<lparr>se_hits := dict_set gid (winner, new_count) (se_hits st)\<rparr>
      in if CONSECUTIVE_HITS \<le> new_count
         then forget_hits gid (st1\<lparr>se_brokers := settle_group g winner (se_brokers st1),
                se_settled := List.insert gid (se_settled st1)\<rparr>)
         else st1)"

definition watch_group ::
  "int \<Rightarrow> (string \<Rightarrow> quote option) \<Rightarrow> (string \<Rightarrow> quote option) \<Rightarrow> auto_settle \<Rightarrow> string \<times> event_group \<Rightarrow> auto_settle" where
  "watch_group now lk dark st p = (case p of (gid, g) \<Rightarrow>
     let st1 = st\<lparr>se_seen := dict_set gid g (se_seen st)\<rparr>
     in if gid \<in> set (se_settled st1) then st1
        else if ended g = Some True then settle_final now dark g st1
        else if \<not> has_started now g then forget_hits gid st1
        else case winning_side lk ASK_THRESHOLD g of
               None \<Rightarrow> forget_hits gid st1
             | Some winner \<Rightarrow> count_hit gid g winner st1)"

definition tick ::
  "int \<Rightarrow> (string \<Rightarrow> quote option) \<Rightarrow> (string \<Rightarrow> quote option) \<Rightarrow> (string, event_group) dict \<Rightarrow> auto_settle \<Rightarrow> auto_settle" where
  "tick now lk dark current st =
     foldl (watch_group now lk dark) (foldl (retire_group now dark current) st (se_seen st)) current"

declare ASK_THRESHOLD_def [eval_rules] RESOLVED_ASK_THRESHOLD_def [eval_rules] CONSECUTIVE_HITS_def [eval_rules]
  clear_settled_def [eval_rules] mark_settled_def [eval_rules] base_group_id_def [eval_rules] is_settled_def [eval_rules]
  unresolved_groups_def [eval_rules] has_started_def [eval_rules] side_hit_def [eval_rules] winning_side_def [eval_rules]
  settle_leg_def [eval_rules] settle_group_def [eval_rules] settle_final_def [eval_rules] retire_group_def [eval_rules]
  forget_hits_def [eval_rules] count_hit_def [eval_rules] watch_group_def [eval_rules] tick_def [eval_rules]

subsection \<open>What a tick may settle\<close>

text \<open>
  \<open>decided\<close>: the evidence a settlement rests on. The game has started, and one side's ask is at the
  threshold while the other's is not: at 0.99 in the live book, or at 0.90 in the last known one.
\<close>

definition decided :: "int \<Rightarrow> (string \<Rightarrow> quote option) \<Rightarrow> (string \<Rightarrow> quote option) \<Rightarrow> event_group \<Rightarrow> bool" where
  "decided now lk dark g \<longleftrightarrow> has_started now g \<and>
     (winning_side dark RESOLVED_ASK_THRESHOLD g \<noteq> None \<or> winning_side lk ASK_THRESHOLD g \<noteq> None)"

text \<open>
  The progress of a tick from \<open>st0\<close> to \<open>st\<close>: the settled groups only grow, each new one is a decided
  group, and money moves only together with a new one.
\<close>

definition settles_only ::
  "(event_group \<Rightarrow> bool) \<Rightarrow> event_group set \<Rightarrow> auto_settle \<Rightarrow> auto_settle \<Rightarrow> bool" where
  "settles_only ok gs st0 st \<longleftrightarrow> (\<exists>new. se_settled st = new @ se_settled st0 \<and>
     (\<forall>gid \<in> set new. \<exists>g \<in> gs. g_id g = gid \<and> ok g) \<and> (new = [] \<longrightarrow> se_brokers st = se_brokers st0))"

lemma settles_only_refl: "se_settled st = se_settled st0 \<Longrightarrow> se_brokers st = se_brokers st0 \<Longrightarrow> settles_only ok gs st0 st"
  by (simp add: settles_only_def)

lemma settles_only_trans:
  assumes "settles_only ok gs st0 st1" "settles_only ok gs st1 st2"
  shows "settles_only ok gs st0 st2"
proof -
  from assms obtain n1 n2 where "se_settled st1 = n1 @ se_settled st0" "se_settled st2 = n2 @ se_settled st1"
      "\<forall>gid \<in> set n1. \<exists>g \<in> gs. g_id g = gid \<and> ok g" "\<forall>gid \<in> set n2. \<exists>g \<in> gs. g_id g = gid \<and> ok g"
      "n1 = [] \<longrightarrow> se_brokers st1 = se_brokers st0" "n2 = [] \<longrightarrow> se_brokers st2 = se_brokers st1"
    by (auto simp: settles_only_def)
  then show ?thesis unfolding settles_only_def by (intro exI [of _ "n2 @ n1"]) auto
qed

lemma settles_only_one:
  "g_id g \<notin> set (se_settled st0) \<Longrightarrow> g \<in> gs \<Longrightarrow> ok g \<Longrightarrow> se_settled st = List.insert (g_id g) (se_settled st0) \<Longrightarrow>
     settles_only ok gs st0 st"
  unfolding settles_only_def by (intro exI [of _ "[g_id g]"]) (auto intro: bexI [of _ g])

lemma settles_only_foldl:
  assumes "\<And>st p. p \<in> set ps \<Longrightarrow> settles_only ok gs st (f st p)"
  shows "settles_only ok gs st (foldl f st ps)"
  using assms
proof (induction ps arbitrary: st)
  case (Cons p ps)
  from Cons.prems have "settles_only ok gs st (f st p)" by simp
  moreover have "settles_only ok gs (f st p) (foldl f (f st p) ps)" using Cons by simp
  ultimately show ?case by (simp add: settles_only_trans)
qed (simp add: settles_only_refl)

lemma settle_final_only:
  assumes "g_id g \<notin> set (se_settled st)" "g \<in> gs"
  shows "settles_only (decided now lk dark) gs st (settle_final now dark g st)"
proof (cases "has_started now g \<and> winning_side dark RESOLVED_ASK_THRESHOLD g \<noteq> None")
  case True
  with assms show ?thesis
    by (intro settles_only_one [of g]) (auto simp: settle_final_def decided_def)
next
  case False
  then show ?thesis by (auto simp: settle_final_def intro!: settles_only_refl split: option.split)
qed

lemma settles_only_via:
  "se_settled st1 = se_settled st \<Longrightarrow> se_brokers st1 = se_brokers st \<Longrightarrow> settles_only ok gs st1 st2 \<Longrightarrow> settles_only ok gs st st2"
  by (simp add: settles_only_def)

lemma retire_group_only:
  assumes "g_id g = gid" "g \<in> gs"
  shows "settles_only (decided now lk dark) gs st (retire_group now dark current st (gid, g))"
  using assms by (auto simp: retire_group_def Let_def intro: settles_only_refl
    intro!: settles_only_via [OF _ _ settle_final_only])

lemma watch_group_only:
  assumes "g_id g = gid" "g \<in> gs"
  shows "settles_only (decided now lk dark) gs st (watch_group now lk dark st (gid, g))"
proof -
  let ?st1 = "st\<lparr>se_seen := dict_set gid g (se_seen st)\<rparr>"
  show ?thesis
  proof (cases "gid \<in> set (se_settled st) \<or> ended g = Some True \<or> \<not> has_started now g \<or> winning_side lk ASK_THRESHOLD g = None")
    case True
    then show ?thesis using assms
      by (auto simp: watch_group_def Let_def forget_hits_def intro: settles_only_refl
        intro!: settles_only_via [OF _ _ settle_final_only] split: option.split)
  next
    case False
    then obtain w where w: "winning_side lk ASK_THRESHOLD g = Some w" by auto
    with False have e: "watch_group now lk dark st (gid, g) = count_hit gid g w ?st1" by (auto simp: watch_group_def Let_def)
    have "decided now lk dark g" using False w by (simp add: decided_def)
    with assms False show ?thesis unfolding e
      by (auto simp: count_hit_def Let_def forget_hits_def intro: settles_only_refl settles_only_one [of g])
  qed
qed

lemma tick_only:
  assumes ids: "\<forall>(gid, g) \<in> set current \<union> set (se_seen st). g_id g = gid"
  shows "settles_only (decided now lk dark) (snd ` (set current \<union> set (se_seen st))) st (tick now lk dark current st)"
  unfolding tick_def
proof (rule settles_only_trans)
  let ?gs = "snd ` (set current \<union> set (se_seen st))"
  have m: "g_id (snd p) = fst p \<and> snd p \<in> ?gs" if "p \<in> set current \<union> set (se_seen st)" for p
    using bspec [OF ids that] imageI [OF that, of snd] by (cases p) simp
  show "settles_only (decided now lk dark) ?gs st (foldl (retire_group now dark current) st (se_seen st))"
    using retire_group_only m by (intro settles_only_foldl) (metis UnCI prod.collapse)
  show "settles_only (decided now lk dark) ?gs (foldl (retire_group now dark current) st (se_seen st))
      (foldl (watch_group now lk dark) (foldl (retire_group now dark current) st (se_seen st)) current)"
    using watch_group_only m by (intro settles_only_foldl) (metis UnCI prod.collapse)
qed

text \<open>
  C12: auto-settlement never guesses: whatever a tick newly settles is a game that has started and whose
  book names exactly one winner, at 0.99 in the live book or at 0.90 in the last known one, and a tick
  that settles no new group moves no money on any broker.
\<close>

theorem tick_settles_decided_only:
  assumes "\<forall>(gid, g) \<in> set current \<union> set (se_seen st). g_id g = gid"
  shows "\<exists>new. se_settled (tick now lk dark current st) = new @ se_settled st \<and>
    (\<forall>gid \<in> set new. \<exists>g \<in> snd ` (set current \<union> set (se_seen st)). g_id g = gid \<and> decided now lk dark g) \<and>
    (new = [] \<longrightarrow> se_brokers (tick now lk dark current st) = se_brokers st)"
  using tick_only [OF assms] by (simp add: settles_only_def)

definition ex_settler :: auto_settle where
  "ex_settler = \<lparr>se_brokers = [(''kalshi'', ex_held)], se_settled = [], se_hits = [], se_seen = [], se_unresolved = []\<rparr>"

definition ex_game :: event_group where
  "ex_game = \<lparr>g_id = ''game'', g_title = ''game'', resolution_source_by_venue = [],
     g_legs = [\<lparr>leg_outcome = ''A'', leg_venue = ''kalshi'', is_yes_side = True\<rparr>], start_time = Some (Aware 1000),
     in_play = None, ended = Some True, g_source = ''manual''\<rparr>"

definition ex_final :: "string \<Rightarrow> quote option" where
  "ex_final oid = (if oid = ''A'' then Some \<lparr>q_outcome_id = ''A'', bid = 95 / 100, ask = 97 / 100, bid_size = None,
     ask_size = None, source_age_s = None\<rparr> else None)"

declare ex_settler_def [eval_rules] ex_game_def [eval_rules] ex_final_def [eval_rules]

theorem tick_settles_decided_only_witness:
  "se_settled (tick 2000 (\<lambda>_. None) ex_final [(''game'', ex_game)] ex_settler) = [''game''] \<and>
    decided 2000 (\<lambda>_. None) ex_final ex_game"
proof -
  have "\<forall>(gid, g) \<in> set [(''game'', ex_game)] \<union> set (se_seen ex_settler). g_id g = gid"
    by (simp add: ex_settler_def ex_game_def)
  from tick_settles_decided_only [OF this, of 2000 "\<lambda>_. None" ex_final]
  obtain new where new: "se_settled (tick 2000 (\<lambda>_. None) ex_final [(''game'', ex_game)] ex_settler) = new @ se_settled ex_settler"
    "\<forall>gid \<in> set new. \<exists>g \<in> snd ` (set [(''game'', ex_game)] \<union> set (se_seen ex_settler)). g_id g = gid \<and>
      decided 2000 (\<lambda>_. None) ex_final g" by blast
  have s: "se_settled ex_settler = []" "se_seen ex_settler = []" by (simp_all add: ex_settler_def)
  have "se_settled (tick 2000 (\<lambda>_. None) ex_final [(''game'', ex_game)] ex_settler) = [''game'']"
    by (simp add: tick_def s watch_group_def ex_settler_def settle_final_def eval_rules del: ex_held_def settle_group_def)
  with new s show ?thesis by auto
qed

subsection \<open>The price route\<close>

lemma retire_group_registered:
  assumes "gid \<in> fst ` set current" "g_id (snd p) = fst p"
  shows "map_of (se_hits (retire_group now dark current st p)) gid = map_of (se_hits st) gid \<and>
    (gid \<in> set (se_settled (retire_group now dark current st p)) \<longleftrightarrow> gid \<in> set (se_settled st))"
proof (cases "fst p = gid")
  case True
  with assms(1) show ?thesis by (cases p) (simp add: retire_group_def)
next
  case False
  with assms(2) show ?thesis
    by (cases p) (auto simp: retire_group_def Let_def settle_final_def split: option.split)
qed

lemma watch_group_other:
  assumes "fst p \<noteq> gid" "g_id (snd p) = fst p"
  shows "map_of (se_hits (watch_group now lk dark st p)) gid = map_of (se_hits st) gid \<and>
    (gid \<in> set (se_settled (watch_group now lk dark st p)) \<longleftrightarrow> gid \<in> set (se_settled st))"
  using assms
  by (cases p) (auto simp: watch_group_def Let_def settle_final_def forget_hits_def count_hit_def split: option.split)

lemma foldl_frame:
  assumes "\<And>st p. p \<in> set ps \<Longrightarrow> map_of (se_hits (f st p)) gid = map_of (se_hits st) gid \<and>
      (gid \<in> set (se_settled (f st p)) \<longleftrightarrow> gid \<in> set (se_settled st))"
  shows "map_of (se_hits (foldl f st ps)) gid = map_of (se_hits st) gid \<and>
      (gid \<in> set (se_settled (foldl f st ps)) \<longleftrightarrow> gid \<in> set (se_settled st))"
  using assms by (induction ps arbitrary: st) auto

lemma watch_group_price:
  assumes "gid \<in> set (se_settled (watch_group now lk dark st (gid, g)))" "gid \<notin> set (se_settled st)"
    and "ended g \<noteq> Some True"
  shows "\<exists>w n. winning_side lk ASK_THRESHOLD g = Some w \<and> map_of (se_hits st) gid = Some (w, n) \<and> 2 \<le> n"
  using assms
  by (auto simp: watch_group_def Let_def forget_hits_def count_hit_def CONSECUTIVE_HITS_def
      split: if_splits option.splits)

text \<open>
  A price settles a live market only on the third tick in a row: a registered game the venue has not
  reported ended is settled by a tick only if the live book names a winner now and the two ticks before
  already counted the same winner.
\<close>

theorem tick_price_route:
  assumes "dict_ok current" "\<forall>(gid, g) \<in> set current \<union> set (se_seen st). g_id g = gid"
    and "(gid, g) \<in> set current" "ended g \<noteq> Some True"
    and "gid \<notin> set (se_settled st)" "gid \<in> set (se_settled (tick now lk dark current st))"
  shows "\<exists>w n. winning_side lk ASK_THRESHOLD g = Some w \<and> map_of (se_hits st) gid = Some (w, n) \<and> 2 \<le> n"
proof -
  let ?st1 = "foldl (retire_group now dark current) st (se_seen st)"
  have id: "g_id (snd p) = fst p" if "p \<in> set current \<union> set (se_seen st)" for p
    using bspec [OF assms(2) that] by (cases p) simp
  have "gid \<in> fst ` set current" using assms(3) by force
  then have r: "map_of (se_hits ?st1) gid = map_of (se_hits st) gid \<and>
      (gid \<in> set (se_settled ?st1) \<longleftrightarrow> gid \<in> set (se_settled st))"
    by (intro foldl_frame retire_group_registered id) auto
  from assms(3) obtain xs ys where c: "current = xs @ (gid, g) # ys" by (meson split_list)
  with assms(1) have "gid \<notin> fst ` set xs" "gid \<notin> fst ` set ys" by auto
  then have k: "fst p \<noteq> gid" if "p \<in> set xs \<union> set ys" for p using that by (auto simp: image_iff)
  let ?st2 = "foldl (watch_group now lk dark) ?st1 xs"
  let ?st3 = "watch_group now lk dark ?st2 (gid, g)"
  have f2: "map_of (se_hits ?st2) gid = map_of (se_hits ?st1) gid \<and>
      (gid \<in> set (se_settled ?st2) \<longleftrightarrow> gid \<in> set (se_settled ?st1))"
    using k c by (intro foldl_frame watch_group_other id) auto
  have f3: "gid \<in> set (se_settled (foldl (watch_group now lk dark) ?st3 ys)) \<longleftrightarrow> gid \<in> set (se_settled ?st3)"
    using k c by (intro foldl_frame [THEN conjunct2] watch_group_other id) auto
  have "tick now lk dark current st = foldl (watch_group now lk dark) ?st3 ys" unfolding tick_def by (simp add: c)
  with assms(5,6) r f2 f3 have "gid \<in> set (se_settled ?st3)" "gid \<notin> set (se_settled ?st2)" by auto
  from watch_group_price [OF this assms(4)] r f2 show ?thesis by simp
qed

definition ex_live_game :: event_group where
  "ex_live_game = ex_game\<lparr>ended := None\<rparr>"

definition ex_pinned :: "string \<Rightarrow> quote option" where
  "ex_pinned oid = map_option (\<lambda>q. q\<lparr>bid := 99 / 100, ask := 1\<rparr>) (ex_final oid)"

definition ex_two_hits :: auto_settle where
  "ex_two_hits = ex_settler\<lparr>se_hits := [(''game'', (True, 2))]\<rparr>"

declare ex_live_game_def [eval_rules] ex_pinned_def [eval_rules] ex_two_hits_def [eval_rules]

theorem tick_price_route_witness:
  "\<exists>w n. winning_side ex_pinned ASK_THRESHOLD ex_live_game = Some w \<and>
    map_of (se_hits ex_two_hits) ''game'' = Some (w, n) \<and> 2 \<le> n"
proof (rule tick_price_route [where current = "[(''game'', ex_live_game)]" and now = 2000 and dark = ex_pinned and gid = "''game''"])
  show "''game'' \<in> set (se_settled (tick 2000 ex_pinned ex_pinned [(''game'', ex_live_game)] ex_two_hits))"
    by (simp add: eval_rules)
qed (simp_all add: ex_two_hits_def ex_settler_def ex_live_game_def ex_game_def)

end
