(* ===== verification/Settlement.thy ===== *)
theory Settlement
  imports Paper_Broker
begin

section \<open>What a venue says a market settled at\<close>

text \<open>
  \<open>arbys/adapters/settlement.py\<close>. The HTTP client is a parameter: \<open>client k\<close> is the reply to the k-th
  request for the URL, a network error or a status with the parsed body. A body is what the code reads
  of it: the fields of a Kalshi market, where \<open>km_value\<close> is \<open>None\<close> when \<open>Decimal\<close> rejects the text, and the
  \<open>settlement\<close> entry of a Polymarket answer. \<open>retry_after\<close> is the parsed header, \<open>None\<close> when it is absent or
  unreadable.
\<close>

datatype 'b reply = HttpError | Reply nat "rat option" 'b

definition MAX_429_RETRIES :: nat where
  "MAX_429_RETRIES = 4"

definition MAX_RETRY_AFTER_S :: rat where
  "MAX_RETRY_AFTER_S = 30"

definition retry_wait :: "rat option \<Rightarrow> rat" where
  "retry_wait retry_after = min (max (case retry_after of None \<Rightarrow> 10 | Some w \<Rightarrow> w) 1) MAX_RETRY_AFTER_S"

text \<open>\<open>http_get\<close> returns the first reply that is not a 429 and the waits it slept before.\<close>

function http_get :: "(nat \<Rightarrow> 'b reply) \<Rightarrow> nat \<Rightarrow> (nat \<times> 'b) option \<times> rat list" where
  "http_get client attempt =
     (if MAX_429_RETRIES < attempt then (None, [])
      else case client attempt of
        HttpError \<Rightarrow> (None, [])
      | Reply status retry_after body \<Rightarrow>
          if status \<noteq> 429 then (Some (status, body), [])
          else if attempt = MAX_429_RETRIES then (None, [])
          else (case http_get client (Suc attempt) of (r, waits) \<Rightarrow> (r, retry_wait retry_after # waits)))"
  by pat_completeness auto

termination
  by (relation "measure (\<lambda>(_, attempt). Suc MAX_429_RETRIES - attempt)") auto

declare http_get.simps [simp del]

definition split_outcome :: "string \<Rightarrow> (string \<times> string) option" where
  "split_outcome oid =
     (if CHR '':'' \<notin> set oid then None
      else let side = rev (takeWhile (\<lambda>c. c \<noteq> CHR '':'') (rev oid));
               market = rev (tl (dropWhile (\<lambda>c. c \<noteq> CHR '':'') (rev oid)))
           in if market = [] then None else Some (market, side))"

record kalshi_market =
  km_status :: "string option"
  km_result :: "string option"
  km_value :: "rat option"

definition KALSHI_FINAL :: "string list" where
  "KALSHI_FINAL = [''finalized'', ''settled'']"

definition kalshi_yes_value :: "kalshi_market \<Rightarrow> rat option" where
  "kalshi_yes_value m =
     (if km_result m = Some ''yes'' then Some 1
      else if km_result m = Some ''no'' then Some 0
      else if km_result m = Some ''scalar''
      then (let v = (case km_value m of None \<Rightarrow> - 1 | Some x \<Rightarrow> x)
            in if 0 \<le> v \<and> v \<le> 1 then Some v else None)
      else None)"

definition fetch_kalshi_settlement :: "(string \<Rightarrow> nat \<Rightarrow> kalshi_market option reply) \<Rightarrow> string \<Rightarrow> rat option" where
  "fetch_kalshi_settlement client oid =
     (case split_outcome oid of None \<Rightarrow> None | Some (ticker, sd) \<Rightarrow>
        if sd \<notin> {''YES'', ''NO''} then None
        else case fst (http_get (client ticker) 0) of
          None \<Rightarrow> None
        | Some (status, body) \<Rightarrow>
            if status \<noteq> 200 then None
            else (case body of None \<Rightarrow> None | Some m \<Rightarrow>
              (case km_status m of None \<Rightarrow> None | Some s \<Rightarrow>
                 if s \<notin> set KALSHI_FINAL then None
                 else map_option (\<lambda>yes. if sd = ''YES'' then yes else dsub 1 yes) (kalshi_yes_value m))))"

datatype raw_settlement = RawNull | RawBool bool | RawBad | RawNum rat

definition fetch_polymarket_us_settlement :: "(string \<Rightarrow> nat \<Rightarrow> raw_settlement reply) \<Rightarrow> string \<Rightarrow> rat option" where
  "fetch_polymarket_us_settlement client oid =
     (case split_outcome oid of None \<Rightarrow> None | Some (slug, sd) \<Rightarrow>
        if sd \<notin> {''LONG'', ''SHORT''} then None
        else case fst (http_get (client slug) 0) of
          None \<Rightarrow> None
        | Some (status, raw) \<Rightarrow>
            if status \<noteq> 200 then None
            else (case raw of
                RawNum v \<Rightarrow> if 0 \<le> v \<and> v \<le> 1 then Some (if sd = ''LONG'' then v else dsub 1 v) else None
              | _ \<Rightarrow> None))"

declare MAX_429_RETRIES_def [eval_rules] MAX_RETRY_AFTER_S_def [eval_rules] retry_wait_def [eval_rules]
  http_get.simps [eval_rules] split_outcome_def [eval_rules] KALSHI_FINAL_def [eval_rules]
  kalshi_yes_value_def [eval_rules] fetch_kalshi_settlement_def [eval_rules]
  fetch_polymarket_us_settlement_def [eval_rules]

subsection \<open>The interface of a result source\<close>

text \<open>What settlement relies on: a published result is a payout, between nothing and one dollar.\<close>

locale resolver =
  fixes resolve :: "string \<Rightarrow> rat option"
  assumes payout_range: "resolve oid = Some v \<Longrightarrow> 0 \<le> v \<and> v \<le> 1"
begin

text \<open>Settling at a published result keeps every account solvent.\<close>

lemma settle_step: "resolve oid = Some v \<Longrightarrow> broker_step br (settle_outcome_async br oid v src)"
  using payout_range by (intro broker_step.settle_async) auto

lemma settle_solvent: "resolve oid = Some v \<Longrightarrow> broker_ok br \<Longrightarrow> broker_ok (settle_outcome_async br oid v src)"
  by (rule broker_step_ok [OF settle_step])

end

lemma complement_range: "0 \<le> v \<Longrightarrow> v \<le> 1 \<Longrightarrow> 0 \<le> dsub 1 v \<and> dsub 1 v \<le> 1"
  by (auto simp: dec_simps) (auto simp: dsub_def intro!: dec.le_fixed simp flip: dec_rep_def)

lemma kalshi_yes_range: "kalshi_yes_value m = Some v \<Longrightarrow> 0 \<le> v \<and> v \<le> 1"
  by (auto simp: kalshi_yes_value_def Let_def split: if_splits)

lemma fetch_kalshi_Some:
  assumes "fetch_kalshi_settlement client oid = Some v"
  shows "\<exists>ticker sd m s yes. split_outcome oid = Some (ticker, sd) \<and>
    fst (http_get (client ticker) 0) = Some (200, Some m) \<and> km_status m = Some s \<and> s \<in> set KALSHI_FINAL \<and>
    kalshi_yes_value m = Some yes \<and> (sd = ''YES'' \<and> v = yes \<or> sd = ''NO'' \<and> v = dsub 1 yes)"
  using assms by (auto simp: fetch_kalshi_settlement_def split: option.splits if_splits prod.splits)

lemma fetch_polymarket_Some:
  assumes "fetch_polymarket_us_settlement client oid = Some v"
  shows "\<exists>x. 0 \<le> x \<and> x \<le> 1 \<and> (v = x \<or> v = dsub 1 x)"
  using assms by (auto simp: fetch_polymarket_us_settlement_def
        split: option.splits if_splits prod.splits raw_settlement.splits)

interpretation kalshi_results: resolver "fetch_kalshi_settlement client" for client
proof
  fix oid v
  assume "fetch_kalshi_settlement client oid = Some v"
  then obtain m yes where "kalshi_yes_value m = Some yes" "v = yes \<or> v = dsub 1 yes"
    using fetch_kalshi_Some by blast
  then show "0 \<le> v \<and> v \<le> 1" using kalshi_yes_range [of m yes] complement_range [of yes] by auto
qed

interpretation polymarket_results: resolver "fetch_polymarket_us_settlement client" for client
proof
  fix oid v
  assume "fetch_polymarket_us_settlement client oid = Some v"
  then obtain x where "0 \<le> x" "x \<le> 1" "v = x \<or> v = dsub 1 x" using fetch_polymarket_Some by blast
  then show "0 \<le> v \<and> v \<le> 1" using complement_range [of x] by auto
qed

subsection \<open>Properties\<close>

text \<open>
  A Kalshi result is reported only for a market the venue calls finalized or settled, in an answer
  with status 200, and it is a payout: for a YES outcome the published value, for a NO outcome its
  complement, always between zero and one.
\<close>

theorem kalshi_settlement_published:
  assumes "fetch_kalshi_settlement client oid = Some v"
  shows "\<exists>ticker sd m s yes. split_outcome oid = Some (ticker, sd) \<and>
    fst (http_get (client ticker) 0) = Some (200, Some m) \<and> km_status m = Some s \<and> s \<in> set KALSHI_FINAL \<and>
    kalshi_yes_value m = Some yes \<and> (sd = ''YES'' \<and> v = yes \<or> sd = ''NO'' \<and> v = dsub 1 yes) \<and> 0 \<le> v \<and> v \<le> 1"
  using fetch_kalshi_Some [OF assms] kalshi_results.payout_range [OF assms] by blast

definition ex_kalshi :: "string \<Rightarrow> nat \<Rightarrow> kalshi_market option reply" where
  "ex_kalshi ticker k = (if k = 0 then Reply 429 (Some 10) None
     else Reply 200 None (Some \<lparr>km_status = Some ''finalized'', km_result = Some ''no'', km_value = None\<rparr>))"

declare ex_kalshi_def [eval_rules]

lemma ex_kalshi_fetch: "fetch_kalshi_settlement ex_kalshi ''KXNFL-1:NO'' = Some 1"
  by (simp add: eval_rules)

theorem kalshi_settlement_published_witness:
  "\<exists>ticker sd m s yes. split_outcome ''KXNFL-1:NO'' = Some (ticker, sd) \<and>
    fst (http_get (ex_kalshi ticker) 0) = Some (200, Some m) \<and> km_status m = Some s \<and> s \<in> set KALSHI_FINAL \<and>
    kalshi_yes_value m = Some yes \<and> (sd = ''YES'' \<and> 1 = yes \<or> sd = ''NO'' \<and> 1 = dsub 1 yes) \<and>
    (0::rat) \<le> 1 \<and> (1::rat) \<le> 1"
  by (rule kalshi_settlement_published [OF ex_kalshi_fetch])

lemma retry_wait_bounds: "1 \<le> retry_wait w \<and> retry_wait w \<le> 30"
  by (auto simp: retry_wait_def MAX_RETRY_AFTER_S_def)

text \<open>
  A throttled lookup ends: whatever the venue answers, at most five requests are made, each wait in
  between is one to thirty seconds, and a 429 is never taken for an answer.
\<close>

theorem http_get_bounded:
  "length (snd (http_get client k)) \<le> MAX_429_RETRIES - k \<and>
   list_all (\<lambda>w. 1 \<le> w \<and> w \<le> 30) (snd (http_get client k)) \<and>
   map_option fst (fst (http_get client k)) \<noteq> Some 429"
proof (induction client k rule: http_get.induct)
  case (1 client k)
  show ?case
  proof (cases "\<exists>w b. client k = Reply 429 w b \<and> k < MAX_429_RETRIES")
    case False
    then show ?thesis by (subst (1 2 3) http_get.simps) (auto split: reply.split)
  next
    case True
    then obtain w b where c: "client k = Reply 429 w b" and k: "k < MAX_429_RETRIES" by auto
    with 1 have IH: "length (snd (http_get client (Suc k))) \<le> MAX_429_RETRIES - Suc k \<and>
        list_all (\<lambda>w. 1 \<le> w \<and> w \<le> 30) (snd (http_get client (Suc k))) \<and>
        map_option fst (fst (http_get client (Suc k))) \<noteq> Some 429" by auto
    have "http_get client k = (fst (http_get client (Suc k)), retry_wait w # snd (http_get client (Suc k)))"
      using c k by (subst http_get.simps) (simp add: split_def)
    with IH k retry_wait_bounds [of w] show ?thesis by auto
  qed
qed

end
