(* ===== verification/Venue_Settle.thy ===== *)
theory Venue_Settle
  imports Settlement Cash
begin

section \<open>Settling at the venue's published result\<close>

text \<open>
  \<open>arbys/ingest/venue_settle_service.py\<close>: one pass over the brokers' open positions, then over the traded
  outcomes whose settlement record is missing. The venues' answers are the table \<open>resolvers\<close>, the database
  questions are \<open>already_settled\<close> and \<open>unrecorded\<close>. Waiting for an answer lets other coroutines run: what
  they do to the brokers while \<open>(venue, outcome)\<close> is looked up is the argument \<open>meanwhile\<close>, about which
  nothing is assumed. A set of held outcomes is a sorted list, the order in which the code visits it.
\<close>

type_synonym resolvers = "(string, string \<Rightarrow> rat option) dict"

type_synonym interference = "string \<Rightarrow> string \<Rightarrow> brokers \<Rightarrow> brokers"

definition SETTLEMENT_SOURCE :: string where
  "SETTLEMENT_SOURCE = ''venue_result''"

record pass_result =
  vr_checked :: nat
  vr_settled :: "(string \<times> string \<times> rat) list"
  vr_unresolved :: "(string \<times> string) list"
  vr_skipped_not_started :: nat
  vr_ghosts_closed :: "(string \<times> string) list"
  vr_recorded :: "(string \<times> string \<times> rat) list"

definition empty_result :: pass_result where
  "empty_result = \<lparr>vr_checked = 0, vr_settled = [], vr_unresolved = [], vr_skipped_not_started = 0,
     vr_ghosts_closed = [], vr_recorded = []\<rparr>"

record venue_pass =
  vp_brokers :: brokers
  vp_marked :: "string list"
  vp_held :: "(string, string list) dict"
  vp_result :: pass_result

record settle_env =
  ve_accounts :: "string list"
  ve_resolvers :: resolvers
  ve_groups :: "(string, event_group) dict"
  ve_already_settled :: "(string \<Rightarrow> bool) option"
  ve_unrecorded :: "(string \<times> string) list option"
  ve_now :: int
  ve_meanwhile :: interference

definition not_started :: "settle_env \<Rightarrow> (string \<times> string) list" where
  "not_started env = concat (map (\<lambda>(_, g). case start_time g of None \<Rightarrow> []
     | Some s \<Rightarrow> if ve_now env < as_utc s then map (\<lambda>l. (leg_venue l, leg_outcome l)) (g_legs g) else [])
     (ve_groups env))"

definition close_group :: "settle_env \<Rightarrow> string \<Rightarrow> string \<Rightarrow> string list" where
  "close_group env v oid =
     (case filter (\<lambda>(_, g). list_ex (\<lambda>l. leg_venue l = v \<and> leg_outcome l = oid) (g_legs g)) (ve_groups env) of
        [] \<Rightarrow> [] | (_, g) # _ \<Rightarrow> [g_id g])"

definition held :: "settle_env \<Rightarrow> paper_broker \<Rightarrow> string list" where
  "held env br = sort (remdups (concat (map (\<lambda>a. map fst (filter (\<lambda>(_, q). q \<noteq> 0) (get_positions br a)))
     (ve_accounts env))))"

definition on_result :: "(pass_result \<Rightarrow> pass_result) \<Rightarrow> venue_pass \<Rightarrow> venue_pass" where
  "on_result f vp = vp\<lparr>vp_result := f (vp_result vp)\<rparr>"

definition on_broker :: "(paper_broker \<Rightarrow> paper_broker) \<Rightarrow> string \<Rightarrow> venue_pass \<Rightarrow> venue_pass" where
  "on_broker f v vp = (case map_of (vp_brokers vp) v of None \<Rightarrow> vp
     | Some br \<Rightarrow> vp\<lparr>vp_brokers := dict_set v (f br) (vp_brokers vp)\<rparr>)"

definition mark_group :: "settle_env \<Rightarrow> string \<Rightarrow> string \<Rightarrow> venue_pass \<Rightarrow> venue_pass" where
  "mark_group env v oid vp = vp\<lparr>vp_marked := vp_marked vp @ close_group env v oid\<rparr>"

text \<open>The lookup: one more checked, then the other coroutines' changes, then the answer.\<close>

definition look_up :: "settle_env \<Rightarrow> (string \<Rightarrow> rat option) \<Rightarrow> string \<Rightarrow> string \<Rightarrow> venue_pass \<Rightarrow> venue_pass \<times> rat option" where
  "look_up env resolve v oid vp =
     (let vp' = on_result (\<lambda>r. r\<lparr>vr_checked := vr_checked r + 1\<rparr>) vp
      in (vp'\<lparr>vp_brokers := ve_meanwhile env v oid (vp_brokers vp')\<rparr>, resolve oid))"

subsection \<open>First phase: open positions\<close>

definition settle_held :: "settle_env \<Rightarrow> (string \<Rightarrow> rat option) \<Rightarrow> string \<Rightarrow> string \<Rightarrow> venue_pass \<Rightarrow> venue_pass" where
  "settle_held env resolve v oid vp =
     (if (v, oid) \<in> set (not_started env)
      then on_result (\<lambda>r. r\<lparr>vr_skipped_not_started := vr_skipped_not_started r + 1\<rparr>) vp
      else if (case ve_already_settled env of None \<Rightarrow> False | Some f \<Rightarrow> f oid)
      then mark_group env v oid (on_result (\<lambda>r. r\<lparr>vr_ghosts_closed := vr_ghosts_closed r @ [(v, oid)]\<rparr>)
             (on_broker (\<lambda>br. fst (close_already_settled br oid)) v vp))
      else (case look_up env resolve v oid vp of
          (vp', None) \<Rightarrow> on_result (\<lambda>r. r\<lparr>vr_unresolved := vr_unresolved r @ [(v, oid)]\<rparr>) vp'
        | (vp', Some value) \<Rightarrow>
            mark_group env v oid (on_result (\<lambda>r. r\<lparr>vr_settled := vr_settled r @ [(v, oid, value)]\<rparr>)
              (on_broker (\<lambda>br. settle_outcome_async br oid value SETTLEMENT_SOURCE) v vp'))))"

definition settle_venue :: "settle_env \<Rightarrow> string \<Rightarrow> venue_pass \<Rightarrow> venue_pass" where
  "settle_venue env v vp = (case (map_of (ve_resolvers env) v, map_of (vp_brokers vp) v) of
     (Some resolve, Some br) \<Rightarrow>
       (let hs = held env br in fold (settle_held env resolve v) hs (vp\<lparr>vp_held := dict_set v hs (vp_held vp)\<rparr>))
   | _ \<Rightarrow> vp)"

subsection \<open>Second phase: missing records\<close>

definition record_outcome :: "settle_env \<Rightarrow> string \<times> string \<Rightarrow> venue_pass \<Rightarrow> venue_pass" where
  "record_outcome env p vp = (case p of (v, oid) \<Rightarrow>
     (case (map_of (vp_brokers vp) v, map_of (ve_resolvers env) v) of
        (Some _, Some resolve) \<Rightarrow>
          if oid \<in> set (dict_get [] (vp_held vp) v) then vp
          else if (v, oid) \<in> set (not_started env) then vp
          else (case look_up env resolve v oid vp of
              (vp', None) \<Rightarrow> on_result (\<lambda>r. r\<lparr>vr_unresolved := vr_unresolved r @ [(v, oid)]\<rparr>) vp'
            | (vp', Some value) \<Rightarrow>
                (case map_of (vp_brokers vp') v of None \<Rightarrow> vp' | Some br \<Rightarrow>
                   if oid \<in> set (held env br) then vp'
                   else mark_group env v oid (on_result (\<lambda>r. r\<lparr>vr_recorded := vr_recorded r @ [(v, oid, value)]\<rparr>)
                          (on_broker (\<lambda>br. settle_outcome_async br oid value SETTLEMENT_SOURCE) v vp'))))
      | _ \<Rightarrow> vp))"

definition settle_pass :: "settle_env \<Rightarrow> brokers \<Rightarrow> venue_pass" where
  "settle_pass env bs =
     (let vp0 = \<lparr>vp_brokers = bs, vp_marked = [], vp_held = [], vp_result = empty_result\<rparr>;
          vp1 = fold (settle_venue env) (map fst bs) vp0
      in case ve_unrecorded env of None \<Rightarrow> vp1 | Some ps \<Rightarrow> fold (record_outcome env) ps vp1)"

subsection \<open>The service\<close>

record venue_settle =
  vs_brokers :: brokers
  vs_settled_total :: nat
  vs_ghosts_closed_total :: nat
  vs_recorded_total :: nat
  vs_last_result :: "pass_result option"

definition reset_counters :: "venue_settle \<Rightarrow> venue_settle" where
  "reset_counters vs = vs\<lparr>vs_settled_total := 0, vs_ghosts_closed_total := 0, vs_recorded_total := 0,
     vs_last_result := None\<rparr>"

definition last_unresolved :: "venue_settle \<Rightarrow> nat" where
  "last_unresolved vs = (case vs_last_result vs of None \<Rightarrow> 0 | Some r \<Rightarrow> length (vr_unresolved r))"

definition settle_once :: "settle_env \<Rightarrow> venue_settle \<Rightarrow> venue_settle \<times> string list" where
  "settle_once env vs = (let vp = settle_pass env (vs_brokers vs); r = vp_result vp in
     (vs\<lparr>vs_brokers := vp_brokers vp, vs_settled_total := vs_settled_total vs + length (vr_settled r),
        vs_ghosts_closed_total := vs_ghosts_closed_total vs + length (vr_ghosts_closed r),
        vs_recorded_total := vs_recorded_total vs + length (vr_recorded r), vs_last_result := Some r\<rparr>,
      vp_marked vp))"

declare SETTLEMENT_SOURCE_def [eval_rules] empty_result_def [eval_rules] not_started_def [eval_rules]
  close_group_def [eval_rules] held_def [eval_rules] on_result_def [eval_rules] on_broker_def [eval_rules]
  mark_group_def [eval_rules] look_up_def [eval_rules] settle_held_def [eval_rules] settle_venue_def [eval_rules]
  record_outcome_def [eval_rules] settle_pass_def [eval_rules] reset_counters_def [eval_rules]
  last_unresolved_def [eval_rules] settle_once_def [eval_rules]

subsection \<open>What a pass may pay\<close>

text \<open>Every entry of a result is justified by what the venue or the database answered.\<close>

definition settle_allowed :: "settle_env \<Rightarrow> string \<times> string \<times> rat \<Rightarrow> bool" where
  "settle_allowed env p = (case p of (v, oid, value) \<Rightarrow>
     (\<exists>resolve. map_of (ve_resolvers env) v = Some resolve \<and> resolve oid = Some value) \<and>
     (v, oid) \<notin> set (not_started env))"

definition seen_settled :: "settle_env \<Rightarrow> string \<Rightarrow> bool" where
  "seen_settled env oid = (case ve_already_settled env of None \<Rightarrow> False | Some f \<Rightarrow> f oid)"

definition justified :: "settle_env \<Rightarrow> pass_result \<Rightarrow> bool" where
  "justified env r \<longleftrightarrow> (\<forall>p \<in> set (vr_settled r). settle_allowed env p \<and> \<not> seen_settled env (fst (snd p))) \<and>
     (\<forall>p \<in> set (vr_recorded r). settle_allowed env p) \<and> (\<forall>(v, oid) \<in> set (vr_ghosts_closed r). seen_settled env oid)"

lemma result_frames [simp]:
  "vp_result (mark_group env v oid vp) = vp_result vp" "vp_result (on_broker f v vp) = vp_result vp"
  "vp_result (on_result h vp) = h (vp_result vp)" "vp_brokers (on_result h vp) = vp_brokers vp"
  "vp_brokers (mark_group env v oid vp) = vp_brokers vp" "vp_held (on_result h vp) = vp_held vp"
  by (simp_all add: mark_group_def on_broker_def on_result_def split: option.split)

lemma look_up_result:
  "look_up env resolve v oid vp = (vp', r) \<Longrightarrow> r = resolve oid \<and>
     vp_result vp' = (vp_result vp)\<lparr>vr_checked := vr_checked (vp_result vp) + 1\<rparr> \<and>
     vp_brokers vp' = ve_meanwhile env v oid (vp_brokers vp)"
  by (auto simp: look_up_def Let_def on_result_def)

lemma justified_checked [simp]: "justified env (r\<lparr>vr_checked := n\<rparr>) = justified env r"
  by (simp add: justified_def)

lemma settle_held_justified:
  assumes "map_of (ve_resolvers env) v = Some resolve" "justified env (vp_result vp)"
  shows "justified env (vp_result (settle_held env resolve v oid vp))"
proof -
  obtain vp' r where l: "look_up env resolve v oid vp = (vp', r)" by force
  from look_up_result [OF l] assms(2) have j: "justified env (vp_result vp')" and r: "r = resolve oid" by simp_all
  show ?thesis
    using assms j r
    by (auto simp: settle_held_def l justified_def settle_allowed_def seen_settled_def split: option.split)
qed

lemma fold_invariant: "(\<And>x s. x \<in> set xs \<Longrightarrow> P s \<Longrightarrow> P (f x s)) \<Longrightarrow> P s \<Longrightarrow> P (fold f xs s)"
  by (induction xs arbitrary: s) auto

lemma settle_venue_justified:
  "justified env (vp_result vp) \<Longrightarrow> justified env (vp_result (settle_venue env v vp))"
  unfolding settle_venue_def Let_def
  by (auto split: option.split intro!: fold_invariant [where P = "\<lambda>vp. justified env (vp_result vp)"] settle_held_justified)

lemma record_outcome_justified:
  assumes "justified env (vp_result vp)"
  shows "justified env (vp_result (record_outcome env p vp))"
proof (cases p)
  case (Pair v oid)
  show ?thesis
  proof (cases "map_of (ve_resolvers env) v")
    case None
    with assms Pair show ?thesis by (simp add: record_outcome_def split: option.split)
  next
    case (Some resolve)
    obtain vp' r where l: "look_up env resolve v oid vp = (vp', r)" by force
    from look_up_result [OF l] assms have j: "justified env (vp_result vp')" and r: "r = resolve oid" by simp_all
    show ?thesis using Pair Some assms j r
      by (auto simp: record_outcome_def l justified_def settle_allowed_def split: option.split)
  qed
qed

lemma settle_pass_justified: "justified env (vp_result (settle_pass env bs))"
proof -
  have "justified env empty_result" by (simp add: justified_def empty_result_def)
  then show ?thesis
    by (auto simp: settle_pass_def Let_def split: option.split
      intro!: fold_invariant [where P = "\<lambda>vp. justified env (vp_result vp)"] settle_venue_justified record_outcome_justified)
qed


definition ex_env :: settle_env where
  "ex_env = \<lparr>ve_accounts = [''demo''], ve_resolvers = [(''kalshi'', \<lambda>oid. if oid = ''A'' then Some 1 else None)],
     ve_groups = [], ve_already_settled = None, ve_unrecorded = Some [(''kalshi'', ''A'')], ve_now = 0,
     ve_meanwhile = \<lambda>_ _ bs. bs\<rparr>"

declare ex_env_def [eval_rules] seen_settled_def [eval_rules]


subsection \<open>Solvency\<close>

definition brokers_ok :: "brokers \<Rightarrow> bool" where
  "brokers_ok bs \<longleftrightarrow> dict_all broker_ok bs"

lemma on_broker_ok:
  "brokers_ok (vp_brokers vp) \<Longrightarrow> (\<And>br. broker_ok br \<Longrightarrow> broker_ok (f br)) \<Longrightarrow> brokers_ok (vp_brokers (on_broker f v vp))"
  by (auto simp: brokers_ok_def on_broker_def dict_all_iff split: option.split dest!: in_set_dict_set map_of_SomeD)

lemma settle_held_ok:
  assumes "resolver resolve" "\<And>v oid bs. brokers_ok bs \<Longrightarrow> brokers_ok (ve_meanwhile env v oid bs)" "brokers_ok (vp_brokers vp)"
  shows "brokers_ok (vp_brokers (settle_held env resolve v oid vp))"
proof -
  obtain vp' r where l: "look_up env resolve v oid vp = (vp', r)" by force
  from look_up_result [OF l] assms(2,3) have ok: "brokers_ok (vp_brokers vp')" and r: "r = resolve oid" by simp_all
  show ?thesis
    using assms ok r resolver.settle_solvent [OF assms(1)]
    by (auto simp: settle_held_def l intro!: on_broker_ok broker_ok_close split: option.split)
qed

lemma record_outcome_ok:
  assumes "\<And>v resolve. map_of (ve_resolvers env) v = Some resolve \<Longrightarrow> resolver resolve"
    and "\<And>v oid bs. brokers_ok bs \<Longrightarrow> brokers_ok (ve_meanwhile env v oid bs)" "brokers_ok (vp_brokers vp)"
  shows "brokers_ok (vp_brokers (record_outcome env p vp))"
proof (cases p)
  case (Pair v oid)
  show ?thesis
  proof (cases "map_of (ve_resolvers env) v")
    case None
    with assms Pair show ?thesis by (simp add: record_outcome_def split: option.split)
  next
    case (Some resolve)
    obtain vp' r where l: "look_up env resolve v oid vp = (vp', r)" by force
    from look_up_result [OF l] assms have j: "brokers_ok (vp_brokers vp')" and r: "r = resolve oid" by simp_all
    show ?thesis using Pair Some assms(3) j r resolver.settle_solvent [OF assms(1) [OF Some]]
      by (auto simp: record_outcome_def l intro!: on_broker_ok split: option.split)
  qed
qed

text \<open>
  A pass keeps the books solvent: if every venue's answers are payouts and the other coroutines keep
  the brokers solvent, so does the whole pass.
\<close>

theorem settle_pass_solvent:
  assumes "\<And>v resolve. map_of (ve_resolvers env) v = Some resolve \<Longrightarrow> resolver resolve"
    and "\<And>v oid bs. brokers_ok bs \<Longrightarrow> brokers_ok (ve_meanwhile env v oid bs)" "brokers_ok bs"
  shows "brokers_ok (vp_brokers (settle_pass env bs))"
proof -
  have s: "brokers_ok (vp_brokers (settle_venue env v vp))" if "brokers_ok (vp_brokers vp)" for v vp
    using that assms(1,2)
    by (auto simp: settle_venue_def Let_def split: option.split
      intro!: fold_invariant [where P = "\<lambda>vp. brokers_ok (vp_brokers vp)"] settle_held_ok)
  have "brokers_ok (vp_brokers (fold (settle_venue env) (map fst bs)
      \<lparr>vp_brokers = bs, vp_marked = [], vp_held = [], vp_result = empty_result\<rparr>))"
    using assms(3) s by (intro fold_invariant [where P = "\<lambda>vp. brokers_ok (vp_brokers vp)"]) auto
  then show ?thesis using record_outcome_ok [OF assms(1,2)]
    by (auto simp: settle_pass_def Let_def split: option.split
      intro!: fold_invariant [where P = "\<lambda>vp. brokers_ok (vp_brokers vp)"])
qed

definition ex_kalshi_env :: settle_env where
  "ex_kalshi_env = ex_env\<lparr>ve_resolvers := [(''kalshi'', fetch_kalshi_settlement ex_kalshi)]\<rparr>"

theorem settle_pass_solvent_witness:
  "brokers_ok (vp_brokers (settle_pass ex_kalshi_env [(''kalshi'', ex_held)]))"
proof (rule settle_pass_solvent)
  show "resolver resolve" if "map_of (ve_resolvers ex_kalshi_env) v = Some resolve" for v resolve
    using that kalshi_results.resolver_axioms [of ex_kalshi] by (simp add: ex_kalshi_env_def ex_env_def split: if_splits)
  show "brokers_ok (ve_meanwhile ex_kalshi_env v oid bs)" if "brokers_ok bs" for v oid bs
    using that by (simp add: ex_kalshi_env_def ex_env_def)
  have "broker_ok ex_held" using broker_reachable_ok [OF ex_held_reachable broker_ok_new] by simp
  then show "brokers_ok [(''kalshi'', ex_held)]" by (simp add: brokers_ok_def dict_all_def)
qed

subsection \<open>The record-only phase\<close>

lemma not_held:
  assumes "oid \<notin> set (held env br)" "a \<in> set (ve_accounts env)"
  shows "\<not> holds oid (acct br a)"
proof
  assume "holds oid (acct br a)"
  then obtain q where "map_of (get_positions br a) oid = Some q" "q \<noteq> 0"
    by (auto simp: holds_def get_positions_def dict_get_def split: option.splits)
  then have "oid \<in> set (map fst (filter (\<lambda>(_, q). q \<noteq> 0) (get_positions br a)))" by (force dest: map_of_SomeD)
  with assms show False by (auto simp: held_def)
qed

text \<open>
  Writing a missing record moves no money: even if a fill landed while the venue was asked, recording
  an outcome leaves every listed account on every venue exactly as the other coroutines left it.
\<close>

theorem record_outcome_pays_nothing:
  assumes "map_of (vp_brokers (record_outcome env (v, oid) vp)) w = Some b'" "a \<in> set (ve_accounts env)"
  shows "\<exists>b. (map_of (vp_brokers vp) w = Some b \<or> map_of (ve_meanwhile env v oid (vp_brokers vp)) w = Some b) \<and>
    acct b' a = acct b a"
proof (cases "vp_brokers (record_outcome env (v, oid) vp) = vp_brokers vp")
  case True
  with assms show ?thesis by auto
next
  case False
  then obtain resolve where res: "map_of (ve_resolvers env) v = Some resolve"
    by (auto simp: record_outcome_def split: option.splits)
  obtain vp' r where l: "look_up env resolve v oid vp = (vp', r)" by force
  from look_up_result [OF l] have b: "vp_brokers vp' = ve_meanwhile env v oid (vp_brokers vp)" by simp
  show ?thesis
  proof (cases "vp_brokers (record_outcome env (v, oid) vp) = vp_brokers vp'")
    case True
    with assms b show ?thesis by auto
  next
    case neq: False
    with False res obtain br x where br: "map_of (vp_brokers vp') v = Some br" "oid \<notin> set (held env br)"
      "vp_brokers (record_outcome env (v, oid) vp) = dict_set v (settle_outcome_async br oid x SETTLEMENT_SOURCE) (vp_brokers vp')"
      by (auto simp: record_outcome_def l on_broker_def split: option.splits if_splits)
    have "acct (settle_outcome_async br oid x SETTLEMENT_SOURCE) a = acct br a"
      using not_held [OF br(2) assms(2)] acct_settle [of br oid x a]
      by (simp add: settle_if_held_def acct_def settle_async_accounts)
    with assms br b show ?thesis by (auto split: if_splits)
  qed
qed

theorem record_outcome_pays_nothing_witness:
  "\<exists>b b'. map_of (vp_brokers (record_outcome ex_env (''kalshi'', ''A'')
      \<lparr>vp_brokers = [(''kalshi'', ex_broker)], vp_marked = [], vp_held = [], vp_result = empty_result\<rparr>)) ''kalshi'' = Some b' \<and>
    acct b' ''demo'' = acct b ''demo''"
proof -
  let ?vp = "\<lparr>vp_brokers = [(''kalshi'', ex_broker)], vp_marked = [], vp_held = [], vp_result = empty_result\<rparr>"
  have "get_positions ex_broker ''demo'' = []" by (simp add: eval_rules)
  then have "held ex_env ex_broker = []" by (simp add: held_def ex_env_def)
  then have "\<exists>b'. map_of (vp_brokers (record_outcome ex_env (''kalshi'', ''A'') ?vp)) ''kalshi'' = Some b'"
    by (simp add: record_outcome_def look_up_def ex_env_def not_started_def on_broker_def on_result_def mark_group_def close_group_def)
  then obtain b' where b: "map_of (vp_brokers (record_outcome ex_env (''kalshi'', ''A'') ?vp)) ''kalshi'' = Some b'" by blast
  from record_outcome_pays_nothing [OF b, of "''demo''"] b show ?thesis by (auto simp: ex_env_def)
qed

end
