(* ===== verification/Auto_Trade.thy ===== *)
theory Auto_Trade
  imports Arb_Engine QuoteBook
begin

section \<open>The auto-trader\<close>

text \<open>
  \<open>AutoTradeService\<close> of \<open>arbys/ingest/auto_trade_service.py\<close>: \<open>handle\<close> for one published opportunity and the
  serial consumer loop \<open>_run\<close>. The injected callables are fields of \<open>trade_env\<close> over the world \<open>'w\<close> they act
  on; an event carries the opportunity with what the callables \<open>enabled\<close> and \<open>cross_venue_only\<close> answer and
  the (at most three) clock readings that handling it takes. The two windows are finite. \<open>handle\<close> is split
  where the submission happens: \<open>decide\<close> is everything before it and \<open>after_submit\<close> everything after.
\<close>

record auto_trade =
  cooldown_until :: "(string, rat) dict"
  nonfill_logged_until :: "(string, rat) dict"

record 'w trade_env =
  cooldown_s :: rat
  nonfill_log_s :: rat
  would_breach_cap :: "'w \<Rightarrow> arb_opportunity \<Rightarrow> bool res"
  would_start_too_late :: "'w \<Rightarrow> arb_opportunity \<Rightarrow> bool res"
  submit_ticket :: "arb_opportunity \<Rightarrow> bool \<Rightarrow> 'w \<Rightarrow> 'w \<times> string res"

record trade_event =
  ev_opp :: arb_opportunity
  ev_enabled :: bool
  ev_cross_only :: bool
  ev_t0 :: rat
  ev_t1 :: rat
  ev_t2 :: rat

datatype decision = Skip | Failed py_exc | Attempt bool

definition new_auto_trade :: auto_trade where
  "new_auto_trade = \<lparr>cooldown_until = [], nonfill_logged_until = []\<rparr>"

definition clear_cooldowns :: "auto_trade \<Rightarrow> auto_trade" where
  "clear_cooldowns svc = svc\<lparr>cooldown_until := [], nonfill_logged_until := []\<rparr>"

text \<open>A deadline blocks until it has passed, and is dropped when it has.\<close>

definition read_deadline :: "rat \<Rightarrow> string \<Rightarrow> (string, rat) dict \<Rightarrow> bool \<times> (string, rat) dict" where
  "read_deadline now g d = (case map_of d g of
     None \<Rightarrow> (False, d) | Some until \<Rightarrow> if now < until then (True, d) else (False, dict_pop g d))"

definition should_record_nonfill :: "'w trade_env \<Rightarrow> rat \<Rightarrow> string \<Rightarrow> auto_trade \<Rightarrow> bool \<times> auto_trade" where
  "should_record_nonfill env now g svc =
     (if nonfill_log_s env \<le> 0 then (True, svc)
      else case read_deadline now g (nonfill_logged_until svc) of (blocked, d) \<Rightarrow>
        (\<not> blocked, svc\<lparr>nonfill_logged_until := d\<rparr>))"

definition decide :: "'w trade_env \<Rightarrow> trade_event \<Rightarrow> auto_trade \<times> 'w \<Rightarrow> auto_trade \<times> decision" where
  "decide env ev st = (case st of (svc, w) \<Rightarrow>
     let opp = ev_opp ev; g = opp_group opp in
     if \<not> ev_enabled ev then (svc, Skip)
     else if ev_cross_only ev \<and> length (remdups (map al_venue (opp_legs opp))) < 2 then (svc, Skip)
     else case read_deadline (ev_t0 ev) g (cooldown_until svc) of (blocked, d) \<Rightarrow>
       if blocked then (svc, Skip)
       else let svc1 = svc\<lparr>cooldown_until := d\<rparr> in
         case would_breach_cap env w opp of
           Inl e \<Rightarrow> (svc1, Failed e)
         | Inr True \<Rightarrow> (svc1, Skip)
         | Inr False \<Rightarrow> (case would_start_too_late env w opp of
               Inl e \<Rightarrow> (svc1, Failed e)
             | Inr True \<Rightarrow> (svc1, Skip)
             | Inr False \<Rightarrow> (case should_record_nonfill env (ev_t1 ev) g svc1 of (rec, svc2) \<Rightarrow> (svc2, Attempt rec))))"

definition after_submit :: "'w trade_env \<Rightarrow> trade_event \<Rightarrow> bool \<Rightarrow> string \<Rightarrow> auto_trade \<Rightarrow> auto_trade" where
  "after_submit env ev rec status svc = (let g = opp_group (ev_opp ev) in
     if status = ''filled''
     then (let svc' = svc\<lparr>nonfill_logged_until := dict_pop g (nonfill_logged_until svc)\<rparr> in
       if 0 < cooldown_s env
       then svc'\<lparr>cooldown_until := dict_set g (flt_round (ev_t2 ev + cooldown_s env)) (cooldown_until svc')\<rparr>
       else svc')
     else if rec
     then svc\<lparr>nonfill_logged_until :=
            dict_set g (flt_round (ev_t2 ev + nonfill_log_s env)) (nonfill_logged_until svc)\<rparr>
     else svc)"

definition handle :: "'w trade_env \<Rightarrow> trade_event \<Rightarrow> auto_trade \<times> 'w \<Rightarrow> (auto_trade \<times> 'w) \<times> string option res" where
  "handle env ev st = (case decide env ev st of
     (svc, Skip) \<Rightarrow> ((svc, snd st), Inr None)
   | (svc, Failed e) \<Rightarrow> ((svc, snd st), Inl e)
   | (svc, Attempt rec) \<Rightarrow> (case submit_ticket env (ev_opp ev) rec (snd st) of
         (w, Inl e) \<Rightarrow> ((svc, w), Inl e)
       | (w, Inr status) \<Rightarrow> ((after_submit env ev rec status svc, w), Inr (Some status))))"

text \<open>The consumer: one event after the other; an exception is logged and the loop goes on.\<close>

definition handle_step :: "'w trade_env \<Rightarrow> auto_trade \<times> 'w \<Rightarrow> trade_event \<Rightarrow> auto_trade \<times> 'w" where
  "handle_step env st ev = fst (handle env ev st)"

definition run_queue :: "'w trade_env \<Rightarrow> auto_trade \<times> 'w \<Rightarrow> trade_event list \<Rightarrow> auto_trade \<times> 'w" where
  "run_queue env = foldl (handle_step env)"

declare new_auto_trade_def [eval_rules] clear_cooldowns_def [eval_rules] read_deadline_def [eval_rules]
  should_record_nonfill_def [eval_rules] decide_def [eval_rules] after_submit_def [eval_rules]
  handle_def [eval_rules] handle_step_def [eval_rules] run_queue_def [eval_rules]

subsection \<open>Windows\<close>

text \<open>
  What the cooldown and the non-fill window share: per group a deadline that blocks the events of the
  group while it is ahead, and that outlives every event before it unless one lifts it.
\<close>

locale window =
  fixes step :: "'s \<Rightarrow> 'e \<Rightarrow> 's" and deadline :: "'s \<Rightarrow> string \<Rightarrow> rat option"
    and passes :: "'s \<Rightarrow> 'e \<Rightarrow> bool" and lifts :: "'s \<Rightarrow> 'e \<Rightarrow> bool"
    and group_of :: "'e \<Rightarrow> string" and time :: "'e \<Rightarrow> rat"
  assumes blocked: "deadline s (group_of e) = Some u \<Longrightarrow> time e < u \<Longrightarrow> \<not> passes s e"
    and kept: "deadline s g = Some u \<Longrightarrow> time e < u \<Longrightarrow> group_of e \<noteq> g \<or> \<not> lifts s e \<Longrightarrow>
      deadline (step s e) g = Some u"
begin

fun undisturbed :: "string \<Rightarrow> 's \<Rightarrow> 'e list \<Rightarrow> bool" where
  "undisturbed g s [] = True"
| "undisturbed g s (e # es) = ((group_of e \<noteq> g \<or> \<not> lifts s e) \<and> undisturbed g (step s e) es)"

lemma kept_along:
  "deadline s g = Some u \<Longrightarrow> (\<forall>e \<in> set es. time e < u) \<Longrightarrow> undisturbed g s es \<Longrightarrow>
   deadline (foldl step s es) g = Some u"
proof (induction es arbitrary: s)
  case (Cons e es)
  then have "deadline (step s e) g = Some u" using kept [of s g u e] by simp
  with Cons show ?case by simp
qed simp

lemma spaced:
  assumes "deadline s (group_of e) = Some u" "\<forall>e' \<in> set es. time e' \<le> time e"
    and "undisturbed (group_of e) s es" "passes (foldl step s es) e"
  shows "u \<le> time e"
proof (rule ccontr)
  assume "\<not> u \<le> time e"
  then have lt: "time e < u" by simp
  with assms(2) have "\<forall>e' \<in> set es. time e' < u" by (meson le_less_trans)
  from kept_along [OF assms(1) this assms(3)] blocked [OF _ lt] assms(4) show False by blast
qed

end

abbreviation attempted :: "'w trade_env \<Rightarrow> auto_trade \<times> 'w \<Rightarrow> trade_event \<Rightarrow> bool" where
  "attempted env st ev \<equiv> \<exists>r. snd (decide env ev st) = Attempt r"

abbreviation logged :: "'w trade_env \<Rightarrow> auto_trade \<times> 'w \<Rightarrow> trade_event \<Rightarrow> bool" where
  "logged env st ev \<equiv> snd (decide env ev st) = Attempt True"

abbreviation filled :: "'w trade_env \<Rightarrow> auto_trade \<times> 'w \<Rightarrow> trade_event \<Rightarrow> bool" where
  "filled env st ev \<equiv> snd (handle env ev st) = Inr (Some ''filled'')"

lemma read_deadline_other [simp]: "g' \<noteq> g \<Longrightarrow> map_of (snd (read_deadline now g d)) g' = map_of d g'"
  by (auto simp: read_deadline_def split: option.split)

lemma read_deadline_frame: "read_deadline now g d = (b, d') \<Longrightarrow> g \<noteq> g' \<Longrightarrow> map_of d' g' = map_of d g'"
  using read_deadline_other [of g' g now d] by simp

lemma read_deadline_ahead: "map_of d g = Some u \<Longrightarrow> now < u \<Longrightarrow> read_deadline now g d = (True, d)"
  by (simp add: read_deadline_def)

lemma record_frame:
  "should_record_nonfill env now g svc = (b, svc') \<Longrightarrow> cooldown_until svc' = cooldown_until svc \<and>
     (g \<noteq> g' \<longrightarrow> map_of (nonfill_logged_until svc') g' = map_of (nonfill_logged_until svc) g')"
  by (auto simp: should_record_nonfill_def dest: read_deadline_frame split: prod.splits if_splits)

lemma decide_frame:
  assumes "opp_group (ev_opp ev) \<noteq> g"
  shows "map_of (cooldown_until (fst (decide env ev st))) g = map_of (cooldown_until (fst st)) g \<and>
    map_of (nonfill_logged_until (fst (decide env ev st))) g = map_of (nonfill_logged_until (fst st)) g"
proof -
  obtain svc w where st: "st = (svc, w)" by (cases st)
  obtain b d where d: "read_deadline (ev_t0 ev) (opp_group (ev_opp ev)) (cooldown_until svc) = (b, d)" by fastforce
  obtain r svc2 where r: "should_record_nonfill env (ev_t1 ev) (opp_group (ev_opp ev)) (svc\<lparr>cooldown_until := d\<rparr>) = (r, svc2)"
    by fastforce
  from read_deadline_frame [OF d assms] record_frame [OF r, of g] assms show ?thesis
    by (simp add: decide_def st Let_def d r split: sum.split bool.split)
qed

lemma cooldown_frame:
  assumes "opp_group (ev_opp ev) \<noteq> g"
  shows "map_of (cooldown_until (fst (handle_step env st ev))) g =
    map_of (cooldown_until (fst (decide env ev st))) g"
proof -
  obtain svc dec where d: "decide env ev st = (svc, dec)" by fastforce
  obtain w r where w: "submit_ticket env (ev_opp ev) (dec = Attempt True) (snd st) = (w, r)" by fastforce
  show ?thesis
    using assms w
    by (cases dec; cases r) (auto simp: handle_step_def handle_def d after_submit_def Let_def)
qed

interpretation cool: window "handle_step env" "\<lambda>st g. map_of (cooldown_until (fst st)) g" "attempted env"
  "\<lambda>_ _. False" "\<lambda>ev :: trade_event. opp_group (ev_opp ev)" ev_t0 for env
proof
  fix st :: "auto_trade \<times> 'a" and ev :: trade_event and g u
  obtain svc w where st: "st = (svc, w)" by (cases st)
  {
    assume "map_of (cooldown_until (fst st)) (opp_group (ev_opp ev)) = Some u" "ev_t0 ev < u"
    then show "\<not> attempted env st ev"
      by (simp add: decide_def st read_deadline_ahead Let_def)
  next
    assume d: "map_of (cooldown_until (fst st)) g = Some u" "ev_t0 ev < u"
    show "map_of (cooldown_until (fst (handle_step env st ev))) g = Some u"
    proof (cases "opp_group (ev_opp ev) = g")
      case True
      with d show ?thesis by (simp add: handle_step_def handle_def decide_def st read_deadline_ahead Let_def)
    next
      case False
      then have "map_of (cooldown_until (fst (decide env ev st))) g = Some u"
        using d(1) decide_frame [of ev g env st] by simp
      with cooldown_frame [of ev g env st] False show ?thesis by simp
    qed
  }
qed

lemma decide_window_ahead:
  assumes "map_of (nonfill_logged_until (fst st)) (opp_group (ev_opp ev)) = Some u" "ev_t1 ev < u" "0 < nonfill_log_s env"
  shows "snd (decide env ev st) \<noteq> Attempt True \<and> nonfill_logged_until (fst (decide env ev st)) = nonfill_logged_until (fst st)"
proof -
  obtain svc w where st: "st = (svc, w)" by (cases st)
  obtain b d where d: "read_deadline (ev_t0 ev) (opp_group (ev_opp ev)) (cooldown_until svc) = (b, d)" by fastforce
  have "should_record_nonfill env (ev_t1 ev) (opp_group (ev_opp ev)) (svc\<lparr>cooldown_until := d\<rparr>) =
      (False, svc\<lparr>cooldown_until := d\<rparr>)"
    using assms by (simp add: should_record_nonfill_def st read_deadline_ahead)
  then show ?thesis by (simp add: decide_def st Let_def d split: sum.split bool.split)
qed

lemma handle_frame:
  assumes "opp_group (ev_opp ev) \<noteq> g \<or> snd (decide env ev st) \<noteq> Attempt True \<and> \<not> filled env st ev"
  shows "map_of (nonfill_logged_until (fst (handle_step env st ev))) g =
    map_of (nonfill_logged_until (fst (decide env ev st))) g"
proof -
  obtain svc dec where d: "decide env ev st = (svc, dec)" by fastforce
  obtain w r where w: "submit_ticket env (ev_opp ev) (dec = Attempt True) (snd st) = (w, r)" by fastforce
  show ?thesis
    using assms w
    by (cases dec; cases r) (auto simp: handle_step_def handle_def d after_submit_def Let_def)
qed

interpretation audit: window "handle_step env" "\<lambda>st g. if 0 < nonfill_log_s env then map_of (nonfill_logged_until (fst st)) g else None"
  "logged env" "filled env" "\<lambda>ev :: trade_event. opp_group (ev_opp ev)" ev_t1 for env
proof
  fix st :: "auto_trade \<times> 'a" and ev :: trade_event and g u
  let ?d = "\<lambda>st g. if 0 < nonfill_log_s env then map_of (nonfill_logged_until (fst st)) g else None"
  {
    assume "?d st (opp_group (ev_opp ev)) = Some u" "ev_t1 ev < u"
    then show "\<not> logged env st ev"
      using decide_window_ahead [of st ev u env] by (simp split: if_splits)
  next
    assume d: "?d st g = Some u" "ev_t1 ev < u" and l: "opp_group (ev_opp ev) \<noteq> g \<or> \<not> filled env st ev"
    show "?d (handle_step env st ev) g = Some u"
    proof (cases "opp_group (ev_opp ev) = g")
      case True
      with d l decide_window_ahead [of st ev u env] handle_frame [of ev g env st] show ?thesis
        by (simp split: if_splits)
    next
      case False
      with d decide_frame [of ev g env st] handle_frame [of ev g env st] show ?thesis by (simp split: if_splits)
    qed
  }
qed

text \<open>The deadlines a handled event leaves behind.\<close>

lemma fill_starts_cooldown:
  assumes "filled env st ev" "0 < cooldown_s env"
  shows "map_of (cooldown_until (fst (handle_step env st ev))) (opp_group (ev_opp ev)) =
    Some (flt_round (ev_t2 ev + cooldown_s env))"
  using assms
  by (auto simp: handle_step_def handle_def after_submit_def Let_def
      split: prod.splits sum.splits decision.splits)

lemma logged_nonfill_starts_window:
  assumes "logged env st ev" "snd (handle env ev st) = Inr (Some s)" "s \<noteq> ''filled''"
  shows "map_of (nonfill_logged_until (fst (handle_step env st ev))) (opp_group (ev_opp ev)) =
    Some (flt_round (ev_t2 ev + nonfill_log_s env))"
  using assms
  by (auto simp: handle_step_def handle_def after_submit_def Let_def
      split: prod.splits sum.splits decision.splits)

lemma cool_undisturbed: "cool.undisturbed env g s evs"
  by (induction evs arbitrary: s) (simp_all add: cool.undisturbed.simps)

text \<open>
  C16: after a fill the group is left alone for the cooldown: whatever the consumer handles in between,
  the next opportunity of the same group that reaches submission does so no earlier than the cooldown
  after the clock reading of the fill.
\<close>

theorem cooldown_respected:
  assumes "snd (handle env a st) = Inr (Some ''filled'')" "0 < cooldown_s env"
    and "snd (decide env b (run_queue env (fst (handle env a st)) evs)) = Attempt r"
    and "opp_group (ev_opp b) = opp_group (ev_opp a)" "\<forall>ev \<in> set evs. ev_t0 ev \<le> ev_t0 b"
  shows "flt_round (ev_t2 a + cooldown_s env) \<le> ev_t0 b"
proof (rule cool.spaced)
  show "map_of (cooldown_until (fst (handle_step env st a))) (opp_group (ev_opp b)) =
      Some (flt_round (ev_t2 a + cooldown_s env))"
    unfolding assms(4) by (rule fill_starts_cooldown [OF assms(1,2)])
  show "cool.undisturbed env (opp_group (ev_opp b)) (handle_step env st a) evs"
    by (rule cool_undisturbed)
qed (use assms(3,5) in \<open>auto simp: run_queue_def handle_step_def\<close>)

text \<open>The group is not filled while a list of events is handled.\<close>

fun no_fill :: "'w trade_env \<Rightarrow> string \<Rightarrow> auto_trade \<times> 'w \<Rightarrow> trade_event list \<Rightarrow> bool" where
  "no_fill env g st [] = True"
| "no_fill env g st (ev # evs) =
     (\<not> (opp_group (ev_opp ev) = g \<and> snd (handle env ev st) = Inr (Some ''filled'')) \<and>
      no_fill env g (handle_step env st ev) evs)"

lemma audit_undisturbed: "audit.undisturbed env g st evs = no_fill env g st evs"
  by (induction evs arbitrary: st) (auto simp: audit.undisturbed.simps)

text \<open>
  The ticket log is not flooded: after a recorded miss or rejection of a group, and until the group
  is filled, no other one of its misses is recorded before the window is over, while attempts go on.
\<close>

theorem nonfill_rows_spaced:
  assumes "snd (decide env a st) = Attempt True" "snd (handle env a st) = Inr (Some s)" "s \<noteq> ''filled''"
    and "0 < nonfill_log_s env" "no_fill env (opp_group (ev_opp a)) (fst (handle env a st)) evs"
    and "snd (decide env b (run_queue env (fst (handle env a st)) evs)) = Attempt True"
    and "opp_group (ev_opp b) = opp_group (ev_opp a)" "\<forall>ev \<in> set evs. ev_t1 ev \<le> ev_t1 b"
  shows "flt_round (ev_t2 a + nonfill_log_s env) \<le> ev_t1 b"
proof (rule audit.spaced)
  show "(if 0 < nonfill_log_s env
      then map_of (nonfill_logged_until (fst (handle_step env st a))) (opp_group (ev_opp b)) else None) =
      Some (flt_round (ev_t2 a + nonfill_log_s env))"
    using logged_nonfill_starts_window [OF assms(1-3)] assms(4,7) by simp
  show "audit.undisturbed env (opp_group (ev_opp b)) (handle_step env st a) evs"
    using assms(5,7) by (simp add: audit_undisturbed handle_step_def)
qed (use assms(6,8) in \<open>auto simp: run_queue_def handle_step_def\<close>)

definition ex_trade_env :: "nat trade_env" where
  "ex_trade_env = \<lparr>cooldown_s = 60, nonfill_log_s = 60, would_breach_cap = (\<lambda>_ _. Inr False),
     would_start_too_late = (\<lambda>_ _. Inr False),
     submit_ticket = (\<lambda>opp rec n. (Suc n, Inr (if even n then ''filled'' else ''missed'')))\<rparr>"

definition ex_event :: "rat \<Rightarrow> trade_event" where
  "ex_event t = \<lparr>ev_opp = ex_opp, ev_enabled = True, ev_cross_only = True, ev_t0 = t, ev_t1 = t, ev_t2 = t\<rparr>"

declare ex_trade_env_def [eval_rules] ex_event_def [eval_rules]

theorem cooldown_respected_witness:
  "snd (decide ex_trade_env (ex_event 70)
     (run_queue ex_trade_env (fst (handle ex_trade_env (ex_event 0) (new_auto_trade, 0))) [ex_event 30])) = Attempt True \<and>
   flt_round (0 + 60) \<le> 70"
proof -
  have "snd (handle ex_trade_env (ex_event 0) (new_auto_trade, 0)) = Inr (Some ''filled'')"
    by (simp add: eval_rules ex_opp_def)
  moreover have "0 < cooldown_s ex_trade_env" by (simp add: eval_rules)
  moreover have d: "snd (decide ex_trade_env (ex_event 70)
      (run_queue ex_trade_env (fst (handle ex_trade_env (ex_event 0) (new_auto_trade, 0))) [ex_event 30])) = Attempt True"
    by (simp add: eval_rules ex_opp_def)
  ultimately have "flt_round (ev_t2 (ex_event 0) + cooldown_s ex_trade_env) \<le> ev_t0 (ex_event 70)"
    by (rule cooldown_respected) (simp_all add: ex_event_def)
  with d show ?thesis by (simp add: ex_event_def ex_trade_env_def)
qed

theorem nonfill_rows_spaced_witness:
  "snd (decide ex_trade_env (ex_event 30)
     (run_queue ex_trade_env (fst (handle ex_trade_env (ex_event 0) (new_auto_trade, 1))) [])) = Attempt False \<and>
   flt_round (0 + 60) \<le> 61"
proof -
  have "snd (decide ex_trade_env (ex_event 0) (new_auto_trade, 1)) = Attempt True"
      "snd (handle ex_trade_env (ex_event 0) (new_auto_trade, 1)) = Inr (Some ''missed'')"
      "0 < nonfill_log_s ex_trade_env"
    by (simp_all add: eval_rules ex_opp_def)
  moreover have "snd (decide ex_trade_env (ex_event 61)
      (run_queue ex_trade_env (fst (handle ex_trade_env (ex_event 0) (new_auto_trade, 1))) [])) = Attempt True"
    by (simp add: eval_rules ex_opp_def)
  ultimately have "flt_round (ev_t2 (ex_event 0) + nonfill_log_s ex_trade_env) \<le> ev_t1 (ex_event 61)"
    using nonfill_rows_spaced [of ex_trade_env "ex_event 0" "(new_auto_trade, 1)" "''missed''" "[]" "ex_event 61"]
    by (simp add: ex_event_def)
  moreover have "snd (decide ex_trade_env (ex_event 30)
      (run_queue ex_trade_env (fst (handle ex_trade_env (ex_event 0) (new_auto_trade, 1))) [])) = Attempt False"
    by (simp add: eval_rules ex_opp_def)
  ultimately show ?thesis by (simp add: ex_event_def ex_trade_env_def)
qed

end
