(* ===== verification/App_State.thy ===== *)
theory App_State
  imports Config Engine_Runtime Auto_Settle Venue_Settle Auto_Trade
begin

section \<open>Application state\<close>

text \<open>
  \<open>AppState\<close> of \<open>arbys/backend/state.py\<close>: the object every request handler and service shares. The brokers
  are one table of shared objects that the router, the cash sweep and both settlers hold too; \<open>put_brokers\<close>
  writes it everywhere. Rows handed to the database are the log \<open>app_writes\<close> (\<open>run_write\<close> never raises; a
  dropped write is not distinguished). A subscriber's queue is the list of what it has not consumed yet.
  \<open>app_factories\<close> lists the venues an adapter can be built for, with the data path it would take.
\<close>

record ticket_row =
  tk_id :: string
  tk_account :: string
  tk_group :: string
  tk_title :: string
  tk_starts_at :: "py_datetime option"
  tk_source :: string
  tk_economics :: "(rat \<times> rat \<times> rat) option"

text \<open>Why a ticket was not filled; the formatted message of the code carries exactly these values.\<close>

datatype reason =
    Draining string
  | AlreadySettled string
  | StartsTooFarOut string rat rat
  | EdgeGone string
  | EdgeGoneForPair string
  | ImplausibleEdge rat string pynum nat rat
  | StaleLegSkew rat pynum "(string \<times> rat) list"
  | PositionCap string pynum rat rat
  | RouterRefused string

datatype db_write =
    TicketInsert ticket_row string "reason option"
  | TicketStatus string string "reason option"
  | RejectedLeg string string arb_leg string
  | OpportunityInsert arb_opportunity
  | HistoryDelete string
  | BalanceUpsert string string rat

record app =
  app_env :: env
  app_account :: string
  app_book :: quotebook
  app_engine :: engine
  app_groups :: "(string, event_group) dict"
  app_brokers :: brokers
  app_settler :: auto_settle
  app_sweep :: sweep
  app_venue_settle :: venue_settle
  app_trader :: auto_trade
  app_opps :: "(string, arb_opportunity list) dict"
  app_queues :: "arb_opportunity list list"
  app_draining :: bool
  app_inflight :: nat
  app_idle :: bool
  app_factories :: "(string, string) dict"
  app_modes :: "(string, string) dict"
  app_subscribed :: "(string, string list) dict"
  app_worker :: bool
  app_writes :: "db_write list"

definition DEFAULT_STARTING_BALANCE :: rat where
  "DEFAULT_STARTING_BALANCE = 4000"

definition put_brokers :: "brokers \<Rightarrow> app \<Rightarrow> app" where
  "put_brokers bs st = st\<lparr>app_brokers := bs, app_settler := (app_settler st)\<lparr>se_brokers := bs\<rparr>,
     app_sweep := (app_sweep st)\<lparr>sw_brokers := bs\<rparr>, app_venue_settle := (app_venue_settle st)\<lparr>vs_brokers := bs\<rparr>\<rparr>"

definition db :: "db_write list \<Rightarrow> app \<Rightarrow> app" where
  "db ws st = st\<lparr>app_writes := app_writes st @ ws\<rparr>"

subsection \<open>Construction\<close>

definition draftkings_enabled :: "env \<Rightarrow> bool" where
  "draftkings_enabled env \<longleftrightarrow> getenv env ''ARBYS_ENABLE_DRAFTKINGS'' ''0'' = ''1''"

definition app_fees :: "env \<Rightarrow> fee_registry" where
  "app_fees env = [(''polymarket_us'', polymarket_us_default), (''kalshi'', kalshi_default)] @
     (if draftkings_enabled env then [(''draftkings'', SportsbookFeeModel ''draftkings'')] else [])"

text \<open>A float limit that is infinite or NaN never makes a quote stale.\<close>

definition book_limit :: "pynum option \<Rightarrow> rat option" where
  "book_limit x = (case x of Some (Fin v) \<Rightarrow> Some v | _ \<Rightarrow> None)"

text \<open>\<open>stake\<close> and \<open>mq\<close> are what the ticket-stake and minimum-quantity knobs answer, when finite.\<close>

definition new_app :: "env \<Rightarrow> rat option \<Rightarrow> rat \<Rightarrow> (string, string) dict \<Rightarrow> app" where
  "new_app env stake mq factories =
     (let fees = app_fees env;
          bs = map (\<lambda>(v, m). (v, new_broker v m 0 (Some \<lparr>has_on_settled = True, sink_log = []\<rparr>))) fees
      in \<lparr>app_env = env, app_account = ''default'', app_book = empty_book (book_limit (quote_max_age_s env)),
          app_engine = new_engine fees stake mq (cross_venue_only env), app_groups = [], app_brokers = bs,
          app_settler = \<lparr>se_brokers = bs, se_settled = [], se_hits = [], se_seen = [], se_unresolved = []\<rparr>,
          app_sweep = \<lparr>sw_brokers = bs, sw_transfers = 0, sw_moved = 0, sw_writes = []\<rparr>,
          app_venue_settle = \<lparr>vs_brokers = bs, vs_settled_total = 0, vs_ghosts_closed_total = 0,
            vs_recorded_total = 0, vs_last_result = None\<rparr>,
          app_trader = new_auto_trade, app_opps = [], app_queues = [], app_draining = False, app_inflight = 0,
          app_idle = True, app_factories = factories, app_modes = [], app_subscribed = [], app_worker = False,
          app_writes = []\<rparr>)"

subsection \<open>Hydration and reset\<close>

definition at_account_broker :: "(paper_broker \<Rightarrow> paper_broker) \<Rightarrow> string \<Rightarrow> brokers \<Rightarrow> brokers" where
  "at_account_broker f v bs = (case map_of bs v of None \<Rightarrow> bs | Some br \<Rightarrow> dict_set v (f br) bs)"

text \<open>\<open>bootstrap\<close>: stored balances and positions, then a starting balance for each venue without one.\<close>

definition hydrate ::
  "(string \<times> rat) list \<Rightarrow> (string \<times> string \<times> rat \<times> rat \<times> rat \<times> rat) list \<Rightarrow> app \<Rightarrow> app" where
  "hydrate balances positions st =
     (let a = app_account st; bs = app_brokers st;
          bs1 = fold (\<lambda>(v, amount). at_account_broker (\<lambda>br. hydrate_balance br a amount) v) balances bs;
          bs2 = fold (\<lambda>(v, oid, qty, avg, realized, fees).
                  at_account_broker (\<lambda>br. hydrate_position br a oid qty avg realized fees) v) positions bs1;
          unfunded = filter (\<lambda>v. v \<notin> fst ` set balances) (map fst bs2);
          bs3 = fold (at_account_broker (\<lambda>br. hydrate_balance br a DEFAULT_STARTING_BALANCE)) unfunded bs2
      in db (map (\<lambda>v. BalanceUpsert a v DEFAULT_STARTING_BALANCE) unfunded) (put_brokers bs3 st))"

definition reset_paper_account :: "string \<Rightarrow> app \<Rightarrow> app" where
  "reset_paper_account a st =
     (let bs = map (\<lambda>(v, br). (v, hydrate_balance (reset_account br a) a DEFAULT_STARTING_BALANCE)) (app_brokers st);
          st1 = db (HistoryDelete a # map (\<lambda>(v, _). BalanceUpsert a v DEFAULT_STARTING_BALANCE) bs) (put_brokers bs st)
      in st1\<lparr>app_settler := clear_settled (app_settler st1), app_trader := clear_cooldowns (app_trader st1),
             app_sweep := (app_sweep st1)\<lparr>sw_transfers := 0, sw_moved := 0\<rparr>,
             app_venue_settle := reset_counters (app_venue_settle st1)\<rparr>)"

subsection \<open>Live opportunities and their subscribers\<close>

definition opp_fingerprint :: "arb_opportunity \<Rightarrow> string \<times> (string \<times> string \<times> bool \<times> rat \<times> rat) list" where
  "opp_fingerprint opp = (opp_group opp,
     map (\<lambda>a. (al_venue a, al_outcome a, al_is_buy a, al_price a, al_qty a)) (opp_legs opp))"

definition QUEUE_SIZE :: nat where
  "QUEUE_SIZE = 100"

definition put_nowait :: "arb_opportunity list \<Rightarrow> arb_opportunity \<Rightarrow> arb_opportunity list" where
  "put_nowait q opp = (if length q < QUEUE_SIZE then q @ [opp] else q)"

definition set_group_opportunities :: "string \<Rightarrow> arb_opportunity list \<Rightarrow> app \<Rightarrow> app" where
  "set_group_opportunities gid opps st =
     (let previous = map opp_fingerprint (dict_get [] (app_opps st) gid);
          st1 = st\<lparr>app_opps := (if opps \<noteq> [] then dict_set gid opps (app_opps st) else dict_pop gid (app_opps st))\<rparr>
      in fold (\<lambda>opp st. if opp_fingerprint opp \<in> set previous then st
           else db [OpportunityInsert opp] (st\<lparr>app_queues := map (\<lambda>q. put_nowait q opp) (app_queues st)\<rparr>)) opps st1)"

definition opportunities :: "app \<Rightarrow> arb_opportunity list" where
  "opportunities st = sort_key (\<lambda>opp. (- guaranteed_profit_bps opp, - guaranteed_profit opp))
     (concat (map snd (app_opps st)))"

definition clear_group_opportunities :: "string \<Rightarrow> app \<Rightarrow> app" where
  "clear_group_opportunities gid st = st\<lparr>app_opps := dict_pop gid (app_opps st)\<rparr>"

definition live_opportunities_for :: "app \<Rightarrow> rat \<Rightarrow> string \<Rightarrow> arb_opportunity list res" where
  "live_opportunities_for st now gid =
     evaluate_now (qb_get (app_book st) now) (app_engine st) (base_group_id gid)"

definition subscribe_opportunities :: "app \<Rightarrow> app" where
  "subscribe_opportunities st = st\<lparr>app_queues := app_queues st @ [[]]\<rparr>"

subsection \<open>Draining\<close>

definition begin_draining :: "app \<Rightarrow> app" where
  "begin_draining st = st\<lparr>app_draining := True\<rparr>"

definition enter_ticket :: "app \<Rightarrow> app" where
  "enter_ticket st = st\<lparr>app_inflight := Suc (app_inflight st), app_idle := False\<rparr>"

definition exit_ticket :: "app \<Rightarrow> app" where
  "exit_ticket st = (let n = app_inflight st - 1 in
     st\<lparr>app_inflight := n, app_idle := (if n = 0 then True else app_idle st)\<rparr>)"

subsection \<open>Subscriptions\<close>

definition MAX_EVENT_DURATION_S :: rat where
  "MAX_EVENT_DURATION_S = 6 * 60 * 60"

text \<open>\<open>outcome_id.rpartition(":")[0]\<close>: what stands before the last colon, empty if there is none.\<close>

definition market_slug :: "string \<Rightarrow> string" where
  "market_slug oid = rev (drop 1 (dropWhile (\<lambda>c. c \<noteq> CHR '':'') (rev oid)))"

text \<open>\<open>timedelta.total_seconds()\<close> of a distance in microseconds.\<close>

definition total_seconds :: "int \<Rightarrow> rat" where
  "total_seconds us = flt_round (of_int us / 10 ^ 6)"

definition confirmed_in_play_slugs :: "app \<Rightarrow> string list" where
  "confirmed_in_play_slugs st = remdups (concat (map (\<lambda>(_, g).
     if in_play g = Some True then map (\<lambda>l. market_slug (leg_outcome l)) (g_legs g) else []) (app_groups st)))"

definition group_in_play :: "int \<Rightarrow> event_group \<Rightarrow> bool" where
  "group_in_play now g = (case in_play g of Some b \<Rightarrow> b
   | None \<Rightarrow> (case start_time g of None \<Rightarrow> False
       | Some s \<Rightarrow> let elapsed = total_seconds (now - as_utc s) in 0 \<le> elapsed \<and> elapsed \<le> MAX_EVENT_DURATION_S))"

definition in_play_slugs :: "int \<Rightarrow> app \<Rightarrow> string list" where
  "in_play_slugs now st = remdups (concat (map (\<lambda>(_, g).
     if group_in_play now g then map (\<lambda>l. market_slug (leg_outcome l)) (g_legs g) else []) (app_groups st)))"

text \<open>The outcomes of every registered group, per venue; a venue's list is sorted and has no duplicates.\<close>

definition desired_outcomes :: "app \<Rightarrow> (string, string list) dict" where
  "desired_outcomes st = map (\<lambda>(v, oids). (v, sort (remdups oids)))
     (fold (\<lambda>l d. dict_set (leg_venue l) (dict_get [] d (leg_venue l) @ [leg_outcome l]) d)
        (concat (map (g_legs \<circ> snd) (app_groups st))) [])"

definition start_ingest :: "app \<Rightarrow> app" where
  "start_ingest st =
     (let built = filter (\<lambda>(v, _). map_of (app_factories st) v \<noteq> None) (desired_outcomes st);
          modes = fold (\<lambda>(v, _). dict_set v (dict_get [] (app_factories st) v)) built (app_modes st)
      in if built = [] then st else st\<lparr>app_modes := modes, app_subscribed := built, app_worker := True\<rparr>)"

definition stop_ingest :: "app \<Rightarrow> app" where
  "stop_ingest st = st\<lparr>app_worker := False, app_subscribed := [], app_modes := []\<rparr>"

definition restart_ingest :: "app \<Rightarrow> app" where
  "restart_ingest st = (if ingest_enabled (app_env st) then start_ingest (stop_ingest st) else st)"

definition missing_outcomes :: "app \<Rightarrow> (string, string list) dict" where
  "missing_outcomes st = filter (\<lambda>(_, oids). oids \<noteq> [])
     (map (\<lambda>(v, oids). (v, filter (\<lambda>oid. oid \<notin> set (dict_get [] (app_subscribed st) v)) oids)) (desired_outcomes st))"

definition sync_ingest :: "app \<Rightarrow> app" where
  "sync_ingest st =
     (if \<not> ingest_enabled (app_env st) then st
      else if missing_outcomes st = [] \<and> app_worker st then st
      else restart_ingest st)"

declare DEFAULT_STARTING_BALANCE_def [eval_rules] put_brokers_def [eval_rules] db_def [eval_rules]
  draftkings_enabled_def [eval_rules] app_fees_def [eval_rules] book_limit_def [eval_rules] new_app_def [eval_rules]
  at_account_broker_def [eval_rules] hydrate_def [eval_rules] reset_paper_account_def [eval_rules]
  opp_fingerprint_def [eval_rules] QUEUE_SIZE_def [eval_rules] put_nowait_def [eval_rules]
  set_group_opportunities_def [eval_rules] opportunities_def [eval_rules] clear_group_opportunities_def [eval_rules]
  live_opportunities_for_def [eval_rules] subscribe_opportunities_def [eval_rules] begin_draining_def [eval_rules]
  enter_ticket_def [eval_rules] exit_ticket_def [eval_rules] market_slug_def [eval_rules]
  total_seconds_def [eval_rules] confirmed_in_play_slugs_def [eval_rules] group_in_play_def [eval_rules]
  in_play_slugs_def [eval_rules] desired_outcomes_def [eval_rules] start_ingest_def [eval_rules]
  stop_ingest_def [eval_rules] restart_ingest_def [eval_rules] missing_outcomes_def [eval_rules]
  sync_ingest_def [eval_rules] MAX_EVENT_DURATION_S_def [eval_rules]

subsection \<open>Publication\<close>

text \<open>The opportunities of an evaluation that are news to a group.\<close>

definition news :: "app \<Rightarrow> string \<Rightarrow> arb_opportunity list \<Rightarrow> arb_opportunity list" where
  "news st gid opps = filter (\<lambda>opp. opp_fingerprint opp \<notin> opp_fingerprint ` set (dict_get [] (app_opps st) gid)) opps"

lemma publish_fold:
  "fold (\<lambda>opp st. if opp_fingerprint opp \<in> set prev then st
      else db [OpportunityInsert opp] (st\<lparr>app_queues := map (\<lambda>q. put_nowait q opp) (app_queues st)\<rparr>)) opps st =
   (let new = filter (\<lambda>opp. opp_fingerprint opp \<notin> set prev) opps
    in db (map OpportunityInsert new) (st\<lparr>app_queues := map (\<lambda>q. foldl put_nowait q new) (app_queues st)\<rparr>))"
  by (induction opps arbitrary: st) (auto simp: db_def Let_def)

lemma foldl_put_nowait: "foldl put_nowait q opps = q @ take (QUEUE_SIZE - length q) opps"
proof (induction opps arbitrary: q)
  case (Cons opp opps)
  have "QUEUE_SIZE - length q = Suc (QUEUE_SIZE - Suc (length q))" if "length q < QUEUE_SIZE"
    using that by simp
  with Cons show ?case by (auto simp: put_nowait_def not_less)
qed simp

text \<open>
  Publishing an evaluation makes it the group's live set, queues for every subscriber exactly the
  opportunities that are news (in order, as far as the queue of 100 has room) and writes one row for
  each; publishing the same evaluation again queues and writes nothing.
\<close>

theorem publish_only_news:
  "(let st' = set_group_opportunities gid opps st in
     dict_get [] (app_opps st') gid = opps \<and> (gid' \<noteq> gid \<longrightarrow> map_of (app_opps st') gid' = map_of (app_opps st) gid') \<and>
     app_queues st' = map (\<lambda>q. q @ take (QUEUE_SIZE - length q) (news st gid opps)) (app_queues st) \<and>
     app_writes st' = app_writes st @ map OpportunityInsert (news st gid opps) \<and>
     app_queues (set_group_opportunities gid opps st') = app_queues st' \<and>
     app_writes (set_group_opportunities gid opps st') = app_writes st')"
proof -
  have p: "app_queues (set_group_opportunities gid opps st) =
        map (\<lambda>q. q @ take (QUEUE_SIZE - length q) (news st gid opps)) (app_queues st) \<and>
      app_writes (set_group_opportunities gid opps st) = app_writes st @ map OpportunityInsert (news st gid opps)" for st
    by (simp add: set_group_opportunities_def publish_fold foldl_put_nowait Let_def db_def news_def)
  have g: "dict_get [] (app_opps (set_group_opportunities gid opps st)) gid = opps"
    by (simp add: set_group_opportunities_def publish_fold Let_def db_def dict_get_def)
  have "news (set_group_opportunities gid opps st) gid opps = []" by (simp add: news_def g filter_empty_conv)
  with p [of "set_group_opportunities gid opps st"] p [of st] g show ?thesis
    by (simp add: Let_def set_group_opportunities_def publish_fold db_def)
qed

theorem publish_only_news_witness:
  "app_queues (set_group_opportunities ''g'' [ex_opp] (subscribe_opportunities (new_app (\<lambda>_. None) None 0 []))) = [[ex_opp]] \<and>
   map_of (app_opps (set_group_opportunities ''g'' [ex_opp] (new_app (\<lambda>_. None) None 0 []))) ''h'' = None"
proof -
  have "app_queues (subscribe_opportunities (new_app (\<lambda>_. None) None 0 [])) = [[]]"
      "news (subscribe_opportunities (new_app (\<lambda>_. None) None 0 [])) ''g'' [ex_opp] = [ex_opp]"
      "app_opps (new_app (\<lambda>_. None) None 0 []) = []"
    by (simp_all add: subscribe_opportunities_def new_app_def news_def Let_def)
  with publish_only_news [of "''g''" "[ex_opp]" "subscribe_opportunities (new_app (\<lambda>_. None) None 0 [])"]
    publish_only_news [of "''g''" "[ex_opp]" "new_app (\<lambda>_. None) None 0 []" "''h''"] show ?thesis
    by (simp add: Let_def QUEUE_SIZE_def)
qed

subsection \<open>Subscriptions cover the registered groups\<close>

lemma fold_collect:
  "set (dict_get [] (fold (\<lambda>l d. dict_set (f l) (dict_get [] d (f l) @ [h l]) d) ls d) v) =
   set (dict_get [] d v) \<union> h ` {l \<in> set ls. f l = v}"
  by (induction ls arbitrary: d) auto

lemma desired_outcomes_set:
  "set (dict_get [] (desired_outcomes st) v) =
   {leg_outcome l | l g. g \<in> snd ` set (app_groups st) \<and> l \<in> set (g_legs g) \<and> leg_venue l = v}"
proof -
  let ?ls = "concat (map (g_legs \<circ> snd) (app_groups st))"
  let ?d = "fold (\<lambda>l d. dict_set (leg_venue l) (dict_get [] d (leg_venue l) @ [leg_outcome l]) d) ?ls []"
  have "dict_get [] (desired_outcomes st) v = sort (remdups (dict_get [] ?d v))"
    by (simp add: desired_outcomes_def dict_get_def map_of_map_values split: option.split)
  then have "set (dict_get [] (desired_outcomes st) v) = leg_outcome ` {l \<in> set ?ls. leg_venue l = v}"
    by (simp only: set_sort set_remdups fold_collect dict_get_Nil) simp
  also have "\<dots> = {leg_outcome l | l g. g \<in> snd ` set (app_groups st) \<and> l \<in> set (g_legs g) \<and> leg_venue l = v}"
    by auto
  finally show ?thesis .
qed

lemma map_of_filter_key: "map_of (filter (\<lambda>(k, _). P k) d) k = (if P k then map_of d k else None)"
  by (induction d) auto

definition covered :: "app \<Rightarrow> bool" where
  "covered st \<longleftrightarrow> (\<forall>v. map_of (app_factories st) v \<noteq> None \<longrightarrow>
     set (dict_get [] (desired_outcomes st) v) \<subseteq> set (dict_get [] (app_subscribed st) v))"

lemma missing_Nil:
  assumes "missing_outcomes st = []"
  shows "set (dict_get [] (desired_outcomes st) v) \<subseteq> set (dict_get [] (app_subscribed st) v)"
proof (cases "map_of (desired_outcomes st) v")
  case (Some oids)
  then have "(v, oids) \<in> set (desired_outcomes st)" by (rule map_of_SomeD)
  let ?m = "\<lambda>(v, oids). (v, filter (\<lambda>oid. oid \<notin> set (dict_get [] (app_subscribed st) v)) oids)"
  from \<open>(v, oids) \<in> set (desired_outcomes st)\<close> have "?m (v, oids) \<in> ?m ` set (desired_outcomes st)" by (rule imageI)
  have "\<forall>p \<in> ?m ` set (desired_outcomes st). snd p = []"
    using assms by (simp add: missing_outcomes_def filter_empty_conv case_prod_unfold)
  then have "snd (?m (v, oids)) = []" using \<open>?m (v, oids) \<in> ?m ` set (desired_outcomes st)\<close> by (rule bspec)
  then have "filter (\<lambda>oid. oid \<notin> set (dict_get [] (app_subscribed st) v)) oids = []" by simp
  with Some show ?thesis by (auto simp: dict_get_def [of "[]" "desired_outcomes st"] filter_empty_conv)
qed (simp add: dict_get_def)

lemma missing_NilI:
  assumes "dict_ok (desired_outcomes st)"
    and "\<And>v. set (dict_get [] (desired_outcomes st) v) \<subseteq> set (dict_get [] (app_subscribed st) v)"
  shows "missing_outcomes st = []"
proof -
  have "filter (\<lambda>oid. oid \<notin> set (dict_get [] (app_subscribed st) v)) oids = []"
    if "(v, oids) \<in> set (desired_outcomes st)" for v oids
  proof -
    have "dict_get [] (desired_outcomes st) v = oids"
      using map_of_is_SomeI [OF assms(1) that] by (simp add: dict_get_def)
    with assms(2) [of v] show ?thesis by (auto simp: filter_empty_conv)
  qed
  then show ?thesis by (auto simp: missing_outcomes_def filter_empty_conv)
qed

lemma desired_outcomes_ok: "dict_ok (desired_outcomes st)"
proof -
  have "dict_ok (fold (\<lambda>l d. dict_set (leg_venue l) (dict_get [] d (leg_venue l) @ [leg_outcome l]) d) ls d)"
    if "dict_ok d" for ls and d :: "(string, string list) dict"
    using that by (induction ls arbitrary: d) simp_all
  from this [of "[]"] show ?thesis by (simp add: desired_outcomes_def)
qed

text \<open>What a rebuild subscribes to.\<close>

lemma restart_subscribed:
  assumes "ingest_enabled (app_env st)"
  shows "dict_get [] (app_subscribed (restart_ingest st)) v =
    (if map_of (app_factories st) v \<noteq> None then dict_get [] (desired_outcomes st) v else [])"
proof -
  have d: "desired_outcomes (stop_ingest st) = desired_outcomes st" "app_factories (stop_ingest st) = app_factories st"
    by (simp_all add: desired_outcomes_def stop_ingest_def)
  let ?b = "filter (\<lambda>(v, _). map_of (app_factories st) v \<noteq> None) (desired_outcomes st)"
  have b: "map_of ?b v = (if map_of (app_factories st) v \<noteq> None then map_of (desired_outcomes st) v else None)"
    by (rule map_of_filter_key)
  show ?thesis
  proof (cases "?b = []")
    case True
    with assms have "app_subscribed (restart_ingest st) = []"
      by (simp add: restart_ingest_def start_ingest_def d Let_def) (simp add: stop_ingest_def)
    moreover have "map_of (app_factories st) v \<noteq> None \<Longrightarrow> map_of (desired_outcomes st) v = None"
      using b True by simp
    ultimately show ?thesis by (simp add: dict_get_def)
  next
    case False
    with assms have "app_subscribed (restart_ingest st) = ?b"
      by (simp add: restart_ingest_def start_ingest_def d Let_def)
    with b show ?thesis by (simp add: dict_get_def)
  qed
qed

lemma sync_frame:
  "app_groups (sync_ingest st) = app_groups st" "app_factories (sync_ingest st) = app_factories st"
  "app_env (sync_ingest st) = app_env st" "desired_outcomes (sync_ingest st) = desired_outcomes st"
  by (simp_all add: sync_ingest_def restart_ingest_def start_ingest_def stop_ingest_def desired_outcomes_def Let_def)

lemma sync_covered: "ingest_enabled (app_env st) \<Longrightarrow> covered (sync_ingest st)"
  using missing_Nil [of st] restart_subscribed [of st] sync_frame [of st]
  by (auto simp: covered_def sync_ingest_def split: if_splits)

lemma restart_worker:
  assumes "ingest_enabled (app_env st)" "set (dict_get [] (desired_outcomes st) v) \<noteq> {}" "map_of (app_factories st) v \<noteq> None"
  shows "app_worker (restart_ingest st)"
proof -
  have d: "desired_outcomes (stop_ingest st) = desired_outcomes st" "app_factories (stop_ingest st) = app_factories st"
    by (simp_all add: desired_outcomes_def stop_ingest_def)
  from assms(2) obtain oids where "(v, oids) \<in> set (desired_outcomes st)"
    using map_of_SomeD [of "desired_outcomes st" v] by (cases "map_of (desired_outcomes st) v") (auto simp: dict_get_def)
  with assms(3) have "filter (\<lambda>(v, _). map_of (app_factories st) v \<noteq> None) (desired_outcomes st) \<noteq> []"
    by (auto simp: filter_empty_conv)
  with assms(1) show ?thesis by (simp add: restart_ingest_def start_ingest_def d Let_def)
qed

text \<open>
  After a subscription sync with ingest on, every leg of every registered group whose venue has an
  adapter is subscribed, and when every venue has one a second sync leaves the sockets alone.
\<close>

theorem sync_ingest_covers:
  assumes "ingest_enabled (app_env st)" "g \<in> snd ` set (app_groups st)" "l \<in> set (g_legs g)"
    and "map_of (app_factories st) (leg_venue l) \<noteq> None"
  shows "leg_outcome l \<in> set (dict_get [] (app_subscribed (sync_ingest st)) (leg_venue l)) \<and>
    ((\<forall>v. set (dict_get [] (desired_outcomes st) v) \<noteq> {} \<longrightarrow> map_of (app_factories st) v \<noteq> None) \<longrightarrow>
       sync_ingest (sync_ingest st) = sync_ingest st)"
proof (intro conjI impI)
  have o: "leg_outcome l \<in> set (dict_get [] (desired_outcomes st) (leg_venue l))"
    using assms(2,3) by (auto simp: desired_outcomes_set)
  then have ne: "set (dict_get [] (desired_outcomes st) (leg_venue l)) \<noteq> {}" "dict_get [] (desired_outcomes st) (leg_venue l) \<noteq> []"
    by auto
  from sync_covered [OF assms(1)] have c: "set (dict_get [] (desired_outcomes st) v) \<subseteq>
      set (dict_get [] (app_subscribed (sync_ingest st)) v)" if "map_of (app_factories st) v \<noteq> None" for v
    using that by (auto simp: covered_def sync_frame)
  from c [OF assms(4)] o show "leg_outcome l \<in> set (dict_get [] (app_subscribed (sync_ingest st)) (leg_venue l))" by blast
  assume all: "\<forall>v. set (dict_get [] (desired_outcomes st) v) \<noteq> {} \<longrightarrow> map_of (app_factories st) v \<noteq> None"
  have "missing_outcomes (sync_ingest st) = []"
  proof (rule missing_NilI [OF desired_outcomes_ok])
    fix v
    show "set (dict_get [] (desired_outcomes (sync_ingest st)) v) \<subseteq> set (dict_get [] (app_subscribed (sync_ingest st)) v)"
      using c [of v] all by (cases "set (dict_get [] (desired_outcomes st) v) = {}") (simp_all add: sync_frame)
  qed
  moreover have "app_worker (sync_ingest st)"
    using restart_worker [OF assms(1) _ assms(4)] ne assms(1) by (auto simp: sync_ingest_def)
  ultimately show "sync_ingest (sync_ingest st) = sync_ingest st"
    by (simp add: sync_ingest_def [of "sync_ingest st"])
qed

definition ex_app :: app where
  "ex_app = (new_app ((\<lambda>_. None)(''ARBYS_ENABLE_INGEST'' := Some ''1'')) (Some 250) 5
     [(''kalshi'', ''websocket''), (''polymarket_us'', ''rest'')])\<lparr>app_groups := [(''g'', ex_group)]\<rparr>"

declare ex_app_def [eval_rules]

theorem sync_ingest_covers_witness:
  "''KY'' \<in> set (dict_get [] (app_subscribed (sync_ingest ex_app)) ''kalshi'')"
proof -
  have l: "ex_leg ''KY'' ''kalshi'' True \<in> set (g_legs ex_group)" by (simp add: ex_group_def)
  have e: "ingest_enabled (app_env ex_app)" "ex_group \<in> snd ` set (app_groups ex_app)"
    "map_of (app_factories ex_app) (leg_venue (ex_leg ''KY'' ''kalshi'' True)) \<noteq> None"
    by (simp_all add: ex_app_def new_app_def Let_def ingest_enabled_def getenv_def ex_leg_def)
  from sync_ingest_covers [OF e(1,2) l e(3)] show ?thesis by (simp add: ex_leg_def)
qed

text \<open>
  A registered leg on a venue no adapter can be built for defeats the no-rebuild rule: it is missing
  after every sync, so each following sync hangs up and redials every connection although nothing that
  could be subscribed is missing.
\<close>

theorem sync_rebuilds_without_factory:
  assumes "ingest_enabled (app_env st)" "g \<in> snd ` set (app_groups st)" "l \<in> set (g_legs g)"
    and "map_of (app_factories st) (leg_venue l) = None" "dict_get [] (app_subscribed st) (leg_venue l) = []"
  shows "sync_ingest (sync_ingest st) = restart_ingest (sync_ingest st) \<and> covered (sync_ingest st)"
proof -
  have o: "leg_outcome l \<in> set (dict_get [] (desired_outcomes st) (leg_venue l))"
    using assms(2,3) by (auto simp: desired_outcomes_set)
  have "missing_outcomes st \<noteq> []" using missing_Nil [of st "leg_venue l"] o assms(5) by auto
  then have r: "sync_ingest st = restart_ingest st" using assms(1) by (simp add: sync_ingest_def)
  have "dict_get [] (app_subscribed (sync_ingest st)) (leg_venue l) = []"
    unfolding r using restart_subscribed [OF assms(1)] assms(4) by simp
  with missing_Nil [of "sync_ingest st" "leg_venue l"] o have "missing_outcomes (sync_ingest st) \<noteq> []"
    by (auto simp: sync_frame)
  then show ?thesis
    using sync_covered [OF assms(1)] assms(1) by (simp add: sync_ingest_def [of "sync_ingest st"] sync_frame)
qed

theorem sync_rebuilds_without_factory_witness:
  "(let st = sync_ingest (ex_app\<lparr>app_factories := [(''kalshi'', ''websocket'')]\<rparr>) in
      sync_ingest st = restart_ingest st \<and> covered st)"
proof -
  let ?st = "ex_app\<lparr>app_factories := [(''kalshi'', ''websocket'')]\<rparr>"
  have l: "ex_leg ''PN'' ''polymarket_us'' False \<in> set (g_legs ex_group)" by (simp add: ex_group_def)
  have e: "ingest_enabled (app_env ?st)" "ex_group \<in> snd ` set (app_groups ?st)"
    "map_of (app_factories ?st) (leg_venue (ex_leg ''PN'' ''polymarket_us'' False)) = None"
    "dict_get [] (app_subscribed ?st) (leg_venue (ex_leg ''PN'' ''polymarket_us'' False)) = []"
    by (simp_all add: ex_app_def new_app_def Let_def ingest_enabled_def getenv_def ex_leg_def)
  from sync_rebuilds_without_factory [OF e(1,2) l e(3,4)] show ?thesis by (simp add: Let_def)
qed

end
