(* ===== verification/Loop_Health.thy ===== *)
theory Loop_Health
  imports QuoteBook
begin

section \<open>The lag of the event loop\<close>

text \<open>
  \<open>arbys/backend/loop_health.py\<close>: the window of lag samples and the percentiles \<open>/health\<close> reports. The two
  readings of the loop's clock around a sleep are arguments; starting and cancelling the task are not modelled.
\<close>

definition PROBE_INTERVAL_S :: rat where
  "PROBE_INTERVAL_S = 1"

definition WINDOW :: nat where
  "WINDOW = 60"

definition fmul :: "rat \<Rightarrow> rat \<Rightarrow> rat" where
  "fmul a b = flt_round (a * b)"

text \<open>\<open>round(x, 1)\<close> of a float\<close>

definition round_1 :: "rat \<Rightarrow> rat" where
  "round_1 x = flt_round (of_int (round_half_even (x * 10)) / 10)"

record lag_monitor =
  lm_interval :: rat
  lm_window :: nat
  lm_samples :: "rat list"

definition new_monitor :: "rat \<Rightarrow> nat \<Rightarrow> lag_monitor" where
  "new_monitor interval window = \<lparr>lm_interval = interval, lm_window = window, lm_samples = []\<rparr>"

text \<open>One turn of \<open>_run\<close>; the deque drops its oldest sample when it is full.\<close>

definition probe :: "rat \<Rightarrow> rat \<Rightarrow> lag_monitor \<Rightarrow> lag_monitor" where
  "probe before after m = (let xs = lm_samples m @ [max 0 (fsub (fsub after before) (lm_interval m))]
     in m\<lparr>lm_samples := drop (length xs - lm_window m) xs\<rparr>)"

record lag_stats =
  ls_samples :: nat
  ls_p50 :: rat
  ls_p95 :: rat
  ls_max :: rat

text \<open>\<open>p * n\<close> is a product of floats, cut to an integer.\<close>

definition lag_pct :: "rat list \<Rightarrow> rat \<Rightarrow> rat" where
  "lag_pct ordered p = (let n = length ordered in
     round_1 (fmul (ordered ! min (n - 1) (nat (truncate_rat (fmul (flt_round p) (of_nat n))))) 1000))"

definition lag_stats :: "lag_monitor \<Rightarrow> lag_stats" where
  "lag_stats m = (if lm_samples m = [] then \<lparr>ls_samples = 0, ls_p50 = 0, ls_p95 = 0, ls_max = 0\<rparr>
     else (let ordered = sort (lm_samples m) in
       \<lparr>ls_samples = length ordered, ls_p50 = lag_pct ordered (50 / 100), ls_p95 = lag_pct ordered (95 / 100),
        ls_max = round_1 (fmul (last ordered) 1000)\<rparr>))"

subsection \<open>Properties\<close>

lemma round_1_mono: "x \<le> y \<Longrightarrow> round_1 x \<le> round_1 y"
  unfolding round_1_def by (intro flt.mono divide_right_mono) (simp_all add: round_half_even_mono)

lemma fmul_mono: "x \<le> y \<Longrightarrow> 0 \<le> c \<Longrightarrow> fmul x c \<le> fmul y c"
  unfolding fmul_def by (intro flt.mono mult_right_mono)

lemma truncate_rat_mono: "0 \<le> x \<Longrightarrow> x \<le> y \<Longrightarrow> truncate_rat x \<le> truncate_rat y"
  by (simp add: truncate_rat_def floor_mono)

lemma lag_pct_last:
  assumes "sorted xs" "xs \<noteq> []" "\<forall>x \<in> set xs. 0 \<le> x"
  shows "0 \<le> lag_pct xs p" "lag_pct xs p \<le> round_1 (fmul (last xs) 1000)"
proof -
  let ?i = "min (length xs - 1) (nat (truncate_rat (fmul (flt_round p) (of_nat (length xs)))))"
  have i: "?i < length xs" using assms(2) by (cases xs) simp_all
  then have "xs ! ?i \<in> set xs" by (rule nth_mem)
  with assms(3) have "0 \<le> xs ! ?i" by blast
  then have "round_1 (fmul 0 1000) \<le> lag_pct xs p" unfolding lag_pct_def Let_def by (intro round_1_mono fmul_mono) auto
  moreover have "round_1 (fmul 0 1000) = 0" using round_half_even_of_int [of 0] by (simp add: fmul_def round_1_def)
  ultimately show "0 \<le> lag_pct xs p" by simp
  have "xs ! ?i \<le> xs ! (length xs - 1)" using assms(1) i by (intro sorted_nth_mono) auto
  then show "lag_pct xs p \<le> round_1 (fmul (last xs) 1000)" unfolding lag_pct_def Let_def last_conv_nth [OF assms(2)]
    by (intro round_1_mono fmul_mono) auto
qed

lemma lag_pct_mono:
  assumes "sorted xs" "xs \<noteq> []" "0 \<le> p" "p \<le> p'"
  shows "lag_pct xs p \<le> lag_pct xs p'"
proof -
  have "0 \<le> fmul (flt_round p) (of_nat (length xs))" using assms(3) by (simp add: fmul_def)
  moreover have "fmul (flt_round p) (of_nat (length xs)) \<le> fmul (flt_round p') (of_nat (length xs))"
    using assms(4) by (intro fmul_mono flt.mono) auto
  ultimately have "nat (truncate_rat (fmul (flt_round p) (of_nat (length xs)))) \<le> nat (truncate_rat (fmul (flt_round p') (of_nat (length xs))))"
    by (intro nat_mono truncate_rat_mono)
  then show ?thesis unfolding lag_pct_def Let_def using assms(1,2)
    by (intro round_1_mono fmul_mono sorted_nth_mono) (auto simp: min_less_iff_disj)
qed

definition run_probes :: "rat \<Rightarrow> nat \<Rightarrow> (rat \<times> rat) list \<Rightarrow> lag_monitor" where
  "run_probes interval window readings = foldl (\<lambda>m (before, after). probe before after m) (new_monitor interval window) readings"

lemma run_probes_ok:
  "length (lm_samples (run_probes i w rs)) \<le> w \<and> (\<forall>x \<in> set (lm_samples (run_probes i w rs)). 0 \<le> x) \<and> lm_window (run_probes i w rs) = w"
proof (induction rs rule: rev_induct)
  case (snoc r rs)
  obtain a b where r: "r = (a, b)" by force
  let ?m = "run_probes i w rs"
  have "run_probes i w (rs @ [r]) = probe a b ?m" by (simp add: run_probes_def r)
  with snoc show ?case by (auto simp: probe_def Let_def dest!: in_set_dropD)
qed (simp add: run_probes_def new_monitor_def)

text \<open>
  Whatever the clock reads, the lag report covers at most one window of samples, no figure of it is negative,
  and the median is at most the 95th percentile, which is at most the worst sample.
\<close>

theorem lag_report_ordered:
  "let s = lag_stats (run_probes interval window readings) in
     ls_samples s \<le> window \<and> 0 \<le> ls_p50 s \<and> ls_p50 s \<le> ls_p95 s \<and> ls_p95 s \<le> ls_max s"
proof (cases "lm_samples (run_probes interval window readings) = []")
  case False
  let ?xs = "sort (lm_samples (run_probes interval window readings))"
  have "set ?xs \<noteq> {}" using False by simp
  then have xs: "sorted ?xs" "?xs \<noteq> []" "\<forall>x \<in> set ?xs. 0 \<le> x" "length ?xs \<le> window"
    using run_probes_ok [of interval window readings] by (simp, metis empty_set, simp_all)
  have s: "lag_stats (run_probes interval window readings) = \<lparr>ls_samples = length ?xs, ls_p50 = lag_pct ?xs (50 / 100),
      ls_p95 = lag_pct ?xs (95 / 100), ls_max = round_1 (fmul (last ?xs) 1000)\<rparr>"
    unfolding lag_stats_def Let_def by (simp only: False if_False)
  have "lag_pct ?xs (50 / 100) \<le> lag_pct ?xs (95 / 100)" by (rule lag_pct_mono [OF xs(1,2)]) simp_all
  with lag_pct_last [OF xs(1-3)] xs(4) show ?thesis unfolding s Let_def by (simp only: lag_stats.simps simp_thms)
qed (simp add: lag_stats_def)

end
