(* ===== verification/Monitored.thy ===== *)
theory Monitored
  imports App_State Loop_Health
begin

section \<open>The monitored groups\<close>

text \<open>
  \<open>list_monitored\<close> and \<open>_rank_pairs\<close> of \<open>arbys/backend/app.py\<close> with the rows of \<open>schemas.py\<close>: for every
  registered group its legs with their quotes, the cheapest ask of each side, and the pair of legs the row
  describes. The clock is read twice per leg, \<open>clock k\<close> at the k-th reading. \<open>stake\<close> and \<open>mq\<close> are what
  the ticket-stake and minimum-quantity knobs answer.
\<close>

record pair_candidate =
  pc_net_edge :: rat
  pc_qty :: rat
  pc_uncapped_qty :: "rat option"
  pc_unit_cost :: rat
  pc_yes :: string
  pc_no :: string

text \<open>Python's \<open>max\<close>: the first of the greatest.\<close>

definition keep_max :: "('a \<Rightarrow> 'k::linorder) \<Rightarrow> 'a \<Rightarrow> 'a option \<Rightarrow> 'a option" where
  "keep_max key x best = (case best of None \<Rightarrow> Some x | Some b \<Rightarrow> if key b < key x then Some x else Some b)"

definition first_max :: "('a \<Rightarrow> 'k::linorder) \<Rightarrow> 'a list \<Rightarrow> 'a option" where
  "first_max key xs = fold (keep_max key) xs None"

definition fillable_pair :: "rat \<Rightarrow> pair_candidate \<Rightarrow> bool" where
  "fillable_pair mq c \<longleftrightarrow> 0 < pc_net_edge c \<and> 0 < pc_qty c \<and> mq \<le> pc_qty c"

definition rank_pairs :: "pair_candidate list \<Rightarrow> rat \<Rightarrow> pair_candidate option" where
  "rank_pairs candidates mq =
     (let fillable = filter (fillable_pair mq) candidates
      in if fillable \<noteq> [] then first_max (\<lambda>c. dmul (pc_net_edge c) (pc_qty c)) fillable
         else first_max (\<lambda>c. (0 < pc_qty c, pc_net_edge c)) candidates)"

definition price_pair ::
  "rat option \<Rightarrow> event_group_leg \<times> quote \<times> fee_model \<Rightarrow> event_group_leg \<times> quote \<times> fee_model \<Rightarrow> pair_candidate res" where
  "price_pair stake yc nc = (case (yc, nc) of ((y, yq, ym), (n, nq, nm)) \<Rightarrow>
     let y_unit = leg_unit_cost (ask yq) ym True;
         n_unit = leg_unit_cost (ask nq) nm True;
         depths = [ask_size yq, ask_size nq]
     in bindE (if \<exists>d \<in> set depths. d \<noteq> None
               then bindE (tradeable_qty (dadd y_unit n_unit) depths None DEFAULT_QTY_TICK) (\<lambda>u. Inr (Some u))
               else Inr None) (\<lambda>uncapped.
        bindE (tradeable_qty (dadd y_unit n_unit) depths stake DEFAULT_QTY_TICK) (\<lambda>qty.
        Inr \<lparr>pc_net_edge = net_edge_per_contract [y_unit, n_unit], pc_qty = qty, pc_uncapped_qty = uncapped,
          pc_unit_cost = dadd y_unit n_unit, pc_yes = leg_outcome y, pc_no = leg_outcome n\<rparr>)))"

text \<open>One iteration of the inner loop; \<open>None\<close> is a \<open>continue\<close>.\<close>

definition no_candidate ::
  "(string \<Rightarrow> quote option) \<Rightarrow> fee_registry \<Rightarrow> rat option \<Rightarrow> event_group_leg \<times> quote \<times> fee_model \<Rightarrow> event_group_leg
    \<Rightarrow> pair_candidate option res" where
  "no_candidate quoted fees stake yc n =
     (if leg_venue n = leg_venue (fst yc) then Inr None
      else case (quoted (leg_outcome n), map_of fees (leg_venue n)) of
        (Some nq, Some nm) \<Rightarrow> bindE (price_pair stake yc (n, nq, nm)) (\<lambda>c. Inr (Some c))
      | _ \<Rightarrow> Inr None)"

definition yes_candidates ::
  "(string \<Rightarrow> quote option) \<Rightarrow> fee_registry \<Rightarrow> rat option \<Rightarrow> event_group_leg list \<Rightarrow> event_group_leg
    \<Rightarrow> pair_candidate option list res" where
  "yes_candidates quoted fees stake no_legs y = (case (quoted (leg_outcome y), map_of fees (leg_venue y)) of
       (Some yq, Some ym) \<Rightarrow> mapE (no_candidate quoted fees stake (y, yq, ym)) no_legs
     | _ \<Rightarrow> Inr [])"

definition group_candidates ::
  "(string \<Rightarrow> quote option) \<Rightarrow> fee_registry \<Rightarrow> rat option \<Rightarrow> event_group_leg list \<Rightarrow> pair_candidate list res" where
  "group_candidates quoted fees stake legs =
     bindE (mapE (yes_candidates quoted fees stake (filter (\<lambda>l. \<not> is_yes_side l) legs)) (filter is_yes_side legs)) (\<lambda>css.
     Inr (List.map_filter id (concat css)))"

subsection \<open>Rows\<close>

record monitored_leg =
  ml_outcome :: string
  ml_venue :: string
  ml_yes :: bool
  ml_bid :: "rat option"
  ml_ask :: "rat option"
  ml_age :: "rat option"
  ml_stale :: bool
  ml_bid_size :: "rat option"
  ml_ask_size :: "rat option"

record monitored_group =
  mg_id :: string
  mg_title :: string
  mg_start :: "py_datetime option"
  mg_legs :: "monitored_leg list"
  mg_yes_ask :: "rat option"
  mg_yes_venue :: "string option"
  mg_no_ask :: "rat option"
  mg_no_venue :: "string option"
  mg_arb_edge :: "rat option"
  mg_has_arb :: bool
  mg_fully_quoted :: bool
  mg_net_edge :: "rat option"
  mg_max_qty :: "rat option"
  mg_net_max_profit :: "rat option"
  mg_capital :: "rat option"
  mg_uncapped_qty :: "rat option"
  mg_uncapped_capital :: "rat option"
  mg_pair_yes :: "string option"
  mg_pair_no :: "string option"

text \<open>What the book answered for each leg: the live quote, and the quote with its age however old.\<close>

type_synonym leg_read = "event_group_leg \<times> quote option \<times> (quote \<times> rat) option"

fun read_legs :: "quotebook \<Rightarrow> (nat \<Rightarrow> rat) \<Rightarrow> nat \<Rightarrow> event_group_leg list \<Rightarrow> leg_read list" where
  "read_legs b clock k [] = []"
| "read_legs b clock k (l # ls) =
     (l, qb_get b (clock k) (leg_outcome l), qb_get_with_age b (clock (Suc k)) (leg_outcome l)) # read_legs b clock (k + 2) ls"

definition leg_out :: "leg_read \<Rightarrow> monitored_leg" where
  "leg_out r = (case r of (l, q, aged) \<Rightarrow>
     \<lparr>ml_outcome = leg_outcome l, ml_venue = leg_venue l, ml_yes = is_yes_side l, ml_bid = map_option bid q,
      ml_ask = map_option ask q, ml_age = map_option (round_1 \<circ> snd) aged, ml_stale = (q = None \<and> aged \<noteq> None),
      ml_bid_size = Option.bind q bid_size, ml_ask_size = Option.bind q ask_size\<rparr>)"

text \<open>The cheapest ask of a side, the first leg of equal ones, with its venue.\<close>

definition cheaper :: "leg_read \<Rightarrow> (rat \<times> string) option \<Rightarrow> (rat \<times> string) option" where
  "cheaper r best = (case r of (l, q, _) \<Rightarrow> (case q of None \<Rightarrow> best
     | Some q \<Rightarrow> (case best of None \<Rightarrow> Some (ask q, leg_venue l)
         | Some (a, v) \<Rightarrow> if ask q < a then Some (ask q, leg_venue l) else best)))"

definition best_side :: "bool \<Rightarrow> leg_read list \<Rightarrow> (rat \<times> string) option" where
  "best_side yes reads = fold cheaper (filter (\<lambda>r. is_yes_side (fst r) = yes) reads) None"

definition read_quotes :: "leg_read list \<Rightarrow> string \<Rightarrow> quote option" where
  "read_quotes reads oid = Option.bind (map_of (rev (map (\<lambda>(l, q, _). (leg_outcome l, q)) reads)) oid) id"

definition monitored_row ::
  "fee_registry \<Rightarrow> rat option \<Rightarrow> rat \<Rightarrow> event_group \<Rightarrow> leg_read list \<Rightarrow> monitored_group res" where
  "monitored_row fees stake mq g reads =
     (let yes = best_side True reads; no = best_side False reads;
          edge = (case (yes, no) of (Some (y, _), Some (n, _)) \<Rightarrow> Some (dsub 1 (dadd y n)) | _ \<Rightarrow> None)
      in bindE (group_candidates (read_quotes reads) fees stake (g_legs g)) (\<lambda>candidates.
         let best = rank_pairs candidates mq
         in Inr \<lparr>mg_id = g_id g, mg_title = g_title g, mg_start = start_time g, mg_legs = map leg_out reads,
              mg_yes_ask = map_option fst yes, mg_yes_venue = map_option snd yes,
              mg_no_ask = map_option fst no, mg_no_venue = map_option snd no,
              mg_arb_edge = edge, mg_has_arb = (case edge of None \<Rightarrow> False | Some e \<Rightarrow> 0 < e),
              mg_fully_quoted = (\<forall>r \<in> set reads. fst (snd r) \<noteq> None),
              mg_net_edge = map_option pc_net_edge best, mg_max_qty = map_option pc_qty best,
              mg_net_max_profit = map_option (\<lambda>c. dmul (pc_net_edge c) (pc_qty c)) best,
              mg_capital = map_option (\<lambda>c. dmul (pc_unit_cost c) (pc_qty c)) best,
              mg_uncapped_qty = Option.bind best pc_uncapped_qty,
              mg_uncapped_capital = Option.bind best (\<lambda>c. map_option (dmul (pc_unit_cost c)) (pc_uncapped_qty c)),
              mg_pair_yes = map_option pc_yes best, mg_pair_no = map_option pc_no best\<rparr>))"

fun monitored_rows ::
  "fee_registry \<Rightarrow> rat option \<Rightarrow> rat \<Rightarrow> quotebook \<Rightarrow> (nat \<Rightarrow> rat) \<Rightarrow> nat \<Rightarrow> event_group list \<Rightarrow> monitored_group list res" where
  "monitored_rows fees stake mq b clock k [] = Inr []"
| "monitored_rows fees stake mq b clock k (g # gs) =
     bindE (monitored_row fees stake mq g (read_legs b clock k (g_legs g))) (\<lambda>row.
     bindE (monitored_rows fees stake mq b clock (k + 2 * length (g_legs g)) gs) (\<lambda>rows. Inr (row # rows)))"

definition row_key :: "monitored_group \<Rightarrow> bool \<times> bool \<times> rat" where
  "row_key r = (\<not> mg_has_arb r, mg_arb_edge r = None, - (case mg_arb_edge r of None \<Rightarrow> 0 | Some e \<Rightarrow> flt_round e))"

definition list_monitored :: "rat option \<Rightarrow> rat \<Rightarrow> (nat \<Rightarrow> rat) \<Rightarrow> app \<Rightarrow> monitored_group list res" where
  "list_monitored stake mq clock st =
     bindE (monitored_rows (en_fees (app_engine st)) stake mq (app_book st) clock 0 (map snd (app_groups st))) (\<lambda>rows.
     Inr (sort_key row_key rows))"

subsection \<open>Exact arithmetic\<close>

text \<open>
  Prices of at most four digits, fee rates of two, depths up to \<open>10 ^ 14\<close> and stakes up to \<open>10 ^ 4\<close>: then no
  operation on a pair rounds.
\<close>

definition exact_quote :: "quote \<Rightarrow> bool" where
  "exact_quote q \<longleftrightarrow> on_grid 4 (ask q) \<and> 0 \<le> ask q \<and> ask q \<le> 1 \<and> (\<forall>d. ask_size q = Some d \<longrightarrow> dec_rep d \<and> d \<le> 10 ^ 14)"

definition exact_rate :: "fee_model \<Rightarrow> bool" where
  "exact_rate m \<longleftrightarrow> on_grid 2 (fee_rate m) \<and> 0 \<le> fee_rate m \<and> fee_rate m \<le> 1"

lemma dec_exact: "on_grid k x \<Longrightarrow> 0 \<le> x \<Longrightarrow> x * 10 ^ k \<le> 10 ^ 28 \<Longrightarrow> dec_round x = x"
  using dec_rep_grid [of k x] by (simp add: dec_rep_def)

lemma dec_exact_le: "on_grid k x \<Longrightarrow> 0 \<le> x \<Longrightarrow> x \<le> b \<Longrightarrow> b * 10 ^ k \<le> 10 ^ 28 \<Longrightarrow> dec_round x = x"
  by (rule dec_exact) (auto intro: order_trans [OF mult_right_mono])

lemma on_grid_one [simp]: "on_grid k 1"
  by (rule on_gridI [of _ "10 ^ k"]) simp

definition unit_fee :: "fee_model \<Rightarrow> rat \<Rightarrow> rat" where
  "unit_fee m p = fee_rate m * p * (1 - p)"

lemma unit_fee_bounds:
  assumes "exact_rate m" "on_grid 4 p" "0 \<le> p" "p \<le> 1"
  shows "on_grid 10 (unit_fee m p)" "0 \<le> unit_fee m p" "unit_fee m p \<le> 1"
proof -
  have "on_grid 4 (1 - p)" using assms(2) by (simp add: on_grid_diff)
  with assms on_grid_mult [of 6 "fee_rate m * p" 4 "1 - p"] on_grid_mult [of 2 "fee_rate m" 4 p]
  show "on_grid 10 (unit_fee m p)" by (simp add: unit_fee_def exact_rate_def)
  show "0 \<le> unit_fee m p" using assms by (simp add: unit_fee_def exact_rate_def)
  have "fee_rate m * p \<le> 1 * 1" using assms by (intro mult_mono) (auto simp: exact_rate_def)
  then have "fee_rate m * p * (1 - p) \<le> 1 * 1" using assms by (intro mult_mono) (auto simp: exact_rate_def)
  then show "unit_fee m p \<le> 1" by (simp add: unit_fee_def)
qed

lemma unit_fee_exact:
  assumes "exact_rate m" "on_grid 4 p" "0 \<le> p" "p \<le> 1" "on_grid 2 q" "0 < q" "q \<le> 10 ^ 15"
  shows "fee m p q True = unit_fee m p * q" "on_grid 12 (unit_fee m p * q)" "0 \<le> unit_fee m p * q" "unit_fee m p * q \<le> q"
proof -
  note u = unit_fee_bounds [OF assms(1-4)]
  show g: "on_grid 12 (unit_fee m p * q)" using on_grid_mult [OF u(1) assms(5)] by simp
  show p: "0 \<le> unit_fee m p * q" using u assms by simp
  show l: "unit_fee m p * q \<le> q" using u assms mult_right_mono [of "unit_fee m p" 1 q] by simp
  have r: "0 \<le> fee_rate m" "fee_rate m \<le> 1" "on_grid 2 (fee_rate m)" using assms(1) by (auto simp: exact_rate_def)
  have rp: "p * fee_rate m \<le> 1" using r assms mult_mono [of p 1 "fee_rate m" 1] by simp
  have a: "dec_round (fee_rate m * p) = fee_rate m * p"
    using r assms rp on_grid_mult [of 2 "fee_rate m" 4 p] by (intro dec_exact [of 6]) (auto simp: mult.commute)
  have b: "dec_round (1 - p) = 1 - p" using assms by (intro dec_exact [of 4]) (auto intro: on_grid_diff)
  have c: "dec_round (unit_fee m p) = unit_fee m p" using u by (intro dec_exact [of 10]) auto
  have d: "dec_round (unit_fee m p * q) = unit_fee m p * q"
    by (rule dec_exact_le [OF g p order_trans [OF l assms(7)]]) simp
  have "quadratic_fee (fee_rate m) p q = unit_fee m p * q"
    using assms(6) by (simp add: quadratic_fee_def dmul_def dsub_def a b c d flip: unit_fee_def)
  then show "fee m p q True = unit_fee m p * q" by (cases m) (simp_all add: unit_fee_def)
qed

lemma unit_cost_exact:
  assumes "exact_rate m" "on_grid 4 p" "0 \<le> p" "p \<le> 1"
  shows "leg_unit_cost p m True = p + unit_fee m p" "on_grid 10 (p + unit_fee m p)" "0 \<le> p + unit_fee m p" "p + unit_fee m p \<le> 2"
proof -
  note u = unit_fee_bounds [OF assms]
  have f: "fee m p 1 True = unit_fee m p" using unit_fee_exact(1) [OF assms, of 1] by simp
  show g: "on_grid 10 (p + unit_fee m p)" using u(1) on_grid_mono [OF assms(2), of 10] by (simp add: on_grid_add)
  show b: "0 \<le> p + unit_fee m p" "p + unit_fee m p \<le> 2" using u assms by auto
  show "leg_unit_cost p m True = p + unit_fee m p" unfolding leg_unit_cost_def dadd_def f using g b by (intro dec_exact [of 10]) auto
qed

subsection \<open>The pair on the row is the pair the detector publishes\<close>

definition shows_pair :: "arb_opportunity \<Rightarrow> pair_candidate \<Rightarrow> bool" where
  "shows_pair opp c \<longleftrightarrow> map al_outcome (opp_legs opp) = [pc_yes c, pc_no c] \<and> (\<forall>a \<in> set (opp_legs opp). al_qty a = pc_qty c) \<and>
     guaranteed_profit opp = dmul (pc_net_edge c) (pc_qty c) \<and> total_stake opp = dmul (pc_unit_cost c) (pc_qty c)"

lemma size_bound:
  assumes "tradeable_qty c [ask_size yq, ask_size nq] stake (1 / 10 ^ 2) = Inr q" "0 < q"
    and "exact_quote yq" "exact_quote nq" "\<forall>m. stake = Some m \<longrightarrow> m \<le> 10 ^ 4" "on_grid 10 c"
  shows "on_grid 2 q" "q \<le> 10 ^ 15"
proof -
  have rep: "dec_rep d" "d \<le> 10 ^ 14" if "Some d \<in> set [ask_size yq, ask_size nq]" for d
    using that assms(3,4) by (auto simp: exact_quote_def)
  have r: "\<And>d. Some d \<in> set [ask_size yq, ask_size nq] \<Longrightarrow> dec_rep d" by (rule rep(1))
  show "on_grid 2 q" by (rule tradeable_qty_bounds(1) [OF assms(1) r assms(2)])
  show "q \<le> 10 ^ 15"
  proof (cases "\<exists>d. Some d \<in> set [ask_size yq, ask_size nq]")
    case True
    then obtain d where d: "Some d \<in> set [ask_size yq, ask_size nq]" by blast
    from tradeable_qty_bounds(2) [OF assms(1) r assms(2) d] rep(2) [OF d] show ?thesis by simp
  next
    case False
    then have none: "depth_qty [ask_size yq, ask_size nq] = None"
      unfolding depth_qty_None by (metis option.exhaust)
    show ?thesis
    proof (cases "0 < c \<and> (\<exists>m. stake = Some m \<and> 0 < m)")
      case True
      then obtain m where m: "stake = Some m" "0 < m" "0 < c" by blast
      from assms(6) obtain i where i: "c = of_int i / 10 ^ 10" by (rule on_gridE)
      with m(3) have "1 \<le> i" by simp
      then have "(1 :: rat) \<le> of_int i" by simp
      then have c: "1 / 10 ^ 10 \<le> c" unfolding i by (intro divide_right_mono) auto
      have "q * (1 / 10 ^ 10) \<le> q * c" using c assms(2) by (intro mult_left_mono) auto
      also have "\<dots> \<le> (1 + dec_eps) * m" by (rule tradeable_qty_bounds(3) [OF assms(1) r assms(2) m])
      also have "\<dots> \<le> 2 * 10 ^ 4" using m assms(5) by (intro mult_mono) (auto simp: dec_eps_def)
      finally show ?thesis by simp
    next
      case False
      with none have bq: "budget_qty (depth_qty [ask_size yq, ask_size nq]) c stake = Inr None"
        by (auto simp: budget_qty_def split: option.split)
      from assms(1,2) obtain qo q0 where "budget_qty (depth_qty [ask_size yq, ask_size nq]) c stake = Inr qo"
        "q0 = (case qo of None \<Rightarrow> LEGACY_UNBOUNDED_QTY | Some x \<Rightarrow> x)"
        "(if 0 < (1 / 10 ^ 2 :: rat) then round_down_tick q0 (1 / 10 ^ 2) else Inr q0) = Inr q" by (rule tradeable_qtyE)
      then have "round_down_tick 100 (1 / 10 ^ 2) = Inr q" by (simp add: bq LEGACY_UNBOUNDED_QTY_def)
      from round_down_tick_upper(2) [OF this] show ?thesis by (simp add: dec_eps_def power2_eq_square)
    qed
  qed
qed

lemma pair_profit:
  assumes "exact_quote yq" "exact_quote nq" "exact_rate ym" "exact_rate nm"
    and "cross_opportunity gid (y, yq, ym) (n, nq, nm) q = Inr r" "on_grid 2 q" "0 < q" "q \<le> 10 ^ 15"
    and "net = net_edge_per_contract [leg_unit_cost (ask yq) ym True, leg_unit_cost (ask nq) nm True]" "0 < net"
    and "c = dadd (leg_unit_cost (ask yq) ym True) (leg_unit_cost (ask nq) nm True)"
  shows "\<exists>opp. r = Some opp \<and> opp_legs opp = [buy_leg y (ask yq) q (fee ym (ask yq) q True), buy_leg n (ask nq) q (fee nm (ask nq) q True)] \<and>
    guaranteed_profit opp = dmul net q \<and> total_stake opp = dmul c q"
proof -
  have yq: "on_grid 4 (ask yq)" "0 \<le> ask yq" "ask yq \<le> 1" and nq: "on_grid 4 (ask nq)" "0 \<le> ask nq" "ask nq \<le> 1"
    using assms(1,2) by (auto simp: exact_quote_def)
  let ?fy = "unit_fee ym (ask yq)" and ?fn = "unit_fee nm (ask nq)"
  note uy = unit_cost_exact [OF assms(3) yq] and un = unit_cost_exact [OF assms(4) nq]
  note fy = unit_fee_exact [OF assms(3) yq assms(6-8)] and fn = unit_fee_exact [OF assms(4) nq assms(6-8)]
  let ?u = "(ask yq + ?fy) + (ask nq + ?fn)"
  have gu: "on_grid 10 ?u" by (rule on_grid_add [OF uy(2) un(2)])
  have u: "0 \<le> ?u" "?u \<le> 4" using uy un by auto
  have c: "c = ?u" unfolding assms(11) uy(1) un(1) dadd_def using gu u by (intro dec_exact [of 10]) auto
  have "dec_round (ask yq + ?fy) = ask yq + ?fy" using uy by (intro dec_exact [of 10]) auto
  then have "dsum [ask yq + ?fy, ask nq + ?fn] = ?u" using c unfolding assms(11) uy(1) un(1) by (simp add: dsum_def dadd_def)
  then have net: "net = dec_round (1 - ?u)" unfolding assms(9) by (simp add: net_edge_per_contract_def uy(1) un(1) dsub_def)
  with assms(10) have "0 < 1 - ?u" by simp
  moreover have "on_grid 10 (1 - ?u)" using gu by (simp add: on_grid_diff)
  ultimately have net: "net = 1 - ?u" using net u by (simp add: dec_exact [of 10])
  have g12: "on_grid 12 x" if "on_grid 10 z" "x = z * q" for x z using on_grid_mult [OF that(1) assms(6)] that(2) by simp
  have q12: "on_grid 12 q" using on_grid_mono [OF assms(6), of 12] by simp
  have py: "on_grid 12 (ask yq * q)" "0 \<le> ask yq * q" "ask yq * q \<le> q"
    using on_grid_mono [OF yq(1), of 10] g12 yq assms(7) mult_right_mono [of "ask yq" 1 q] by auto
  have pn: "on_grid 12 (ask nq * q)" "0 \<le> ask nq * q" "ask nq * q \<le> q"
    using on_grid_mono [OF nq(1), of 10] g12 nq assms(7) mult_right_mono [of "ask nq" 1 q] by auto
  have ex: "dec_round x = x" if "on_grid 12 x" "0 \<le> x" "x \<le> 8 * q" for x
    using that assms(8) by (intro dec_exact_le [of 12 x "8 * 10 ^ 15"]) auto
  have stake: "dadd (dadd (dadd (dmul (ask yq) q) (dmul (ask nq) q)) (fee ym (ask yq) q True)) (fee nm (ask nq) q True) = ?u * q"
    using py pn fy fn by (simp add: dadd_def dmul_def ex on_grid_add) (simp add: algebra_simps)
  have "?u * q < 1 * q" using \<open>0 < 1 - ?u\<close> assms(7) by (intro mult_strict_right_mono) auto
  moreover have "on_grid 12 (?u * q)" using g12 [OF gu] by simp
  moreover have "0 \<le> ?u * q" using u assms(7) by simp
  ultimately have uq: "0 \<le> ?u * q" "?u * q < q" "on_grid 12 (?u * q)" by simp_all
  have nq': "net * q = q - ?u * q" by (simp add: net left_diff_distrib)
  with uq q12 have profit: "0 < net * q" "on_grid 12 (net * q)" "net * q \<le> q" by (simp_all add: on_grid_diff)
  with assms(7) have "dec_round (net * q) = net * q" by (intro ex) linarith+
  then have stake_profit: "dsub q (?u * q) = net * q" by (simp add: dsub_def flip: nq')
  have ms: "dmul net q = net * q" "dmul c q = ?u * q"
    using \<open>dec_round (net * q) = net * q\<close> uq ex [of "?u * q"] assms(7) by (simp_all add: dmul_def c)
  show ?thesis using assms(5) stake_profit profit(1)
    by (auto simp: cross_opportunity_def Let_def stake res_simps ms not_le split: if_splits)
qed

text \<open>The two scans as one pass over the pairs of a YES and a NO leg.\<close>

definition detector_at ::
  "event_group \<Rightarrow> (string, quote) dict \<Rightarrow> fee_registry \<Rightarrow> sizing_params \<Rightarrow> event_group_leg \<times> event_group_leg
    \<Rightarrow> arb_opportunity option res" where
  "detector_at g quotes fees ps yn = (case yn of (y, n) \<Rightarrow>
     (case (map_of quotes (leg_outcome y), map_of fees (leg_venue y)) of
        (Some yq, Some ym) \<Rightarrow> cross_pair (g_id g) quotes fees ps (y, yq, ym) n | _ \<Rightarrow> Inr None))"

definition row_at ::
  "(string \<Rightarrow> quote option) \<Rightarrow> fee_registry \<Rightarrow> rat option \<Rightarrow> event_group_leg \<times> event_group_leg \<Rightarrow> pair_candidate option res" where
  "row_at quoted fees stake yn = (case yn of (y, n) \<Rightarrow> (case (quoted (leg_outcome y), map_of fees (leg_venue y)) of
       (Some yq, Some ym) \<Rightarrow> no_candidate quoted fees stake (y, yq, ym) n | _ \<Rightarrow> Inr None))"

lemma scan_best_append: "scan_best f (xs @ ys) b = bindE (scan_best f xs b) (scan_best f ys)"
  by (simp add: scan_best_def foldE_append)

lemma scan_best_map: "scan_best f (map h xs) b = scan_best (f \<circ> h) xs b"
  by (induction xs arbitrary: b) (simp_all add: scan_best_simps)

lemma scan_best_skip: "scan_best (\<lambda>_. Inr None) xs b = Inr b"
  by (induction xs arbitrary: b) (simp_all add: scan_best_simps better_def)

lemma detector_scan:
  "detect_cross_venue_two_leg g quotes fees ps =
     scan_best (detector_at g quotes fees ps) (List.product (filter is_yes_side (g_legs g)) (filter (\<lambda>l. \<not> is_yes_side l) (g_legs g))) None"
proof -
  let ?ys = "filter is_yes_side (g_legs g)" and ?ns = "filter (\<lambda>l. \<not> is_yes_side l) (g_legs g)"
  have one: "cross_yes_leg g quotes fees ps ?ns y b = scan_best (detector_at g quotes fees ps \<circ> Pair y) ?ns b" for y b
    by (auto simp: cross_yes_leg_scan detector_at_def comp_def scan_best_skip split: option.split)
  have "foldE (cross_yes_leg g quotes fees ps ?ns) ys b = scan_best (detector_at g quotes fees ps) (List.product ys ?ns) b" for ys b
    by (induction ys arbitrary: b) (simp_all add: scan_best_simps scan_best_append scan_best_map one cong: bindE_cong)
  moreover have "List.product ys [] = ([] :: (event_group_leg \<times> event_group_leg) list)" for ys by (induction ys) simp_all
  ultimately show ?thesis
    by (auto simp: detect_cross_venue_two_leg_def Let_def scan_best_simps)
qed

lemma mapE_append: "mapE f (xs @ ys) = bindE (mapE f xs) (\<lambda>a. bindE (mapE f ys) (\<lambda>b. Inr (a @ b)))"
  by (induction xs) (auto simp: bindE_def split: sum.splits)

lemma mapE_map: "mapE f (map h xs) = mapE (f \<circ> h) xs"
  by (induction xs) auto

lemma mapE_const: "mapE (\<lambda>_. Inr c) xs = Inr (replicate (length xs) c)"
  by (induction xs) auto

lemma map_filter_None [simp]: "List.map_filter id (replicate k None) = []"
  by (induction k) (auto simp: List.map_filter_def)

lemma map_filter_append: "List.map_filter f (xs @ ys) = List.map_filter f xs @ List.map_filter f ys"
  by (simp add: List.map_filter_def)

lemma row_candidates:
  "group_candidates quoted fees stake legs = bindE (mapE (row_at quoted fees stake)
     (List.product (filter is_yes_side legs) (filter (\<lambda>l. \<not> is_yes_side l) legs))) (\<lambda>os. Inr (List.map_filter id os))"
proof -
  let ?ns = "filter (\<lambda>l. \<not> is_yes_side l) legs" and ?at = "row_at quoted fees stake"
  have one: "bindE (yes_candidates quoted fees stake ?ns y) (\<lambda>os. Inr (List.map_filter id os)) =
      bindE (mapE ?at (map (Pair y) ?ns)) (\<lambda>os. Inr (List.map_filter id os))" for y
    by (auto simp: yes_candidates_def row_at_def mapE_map comp_def mapE_const List.map_filter_def split: option.split)
  have "bindE (mapE (yes_candidates quoted fees stake ?ns) ys) (\<lambda>css. Inr (List.map_filter id (concat css))) =
      bindE (mapE ?at (List.product ys ?ns)) (\<lambda>os. Inr (List.map_filter id os))" for ys
  proof (induction ys)
    case (Cons y ys)
    from one [of y] Cons show ?case
      by (cases "yes_candidates quoted fees stake ?ns y"; cases "mapE ?at (map (Pair y) ?ns)";
          cases "mapE (yes_candidates quoted fees stake ?ns) ys"; cases "mapE ?at (List.product ys ?ns)")
         (simp_all add: mapE_append map_filter_append id_def)
  qed simp
  then show ?thesis by (simp add: group_candidates_def)
qed

lemma first_max_filter: "first_max key (filter P xs) = fold (\<lambda>x b. if P x then keep_max key x b else b) xs None"
proof -
  have "fold (keep_max key) (filter P xs) b = fold (\<lambda>x b. if P x then keep_max key x b else b) xs b" for b
    by (induction xs arbitrary: b) auto
  then show ?thesis by (simp add: first_max_def)
qed

text \<open>One pair: what the row ranks as fillable is what the detector turns into an opportunity.\<close>

definition pair_agrees :: "rat \<Rightarrow> arb_opportunity option \<Rightarrow> pair_candidate option \<Rightarrow> bool" where
  "pair_agrees mq found cand \<longleftrightarrow> (case cand of None \<Rightarrow> found = None
     | Some c \<Rightarrow> if fillable_pair mq c then \<exists>opp. found = Some opp \<and> shows_pair opp c else found = None)"

definition exact_market :: "(string \<Rightarrow> quote option) \<Rightarrow> fee_registry \<Rightarrow> rat option \<Rightarrow> bool" where
  "exact_market quoted fees stake \<longleftrightarrow> (\<forall>oid q. quoted oid = Some q \<longrightarrow> exact_quote q) \<and>
     (\<forall>v m. map_of fees v = Some m \<longrightarrow> exact_rate m) \<and> (\<forall>m. stake = Some m \<longrightarrow> m \<le> 10 ^ 4)"

lemma pair_step_agrees:
  assumes "exact_market (map_of quotes) fees (max_ticket_stake ps)" "tick_by_venue ps = []"
    and "detector_at g quotes fees ps yn = Inr found" "row_at (map_of quotes) fees (max_ticket_stake ps) yn = Inr cand"
  shows "pair_agrees (min_qty ps) found cand"
proof -
  obtain y n where yn: "yn = (y, n)" by force
  show ?thesis
  proof (cases "map_of quotes (leg_outcome y) = None \<or> map_of fees (leg_venue y) = None \<or> leg_venue n = leg_venue y \<or>
      map_of quotes (leg_outcome n) = None \<or> map_of fees (leg_venue n) = None")
    case True
    with assms(3,4) show ?thesis
      by (auto simp: yn detector_at_def row_at_def cross_pair_def no_candidate_def pair_agrees_def split: option.splits if_splits)
  next
    case False
    then obtain yq ym nq nm where q: "map_of quotes (leg_outcome y) = Some yq" "map_of fees (leg_venue y) = Some ym"
      "leg_venue n \<noteq> leg_venue y" "map_of quotes (leg_outcome n) = Some nq" "map_of fees (leg_venue n) = Some nm" by auto
    define c where "c = dadd (leg_unit_cost (ask yq) ym True) (leg_unit_cost (ask nq) nm True)"
    define net where "net = net_edge_per_contract [leg_unit_cost (ask yq) ym True, leg_unit_cost (ask nq) nm True]"
    from assms(4) q obtain pc where pc: "cand = Some pc" "price_pair (max_ticket_stake ps) (y, yq, ym) (n, nq, nm) = Inr pc"
      by (auto simp: yn row_at_def no_candidate_def res_simps)
    then have size: "tradeable_qty c [ask_size yq, ask_size nq] (max_ticket_stake ps) (1 / 10 ^ 2) = Inr (pc_qty pc)"
      and pcs: "pc_net_edge pc = net" "pc_unit_cost pc = c" "pc_yes pc = leg_outcome y" "pc_no pc = leg_outcome n"
      by (auto simp: price_pair_def Let_def c_def net_def res_simps DEFAULT_QTY_TICK_def split: if_splits)
    then have "cross_size ps c (y, yq) (n, nq) = Inr (pc_qty pc)"
      using assms(2) by (simp add: cross_size_def leg_tick_def DEFAULT_QTY_TICK_def)
    then have found: "(if net \<le> 0 then Inr None else if pc_qty pc \<le> 0 \<or> pc_qty pc < min_qty ps then Inr None
        else cross_opportunity (g_id g) (y, yq, ym) (n, nq, nm) (pc_qty pc)) = Inr found"
      using assms(3) q by (simp add: yn detector_at_def cross_pair_def Let_def cong: if_cong flip: c_def net_def)
    show ?thesis
    proof (cases "fillable_pair (min_qty ps) pc")
      case False
      with found pc(1) show ?thesis by (auto simp: pair_agrees_def fillable_pair_def pcs split: if_splits)
    next
      case True
      then have pos: "0 < net" "0 < pc_qty pc" "min_qty ps \<le> pc_qty pc" by (simp_all add: fillable_pair_def pcs)
      have ex: "exact_quote yq" "exact_quote nq" "exact_rate ym" "exact_rate nm" "\<forall>m. max_ticket_stake ps = Some m \<longrightarrow> m \<le> 10 ^ 4"
        using assms(1) q unfolding exact_market_def by blast+
      have yq: "on_grid 4 (ask yq)" "0 \<le> ask yq" "ask yq \<le> 1" and nq: "on_grid 4 (ask nq)" "0 \<le> ask nq" "ask nq \<le> 1"
        using ex by (auto simp: exact_quote_def)
      note uy = unit_cost_exact [OF ex(3) yq] and un = unit_cost_exact [OF ex(4) nq]
      have "on_grid 10 ((ask yq + unit_fee ym (ask yq)) + (ask nq + unit_fee nm (ask nq)))" by (rule on_grid_add [OF uy(2) un(2)])
      moreover from this have "c = (ask yq + unit_fee ym (ask yq)) + (ask nq + unit_fee nm (ask nq))"
        unfolding c_def uy(1) un(1) dadd_def using uy(3,4) un(3,4) by (intro dec_exact_le [of 10 _ 4]) auto
      ultimately have "on_grid 10 c" by simp
      note b = size_bound [OF size pos(2) ex(1,2,5) this]
      from found pos have "cross_opportunity (g_id g) (y, yq, ym) (n, nq, nm) (pc_qty pc) = Inr found" by simp
      from pair_profit [OF ex(1-4) this b(1) pos(2) b(2) net_def pos(1) c_def]
      obtain opp where "found = Some opp" "opp_legs opp = [buy_leg y (ask yq) (pc_qty pc) (fee ym (ask yq) (pc_qty pc) True),
          buy_leg n (ask nq) (pc_qty pc) (fee nm (ask nq) (pc_qty pc) True)]"
        "guaranteed_profit opp = dmul net (pc_qty pc)" "total_stake opp = dmul c (pc_qty pc)" by blast
      with True pc(1) show ?thesis by (simp add: pair_agrees_def shows_pair_def pcs buy_leg_def)
    qed
  qed
qed

lemma scans_agree:
  assumes "list_all2 (\<lambda>x o'. \<exists>c. f x = Inr c \<and> pair_agrees mq c o') xs os" "scan_best f xs b = Inr r"
    and "rel_option shows_pair b b'"
  shows "rel_option shows_pair r (fold (\<lambda>c best. if fillable_pair mq c then keep_max (\<lambda>c. dmul (pc_net_edge c) (pc_qty c)) c best else best)
    (List.map_filter id os) b')"
  using assms
proof (induction xs os arbitrary: b b' rule: list_all2_induct)
  case Nil
  then show ?case by (simp add: scan_best_simps List.map_filter_def)
next
  case (Cons x xs ca os)
  from Cons(1) obtain c where c: "f x = Inr c" "pair_agrees mq c ca" by blast
  with Cons.prems(1) have scan: "scan_best f xs (better b c) = Inr r" by (simp add: scan_best_simps)
  let ?key = "\<lambda>c. dmul (pc_net_edge c) (pc_qty c)"
  let ?next = "case ca of None \<Rightarrow> b' | Some pc \<Rightarrow> if fillable_pair mq pc then keep_max ?key pc b' else b'"
  have "rel_option shows_pair (better b c) ?next"
  proof (cases "\<exists>pc. ca = Some pc \<and> fillable_pair mq pc")
    case True
    then obtain pc opp where "ca = Some pc" "fillable_pair mq pc" "c = Some opp" "shows_pair opp pc"
      using c(2) by (auto simp: pair_agrees_def)
    with Cons.prems(2) show ?thesis
      by (cases b; cases b') (auto simp: better_def keep_max_def shows_pair_def)
  next
    case False
    with c(2) have "c = None" "?next = b'" by (auto simp: pair_agrees_def split: option.splits if_splits)
    with Cons.prems(2) show ?thesis by (simp add: better_def)
  qed
  from Cons.IH [OF scan this] show ?case by (cases ca) (simp_all add: List.map_filter_def)
qed

lemma first_max_None: "first_max key xs = None \<longleftrightarrow> xs = []"
proof -
  have some: "\<exists>y. fold (keep_max key) ys (Some b) = Some y" for ys b
    by (induction ys arbitrary: b) (simp_all add: keep_max_def)
  show ?thesis
  proof (cases xs)
    case (Cons x ys)
    have "first_max key xs = fold (keep_max key) ys (Some x)" by (simp add: Cons first_max_def keep_max_def [of _ _ None])
    with some [of ys x] Cons show ?thesis by auto
  qed (simp add: first_max_def)
qed

lemma first_max_in: "first_max key xs = Some m \<Longrightarrow> m \<in> set xs"
proof -
  have "fold (keep_max key) xs b = Some m \<Longrightarrow> m \<in> set xs \<or> b = Some m" for b
    by (induction xs arbitrary: b) (fastforce simp: keep_max_def split: option.splits if_splits)+
  then show "first_max key xs = Some m \<Longrightarrow> m \<in> set xs" by (auto simp: first_max_def)
qed

lemma ranked_pair_published:
  assumes "exact_market (map_of quotes) fees (max_ticket_stake ps)" "tick_by_venue ps = []"
    and "detect_cross_venue_two_leg g quotes fees ps = Inr r"
    and "group_candidates (map_of quotes) fees (max_ticket_stake ps) (g_legs g) = Inr cs"
  shows "case r of Some opp \<Rightarrow> \<exists>c. rank_pairs cs (min_qty ps) = Some c \<and> shows_pair opp c
    | None \<Rightarrow> \<forall>c \<in> set cs. \<not> fillable_pair (min_qty ps) c"
proof -
  let ?pairs = "List.product (filter is_yes_side (g_legs g)) (filter (\<lambda>l. \<not> is_yes_side l) (g_legs g))"
  let ?row = "row_at (map_of quotes) fees (max_ticket_stake ps)" and ?det = "detector_at g quotes fees ps"
  from assms(4) obtain os where os: "mapE ?row ?pairs = Inr os" "cs = List.map_filter id os"
    by (auto simp: row_candidates res_simps)
  have scan: "scan_best ?det ?pairs None = Inr r" using assms(3) by (simp only: detector_scan)
  have det: "\<exists>c. ?det x = Inr c" if "x \<in> set ?pairs" for x using scan_best_max [OF scan] that by blast
  from os(1) have "list_all2 (\<lambda>x o'. ?row x = Inr o') ?pairs os" by (simp only: mapE_Inr_iff)
  then have "list_all2 (\<lambda>x o'. \<exists>c. ?det x = Inr c \<and> pair_agrees (min_qty ps) c o') ?pairs os"
  proof (rule list.rel_mono_strong)
    fix x o'
    assume "x \<in> set ?pairs" "?row x = Inr o'"
    then obtain c where "?det x = Inr c" using det by blast
    with \<open>?row x = Inr o'\<close> show "\<exists>c. ?det x = Inr c \<and> pair_agrees (min_qty ps) c o'"
      using pair_step_agrees [OF assms(1,2)] by blast
  qed
  from scans_agree [OF this scan, of None]
  have rel: "rel_option shows_pair r (first_max (\<lambda>c. dmul (pc_net_edge c) (pc_qty c)) (filter (fillable_pair (min_qty ps)) cs))"
    by (simp add: first_max_filter os(2))
  show ?thesis
  proof (cases r)
    case None
    with rel have "filter (fillable_pair (min_qty ps)) cs = []" by (simp add: first_max_None)
    with None show ?thesis by (simp add: filter_empty_conv)
  next
    case (Some opp)
    with rel obtain c where "first_max (\<lambda>c. dmul (pc_net_edge c) (pc_qty c)) (filter (fillable_pair (min_qty ps)) cs) = Some c" "shows_pair opp c"
      by (auto simp: option_rel_Some1)
    moreover from this(1) have "filter (fillable_pair (min_qty ps)) cs \<noteq> []" by (metis first_max_None option.distinct(1))
    ultimately show ?thesis using Some by (simp add: rank_pairs_def)
  qed
qed

lemma read_legs_instant: "read_legs b (\<lambda>_. now) k ls = map (\<lambda>l. (l, qb_get b now (leg_outcome l), qb_get_with_age b now (leg_outcome l))) ls"
  by (induction ls arbitrary: k) auto

lemma read_quotes_instant: "read_quotes (read_legs b (\<lambda>_. now) k (g_legs g)) = map_of (live_quotes (qb_get b now) g)"
proof
  fix oid
  let ?oids = "map leg_outcome (g_legs g)"
  have "map_of (List.map_filter (\<lambda>oid. map_option (Pair oid) (lk oid)) oids) oid = (if oid \<in> set oids then lk oid else None)"
    for lk :: "string \<Rightarrow> quote option" and oids
    by (induction oids) (auto simp: List.map_filter_def)
  then have live: "map_of (live_quotes (qb_get b now) g) oid = (if oid \<in> set ?oids then qb_get b now oid else None)"
    by (simp only: live_quotes_def)
  have "rev (map (\<lambda>(l, q, _). (leg_outcome l, q)) (read_legs b (\<lambda>_. now) k (g_legs g))) = map (\<lambda>oid. (oid, qb_get b now oid)) (rev ?oids)"
    by (simp add: read_legs_instant rev_map comp_def)
  then show "read_quotes (read_legs b (\<lambda>_. now) k (g_legs g)) oid = map_of (live_quotes (qb_get b now) g) oid"
    unfolding read_quotes_def live by (simp only: map_of_map_restrict) (simp add: restrict_map_def)
qed

lemma monitored_rows_in:
  assumes "monitored_rows fees stake mq b clock k gs = Inr rows" "g \<in> set gs"
  shows "\<exists>row \<in> set rows. \<exists>k. monitored_row fees stake mq g (read_legs b clock k (g_legs g)) = Inr row"
  using assms by (induction gs arbitrary: k rows) (auto simp: res_simps)

lemma live_quotes_sub: "exact_market lk fees stake \<Longrightarrow> exact_market (map_of (live_quotes lk g)) fees stake"
  unfolding exact_market_def using live_quotes_lookup [of lk g] by blast

text \<open>
  C30: What the terminal shows and what the engine publishes agree. With cross-venue detection alone, a registered
  group has a row that names exactly the legs, the size, the profit and the stake of the opportunity the engine
  finds at that instant, and when the engine finds none the pair on the row has no edge or is not tradeable.
\<close>

theorem monitored_shows_published:
  assumes "list_monitored (en_max_ticket_stake (app_engine st)) (en_min_qty (app_engine st)) (\<lambda>_. now) st = Inr rows"
    and "(gid, g) \<in> set (app_groups st)" "map_of (en_groups (app_engine st)) gid = Some g" "en_cross_venue_only (app_engine st)"
    and "evaluate_now (qb_get (app_book st) now) (app_engine st) gid = Inr found"
    and "exact_market (qb_get (app_book st) now) (en_fees (app_engine st)) (en_max_ticket_stake (app_engine st))"
  shows "\<exists>row \<in> set rows. mg_id row = g_id g \<and> (case found of
      [] \<Rightarrow> \<forall>net qty. mg_net_edge row = Some net \<longrightarrow> mg_max_qty row = Some qty \<longrightarrow> net \<le> 0 \<or> qty \<le> 0 \<or> qty < en_min_qty (app_engine st)
    | opp # _ \<Rightarrow> map (Some \<circ> al_outcome) (opp_legs opp) = [mg_pair_yes row, mg_pair_no row] \<and>
        (\<forall>a \<in> set (opp_legs opp). mg_max_qty row = Some (al_qty a)) \<and>
        mg_net_max_profit row = Some (guaranteed_profit opp) \<and> mg_capital row = Some (total_stake opp))"
proof -
  let ?en = "app_engine st" and ?quotes = "live_quotes (qb_get (app_book st) now) g"
  let ?ps = "engine_params ?en"
  from assms(1) obtain unsorted where unsorted: "monitored_rows (en_fees ?en) (en_max_ticket_stake ?en) (en_min_qty ?en)
      (app_book st) (\<lambda>_. now) 0 (map snd (app_groups st)) = Inr unsorted" "rows = sort_key row_key unsorted"
    by (auto simp: list_monitored_def res_simps)
  have "g \<in> set (map snd (app_groups st))" using assms(2) by force
  from monitored_rows_in [OF unsorted(1) this] obtain row k where row: "row \<in> set rows"
    "monitored_row (en_fees ?en) (en_max_ticket_stake ?en) (en_min_qty ?en) g (read_legs (app_book st) (\<lambda>_. now) k (g_legs g)) = Inr row"
    unfolding unsorted(2) set_sort by blast
  obtain cs where cs: "group_candidates (map_of ?quotes) (en_fees ?en) (max_ticket_stake ?ps) (g_legs g) = Inr cs"
    and shown: "mg_id row = g_id g" "mg_pair_yes row = map_option pc_yes (rank_pairs cs (min_qty ?ps))"
      "mg_pair_no row = map_option pc_no (rank_pairs cs (min_qty ?ps))" "mg_max_qty row = map_option pc_qty (rank_pairs cs (min_qty ?ps))"
      "mg_net_edge row = map_option pc_net_edge (rank_pairs cs (min_qty ?ps))"
      "mg_net_max_profit row = map_option (\<lambda>c. dmul (pc_net_edge c) (pc_qty c)) (rank_pairs cs (min_qty ?ps))"
      "mg_capital row = map_option (\<lambda>c. dmul (pc_unit_cost c) (pc_qty c)) (rank_pairs cs (min_qty ?ps))"
    using row(2) unfolding monitored_row_def Let_def read_quotes_instant engine_params_def by (auto simp: res_simps)
  from assms(3-5) obtain r where r: "detect_cross_venue_two_leg g ?quotes (en_fees ?en) ?ps = Inr r"
    "found = (case r of None \<Rightarrow> [] | Some opp \<Rightarrow> [opp])" by (auto simp: evaluate_now_def Let_def res_simps)
  have "exact_market (map_of ?quotes) (en_fees ?en) (max_ticket_stake ?ps)"
    using live_quotes_sub [OF assms(6)] by (simp add: engine_params_def)
  from ranked_pair_published [OF this _ r(1) cs] have "case r of Some opp \<Rightarrow> \<exists>c. rank_pairs cs (min_qty ?ps) = Some c \<and> shows_pair opp c
      | None \<Rightarrow> \<forall>c \<in> set cs. \<not> fillable_pair (min_qty ?ps) c" by (simp add: engine_params_def)
  moreover have "c \<in> set cs" if "rank_pairs cs (min_qty ?ps) = Some c" for c
    using that by (auto simp: rank_pairs_def Let_def dest!: first_max_in split: if_splits)
  ultimately show ?thesis
    using row(1) shown r(2)
    by (intro bexI [of _ row]) (fastforce simp: shows_pair_def fillable_pair_def engine_params_def not_less not_le split: option.splits)+
qed

text \<open>The worked ticket of the detector, quoted on two venues.\<close>

definition shown_app :: app where
  "shown_app = (let st = new_app (\<lambda>_. None) (Some 200) 0 [] in st\<lparr>
     app_book := \<lparr>qb_quotes = [(''KY'', ex_quote ''KY'' (2 / 5) (2 / 5) (Some 25), 0), (''PN'', ex_quote ''PN'' (1 / 2) (1 / 2) None, 0)], qb_max_age = None\<rparr>,
     app_groups := [(''g'', ex_group)], app_engine := register_group ex_group (app_engine st)\<rparr>)"

lemma shown_fields:
  "app_groups shown_app = [(''g'', ex_group)]" "en_groups (app_engine shown_app) = [(''g'', ex_group)]"
  "en_fees (app_engine shown_app) = ex_fees" "en_max_ticket_stake (app_engine shown_app) = Some 200" "en_min_qty (app_engine shown_app) = 0"
  "en_cross_venue_only (app_engine shown_app)"
  by (simp_all add: shown_app_def Let_def new_app_def new_engine_def register_group_def ex_group_def app_fees_def ex_fees_def
      draftkings_enabled_def getenv_def cross_venue_only_def)

lemma shown_quotes:
  "qb_get (app_book shown_app) 0 = map_of [(''KY'', ex_quote ''KY'' (2 / 5) (2 / 5) (Some 25)), (''PN'', ex_quote ''PN'' (1 / 2) (1 / 2) None)]"
  by (rule ext) (simp add: shown_app_def Let_def qb_get_def is_stale_def)

lemma shown_exact: "exact_market (qb_get (app_book shown_app) 0) ex_fees (Some 200)"
proof -
  have "on_grid 4 (2 / 5)" "on_grid 4 (1 / 2)" "on_grid 2 (7 / 100)" "on_grid 2 (6 / 100)" "dec_rep 25"
    by (simp_all add: on_grid_def dec_rep_grid [of 0])
  then show ?thesis
    by (auto simp: exact_market_def shown_quotes exact_quote_def ex_quote_def exact_rate_def ex_fees_def kalshi_default_def
        polymarket_us_default_def split: if_splits)
qed

lemma shown_found: "evaluate_now (qb_get (app_book shown_app) 0) (app_engine shown_app) ''g'' = Inr [ex_opp]"
proof -
  have "live_quotes (qb_get (app_book shown_app) 0) ex_group = ex_quotes (2 / 5) (1 / 2)"
    by (simp add: shown_quotes live_quotes_def ex_group_def ex_leg_def ex_quotes_def List.map_filter_def)
  moreover have "engine_params (app_engine shown_app) = ex_params" by (simp add: engine_params_def shown_fields ex_params_def)
  ultimately show ?thesis using ex_detect by (simp add: evaluate_now_def shown_fields Let_def)
qed

theorem monitored_shows_published_witness:
  "\<exists>rows. list_monitored (Some 200) 0 (\<lambda>_. 0) shown_app = Inr rows \<and>
    (\<exists>row \<in> set rows. mg_pair_yes row = Some ''KY'' \<and> mg_pair_no row = Some ''PN'' \<and> mg_net_max_profit row = Some (341 / 200))"
proof -
  have "\<exists>cs. group_candidates (read_quotes (read_legs (app_book shown_app) (\<lambda>_. 0) 0 (g_legs ex_group))) ex_fees (Some 200) (g_legs ex_group) = Inr cs"
    unfolding read_quotes_instant
    by (simp add: shown_quotes live_quotes_def ex_group_def ex_leg_def ex_quote_def List.map_filter_def group_candidates_def
        yes_candidates_def no_candidate_def price_pair_def eval_rules)
  then obtain rows where rows: "list_monitored (Some 200) 0 (\<lambda>_. 0) shown_app = Inr rows"
    by (auto simp: list_monitored_def shown_fields monitored_row_def Let_def)
  have "\<exists>row \<in> set rows. mg_id row = g_id ex_group \<and> (case [ex_opp] of
      [] \<Rightarrow> \<forall>net qty. mg_net_edge row = Some net \<longrightarrow> mg_max_qty row = Some qty \<longrightarrow> net \<le> 0 \<or> qty \<le> 0 \<or> qty < en_min_qty (app_engine shown_app)
    | opp # _ \<Rightarrow> map (Some \<circ> al_outcome) (opp_legs opp) = [mg_pair_yes row, mg_pair_no row] \<and>
        (\<forall>a \<in> set (opp_legs opp). mg_max_qty row = Some (al_qty a)) \<and>
        mg_net_max_profit row = Some (guaranteed_profit opp) \<and> mg_capital row = Some (total_stake opp))"
    by (rule monitored_shows_published [OF _ _ _ _ shown_found])
       (simp_all add: shown_fields rows shown_exact)
  then have "\<exists>row \<in> set rows. mg_pair_yes row = Some ''KY'' \<and> mg_pair_no row = Some ''PN'' \<and> mg_net_max_profit row = Some (341 / 200)"
    by (auto simp: ex_opp_def)
  with rows show ?thesis by blast
qed

end
