(* ===== verification/Access.thy ===== *)
theory Access
  imports Config QuoteBook
begin

section \<open>Access control\<close>

text \<open>
  \<open>arbys/backend/access.py\<close> and the path rewrite \<open>_StripApiPrefix\<close> of \<open>app.py\<close> in front of it. PyJWT is an argument:
  \<open>header_kid\<close> reads the key id of a token, \<open>pyjwk\<close> builds a key from a published entry, \<open>decode\<close> verifies a
  token. So are the answers of the certificate endpoint, \<open>fetch i\<close> the i-th, and the clock, \<open>clock i\<close> its
  i-th reading.
\<close>

datatype access_error = HTTPException nat string | WebSocketException nat string | InvalidTokenError | OtherError

record 'b key_entry =
  ke_kid :: "string option"
  ke_body :: 'b

text \<open>A published document: an object without fields, or one with or without the field \<open>keys\<close>.\<close>

datatype 'b jwks = Empty | Fields "'b key_entry list option"

record 'b access_state =
  ac_cache :: "'b jwks"
  ac_fetched_at :: rat
  ac_fetches :: nat
  ac_readings :: nat

record http_connection =
  cn_path :: string
  cn_websocket :: bool
  cn_assertion :: "string option"
  cn_cookie :: "string option"

record ('b, 'k) world =
  w_fetch :: "nat \<Rightarrow> access_error + 'b jwks"
  w_clock :: "nat \<Rightarrow> rat"
  w_header_kid :: "string \<Rightarrow> access_error + string option"
  w_pyjwk :: "'b \<Rightarrow> access_error + 'k"
  w_decode :: "string \<Rightarrow> 'k \<Rightarrow> string list \<Rightarrow> string \<Rightarrow> string \<Rightarrow> access_error + unit"

definition EXEMPT_PATHS :: "string list" where
  "EXEMPT_PATHS = [''/health'']"

definition JWKS_TTL_S :: rat where
  "JWKS_TTL_S = 3600"

definition initial_access :: "'b access_state" where
  "initial_access = \<lparr>ac_cache = Empty, ac_fetched_at = 0, ac_fetches = 0, ac_readings = 0\<rparr>"

text \<open>\<open>os.environ.get(name) or None\<close>; an empty string is no value.\<close>

definition set_value :: "string option \<Rightarrow> string option" where
  "set_value v = (if v = Some [] then None else v)"

definition team_domain :: "env \<Rightarrow> string option" where
  "team_domain env = set_value (env ''CF_ACCESS_TEAM_DOMAIN'')"

definition audience :: "env \<Rightarrow> string option" where
  "audience env = set_value (env ''CF_ACCESS_AUD'')"

definition enabled :: "env \<Rightarrow> bool" where
  "enabled env \<longleftrightarrow> team_domain env \<noteq> None \<and> audience env \<noteq> None"

definition certs_url :: "string \<Rightarrow> string" where
  "certs_url team = ''https://'' @ team @ ''/cdn-cgi/access/certs''"

definition issuer :: "string \<Rightarrow> string" where
  "issuer team = ''https://'' @ team"

definition reset_jwks_cache :: "'b access_state \<Rightarrow> 'b access_state" where
  "reset_jwks_cache st = st\<lparr>ac_cache := Empty, ac_fetched_at := 0\<rparr>"

subsection \<open>The published keys\<close>

definition published :: "('b, 'k) world \<Rightarrow> bool \<Rightarrow> 'b access_state \<Rightarrow> 'b access_state \<times> (access_error + 'b jwks)" where
  "published w force st =
     (let stale = JWKS_TTL_S < fsub (w_clock w (ac_readings st)) (ac_fetched_at st);
          st = st\<lparr>ac_readings := Suc (ac_readings st)\<rparr>
      in if force \<or> stale \<or> ac_cache st = Empty
         then (let st' = st\<lparr>ac_fetches := Suc (ac_fetches st)\<rparr> in
           case w_fetch w (ac_fetches st) of Inl e \<Rightarrow> (st', Inl e)
           | Inr doc \<Rightarrow> (st'\<lparr>ac_cache := doc, ac_fetched_at := w_clock w (ac_readings st'), ac_readings := Suc (ac_readings st')\<rparr>, Inr doc))
         else (st, Inr (ac_cache st)))"

fun keys_of :: "'b jwks \<Rightarrow> 'b key_entry list" where
  "keys_of (Fields (Some es)) = es"
| "keys_of _ = []"

text \<open>The loop \<open>for force in (False, True)\<close>\<close>

fun find_key ::
  "('b, 'k) world \<Rightarrow> string \<Rightarrow> bool list \<Rightarrow> 'b access_state \<Rightarrow> 'b access_state \<times> (access_error + 'k)" where
  "find_key w kid [] st = (st, Inl (HTTPException 403 ''access assertion signed by an unknown key''))"
| "find_key w kid (force # rest) st = (case published w force st of
     (st', Inl e) \<Rightarrow> (st', Inl e)
   | (st', Inr doc) \<Rightarrow> (case List.find (\<lambda>e. ke_kid e = Some kid) (keys_of doc) of
       Some e \<Rightarrow> (st', w_pyjwk w (ke_body e))
     | None \<Rightarrow> find_key w kid rest st'))"

definition key_for :: "('b, 'k) world \<Rightarrow> string \<Rightarrow> 'b access_state \<Rightarrow> 'b access_state \<times> (access_error + 'k)" where
  "key_for w token st = (case w_header_kid w token of
     Inl e \<Rightarrow> (st, Inl e)
   | Inr kid \<Rightarrow> (case set_value kid of None \<Rightarrow> (st, Inl (HTTPException 403 ''access assertion has no kid''))
       | Some k \<Rightarrow> find_key w k [False, True] st))"

subsection \<open>The dependency of every route\<close>

definition request_token :: "http_connection \<Rightarrow> string option" where
  "request_token c = set_value (case set_value (cn_assertion c) of Some t \<Rightarrow> Some t | None \<Rightarrow> cn_cookie c)"

text \<open>The \<open>except\<close> clauses of \<open>_verify\<close>: an invalid token becomes a 403, anything else passes.\<close>

fun refusal :: "access_error \<Rightarrow> access_error" where
  "refusal InvalidTokenError = HTTPException 403 ''invalid Cloudflare Access assertion''"
| "refusal e = e"

definition verify :: "('b, 'k) world \<Rightarrow> env \<Rightarrow> http_connection \<Rightarrow> 'b access_state \<Rightarrow> 'b access_state \<times> (access_error + unit)" where
  "verify w env c st = (case request_token c of
     None \<Rightarrow> (st, Inl (HTTPException 403 ''no Cloudflare Access assertion''))
   | Some token \<Rightarrow> (case key_for w token st of
       (st', Inl e) \<Rightarrow> (st', Inl (refusal e))
     | (st', Inr key) \<Rightarrow> (st', (case w_decode w token key [''RS256''] (the (audience env)) (issuer (the (team_domain env))) of
           Inl e \<Rightarrow> Inl (refusal e) | Inr u \<Rightarrow> Inr u))))"

definition require_access ::
  "('b, 'k) world \<Rightarrow> env \<Rightarrow> http_connection \<Rightarrow> 'b access_state \<Rightarrow> 'b access_state \<times> (access_error + unit)" where
  "require_access w env c st =
     (if \<not> enabled env then (st, Inr ())
      else if cn_path c \<in> set EXEMPT_PATHS then (st, Inr ())
      else (case verify w env c st of
          (st', Inl (HTTPException code detail)) \<Rightarrow>
            (st', Inl (if cn_websocket c then WebSocketException 1008 detail else HTTPException code detail))
        | r \<Rightarrow> r))"

subsection \<open>The path prefix\<close>

text \<open>\<open>path == "/api" or path.startswith("/api/")\<close>\<close>

definition API_PREFIX :: string where
  "API_PREFIX = ''/api''"

definition strip_api_prefix :: "string \<Rightarrow> string" where
  "strip_api_prefix path = (if path = API_PREFIX \<or> take 5 path = API_PREFIX @ ''/''
     then (let rest = drop (length API_PREFIX) path in if rest = [] then ''/'' else rest) else path)"

text \<open>A request: the rewrite, then the dependency, then the handler of the rewritten path.\<close>

definition serve ::
  "('b, 'k) world \<Rightarrow> env \<Rightarrow> http_connection \<Rightarrow> 'b access_state \<Rightarrow> 'b access_state \<times> (access_error + string)" where
  "serve w env c st = (let path = strip_api_prefix (cn_path c) in
     case require_access w env (c\<lparr>cn_path := path\<rparr>) st of
       (st', Inl e) \<Rightarrow> (st', Inl e) | (st', Inr _) \<Rightarrow> (st', Inr path))"

subsection \<open>What a request that passes has shown\<close>

text \<open>The cache is the last document the endpoint answered with, stamped with a reading of the clock.\<close>

definition access_ok :: "('b, 'k) world \<Rightarrow> 'b access_state \<Rightarrow> bool" where
  "access_ok w st \<longleftrightarrow> ac_cache st = Empty \<or>
     (\<exists>i < ac_fetches st. w_fetch w i = Inr (ac_cache st)) \<and> (\<exists>j < ac_readings st. ac_fetched_at st = w_clock w j)"

lemma published_ok:
  assumes "published w force st = (st', r)" "access_ok w st"
  shows "access_ok w st'" "ac_fetches st \<le> ac_fetches st'" "ac_fetches st' \<le> Suc (ac_fetches st)"
    "ac_readings st < ac_readings st'"
    "r = Inr doc \<Longrightarrow> doc = ac_cache st'"
    "r = Inr doc \<Longrightarrow> ac_fetches st < ac_fetches st' \<or> \<not> force \<and> fsub (w_clock w (ac_readings st)) (ac_fetched_at st') \<le> JWKS_TTL_S"
    "force \<Longrightarrow> ac_fetches st' = Suc (ac_fetches st)"
  using assms by (auto simp: published_def Let_def access_ok_def not_less less_Suc_eq split: if_splits sum.splits)

lemma find_key_ok:
  assumes "find_key w kid forces st = (st', r)" "access_ok w st" "forces \<noteq> []" "\<forall>f \<in> set (tl forces). f"
  shows "access_ok w st' \<and> ac_fetches st \<le> ac_fetches st' \<and> ac_fetches st' \<le> ac_fetches st + length forces \<and>
    (\<forall>key. r = Inr key \<longrightarrow> (\<exists>e \<in> set (keys_of (ac_cache st')). ke_kid e = Some kid \<and> w_pyjwk w (ke_body e) = Inr key) \<and>
       (ac_fetches st < ac_fetches st' \<or> \<not> hd forces \<and> fsub (w_clock w (ac_readings st)) (ac_fetched_at st') \<le> JWKS_TTL_S))"
  using assms
proof (induction forces arbitrary: st)
  case (Cons force rest)
  have later: "\<forall>f \<in> set rest. f" using Cons.prems(4) by simp
  obtain st1 p where p: "published w force st = (st1, p)" by force
  note ok = published_ok [OF p Cons.prems(2)]
  show ?case
  proof (cases p)
    case (Inl e)
    with Cons.prems(1) p ok show ?thesis by auto
  next
    case (Inr doc)
    show ?thesis
    proof (cases "List.find (\<lambda>e. ke_kid e = Some kid) (keys_of doc)")
      case (Some e)
      then have "e \<in> set (keys_of doc)" "ke_kid e = Some kid" by (auto simp: find_Some_iff)
      with Cons.prems(1) p ok Inr Some show ?thesis by auto
    next
      case None
      with Cons.prems(1) p Inr have rest: "find_key w kid rest st1 = (st', r)" by simp
      show ?thesis
      proof (cases rest)
        case Nil
        with rest ok show ?thesis by auto
      next
        case (Cons f fs)
        with later have "f" "\<forall>f \<in> set (tl rest). f" by auto
        with Cons Cons.IH [OF rest ok(1)] ok(2,3) show ?thesis by fastforce
      qed
    qed
  qed
qed simp

lemma key_for_ok:
  assumes "key_for w token st = (st', Inr key)" "access_ok w st"
  obtains kid e where "w_header_kid w token = Inr (Some kid)" "access_ok w st'" "ac_fetches st' \<le> ac_fetches st + 2"
    "e \<in> set (keys_of (ac_cache st'))" "ke_kid e = Some kid" "w_pyjwk w (ke_body e) = Inr key"
    "ac_fetches st < ac_fetches st' \<or> fsub (w_clock w (ac_readings st)) (ac_fetched_at st') \<le> JWKS_TTL_S"
proof -
  from assms(1) obtain kid where kid: "w_header_kid w token = Inr (Some kid)" "find_key w kid [False, True] st = (st', Inr key)"
    by (auto simp: key_for_def set_value_def split: sum.splits option.splits if_splits)
  from find_key_ok [OF kid(2) assms(2)] that [OF kid(1)] show thesis by auto
qed

lemma keys_of_published:
  assumes "access_ok w st" "e \<in> set (keys_of (ac_cache st))"
  shows "\<exists>i < ac_fetches st. w_fetch w i = Inr (ac_cache st)"
  using assms by (cases "ac_cache st") (auto simp: access_ok_def)

lemma request_token_path [simp]: "request_token (c\<lparr>cn_path := x\<rparr>) = request_token c"
  by (simp add: request_token_def cong: option.case_cong)

lemma serve_Inr:
  assumes "serve w env c st = (st', Inr path)" "enabled env"
  shows "path = strip_api_prefix (cn_path c)"
    "path \<in> set EXEMPT_PATHS \<or> verify w env c st = (st', Inr ())"
proof -
  from assms have r: "require_access w env (c\<lparr>cn_path := strip_api_prefix (cn_path c)\<rparr>) st = (st', Inr ())"
    and p: "path = strip_api_prefix (cn_path c)"
    by (auto simp: serve_def Let_def split: prod.splits sum.splits)
  show "path = strip_api_prefix (cn_path c)" by (rule p)
  have "verify w env (c\<lparr>cn_path := x\<rparr>) st = verify w env c st" for x by (simp add: verify_def)
  with r assms(2) show "path \<in> set EXEMPT_PATHS \<or> verify w env c st = (st', Inr ())"
    by (auto simp: require_access_def p split: if_splits prod.splits sum.splits access_error.splits)
qed


lemma unknown_kid_fetches:
  assumes "\<forall>i doc. w_fetch w i = Inr doc \<longrightarrow> (\<forall>e \<in> set (keys_of doc). ke_kid e \<noteq> Some kid)" "access_ok w st"
  shows "\<exists>st' e. find_key w kid [False, True] st = (st', Inl e) \<and> ac_fetches st < ac_fetches st' \<and> ac_fetches st' \<le> ac_fetches st + 2"
proof -
  obtain st' r where r: "find_key w kid [False, True] st = (st', r)" by force
  note ok = find_key_ok [OF r assms(2)]
  have "r \<noteq> Inr key" for key
  proof
    assume "r = Inr key"
    with ok obtain e where e: "e \<in> set (keys_of (ac_cache st'))" "ke_kid e = Some kid" "access_ok w st'" by auto
    with keys_of_published [OF e(3,1)] assms(1) show False by blast
  qed
  then obtain e where e: "r = Inl e" by (cases r) auto
  have none: "List.find (\<lambda>e. ke_kid e = Some kid) (keys_of (ac_cache s)) = None" if "access_ok w s" for s
    using keys_of_published [OF that] assms(1) unfolding find_None_iff by blast
  obtain s1 p where p: "published w False st = (s1, p)" by force
  note ok1 = published_ok [OF p assms(2)]
  have "ac_fetches st < ac_fetches st'"
  proof (cases p)
    case (Inl e)
    with r p have "st' = s1" by simp
    with p Inl show ?thesis by (auto simp: published_def Let_def split: if_splits sum.splits)
  next
    case (Inr doc)
    from ok1(5) [OF this] have "doc = ac_cache s1" .
    with none [OF ok1(1)] r p Inr have r2: "find_key w kid [True] s1 = (st', r)" by simp
    obtain s2 q where q: "published w True s1 = (s2, q)" by force
    from published_ok(7) [OF this ok1(1)] have "ac_fetches s2 = Suc (ac_fetches s1)" by simp
    moreover from find_key_ok [OF r2 ok1(1)] have "ac_fetches s1 \<le> ac_fetches st'" by simp
    moreover have "ac_fetches st' = ac_fetches s2"
      using r2 q by (auto split: sum.splits option.splits)
    ultimately show ?thesis using ok1(2) by simp
  qed
  with r e ok show ?thesis by auto
qed

text \<open>
  A request whose token names a key nobody published is refused, and it never does so from the cache: each such
  request asks the endpoint at least once, at most twice.
\<close>

theorem unknown_key_asks_again:
  assumes "\<forall>i doc. w_fetch w i = Inr doc \<longrightarrow> (\<forall>e \<in> set (keys_of doc). ke_kid e \<noteq> Some kid)" "access_ok w st"
    and "enabled env" "strip_api_prefix (cn_path c) \<noteq> ''/health''" "request_token c = Some token"
    and "w_header_kid w token = Inr (Some kid)" "kid \<noteq> []"
  shows "\<exists>st' e. serve w env c st = (st', Inl e) \<and> ac_fetches st < ac_fetches st' \<and> ac_fetches st' \<le> ac_fetches st + 2"
proof -
  from unknown_kid_fetches [OF assms(1,2)] obtain st' e where e: "find_key w kid [False, True] st = (st', Inl e)"
    "ac_fetches st < ac_fetches st'" "ac_fetches st' \<le> ac_fetches st + 2" by blast
  have "request_token (c\<lparr>cn_path := x\<rparr>) = Some token" for x using assms(5) by simp
  with assms(6,7) e(1) have "verify w env (c\<lparr>cn_path := x\<rparr>) st = (st', Inl (refusal e))" for x
    by (simp add: verify_def key_for_def set_value_def del: find_key.simps)
  with assms(3,4) e(2,3) show ?thesis
    by (cases "refusal e") (auto simp: serve_def Let_def require_access_def EXEMPT_PATHS_def)
qed

text \<open>A team with one published key \<open>k1\<close>, and a PyJWT that accepts one token under it.\<close>

definition sample_world :: "(string, string) world" where
  "sample_world = \<lparr>w_fetch = (\<lambda>_. Inr (Fields (Some [\<lparr>ke_kid = Some ''k1'', ke_body = ''pem''\<rparr>]))), w_clock = (\<lambda>i. of_nat i),
     w_header_kid = (\<lambda>t. if t = ''good'' then Inr (Some ''k1'') else if t = ''forged'' then Inr (Some ''k9'') else Inl InvalidTokenError),
     w_pyjwk = Inr, w_decode = (\<lambda>t k alg aud iss. if t = ''good'' \<and> k = ''pem'' then Inr () else Inl InvalidTokenError)\<rparr>"

definition sample_access_env :: env where
  "sample_access_env name = (if name = ''CF_ACCESS_TEAM_DOMAIN'' then Some ''team'' else if name = ''CF_ACCESS_AUD'' then Some ''aud'' else None)"

definition sample_request :: "string \<Rightarrow> http_connection" where
  "sample_request token = \<lparr>cn_path = ''/api/quotes'', cn_websocket = False, cn_assertion = Some token, cn_cookie = None\<rparr>"

lemma sample_enabled: "enabled sample_access_env"
  by (simp add: enabled_def team_domain_def audience_def set_value_def sample_access_env_def)

lemma initial_access_ok: "access_ok w initial_access"
  by (simp add: access_ok_def initial_access_def)


theorem unknown_key_asks_again_witness:
  "\<exists>st' e. serve sample_world sample_access_env (sample_request ''forged'') initial_access = (st', Inl e) \<and> 0 < ac_fetches st'"
proof -
  have "\<exists>st' e. serve sample_world sample_access_env (sample_request ''forged'') initial_access = (st', Inl e) \<and>
      ac_fetches (initial_access :: string access_state) < ac_fetches st' \<and> ac_fetches st' \<le> ac_fetches (initial_access :: string access_state) + 2"
    by (rule unknown_key_asks_again [of _ "''k9''" _ _ _ "''forged''"])
       (auto simp: sample_enabled initial_access_ok sample_world_def sample_request_def request_token_def set_value_def
         strip_api_prefix_def API_PREFIX_def)
  then show ?thesis by auto
qed

end
