(* ===== verification/Matcher.thy ===== *)
theory Matcher
  imports Config "HOL-Library.Multiset"
begin

section \<open>Matching games across venues\<close>

text \<open>
  \<open>arbys/discovery/matcher.py\<close> and \<open>horizon.py\<close>, with \<open>VenueGame\<close> of \<open>kalshi_sports.py\<close>: games are put in
  buckets by what is bet on, split into clusters around the earliest game not yet claimed, and every cluster
  of at least two venues becomes an event group. A \<open>date\<close> is year, month and day with \<open>toordinal\<close> as the
  standard library defines it; a start time is its microseconds since the epoch (the code builds them all
  with a time zone); the two participants of a game are a pair. Lines are decimals of at most 40 places.
\<close>

record participant =
  p_code :: string
  p_name :: string

type_synonym date = "int \<times> int \<times> int"

record venue_game =
  vg_sport :: string
  vg_venue :: string
  vg_date :: date
  vg_teams :: "participant \<times> participant"
  vg_outcomes :: "(string, string) dict"
  vg_ref :: string
  vg_market :: string
  vg_line :: "rat option"
  vg_anchor :: "string option"
  vg_start :: "int option"
  vg_live :: "bool option"
  vg_ended :: "bool option"

subsection \<open>Dates\<close>

definition is_leap :: "int \<Rightarrow> bool" where
  "is_leap y \<longleftrightarrow> y mod 4 = 0 \<and> (y mod 100 \<noteq> 0 \<or> y mod 400 = 0)"

definition days_before_year :: "int \<Rightarrow> int" where
  "days_before_year y = (y - 1) * 365 + (y - 1) div 4 - (y - 1) div 100 + (y - 1) div 400"

definition days_before_month :: "int \<Rightarrow> int \<Rightarrow> int" where
  "days_before_month y m = [0, 31, 59, 90, 120, 151, 181, 212, 243, 273, 304, 334] ! nat (m - 1) +
     (if 2 < m \<and> is_leap y then 1 else 0)"

fun toordinal :: "date \<Rightarrow> int" where
  "toordinal (y, m, d) = days_before_year y + days_before_month y m + d"

fun digits_of :: "nat \<Rightarrow> nat \<Rightarrow> string" where
  "digits_of 0 n = []"
| "digits_of (Suc k) n = digits_of k (n div 10) @ [''0123456789'' ! (n mod 10)]"

fun isoformat :: "date \<Rightarrow> string" where
  "isoformat (y, m, d) = digits_of 4 (nat y) @ ''-'' @ digits_of 2 (nat m) @ ''-'' @ digits_of 2 (nat d)"

subsection \<open>Lines\<close>

fun frac_digits :: "nat \<Rightarrow> rat \<Rightarrow> string" where
  "frac_digits 0 f = []"
| "frac_digits (Suc k) f = (if f = 0 then []
     else ''0123456789'' ! nat \<lfloor>10 * f\<rfloor> # frac_digits k (10 * f - of_int \<lfloor>10 * f\<rfloor>))"

definition format_f :: "rat \<Rightarrow> string" where
  "format_f x = (let a = \<bar>x\<bar>; i = \<lfloor>a\<rfloor>; ds = frac_digits 40 (a - of_int i) in
     (if x < 0 then ''-'' else []) @ nat_str (nat i) @ (if ds = [] then [] else ''.'' @ ds))"

definition fmt_line :: "rat option \<Rightarrow> string" where
  "fmt_line l = (case l of None \<Rightarrow> ''na'' | Some x \<Rightarrow> format_f (dec_round x))"

subsection \<open>Matches\<close>

record cross_match =
  cm_sport :: string
  cm_date :: string
  team_a :: participant
  team_b :: participant
  per_venue :: "(string, venue_game) dict"
  cm_market :: string
  cm_line :: "rat option"
  cm_anchor :: "string option"

definition OVER :: string where
  "OVER = ''OVER''"

definition UNDER :: string where
  "UNDER = ''UNDER''"

text \<open>\<open>x or y\<close> on an optional string takes \<open>y\<close> for the empty string too.\<close>

definition or_else :: "string option \<Rightarrow> string \<Rightarrow> string" where
  "or_else x y = (case x of None \<Rightarrow> y | Some s \<Rightarrow> if s = [] then y else s)"

definition yes_key :: "cross_match \<Rightarrow> string" where
  "yes_key m = (if cm_market m = ''total'' then OVER
     else if cm_market m = ''spread'' then or_else (cm_anchor m) (p_code (team_a m))
     else p_code (team_a m))"

definition match_games_of :: "cross_match \<Rightarrow> venue_game list" where
  "match_games_of m = map snd (per_venue m)"

definition match_start :: "cross_match \<Rightarrow> int option" where
  "match_start m = (let times = List.map_filter vg_start (match_games_of m) in
     if times = [] then None else Some (Min (set times)))"

fun in_play_loop :: "venue_game list \<Rightarrow> bool \<Rightarrow> bool \<Rightarrow> bool option" where
  "in_play_loop [] seen playing = (if seen then Some playing else None)"
| "in_play_loop (g # gs) seen playing =
     (if vg_ended g = None \<and> vg_live g = None then in_play_loop gs seen playing
      else if vg_ended g = Some True then Some False
      else in_play_loop gs True (playing \<or> vg_live g = Some True))"

definition match_in_play :: "cross_match \<Rightarrow> bool option" where
  "match_in_play m = in_play_loop (match_games_of m) False False"

fun ended_loop :: "venue_game list \<Rightarrow> bool \<Rightarrow> bool option" where
  "ended_loop [] seen = (if seen then Some False else None)"
| "ended_loop (g # gs) seen =
     (if vg_ended g = None then ended_loop gs seen
      else if vg_ended g = Some True then Some True else ended_loop gs True)"

definition match_ended :: "cross_match \<Rightarrow> bool option" where
  "match_ended m = ended_loop (match_games_of m) False"

definition anchor_participant :: "cross_match \<Rightarrow> participant" where
  "anchor_participant m = (if cm_anchor m = Some (p_code (team_b m)) then team_b m else team_a m)"

definition event_group_id :: "cross_match \<Rightarrow> string" where
  "event_group_id m =
     (let base = cm_sport m @ ''-'' @ p_code (team_a m) @ ''-'' @ p_code (team_b m) @ ''-'' @ cm_date m in
      if cm_market m = ''spread''
      then base @ ''-spread-'' @ p_code (anchor_participant m) @ ''-'' @ fmt_line (cm_line m)
      else if cm_market m \<noteq> ''moneyline'' then base @ ''-'' @ cm_market m @ ''-'' @ fmt_line (cm_line m)
      else base)"

text \<open>The em dash of the titles is written as two hyphens.\<close>

definition event_group_title :: "cross_match \<Rightarrow> string" where
  "event_group_title m =
     (let matchup = p_name (team_a m) @ '' vs '' @ p_name (team_b m) in
      if cm_market m = ''total''
      then matchup @ '' -- Over '' @ fmt_line (cm_line m) @ '' ('' @ cm_date m @ '')''
      else if cm_market m = ''spread''
      then matchup @ '' -- '' @ p_name (anchor_participant m) @ '' -'' @ fmt_line (cm_line m) @ '' ('' @ cm_date m @ '')''
      else matchup @ '' ('' @ cm_date m @ '')'')"

subsection \<open>Clusters\<close>

text \<open>Ninety minutes, in microseconds.\<close>

definition START_TIME_TOLERANCE :: int where
  "START_TIME_TOLERANCE = 90 * 60 * 1000000"

definition same_fixture :: "int \<Rightarrow> venue_game \<Rightarrow> venue_game \<Rightarrow> bool" where
  "same_fixture days a b = (case (vg_start a, vg_start b) of
     (Some s, Some t) \<Rightarrow> \<bar>s - t\<bar> \<le> START_TIME_TOLERANCE
   | _ \<Rightarrow> \<bar>toordinal (vg_date a) - toordinal (vg_date b)\<bar> \<le> days)"

definition order_key :: "venue_game \<Rightarrow> nat \<times> rat \<times> string" where
  "order_key g = (case vg_start g of
     Some t \<Rightarrow> (0, flt_round (of_int t / 10 ^ 6), vg_venue g)
   | None \<Rightarrow> (1, of_int (toordinal (vg_date g)), vg_venue g))"

type_synonym pair_key_t = "string \<times> string \<times> string \<times> string \<times> string list"

text \<open>The frozen set of codes is its sorted list without repetitions.\<close>

definition pair_key :: "venue_game \<Rightarrow> pair_key_t" where
  "pair_key g = (vg_sport g, vg_market g, fmt_line (vg_line g), or_else (vg_anchor g) [],
     sort (remdups [p_code (fst (vg_teams g)), p_code (snd (vg_teams g))]))"

definition distance :: "venue_game \<Rightarrow> venue_game \<Rightarrow> rat" where
  "distance g anchor = (case (vg_start g, vg_start anchor) of
     (Some s, Some t) \<Rightarrow> \<bar>flt_round (of_int (s - t) / 10 ^ 6)\<bar>
   | _ \<Rightarrow> of_int (\<bar>toordinal (vg_date g) - toordinal (vg_date anchor)\<bar> * 86400))"

definition add_to_bucket :: "(pair_key_t, venue_game list) dict \<Rightarrow> venue_game \<Rightarrow> (pair_key_t, venue_game list) dict" where
  "add_to_bucket d g = dict_set (pair_key g) (dict_get [] d (pair_key g) @ [g]) d"

definition buckets :: "venue_game list list \<Rightarrow> (pair_key_t, venue_game list) dict" where
  "buckets inputs = foldl add_to_bucket [] (concat inputs)"

text \<open>\<open>per_venue\<close> and \<open>chosen_idx\<close> are written together, so they are one dictionary here.\<close>

type_synonym chosen = "(string, nat \<times> venue_game) dict"

fun scan :: "int \<Rightarrow> venue_game \<Rightarrow> (nat \<times> venue_game) list \<Rightarrow> chosen \<Rightarrow> chosen" where
  "scan days anchor [] ch = ch"
| "scan days anchor ((j, g) # gs) ch =
     (if \<not> same_fixture days g anchor then scan days anchor gs ch
      else if (case map_of ch (vg_venue g) of None \<Rightarrow> True | Some (_, old) \<Rightarrow> distance g anchor < distance old anchor)
      then scan days anchor gs (dict_set (vg_venue g) (j, g) ch)
      else scan days anchor gs ch)"

definition build_match :: "venue_game \<Rightarrow> chosen \<Rightarrow> cross_match" where
  "build_match anchor ch = (let ts = sort_key p_code [fst (vg_teams anchor), snd (vg_teams anchor)] in
     \<lparr>cm_sport = vg_sport anchor, cm_date = isoformat (vg_date anchor), team_a = ts ! 0, team_b = ts ! 1,
      per_venue = map (\<lambda>(v, x). (v, snd x)) ch, cm_market = vg_market anchor, cm_line = vg_line anchor,
      cm_anchor = vg_anchor anchor\<rparr>)"

fun clusters :: "int \<Rightarrow> nat list \<Rightarrow> (nat \<times> venue_game) list \<Rightarrow> cross_match list" where
  "clusters days claimed [] = []"
| "clusters days claimed ((i, anchor) # rest) =
     (if i \<in> set claimed then clusters days claimed rest
      else let ch = scan days anchor (filter (\<lambda>(j, _). j \<notin> set claimed) ((i, anchor) # rest)) [];
               claimed' = map (\<lambda>x. fst (snd x)) ch @ claimed
           in (if length ch < 2 then [] else [build_match anchor ch]) @ clusters days claimed' rest)"

definition bucket_matches :: "int \<Rightarrow> venue_game list \<Rightarrow> cross_match list" where
  "bucket_matches days games =
     (if list_all (\<lambda>g. vg_venue g = vg_venue (hd games)) games then []
      else clusters days [] (enumerate 0 (sort_key order_key games)))"

definition match_key :: "cross_match \<Rightarrow> string \<times> string \<times> string \<times> string \<times> string \<times> string" where
  "match_key m = (cm_date m, p_code (team_a m), p_code (team_b m), cm_market m, fmt_line (cm_line m), or_else (cm_anchor m) [])"

definition match_games :: "int \<Rightarrow> venue_game list list \<Rightarrow> cross_match list" where
  "match_games days inputs =
     sort_key match_key (concat (map (\<lambda>(_, games). bucket_matches days games) (buckets inputs)))"

definition venue_legs :: "string \<Rightarrow> string \<times> venue_game \<Rightarrow> event_group_leg list" where
  "venue_legs yes x = map (\<lambda>(key, oid). \<lparr>leg_outcome = oid, leg_venue = fst x, is_yes_side = (key = yes)\<rparr>) (vg_outcomes (snd x))"

definition match_to_event_group :: "cross_match \<Rightarrow> event_group" where
  "match_to_event_group m = \<lparr>g_id = event_group_id m, g_title = event_group_title m, resolution_source_by_venue = [],
     g_legs = concat (map (venue_legs (yes_key m)) (sort_key fst (per_venue m))),
     start_time = map_option Aware (match_start m), in_play = match_in_play m, ended = match_ended m,
     g_source = ''discovery''\<rparr>"

subsection \<open>The horizon\<close>

definition DEFAULT_HORIZON_DAYS :: int where
  "DEFAULT_HORIZON_DAYS = 3"

definition discovery_horizon_days :: "env \<Rightarrow> int" where
  "discovery_horizon_days env = (case env ''ARBYS_DISCOVERY_HORIZON_DAYS'' of
     None \<Rightarrow> DEFAULT_HORIZON_DAYS
   | Some raw \<Rightarrow> (case py_int raw of None \<Rightarrow> DEFAULT_HORIZON_DAYS | Some v \<Rightarrow> max 0 v))"

definition within_horizon :: "date \<Rightarrow> int \<Rightarrow> date \<Rightarrow> bool" where
  "within_horizon game_date days today = (days \<le> 0 \<or> toordinal game_date \<le> toordinal today + days)"

definition filter_horizon :: "venue_game list \<Rightarrow> int \<Rightarrow> date \<Rightarrow> venue_game list" where
  "filter_horizon games days today =
     (if days \<le> 0 then games else filter (\<lambda>g. within_horizon (vg_date g) days today) games)"

subsection \<open>Buckets\<close>

lemma add_to_bucket_get:
  "dict_get [] (add_to_bucket d g) k = (if k = pair_key g then dict_get [] d k @ [g] else dict_get [] d k)"
  by (simp add: add_to_bucket_def)

lemma foldl_bucket_get:
  "dict_get [] (foldl add_to_bucket d gs) k = dict_get [] d k @ filter (\<lambda>g. pair_key g = k) gs"
  by (induction gs arbitrary: d) (auto simp: add_to_bucket_get)

lemma foldl_bucket_ok: "dict_ok d \<Longrightarrow> dict_ok (foldl add_to_bucket d gs)"
  by (induction gs arbitrary: d) (auto simp: add_to_bucket_def)

lemma buckets_get: "dict_get [] (buckets inputs) k = filter (\<lambda>g. pair_key g = k) (concat inputs)"
  by (simp add: buckets_def foldl_bucket_get)

lemma buckets_ok: "dict_ok (buckets inputs)"
  by (simp add: buckets_def foldl_bucket_ok)

lemma bucket_games:
  assumes "(k, gs) \<in> set (buckets inputs)"
  shows "gs = filter (\<lambda>g. pair_key g = k) (concat inputs)"
  using buckets_get [of inputs k] map_of_is_SomeI [OF buckets_ok assms] by (simp add: dict_get_def)

lemma mset_dict_set:
  "dict_ok d \<Longrightarrow> mset (concat (map snd (dict_set k (dict_get [] d k @ [g]) d))) = mset (concat (map snd d)) + {#g#}"
proof (induction d)
  case (Cons p d)
  then show ?case
    by (cases p) (auto simp: dict_get_def map_of_eq_None_iff split: option.splits)
qed simp

lemma mset_buckets: "mset (concat (map snd (buckets inputs))) = mset (concat inputs)"
proof -
  have "mset (concat (map snd (foldl add_to_bucket d gs))) = mset (concat (map snd d)) + mset gs" if "dict_ok d" for d gs
    using that
  proof (induction gs arbitrary: d)
    case (Cons g gs)
    from Cons.prems have "dict_ok (add_to_bucket d g)" by (simp add: add_to_bucket_def)
    from Cons.IH [OF this] mset_dict_set [OF Cons.prems, of "pair_key g" g] show ?case
      by (simp add: add_to_bucket_def)
  qed simp
  from this [of "[]" "concat inputs"] show ?thesis by (simp add: buckets_def)
qed

subsection \<open>One cluster\<close>

definition chosen_ok :: "int \<Rightarrow> venue_game \<Rightarrow> (nat \<times> venue_game) list \<Rightarrow> chosen \<Rightarrow> bool" where
  "chosen_ok days anchor gs ch \<longleftrightarrow> dict_ok ch \<and>
     (\<forall>(v, x) \<in> set ch. x \<in> set gs \<and> vg_venue (snd x) = v \<and> same_fixture days (snd x) anchor)"

lemma scan_chosen_ok:
  "chosen_ok days anchor all ch \<Longrightarrow> set gs \<subseteq> set all \<Longrightarrow> chosen_ok days anchor all (scan days anchor gs ch)"
proof (induction days anchor gs ch rule: scan.induct)
  case (2 days anchor j g gs ch)
  have "chosen_ok days anchor all (dict_set (vg_venue g) (j, g) ch)" if "same_fixture days g anchor"
    using 2(4,5) that by (auto simp: chosen_ok_def dest!: in_set_dict_set)
  with 2 show ?case by simp
qed simp

lemma distance_nonneg: "0 \<le> distance g a"
  by (auto simp: distance_def split: option.splits)

lemma distance_self: "distance g g = 0"
  by (auto simp: distance_def split: option.splits)

lemma scan_keeps_nearest:
  "map_of ch v = Some (i, a) \<Longrightarrow> distance a anchor = 0 \<Longrightarrow> map_of (scan days anchor gs ch) v = Some (i, a)"
proof (induction days anchor gs ch rule: scan.induct)
  case (2 days anchor j g gs ch)
  have "\<not> distance g anchor < 0" using distance_nonneg [of g anchor] by simp
  with 2 show ?case by (cases "v = vg_venue g") auto
qed simp

lemma scan_takes_anchor:
  "same_fixture days a a \<Longrightarrow> map_of (scan days a ((i, a) # gs) []) (vg_venue a) = Some (i, a)"
  by (simp add: scan_keeps_nearest distance_self)

lemma same_fixture_self: "0 \<le> days \<Longrightarrow> same_fixture days a a"
  by (auto simp: same_fixture_def START_TIME_TOLERANCE_def split: option.splits)

lemma clusters_match:
  "m \<in> set (clusters days claimed gs) \<Longrightarrow>
   \<exists>i a ch. (i, a) \<in> set gs \<and> m = build_match a ch \<and> 2 \<le> length ch \<and> chosen_ok days a gs ch \<and>
     (0 \<le> days \<longrightarrow> map_of ch (vg_venue a) = Some (i, a))"
proof (induction days claimed gs rule: clusters.induct)
  case (2 days claimed i anchor rest)
  let ?gs = "filter (\<lambda>(j, _). j \<notin> set claimed) ((i, anchor) # rest)"
  let ?ch = "scan days anchor ?gs []"
  have weaken: "chosen_ok days a rest ch \<Longrightarrow> chosen_ok days a ((i, anchor) # rest) ch" for a ch
    by (auto simp: chosen_ok_def)
  show ?case
  proof (cases "i \<in> set claimed")
    case True
    with 2(1,3) weaken show ?thesis by (fastforce split: if_splits)
  next
    case False
    have ch: "chosen_ok days anchor ((i, anchor) # rest) ?ch"
      by (rule scan_chosen_ok) (auto simp: chosen_ok_def)
    have an: "0 \<le> days \<longrightarrow> map_of ?ch (vg_venue anchor) = Some (i, anchor)"
      using scan_takes_anchor [OF same_fixture_self] False by simp
    from 2(3) False consider "2 \<le> length ?ch" "m = build_match anchor ?ch"
      | "m \<in> set (clusters days (map (\<lambda>x. fst (snd x)) ?ch @ claimed) rest)"
      by (auto simp: Let_def split: if_splits)
    then show ?thesis
    proof cases
      case 1
      with ch an show ?thesis by (intro exI [of _ i] exI [of _ anchor] exI [of _ ?ch]) simp
    next
      case c2: 2
      from 2(2) [OF False refl refl c2] weaken show ?thesis by fastforce
    qed
  qed
qed simp

lemma build_match_games: "match_games_of (build_match a ch) = map (\<lambda>x. snd (snd x)) ch"
  by (auto simp: match_games_of_def build_match_def Let_def)

lemma build_match_venues: "per_venue (build_match a ch) = map (\<lambda>(v, x). (v, snd x)) ch"
  by (simp add: build_match_def Let_def)

lemma build_match_fields:
  "cm_sport (build_match a ch) = vg_sport a" "cm_market (build_match a ch) = vg_market a"
  "cm_line (build_match a ch) = vg_line a" "cm_anchor (build_match a ch) = vg_anchor a"
  "cm_date (build_match a ch) = isoformat (vg_date a)"
  by (simp_all add: build_match_def Let_def)

lemma build_match_teams:
  "p_code (team_a (build_match a ch)) = min (p_code (fst (vg_teams a))) (p_code (snd (vg_teams a)))"
  "p_code (team_b (build_match a ch)) = max (p_code (fst (vg_teams a))) (p_code (snd (vg_teams a)))"
  by (simp_all add: build_match_def Let_def min_def max_def)

lemma chosen_okD:
  assumes "chosen_ok days a gs ch"
  shows "dict_ok ch" "set (map snd ch) \<subseteq> set gs" "distinct (map snd ch)"
    "\<And>v j g. (v, j, g) \<in> set ch \<Longrightarrow> vg_venue g = v \<and> same_fixture days g a \<and> (j, g) \<in> set gs"
proof -
  show 1: "dict_ok ch" and 2: "set (map snd ch) \<subseteq> set gs" using assms by (auto simp: chosen_ok_def)
  show 3: "vg_venue g = v \<and> same_fixture days g a \<and> (j, g) \<in> set gs" if "(v, j, g) \<in> set ch" for v j g
    using assms that by (auto simp: chosen_ok_def)
  have "fst x = vg_venue (snd (snd x))" if "x \<in> set ch" for x
    using 3 [of "fst x" "fst (snd x)" "snd (snd x)"] that by simp
  then have "inj_on snd (set ch)" by (intro inj_onI) (metis prod_eqI)
  with 1 show "distinct (map snd ch)" by (simp add: distinct_map)
qed

lemma concat_map_concat: "concat (map f (concat (map h xs))) = concat (map (\<lambda>x. concat (map f (h x))) xs)"
  by (induction xs) simp_all

lemma mset_concat_sort: "mset (concat (map f (sort_key k xs))) = mset (concat (map f xs))"
  by (simp only: mset_concat map_map sum_mset_sum_list [symmetric] mset_map mset_sort)

text \<open>The games a run of \<open>clusters\<close> uses, with their positions: no position twice, none already claimed.\<close>

lemma clusters_use:
  "distinct (map fst gs) \<Longrightarrow> \<exists>U. concat (map match_games_of (clusters days claimed gs)) = map snd U \<and>
     distinct U \<and> set U \<subseteq> set gs \<and> fst ` set U \<inter> set claimed = {}"
proof (induction days claimed gs rule: clusters.induct)
  case (1 days claimed)
  then show ?case by (intro exI [of _ "[]"]) simp
next
  case (2 days claimed i anchor rest)
  let ?gs = "filter (\<lambda>(j, _). j \<notin> set claimed) ((i, anchor) # rest)"
  let ?ch = "scan days anchor ?gs []"
  have dist: "distinct (map fst rest)" using 2(3) by simp
  show ?case
  proof (cases "i \<in> set claimed")
    case True
    from 2(1) [OF True dist] obtain U where "concat (map match_games_of (clusters days claimed rest)) = map snd U"
      "distinct U" "set U \<subseteq> set rest" "fst ` set U \<inter> set claimed = {}" by blast
    with True show ?thesis by (intro exI [of _ U]) auto
  next
    case False
    define ch where "ch = ?ch"
    have "chosen_ok days anchor ?gs ch" unfolding ch_def by (rule scan_chosen_ok) (auto simp: chosen_ok_def)
    note ok = chosen_okD(2,3) [OF this]
    let ?claimed = "map (\<lambda>x. fst (snd x)) ch @ claimed"
    from 2(2) [OF False refl refl dist] obtain U where U:
      "concat (map match_games_of (clusters days ?claimed rest)) = map snd U"
      "distinct U" "set U \<subseteq> set rest" "fst ` set U \<inter> set ?claimed = {}" unfolding ch_def by blast
    define W where "W = (if length ch < 2 then [] else map snd ch)"
    have W: "distinct W" "set W \<subseteq> set (map snd ch)" using ok(2) by (auto simp: W_def)
    have "clusters days claimed ((i, anchor) # rest) =
        (if length ch < 2 then [] else [build_match anchor ch]) @ clusters days ?claimed rest"
      using False by (simp add: ch_def Let_def)
    then have "concat (map match_games_of (clusters days claimed ((i, anchor) # rest))) = map snd (W @ U)"
      using U(1) by (simp add: build_match_games W_def)
    moreover have "set W \<inter> set U = {}" using U(4) W(2) by force
    then have "distinct (W @ U)" using W(1) U(2) by simp
    moreover have "set W \<subseteq> set ((i, anchor) # rest)" using W(2) ok(1) by (meson filter_is_subset order_trans)
    then have "set (W @ U) \<subseteq> set ((i, anchor) # rest)" using U(3) by auto
    moreover have "fst x \<notin> set claimed" if "x \<in> set W" for x
      using subsetD [OF ok(1), of x] subsetD [OF W(2) that] unfolding set_filter by (cases x) simp
    then have "fst ` set (W @ U) \<inter> set claimed = {}" using U(4) by (auto simp: disjoint_iff)
    ultimately show ?thesis by (intro exI [of _ "W @ U"] conjI)
  qed
qed

lemma bucket_matches_use: "mset (concat (map match_games_of (bucket_matches days gs))) \<subseteq># mset gs"
proof (cases "list_all (\<lambda>g. vg_venue g = vg_venue (hd gs)) gs")
  case False
  let ?gs = "enumerate 0 (sort_key order_key gs)"
  obtain U where U: "concat (map match_games_of (clusters days [] ?gs)) = map snd U" "distinct U" "set U \<subseteq> set ?gs"
    using clusters_use [of ?gs days "[]"] by (auto simp: distinct_enumerate)
  have "mset U \<subseteq># mset ?gs"
    using U(2,3) by (metis distinct_enumerate distinct_map mset_set_set subset_imp_msubset_mset_set List.finite_set)
  then have "image_mset snd (mset U) \<subseteq># image_mset snd (mset ?gs)" by (rule image_mset_subseteq_mono)
  with False U(1) show ?thesis by (simp add: bucket_matches_def flip: mset_map)
qed (simp add: bucket_matches_def)

lemma mset_concat_mono:
  "(\<And>x. x \<in> set xs \<Longrightarrow> mset (f x) \<subseteq># mset (g x)) \<Longrightarrow> mset (concat (map f xs)) \<subseteq># mset (concat (map g xs))"
  by (induction xs) (auto intro: subset_mset.add_mono)

text \<open>
  No listing is used twice: counted with multiplicity, the games of all the matches together are among
  the games the venues listed.
\<close>

theorem match_games_uses_once:
  "mset (concat (map match_games_of (match_games days inputs))) \<subseteq># mset (concat inputs)"
proof -
  let ?b = "buckets inputs"
  have "mset (concat (map match_games_of (match_games days inputs))) =
      mset (concat (map (\<lambda>x. concat (map match_games_of (bucket_matches days (snd x)))) ?b))"
    unfolding match_games_def mset_concat_sort concat_map_concat by (simp add: case_prod_beta)
  also have "\<dots> \<subseteq># mset (concat (map snd ?b))"
    by (rule mset_concat_mono) (rule bucket_matches_use)
  finally show ?thesis by (simp add: mset_buckets)
qed

subsection \<open>What a match is\<close>

text \<open>
  A sound match: at least two venues, one game each, all of them listed, all the same bet on the same
  teams as the match says, and all the same fixture as one of them.
\<close>

definition match_sound :: "int \<Rightarrow> venue_game list \<Rightarrow> cross_match \<Rightarrow> bool" where
  "match_sound days listed m \<longleftrightarrow> 2 \<le> length (per_venue m) \<and> dict_ok (per_venue m) \<and>
     (\<exists>a \<in> set (match_games_of m). p_code (team_a m) = min (p_code (fst (vg_teams a))) (p_code (snd (vg_teams a))) \<and>
        p_code (team_b m) = max (p_code (fst (vg_teams a))) (p_code (snd (vg_teams a))) \<and>
        cm_sport m = vg_sport a \<and> cm_market m = vg_market a \<and> cm_line m = vg_line a \<and> cm_anchor m = vg_anchor a \<and>
        cm_date m = isoformat (vg_date a) \<and>
        (\<forall>(v, g) \<in> set (per_venue m). vg_venue g = v \<and> g \<in> set listed \<and> pair_key g = pair_key a \<and> same_fixture days g a))"

lemma match_games_from_bucket:
  assumes "m \<in> set (match_games days inputs)"
  obtains k gs where "(k, gs) \<in> set (buckets inputs)" "m \<in> set (bucket_matches days gs)"
  using assms by (auto simp: match_games_def)

lemma bucket_match_sound:
  assumes m: "m \<in> set (bucket_matches days gs)" and days: "0 \<le> days"
    and key: "\<And>g. g \<in> set gs \<Longrightarrow> pair_key g = k" and sub: "set gs \<subseteq> set listed"
  shows "match_sound days listed m"
proof -
  let ?gs = "enumerate 0 (sort_key order_key gs)"
  from m have "m \<in> set (clusters days [] ?gs)" by (simp add: bucket_matches_def split: if_splits)
  from clusters_match [OF this] days obtain i a ch where m_eq: "m = build_match a ch" and len: "2 \<le> length ch"
    and ok: "chosen_ok days a ?gs ch" and an: "map_of ch (vg_venue a) = Some (i, a)" by blast
  have in_gs: "g \<in> set gs" if "(j, g) \<in> set ?gs" for j g
  proof -
    from that have "snd (j, g) \<in> set (map snd ?gs)" unfolding set_map by (rule imageI)
    then show ?thesis by simp
  qed
  have a_in: "(vg_venue a, i, a) \<in> set ch" using an by (rule map_of_SomeD)
  have "a \<in> set gs" using chosen_okD(4) [OF ok a_in] in_gs by blast
  have "a \<in> set (match_games_of m)" unfolding m_eq build_match_games using a_in by force
  moreover have "vg_venue g = v \<and> g \<in> set listed \<and> pair_key g = pair_key a \<and> same_fixture days g a"
    if "(v, g) \<in> set (per_venue m)" for v g
  proof -
    from that obtain j where j: "(v, j, g) \<in> set ch" by (auto simp: m_eq build_match_venues)
    from chosen_okD(4) [OF ok j] in_gs key sub \<open>a \<in> set gs\<close> show ?thesis by (metis subsetD)
  qed
  moreover have "dict_ok (per_venue m)" "2 \<le> length (per_venue m)"
    using chosen_okD(1) [OF ok] len by (simp_all add: m_eq build_match_venues comp_def case_prod_beta)
  ultimately show ?thesis
    unfolding match_sound_def
    by (intro conjI bexI [of _ a]) (auto simp: m_eq build_match_fields build_match_teams)
qed

text \<open>
  C10: Every match is a real pairing: at least two venues with one listed game each, all with the same bet
  (sport, market type, line, anchor and pair of teams) as the match states, each the same fixture as the
  match's anchor game, whose teams, in the order of their codes, name the match.
\<close>

theorem match_games_sound:
  assumes "0 \<le> days" "m \<in> set (match_games days inputs)"
  shows "match_sound days (concat inputs) m"
proof -
  from assms(2) obtain k gs where k: "(k, gs) \<in> set (buckets inputs)" "m \<in> set (bucket_matches days gs)"
    by (rule match_games_from_bucket)
  show ?thesis
    by (rule bucket_match_sound [OF k(2) assms(1), of k]) (use bucket_games [OF k(1)] in auto)
qed

subsection \<open>Nothing plain is missed\<close>

lemma dict_set_fresh: "k \<notin> fst ` set d \<Longrightarrow> dict_set k v d = d @ [(k, v)]"
  by (induction d) auto

lemma scan_all:
  assumes "\<forall>x \<in> set gs. same_fixture days (snd x) a" "distinct (map (\<lambda>x. vg_venue (snd x)) gs)"
    "\<forall>x \<in> set gs. vg_venue (snd x) \<notin> fst ` set ch"
  shows "scan days a gs ch = ch @ map (\<lambda>x. (vg_venue (snd x), x)) gs"
  using assms
proof (induction days a gs ch rule: scan.induct)
  case (2 days a j g gs ch)
  have new: "map_of ch (vg_venue g) = None" using 2(6) by (simp add: map_of_eq_None_iff)
  have fresh: "\<forall>x \<in> set gs. vg_venue (snd x) \<noteq> vg_venue g" using 2(5) by (force simp: image_iff)
  have "scan days a gs (ch @ [(vg_venue g, j, g)]) =
      (ch @ [(vg_venue g, j, g)]) @ map (\<lambda>x. (vg_venue (snd x), x)) gs"
    using 2(2) 2(4-6) new fresh by (simp add: dict_set_fresh)
  with 2(4,6) new show ?case by (simp add: dict_set_fresh)
qed simp

lemma clusters_all:
  assumes "\<forall>x \<in> set gs. \<forall>y \<in> set gs. same_fixture days (snd x) (snd y)"
    and "distinct (map (\<lambda>x. vg_venue (snd x)) gs)" "2 \<le> length gs"
  shows "\<exists>m \<in> set (clusters days [] gs). match_games_of m = map snd gs"
proof (cases gs)
  case (Cons x rest)
  obtain i a where x: "x = (i, a)" by (cases x)
  have "scan days a gs [] = map (\<lambda>x. (vg_venue (snd x), x)) gs"
    using scan_all [of gs days a "[]"] assms(1,2) Cons x by auto
  with assms(3) show ?thesis
    by (auto simp: Cons x build_match_games comp_def case_prod_beta Let_def simp del: scan.simps)
qed (use assms in simp)

text \<open>
  C20: Venues that list the same bet on the same fixture are always matched: when the listings with some key
  come from at least two venues, one each, and are pairwise the same fixture, one match holds exactly them.
\<close>

theorem match_games_finds:
  assumes "2 \<le> length (filter (\<lambda>g. pair_key g = k) (concat inputs))" (is "2 \<le> length ?gs")
    and "distinct (map vg_venue (filter (\<lambda>g. pair_key g = k) (concat inputs)))"
    and "\<forall>a \<in> set (filter (\<lambda>g. pair_key g = k) (concat inputs)).
           \<forall>b \<in> set (filter (\<lambda>g. pair_key g = k) (concat inputs)). same_fixture days a b"
  shows "\<exists>m \<in> set (match_games days inputs). mset (match_games_of m) = mset (filter (\<lambda>g. pair_key g = k) (concat inputs))"
proof -
  let ?en = "enumerate 0 (sort_key order_key ?gs)"
  have venues: "map (\<lambda>x. vg_venue (snd x)) ?en = map vg_venue (sort_key order_key ?gs)"
    by (metis (no_types, lifting) comp_def map_eq_conv map_map map_snd_enumerate)
  have "distinct (map vg_venue (sort_key order_key ?gs))"
    using assms(2) by (metis mset_map mset_sort mset_eq_imp_distinct_iff)
  then have dist: "distinct (map (\<lambda>x. vg_venue (snd x)) ?en)" unfolding venues .
  have "snd x \<in> set ?gs" if "x \<in> set ?en" for x
  proof -
    from that have "snd x \<in> set (map snd ?en)" unfolding set_map by (rule imageI)
    then show ?thesis by simp
  qed
  with assms(3) have same: "\<forall>x \<in> set ?en. \<forall>y \<in> set ?en. same_fixture days (snd x) (snd y)" by blast
  have "2 \<le> length ?en" using assms(1) by simp
  from clusters_all [OF same dist this] obtain m where
    m: "m \<in> set (clusters days [] ?en)" "match_games_of m = sort_key order_key ?gs" by auto
  have "\<not> list_all (\<lambda>g. vg_venue g = vg_venue (hd ?gs)) ?gs"
  proof (cases ?gs)
    case (Cons a r)
    with assms(1) obtain b r' where "?gs = a # b # r'" by (cases r) auto
    with assms(2) show ?thesis by auto
  qed (use assms(1) in simp)
  with m(1) have in_bucket: "m \<in> set (bucket_matches days ?gs)" by (simp add: bucket_matches_def)
  have "map_of (buckets inputs) k = Some ?gs"
    using buckets_get [of inputs k] assms(1) by (auto simp: dict_get_def split: option.splits)
  from map_of_SomeD [OF this] in_bucket have "m \<in> set (match_games days inputs)"
    unfolding match_games_def set_sort set_concat set_map image_image by (cases k) (intro UN_I, auto)
  with m(2) show ?thesis by (intro bexI [of _ m]) simp
qed

subsection \<open>Groups of matches\<close>

lemma venue_legs_iff: "l \<in> set (venue_legs yes (v, g)) \<longleftrightarrow> (\<exists>key oid. (key, oid) \<in> set (vg_outcomes g) \<and>
      l = \<lparr>leg_outcome = oid, leg_venue = v, is_yes_side = (key = yes)\<rparr>)"
  by (simp add: venue_legs_def image_iff Bex_def split_paired_Ex)

lemma group_legs_set:
  "set (g_legs (match_to_event_group m)) = (\<Union>x \<in> set (per_venue m). set (venue_legs (yes_key m) x))"
  by (simp add: match_to_event_group_def)

lemma group_legs_iff:
  "l \<in> set (g_legs (match_to_event_group m)) \<longleftrightarrow>
   (\<exists>v g key oid. (v, g) \<in> set (per_venue m) \<and> (key, oid) \<in> set (vg_outcomes g) \<and>
      l = \<lparr>leg_outcome = oid, leg_venue = v, is_yes_side = (key = yes_key m)\<rparr>)"
  unfolding group_legs_set UN_iff Bex_def split_paired_Ex venue_legs_iff by blast

text \<open>A listing that keys its outcomes by the codes of its two teams, as moneylines and spreads do.\<close>

definition keyed_by_team :: "venue_game \<Rightarrow> bool" where
  "keyed_by_team g \<longleftrightarrow> dict_ok (vg_outcomes g) \<and> p_code (fst (vg_teams g)) \<noteq> p_code (snd (vg_teams g)) \<and>
     fst ` set (vg_outcomes g) = {p_code (fst (vg_teams g)), p_code (snd (vg_teams g))}"

lemma two_key_dict:
  assumes "dict_ok d" "fst ` set d = {x, y}"
  obtains yes no where "(x, yes) \<in> set d" "(y, no) \<in> set d" "\<And>k oid. (k, oid) \<in> set d \<Longrightarrow> (k, oid) = (x, yes) \<or> (k, oid) = (y, no)"
proof -
  from assms(2) have "x \<in> fst ` set d" "y \<in> fst ` set d" by simp_all
  then obtain yes no where d: "(x, yes) \<in> set d" "(y, no) \<in> set d" by (auto simp: image_iff)
  show thesis
  proof (rule that [OF d])
    fix k oid assume kv: "(k, oid) \<in> set d"
    then have "k \<in> fst ` set d" by force
    then have "k = x \<or> k = y" unfolding assms(2) by simp
    with kv d show "(k, oid) = (x, yes) \<or> (k, oid) = (y, no)"
      using eq_key_imp_eq_value [OF assms(1)] by blast
  qed
qed

lemma pair_key_codes:
  "pair_key g = pair_key a \<Longrightarrow>
   {p_code (fst (vg_teams g)), p_code (snd (vg_teams g))} = {p_code (fst (vg_teams a)), p_code (snd (vg_teams a))}"
proof -
  assume "pair_key g = pair_key a"
  then have "sort (remdups [p_code (fst (vg_teams g)), p_code (snd (vg_teams g))]) =
      sort (remdups [p_code (fst (vg_teams a)), p_code (snd (vg_teams a))])" by (simp add: pair_key_def)
  then have "set (sort (remdups [p_code (fst (vg_teams g)), p_code (snd (vg_teams g))])) =
      set (sort (remdups [p_code (fst (vg_teams a)), p_code (snd (vg_teams a))]))" by (rule arg_cong)
  then show ?thesis by (simp only: set_sort set_remdups list.set)
qed

lemma one_venue_legs:
  assumes ok: "dict_ok (per_venue m)" and v: "(v, g) \<in> set (per_venue m)"
    and out: "(x, yes) \<in> set (vg_outcomes g)" "(y, no) \<in> set (vg_outcomes g)"
      "\<And>k oid. (k, oid) \<in> set (vg_outcomes g) \<Longrightarrow> (k, oid) = (x, yes) \<or> (k, oid) = (y, no)"
    and key: "yes_key m = x" and ne: "x \<noteq> y"
  shows "{l \<in> set (g_legs (match_to_event_group m)). leg_venue l = v} =
    {\<lparr>leg_outcome = yes, leg_venue = v, is_yes_side = True\<rparr>, \<lparr>leg_outcome = no, leg_venue = v, is_yes_side = False\<rparr>}"
    (is "?L = {?y, ?n}")
proof (rule Set.equalityI)
  show "?L \<subseteq> {?y, ?n}"
  proof
    fix l assume "l \<in> ?L"
    then have "l \<in> set (g_legs (match_to_event_group m))" "leg_venue l = v" by simp_all
    then obtain v' g' k oid where l: "(v', g') \<in> set (per_venue m)" "(k, oid) \<in> set (vg_outcomes g')"
      "l = \<lparr>leg_outcome = oid, leg_venue = v', is_yes_side = (k = yes_key m)\<rparr>" unfolding group_legs_iff by blast
    with \<open>leg_venue l = v\<close> have "v' = v" by simp
    with l(1) v have "g' = g" using eq_key_imp_eq_value [OF ok] by blast
    from out(3) [OF l(2) [unfolded \<open>g' = g\<close>]] show "l \<in> {?y, ?n}"
      using ne by (auto simp: l(3) key \<open>v' = v\<close>)
  qed
  have "?y \<in> set (g_legs (match_to_event_group m))" "?n \<in> set (g_legs (match_to_event_group m))"
    unfolding group_legs_iff using v out(1,2) key ne by blast+
  then show "{?y, ?n} \<subseteq> ?L" by simp
qed

text \<open>
  The group of a moneyline match has on each venue exactly two legs: YES on the outcome that venue
  lists for \<open>team_a\<close>, NO on the one it lists for \<open>team_b\<close>, and no leg of any other outcome.
\<close>

theorem moneyline_group_legs:
  assumes "0 \<le> days" "m \<in> set (match_games days inputs)" "cm_market m = ''moneyline''"
    and "\<forall>g \<in> set (match_games_of m). keyed_by_team g" "(v, g) \<in> set (per_venue m)"
  shows "\<exists>yes no. (p_code (team_a m), yes) \<in> set (vg_outcomes g) \<and> (p_code (team_b m), no) \<in> set (vg_outcomes g) \<and>
    {l \<in> set (g_legs (match_to_event_group m)). leg_venue l = v} =
      {\<lparr>leg_outcome = yes, leg_venue = v, is_yes_side = True\<rparr>, \<lparr>leg_outcome = no, leg_venue = v, is_yes_side = False\<rparr>}"
proof -
  note sound = match_games_sound [OF assms(1,2), unfolded match_sound_def]
  from sound obtain a where a: "a \<in> set (match_games_of m)"
    "p_code (team_a m) = min (p_code (fst (vg_teams a))) (p_code (snd (vg_teams a)))"
    "p_code (team_b m) = max (p_code (fst (vg_teams a))) (p_code (snd (vg_teams a)))"
    and all: "\<forall>(v, g) \<in> set (per_venue m). vg_venue g = v \<and> g \<in> set (concat inputs) \<and> pair_key g = pair_key a \<and> same_fixture days g a"
    by blast
  have "keyed_by_team a" using assms(4) a(1) by blast
  then have ne: "p_code (team_a m) \<noteq> p_code (team_b m)"
    unfolding a(2,3) keyed_by_team_def min_def max_def by metis
  from all assms(5) have "pair_key g = pair_key a" by blast
  moreover have "{p_code (team_a m), p_code (team_b m)} = {p_code (fst (vg_teams a)), p_code (snd (vg_teams a))}"
    unfolding a(2,3) min_def max_def by auto
  ultimately have codes: "{p_code (fst (vg_teams g)), p_code (snd (vg_teams g))} = {p_code (team_a m), p_code (team_b m)}"
    using pair_key_codes by metis
  have "g \<in> set (match_games_of m)" unfolding match_games_of_def set_map using assms(5) by (metis imageI snd_conv)
  from bspec [OF assms(4) this] have "keyed_by_team g" .
  then have "dict_ok (vg_outcomes g)" "fst ` set (vg_outcomes g) = {p_code (team_a m), p_code (team_b m)}"
    by (simp_all only: keyed_by_team_def codes)
  from two_key_dict [OF this] obtain yes no where out:
    "(p_code (team_a m), yes) \<in> set (vg_outcomes g)" "(p_code (team_b m), no) \<in> set (vg_outcomes g)"
    "\<And>k oid. (k, oid) \<in> set (vg_outcomes g) \<Longrightarrow> (k, oid) = (p_code (team_a m), yes) \<or> (k, oid) = (p_code (team_b m), no)"
    by blast
  have "yes_key m = p_code (team_a m)" using assms(3) by (simp add: yes_key_def)
  have "dict_ok (per_venue m)" using sound by (elim conjE)
  from one_venue_legs [OF this assms(5) out \<open>yes_key m = p_code (team_a m)\<close> ne] out(1,2)
  show ?thesis by (intro exI [of _ yes] exI [of _ no] conjI)
qed

subsection \<open>Live state\<close>

lemma in_play_loop_eq:
  "in_play_loop gs seen playing =
     (if \<exists>g \<in> set gs. vg_ended g = Some True then Some False
      else if seen \<or> (\<exists>g \<in> set gs. vg_ended g \<noteq> None \<or> vg_live g \<noteq> None)
      then Some (playing \<or> (\<exists>g \<in> set gs. vg_live g = Some True)) else None)"
  by (induction gs seen playing rule: in_play_loop.induct) auto

lemma ended_loop_eq:
  "ended_loop gs seen =
     (if \<exists>g \<in> set gs. vg_ended g = Some True then Some True
      else if seen \<or> (\<exists>g \<in> set gs. vg_ended g \<noteq> None) then Some False else None)"
  by (induction gs seen rule: ended_loop.induct) auto

text \<open>
  The live state of a group does not depend on the order of the venues: one report of the end makes
  the group ended and not in play; otherwise one live report makes it in play; venues that say nothing are
  not asked, and a group nobody reported on stays unknown. A game that has not ended is never reported
  ended, so a fixture that has merely not begun cannot pass for a finished one.
\<close>

theorem match_live_state:
  "match_ended m = (if \<exists>g \<in> set (match_games_of m). vg_ended g = Some True then Some True
      else if \<exists>g \<in> set (match_games_of m). vg_ended g \<noteq> None then Some False else None)"
  "match_in_play m = (if match_ended m = Some True then Some False
      else if \<exists>g \<in> set (match_games_of m). vg_ended g \<noteq> None \<or> vg_live g \<noteq> None
      then Some (\<exists>g \<in> set (match_games_of m). vg_live g = Some True) else None)"
  by (simp_all add: match_ended_def match_in_play_def ended_loop_eq in_play_loop_eq)

subsection \<open>A concrete slate\<close>

definition sample_game :: "string \<Rightarrow> (string, string) dict \<Rightarrow> int \<Rightarrow> venue_game" where
  "sample_game v outs t = \<lparr>vg_sport = ''mlb'', vg_venue = v, vg_date = (2026, 8, 11),
     vg_teams = (\<lparr>p_code = ''NYY'', p_name = ''Yankees''\<rparr>, \<lparr>p_code = ''BOS'', p_name = ''Red Sox''\<rparr>),
     vg_outcomes = outs, vg_ref = ''r'', vg_market = ''moneyline'', vg_line = None, vg_anchor = None,
     vg_start = Some t, vg_live = None, vg_ended = None\<rparr>"

text \<open>Two games of a series: each venue lists both, a day apart.\<close>

definition sample_day :: int where
  "sample_day = 86400000000"

definition sample_slate :: "venue_game list list" where
  "sample_slate =
     [[sample_game ''kalshi'' [(''NYY'', ''K1:Y''), (''BOS'', ''K1:B'')] 0],
      [sample_game ''poly'' [(''NYY'', ''P1:Y''), (''BOS'', ''P1:B'')] 60000000,
       sample_game ''poly'' [(''NYY'', ''P2:Y''), (''BOS'', ''P2:B'')] sample_day]]"

lemma sample_pair_key: "pair_key (sample_game v outs t) = (''mlb'', ''moneyline'', ''na'', [], [''BOS'', ''NYY''])"
  by (simp add: sample_game_def pair_key_def or_else_def fmt_line_def)

lemma sample_fields [simp]:
  "vg_venue (sample_game v outs t) = v" "vg_start (sample_game v outs t) = Some t"
  "vg_outcomes (sample_game v outs t) = outs" "vg_market (sample_game v outs t) = ''moneyline''"
  "vg_ended (sample_game v outs t) = None"
  by (simp_all add: sample_game_def)

lemma sample_teams [simp]:
  "p_code (fst (vg_teams (sample_game v outs t))) = ''NYY''" "p_code (snd (vg_teams (sample_game v outs t))) = ''BOS''"
  by (simp_all add: sample_game_def)

lemma sample_order_key: "order_key (sample_game v outs t) = (0, flt_round (of_int t / 10 ^ 6), v)"
  by (simp add: order_key_def)

lemma sample_same_fixture: "same_fixture days (sample_game v outs t) (sample_game v' outs' t') \<longleftrightarrow> \<bar>t - t'\<bar> \<le> 5400000000"
  by (simp add: same_fixture_def START_TIME_TOLERANCE_def)

lemma sample_buckets:
  "buckets sample_slate = [((''mlb'', ''moneyline'', ''na'', [], [''BOS'', ''NYY'']), concat sample_slate)]"
  by (simp add: buckets_def sample_slate_def add_to_bucket_def sample_pair_key dict_get_def)

lemma sample_seconds: "flt_round 0 = 0" "flt_round 60 = 60" "flt_round 86400 = 86400"
  by (simp_all add: flt_round_literal eval_rules)

lemma sample_sorted: "sort_key order_key (concat sample_slate) = concat sample_slate"
  by (simp add: sample_slate_def sample_order_key sample_seconds sample_day_def)

definition sample_match :: cross_match where
  "sample_match = build_match (sample_game ''kalshi'' [(''NYY'', ''K1:Y''), (''BOS'', ''K1:B'')] 0)
     [(''kalshi'', 0, sample_game ''kalshi'' [(''NYY'', ''K1:Y''), (''BOS'', ''K1:B'')] 0),
      (''poly'', 1, sample_game ''poly'' [(''NYY'', ''P1:Y''), (''BOS'', ''P1:B'')] 60000000)]"

lemma sample_matches: "match_games 0 sample_slate = [sample_match]"
proof -
  have "bucket_matches 0 (concat sample_slate) = clusters 0 [] (enumerate 0 (concat sample_slate))"
    unfolding bucket_matches_def sample_sorted by (simp add: sample_slate_def)
  also have "\<dots> = [sample_match]"
    by (simp add: sample_slate_def sample_match_def sample_day_def sample_same_fixture)
  finally show ?thesis by (simp add: match_games_def sample_buckets)
qed

lemma sample_match_venues:
  "per_venue sample_match = [(''kalshi'', sample_game ''kalshi'' [(''NYY'', ''K1:Y''), (''BOS'', ''K1:B'')] 0),
     (''poly'', sample_game ''poly'' [(''NYY'', ''P1:Y''), (''BOS'', ''P1:B'')] 60000000)]"
  by (simp add: sample_match_def build_match_venues)

theorem match_games_sound_witness:
  "sample_match \<in> set (match_games 0 sample_slate) \<and> match_sound 0 (concat sample_slate) sample_match"
  using match_games_sound [of 0 sample_match sample_slate] by (simp add: sample_matches)

theorem match_games_finds_witness:
  "\<exists>m \<in> set (match_games 0 (take 1 sample_slate @ [take 1 (sample_slate ! 1)])). length (match_games_of m) = 2"
proof -
  let ?ls = "take 1 sample_slate @ [take 1 (sample_slate ! 1)]"
  let ?k = "(''mlb'', ''moneyline'', ''na'', [], [''BOS'', ''NYY''])"
  have eq: "filter (\<lambda>g. pair_key g = ?k) (concat ?ls) = concat ?ls"
    by (simp add: sample_slate_def sample_pair_key)
  have "\<exists>m \<in> set (match_games 0 ?ls). mset (match_games_of m) = mset (concat ?ls)"
    using match_games_finds [of ?k ?ls 0, unfolded eq] by (simp add: sample_slate_def sample_same_fixture)
  then obtain m where m: "m \<in> set (match_games 0 ?ls)" "mset (match_games_of m) = mset (concat ?ls)" by blast
  from mset_eq_length [OF m(2)] have "length (match_games_of m) = 2" by (simp add: sample_slate_def)
  with m(1) show ?thesis by blast
qed

theorem moneyline_group_legs_witness:
  "\<exists>yes no. yes \<noteq> no \<and> {l \<in> set (g_legs (match_to_event_group sample_match)). leg_venue l = ''poly''} =
     {\<lparr>leg_outcome = yes, leg_venue = ''poly'', is_yes_side = True\<rparr>, \<lparr>leg_outcome = no, leg_venue = ''poly'', is_yes_side = False\<rparr>}"
proof -
  let ?g = "sample_game ''poly'' [(''NYY'', ''P1:Y''), (''BOS'', ''P1:B'')] 60000000"
  have "cm_market sample_match = ''moneyline''" by (simp add: sample_match_def build_match_fields)
  moreover have "\<forall>g \<in> set (match_games_of sample_match). keyed_by_team g"
    by (simp add: match_games_of_def sample_match_venues keyed_by_team_def)
  moreover have "(''poly'', ?g) \<in> set (per_venue sample_match)" by (simp add: sample_match_venues)
  ultimately obtain yes no where out: "(p_code (team_a sample_match), yes) \<in> set (vg_outcomes ?g)"
    "(p_code (team_b sample_match), no) \<in> set (vg_outcomes ?g)"
    and legs: "{l \<in> set (g_legs (match_to_event_group sample_match)). leg_venue l = ''poly''} =
      {\<lparr>leg_outcome = yes, leg_venue = ''poly'', is_yes_side = True\<rparr>, \<lparr>leg_outcome = no, leg_venue = ''poly'', is_yes_side = False\<rparr>}"
    using moneyline_group_legs [of 0 sample_match sample_slate "''poly''" ?g] unfolding sample_matches by auto
  have "p_code (team_a sample_match) = ''BOS''" "p_code (team_b sample_match) = ''NYY''"
    by (simp_all add: sample_match_def build_match_teams)
  with out have "yes \<noteq> no" by auto
  with legs show ?thesis by blast
qed

end
