(* ===== verification/Discovery.thy ===== *)
theory Discovery
  imports App_State Matcher
begin

section \<open>The discovery service\<close>

text \<open>
  \<open>arbys/discovery/service.py\<close> with the write path it uses, \<open>run_write\<close> of \<open>arbys/db/session.py\<close>. A pass asks
  both venues for every sport, matches what they list, writes the groups that changed, registers them, and
  retires the discovered groups that a complete pass no longer found. What a venue lists is an argument
  (\<open>None\<close> when a sub-pass raised), as is what the database answers to each attempt of a write. The rows of
  the event-group table are a dictionary: \<open>upsert_event_group\<close> keeps a known start time and stores no live
  state. A pass is one step: no other coroutine registers groups between its awaits.
\<close>

subsection \<open>Writes that may fail\<close>

datatype attempt = Committed | Transient | Broken

definition WRITE_ATTEMPTS :: nat where
  "WRITE_ATTEMPTS = 3"

text \<open>
  The attempts of one write, an attempt the database has no answer for counting as broken: whether it
  committed, and the multiples of the backoff it waited.
\<close>

fun write_loop :: "nat \<Rightarrow> attempt list \<Rightarrow> bool \<times> nat list" where
  "write_loop n [] = (False, [])"
| "write_loop n (a # as) = (case a of
     Committed \<Rightarrow> (True, [])
   | Broken \<Rightarrow> (False, [])
   | Transient \<Rightarrow> if n < WRITE_ATTEMPTS then (case write_loop (Suc n) as of (ok, ws) \<Rightarrow> (ok, n # ws)) else (False, []))"

definition run_write :: "attempt list \<Rightarrow> nat \<Rightarrow> bool \<times> nat" where
  "run_write answers dropped = (let ok = fst (write_loop 1 answers) in (ok, if ok then dropped else Suc dropped))"

subsection \<open>Passes\<close>

definition spreads_enabled :: "env \<Rightarrow> bool" where
  "spreads_enabled env \<longleftrightarrow> map lower (strip (getenv env ''ARBYS_ENABLE_SPREADS'' ''1'')) \<notin> set [''0'', ''false'', ''no'', ''off'']"

definition DEFAULT_MAX_CONCURRENT_PASSES :: int where
  "DEFAULT_MAX_CONCURRENT_PASSES = 1"

definition max_concurrent_passes :: "env \<Rightarrow> int" where
  "max_concurrent_passes env = (case env ''ARBYS_DISCOVERY_CONCURRENCY'' of
     None \<Rightarrow> DEFAULT_MAX_CONCURRENT_PASSES
   | Some raw \<Rightarrow> (case py_int raw of None \<Rightarrow> DEFAULT_MAX_CONCURRENT_PASSES | Some v \<Rightarrow> max 1 v))"

definition TEAM_SPORTS :: "string list" where
  "TEAM_SPORTS = [''mlb'', ''nfl'', ''nba'', ''wnba'', ''ncaaf'']"

definition TOTALS_SPORTS :: "string list" where
  "TOTALS_SPORTS = [''nfl'', ''mlb'', ''wnba'', ''ncaaf'']"

definition SPREADS_SPORTS :: "string list" where
  "SPREADS_SPORTS = [''nfl'', ''mlb'', ''ncaaf'']"

text \<open>The sub-passes, each with its date tolerance.\<close>

definition sub_passes :: "env \<Rightarrow> (string \<times> int) list" where
  "sub_passes env = map (\<lambda>s. (s, 0)) TEAM_SPORTS @ map (\<lambda>s. (s @ '' totals'', 0)) TOTALS_SPORTS @
     [(''tennis'', 1), (''ufc'', 1)] @
     (if spreads_enabled env then map (\<lambda>s. (s @ '' spreads'', 0)) SPREADS_SPORTS else [])"

definition discover_pair :: "env \<Rightarrow> date \<Rightarrow> int \<Rightarrow> venue_game list \<Rightarrow> venue_game list \<Rightarrow> event_group list" where
  "discover_pair env today tol kalshi_games poly_games = (let days = discovery_horizon_days env in
     map match_to_event_group (match_games tol [filter_horizon kalshi_games days today, filter_horizon poly_games days today]))"

type_synonym listings = "string \<Rightarrow> (venue_game list \<times> venue_game list) option"

definition discover_all_event_groups :: "env \<Rightarrow> date \<Rightarrow> listings \<Rightarrow> event_group list \<times> bool" where
  "discover_all_event_groups env today fetch =
     (let results = map (\<lambda>(lbl, tol). map_option (\<lambda>(k, p). discover_pair env today tol k p) (fetch lbl)) (sub_passes env)
      in (concat (List.map_filter id results), list_all (\<lambda>r. r \<noteq> None) results))"

subsection \<open>Registration and retirement\<close>

type_synonym stored = "(string, event_group) dict"

record disc =
  d_app :: app
  d_stored :: stored
  d_dropped :: nat

definition upsert_event_group :: "event_group \<Rightarrow> stored \<Rightarrow> stored" where
  "upsert_event_group g rows = dict_set (g_id g) (g\<lparr>in_play := None, ended := None,
     start_time := (case start_time g of None \<Rightarrow> (case map_of rows (g_id g) of None \<Rightarrow> None | Some old \<Rightarrow> start_time old)
                    | Some t \<Rightarrow> Some t)\<rparr>) rows"

definition GROUP_WRITE_BATCH :: nat where
  "GROUP_WRITE_BATCH = 5"

text \<open>The groups to write, each with what the state held for its id when the pass began.\<close>

definition pending_groups :: "event_group list \<Rightarrow> (string, event_group) dict \<Rightarrow> (event_group \<times> event_group option) list" where
  "pending_groups groups known = map (\<lambda>g. (g, map_of known (g_id g))) (filter (\<lambda>g. map_of known (g_id g) \<noteq> Some g) groups)"

definition register_one :: "event_group \<times> event_group option \<Rightarrow> app \<Rightarrow> app" where
  "register_one x st = (case x of (g, existing) \<Rightarrow> st\<lparr>app_groups := dict_set (g_id g) g (app_groups st),
     app_engine := (if existing = None then register_group g (app_engine st)
       else register_group g (unregister_group (g_id g) (app_engine st)))\<rparr>)"

text \<open>One transaction: the state changes only when it committed.\<close>

definition write_batch :: "attempt list \<Rightarrow> (event_group \<times> event_group option) list \<Rightarrow> disc \<Rightarrow> disc \<times> bool" where
  "write_batch answers b st = (case run_write answers (d_dropped st) of (ok, dropped) \<Rightarrow>
     (if ok then st\<lparr>d_dropped := dropped, d_stored := fold (\<lambda>x. upsert_event_group (fst x)) b (d_stored st),
        d_app := fold register_one b (d_app st)\<rparr> else st\<lparr>d_dropped := dropped\<rparr>, ok))"

fun write_batches :: "(nat \<Rightarrow> attempt list) \<Rightarrow> nat \<Rightarrow> (event_group \<times> event_group option) list list \<Rightarrow> disc \<Rightarrow> disc \<times> bool" where
  "write_batches answers i [] st = (st, False)"
| "write_batches answers i (b # bs) st = (case write_batch (answers i) b st of (st1, ok) \<Rightarrow>
     case write_batches answers (Suc i) bs st1 of (st2, changed) \<Rightarrow> (st2, (ok \<and> b \<noteq> []) \<or> changed))"

definition retire_one :: "string \<Rightarrow> app \<Rightarrow> app" where
  "retire_one gid st = (let st1 = clear_group_opportunities gid (st\<lparr>app_engine := unregister_group gid (app_engine st)\<rparr>)
     in st1\<lparr>app_groups := dict_pop gid (app_groups st1)\<rparr>)"

definition stale_ids :: "string set \<Rightarrow> (string, event_group) dict \<Rightarrow> string list" where
  "stale_ids found groups = map fst (filter (\<lambda>(gid, g). gid \<notin> found \<and> g_source g = ''discovery'') groups)"

definition retire_stored :: "attempt list \<Rightarrow> string \<Rightarrow> disc \<Rightarrow> disc \<times> bool" where
  "retire_stored answers gid st = (case run_write answers (d_dropped st) of (ok, dropped) \<Rightarrow>
     (if ok then st\<lparr>d_dropped := dropped, d_stored := dict_pop gid (d_stored st), d_app := retire_one gid (d_app st)\<rparr>
      else st\<lparr>d_dropped := dropped\<rparr>, ok))"

fun retire_all :: "(string \<Rightarrow> attempt list) \<Rightarrow> string list \<Rightarrow> disc \<Rightarrow> disc \<times> bool" where
  "retire_all answers [] st = (st, False)"
| "retire_all answers (gid # gids) st = (case retire_stored (answers gid) gid st of (st1, ok) \<Rightarrow>
     case retire_all answers gids st1 of (st2, retired) \<Rightarrow> (st2, ok \<or> retired))"

definition retire_missing :: "(string \<Rightarrow> attempt list) \<Rightarrow> string set \<Rightarrow> disc \<Rightarrow> disc \<times> bool" where
  "retire_missing answers found st = retire_all answers (stale_ids found (app_groups (d_app st))) st"

definition reconcile ::
  "event_group list \<Rightarrow> bool \<Rightarrow> (nat \<Rightarrow> attempt list) \<Rightarrow> (string \<Rightarrow> attempt list) \<Rightarrow> disc \<Rightarrow> disc \<times> bool" where
  "reconcile groups whole upserts deletes st =
     (case write_batches upserts 0 (chunks GROUP_WRITE_BATCH (pending_groups groups (app_groups (d_app st)))) st of
        (st1, changed) \<Rightarrow>
          if whole then (case retire_missing deletes (g_id ` set groups) st1 of (st2, retired) \<Rightarrow> (st2, changed \<or> retired))
          else (st1, changed))"

definition run_once ::
  "date \<Rightarrow> listings \<Rightarrow> (nat \<Rightarrow> attempt list) \<Rightarrow> (string \<Rightarrow> attempt list) \<Rightarrow> disc \<Rightarrow> disc \<times> nat" where
  "run_once today fetch upserts deletes st =
     (case discover_all_event_groups (app_env (d_app st)) today fetch of (groups, whole) \<Rightarrow>
        case reconcile groups whole upserts deletes st of (st1, changed) \<Rightarrow>
          ((if changed then st1\<lparr>d_app := sync_ingest (d_app st1)\<rparr> else st1), length groups))"

subsection \<open>Writes\<close>

text \<open>A write is tried three times at most; it is dropped, and counted, exactly when no try that was made committed.\<close>

lemma write_loop_waits: "length (snd (write_loop n as)) \<le> WRITE_ATTEMPTS - n"
  by (induction n as rule: write_loop.induct) (auto split: attempt.splits prod.splits)

lemma run_write_dropped: "run_write as d = (ok, d') \<Longrightarrow> d' = d + (if ok then 0 else 1)"
  by (auto simp: run_write_def Let_def)

lemma write_loop_commits:
  "fst (write_loop n as) \<longleftrightarrow> (\<exists>k. k < length as \<and> as ! k = Committed \<and> (\<forall>j < k. as ! j = Transient) \<and> n + k \<le> max n WRITE_ATTEMPTS)"
proof (induction n as rule: write_loop.induct)
  case (2 n a as)
  show ?case
  proof (cases a)
    case Transient
    have ex: "(\<exists>k. k < length (a # as) \<and> (a # as) ! k = Committed \<and> (\<forall>j < k. (a # as) ! j = Transient) \<and> n + k \<le> max n WRITE_ATTEMPTS) \<longleftrightarrow>
        (\<exists>k. k < length as \<and> as ! k = Committed \<and> (\<forall>j < k. as ! j = Transient) \<and> n + Suc k \<le> max n WRITE_ATTEMPTS)" (is "?L \<longleftrightarrow> ?R")
    proof
      assume ?L
      then obtain k where k: "k < length (a # as)" "(a # as) ! k = Committed" "\<forall>j < k. (a # as) ! j = Transient" "n + k \<le> max n WRITE_ATTEMPTS"
        by blast
      with Transient obtain k' where "k = Suc k'" by (cases k) auto
      with k show ?R by (intro exI [of _ k']) (auto simp: nth_Cons')
    next
      assume ?R
      then obtain k where "k < length as" "as ! k = Committed" "\<forall>j < k. as ! j = Transient" "n + Suc k \<le> max n WRITE_ATTEMPTS" by blast
      with Transient show ?L by (intro exI [of _ "Suc k"]) (auto simp: nth_Cons')
    qed
    show ?thesis
    proof (cases "n < WRITE_ATTEMPTS")
      case True
      with 2 [OF Transient True] Transient ex show ?thesis by (auto split: prod.splits)
    next
      case False
      with ex Transient show ?thesis by auto
    qed
  qed (auto simp: nth_Cons' intro: exI [of _ 0])
qed simp

subsection \<open>State and database stay together\<close>

text \<open>
  The pass's invariant: the engine holds exactly the groups of the state, its index covers them, every group is
  known to the database, and only registered groups have live opportunities.
\<close>

definition app_ok :: "app \<Rightarrow> bool" where
  "app_ok a \<longleftrightarrow> dict_ok (app_groups a) \<and> map_of (en_groups (app_engine a)) = map_of (app_groups a) \<and> index_complete (app_engine a) \<and>
     dom (map_of (app_opps a)) \<subseteq> dom (map_of (app_groups a))"

definition disc_ok :: "disc \<Rightarrow> bool" where
  "disc_ok st \<longleftrightarrow> app_ok (d_app st) \<and> dom (map_of (app_groups (d_app st))) \<subseteq> dom (map_of (d_stored st))"

lemma register_group_groups [simp]: "en_groups (register_group g en) = dict_set (g_id g) g (en_groups en)"
  by (simp add: register_group_def)

lemma unregister_group_lookup:
  "map_of (en_groups (unregister_group gid en)) k = (if k = gid then None else map_of (en_groups en) k)"
  by (auto simp: unregister_group_def split: option.splits)

lemma register_complete: "index_complete en \<Longrightarrow> index_complete (register_group g en)"
  using engine_step_complete engine_step.register by blast

lemma unregister_complete: "index_complete en \<Longrightarrow> index_complete (unregister_group gid en)"
  using engine_step_complete engine_step.unregister by blast

lemma register_one_lookup:
  "map_of (app_groups (register_one x a)) k = (if k = g_id (fst x) then Some (fst x) else map_of (app_groups a) k)"
  by (cases x) (simp add: register_one_def)

lemma register_one_ok: "app_ok a \<Longrightarrow> app_ok (register_one x a)"
  by (cases x) (auto simp: app_ok_def register_one_def fun_eq_iff unregister_group_lookup register_complete unregister_complete)

lemma retire_one_lookup: "map_of (app_groups (retire_one gid a)) k = (if k = gid then None else map_of (app_groups a) k)"
  by (simp add: retire_one_def Let_def clear_group_opportunities_def)

lemma dom_pop: "dom (map_of (dict_pop k d)) = dom (map_of d) - {k}"
  by (auto simp: dom_def)

lemma retire_one_fields:
  "app_groups (retire_one gid a) = dict_pop gid (app_groups a)" "app_opps (retire_one gid a) = dict_pop gid (app_opps a)"
  "app_engine (retire_one gid a) = unregister_group gid (app_engine a)"
  by (simp_all add: retire_one_def Let_def clear_group_opportunities_def)

lemma retire_one_ok: "app_ok a \<Longrightarrow> app_ok (retire_one gid a)"
  unfolding app_ok_def retire_one_fields dom_pop by (auto simp: fun_eq_iff unregister_group_lookup unregister_complete)

lemma upsert_dom: "dom (map_of (upsert_event_group g rows)) = insert (g_id g) (dom (map_of rows))"
  by (auto simp: upsert_event_group_def dom_def)

lemma fold_register_ok: "app_ok a \<Longrightarrow> app_ok (fold register_one b a)"
  by (induction b arbitrary: a) (simp, metis fold_simps(2) register_one_ok)

lemma fold_register_lookup:
  "map_of (app_groups (fold register_one b a)) = map_of (app_groups a) ++ map_of (rev (map (\<lambda>x. (g_id (fst x), fst x)) b))"
proof (induction b arbitrary: a)
  case (Cons x b)
  have "map_of (app_groups (register_one x a)) = (map_of (app_groups a))(g_id (fst x) \<mapsto> fst x)"
    by (auto simp: fun_eq_iff register_one_lookup)
  with Cons show ?case by (auto simp: fun_eq_iff map_add_def split: option.splits)
qed simp

lemma fold_upsert_dom:
  "dom (map_of (fold (\<lambda>x. upsert_event_group (fst x)) b rows)) = dom (map_of rows) \<union> (\<lambda>x. g_id (fst x)) ` set b"
  by (induction b arbitrary: rows) (auto simp: upsert_dom)

lemma fold_register_dom:
  "dom (map_of (app_groups (fold register_one b a))) = dom (map_of (app_groups a)) \<union> (\<lambda>x. g_id (fst x)) ` set b"
  by (auto simp: fold_register_lookup image_image dom_map_of_conv_image_fst)

lemma write_batch_ok: "disc_ok st \<Longrightarrow> disc_ok (fst (write_batch as b st))"
  by (auto simp: write_batch_def disc_ok_def fold_register_ok fold_register_dom fold_upsert_dom split: prod.splits)

lemma write_batches_fst:
  "fst (write_batches answers i (b # bs) st) = fst (write_batches answers (Suc i) bs (fst (write_batch (answers i) b st)))"
  by (simp split: prod.splits)

lemma write_batches_ok: "disc_ok st \<Longrightarrow> disc_ok (fst (write_batches answers i bs st))"
  by (induction bs arbitrary: i st) (simp, metis write_batches_fst write_batch_ok)

lemma retire_one_dom: "dom (map_of (app_groups (retire_one gid a))) = dom (map_of (app_groups a)) - {gid}"
  by (auto simp: dom_def retire_one_lookup)

lemma retire_stored_ok: "disc_ok st \<Longrightarrow> disc_ok (fst (retire_stored as gid st))"
  by (auto simp: retire_stored_def disc_ok_def retire_one_ok retire_one_dom dom_pop split: prod.splits)

lemma retire_all_fst:
  "fst (retire_all answers (gid # gids) st) = fst (retire_all answers gids (fst (retire_stored (answers gid) gid st)))"
  by (simp split: prod.splits)

lemma retire_all_ok: "disc_ok st \<Longrightarrow> disc_ok (fst (retire_all answers gids st))"
  by (induction gids arbitrary: st) (simp, metis retire_all_fst retire_stored_ok)

lemma reconcile_fst:
  "fst (reconcile groups whole upserts deletes st) =
     (let st1 = fst (write_batches upserts 0 (chunks GROUP_WRITE_BATCH (pending_groups groups (app_groups (d_app st)))) st)
      in if whole then fst (retire_all deletes (stale_ids (g_id ` set groups) (app_groups (d_app st1))) st1) else st1)"
  by (simp add: reconcile_def retire_missing_def Let_def split: prod.splits)

lemma sync_ingest_keeps:
  "app_groups (sync_ingest a) = app_groups a" "app_engine (sync_ingest a) = app_engine a" "app_opps (sync_ingest a) = app_opps a"
  by (simp_all add: sync_ingest_def restart_ingest_def start_ingest_def stop_ingest_def Let_def)

lemma run_once_parts:
  obtains whole groups where "discover_all_event_groups (app_env (d_app st)) today fetch = (groups, whole)"
    "app_groups (d_app (fst (run_once today fetch upserts deletes st))) = app_groups (d_app (fst (reconcile groups whole upserts deletes st)))"
    "app_engine (d_app (fst (run_once today fetch upserts deletes st))) = app_engine (d_app (fst (reconcile groups whole upserts deletes st)))"
    "app_opps (d_app (fst (run_once today fetch upserts deletes st))) = app_opps (d_app (fst (reconcile groups whole upserts deletes st)))"
    "d_stored (fst (run_once today fetch upserts deletes st)) = d_stored (fst (reconcile groups whole upserts deletes st))"
proof -
  obtain groups whole where 1: "discover_all_event_groups (app_env (d_app st)) today fetch = (groups, whole)" by fastforce
  show thesis
    by (rule that [OF 1]) (simp_all add: run_once_def 1 sync_ingest_keeps split: prod.splits)
qed


subsection \<open>What a pass may change\<close>

definition by_id :: "event_group list \<Rightarrow> string \<Rightarrow> event_group option" where
  "by_id groups = map_of (map (\<lambda>g. (g_id g, g)) groups)"

lemma by_id_in: "by_id groups gid = Some g \<Longrightarrow> g \<in> set groups \<and> g_id g = gid"
  by (auto simp: by_id_def dest!: map_of_SomeD)

lemma by_id_None: "by_id groups gid = None \<longleftrightarrow> gid \<notin> g_id ` set groups"
  by (simp add: by_id_def map_of_eq_None_iff image_image)

lemma by_id_distinct: "distinct (map g_id groups) \<Longrightarrow> g \<in> set groups \<Longrightarrow> by_id groups (g_id g) = Some g"
  unfolding by_id_def by (rule map_of_is_SomeI) (auto simp: comp_def)

definition scoped :: "event_group list \<Rightarrow> (string \<Rightarrow> event_group option) \<Rightarrow> (string \<Rightarrow> event_group option) \<Rightarrow> bool" where
  "scoped groups old new \<longleftrightarrow> (\<forall>gid. new gid = old gid \<or> (\<exists>g. by_id groups gid = Some g \<and> new gid = Some g))"

definition from_pass :: "event_group list \<Rightarrow> (event_group \<times> event_group option) list \<Rightarrow> bool" where
  "from_pass groups b \<longleftrightarrow> (\<forall>x \<in> set b. by_id groups (g_id (fst x)) = Some (fst x))"

lemma fold_register_scoped:
  "from_pass groups b \<Longrightarrow> scoped groups old (map_of (app_groups a)) \<Longrightarrow> scoped groups old (map_of (app_groups (fold register_one b a)))"
proof (induction b arbitrary: a)
  case (Cons x b)
  have "scoped groups old (map_of (app_groups (register_one x a)))"
    using Cons.prems by (auto simp: scoped_def register_one_lookup from_pass_def)
  with Cons show ?case by (simp add: from_pass_def)
qed simp

lemma write_batches_scoped:
  "\<forall>b \<in> set bs. from_pass groups b \<Longrightarrow> scoped groups old (map_of (app_groups (d_app st))) \<Longrightarrow>
   scoped groups old (map_of (app_groups (d_app (fst (write_batches answers i bs st)))))"
proof (induction bs arbitrary: i st)
  case (Cons b bs)
  have "scoped groups old (map_of (app_groups (d_app (fst (write_batch (answers i) b st)))))"
    using Cons.prems by (auto simp: write_batch_def intro: fold_register_scoped split: prod.splits)
  with Cons show ?case unfolding write_batches_fst by simp
qed simp

lemma pending_from_pass:
  "distinct (map g_id groups) \<Longrightarrow> b \<in> set (chunks n (pending_groups groups known)) \<Longrightarrow> 0 < n \<Longrightarrow> from_pass groups b"
proof -
  assume d: "distinct (map g_id groups)" and b: "b \<in> set (chunks n (pending_groups groups known))" and n: "0 < n"
  have "set b \<subseteq> set (concat (chunks n (pending_groups groups known)))" using b by auto
  then have "set b \<subseteq> set (pending_groups groups known)" unfolding concat_chunks [OF n] .
  then show "from_pass groups b" using by_id_distinct [OF d] by (auto simp: from_pass_def pending_groups_def)
qed

lemma retire_all_lookup:
  "map_of (app_groups (d_app (fst (retire_all answers gids st)))) gid = map_of (app_groups (d_app st)) gid \<or>
   gid \<in> set gids \<and> map_of (app_groups (d_app (fst (retire_all answers gids st)))) gid = None"
proof (induction gids arbitrary: st)
  case (Cons k gids)
  have "map_of (app_groups (d_app (fst (retire_stored (answers k) k st)))) gid = map_of (app_groups (d_app st)) gid \<or>
      gid = k \<and> map_of (app_groups (d_app (fst (retire_stored (answers k) k st)))) gid = None"
    by (auto simp: retire_stored_def retire_one_lookup split: prod.splits)
  with Cons.IH [of "fst (retire_stored (answers k) k st)"] show ?case unfolding retire_all_fst by auto
qed simp

lemma stale_ids_iff:
  "dict_ok groups \<Longrightarrow> gid \<in> set (stale_ids found groups) \<longleftrightarrow>
   gid \<notin> found \<and> (\<exists>g. map_of groups gid = Some g \<and> g_source g = ''discovery'')"
  by (force simp: stale_ids_def dest: map_of_SomeD intro: map_of_is_SomeI)

text \<open>
  C25: A pass only ever moves a group to what it found, and only ever removes a group it did not find, that
  discovery itself had registered, after a pass in which every venue answered for every sport: a venue error
  never reads as a delisting, and groups registered by hand stay.
\<close>

theorem pass_changes_only_found:
  assumes "disc_ok st" "discover_all_event_groups (app_env (d_app st)) today fetch = (groups, whole)"
    and "distinct (map g_id groups)" and "st' = fst (run_once today fetch upserts deletes st)"
    and "map_of (app_groups (d_app st')) gid \<noteq> map_of (app_groups (d_app st)) gid"
  shows "(\<exists>g \<in> set groups. g_id g = gid \<and> map_of (app_groups (d_app st')) gid = Some g) \<or>
    whole \<and> gid \<notin> g_id ` set groups \<and> map_of (app_groups (d_app st')) gid = None \<and>
    (\<exists>g. map_of (app_groups (d_app st)) gid = Some g \<and> g_source g = ''discovery'')"
proof -
  let ?old = "map_of (app_groups (d_app st))"
  let ?bs = "chunks GROUP_WRITE_BATCH (pending_groups groups (app_groups (d_app st)))"
  let ?st1 = "fst (write_batches upserts 0 ?bs st)"
  let ?mid = "map_of (app_groups (d_app ?st1))"
  let ?gids = "stale_ids (g_id ` set groups) (app_groups (d_app ?st1))"
  have "\<forall>b \<in> set ?bs. from_pass groups b"
    using pending_from_pass [OF assms(3)] by (simp add: GROUP_WRITE_BATCH_def)
  from write_batches_scoped [OF this, of ?old st upserts 0] have scoped: "scoped groups ?old ?mid" by (simp add: scoped_def)
  have new: "map_of (app_groups (d_app st')) = map_of (app_groups (d_app (if whole then fst (retire_all deletes ?gids ?st1) else ?st1)))"
    by (rule run_once_parts [of st today fetch upserts deletes]) (use assms(2,4) in \<open>auto simp: reconcile_fst Let_def\<close>)
  have ok: "dict_ok (app_groups (d_app ?st1))"
    using write_batches_ok [OF assms(1)] by (simp add: disc_ok_def app_ok_def)
  show ?thesis
  proof (cases "map_of (app_groups (d_app st')) gid = ?mid gid")
    case True
    with scoped assms(5) obtain g where "by_id groups gid = Some g" "?mid gid = Some g" unfolding scoped_def by metis
    with True by_id_in show ?thesis by auto
  next
    case False
    with new have whole: whole by (auto split: if_splits)
    with False new retire_all_lookup [of deletes ?gids ?st1 gid] have
      r: "gid \<in> set ?gids" "map_of (app_groups (d_app st')) gid = None" by auto
    from r(1) obtain g where g: "gid \<notin> g_id ` set groups" "?mid gid = Some g" "g_source g = ''discovery''"
      unfolding stale_ids_iff [OF ok] by blast
    have "by_id groups gid = None" using g(1) by (simp add: by_id_None)
    with scoped g(2) have "?old gid = Some g" unfolding scoped_def by (metis option.distinct(1))
    with whole r(2) g show ?thesis by blast
  qed
qed

subsection \<open>Convergence\<close>

lemma scoped_keeps: "scoped groups cur new \<Longrightarrow> by_id groups gid = Some g \<Longrightarrow> cur gid = Some g \<Longrightarrow> new gid = Some g"
  unfolding scoped_def by (metis option.inject)

lemma scoped_refl: "scoped groups m m"
  by (simp add: scoped_def)

lemma fold_register_done:
  "from_pass groups b \<Longrightarrow> x \<in> set b \<Longrightarrow> map_of (app_groups (fold register_one b a)) (g_id (fst x)) = Some (fst x)"
proof (induction b arbitrary: a)
  case (Cons y b)
  show ?case
  proof (cases "x = y")
    case True
    have "scoped groups (map_of (app_groups (register_one y a))) (map_of (app_groups (fold register_one b (register_one y a))))"
      using Cons.prems(1) by (intro fold_register_scoped scoped_refl) (simp add: from_pass_def)
    from scoped_keeps [OF this, of "g_id (fst y)" "fst y"] Cons.prems(1) True show ?thesis
      by (simp add: from_pass_def register_one_lookup)
  next
    case False
    with Cons show ?thesis by (simp add: from_pass_def)
  qed
qed simp

lemma write_batches_done:
  "\<forall>b \<in> set bs. from_pass groups b \<Longrightarrow> \<forall>i. fst (write_loop 1 (answers i)) \<Longrightarrow> x \<in> set (concat bs) \<Longrightarrow>
   map_of (app_groups (d_app (fst (write_batches answers i bs st)))) (g_id (fst x)) = Some (fst x)"
proof (induction bs arbitrary: i st)
  case (Cons b bs)
  let ?st1 = "fst (write_batch (answers i) b st)"
  have app1: "d_app ?st1 = fold register_one b (d_app st)"
    using Cons.prems(2) by (simp add: write_batch_def run_write_def Let_def)
  show ?case
  proof (cases "x \<in> set (concat bs)")
    case True
    with Cons show ?thesis unfolding write_batches_fst by simp
  next
    case False
    with Cons.prems(3) have x: "x \<in> set b" by simp
    have "scoped groups (map_of (app_groups (d_app ?st1))) (map_of (app_groups (d_app (fst (write_batches answers (Suc i) bs ?st1)))))"
      using Cons.prems(1) by (intro write_batches_scoped scoped_refl) simp
    moreover have "map_of (app_groups (d_app ?st1)) (g_id (fst x)) = Some (fst x)"
      using fold_register_done [of groups b x] Cons.prems(1) x by (simp add: app1)
    moreover have "by_id groups (g_id (fst x)) = Some (fst x)" using Cons.prems(1) x by (simp add: from_pass_def)
    ultimately show ?thesis unfolding write_batches_fst by (simp add: scoped_keeps)
  qed
qed simp

lemma retire_all_done:
  "\<forall>k. fst (write_loop 1 (answers k)) \<Longrightarrow>
   map_of (app_groups (d_app (fst (retire_all answers gids st)))) gid = (if gid \<in> set gids then None else map_of (app_groups (d_app st)) gid)"
proof (induction gids arbitrary: st)
  case (Cons k gids)
  let ?st1 = "fst (retire_stored (answers k) k st)"
  have "map_of (app_groups (d_app ?st1)) gid = (if gid = k then None else map_of (app_groups (d_app st)) gid)"
    using Cons.prems by (simp add: retire_stored_def run_write_def Let_def retire_one_lookup)
  with Cons show ?case unfolding retire_all_fst by auto
qed simp

lemma pass_groups:
  assumes "disc_ok st" "discover_all_event_groups (app_env (d_app st)) today fetch = (groups, True)" "distinct (map g_id groups)"
    and "\<forall>i. fst (write_loop 1 (upserts i))" "\<forall>k. fst (write_loop 1 (deletes k))"
  shows "map_of (app_groups (d_app (fst (run_once today fetch upserts deletes st)))) gid =
    (case by_id groups gid of Some g \<Rightarrow> Some g
     | None \<Rightarrow> (case map_of (app_groups (d_app st)) gid of None \<Rightarrow> None
         | Some g \<Rightarrow> if g_source g = ''discovery'' then None else Some g))"
proof -
  let ?old = "map_of (app_groups (d_app st))"
  let ?pend = "pending_groups groups (app_groups (d_app st))"
  let ?bs = "chunks GROUP_WRITE_BATCH ?pend"
  let ?st1 = "fst (write_batches upserts 0 ?bs st)"
  let ?mid = "map_of (app_groups (d_app ?st1))"
  let ?gids = "stale_ids (g_id ` set groups) (app_groups (d_app ?st1))"
  have fp: "\<forall>b \<in> set ?bs. from_pass groups b" using pending_from_pass [OF assms(3)] by (simp add: GROUP_WRITE_BATCH_def)
  have sc: "scoped groups ?old ?mid" by (intro write_batches_scoped fp scoped_refl)
  have ok: "dict_ok (app_groups (d_app ?st1))" using write_batches_ok [OF assms(1)] by (simp add: disc_ok_def app_ok_def)
  have new: "map_of (app_groups (d_app (fst (run_once today fetch upserts deletes st)))) gid = (if gid \<in> set ?gids then None else ?mid gid)"
    by (rule run_once_parts [of st today fetch upserts deletes])
      (use assms(2) in \<open>auto simp: reconcile_fst Let_def retire_all_done [OF assms(5)]\<close>)
  show ?thesis
  proof (cases "by_id groups gid")
    case (Some g)
    note g = by_id_in [OF Some]
    have "?mid gid = Some g"
    proof (cases "?old gid = Some g")
      case True
      from scoped_keeps [OF sc Some True] show ?thesis .
    next
      case False
      with g have "(g, ?old gid) \<in> set ?pend" by (auto simp: pending_groups_def)
      moreover have "concat ?bs = ?pend" by (rule concat_chunks) (simp add: GROUP_WRITE_BATCH_def)
      ultimately have "(g, ?old gid) \<in> set (concat ?bs)" by simp
      from write_batches_done [OF fp assms(4) this, of 0 st] g show ?thesis by simp
    qed
    moreover have "gid \<notin> set ?gids" using g by (auto simp: stale_ids_iff [OF ok])
    ultimately show ?thesis using new Some by simp
  next
    case None
    with sc have "?mid gid = ?old gid" unfolding scoped_def by (metis option.distinct(1))
    moreover have "gid \<notin> g_id ` set groups" using None by (simp add: by_id_None)
    ultimately show ?thesis using new None by (auto simp: stale_ids_iff [OF ok] split: option.splits)
  qed
qed

text \<open>
  C26: After a complete pass whose writes all commit, the registered groups are what the venues offer: every
  group found is held exactly as found, every other discovered group is gone, and every group registered by
  hand that discovery did not find is as it was.
\<close>

theorem pass_converges:
  assumes "disc_ok st" "discover_all_event_groups (app_env (d_app st)) today fetch = (groups, True)" "distinct (map g_id groups)"
    and "\<forall>i. fst (write_loop 1 (upserts i))" "\<forall>k. fst (write_loop 1 (deletes k))"
  shows "map_of (app_groups (d_app (fst (run_once today fetch upserts deletes st)))) gid =
    (case by_id groups gid of Some g \<Rightarrow> Some g
     | None \<Rightarrow> (case map_of (app_groups (d_app st)) gid of None \<Rightarrow> None
         | Some g \<Rightarrow> if g_source g = ''discovery'' then None else Some g))"
  by (rule pass_groups [OF assms])

subsection \<open>Concrete passes\<close>

definition plain_group :: "string \<Rightarrow> string \<Rightarrow> event_group" where
  "plain_group gid src = \<lparr>g_id = gid, g_title = gid, resolution_source_by_venue = [], g_legs = [], start_time = None,
     in_play = None, ended = None, g_source = src\<rparr>"

definition sample_disc :: disc where
  "sample_disc = (let b = [(plain_group ''old'' ''discovery'', None), (plain_group ''mine'' ''manual'', None)] in
     \<lparr>d_app = fold register_one b (new_app (\<lambda>_. None) None 0 []), d_stored = fold (\<lambda>x. upsert_event_group (fst x)) b [], d_dropped = 0\<rparr>)"

lemma new_app_ok: "app_ok (new_app env stake mq factories)"
  by (simp add: app_ok_def new_app_def Let_def new_engine_def index_complete_def)

lemma new_app_groups: "app_groups (new_app env stake mq factories) = []"
  by (simp add: new_app_def Let_def)

lemma registered_ok:
  "disc_ok \<lparr>d_app = fold register_one b (new_app env stake mq factories), d_stored = fold (\<lambda>x. upsert_event_group (fst x)) b [], d_dropped = n\<rparr>"
  by (simp add: disc_ok_def fold_register_ok new_app_ok fold_register_dom fold_upsert_dom new_app_groups)

lemma sample_disc_ok: "disc_ok sample_disc"
  unfolding sample_disc_def Let_def by (rule registered_ok)

lemma nothing_listed: "discover_all_event_groups env today (\<lambda>_. Some ([], [])) = ([], True)"
proof -
  have "discover_pair env today tol [] [] = []" for tol
    by (simp add: discover_pair_def Let_def filter_horizon_def match_games_def buckets_def)
  then have "discover_all_event_groups env today (\<lambda>_. Some ([], [])) =
      (concat (List.map_filter id (map (\<lambda>_. Some []) (sub_passes env))), True)"
    by (simp add: discover_all_event_groups_def Let_def split_def list_all_iff)
  moreover have "concat (List.map_filter id (map (\<lambda>_. Some []) ps)) = []" for ps :: "(string \<times> int) list"
    by (induction ps) (simp_all add: List.map_filter_def)
  ultimately show ?thesis by simp
qed

lemma sample_lookup:
  "map_of (app_groups (d_app sample_disc)) gid =
     (if gid = ''old'' then Some (plain_group ''old'' ''discovery'')
      else if gid = ''mine'' then Some (plain_group ''mine'' ''manual'') else None)"
  by (simp add: sample_disc_def Let_def register_one_lookup plain_group_def new_app_groups)

theorem pass_converges_witness:
  "(let st' = fst (run_once (2026, 9, 1) (\<lambda>_. Some ([], [])) (\<lambda>_. [Committed]) (\<lambda>_. [Transient, Committed]) sample_disc) in
     map_of (app_groups (d_app st')) ''old'' = None \<and>
     map_of (app_groups (d_app st')) ''mine'' = Some (plain_group ''mine'' ''manual''))"
proof -
  have w: "\<forall>i :: nat. fst (write_loop 1 [Committed])" "\<forall>k :: string. fst (write_loop 1 [Transient, Committed])"
    by (simp_all add: WRITE_ATTEMPTS_def)
  note c = pass_converges [OF sample_disc_ok nothing_listed _ w, of "(2026, 9, 1)"]
  show ?thesis
    using c [of "''old''"] c [of "''mine''"] by (simp add: Let_def by_id_def sample_lookup plain_group_def)
qed

theorem pass_changes_only_found_witness:
  "\<exists>gid. map_of (app_groups (d_app (fst (run_once (2026, 9, 1) (\<lambda>_. Some ([], [])) (\<lambda>_. [Committed]) (\<lambda>_. [Committed]) sample_disc)))) gid \<noteq>
       map_of (app_groups (d_app sample_disc)) gid \<and>
     (\<exists>g. map_of (app_groups (d_app sample_disc)) gid = Some g \<and> g_source g = ''discovery'')"
proof -
  let ?st' = "fst (run_once (2026, 9, 1) (\<lambda>_. Some ([], [])) (\<lambda>_. [Committed]) (\<lambda>_. [Committed]) sample_disc)"
  have w: "\<forall>i :: nat. fst (write_loop 1 [Committed])" "\<forall>k :: string. fst (write_loop 1 [Committed])" by simp_all
  have "map_of (app_groups (d_app ?st')) ''old'' = None"
    using pass_groups [OF sample_disc_ok nothing_listed _ w, of "(2026, 9, 1)" "''old''"]
    by (simp add: by_id_def sample_lookup plain_group_def)
  then have ne: "map_of (app_groups (d_app ?st')) ''old'' \<noteq> map_of (app_groups (d_app sample_disc)) ''old''"
    by (simp add: sample_lookup)
  from pass_changes_only_found [OF sample_disc_ok nothing_listed _ refl ne] ne show ?thesis by (intro exI [of _ "''old''"]) auto
qed


end
