(* ===== verification/Performance.thy ===== *)
theory Performance
  imports Matcher
begin

section \<open>The performance report\<close>

text \<open>
  \<open>arbys/backend/performance.py\<close>: the figures of the dashboard, computed from the tickets of a window.
  \<open>scalars\<close> are all of them without their legs, \<open>traded\<close> the filled and pending ones with them. Money is
  decimal, ratios are binary floats, times are microseconds. The group-id pattern is matched by hand: its
  first group is greedy, the teams are the shortest part that leaves a date and a well-formed rest. Ids hold
  no line breaks. Labels write the cent sign and the dash of the page in ASCII.
\<close>

subsection \<open>The frozen group id\<close>

definition sport_char :: "char \<Rightarrow> bool" where
  "sport_char c \<longleftrightarrow> c \<in> set ''abcdefghijklmnopqrstuvwxyz0123456789''"

definition market_char :: "char \<Rightarrow> bool" where
  "market_char c \<longleftrightarrow> sport_char c \<or> c = CHR ''_''"

text \<open>The end of an id: nothing, or a market type and a nonempty rest.\<close>

definition id_tail :: "string \<Rightarrow> string option option" where
  "id_tail s = (case s of
     [] \<Rightarrow> Some None
   | c # r \<Rightarrow>
       (let mt = takeWhile market_char r; r' = dropWhile market_char r in
        if c = CHR ''-'' \<and> mt \<noteq> [] \<and> take 1 r' = ''-'' \<and> drop 1 r' \<noteq> [] then Some (Some mt) else None))"

definition date_shape :: "string \<Rightarrow> bool" where
  "date_shape s \<longleftrightarrow> length s = 10 \<and> list_all is_digit (take 4 s) \<and> s ! 4 = CHR ''-'' \<and>
     list_all is_digit (take 2 (drop 5 s)) \<and> s ! 7 = CHR ''-'' \<and> list_all is_digit (drop 8 s)"

definition dated_tail :: "string \<Rightarrow> string option option" where
  "dated_tail s = (if take 1 s = ''-'' \<and> date_shape (take 10 (drop 1 s)) then id_tail (drop 11 s) else None)"

fun find_date :: "string \<Rightarrow> string option option" where
  "find_date [] = None"
| "find_date (c # cs) = (case dated_tail cs of Some x \<Rightarrow> Some x | None \<Rightarrow> find_date cs)"

definition parse_group_id :: "string \<Rightarrow> string \<times> string" where
  "parse_group_id s =
     (let sp = takeWhile sport_char s; r = dropWhile sport_char s in
      if sp = [] \<or> take 1 r \<noteq> ''-'' then (''unknown'', ''unknown'')
      else case find_date (drop 1 r) of
        None \<Rightarrow> (''unknown'', ''unknown'')
      | Some mt \<Rightarrow> (sp, or_else mt ''moneyline''))"

subsection \<open>One ticket\<close>

record perf_leg =
  pl_venue :: string
  pl_is_buy :: bool
  pl_qty :: rat
  pl_limit :: rat
  pl_fill :: "rat option"
  pl_fee :: rat
  pl_resolved :: "rat option"

record perf_ticket =
  pt_group :: string
  pt_status :: string
  pt_submitted :: int
  pt_realized :: "rat option"
  pt_reason :: "string option"
  pt_edge_bps :: "rat option"
  pt_legs :: "perf_leg list"

fun sum_loop :: "rat option list \<Rightarrow> rat \<Rightarrow> bool \<Rightarrow> rat option" where
  "sum_loop [] tot seen = (if seen then Some tot else None)"
| "sum_loop (None # vs) tot seen = sum_loop vs tot seen"
| "sum_loop (Some v # vs) tot seen = sum_loop vs (dadd tot v) True"

definition sum_or_none :: "rat option list \<Rightarrow> rat option" where
  "sum_or_none values = sum_loop values 0 False"

definition ticket_leg_cost :: "perf_leg \<Rightarrow> rat option" where
  "ticket_leg_cost l = map_option (\<lambda>p. dadd (dmul (pl_qty l) p) (pl_fee l)) (pl_fill l)"

definition leg_returned :: "perf_leg \<Rightarrow> rat option" where
  "leg_returned l = (case (pl_resolved l, pl_fill l) of
     (Some v, Some _) \<Rightarrow> Some (dmul (pl_qty l) v) | _ \<Rightarrow> None)"

definition pct :: "rat option \<Rightarrow> rat option \<Rightarrow> rat option" where
  "pct numerator denominator = (case (numerator, denominator) of
     (Some n, Some d) \<Rightarrow> if flt_round d \<le> 0 then None
       else Some (flt_round (flt_round (flt_round n / flt_round d) * 100))
   | _ \<Rightarrow> None)"

definition ticket_outcome :: "string \<Rightarrow> rat option \<Rightarrow> string" where
  "ticket_outcome status realized =
     (if status = ''rejected'' \<or> status = ''missed'' then ''none''
      else case realized of None \<Rightarrow> ''open''
        | Some p \<Rightarrow> if 0 < p then ''won'' else if p < 0 then ''lost'' else ''flat'')"

record perf_row =
  pr_capital :: "rat option"
  pr_fees :: rat
  pr_market :: string
  pr_net :: "rat option"
  pr_outcome :: string
  pr_qty :: "rat option"
  pr_returned :: "rat option"
  pr_value :: "rat option"
  pr_sport :: string
  pr_status :: string
  pr_submitted :: int

definition filled_legs :: "perf_ticket \<Rightarrow> perf_leg list" where
  "filled_legs t = filter (\<lambda>l. pl_fill l \<noteq> None) (pt_legs t)"

definition matched_qty :: "perf_ticket \<Rightarrow> rat option" where
  "matched_qty t = (let qs = map pl_qty (filled_legs t) in
     if 2 \<le> length qs \<and> list_all (\<lambda>q. q = hd qs) qs then Some (hd qs) else None)"

definition row_of :: "perf_ticket \<Rightarrow> perf_row" where
  "row_of t = (let capital = sum_or_none (map ticket_leg_cost (pt_legs t)) in
     \<lparr>pr_capital = capital, pr_fees = dsum (map pl_fee (filled_legs t)), pr_market = snd (parse_group_id (pt_group t)),
      pr_net = pt_realized t, pr_outcome = ticket_outcome (pt_status t) (pt_realized t),
      pr_qty = (case pt_legs t of [] \<Rightarrow> None | l # _ \<Rightarrow> Some (pl_qty l)),
      pr_returned = sum_or_none (map leg_returned (pt_legs t)),
      pr_value = (case (matched_qty t, capital) of (Some q, Some c) \<Rightarrow> Some (dsub q c) | _ \<Rightarrow> None),
      pr_sport = fst (parse_group_id (pt_group t)), pr_status = pt_status t, pr_submitted = pt_submitted t\<rparr>)"

subsection \<open>Tallies\<close>

definition count_in :: "string \<Rightarrow> (string, nat) dict \<Rightarrow> (string, nat) dict" where
  "count_in k d = dict_set k (dict_get 0 d k + 1) d"

definition tally :: "string list \<Rightarrow> (string, nat) dict" where
  "tally ks = foldl (\<lambda>d k. count_in k d) [] ks"

definition MAX_REASONS :: nat where
  "MAX_REASONS = 12"

definition top_reasons :: "(string, nat) dict \<Rightarrow> (string \<times> nat) list" where
  "top_reasons reasons = (let ranked = sort_key (\<lambda>(_, c). - int c) reasons; rest = drop MAX_REASONS ranked in
     take MAX_REASONS ranked @
     (if rest = [] then [] else [(''other ('' @ nat_str (length rest) @ '' distinct)'', sum_list (map snd rest))]))"

record activity =
  by_status :: "(string, nat) dict"
  rejection_reasons :: "(string \<times> nat) list"
  first_submitted_at :: "int option"
  last_submitted_at :: "int option"

fun first_last :: "int list \<Rightarrow> int option \<Rightarrow> int option \<Rightarrow> int option \<times> int option" where
  "first_last [] fs ls = (fs, ls)"
| "first_last (ts # tss) fs ls =
     first_last tss (case fs of None \<Rightarrow> Some ts | Some f \<Rightarrow> Some (if ts < f then ts else f))
       (case ls of None \<Rightarrow> Some ts | Some l \<Rightarrow> Some (if l < ts then ts else l))"

definition activity_of :: "perf_ticket list \<Rightarrow> activity" where
  "activity_of scalars = (let fl = first_last (map pt_submitted scalars) None None in
     \<lparr>by_status = tally (map pt_status scalars),
      rejection_reasons = top_reasons (tally (List.map_filter pt_reason scalars)),
      first_submitted_at = fst fl, last_submitted_at = snd fl\<rparr>)"

subsection \<open>The accrual curve\<close>

definition quantize_cents :: "rat \<Rightarrow> rat res" where
  "quantize_cents x = (let c = round_half_even (x * 100) in
     if 10 ^ 28 \<le> \<bar>c\<bar> then Inl InvalidOperation else Inr (of_int c / 100))"

definition MAX_CURVE_POINTS :: nat where
  "MAX_CURVE_POINTS = 400"

record curve_point =
  cp_ts :: int
  cp_total :: rat
  cp_settled :: rat

fun curve_loop :: "nat \<Rightarrow> nat \<Rightarrow> nat \<Rightarrow> perf_row list \<Rightarrow> rat \<Rightarrow> rat \<Rightarrow> curve_point list res" where
  "curve_loop step n i [] tot settled = Inr []"
| "curve_loop step n i (r # rs) tot settled =
     (let v = (case pr_value r of None \<Rightarrow> 0 | Some v \<Rightarrow> v);
          tot' = dadd tot v;
          settled' = (if pr_net r = None then settled else dadd settled v)
      in if i mod step = 0 \<or> i = n - 1
         then bindE (quantize_cents tot') (\<lambda>t. bindE (quantize_cents settled') (\<lambda>s.
                bindE (curve_loop step n (Suc i) rs tot' settled') (\<lambda>ps.
                  Inr (\<lparr>cp_ts = pr_submitted r, cp_total = t, cp_settled = s\<rparr> # ps))))
         else curve_loop step n (Suc i) rs tot' settled')"

definition curve_rows :: "perf_row list \<Rightarrow> perf_row list" where
  "curve_rows rows = sort_key pr_submitted (filter (\<lambda>r. pr_value r \<noteq> None) rows)"

definition accrual_curve :: "perf_row list \<Rightarrow> curve_point list res" where
  "accrual_curve rows = (let pts = curve_rows rows in
     if length pts < 2 then Inr []
     else curve_loop (max 1 (length pts div MAX_CURVE_POINTS)) (length pts) 0 pts 0 0)"

subsection \<open>Edges and slippage\<close>

text \<open>
  \<open>sum\<close> over floats as the interpreter the image runs computes it (3.12 and later): Neumaier's compensated
  sum, the running sum and the compensation side by side.
\<close>

definition comp_add :: "rat \<times> rat \<Rightarrow> rat \<Rightarrow> rat \<times> rat" where
  "comp_add sc x = (case sc of (s, c) \<Rightarrow> (let t = fadd s x in
     (t, fadd c (if \<bar>x\<bar> \<le> \<bar>s\<bar> then fadd (fadd s (- t)) x else fadd (fadd x (- t)) s))))"

definition float_sum :: "rat list \<Rightarrow> rat" where
  "float_sum xs = (case foldl comp_add (0, 0) xs of (s, c) \<Rightarrow> if c = 0 then s else fadd s c)"

definition EDGE_BUCKETS :: "(string \<times> rat \<times> rat option) list" where
  "EDGE_BUCKETS = [(''<0.25c'', 0, Some (1/4)), (''0.25-0.5c'', 1/4, Some (1/2)), (''0.5-1c'', 1/2, Some 1),
     (''1-2c'', 1, Some 2), (''2c+'', 2, None)]"

definition edges_of :: "perf_ticket list \<Rightarrow> rat list" where
  "edges_of scalars = map (\<lambda>b. flt_round (flt_round b / 100)) (List.map_filter pt_edge_bps scalars)"

definition in_bucket :: "rat \<times> rat option \<Rightarrow> rat \<Rightarrow> bool" where
  "in_bucket b e \<longleftrightarrow> fst b \<le> e \<and> (case snd b of None \<Rightarrow> True | Some hi \<Rightarrow> e < hi)"

definition edge_buckets :: "perf_ticket list \<Rightarrow> (string \<times> nat) list" where
  "edge_buckets scalars = map (\<lambda>(lbl, b). (lbl, length (filter (in_bucket b) (edges_of scalars)))) EDGE_BUCKETS"

definition mean_edge :: "perf_ticket list \<Rightarrow> rat option" where
  "mean_edge scalars = (let es = edges_of scalars in
     if es = [] then None else Some (flt_round (float_sum es / of_nat (length es))))"

definition leg_slippage :: "perf_leg \<Rightarrow> rat option" where
  "leg_slippage l = map_option (\<lambda>p. let delta = flt_round (dsub p (pl_limit l)) in
     flt_round ((if pl_is_buy l then delta else - delta) * 100)) (pl_fill l)"

definition median_slippage :: "perf_ticket list \<Rightarrow> rat option" where
  "median_slippage traded =
     (let values = sort (List.map_filter leg_slippage (concat (map pt_legs traded))); m = length values div 2 in
      if values = [] then None
      else if length values mod 2 = 1 then Some (values ! m)
      else Some (flt_round (fadd (values ! (m - 1)) (values ! m) / 2)))"

subsection \<open>Breakdowns\<close>

record group_figures =
  gf_name :: string
  gf_tickets :: nat
  gf_net :: "rat option"
  gf_capital :: "rat option"
  gf_roi_pct :: "rat option"

definition append_to :: "string \<Rightarrow> 'a \<Rightarrow> (string, 'a list) dict \<Rightarrow> (string, 'a list) dict" where
  "append_to k v d = dict_set k (dict_get [] d k @ [v]) d"

definition collect :: "('r \<Rightarrow> string) \<Rightarrow> ('r \<Rightarrow> 'a) \<Rightarrow> 'r list \<Rightarrow> (string, 'a list) dict" where
  "collect key val rows = foldl (\<lambda>d r. append_to (key r) (val r) d) [] rows"

text \<open>A descending stable sort; groups with no settled economics come last.\<close>

definition net_rank :: "group_figures \<Rightarrow> nat \<times> rat" where
  "net_rank f = (case gf_net f of None \<Rightarrow> (1, 0) | Some n \<Rightarrow> (0, - n))"

definition group_by :: "perf_ticket list \<Rightarrow> perf_row list \<Rightarrow> (string \<times> string \<Rightarrow> string) \<Rightarrow> (perf_row \<Rightarrow> string) \<Rightarrow> group_figures list" where
  "group_by scalars rows scalar_key row_key =
     (let counts = tally (map (\<lambda>s. scalar_key (parse_group_id (pt_group s))) scalars);
          nets = collect row_key pr_net rows; capitals = collect row_key pr_capital rows
      in sort_key net_rank (map (\<lambda>(name, n).
           let net = sum_or_none (dict_get [] nets name); capital = sum_or_none (dict_get [] capitals name)
           in \<lparr>gf_name = name, gf_tickets = n, gf_net = net, gf_capital = capital, gf_roi_pct = pct net capital\<rparr>) counts))"

record venue_figures =
  vf_name :: string
  vf_deployed :: rat
  vf_returned :: rat
  vf_net :: rat
  vf_open :: rat

definition venue_label :: "string \<Rightarrow> string" where
  "venue_label = map (\<lambda>c. if c = CHR ''_'' then CHR '' '' else c)"

definition add_leg :: "(string, venue_figures) dict \<Rightarrow> perf_leg \<Rightarrow> (string, venue_figures) dict" where
  "add_leg d l = (case ticket_leg_cost l of None \<Rightarrow> d | Some cost \<Rightarrow>
     (let v = dict_get \<lparr>vf_name = venue_label (pl_venue l), vf_deployed = 0, vf_returned = 0, vf_net = 0, vf_open = 0\<rparr> d (pl_venue l);
          v' = v\<lparr>vf_deployed := dadd (vf_deployed v) cost\<rparr>
      in dict_set (pl_venue l)
           (case leg_returned l of
              None \<Rightarrow> v'\<lparr>vf_open := dadd (vf_open v') cost\<rparr>
            | Some back \<Rightarrow> v'\<lparr>vf_returned := dadd (vf_returned v') back, vf_net := dadd (vf_net v') (dsub back cost)\<rparr>) d))"

definition by_venue :: "perf_ticket list \<Rightarrow> venue_figures list" where
  "by_venue traded = sort_key (\<lambda>v. - vf_deployed v) (map snd (foldl add_leg [] (concat (map pt_legs traded))))"

definition OUTCOME_MIX :: "(string \<times> string) list" where
  "OUTCOME_MIX = [(''Settled won'', ''won''), (''Open'', ''open''), (''Settled lost'', ''lost''), (''Flat'', ''flat''),
     (''Never filled'', ''none'')]"

definition mix_counts :: "perf_row list \<Rightarrow> (string, nat) dict \<Rightarrow> (string, nat) dict" where
  "mix_counts rows statuses = dict_set ''none'' (dict_get 0 statuses ''rejected'' + dict_get 0 statuses ''missed'')
     (foldl (\<lambda>d r. count_in (pr_outcome r) d) (map (\<lambda>(_, k). (k, 0)) OUTCOME_MIX) rows)"

definition outcome_mix :: "perf_row list \<Rightarrow> nat \<Rightarrow> (string, nat) dict \<Rightarrow> (string \<times> nat \<times> rat) list" where
  "outcome_mix rows attempted statuses = map (\<lambda>(name, key). let n = dict_get 0 (mix_counts rows statuses) key in
     (name, n, if attempted = 0 then 0 else flt_round (flt_round (of_nat n / of_nat attempted) * 100))) OUTCOME_MIX"

subsection \<open>The whole report\<close>

record report =
  rp_attempted :: nat
  rp_filled :: nat
  rp_activity :: activity
  rp_net_profit :: "rat option"
  rp_gross_profit :: "rat option"
  rp_fees_paid :: rat
  rp_fee_drag_pct :: "rat option"
  rp_capital_deployed :: "rat option"
  rp_capital_returned :: "rat option"
  rp_return_on_capital_pct :: "rat option"
  rp_hit_rate_pct :: "rat option"
  rp_settled_count :: nat
  rp_won_count :: nat
  rp_open_exposure :: rat
  rp_open_count :: nat
  rp_both_legs_filled_pct :: "rat option"
  rp_median_slippage_cents :: "rat option"
  rp_accrual_curve :: "curve_point list"
  rp_accrual_total :: rat
  rp_mean_edge_cents :: "rat option"
  rp_edge_buckets :: "(string \<times> nat) list"
  rp_by_league :: "group_figures list"
  rp_by_market_type :: "group_figures list"
  rp_by_venue :: "venue_figures list"
  rp_outcome_mix :: "(string \<times> nat \<times> rat) list"

definition settled_row :: "perf_row \<Rightarrow> bool" where
  "settled_row r \<longleftrightarrow> pr_outcome r \<in> set [''won'', ''lost'', ''flat'']"

definition or_zero :: "rat option \<Rightarrow> rat" where
  "or_zero x = (case x of None \<Rightarrow> 0 | Some v \<Rightarrow> v)"

definition summarize :: "perf_ticket list \<Rightarrow> perf_ticket list \<Rightarrow> report res" where
  "summarize scalars traded =
     (let rows = map row_of traded; settled = filter settled_row rows;
          open_rows = filter (\<lambda>r. pr_outcome r = ''open'') rows; filled_rows = filter (\<lambda>r. pr_status r = ''filled'') rows;
          net = sum_or_none (map pr_net settled); fees = dsum (map pr_fees settled);
          gross = map_option (\<lambda>n. dadd n fees) net; settled_capital = sum_or_none (map pr_capital settled);
          won = length (filter (\<lambda>r. pr_outcome r = ''won'') settled);
          act = activity_of scalars; attempted = sum_list (map snd (by_status act))
      in bindE (accrual_curve rows) (\<lambda>curve. Inr
       \<lparr>rp_attempted = attempted, rp_filled = dict_get 0 (by_status act) ''filled'', rp_activity = act,
        rp_net_profit = net, rp_gross_profit = gross, rp_fees_paid = fees, rp_fee_drag_pct = pct (Some fees) gross,
        rp_capital_deployed = sum_or_none (map pr_capital rows),
        rp_capital_returned = sum_or_none (map pr_returned settled),
        rp_return_on_capital_pct = pct net settled_capital,
        rp_hit_rate_pct = (if settled = [] then None else Some (flt_round (flt_round (of_nat won / of_nat (length settled)) * 100))),
        rp_settled_count = length settled, rp_won_count = won,
        rp_open_exposure = dsum (map (\<lambda>r. or_zero (pr_capital r)) open_rows), rp_open_count = length open_rows,
        rp_both_legs_filled_pct = pct (Some (of_nat (length (filter (\<lambda>r. pr_capital r \<noteq> None \<and> pr_qty r \<noteq> None) filled_rows))))
          (Some (of_nat (length filled_rows))),
        rp_median_slippage_cents = median_slippage traded, rp_accrual_curve = curve,
        rp_accrual_total = dsum (map (\<lambda>r. or_zero (pr_value r)) rows),
        rp_mean_edge_cents = mean_edge scalars, rp_edge_buckets = edge_buckets scalars,
        rp_by_league = group_by scalars rows (\<lambda>s. to_upper (fst s)) (\<lambda>r. to_upper (pr_sport r)),
        rp_by_market_type = group_by scalars rows snd pr_market,
        rp_by_venue = by_venue traded, rp_outcome_mix = outcome_mix rows attempted (by_status act)\<rparr>))"

subsection \<open>Tallies reconcile\<close>

lemma count_in_sum: "dict_ok d \<Longrightarrow> sum_list (map snd (count_in k d)) = Suc (sum_list (map snd d))"
proof (induction d)
  case (Cons p d)
  then show ?case
    by (cases p) (auto simp: count_in_def dict_get_def map_of_eq_None_iff split: option.splits)
qed (simp add: count_in_def)

lemma count_in_ok [simp]: "dict_ok d \<Longrightarrow> dict_ok (count_in k d)"
  by (simp add: count_in_def)

lemma count_in_get: "dict_get 0 (count_in k d) k' = dict_get 0 d k' + (if k' = k then 1 else 0)"
  by (simp add: count_in_def)

lemma fold_count_sum:
  "dict_ok d \<Longrightarrow> sum_list (map snd (foldl (\<lambda>d r. count_in (f r) d) d rs)) = sum_list (map snd d) + length rs"
  by (induction rs arbitrary: d) (simp_all add: count_in_sum)

lemma fold_count_ok: "dict_ok d \<Longrightarrow> dict_ok (foldl (\<lambda>d r. count_in (f r) d) d rs)"
  by (induction rs arbitrary: d) simp_all

lemma fold_count_get:
  "dict_get 0 (foldl (\<lambda>d r. count_in (f r) d) d rs) k = dict_get 0 d k + length (filter (\<lambda>r. f r = k) rs)"
  by (induction rs arbitrary: d) (auto simp: count_in_get)

lemma tally_sum: "sum_list (map snd (tally ks)) = length ks"
  using fold_count_sum [of "[]" "\<lambda>k. k" ks] by (simp add: tally_def)

lemma tally_get: "dict_get 0 (tally ks) k = length (filter (\<lambda>x. x = k) ks)"
  using fold_count_get [of "\<lambda>k. k" "[]" ks k] by (simp add: tally_def)

lemma sum_list_sort: "sum_list (map f (sort_key k xs)) = sum_list (map (f :: _ \<Rightarrow> nat) xs)"
  by (simp only: sum_mset_sum_list [symmetric] mset_map mset_sort)

lemma top_reasons_sum: "sum_list (map snd (top_reasons reasons)) = sum_list (map snd reasons)"
proof -
  let ?r = "sort_key (\<lambda>(_, c). - int c) reasons"
  have "sum_list (map snd (take MAX_REASONS ?r)) + sum_list (map snd (drop MAX_REASONS ?r)) = sum_list (map snd ?r)"
    by (metis append_take_drop_id map_append sum_list_append)
  then show ?thesis by (simp add: top_reasons_def Let_def sum_list_sort)
qed

lemma top_reasons_length: "length (top_reasons reasons) \<le> 13"
  by (simp add: top_reasons_def Let_def MAX_REASONS_def)

lemma group_by_tickets: "sum_list (map gf_tickets (group_by scalars rows f g)) = length scalars"
proof -
  have "sum_list (map gf_tickets (map (\<lambda>(name, n). F name n) d)) = sum_list (map snd d)"
    if "\<And>name n. gf_tickets (F name n) = n" for F :: "string \<Rightarrow> nat \<Rightarrow> group_figures" and d
    by (induction d) (auto simp: that)
  from this [of "\<lambda>name n. let net = _ name; capital = _ name in
      \<lparr>gf_name = name, gf_tickets = n, gf_net = net, gf_capital = capital, gf_roi_pct = pct net capital\<rparr>"]
  show ?thesis by (simp add: group_by_def sum_list_sort tally_sum Let_def)
qed

text \<open>The edge buckets split the edges from zero up, each into one.\<close>

lemma edge_buckets_sum:
  "sum_list (map snd (edge_buckets scalars)) = length (filter (\<lambda>e. 0 \<le> e) (edges_of scalars))"
proof -
  have "length (filter (in_bucket (0, Some (1/4))) es) + (length (filter (in_bucket (1/4, Some (1/2))) es) +
      (length (filter (in_bucket (1/2, Some 1)) es) + (length (filter (in_bucket (1, Some 2)) es) +
       length (filter (in_bucket (2, None)) es)))) = length (filter (\<lambda>e. 0 \<le> e) es)" for es
    by (induction es) (auto simp: in_bucket_def)
  then show ?thesis by (simp add: edge_buckets_def EDGE_BUCKETS_def)
qed

lemma first_last_bounds:
  "first_last ts fs ls = (f, l) \<Longrightarrow> (\<forall>t \<in> set ts. (\<exists>a. f = Some a \<and> a \<le> t) \<and> (\<exists>b. l = Some b \<and> t \<le> b)) \<and>
     (\<forall>a. fs = Some a \<longrightarrow> (\<exists>a'. f = Some a' \<and> a' \<le> a)) \<and> (\<forall>b. ls = Some b \<longrightarrow> (\<exists>b'. l = Some b' \<and> b \<le> b'))"
proof (induction ts fs ls rule: first_last.induct)
  case (2 ts tss fs ls)
  show ?case using 2(1) [OF 2(2) [unfolded first_last.simps]] by (auto split: option.splits if_splits)
qed auto


subsection \<open>Outcomes\<close>

lemma mix_counts_sum: "sum_list (map (dict_get 0 (mix_counts rows statuses)) [''won'', ''open'', ''lost'', ''flat'']) =
  length (filter (\<lambda>r. pr_outcome r \<in> {''won'', ''open'', ''lost'', ''flat''}) rows)"
proof -
  have get: "dict_get 0 (mix_counts rows statuses) k = length (filter (\<lambda>r. pr_outcome r = k) rows)"
    if "k \<in> {''won'', ''open'', ''lost'', ''flat''}" for k
    using that by (auto simp: mix_counts_def fold_count_get OUTCOME_MIX_def dict_get_def [of _ "_ # _"])
  have "length (filter (\<lambda>r. pr_outcome r = ''won'') rows) + (length (filter (\<lambda>r. pr_outcome r = ''open'') rows) +
      (length (filter (\<lambda>r. pr_outcome r = ''lost'') rows) + length (filter (\<lambda>r. pr_outcome r = ''flat'') rows))) =
      length (filter (\<lambda>r. pr_outcome r \<in> {''won'', ''open'', ''lost'', ''flat''}) rows)"
    by (induction rows) auto
  then show ?thesis by (simp add: get)
qed

lemma traded_outcome:
  "st \<noteq> ''rejected'' \<Longrightarrow> st \<noteq> ''missed'' \<Longrightarrow> ticket_outcome st p \<in> {''won'', ''open'', ''lost'', ''flat''}"
  by (auto simp: ticket_outcome_def split: option.splits)

lemma outcome_mix_sum:
  "sum_list (map (\<lambda>x. fst (snd x)) (outcome_mix rows n statuses)) =
   sum_list (map (dict_get 0 (mix_counts rows statuses)) [''won'', ''open'', ''lost'', ''flat'']) +
   (dict_get 0 statuses ''rejected'' + dict_get 0 statuses ''missed'')"
  by (simp add: outcome_mix_def OUTCOME_MIX_def Let_def) (simp add: mix_counts_def)

lemma summarize_mix:
  "summarize scalars traded = Inr r \<Longrightarrow>
   rp_outcome_mix r = outcome_mix (map row_of traded) (length scalars) (tally (map pt_status scalars))"
  by (auto simp: summarize_def Let_def res_simps activity_of_def tally_sum)

text \<open>
  The slices of the outcome mix add up to the tickets of the window when the traded tickets are the filled
  and pending ones: an open or losing ticket is never counted as one that did not trade, nor the reverse.
\<close>

theorem outcome_mix_partitions:
  assumes "summarize scalars traded = Inr r"
    and "map pt_status traded = filter (\<lambda>s. s = ''filled'' \<or> s = ''pending'') (map pt_status scalars)"
    and "\<forall>t \<in> set scalars. pt_status t \<in> {''filled'', ''pending'', ''rejected'', ''missed''}"
  shows "sum_list (map (\<lambda>x. fst (snd x)) (rp_outcome_mix r)) = length scalars"
proof -
  let ?rows = "map row_of traded"
  have status: "pt_status t \<in> {''filled'', ''pending''}" if "t \<in> set traded" for t
  proof -
    from that have "pt_status t \<in> set (map pt_status traded)" unfolding set_map by (rule imageI)
    then show ?thesis unfolding assms(2) by auto
  qed
  have "filter (\<lambda>r. pr_outcome r \<in> {''won'', ''open'', ''lost'', ''flat''}) ?rows = ?rows"
  proof (rule filter_True, rule ballI)
    fix r assume "r \<in> set ?rows"
    then obtain t where t: "t \<in> set traded" "r = row_of t" by auto
    have "pr_outcome r = ticket_outcome (pt_status t) (pt_realized t)" by (simp add: t(2) row_of_def Let_def)
    then show "pr_outcome r \<in> {''won'', ''open'', ''lost'', ''flat''}"
      using traded_outcome [of "pt_status t" "pt_realized t"] status [OF t(1)] by fastforce
  qed
  then have 1: "sum_list (map (\<lambda>x. fst (snd x)) (rp_outcome_mix r)) = length traded +
      (length (filter (\<lambda>s. s = ''rejected'') (map pt_status scalars)) + length (filter (\<lambda>s. s = ''missed'') (map pt_status scalars)))"
    unfolding summarize_mix [OF assms(1)] outcome_mix_sum mix_counts_sum tally_get by (simp only: length_map)
  have 2: "length traded = length (filter (\<lambda>s. s = ''filled'' \<or> s = ''pending'') (map pt_status scalars))"
    using arg_cong [OF assms(2), of length] by simp
  have "length (filter (\<lambda>s. s = ''filled'' \<or> s = ''pending'') ss) + (length (filter (\<lambda>s. s = ''rejected'') ss) +
      length (filter (\<lambda>s. s = ''missed'') ss)) = length ss"
    if "\<forall>s \<in> set ss. s \<in> {''filled'', ''pending'', ''rejected'', ''missed''}" for ss :: "string list"
    using that by (induction ss) auto
  from this [of "map pt_status scalars"] assms(3) 1 2 show ?thesis by simp
qed

subsection \<open>The curve\<close>

definition kept :: "nat \<Rightarrow> nat \<Rightarrow> nat \<Rightarrow> bool" where
  "kept step n i \<longleftrightarrow> i mod step = 0 \<or> i = n - 1"

lemma curve_loop_step:
  "curve_loop step n i (r # rs) t s =
     (let t' = dadd t (or_zero (pr_value r)); s' = (if pr_net r = None then s else dadd s (or_zero (pr_value r)))
      in if kept step n i
         then bindE (quantize_cents t') (\<lambda>x. bindE (quantize_cents s') (\<lambda>y. bindE (curve_loop step n (Suc i) rs t' s')
           (\<lambda>ps. Inr (\<lparr>cp_ts = pr_submitted r, cp_total = x, cp_settled = y\<rparr> # ps))))
         else curve_loop step n (Suc i) rs t' s')"
  by (simp add: Let_def kept_def or_zero_def)

lemma curve_loop_cases:
  assumes "curve_loop step n i (r # rs) t s = Inr ps"
  obtains s' ps' where "curve_loop step n (Suc i) rs (dadd t (or_zero (pr_value r))) s' = Inr ps'"
    "\<not> kept step n i \<and> ps = ps' \<or>
     kept step n i \<and> (\<exists>p. ps = p # ps' \<and> quantize_cents (dadd t (or_zero (pr_value r))) = Inr (cp_total p))"
proof (cases "kept step n i")
  case True
  with assms obtain x y ps' where 1: "quantize_cents (dadd t (or_zero (pr_value r))) = Inr x"
    "curve_loop step n (Suc i) rs (dadd t (or_zero (pr_value r)))
       (if pr_net r = None then s else dadd s (or_zero (pr_value r))) = Inr ps'"
    "ps = \<lparr>cp_ts = pr_submitted r, cp_total = x, cp_settled = y\<rparr> # ps'"
    unfolding curve_loop_step Let_def by (simp only: if_True bindE_Inr_iff sum.inject) blast
  show ?thesis by (rule that [OF 1(2)]) (simp add: True 1)
next
  case False
  with assms have 1: "curve_loop step n (Suc i) rs (dadd t (or_zero (pr_value r)))
      (if pr_net r = None then s else dadd s (or_zero (pr_value r))) = Inr ps"
    unfolding curve_loop_step Let_def by (simp only: if_False)
  show ?thesis by (rule that [OF 1]) (simp add: False)
qed

lemma curve_loop_length:
  "curve_loop step n i rs t s = Inr ps \<Longrightarrow> length ps = length (filter (kept step n) [i..<i + length rs])"
proof (induction rs arbitrary: i t s ps)
  case (Cons r rs)
  from Cons.prems obtain s' ps' where 1: "curve_loop step n (Suc i) rs (dadd t (or_zero (pr_value r))) s' = Inr ps'"
    "length ps = length ps' + (if kept step n i then 1 else 0)" by (elim curve_loop_cases) auto
  have "[i..<i + length (r # rs)] = i # [Suc i..<Suc i + length rs]" by (simp add: upt_rec)
  with Cons.IH [OF 1(1)] 1(2) show ?case by simp
qed simp

lemma curve_loop_last:
  "curve_loop step n i rs t s = Inr ps \<Longrightarrow> n = i + length rs \<Longrightarrow> rs \<noteq> [] \<Longrightarrow>
   ps \<noteq> [] \<and> quantize_cents (foldl dadd t (map (\<lambda>r. or_zero (pr_value r)) rs)) = Inr (cp_total (last ps))"
proof (induction rs arbitrary: i t s ps)
  case (Cons r rs)
  from Cons.prems(1) obtain s' ps' where 1: "curve_loop step n (Suc i) rs (dadd t (or_zero (pr_value r))) s' = Inr ps'"
    and 2: "\<not> kept step n i \<and> ps = ps' \<or>
      kept step n i \<and> (\<exists>p. ps = p # ps' \<and> quantize_cents (dadd t (or_zero (pr_value r))) = Inr (cp_total p))"
    by (rule curve_loop_cases)
  show ?case
  proof (cases "rs = []")
    case True
    with Cons.prems have "kept step n i" by (simp add: kept_def)
    with 1 2 True show ?thesis by auto
  next
    case False
    from Cons.IH [OF 1 _ False] Cons.prems(2) 2 show ?thesis by auto
  qed
qed simp

lemma multiples_count: "0 < s \<Longrightarrow> length (filter (\<lambda>j. j mod s = 0) [0..<n]) = (n + s - 1) div (s::nat)"
proof (induction n)
  case (Suc n)
  have "(n + s - 1) div s + (if n mod s = 0 then 1 else 0) = n div s + 1"
  proof (cases "n mod s = 0")
    case True
    then obtain k where "n = s * k" by (auto elim: dvdE simp: mod_eq_0_iff_dvd)
    then have "n + s - 1 = s * k + (s - 1)" using Suc.prems by simp
    moreover have "(s * k + (s - 1)) div s = k" using Suc.prems by (simp only: div_mult_self4) simp
    ultimately show ?thesis using Suc.prems True \<open>n = s * k\<close> by simp
  next
    case False
    then have "0 < n mod s" "n mod s < s" using Suc.prems by simp_all
    have "n = s * (n div s) + n mod s" by simp
    with \<open>0 < n mod s\<close> have "n + s - 1 = s * (n div s + 1) + (n mod s - 1)"
      unfolding distrib_left mult_1_right by linarith
    moreover have "(s * (n div s + 1) + (n mod s - 1)) div s = n div s + 1"
      using less_imp_diff_less [OF \<open>n mod s < s\<close>, of 1] Suc.prems by (subst div_mult_self4) simp_all
    ultimately show ?thesis using False by simp
  qed
  with Suc show ?case by (simp split: if_splits)
qed simp

lemma kept_count: "0 < s \<Longrightarrow> length (filter (kept s n) [0..<n]) \<le> (n + s - 1) div s + 1"
proof -
  assume s: "0 < s"
  have "length (filter (kept s n) xs) \<le> length (filter (\<lambda>j. j mod s = 0) xs) + length (filter (\<lambda>j. j = n - 1) xs)" for xs
    by (induction xs) (auto simp: kept_def)
  moreover have "length (filter (\<lambda>j. j = n - 1) [0..<n]) \<le> 1"
    using distinct_card [of "filter (\<lambda>j. j = n - 1) [0..<n]"] card_mono [of "{n - 1}" "set (filter (\<lambda>j. j = n - 1) [0..<n])"]
    by auto
  ultimately show ?thesis using multiples_count [OF s, of n] by (metis add_mono order_trans le_refl)
qed

text \<open>
  The accrual curve carries at most 799 points, and below 800 matched pairs it carries one for every pair,
  so the 400 of its constant is not a cap. Its last point is the sum of every pair's guaranteed value in the
  order of submission, rounded once to cents.
\<close>

theorem accrual_curve_points:
  assumes "accrual_curve rows = Inr ps" "2 \<le> length (curve_rows rows)"
  shows "length ps \<le> 799 \<and> (length (curve_rows rows) < 800 \<longrightarrow> length ps = length (curve_rows rows)) \<and>
    ps \<noteq> [] \<and> quantize_cents (dsum (map (\<lambda>r. or_zero (pr_value r)) (curve_rows rows))) = Inr (cp_total (last ps))"
proof -
  let ?n = "length (curve_rows rows)"
  let ?s = "max 1 (?n div MAX_CURVE_POINTS)"
  from assms have run: "curve_loop ?s ?n 0 (curve_rows rows) 0 0 = Inr ps"
    by (simp add: accrual_curve_def Let_def split: if_splits)
  have len: "length ps = length (filter (kept ?s ?n) [0..<?n])"
    using curve_loop_length [OF run] by simp
  have small: "length ps = ?n" if "?n < 800"
  proof -
    from that have "?s = 1" by (simp add: MAX_CURVE_POINTS_def)
    then have "filter (kept ?s ?n) [0..<?n] = [0..<?n]" by (intro filter_True) (simp add: kept_def)
    with len show ?thesis by simp
  qed
  moreover have "length ps \<le> 799"
  proof (cases "?n < 800")
    case False
    then have s: "?s = ?n div 400" "2 \<le> ?n div 400" by (simp_all add: MAX_CURVE_POINTS_def)
    have n: "?n = 400 * (?n div 400) + ?n mod 400" "?n mod 400 < 400" by simp_all
    have "?n + ?s - 1 \<le> ?s * 600" using n s by linarith
    then have "(?n + ?s - 1) div ?s \<le> (?s * 600) div ?s" by (rule div_le_mono)
    also have "\<dots> = 600" using s by simp
    finally have "(?n + ?s - 1) div ?s \<le> 600" .
    moreover have "0 < ?s" by simp
    note kept_count [OF this, of ?n]
    ultimately show ?thesis unfolding len by linarith
  qed (use small in simp)
  moreover have "curve_rows rows \<noteq> []" using assms(2) by auto
  from curve_loop_last [OF run _ this]
  have "ps \<noteq> [] \<and> quantize_cents (dsum (map (\<lambda>r. or_zero (pr_value r)) (curve_rows rows))) = Inr (cp_total (last ps))"
    by (simp add: dsum_def)
  ultimately show ?thesis by blast
qed

subsection \<open>Reading ids back\<close>

lemma takeWhile_stop: "list_all P xs \<Longrightarrow> ys = [] \<or> \<not> P (hd ys) \<Longrightarrow> takeWhile P (xs @ ys) = xs \<and> dropWhile P (xs @ ys) = ys"
  by (induction xs) (cases ys; auto)+

lemma length_digits_of [simp]: "length (digits_of k n) = k"
  by (induction k arbitrary: n) auto

lemma is_digit_nth: "k < 10 \<Longrightarrow> is_digit (''0123456789'' ! k)"
  unfolding is_digit_def by (intro nth_mem) simp

lemma digits_of_digits: "list_all is_digit (digits_of k n)"
  by (induction k arbitrary: n) (auto simp del: nth_Cons_numeral intro: is_digit_nth)

lemma isoformat_shape: "date_shape (isoformat d)"
proof (cases d)
  case (fields y m k)
  have "digits_of 4 (nat y) = take 4 (isoformat d)" by (simp add: fields)
  then show ?thesis
    using digits_of_digits [of 4 "nat y"] digits_of_digits [of 2 "nat m"] digits_of_digits [of 2 "nat k"]
    by (simp add: fields date_shape_def nth_append)
qed

lemma length_isoformat [simp]: "length (isoformat d) = 10"
  by (cases d) simp

lemma dated_tail_date: "dated_tail (''-'' @ isoformat d @ s) = id_tail s"
  by (simp add: dated_tail_def isoformat_shape)

lemma no_early_date:
  assumes "\<not> is_digit c2" shows "dated_tail (c1 # c2 # s) = None"
proof -
  have "\<not> date_shape (take 10 (c2 # s))" using assms by (simp add: date_shape_def take_Cons' numeral_eq_Suc)
  then show ?thesis by (simp add: dated_tail_def)
qed

lemma find_date_skip:
  assumes "p \<noteq> []" "\<forall>c \<in> set p. \<not> is_digit c" "id_tail s = Some x"
  shows "find_date (p @ ''-'' @ isoformat d @ s) = Some x"
  using assms(1,2)
proof (induction p)
  case (Cons c cs)
  show ?case
  proof (cases cs)
    case Nil
    then show ?thesis using dated_tail_date [of d s] assms(3) by simp
  next
    case cs: (Cons c' cs')
    have "\<exists>e r. cs' @ ''-'' @ isoformat d @ s = e # r \<and> \<not> is_digit e"
      using Cons.prems cs by (cases cs') (auto simp: is_digit_def)
    then have "dated_tail (cs @ ''-'' @ isoformat d @ s) = None" using no_early_date cs by auto
    moreover have "find_date (cs @ ''-'' @ isoformat d @ s) = Some x" using Cons.IH Cons.prems cs by simp
    ultimately show ?thesis by simp
  qed
qed simp

lemma nat_str_nonempty: "nat_str n \<noteq> []"
  by (subst nat_str.simps) simp

lemma fmt_line_nonempty: "fmt_line l \<noteq> []"
  by (simp add: fmt_line_def format_f_def Let_def nat_str_nonempty split: option.splits)

lemma id_tail_market:
  assumes "list_all market_char mt" "mt \<noteq> []" "rest \<noteq> []"
  shows "id_tail (''-'' @ mt @ ''-'' @ rest) = Some (Some mt)"
proof -
  have "takeWhile market_char (mt @ ''-'' @ rest) = mt \<and> dropWhile market_char (mt @ ''-'' @ rest) = ''-'' @ rest"
    by (rule takeWhile_stop [OF assms(1)]) (simp add: market_char_def sport_char_def)
  with assms(2,3) show ?thesis by (simp add: id_tail_def Let_def)
qed

lemma event_group_id_form:
  "\<exists>s. event_group_id m = cm_sport m @ ''-'' @ (p_code (team_a m) @ ''-'' @ p_code (team_b m)) @ ''-'' @ cm_date m @ s \<and>
     (cm_market m = ''moneyline'' \<and> s = [] \<or>
      cm_market m \<noteq> ''moneyline'' \<and> (\<exists>rest. rest \<noteq> [] \<and> s = ''-'' @ cm_market m @ ''-'' @ rest))"
proof -
  consider "cm_market m = ''spread''" | "cm_market m = ''moneyline''"
    | "cm_market m \<noteq> ''spread''" "cm_market m \<noteq> ''moneyline''" by blast
  then show ?thesis
  proof cases
    case 1
    then show ?thesis
      by (intro exI [of _ "''-spread-'' @ p_code (anchor_participant m) @ ''-'' @ fmt_line (cm_line m)"])
        (simp add: event_group_id_def Let_def)
  next
    case 2
    then show ?thesis by (intro exI [of _ "[]"]) (simp add: event_group_id_def Let_def)
  next
    case 3
    then show ?thesis
      by (intro exI [of _ "''-'' @ cm_market m @ ''-'' @ fmt_line (cm_line m)"])
        (simp add: event_group_id_def Let_def fmt_line_nonempty)
  qed
qed

text \<open>
  The report reads a group id back: for every match the matcher makes, the sport and the market type parsed
  from its frozen id are the ones of the match, when the sport and market names use the id's alphabet and the
  team codes hold no digit.
\<close>

theorem parse_group_id_roundtrip:
  assumes "0 \<le> days" "m \<in> set (match_games days inputs)"
    and "cm_sport m \<noteq> []" "list_all sport_char (cm_sport m)" "cm_market m \<noteq> []" "list_all market_char (cm_market m)"
    and "\<forall>c \<in> set (p_code (team_a m) @ p_code (team_b m)). \<not> is_digit c"
  shows "parse_group_id (event_group_id m) = (cm_sport m, cm_market m)"
proof -
  from match_games_sound [OF assms(1,2)] obtain d where date: "cm_date m = isoformat d"
    unfolding match_sound_def by blast
  from event_group_id_form [of m] obtain s where
    id: "event_group_id m = cm_sport m @ ''-'' @ (p_code (team_a m) @ ''-'' @ p_code (team_b m)) @ ''-'' @ isoformat d @ s"
    and s: "cm_market m = ''moneyline'' \<and> s = [] \<or>
      cm_market m \<noteq> ''moneyline'' \<and> (\<exists>rest. rest \<noteq> [] \<and> s = ''-'' @ cm_market m @ ''-'' @ rest)"
    unfolding date by blast
  let ?p = "p_code (team_a m) @ ''-'' @ p_code (team_b m)"
  have split: "takeWhile sport_char (event_group_id m) = cm_sport m \<and>
      dropWhile sport_char (event_group_id m) = ''-'' @ ?p @ ''-'' @ isoformat d @ s"
    unfolding id by (rule takeWhile_stop [OF assms(4)]) (simp add: sport_char_def)
  from s id_tail_market [OF assms(6,5)]
  have "id_tail s = Some (if cm_market m = ''moneyline'' then None else Some (cm_market m))"
    by (auto simp: id_tail_def)
  from find_date_skip [OF _ _ this, of ?p d] assms(7)
  have "find_date (?p @ ''-'' @ isoformat d @ s) = Some (if cm_market m = ''moneyline'' then None else Some (cm_market m))"
    by (auto simp: is_digit_def)
  with split assms(3,5) show ?thesis by (simp add: parse_group_id_def Let_def or_else_def)
qed

subsection \<open>A concrete window\<close>

definition sample_ticket :: "string \<Rightarrow> string option \<Rightarrow> perf_ticket" where
  "sample_ticket st why = \<lparr>pt_group = ''mlb-BOS-NYY-2026-08-11'', pt_status = st, pt_submitted = 0, pt_realized = None,
     pt_reason = why, pt_edge_bps = Some 80, pt_legs = []\<rparr>"

definition sample_scalars :: "perf_ticket list" where
  "sample_scalars = [sample_ticket ''filled'' None, sample_ticket ''rejected'' (Some ''stale'')]"

lemma sample_summary: "\<exists>r. summarize sample_scalars (take 1 sample_scalars) = Inr r"
proof -
  have "length (filter P (map f (take 1 sample_scalars))) < 2" for P :: "perf_row \<Rightarrow> bool" and f
    by (simp add: sample_scalars_def)
  then have "accrual_curve (map row_of (take 1 sample_scalars)) = Inr []"
    by (simp add: accrual_curve_def curve_rows_def Let_def)
  then show ?thesis by (simp add: summarize_def Let_def)
qed


theorem outcome_mix_partitions_witness:
  "\<exists>r. summarize sample_scalars (take 1 sample_scalars) = Inr r \<and> sum_list (map (\<lambda>x. fst (snd x)) (rp_outcome_mix r)) = 2"
proof -
  from sample_summary obtain r where r: "summarize sample_scalars (take 1 sample_scalars) = Inr r" by blast
  have "map pt_status (take 1 sample_scalars) = filter (\<lambda>s. s = ''filled'' \<or> s = ''pending'') (map pt_status sample_scalars)"
    "\<forall>t \<in> set sample_scalars. pt_status t \<in> {''filled'', ''pending'', ''rejected'', ''missed''}"
    by (simp_all add: sample_scalars_def sample_ticket_def)
  from outcome_mix_partitions [OF r this] r show ?thesis by (intro exI [of _ r]) (simp add: sample_scalars_def)
qed

definition sample_row :: "rat \<Rightarrow> perf_row" where
  "sample_row v = \<lparr>pr_capital = None, pr_fees = 0, pr_market = ''moneyline'', pr_net = None, pr_outcome = ''open'',
     pr_qty = None, pr_returned = None, pr_value = Some v, pr_sport = ''mlb'', pr_status = ''filled'', pr_submitted = 0\<rparr>"

lemma sample_curve_rows: "curve_rows [sample_row 2, sample_row 3] = [sample_row 2, sample_row 3]"
  by (simp add: curve_rows_def sample_row_def)

lemma sample_curve_sums: "dadd 0 2 = 2" "dadd 2 3 = 5"
  by (simp_all add: eval_rules)

lemma sample_cents: "quantize_cents 2 = Inr 2" "quantize_cents 5 = Inr 5" "quantize_cents 0 = Inr 0"
  by (simp_all add: quantize_cents_def round_half_even_def Let_def)

theorem accrual_curve_points_witness:
  "\<exists>ps. accrual_curve [sample_row 2, sample_row 3] = Inr ps \<and> length ps = 2 \<and> Inr (cp_total (last ps)) = quantize_cents 5"
proof -
  have two: "2 \<le> length (curve_rows [sample_row 2, sample_row 3])" by (simp add: sample_curve_rows)
  have "\<exists>ps. accrual_curve [sample_row 2, sample_row 3] = Inr ps"
    unfolding accrual_curve_def sample_curve_rows
    by (simp add: MAX_CURVE_POINTS_def) (simp add: sample_row_def sample_curve_sums sample_cents)
  then obtain ps where ps: "accrual_curve [sample_row 2, sample_row 3] = Inr ps" by blast
  from accrual_curve_points [OF ps two] have "length ps = 2"
    "Inr (cp_total (last ps)) = quantize_cents (dsum (map (\<lambda>r. or_zero (pr_value r)) [sample_row 2, sample_row 3]))"
    unfolding sample_curve_rows by simp_all
  moreover have "dsum (map (\<lambda>r. or_zero (pr_value r)) [sample_row 2, sample_row 3]) = 5"
    by (simp add: dsum_def sample_row_def or_zero_def sample_curve_sums)
  ultimately show ?thesis using ps by auto
qed

theorem parse_group_id_roundtrip_witness:
  "parse_group_id (event_group_id sample_match) = (''mlb'', ''moneyline'')"
proof -
  have m: "cm_sport sample_match = ''mlb''" "cm_market sample_match = ''moneyline''"
    "p_code (team_a sample_match) = ''BOS''" "p_code (team_b sample_match) = ''NYY''"
    by (simp_all add: sample_match_def build_match_fields build_match_teams sample_game_def)
  show ?thesis
    using parse_group_id_roundtrip [of 0 sample_match sample_slate, unfolded sample_matches m]
    by (simp add: sport_char_def market_char_def is_digit_def)
qed

end
