(* ===== verification/Ledger.thy ===== *)
theory Ledger
  imports Performance
begin

section \<open>The ledger\<close>

text \<open>
  The ticket queries of \<open>arbys/db/repositories.py\<close> and the ledger endpoints of \<open>arbys/backend/app.py\<close> that page,
  count and score them. A table is the list of its rows; the order a query leaves open is the order of the list,
  whatever it is. Instants are microseconds; \<open>toiso\<close> and \<open>fromiso\<close> are \<open>datetime.isoformat\<close> and
  \<open>fromisoformat\<close>. The order on ids is that of the database's text comparison, here by code points.
\<close>

record ticket_rec =
  tc_id :: string
  tc_account :: string
  tc_group :: string
  tc_title :: string
  tc_starts :: "int option"
  tc_source :: string
  tc_status :: string
  tc_reason :: "string option"
  tc_excluded :: "string option"
  tc_stake :: "rat option"
  tc_profit :: "rat option"
  tc_edge :: "rat option"
  tc_submitted :: int

record order_rec =
  oc_id :: string
  oc_account :: string
  oc_venue :: string
  oc_outcome :: string
  oc_is_buy :: bool
  oc_qty :: rat
  oc_limit :: rat
  oc_status :: string
  oc_submitted :: int
  oc_ticket :: "string option"
  oc_reason :: "string option"

record fill_rec =
  fc_order :: string
  fc_qty :: rat
  fc_price :: rat
  fc_fee :: rat

record settlement_rec =
  sc_outcome :: string
  sc_value :: rat
  sc_ts :: int
  sc_source :: string

record ledger =
  lg_tickets :: "ticket_rec list"
  lg_orders :: "order_rec list"
  lg_fills :: "fill_rec list"
  lg_settlements :: "settlement_rec list"

subsection \<open>Filters and counts\<close>

definition opt_holds :: "('a \<Rightarrow> bool) \<Rightarrow> 'a option \<Rightarrow> bool" where
  "opt_holds P x = (case x of None \<Rightarrow> True | Some v \<Rightarrow> P v)"

definition ticket_filters ::
  "string \<Rightarrow> int option \<Rightarrow> string list option \<Rightarrow> string option \<Rightarrow> ticket_rec \<Rightarrow> bool" where
  "ticket_filters a since status source t \<longleftrightarrow> tc_account t = a \<and> tc_excluded t = None \<and>
     opt_holds (\<lambda>s. s \<le> tc_submitted t) since \<and> opt_holds (\<lambda>ss. tc_status t \<in> set ss) status \<and>
     opt_holds (\<lambda>s. tc_source t = s) source"

definition TRADED_STATUSES :: "string list" where
  "TRADED_STATUSES = [''filled'', ''pending'']"

definition NEVER_TRADED :: "string list" where
  "NEVER_TRADED = [''rejected'', ''missed'']"

definition count_excluded_tickets :: "ledger \<Rightarrow> string \<Rightarrow> int option \<Rightarrow> (string \<times> nat) list" where
  "count_excluded_tickets lg a since = sort_key (\<lambda>(_, c). - int c) (tally (List.map_filter tc_excluded
     (filter (\<lambda>t. tc_account t = a \<and> opt_holds (\<lambda>s. s \<le> tc_submitted t) since) (lg_tickets lg))))"

definition scalar_of :: "ticket_rec \<Rightarrow> perf_ticket" where
  "scalar_of t = \<lparr>pt_group = tc_group t, pt_status = tc_status t, pt_submitted = tc_submitted t, pt_realized = None,
     pt_reason = tc_reason t, pt_edge_bps = tc_edge t, pt_legs = []\<rparr>"

definition paper_ticket_scalars :: "ledger \<Rightarrow> string \<Rightarrow> int option \<Rightarrow> string option \<Rightarrow> perf_ticket list" where
  "paper_ticket_scalars lg a since source = map scalar_of (filter (ticket_filters a since None source) (lg_tickets lg))"

subsection \<open>Scoring\<close>

text \<open>The two outer joins of a ticket to its orders and their fills.\<close>

definition orders_of :: "ledger \<Rightarrow> string \<Rightarrow> order_rec list" where
  "orders_of lg tid = filter (\<lambda>ord. oc_ticket ord = Some tid) (lg_orders lg)"

definition fills_of :: "ledger \<Rightarrow> string \<Rightarrow> fill_rec list" where
  "fills_of lg oid = filter (\<lambda>f. fc_order f = oid) (lg_fills lg)"

type_synonym joined_row = "string \<times> order_rec option \<times> fill_rec option"

definition order_rows :: "ledger \<Rightarrow> string \<Rightarrow> order_rec \<Rightarrow> joined_row list" where
  "order_rows lg tid ord = (case fills_of lg (oc_id ord) of
     [] \<Rightarrow> [(tid, Some ord, None)] | f # fs \<Rightarrow> map (\<lambda>f. (tid, Some ord, Some f)) (f # fs))"

definition ticket_rows :: "ledger \<Rightarrow> ticket_rec \<Rightarrow> joined_row list" where
  "ticket_rows lg t = (case orders_of lg (tc_id t) of
     [] \<Rightarrow> [(tc_id t, None, None)] | ord # ords \<Rightarrow> concat (map (order_rows lg (tc_id t)) (ord # ords)))"

text \<open>A dictionary built from rows keeps the last value of a key.\<close>

definition settled_values :: "ledger \<Rightarrow> string \<Rightarrow> rat option" where
  "settled_values lg = map_of (rev (map (\<lambda>s. (sc_outcome s, sc_value s)) (lg_settlements lg)))"

definition direction :: "bool \<Rightarrow> rat" where
  "direction is_buy = (if is_buy then 1 else - 1)"

definition leg_gain :: "bool \<Rightarrow> rat \<Rightarrow> rat \<Rightarrow> rat \<Rightarrow> rat \<Rightarrow> rat" where
  "leg_gain is_buy resolved price qty fe = dsub (dmul (dmul (direction is_buy) (dsub resolved price)) qty) fe"

definition outcome_step ::
  "(string \<Rightarrow> rat option) \<Rightarrow> joined_row \<Rightarrow> (string, rat) dict \<times> string list \<times> string list
    \<Rightarrow> (string, rat) dict \<times> string list \<times> string list" where
  "outcome_step settled row st = (case (row, st) of ((tid, ord, fl), (profit, is_open, seen)) \<Rightarrow>
     let seen' = List.insert tid seen; opened = (profit, List.insert tid is_open, seen') in
     case (ord, fl) of
       (Some r, Some f) \<Rightarrow> (case settled (oc_outcome r) of None \<Rightarrow> opened
          | Some v \<Rightarrow> (dict_set tid (dadd (dict_get 0 profit tid) (leg_gain (oc_is_buy r) v (fc_price f) (oc_qty r) (fc_fee f))) profit,
              is_open, seen'))
     | _ \<Rightarrow> opened)"

definition outcome_name :: "rat \<Rightarrow> string" where
  "outcome_name p = (if 0 < p then ''won'' else if p < 0 then ''lost'' else ''flat'')"

definition ticket_outcomes :: "ledger \<Rightarrow> string \<Rightarrow> int option \<Rightarrow> (string, string) dict" where
  "ticket_outcomes lg a since =
     (let rows = concat (map (ticket_rows lg) (filter (ticket_filters a since (Some [''filled'']) None) (lg_tickets lg)))
      in if rows = [] then []
         else case fold (outcome_step (settled_values lg)) rows ([], [], []) of (profit, is_open, seen) \<Rightarrow>
           map (\<lambda>tid. (tid, if tid \<in> set is_open then ''open'' else outcome_name (dict_get 0 profit tid))) seen)"

definition ids_for_outcome :: "ledger \<Rightarrow> string \<Rightarrow> int option \<Rightarrow> string \<Rightarrow> string list" where
  "ids_for_outcome lg a since outc = map fst (filter (\<lambda>x. snd x = outc) (ticket_outcomes lg a since))"

text \<open>The extra clause an outcome filter adds, \<open>None\<close> where the query is not made at all.\<close>

definition outcome_clause :: "ledger \<Rightarrow> string \<Rightarrow> int option \<Rightarrow> string option \<Rightarrow> (ticket_rec \<Rightarrow> bool) option" where
  "outcome_clause lg a since outc = (case outc of None \<Rightarrow> Some (\<lambda>_. True)
     | Some s \<Rightarrow> if s = ''none'' then Some (\<lambda>t. tc_status t \<in> set NEVER_TRADED)
         else (let ids = ids_for_outcome lg a since s in if ids = [] then None else Some (\<lambda>t. tc_id t \<in> set ids)))"

definition count_paper_tickets ::
  "ledger \<Rightarrow> string \<Rightarrow> int option \<Rightarrow> string list option \<Rightarrow> string option \<Rightarrow> string option \<Rightarrow> nat" where
  "count_paper_tickets lg a since status source outc = (case outcome_clause lg a since outc of None \<Rightarrow> 0
     | Some cl \<Rightarrow> length (filter (\<lambda>t. ticket_filters a since status source t \<and> cl t) (lg_tickets lg)))"

fun first_per :: "('a \<Rightarrow> 'k) \<Rightarrow> 'k list \<Rightarrow> 'a list \<Rightarrow> 'a list" where
  "first_per key seen [] = []"
| "first_per key seen (x # xs) = (if key x \<in> set seen then first_per key seen xs else x # first_per key (key x # seen) xs)"

definition list_paper_settlements :: "ledger \<Rightarrow> settlement_rec list" where
  "list_paper_settlements lg = first_per sc_outcome [] (sort_key (\<lambda>s. - sc_ts s) (lg_settlements lg))"

definition latest_values :: "ledger \<Rightarrow> string \<Rightarrow> rat option" where
  "latest_values lg = map_of (map (\<lambda>s. (sc_outcome s, sc_value s)) (list_paper_settlements lg))"

record leg_item =
  li_venue :: string
  li_outcome :: string
  li_is_buy :: bool
  li_qty :: rat
  li_limit :: rat
  li_fill :: "rat option"
  li_fee :: rat
  li_resolved :: "rat option"
  li_status :: string
  li_reason :: "string option"

record ticket_item =
  ti_row :: ticket_rec
  ti_realized :: "rat option"
  ti_legs :: "leg_item list"

fun score_legs :: "rat \<Rightarrow> leg_item list \<Rightarrow> (string \<Rightarrow> rat option) \<Rightarrow> rat option" where
  "score_legs tot [] settled = Some tot"
| "score_legs tot (l # ls) settled = (case (li_fill l, settled (li_outcome l)) of
     (Some p, Some v) \<Rightarrow> score_legs (dadd tot (leg_gain (li_is_buy l) v p (li_qty l) (li_fee l))) ls settled
   | _ \<Rightarrow> None)"

definition score_ticket :: "leg_item list \<Rightarrow> (string \<Rightarrow> rat option) \<Rightarrow> rat option" where
  "score_ticket legs settled = (if legs = [] then None else score_legs 0 legs settled)"

text \<open>The price of the last fill of an order and the sum of its fees.\<close>

definition fills_by_order :: "fill_rec list \<Rightarrow> (string, rat \<times> rat) dict" where
  "fills_by_order fs = foldl (\<lambda>d f. dict_set (fc_order f) (fc_price f, dadd (snd (dict_get (0, 0) d (fc_order f))) (fc_fee f)) d) [] fs"

definition leg_item_of :: "(string, rat \<times> rat) dict \<Rightarrow> (string \<Rightarrow> rat option) \<Rightarrow> order_rec \<Rightarrow> leg_item" where
  "leg_item_of fills settled r =
     \<lparr>li_venue = oc_venue r, li_outcome = oc_outcome r, li_is_buy = oc_is_buy r, li_qty = oc_qty r, li_limit = oc_limit r,
      li_fill = map_option fst (map_of fills (oc_id r)), li_fee = snd (dict_get (0, 0) fills (oc_id r)),
      li_resolved = settled (oc_outcome r), li_status = oc_status r, li_reason = oc_reason r\<rparr>"

definition hydrate_tickets :: "ledger \<Rightarrow> ticket_rec list \<Rightarrow> ticket_item list" where
  "hydrate_tickets lg ts =
     (let ids = map tc_id ts; settled = latest_values lg;
          ords = sort_key (\<lambda>r. (oc_submitted r, oc_id r)) (filter (\<lambda>r. \<exists>tid \<in> set ids. oc_ticket r = Some tid) (lg_orders lg));
          fills = fills_by_order (filter (\<lambda>f. fc_order f \<in> set (map oc_id ords)) (lg_fills lg))
      in map (\<lambda>t. let legs = map (leg_item_of fills settled) (filter (\<lambda>r. oc_ticket r = Some (tc_id t)) ords)
                in \<lparr>ti_row = t, ti_realized = score_ticket legs settled, ti_legs = legs\<rparr>) ts)"

definition ticket_key :: "ticket_rec \<Rightarrow> int \<times> string" where
  "ticket_key t = (tc_submitted t, tc_id t)"

definition newest_first :: "ticket_rec list \<Rightarrow> ticket_rec list" where
  "newest_first ts = rev (sort_key ticket_key ts)"

definition list_paper_tickets ::
  "ledger \<Rightarrow> string \<Rightarrow> nat \<Rightarrow> string list option \<Rightarrow> string option \<Rightarrow> int option \<Rightarrow> string option \<Rightarrow> (int \<times> string) option
    \<Rightarrow> ticket_item list" where
  "list_paper_tickets lg a limit status source since outc cursor = (case outcome_clause lg a since outc of None \<Rightarrow> []
     | Some cl \<Rightarrow> hydrate_tickets lg (take limit (newest_first (filter (\<lambda>t. ticket_filters a since status source t \<and> cl t \<and>
         opt_holds (\<lambda>c. ticket_key t < c) cursor) (lg_tickets lg)))))"

definition count_open_paper_tickets :: "ledger \<Rightarrow> string \<Rightarrow> nat" where
  "count_open_paper_tickets lg a =
     (let rows = concat (map (ticket_rows lg) (filter (\<lambda>t. tc_account t = a \<and> tc_status t = ''filled'') (lg_tickets lg)));
          settled = set (map sc_outcome (lg_settlements lg))
      in card ((\<lambda>(tid, _, _). tid) ` {row \<in> set rows. case row of
           (tid, Some r, Some f) \<Rightarrow> oc_outcome r \<notin> settled | _ \<Rightarrow> True}))"

subsection \<open>The ledger page\<close>

datatype 'a reply = Reply 'a | Refused nat

definition LEDGER_OUTCOMES :: "string list" where
  "LEDGER_OUTCOMES = [''won'', ''lost'', ''flat'', ''open'', ''none'']"

definition MAX_PAGE :: int where
  "MAX_PAGE = 500"

definition MAX_TRADED :: nat where
  "MAX_TRADED = 20000"

definition encode_cursor :: "(int \<Rightarrow> string) \<Rightarrow> ticket_rec \<Rightarrow> string" where
  "encode_cursor toiso row = toiso (tc_submitted row) @ ''|'' @ tc_id row"

text \<open>\<open>cursor.rpartition("|")\<close>\<close>

definition rpartition_bar :: "string \<Rightarrow> string \<times> string" where
  "rpartition_bar s = (if CHR ''|'' \<notin> set s then ([], s)
     else (rev (drop 1 (dropWhile (\<lambda>c. c \<noteq> CHR ''|'') (rev s))), rev (takeWhile (\<lambda>c. c \<noteq> CHR ''|'') (rev s))))"

definition decode_cursor :: "(string \<Rightarrow> int option) \<Rightarrow> string option \<Rightarrow> (int \<times> string) option reply" where
  "decode_cursor fromiso cursor = (case cursor of None \<Rightarrow> Reply None
     | Some c \<Rightarrow> (case rpartition_bar c of (raw, tid) \<Rightarrow>
         (case fromiso raw of None \<Rightarrow> Refused 422 | Some ts \<Rightarrow> Reply (Some (ts, tid)))))"

record ticket_page =
  tp_items :: "ticket_item list"
  tp_total :: nat
  tp_next :: "string option"

definition paper_tickets ::
  "(int \<Rightarrow> string) \<Rightarrow> (string \<Rightarrow> int option) \<Rightarrow> ledger \<Rightarrow> string \<Rightarrow> int \<Rightarrow> string option \<Rightarrow> string option \<Rightarrow> int option
    \<Rightarrow> string option \<Rightarrow> string option \<Rightarrow> ticket_page reply" where
  "paper_tickets toiso fromiso lg a limit status source since outc cursor =
     (if opt_holds (\<lambda>s. s \<in> set LEDGER_OUTCOMES) outc then
        (let lim = max 1 (min limit MAX_PAGE); st = map_option (\<lambda>s. [s]) status in
         case decode_cursor fromiso cursor of Refused code \<Rightarrow> Refused code
         | Reply cur \<Rightarrow>
             (let items = list_paper_tickets lg a (nat lim) st source since outc cur in
              Reply \<lparr>tp_items = items, tp_total = count_paper_tickets lg a since st source outc,
                tp_next = (if int (length items) = lim then Some (encode_cursor toiso (ti_row (last items))) else None)\<rparr>))
      else Refused 422)"

text \<open>A client that follows the cursors, at most \<open>n\<close> requests.\<close>

fun follow :: "nat \<Rightarrow> (string option \<Rightarrow> ticket_page reply) \<Rightarrow> string option \<Rightarrow> ticket_item list option" where
  "follow 0 page cursor = None"
| "follow (Suc n) page cursor = (case page cursor of Refused _ \<Rightarrow> None
     | Reply p \<Rightarrow> (case tp_next p of None \<Rightarrow> Some (tp_items p)
         | Some c \<Rightarrow> map_option ((@) (tp_items p)) (follow n page (Some c))))"

subsection \<open>The performance window\<close>

definition perf_leg_of :: "leg_item \<Rightarrow> perf_leg" where
  "perf_leg_of l = \<lparr>pl_venue = li_venue l, pl_is_buy = li_is_buy l, pl_qty = li_qty l, pl_limit = li_limit l,
     pl_fill = li_fill l, pl_fee = li_fee l, pl_resolved = li_resolved l\<rparr>"

definition perf_ticket_of :: "ticket_item \<Rightarrow> perf_ticket" where
  "perf_ticket_of x = (scalar_of (ti_row x))\<lparr>pt_realized := ti_realized x, pt_legs := map perf_leg_of (ti_legs x)\<rparr>"

definition paper_performance :: "ledger \<Rightarrow> string \<Rightarrow> int option \<Rightarrow> string option \<Rightarrow> (report \<times> (string \<times> nat) list) res" where
  "paper_performance lg a since source =
     bindE (summarize (paper_ticket_scalars lg a since source)
         (map perf_ticket_of (list_paper_tickets lg a MAX_TRADED (Some TRADED_STATUSES) source since None None)))
       (\<lambda>rep. Inr (rep, count_excluded_tickets lg a since))"

subsection \<open>Following the cursors\<close>

definition matches ::
  "ledger \<Rightarrow> string \<Rightarrow> int option \<Rightarrow> string list option \<Rightarrow> string option \<Rightarrow> string option \<Rightarrow> ticket_rec \<Rightarrow> bool" where
  "matches lg a since status source outc t \<longleftrightarrow> ticket_filters a since status source t \<and>
     (case outcome_clause lg a since outc of None \<Rightarrow> False | Some cl \<Rightarrow> cl t)"

lemma count_matches:
  "count_paper_tickets lg a since status source outc = length (filter (matches lg a since status source outc) (lg_tickets lg))"
  by (auto simp: count_paper_tickets_def matches_def [abs_def] split: option.split)

lemma hydrate_rows: "map ti_row (hydrate_tickets lg ts) = ts"
  by (simp add: hydrate_tickets_def Let_def comp_def)

lemma length_hydrate [simp]: "length (hydrate_tickets lg ts) = length ts"
  using arg_cong [OF hydrate_rows, of length] by simp

lemma newest_first_filter: "filter P (newest_first ts) = newest_first (filter P ts)"
  by (simp add: newest_first_def filter_sort flip: rev_filter)

lemma list_page_rows:
  "map ti_row (list_paper_tickets lg a limit status source since outc cursor) =
     take limit (filter (\<lambda>t. opt_holds (\<lambda>c. ticket_key t < c) cursor)
       (newest_first (filter (matches lg a since status source outc) (lg_tickets lg))))"
  unfolding list_paper_tickets_def newest_first_filter filter_filter matches_def
  by (auto simp: hydrate_rows newest_first_def conj_ac split: option.split)

text \<open>Ids are the primary key, so no two tickets have the same place in the order.\<close>

lemma newest_first_strict:
  assumes "distinct (map tc_id ts)"
  shows "sorted_wrt (\<lambda>x y. ticket_key y < ticket_key x) (newest_first (filter P ts))"
proof -
  have "inj_on ticket_key (set ts)" using assms by (auto simp: distinct_map inj_on_def ticket_key_def)
  moreover have "distinct ts" using assms by (simp add: distinct_map)
  ultimately have "distinct (map ticket_key (filter P ts))" by (simp add: distinct_map inj_on_def)
  then have "distinct (map ticket_key (sort_key ticket_key (filter P ts)))" by (simp add: distinct_map)
  then have "sorted_wrt (<) (map ticket_key (sort_key ticket_key (filter P ts)))"
    by (simp only: strict_sorted_iff) simp
  then show ?thesis by (simp add: newest_first_def sorted_wrt_rev sorted_wrt_map)
qed

lemma after_prefix:
  assumes "sorted_wrt (\<lambda>x y. ticket_key y < ticket_key x) (xs @ ys)" "xs \<noteq> []"
  shows "filter (\<lambda>t. ticket_key t < ticket_key (last xs)) (xs @ ys) = ys"
proof -
  have s: "sorted_wrt (\<lambda>x y. ticket_key y < ticket_key x) xs" and d: "\<forall>x \<in> set xs. \<forall>y \<in> set ys. ticket_key y < ticket_key x"
    using assms(1) by (auto simp: sorted_wrt_append)
  have "\<not> ticket_key t < ticket_key (last xs)" if "t \<in> set xs" for t
  proof -
    from assms(2) have e: "xs = butlast xs @ [last xs]" by simp
    from s have "sorted_wrt (\<lambda>x y. ticket_key y < ticket_key x) (butlast xs @ [last xs])" using e by simp
    then have "\<forall>x \<in> set (butlast xs). ticket_key (last xs) < ticket_key x" by (simp only: sorted_wrt_append) simp
    moreover have "t \<in> set (butlast xs) \<or> t = last xs" using that e by (metis Un_iff empty_iff empty_set set_ConsD set_append)
    ultimately show ?thesis by (meson less_irrefl less_trans)
  qed
  moreover have "\<forall>t \<in> set ys. ticket_key t < ticket_key (last xs)" using d assms(2) by simp
  ultimately show ?thesis by (simp add: filter_empty_conv)
qed

lemma rpartition_encoded: "CHR ''|'' \<notin> set tid \<Longrightarrow> rpartition_bar (raw @ ''|'' @ tid) = (raw, tid)"
proof -
  assume "CHR ''|'' \<notin> set tid"
  then have "\<forall>c \<in> set (rev tid). c \<noteq> CHR ''|''" by auto
  then have "takeWhile (\<lambda>c. c \<noteq> CHR ''|'') (rev tid @ CHR ''|'' # rev raw) = rev tid"
    "dropWhile (\<lambda>c. c \<noteq> CHR ''|'') (rev tid @ CHR ''|'' # rev raw) = CHR ''|'' # rev raw"
    by (simp_all add: takeWhile_tail dropWhile_append3 takeWhile_eq_all_conv)
  then show ?thesis by (simp add: rpartition_bar_def)
qed

lemma decode_encoded:
  assumes "CHR ''|'' \<notin> set (tc_id t)" "fromiso (toiso (tc_submitted t)) = Some (tc_submitted t)"
  shows "decode_cursor fromiso (Some (encode_cursor toiso t)) = Reply (Some (ticket_key t))"
  using assms rpartition_encoded [OF assms(1)] by (simp add: decode_cursor_def encode_cursor_def ticket_key_def)

text \<open>Where a client stands: at the start, or behind the last row of what it has read.\<close>

definition cursor_at :: "(int \<Rightarrow> string) \<Rightarrow> ticket_rec list \<Rightarrow> string option" where
  "cursor_at toiso xs = (if xs = [] then None else Some (encode_cursor toiso (last xs)))"

lemma page_after:
  assumes "opt_holds (\<lambda>s. s \<in> set LEDGER_OUTCOMES) outc" "distinct (map tc_id (lg_tickets lg))"
    and ids: "\<And>t. t \<in> set (lg_tickets lg) \<Longrightarrow> CHR ''|'' \<notin> set (tc_id t) \<and> fromiso (toiso (tc_submitted t)) = Some (tc_submitted t)"
    and S: "newest_first (filter (matches lg a since (map_option (\<lambda>s. [s]) status) source outc) (lg_tickets lg)) = xs @ ys"
  obtains p where "paper_tickets toiso fromiso lg a limit status source since outc (cursor_at toiso xs) = Reply p"
    "map ti_row (tp_items p) = take (nat (max 1 (min limit MAX_PAGE))) ys"
    "tp_next p = (if length ys < nat (max 1 (min limit MAX_PAGE)) then None else cursor_at toiso (xs @ take (nat (max 1 (min limit MAX_PAGE))) ys))"
proof -
  define n where "n = nat (max 1 (min limit MAX_PAGE))"
  let ?cur = "if xs = [] then None else Some (ticket_key (last xs))"
  let ?items = "list_paper_tickets lg a n (map_option (\<lambda>s. [s]) status) source since outc ?cur"
  have n: "0 < n" "max 1 (min limit MAX_PAGE) = int n" by (simp_all add: n_def)
  have sub: "set (xs @ ys) \<subseteq> set (lg_tickets lg)" unfolding S [symmetric] by (auto simp: newest_first_def)
  have dec: "decode_cursor fromiso (cursor_at toiso xs) = Reply ?cur"
  proof (cases "xs = []")
    case False
    then have "last xs \<in> set (lg_tickets lg)" using sub by auto
    with ids False show ?thesis by (simp add: cursor_at_def decode_encoded)
  qed (simp add: cursor_at_def decode_cursor_def)
  have "sorted_wrt (\<lambda>x y. ticket_key y < ticket_key x) (xs @ ys)" unfolding S [symmetric] by (rule newest_first_strict) (rule assms(2))
  then have rows: "map ti_row ?items = take n ys"
    unfolding list_page_rows S using after_prefix [of xs ys] by (cases "xs = []") (simp_all add: opt_holds_def)
  have len: "length ?items = min n (length ys)" using arg_cong [OF rows, of length] by (simp add: min.commute)
  have "ti_row (last ?items) = last (take n ys)" if "n \<le> length ys"
  proof -
    have "?items \<noteq> []" using len that n(1) by (cases "?items = []") simp_all
    then have "ti_row (last ?items) = last (map ti_row ?items)" by (simp add: last_map)
    then show ?thesis by (simp only: rows)
  qed
  moreover have "take n ys \<noteq> []" if "n \<le> length ys" using that n(1) by (cases ys) (simp_all only: take_eq_Nil, simp_all)
  ultimately have nxt: "(if int (length ?items) = max 1 (min limit MAX_PAGE) then Some (encode_cursor toiso (ti_row (last ?items))) else None) =
      (if length ys < n then None else cursor_at toiso (xs @ take n ys))"
    unfolding n(2) len using n(1) by (simp add: cursor_at_def min_def not_less split: if_splits)
  have "paper_tickets toiso fromiso lg a limit status source since outc (cursor_at toiso xs) =
      Reply \<lparr>tp_items = ?items, tp_total = count_paper_tickets lg a since (map_option (\<lambda>s. [s]) status) source outc,
        tp_next = (if int (length ?items) = max 1 (min limit MAX_PAGE) then Some (encode_cursor toiso (ti_row (last ?items))) else None)\<rparr>"
    by (simp add: paper_tickets_def assms(1) dec Let_def n(2))
  from that [OF this] rows nxt show ?thesis by (simp add: n_def)
qed

lemma follow_rows:
  assumes "opt_holds (\<lambda>s. s \<in> set LEDGER_OUTCOMES) outc" "distinct (map tc_id (lg_tickets lg))"
    and ids: "\<And>t. t \<in> set (lg_tickets lg) \<Longrightarrow> CHR ''|'' \<notin> set (tc_id t) \<and> fromiso (toiso (tc_submitted t)) = Some (tc_submitted t)"
  shows "newest_first (filter (matches lg a since (map_option (\<lambda>s. [s]) status) source outc) (lg_tickets lg)) = xs @ ys \<Longrightarrow>
    length ys < k \<Longrightarrow> \<exists>items. follow k (paper_tickets toiso fromiso lg a limit status source since outc) (cursor_at toiso xs) = Some items \<and>
      map ti_row items = ys"
proof (induction k arbitrary: xs ys)
  case (Suc k)
  define n where "n = nat (max 1 (min limit MAX_PAGE))"
  have n: "0 < n" by (simp add: n_def)
  obtain p where p: "paper_tickets toiso fromiso lg a limit status source since outc (cursor_at toiso xs) = Reply p"
    "map ti_row (tp_items p) = take n ys" "tp_next p = (if length ys < n then None else cursor_at toiso (xs @ take n ys))"
    by (rule page_after [OF assms Suc.prems(1), where limit = limit]) (unfold n_def, blast)
  show ?case
  proof (cases "length ys < n")
    case True
    with p show ?thesis by simp
  next
    case False
    with n have ne: "take n ys \<noteq> []" by (cases ys) auto
    have "newest_first (filter (matches lg a since (map_option (\<lambda>s. [s]) status) source outc) (lg_tickets lg)) = (xs @ take n ys) @ drop n ys"
      using Suc.prems(1) by simp
    moreover have "length (drop n ys) < k" using False n Suc.prems(2) by simp
    ultimately obtain rest where "follow k (paper_tickets toiso fromiso lg a limit status source since outc) (cursor_at toiso (xs @ take n ys)) = Some rest"
      "map ti_row rest = drop n ys" using Suc.IH by blast
    with p False ne show ?thesis by (auto simp: cursor_at_def)
  qed
qed simp

text \<open>
  C28: A client that follows the cursors of the ledger page to the end has read every ticket of its filter exactly
  once, newest first, also where many share one second, and as many as the total each page announces, whatever
  the page size and the filters.
\<close>

theorem ledger_pages_complete:
  assumes "opt_holds (\<lambda>s. s \<in> set LEDGER_OUTCOMES) outc" "distinct (map tc_id (lg_tickets lg))"
    and "\<forall>t \<in> set (lg_tickets lg). CHR ''|'' \<notin> set (tc_id t)" "\<forall>ts. fromiso (toiso ts) = Some ts"
  shows "\<exists>items. follow (Suc (length (lg_tickets lg))) (paper_tickets toiso fromiso lg a limit status source since outc) None = Some items \<and>
    map ti_row items = newest_first (filter (matches lg a since (map_option (\<lambda>s. [s]) status) source outc) (lg_tickets lg)) \<and>
    length items = count_paper_tickets lg a since (map_option (\<lambda>s. [s]) status) source outc"
proof -
  let ?S = "newest_first (filter (matches lg a since (map_option (\<lambda>s. [s]) status) source outc) (lg_tickets lg))"
  have len: "length ?S = count_paper_tickets lg a since (map_option (\<lambda>s. [s]) status) source outc"
    by (simp add: newest_first_def count_matches)
  have "length ?S < Suc (length (lg_tickets lg))" by (simp add: newest_first_def le_imp_less_Suc)
  with assms obtain items where "follow (Suc (length (lg_tickets lg))) (paper_tickets toiso fromiso lg a limit status source since outc) (cursor_at toiso []) = Some items"
    "map ti_row items = ?S" using follow_rows [of outc lg fromiso toiso a since status source "[]" ?S "Suc (length (lg_tickets lg))" limit] by auto
  moreover from this(2) len have "length items = count_paper_tickets lg a since (map_option (\<lambda>s. [s]) status) source outc"
    by (metis length_map)
  ultimately show ?thesis by (auto simp: cursor_at_def)
qed

text \<open>Three tickets of one second, read two at a time.\<close>

definition sample_row :: "string \<Rightarrow> string \<Rightarrow> ticket_rec" where
  "sample_row tid status = \<lparr>tc_id = tid, tc_account = ''default'', tc_group = ''g'', tc_title = ''NYY at BOS'', tc_starts = None,
     tc_source = ''auto'', tc_status = status, tc_reason = None, tc_excluded = None, tc_stake = None, tc_profit = None,
     tc_edge = None, tc_submitted = 3\<rparr>"

definition sample_ledger :: ledger where
  "sample_ledger = \<lparr>lg_tickets = [sample_row ''b'' ''rejected'', sample_row ''a'' ''rejected'', sample_row ''c'' ''missed''],
     lg_orders = [], lg_fills = [], lg_settlements = []\<rparr>"

definition sample_iso :: "int \<Rightarrow> string" where
  "sample_iso ts = replicate (nat ts) CHR ''+'' @ replicate (nat (- ts)) CHR ''-''"

definition sample_fromiso :: "string \<Rightarrow> int option" where
  "sample_fromiso s = Some (int (length (filter (\<lambda>c. c = CHR ''+'') s)) - int (length (filter (\<lambda>c. c = CHR ''-'') s)))"

theorem ledger_pages_complete_witness:
  "\<exists>items. follow 4 (paper_tickets sample_iso sample_fromiso sample_ledger ''default'' 2 None None None (Some ''none'')) None = Some items \<and>
    map (tc_id \<circ> ti_row) items = [''c'', ''b'', ''a'']"
proof -
  have "opt_holds (\<lambda>s. s \<in> set LEDGER_OUTCOMES) (Some ''none'')" by (simp add: opt_holds_def LEDGER_OUTCOMES_def)
  moreover have "distinct (map tc_id (lg_tickets sample_ledger))" "\<forall>t \<in> set (lg_tickets sample_ledger). CHR ''|'' \<notin> set (tc_id t)"
    by (simp_all add: sample_ledger_def sample_row_def)
  moreover have "\<forall>ts. sample_fromiso (sample_iso ts) = Some ts" by (simp add: sample_fromiso_def sample_iso_def filter_replicate)
  ultimately obtain items where i: "follow (Suc (length (lg_tickets sample_ledger)))
      (paper_tickets sample_iso sample_fromiso sample_ledger ''default'' 2 None None None (Some ''none'')) None = Some items"
    "map ti_row items = newest_first (filter (matches sample_ledger ''default'' None None None (Some ''none'')) (lg_tickets sample_ledger))"
    using ledger_pages_complete [of "Some ''none''" sample_ledger sample_fromiso sample_iso "''default''" 2 None None None] by auto
  have "map tc_id (map ti_row items) = [''c'', ''b'', ''a'']" unfolding i(2) by code_simp
  moreover have "Suc (length (lg_tickets sample_ledger)) = 4" by (simp add: sample_ledger_def)
  ultimately show ?thesis using i(1) by (auto simp: comp_def)
qed

subsection \<open>Scores agree\<close>

definition row_open :: "(string \<Rightarrow> rat option) \<Rightarrow> joined_row \<Rightarrow> bool" where
  "row_open settled row \<longleftrightarrow> (case row of (_, Some r, Some f) \<Rightarrow> settled (oc_outcome r) = None | _ \<Rightarrow> True)"

definition row_gain :: "(string \<Rightarrow> rat option) \<Rightarrow> joined_row \<Rightarrow> rat" where
  "row_gain settled row = (case row of (_, Some r, Some f) \<Rightarrow>
     leg_gain (oc_is_buy r) (the (settled (oc_outcome r))) (fc_price f) (oc_qty r) (fc_fee f) | _ \<Rightarrow> 0)"

definition gains_of :: "(string \<Rightarrow> rat option) \<Rightarrow> string \<Rightarrow> joined_row list \<Rightarrow> rat list" where
  "gains_of settled tid rows = map (row_gain settled) (filter (\<lambda>row. fst row = tid \<and> \<not> row_open settled row) rows)"

lemma outcome_step_cases:
  "outcome_step settled row (profit, opn, seen) =
     (if row_open settled row then profit else dict_set (fst row) (dadd (dict_get 0 profit (fst row)) (row_gain settled row)) profit,
      if row_open settled row then List.insert (fst row) opn else opn, List.insert (fst row) seen)"
  by (cases row) (auto simp: outcome_step_def row_open_def row_gain_def Let_def split: option.splits)

lemma fold_outcome:
  assumes "fold (outcome_step settled) rows (profit, opn, seen) = (profit', opn', seen')"
  shows "set seen' = set seen \<union> fst ` set rows" "distinct seen \<Longrightarrow> distinct seen'"
    "set opn' = set opn \<union> fst ` {row \<in> set rows. row_open settled row}"
    "dict_get 0 profit' tid = foldl dadd (dict_get 0 profit tid) (gains_of settled tid rows)"
  using assms
proof (induction rows arbitrary: profit opn seen)
  case (Cons row rows)
  { case 1 show ?case using Cons.IH(1) [OF 1 [simplified, unfolded outcome_step_cases]] by auto }
  { case 2 from Cons.IH(2) [OF _ 2(2) [simplified, unfolded outcome_step_cases]] 2(1) show ?case by simp }
  { case 3 show ?case using Cons.IH(3) [OF 3 [simplified, unfolded outcome_step_cases]] by auto }
  { case 4 show ?case using Cons.IH(4) [OF 4 [simplified, unfolded outcome_step_cases]] by (auto simp: gains_of_def) }
qed (simp_all add: gains_of_def)

lemma order_rows_id: "row \<in> set (order_rows lg tid r) \<Longrightarrow> fst row = tid"
  by (cases "fills_of lg (oc_id r)") (auto simp: order_rows_def)

lemma order_rows_ne: "order_rows lg tid r \<noteq> []"
  by (cases "fills_of lg (oc_id r)") (auto simp: order_rows_def)

lemma ticket_rows_id: "row \<in> set (ticket_rows lg t) \<Longrightarrow> fst row = tc_id t"
  by (cases "orders_of lg (tc_id t)") (auto simp: ticket_rows_def dest: order_rows_id)

lemma ticket_rows_ne: "ticket_rows lg t \<noteq> []"
  by (cases "orders_of lg (tc_id t)") (simp_all add: ticket_rows_def order_rows_ne)

lemma rows_of_ticket:
  assumes "distinct (map tc_id ts)" "t \<in> set ts"
  shows "filter (\<lambda>row. fst row = tc_id t) (concat (map (ticket_rows lg) ts)) = ticket_rows lg t"
  using assms
proof (induction ts)
  case (Cons u ts)
  have none: "filter (\<lambda>row. fst row = tc_id t) (concat (map (ticket_rows lg) us)) = []" if "tc_id t \<notin> tc_id ` set us" for us
    using that by (force simp: filter_empty_conv dest: ticket_rows_id)
  show ?case
  proof (cases "t = u")
    case True
    with Cons.prems have "filter (\<lambda>row. fst row = tc_id t) (concat (map (ticket_rows lg) ts)) = []" by (intro none) auto
    moreover have "filter (\<lambda>row. fst row = tc_id t) (ticket_rows lg u) = ticket_rows lg u"
      using True by (auto simp: filter_id_conv dest: ticket_rows_id)
    ultimately show ?thesis using True by simp
  next
    case False
    with Cons.prems have "t \<in> set ts" "tc_id u \<notin> tc_id ` set ts" by simp_all
    then have "tc_id t \<noteq> tc_id u" by (metis imageI)
    have "filter (\<lambda>row. fst row = tc_id t) (ticket_rows lg u) = []"
      using \<open>tc_id t \<noteq> tc_id u\<close> by (auto simp: filter_empty_conv dest: ticket_rows_id)
    with Cons \<open>t \<in> set ts\<close> show ?thesis by simp
  qed
qed simp

definition ticket_open :: "ledger \<Rightarrow> ticket_rec \<Rightarrow> bool" where
  "ticket_open lg t \<longleftrightarrow> (\<exists>row \<in> set (ticket_rows lg t). row_open (settled_values lg) row)"

definition ticket_total :: "ledger \<Rightarrow> ticket_rec \<Rightarrow> rat" where
  "ticket_total lg t = foldl dadd 0 (map (row_gain (settled_values lg)) (ticket_rows lg t))"

lemma fst_image_open: "x \<in> fst ` {r \<in> A. P r} \<longleftrightarrow> (\<exists>r \<in> {r \<in> A. fst r = x}. P r)"
  by force

lemma ticket_outcomes_lookup:
  assumes "distinct (map tc_id (lg_tickets lg))" "t \<in> set (lg_tickets lg)" "ticket_filters a since (Some [''filled'']) None t"
  shows "map_of (ticket_outcomes lg a since) (tc_id t) = Some (if ticket_open lg t then ''open'' else outcome_name (ticket_total lg t))"
proof -
  let ?ts = "filter (ticket_filters a since (Some [''filled'']) None) (lg_tickets lg)"
  let ?rows = "concat (map (ticket_rows lg) ?ts)" and ?s = "settled_values lg"
  have t: "t \<in> set ?ts" "distinct (map tc_id ?ts)" using assms by (auto simp: distinct_map_filter)
  note mine = rows_of_ticket [OF t(2,1)]
  obtain profit opn seen where f: "fold (outcome_step ?s) ?rows ([], [], []) = (profit, opn, seen)" by (rule prod_cases3)
  have "set (filter (\<lambda>row. fst row = tc_id t) ?rows) = set (ticket_rows lg t)" unfolding mine ..
  then have rows: "{row \<in> set ?rows. fst row = tc_id t} = set (ticket_rows lg t)" by (simp only: set_filter)
  obtain row where "row \<in> set (ticket_rows lg t)" using ticket_rows_ne [of lg t] by (meson last_in_set)
  then have row: "row \<in> set ?rows" "fst row = tc_id t" unfolding rows [symmetric] by blast+
  then have "tc_id t \<in> set seen" unfolding fold_outcome(1) [OF f] by (metis UnCI imageI)
  moreover have "tc_id t \<in> set opn \<longleftrightarrow> (\<exists>row \<in> {row \<in> set ?rows. fst row = tc_id t}. row_open ?s row)"
    by (simp only: fold_outcome(3) [OF f] list.set Un_empty_left fst_image_open)
  then have "tc_id t \<in> set opn \<longleftrightarrow> ticket_open lg t" unfolding rows ticket_open_def .
  moreover have "dict_get 0 profit (tc_id t) = ticket_total lg t" if "\<not> ticket_open lg t"
  proof -
    have "filter (\<lambda>row. fst row = tc_id t \<and> \<not> row_open ?s row) ?rows =
        filter (\<lambda>row. \<not> row_open ?s row) (filter (\<lambda>row. fst row = tc_id t) ?rows)" by (simp add: conj_commute)
    also have "\<dots> = filter (\<lambda>row. \<not> row_open ?s row) (ticket_rows lg t)" by (simp only: mine)
    also have "\<dots> = ticket_rows lg t" using that by (simp add: ticket_open_def filter_id_conv)
    finally show ?thesis using fold_outcome(4) [OF f, of "tc_id t"] by (simp add: gains_of_def ticket_total_def)
  qed
  moreover have "?rows \<noteq> []" using row(1) by (metis empty_iff empty_set)
  ultimately show ?thesis by (simp add: ticket_outcomes_def Let_def f map_of_map_restrict restrict_map_def)
qed

lemma first_per_map:
  "map_of (map (\<lambda>x. (key x, f x)) (first_per key seen xs)) k = (if k \<in> set seen then None else map_of (map (\<lambda>x. (key x, f x)) xs) k)"
  by (induction key seen xs rule: first_per.induct) auto

lemma settled_None:
  "settled_values lg oid = None \<longleftrightarrow> oid \<notin> sc_outcome ` set (lg_settlements lg)"
  "latest_values lg oid = None \<longleftrightarrow> oid \<notin> sc_outcome ` set (lg_settlements lg)"
  by (simp_all add: settled_values_def latest_values_def list_paper_settlements_def first_per_map map_of_eq_None_iff image_image)

text \<open>No outcome is stored with two different results.\<close>

definition settled_once :: "ledger \<Rightarrow> bool" where
  "settled_once lg \<longleftrightarrow> (\<forall>s \<in> set (lg_settlements lg). \<forall>s' \<in> set (lg_settlements lg). sc_outcome s = sc_outcome s' \<longrightarrow> sc_value s = sc_value s')"

lemma settled_agree:
  assumes "settled_once lg"
  shows "settled_values lg oid = latest_values lg oid"
proof (cases "settled_values lg oid")
  case None
  then have "latest_values lg oid = None" using settled_None by blast
  with None show ?thesis by simp
next
  case (Some v)
  then have "latest_values lg oid \<noteq> None" using settled_None by (metis option.distinct(1))
  then obtain w where w: "latest_values lg oid = Some w" by blast
  from Some obtain s where "s \<in> set (lg_settlements lg)" "sc_outcome s = oid" "sc_value s = v"
    unfolding settled_values_def by (fastforce dest!: map_of_SomeD)
  moreover from w have "map_of (map (\<lambda>s. (sc_outcome s, sc_value s)) (sort_key (\<lambda>s. - sc_ts s) (lg_settlements lg))) oid = Some w"
    by (simp add: latest_values_def list_paper_settlements_def first_per_map)
  then obtain s' where "s' \<in> set (lg_settlements lg)" "sc_outcome s' = oid" "sc_value s' = w" by (fastforce dest!: map_of_SomeD)
  ultimately have "v = w" using assms unfolding settled_once_def by metis
  with Some w show ?thesis by simp
qed

lemma fills_by_order_lookup:
  "map_of (fills_by_order fs) oid = (let mine = filter (\<lambda>f. fc_order f = oid) fs in
     if mine = [] then None else Some (fc_price (last mine), foldl dadd 0 (map fc_fee mine)))"
proof (induction fs rule: rev_induct)
  case (snoc f fs)
  have "fills_by_order (fs @ [f]) = dict_set (fc_order f) (fc_price f, dadd (snd (dict_get (0, 0) (fills_by_order fs) (fc_order f))) (fc_fee f)) (fills_by_order fs)"
    by (simp add: fills_by_order_def)
  with snoc show ?case by (cases "oid = fc_order f") (auto simp: Let_def dict_get_def)
qed (simp add: fills_by_order_def)

definition legs_of :: "ledger \<Rightarrow> ticket_rec \<Rightarrow> leg_item list" where
  "legs_of lg t = map (leg_item_of (fills_by_order (lg_fills lg)) (latest_values lg))
     (sort_key (\<lambda>r. (oc_submitted r, oc_id r)) (orders_of lg (tc_id t)))"

lemma leg_item_cong: "map_of fills (oc_id r) = map_of fills' (oc_id r) \<Longrightarrow> leg_item_of fills s r = leg_item_of fills' s r"
  by (simp add: leg_item_of_def dict_get_def)

lemma fills_for_orders:
  assumes "r \<in> set ords"
  shows "leg_item_of (fills_by_order (filter (\<lambda>f. fc_order f \<in> set (map oc_id ords)) fs)) s r = leg_item_of (fills_by_order fs) s r"
proof (rule leg_item_cong)
  have "filter (\<lambda>f. fc_order f = oc_id r) (filter (\<lambda>f. fc_order f \<in> set (map oc_id ords)) fs) = filter (\<lambda>f. fc_order f = oc_id r) fs"
    unfolding filter_filter using assms by (intro filter_cong refl) auto
  then show "map_of (fills_by_order (filter (\<lambda>f. fc_order f \<in> set (map oc_id ords)) fs)) (oc_id r) = map_of (fills_by_order fs) (oc_id r)"
    by (simp only: fills_by_order_lookup)
qed

lemma hydrate_tickets_eq:
  "hydrate_tickets lg ts = map (\<lambda>t. \<lparr>ti_row = t, ti_realized = score_ticket (legs_of lg t) (latest_values lg), ti_legs = legs_of lg t\<rparr>) ts"
proof -
  define key where "key = (\<lambda>r :: order_rec. (oc_submitted r, oc_id r))"
  define ords where "ords = sort_key key (filter (\<lambda>r. \<exists>tid \<in> set (map tc_id ts). oc_ticket r = Some tid) (lg_orders lg))"
  define fills where "fills = fills_by_order (filter (\<lambda>f. fc_order f \<in> set (map oc_id ords)) (lg_fills lg))"
  have legs: "map (leg_item_of fills (latest_values lg)) (filter (\<lambda>r. oc_ticket r = Some (tc_id t)) ords) = legs_of lg t"
    if "t \<in> set ts" for t
  proof -
    have "filter (\<lambda>r. oc_ticket r = Some (tc_id t)) (filter (\<lambda>r. \<exists>tid \<in> set (map tc_id ts). oc_ticket r = Some tid) (lg_orders lg)) =
        orders_of lg (tc_id t)"
      unfolding orders_of_def filter_filter using that by (intro filter_cong refl) auto
    then have e: "filter (\<lambda>r. oc_ticket r = Some (tc_id t)) ords = sort_key key (orders_of lg (tc_id t))"
      by (simp only: ords_def filter_sort)
    moreover have "map (leg_item_of fills (latest_values lg)) (filter (\<lambda>r. oc_ticket r = Some (tc_id t)) ords) =
        map (leg_item_of (fills_by_order (lg_fills lg)) (latest_values lg)) (filter (\<lambda>r. oc_ticket r = Some (tc_id t)) ords)"
      unfolding fills_def by (intro map_cong refl fills_for_orders) simp
    ultimately show ?thesis by (simp only: legs_of_def key_def)
  qed
  show ?thesis
    unfolding hydrate_tickets_def Let_def ords_def [unfolded key_def, symmetric] by (intro map_cong refl) (simp only: legs [unfolded fills_def])
qed

lemma score_legs_None: "score_legs tot ls s = None \<longleftrightarrow> (\<exists>l \<in> set ls. li_fill l = None \<or> s (li_outcome l) = None)"
  by (induction ls arbitrary: tot) (auto split: option.splits)

lemma score_legs_Some:
  "\<forall>l \<in> set ls. li_fill l \<noteq> None \<and> s (li_outcome l) \<noteq> None \<Longrightarrow>
   score_legs tot ls s = Some (foldl dadd tot (map (\<lambda>l. leg_gain (li_is_buy l) (the (s (li_outcome l))) (the (li_fill l)) (li_qty l) (li_fee l)) ls))"
  by (induction ls arbitrary: tot) auto

lemma ticket_open_orders:
  "ticket_open lg t \<longleftrightarrow> orders_of lg (tc_id t) = [] \<or>
     (\<exists>r \<in> set (orders_of lg (tc_id t)). fills_of lg (oc_id r) = [] \<or> oc_outcome r \<notin> sc_outcome ` set (lg_settlements lg))"
proof -
  have "(\<exists>row \<in> set (order_rows lg tid r). row_open s row) \<longleftrightarrow> fills_of lg (oc_id r) = [] \<or> s (oc_outcome r) = None" for tid r s
    by (cases "fills_of lg (oc_id r)") (auto simp: order_rows_def row_open_def)
  note order = this
  have "(\<exists>row \<in> set (ticket_rows lg t). row_open s row) \<longleftrightarrow> orders_of lg (tc_id t) = [] \<or>
      (\<exists>r \<in> set (orders_of lg (tc_id t)). \<exists>row \<in> set (order_rows lg (tc_id t) r). row_open s row)" for s
    by (cases "orders_of lg (tc_id t)") (simp_all add: ticket_rows_def row_open_def bex_Un)
  from this [of "settled_values lg"] show ?thesis by (simp only: ticket_open_def order settled_None)
qed

lemma score_open: "score_ticket (legs_of lg t) (latest_values lg) = None \<longleftrightarrow> ticket_open lg t"
proof -
  have "li_fill (leg_item_of (fills_by_order (lg_fills lg)) s r) = None \<longleftrightarrow> fills_of lg (oc_id r) = []" for r s
    by (simp add: leg_item_of_def fills_by_order_lookup fills_of_def Let_def)
  moreover have "li_outcome (leg_item_of fs s r) = oc_outcome r" for fs s r by (simp add: leg_item_of_def)
  moreover have "sort_key k xs = [] \<longleftrightarrow> xs = []" for k :: "order_rec \<Rightarrow> int \<times> string" and xs by (metis length_0_conv length_sort)
  ultimately show ?thesis
    by (auto simp: score_ticket_def score_legs_None ticket_open_orders legs_of_def settled_None)
qed

text \<open>Sums of at most two representable gains do not depend on the order.\<close>

lemma dadd_two:
  assumes "mset xs = mset ys" "length xs \<le> 2" "\<forall>x \<in> set xs. dec_rep x"
  shows "foldl dadd 0 xs = foldl dadd 0 ys"
proof -
  from assms(2) consider "xs = []" | x where "xs = [x]" | x y where "xs = [x, y]"
    by (metis (no_types) One_nat_def Suc_1 le_Suc_eq le_zero_eq length_0_conv length_Suc_conv)
  then show ?thesis
  proof cases
    case (3 x y)
    moreover have "length ys = 2" using assms(1) 3 by (metis length_Cons list.size(3) mset_eq_length numeral_2_eq_2)
    then obtain u v where "ys = [u, v]" by (metis (no_types) Suc_1 length_0_conv length_Suc_conv One_nat_def)
    ultimately have "ys = [x, y] \<or> ys = [y, x]" using assms(1) by (auto simp: add_eq_conv_ex)
    with 3 assms(3) show ?thesis by (auto simp: dadd_def dec_rep_def add.commute)
  qed (use assms(1) in auto)
qed

text \<open>At most one fill per order, and fees of at most 28 digits, as the broker records them.\<close>

definition fills_plain :: "ledger \<Rightarrow> bool" where
  "fills_plain lg \<longleftrightarrow> distinct (map fc_order (lg_fills lg)) \<and> (\<forall>f \<in> set (lg_fills lg). dec_rep (fc_fee f))"

lemma single_fill:
  assumes "fills_plain lg" "fills_of lg oid \<noteq> []"
  obtains f where "fills_of lg oid = [f]" "dec_rep (fc_fee f)"
proof -
  from assms(2) obtain f fs where f: "fills_of lg oid = f # fs" by (cases "fills_of lg oid") auto
  have "distinct (map fc_order (fills_of lg oid))" using assms(1) by (simp add: fills_plain_def fills_of_def distinct_map_filter)
  moreover have "\<forall>g \<in> set (fills_of lg oid). fc_order g = oid \<and> dec_rep (fc_fee g)" using assms(1) by (auto simp: fills_of_def fills_plain_def)
  ultimately have d: "distinct (map fc_order (f # fs))" and g: "\<forall>g \<in> set (f # fs). fc_order g = oid \<and> dec_rep (fc_fee g)"
    by (simp_all only: f)
  have "fs = []"
  proof (cases fs)
    case (Cons h hs)
    with g have "fc_order h = fc_order f" by simp
    moreover from d Cons have "fc_order f \<noteq> fc_order h" by simp
    ultimately show ?thesis by metis
  qed
  moreover from g have "dec_rep (fc_fee f)" by simp
  ultimately show ?thesis using f by (intro that) simp_all
qed

lemma score_total:
  assumes "fills_plain lg" "settled_once lg" "length (orders_of lg (tc_id t)) \<le> 2" "\<not> ticket_open lg t"
  shows "score_ticket (legs_of lg t) (latest_values lg) = Some (ticket_total lg t)"
proof -
  let ?os = "orders_of lg (tc_id t)" and ?s = "latest_values lg" and ?fb = "fills_by_order (lg_fills lg)"
  let ?gain = "\<lambda>l. leg_gain (li_is_buy l) (the (?s (li_outcome l))) (the (li_fill l)) (li_qty l) (li_fee l)"
  let ?g = "\<lambda>r. row_gain ?s (tc_id t, Some r, Some (hd (fills_of lg (oc_id r))))"
  have s: "settled_values lg = ?s" using settled_agree [OF assms(2)] by blast
  from assms(4) have ne: "?os \<noteq> []" and ok: "\<forall>r \<in> set ?os. fills_of lg (oc_id r) \<noteq> [] \<and> ?s (oc_outcome r) \<noteq> None"
    by (auto simp: ticket_open_orders settled_None)
  have rows: "order_rows lg (tc_id t) r = [(tc_id t, Some r, Some (hd (fills_of lg (oc_id r))))]" and
    item: "?gain (leg_item_of ?fb ?s r) = ?g r" "li_fill (leg_item_of ?fb ?s r) \<noteq> None" if "r \<in> set ?os" for r
  proof -
    from ok that have "fills_of lg (oc_id r) \<noteq> []" by blast
    from single_fill [OF assms(1) this] obtain f where f: "fills_of lg (oc_id r) = [f]" "dec_rep (fc_fee f)" by metis
    then have look: "map_of ?fb (oc_id r) = Some (fc_price f, fc_fee f)"
      by (simp add: fills_by_order_lookup fills_of_def dadd_0)
    show "order_rows lg (tc_id t) r = [(tc_id t, Some r, Some (hd (fills_of lg (oc_id r))))]" by (simp add: order_rows_def f)
    show "?gain (leg_item_of ?fb ?s r) = ?g r" by (simp add: leg_item_of_def look row_gain_def f dict_get_def)
    show "li_fill (leg_item_of ?fb ?s r) \<noteq> None" by (simp add: leg_item_of_def look)
  qed
  let ?sorted = "sort_key (\<lambda>r. (oc_submitted r, oc_id r)) ?os"
  have "concat (map (order_rows lg (tc_id t)) ?os) = map (\<lambda>r. (tc_id t, Some r, Some (hd (fills_of lg (oc_id r))))) ?os"
    using rows by (simp add: concat_map_singleton cong: map_cong)
  then have "ticket_rows lg t = map (\<lambda>r. (tc_id t, Some r, Some (hd (fills_of lg (oc_id r))))) ?os"
    using ne by (cases ?os) (simp_all add: ticket_rows_def)
  then have total: "ticket_total lg t = foldl dadd 0 (map ?g ?os)" by (simp add: ticket_total_def s comp_def)
  have "\<forall>l \<in> set (legs_of lg t). li_fill l \<noteq> None \<and> ?s (li_outcome l) \<noteq> None"
    using ok item(2) by (auto simp: legs_of_def leg_item_of_def)
  then have "score_legs 0 (legs_of lg t) ?s = Some (foldl dadd 0 (map ?gain (legs_of lg t)))" by (rule score_legs_Some)
  also have "map ?gain (legs_of lg t) = map ?g ?sorted" using item(1) by (simp add: legs_of_def)
  also have "foldl dadd 0 (map ?g ?sorted) = foldl dadd 0 (map ?g ?os)"
  proof (rule dadd_two)
    show "mset (map ?g ?sorted) = mset (map ?g ?os)" by simp
    show "length (map ?g ?sorted) \<le> 2" using assms(3) by simp
    have "dec_rep (row_gain s (tid, Some r, Some f))" for s tid r f by (simp add: row_gain_def leg_gain_def)
    then show "\<forall>x \<in> set (map ?g ?sorted). dec_rep x" by simp
  qed
  also note total [symmetric]
  finally have "score_legs 0 (legs_of lg t) ?s = Some (ticket_total lg t)" .
  moreover have "length (legs_of lg t) = length ?os" by (simp add: legs_of_def)
  then have "legs_of lg t \<noteq> []" using ne by fastforce
  ultimately show ?thesis by (simp only: score_ticket_def if_False)
qed

text \<open>
  C29: The settlement outcome the ledger filters by, computed by a join over fills, is the outcome the page itself
  shows for that ticket, computed from its hydrated legs: open exactly while some leg lacks a fill or a
  settlement, won, lost or flat by the sign of the same profit otherwise.
\<close>

theorem ledger_scores_agree:
  assumes "distinct (map tc_id (lg_tickets lg))" "fills_plain lg" "settled_once lg"
    and "\<forall>t \<in> set (lg_tickets lg). length (orders_of lg (tc_id t)) \<le> 2"
    and "x \<in> set (list_paper_tickets lg a limit status source since outc cursor)" "tc_status (ti_row x) = ''filled''"
  shows "map_of (ticket_outcomes lg a since) (tc_id (ti_row x)) = Some (ticket_outcome ''filled'' (ti_realized x))"
proof -
  let ?t = "ti_row x"
  from assms(5) obtain ts where x: "x \<in> set (hydrate_tickets lg ts)" 
    "set ts \<subseteq> {t \<in> set (lg_tickets lg). ticket_filters a since status source t}"
    by (force simp: list_paper_tickets_def newest_first_def split: option.splits dest: in_set_takeD)
  then have t: "?t \<in> set (lg_tickets lg)" "ticket_filters a since status source ?t"
    "ti_realized x = score_ticket (legs_of lg ?t) (latest_values lg)" by (auto simp: hydrate_tickets_eq)
  then have "ticket_filters a since (Some [''filled'']) None ?t" using assms(6) by (simp add: ticket_filters_def opt_holds_def)
  note look = ticket_outcomes_lookup [OF assms(1) t(1) this]
  show ?thesis
  proof (cases "ticket_open lg ?t")
    case True
    then have "ti_realized x = None" unfolding t(3) score_open .
    with True look show ?thesis by (simp add: ticket_outcome_def)
  next
    case False
    then have "ti_realized x = Some (ticket_total lg ?t)" unfolding t(3) using assms(2-4) t(1) by (intro score_total) auto
    with False look show ?thesis by (simp add: ticket_outcome_def outcome_name_def)
  qed
qed

text \<open>A winning hedge of two orders, and a second ticket with a leg that is not settled yet.\<close>

definition sample_order :: "string \<Rightarrow> string \<Rightarrow> string \<Rightarrow> rat \<Rightarrow> order_rec" where
  "sample_order oid tid outc q = \<lparr>oc_id = oid, oc_account = ''default'', oc_venue = ''kalshi'', oc_outcome = outc, oc_is_buy = True,
     oc_qty = q, oc_limit = 1 / 2, oc_status = ''filled'', oc_submitted = 3, oc_ticket = Some tid, oc_reason = None\<rparr>"

definition sample_fill :: "string \<Rightarrow> rat \<Rightarrow> fill_rec" where
  "sample_fill oid p = \<lparr>fc_order = oid, fc_qty = 10, fc_price = p, fc_fee = 1 / 10\<rparr>"

definition scored_ledger :: ledger where
  "scored_ledger = \<lparr>lg_tickets = [sample_row ''a'' ''filled'', sample_row ''b'' ''filled''],
     lg_orders = [sample_order ''1'' ''a'' ''x'' 10, sample_order ''2'' ''a'' ''y'' 10, sample_order ''3'' ''b'' ''z'' 10],
     lg_fills = [sample_fill ''1'' (2 / 5), sample_fill ''2'' (1 / 2), sample_fill ''3'' (1 / 2)],
     lg_settlements = [\<lparr>sc_outcome = ''x'', sc_value = 1, sc_ts = 5, sc_source = ''auto''\<rparr>,
       \<lparr>sc_outcome = ''y'', sc_value = 0, sc_ts = 5, sc_source = ''auto''\<rparr>]\<rparr>"

theorem ledger_scores_agree_witness:
  "\<exists>x y. list_paper_tickets scored_ledger ''default'' 5 None None None None None = [x, y] \<and> ti_realized y = Some (4 / 5) \<and>
    map_of (ticket_outcomes scored_ledger ''default'' None) ''a'' = Some ''won'' \<and>
    map_of (ticket_outcomes scored_ledger ''default'' None) ''b'' = Some (ticket_outcome ''filled'' (ti_realized x))"
proof -
  have shown: "map (\<lambda>x. (tc_id (ti_row x), tc_status (ti_row x), ti_realized x)) (list_paper_tickets scored_ledger ''default'' 5 None None None None None) =
      [(''b'', ''filled'', None), (''a'', ''filled'', Some (4 / 5))]" by code_simp
  then obtain x y where xy: "list_paper_tickets scored_ledger ''default'' 5 None None None None None = [x, y]" by (auto simp: map_eq_Cons_conv)
  have tens: "on_grid 1 (1 / 10)" by (simp add: on_grid_def)
  have "dec_rep (1 / 10)" by (rule dec_rep_grid [OF tens]) simp
  then have plain: "fills_plain scored_ledger" by (simp add: fills_plain_def scored_ledger_def sample_fill_def)
  have once: "settled_once scored_ledger" by (simp add: settled_once_def scored_ledger_def)
  have ids: "distinct (map tc_id (lg_tickets scored_ledger))" by (simp add: scored_ledger_def sample_row_def)
  have two: "\<forall>t \<in> set (lg_tickets scored_ledger). length (orders_of scored_ledger (tc_id t)) \<le> 2"
    by (simp add: scored_ledger_def orders_of_def sample_row_def sample_order_def)
  have "map_of (ticket_outcomes scored_ledger ''default'' None) (tc_id (ti_row z)) = Some (ticket_outcome ''filled'' (ti_realized z))"
    if "z \<in> {x, y}" for z
    by (rule ledger_scores_agree [OF ids plain once two, of z "''default''" 5 None None None None None]) (use that xy shown in auto)
  from this [of x] this [of y] xy shown show ?thesis by (auto simp: ticket_outcome_def)
qed

subsection \<open>The open count\<close>

lemma row_open_settled:
  "row_open (settled_values lg) row \<longleftrightarrow>
     (case row of (_, Some r, Some f) \<Rightarrow> oc_outcome r \<notin> set (map sc_outcome (lg_settlements lg)) | _ \<Rightarrow> True)"
  by (cases row) (auto simp: row_open_def settled_None split: option.split)

lemma count_open_eq:
  assumes "distinct (map tc_id (lg_tickets lg))"
  shows "count_open_paper_tickets lg a =
    length (filter (\<lambda>t. tc_account t = a \<and> tc_status t = ''filled'' \<and> ticket_open lg t) (lg_tickets lg))"
proof -
  let ?ts = "filter (\<lambda>t. tc_account t = a \<and> tc_status t = ''filled'') (lg_tickets lg)"
  have "{row \<in> set (concat (map (ticket_rows lg) ?ts)). row_open (settled_values lg) row} =
      (\<Union>t \<in> set ?ts. {row \<in> set (ticket_rows lg t). row_open (settled_values lg) row})" by auto
  moreover have "fst ` {row \<in> set (ticket_rows lg t). row_open (settled_values lg) row} = (if ticket_open lg t then {tc_id t} else {})" for t
  proof -
    have "fst ` {row \<in> set (ticket_rows lg t). row_open (settled_values lg) row} \<subseteq> {tc_id t}" using ticket_rows_id by fastforce
    moreover have "{row \<in> set (ticket_rows lg t). row_open (settled_values lg) row} = {} \<longleftrightarrow> \<not> ticket_open lg t" by (auto simp: ticket_open_def)
    ultimately show ?thesis by (cases "ticket_open lg t") (force, simp)
  qed
  ultimately have "fst ` {row \<in> set (concat (map (ticket_rows lg) ?ts)). row_open (settled_values lg) row} =
      (\<Union>t \<in> set ?ts. if ticket_open lg t then {tc_id t} else {})" by (simp only: image_UN)
  also have "\<dots> = set (map tc_id (filter (ticket_open lg) ?ts))" by (auto split: if_splits)
  finally have rows: "fst ` {row \<in> set (concat (map (ticket_rows lg) ?ts)). row_open (settled_values lg) row} = set (map tc_id (filter (ticket_open lg) ?ts))" .
  have "(\<lambda>(tid, _, _). tid) = (fst :: joined_row \<Rightarrow> string)" by (auto simp: fun_eq_iff)
  then have "count_open_paper_tickets lg a = card (set (map tc_id (filter (ticket_open lg) ?ts)))"
    unfolding count_open_paper_tickets_def Let_def rows [symmetric] row_open_settled by (simp only:)
  also have "\<dots> = length (filter (ticket_open lg) ?ts)"
    using assms by (subst distinct_card) (simp_all add: distinct_map_filter)
  finally show ?thesis by (simp add: conj_ac)
qed

lemma ticket_outcomes_keys:
  "distinct (map fst (ticket_outcomes lg a since))"
  "set (map fst (ticket_outcomes lg a since)) \<subseteq> tc_id ` {t \<in> set (lg_tickets lg). ticket_filters a since (Some [''filled'']) None t}"
proof -
  let ?rows = "concat (map (ticket_rows lg) (filter (ticket_filters a since (Some [''filled'']) None) (lg_tickets lg)))"
  obtain profit opn seen where f: "fold (outcome_step (settled_values lg)) ?rows ([], [], []) = (profit, opn, seen)" by (rule prod_cases3)
  have keys: "map fst (ticket_outcomes lg a since) = (if ?rows = [] then [] else seen)"
    unfolding ticket_outcomes_def Let_def f prod.case by (simp only: if_distrib [of "map fst"] list.map map_map comp_def fst_conv map_ident)
  show "distinct (map fst (ticket_outcomes lg a since))" unfolding keys using fold_outcome(2) [OF f] by simp
  have "set seen = fst ` set ?rows" using fold_outcome(1) [OF f] by simp
  also have "\<dots> \<subseteq> tc_id ` {t \<in> set (lg_tickets lg). ticket_filters a since (Some [''filled'']) None t}"
    using ticket_rows_id by fastforce
  finally show "set (map fst (ticket_outcomes lg a since)) \<subseteq> tc_id ` {t \<in> set (lg_tickets lg). ticket_filters a since (Some [''filled'']) None t}"
    unfolding keys by simp
qed

lemma open_ids:
  assumes "distinct (map tc_id (lg_tickets lg))" "t \<in> set (lg_tickets lg)"
  shows "tc_id t \<in> set (ids_for_outcome lg a since ''open'') \<longleftrightarrow> ticket_filters a since (Some [''filled'']) None t \<and> ticket_open lg t"
proof (cases "ticket_filters a since (Some [''filled'']) None t")
  case True
  have "tc_id t \<in> set (ids_for_outcome lg a since ''open'') \<longleftrightarrow> (tc_id t, ''open'') \<in> set (ticket_outcomes lg a since)"
    by (force simp: ids_for_outcome_def)
  also have "\<dots> \<longleftrightarrow> map_of (ticket_outcomes lg a since) (tc_id t) = Some ''open''" using ticket_outcomes_keys(1) by simp
  also have "\<dots> \<longleftrightarrow> ticket_open lg t" unfolding ticket_outcomes_lookup [OF assms True] by (simp add: outcome_name_def)
  finally show ?thesis using True by simp
next
  case False
  have "tc_id t \<notin> set (map fst (ticket_outcomes lg a since))"
  proof
    assume "tc_id t \<in> set (map fst (ticket_outcomes lg a since))"
    from subsetD [OF ticket_outcomes_keys(2) this]
    obtain u where "u \<in> set (lg_tickets lg)" "ticket_filters a since (Some [''filled'']) None u" "tc_id u = tc_id t"
      by (elim imageE CollectE conjE) metis
    moreover have "inj_on tc_id (set (lg_tickets lg))" using assms(1) by (simp add: distinct_map)
    ultimately have "u = t" using assms(2) by (intro inj_onD [of tc_id "set (lg_tickets lg)"])
    then show False using False \<open>ticket_filters a since (Some [''filled'']) None u\<close> by simp
  qed
  then show ?thesis using False by (auto simp: ids_for_outcome_def image_iff)
qed

lemma length_filter_split: "length (filter P xs) = length (filter (\<lambda>x. P x \<and> Q x) xs) + length (filter (\<lambda>x. P x \<and> \<not> Q x) xs)"
  by (induction xs) auto

text \<open>
  The number of open tickets the performance report shows is the number the ledger itself counts under its
  filter for open tickets, plus the open tickets that are withheld from every other figure.
\<close>

theorem open_count_splits:
  assumes "distinct (map tc_id (lg_tickets lg))"
  shows "count_open_paper_tickets lg a = count_paper_tickets lg a None None None (Some ''open'') +
    length (filter (\<lambda>t. tc_account t = a \<and> tc_status t = ''filled'' \<and> tc_excluded t \<noteq> None \<and> ticket_open lg t) (lg_tickets lg))"
proof -
  have "matches lg a None None None (Some ''open'') t \<longleftrightarrow>
      (tc_account t = a \<and> tc_status t = ''filled'' \<and> ticket_open lg t) \<and> tc_excluded t = None" if "t \<in> set (lg_tickets lg)" for t
    using open_ids [OF assms that, of a None]
    by (auto simp: matches_def outcome_clause_def Let_def ticket_filters_def opt_holds_def)
  then have "count_paper_tickets lg a None None None (Some ''open'') = length (filter (\<lambda>t. (tc_account t = a \<and> tc_status t = ''filled'' \<and>
      ticket_open lg t) \<and> tc_excluded t = None) (lg_tickets lg))" by (simp add: count_matches cong: filter_cong)
  then show ?thesis
    using length_filter_split [of "\<lambda>t. tc_account t = a \<and> tc_status t = ''filled'' \<and> ticket_open lg t" "lg_tickets lg" "\<lambda>t. tc_excluded t = None"]
    by (simp add: count_open_eq [OF assms] conj_ac)
qed

theorem open_count_splits_witness:
  "count_open_paper_tickets scored_ledger ''default'' = 1 \<and> count_paper_tickets scored_ledger ''default'' None None None (Some ''open'') = 1"
proof -
  have "distinct (map tc_id (lg_tickets scored_ledger))" by (simp add: scored_ledger_def sample_row_def)
  from open_count_splits [OF this, of "''default''"]
  have "count_open_paper_tickets scored_ledger ''default'' = count_paper_tickets scored_ledger ''default'' None None None (Some ''open'')"
    by (simp add: scored_ledger_def sample_row_def)
  moreover have "count_paper_tickets scored_ledger ''default'' None None None (Some ''open'') = 1" by code_simp
  ultimately show ?thesis by simp
qed

end
