(* ===== verification/Database.thy ===== *)
theory Database
  imports Discovery Ledger Access
begin

section \<open>The database and the persistence sink\<close>

text \<open>
  The tables of \<open>arbys/db/models.py\<close> with their primary keys, unique constraints and foreign keys, the functions
  of \<open>arbys/db/repositories.py\<close> that write and read them, the transaction of \<open>arbys/db/session.py\<close> and the sink of
  \<open>arbys/shared/persistence.py\<close>. A function that inserts a row ends in \<open>IntegrityError\<close> where a constraint
  does not allow it; the statements of a transaction run in the order they are issued. A surrogate key no
  other row refers to is left out. \<open>num\<close> is what a decimal becomes in a column of type \<open>NUM\<close>,
  \<open>now\<close> the server's clock. Lengths of text columns are not checked.
\<close>

datatype db_error = IntegrityError | MultipleResultsFound

type_synonym 'a db_res = "db_error + 'a"

record venue_row =
  vw_id :: string
  vw_name :: string
  vw_kind :: string

record market_row =
  mw_id :: string
  mw_venue :: string
  mw_native :: string
  mw_title :: string
  mw_kind :: string

record outcome_row =
  ow_id :: string
  ow_market :: string
  ow_label :: string

record group_row =
  gw_id :: string
  gw_title :: string
  gw_start :: "py_datetime option"
  gw_source :: string

record group_leg_row =
  ew_group :: string
  ew_outcome :: string
  ew_yes :: bool
  ew_resolution :: "string option"

record quote_row =
  qw_outcome :: string
  qw_bid :: rat
  qw_ask :: rat
  qw_bid_size :: "rat option"
  qw_ask_size :: "rat option"

record opportunity_row =
  pw_group :: string
  pw_detected :: int
  pw_legs :: "arb_leg list"
  pw_stake :: rat
  pw_profit :: rat
  pw_bps :: rat
  pw_status :: string

record account_row =
  aw_id :: string
  aw_name :: string

record balance_row =
  bw_account :: string
  bw_venue :: string
  bw_amount :: rat

record position_row =
  xw_account :: string
  xw_venue :: string
  xw_outcome :: string
  xw_qty :: rat
  xw_avg :: rat
  xw_realized :: rat
  xw_fees :: rat

record transfer_row =
  tw_account :: string
  tw_from :: string
  tw_to :: string
  tw_amount :: rat
  tw_source :: string

record snapshot_row =
  nw_account :: string
  nw_ts :: int
  nw_cash :: rat
  nw_mtm :: rat
  nw_equity :: rat

record database = ledger +
  db_venues :: "venue_row list"
  db_markets :: "market_row list"
  db_outcomes :: "outcome_row list"
  db_groups :: "group_row list"
  db_legs :: "group_leg_row list"
  db_quotes :: "quote_row list"
  db_opps :: "opportunity_row list"
  db_accounts :: "account_row list"
  db_balances :: "balance_row list"
  db_positions :: "position_row list"
  db_transfers :: "transfer_row list"
  db_snapshots :: "snapshot_row list"

definition require :: "bool \<Rightarrow> database \<Rightarrow> database db_res" where
  "require c d = (if c then Inr d else Inl IntegrityError)"

subsection \<open>Reference data and groups\<close>

definition ensure_venue :: "string \<Rightarrow> string \<Rightarrow> string \<Rightarrow> database \<Rightarrow> database" where
  "ensure_venue v nm kind d = (if v \<in> vw_id ` set (db_venues d) then d
     else d\<lparr>db_venues := db_venues d @ [\<lparr>vw_id = v, vw_name = nm, vw_kind = kind\<rparr>]\<rparr>)"

definition placeholder_id :: "string \<Rightarrow> string" where
  "placeholder_id oid = ''placeholder:'' @ oid"

definition insert_market :: "market_row \<Rightarrow> database \<Rightarrow> database db_res" where
  "insert_market r d = require (mw_venue r \<in> vw_id ` set (db_venues d) \<and> mw_id r \<notin> mw_id ` set (db_markets d) \<and>
       (mw_venue r, mw_native r) \<notin> (\<lambda>m. (mw_venue m, mw_native m)) ` set (db_markets d))
     (d\<lparr>db_markets := db_markets d @ [r]\<rparr>)"

definition insert_outcome :: "outcome_row \<Rightarrow> database \<Rightarrow> database db_res" where
  "insert_outcome r d = require (ow_market r \<in> mw_id ` set (db_markets d) \<and> ow_id r \<notin> ow_id ` set (db_outcomes d) \<and>
       (ow_market r, ow_label r) \<notin> (\<lambda>u. (ow_market u, ow_label u)) ` set (db_outcomes d))
     (d\<lparr>db_outcomes := db_outcomes d @ [r]\<rparr>)"

definition ensure_outcome_placeholder :: "string \<Rightarrow> string \<Rightarrow> database \<Rightarrow> database db_res" where
  "ensure_outcome_placeholder oid v d =
     (if oid \<in> ow_id ` set (db_outcomes d) then Inr d
      else bindE (if placeholder_id oid \<in> mw_id ` set (db_markets d) then Inr d
          else insert_market \<lparr>mw_id = placeholder_id oid, mw_venue = v, mw_native = oid,
            mw_title = ''auto-placeholder for '' @ oid, mw_kind = ''binary''\<rparr> d)
        (insert_outcome \<lparr>ow_id = oid, ow_market = placeholder_id oid, ow_label = oid\<rparr>))"

definition insert_leg :: "group_leg_row \<Rightarrow> database \<Rightarrow> database db_res" where
  "insert_leg r d = require (ew_group r \<in> gw_id ` set (db_groups d) \<and> ew_outcome r \<in> ow_id ` set (db_outcomes d) \<and>
       (ew_group r, ew_outcome r) \<notin> (\<lambda>l. (ew_group l, ew_outcome l)) ` set (db_legs d))
     (d\<lparr>db_legs := db_legs d @ [r]\<rparr>)"

definition store_leg :: "event_group \<Rightarrow> event_group_leg \<Rightarrow> database \<Rightarrow> database db_res" where
  "store_leg g l d = bindE (ensure_outcome_placeholder (leg_outcome l) (leg_venue l) d)
     (insert_leg \<lparr>ew_group = g_id g, ew_outcome = leg_outcome l, ew_yes = is_yes_side l,
        ew_resolution = map_of (resolution_source_by_venue g) (leg_venue l)\<rparr>)"

definition merge_group :: "event_group \<Rightarrow> group_row \<Rightarrow> group_row" where
  "merge_group g r = r\<lparr>gw_title := g_title g, gw_source := g_source g,
     gw_start := (case start_time g of None \<Rightarrow> gw_start r | Some t \<Rightarrow> Some t)\<rparr>"

definition upsert_group_rows :: "event_group \<Rightarrow> database \<Rightarrow> database db_res" where
  "upsert_group_rows g d =
     (let d1 = (if g_id g \<in> gw_id ` set (db_groups d)
          then d\<lparr>db_groups := map (\<lambda>r. if gw_id r = g_id g then merge_group g r else r) (db_groups d)\<rparr>
          else d\<lparr>db_groups := db_groups d @ [\<lparr>gw_id = g_id g, gw_title = g_title g, gw_start = start_time g, gw_source = g_source g\<rparr>]\<rparr>)
      in foldE (store_leg g) (g_legs g) (d1\<lparr>db_legs := filter (\<lambda>l. ew_group l \<noteq> g_id g) (db_legs d1)\<rparr>))"

definition delete_event_group :: "string \<Rightarrow> database \<Rightarrow> database" where
  "delete_event_group gid d = d\<lparr>db_legs := filter (\<lambda>l. ew_group l \<noteq> gid) (db_legs d),
     db_groups := filter (\<lambda>r. gw_id r \<noteq> gid) (db_groups d)\<rparr>"

text \<open>The join of a leg with its outcome and the venue of the outcome's market.\<close>

definition leg_venues :: "database \<Rightarrow> group_leg_row \<Rightarrow> string list" where
  "leg_venues d l = concat (map (\<lambda>u. map mw_venue (filter (\<lambda>m. mw_id m = ow_market u) (db_markets d)))
     (filter (\<lambda>u. ow_id u = ew_outcome l) (db_outcomes d)))"

definition stored_legs :: "database \<Rightarrow> string \<Rightarrow> event_group_leg list" where
  "stored_legs d gid = concat (map (\<lambda>l. map (\<lambda>v. \<lparr>leg_outcome = ew_outcome l, leg_venue = v, is_yes_side = ew_yes l\<rparr>) (leg_venues d l))
     (filter (\<lambda>l. ew_group l = gid) (db_legs d)))"

definition list_event_groups :: "database \<Rightarrow> event_group list" where
  "list_event_groups d = map (\<lambda>r. \<lparr>g_id = gw_id r, g_title = gw_title r, resolution_source_by_venue = [],
     g_legs = stored_legs d (gw_id r), start_time = gw_start r, in_play = None, ended = None, g_source = gw_source r\<rparr>) (db_groups d)"

subsection \<open>Quotes and opportunities\<close>

definition insert_quote :: "(rat \<Rightarrow> rat) \<Rightarrow> quote \<Rightarrow> database \<Rightarrow> database db_res" where
  "insert_quote num q d = require (q_outcome_id q \<in> ow_id ` set (db_outcomes d)) (d\<lparr>db_quotes := db_quotes d @
     [\<lparr>qw_outcome = q_outcome_id q, qw_bid = num (bid q), qw_ask = num (ask q), qw_bid_size = map_option num (bid_size q),
       qw_ask_size = map_option num (ask_size q)\<rparr>]\<rparr>)"

definition insert_opportunity :: "(rat \<Rightarrow> rat) \<Rightarrow> int \<Rightarrow> arb_opportunity \<Rightarrow> database \<Rightarrow> database" where
  "insert_opportunity num now opp d = d\<lparr>db_opps := db_opps d @ [\<lparr>pw_group = opp_group opp, pw_detected = now, pw_legs = opp_legs opp,
     pw_stake = num (total_stake opp), pw_profit = num (guaranteed_profit opp), pw_bps = num (guaranteed_profit_bps opp),
     pw_status = ''open''\<rparr>]\<rparr>"

definition list_recent_opportunities :: "nat \<Rightarrow> database \<Rightarrow> opportunity_row list" where
  "list_recent_opportunities limit d = take limit (sort_key (\<lambda>r. - pw_detected r) (db_opps d))"

subsection \<open>Paper trading\<close>

definition has_account :: "database \<Rightarrow> string \<Rightarrow> bool" where
  "has_account d a \<longleftrightarrow> a \<in> aw_id ` set (db_accounts d)"

definition has_venue :: "database \<Rightarrow> string \<Rightarrow> bool" where
  "has_venue d v \<longleftrightarrow> v \<in> vw_id ` set (db_venues d)"

definition ensure_paper_account :: "string \<Rightarrow> string option \<Rightarrow> database \<Rightarrow> database db_res" where
  "ensure_paper_account a nm d = (let nm = (case set_value nm of None \<Rightarrow> a | Some n \<Rightarrow> n) in
     if has_account d a then Inr d
     else require (nm \<notin> aw_name ` set (db_accounts d)) (d\<lparr>db_accounts := db_accounts d @ [\<lparr>aw_id = a, aw_name = nm\<rparr>]\<rparr>))"

text \<open>
  \<open>scalar_one_or_none\<close> and the update of the row found: no row inserts one, one row is replaced in place, more are an
  error.
\<close>

definition upsert_row :: "('r \<Rightarrow> bool) \<Rightarrow> ('r \<Rightarrow> 'r) \<Rightarrow> 'r \<Rightarrow> bool \<Rightarrow> 'r list \<Rightarrow> 'r list db_res" where
  "upsert_row same upd new allowed rows = (case filter same rows of
     [] \<Rightarrow> (if allowed then Inr (rows @ [new]) else Inl IntegrityError)
   | [_] \<Rightarrow> Inr (map (\<lambda>r. if same r then upd r else r) rows)
   | _ \<Rightarrow> Inl MultipleResultsFound)"

definition upsert_paper_balance :: "(rat \<Rightarrow> rat) \<Rightarrow> string \<Rightarrow> string \<Rightarrow> rat \<Rightarrow> database \<Rightarrow> database db_res" where
  "upsert_paper_balance num a v amount d =
     bindE (upsert_row (\<lambda>r. bw_account r = a \<and> bw_venue r = v) (\<lambda>r. r\<lparr>bw_amount := num amount\<rparr>)
       \<lparr>bw_account = a, bw_venue = v, bw_amount = num amount\<rparr> (has_account d a \<and> has_venue d v) (db_balances d))
     (\<lambda>rows. Inr (d\<lparr>db_balances := rows\<rparr>))"

definition insert_paper_order :: "(rat \<Rightarrow> rat) \<Rightarrow> int \<Rightarrow> string \<Rightarrow> order \<Rightarrow> string option \<Rightarrow> database \<Rightarrow> database db_res" where
  "insert_paper_order num now a ord reason d =
     bindE (ensure_outcome_placeholder (ord_outcome ord) (ord_venue ord) d) (\<lambda>d.
     require (ord_id ord \<notin> oc_id ` set (lg_orders d) \<and> has_account d a \<and> has_venue d (ord_venue ord) \<and>
         ord_outcome ord \<in> ow_id ` set (db_outcomes d) \<and> opt_holds (\<lambda>t. t \<in> tc_id ` set (lg_tickets d)) (ord_ticket ord))
       (d\<lparr>lg_orders := lg_orders d @ [\<lparr>oc_id = ord_id ord, oc_account = a, oc_venue = ord_venue ord, oc_outcome = ord_outcome ord,
          oc_is_buy = ord_is_buy ord, oc_qty = num (ord_qty ord), oc_limit = num (ord_limit ord), oc_status = status_str (ord_status ord),
          oc_submitted = now, oc_ticket = ord_ticket ord, oc_reason = reason\<rparr>]\<rparr>))"

definition insert_paper_fill :: "(rat \<Rightarrow> rat) \<Rightarrow> string \<Rightarrow> fill \<Rightarrow> database \<Rightarrow> database db_res" where
  "insert_paper_fill num oid f d = require (oid \<in> oc_id ` set (lg_orders d)) (d\<lparr>lg_fills := lg_fills d @
     [\<lparr>fc_order = oid, fc_qty = num (fill_qty f), fc_price = num (fill_price f), fc_fee = num (fill_fee f)\<rparr>]\<rparr>)"

definition insert_paper_ticket :: "ticket_rec \<Rightarrow> database \<Rightarrow> database db_res" where
  "insert_paper_ticket t d = require (tc_id t \<notin> tc_id ` set (lg_tickets d) \<and> has_account d (tc_account t))
     (d\<lparr>lg_tickets := lg_tickets d @ [t]\<rparr>)"

definition insert_paper_settlement ::
  "(rat \<Rightarrow> rat) \<Rightarrow> int \<Rightarrow> string \<Rightarrow> string \<Rightarrow> rat \<Rightarrow> string \<Rightarrow> database \<Rightarrow> database db_res" where
  "insert_paper_settlement num now oid v resolved src d =
     bindE (ensure_outcome_placeholder oid v d) (\<lambda>d.
     Inr (d\<lparr>lg_settlements := lg_settlements d @ [\<lparr>sc_outcome = oid, sc_value = num resolved, sc_ts = now, sc_source = src\<rparr>]\<rparr>))"

definition upsert_paper_position ::
  "(rat \<Rightarrow> rat) \<Rightarrow> string \<Rightarrow> string \<Rightarrow> string \<Rightarrow> rat \<Rightarrow> rat \<Rightarrow> rat \<Rightarrow> rat \<Rightarrow> database \<Rightarrow> database db_res" where
  "upsert_paper_position num a v oid qty avg realized fees d =
     bindE (ensure_outcome_placeholder oid v d) (\<lambda>d.
     bindE (upsert_row (\<lambda>r. xw_account r = a \<and> xw_venue r = v \<and> xw_outcome r = oid)
         (\<lambda>r. r\<lparr>xw_qty := num qty, xw_avg := num avg, xw_realized := num realized, xw_fees := num fees\<rparr>)
         \<lparr>xw_account = a, xw_venue = v, xw_outcome = oid, xw_qty = num qty, xw_avg = num avg, xw_realized = num realized,
          xw_fees = num fees\<rparr> (has_account d a \<and> has_venue d v) (db_positions d))
     (\<lambda>rows. Inr (d\<lparr>db_positions := rows\<rparr>)))"

definition insert_paper_transfer :: "(rat \<Rightarrow> rat) \<Rightarrow> string \<Rightarrow> string \<Rightarrow> string \<Rightarrow> rat \<Rightarrow> string \<Rightarrow> database \<Rightarrow> database db_res" where
  "insert_paper_transfer num a from_v to_v amount src d = require (has_account d a \<and> has_venue d from_v \<and> has_venue d to_v)
     (d\<lparr>db_transfers := db_transfers d @
       [\<lparr>tw_account = a, tw_from = from_v, tw_to = to_v, tw_amount = num amount, tw_source = src\<rparr>]\<rparr>)"

definition insert_paper_pnl_snapshot ::
  "(rat \<Rightarrow> rat) \<Rightarrow> int \<Rightarrow> string \<Rightarrow> rat \<Rightarrow> rat \<Rightarrow> rat \<Rightarrow> database \<Rightarrow> database db_res" where
  "insert_paper_pnl_snapshot num ts a cash_amount mtm equity d = require (has_account d a)
     (d\<lparr>db_snapshots := db_snapshots d @ [\<lparr>nw_account = a, nw_ts = ts, nw_cash = num cash_amount, nw_mtm = num mtm, nw_equity = num equity\<rparr>]\<rparr>)"

definition delete_paper_history :: "string \<Rightarrow> database \<Rightarrow> database db_res" where
  "delete_paper_history a d =
     (let gone = oc_id ` {r \<in> set (lg_orders d). oc_account r = a};
          fills = filter (\<lambda>f. fc_order f \<notin> gone) (lg_fills d);
          orders = filter (\<lambda>r. oc_account r \<noteq> a) (lg_orders d);
          dead = tc_id ` {t \<in> set (lg_tickets d). tc_account t = a}
      in require (\<forall>r \<in> set orders. opt_holds (\<lambda>t. t \<notin> dead) (oc_ticket r))
        (d\<lparr>lg_fills := fills, lg_orders := orders, lg_tickets := filter (\<lambda>t. tc_account t \<noteq> a) (lg_tickets d), lg_settlements := [],
           db_snapshots := filter (\<lambda>r. nw_account r \<noteq> a) (db_snapshots d), db_positions := filter (\<lambda>r. xw_account r \<noteq> a) (db_positions d),
           db_transfers := filter (\<lambda>r. tw_account r \<noteq> a) (db_transfers d), db_balances := filter (\<lambda>r. bw_account r \<noteq> a) (db_balances d)\<rparr>))"

definition update_paper_ticket_status :: "string \<Rightarrow> string \<Rightarrow> string option \<Rightarrow> database \<Rightarrow> database" where
  "update_paper_ticket_status tid status reason d = d\<lparr>lg_tickets :=
     map (\<lambda>t. if tc_id t = tid then t\<lparr>tc_status := status, tc_reason := reason\<rparr> else t) (lg_tickets d)\<rparr>"

definition list_paper_orders :: "database \<Rightarrow> string \<Rightarrow> order_rec list" where
  "list_paper_orders d a = sort_key (\<lambda>r. - oc_submitted r) (filter (\<lambda>r. oc_account r = a) (lg_orders d))"

definition list_pnl_snapshots :: "database \<Rightarrow> string \<Rightarrow> nat \<Rightarrow> snapshot_row list" where
  "list_pnl_snapshots d a limit = take limit (sort_key (\<lambda>r. - nw_ts r) (filter (\<lambda>r. nw_account r = a) (db_snapshots d)))"

definition set_default :: "'k \<Rightarrow> 'v \<Rightarrow> ('k, 'v) dict \<Rightarrow> ('k, 'v) dict" where
  "set_default k v dict = (if map_of dict k = None then dict @ [(k, v)] else dict)"

definition paper_position_meta :: "database \<Rightarrow> string \<Rightarrow> (string, string \<times> string) dict" where
  "paper_position_meta d a =
     (let traded = concat (map (\<lambda>r. map (\<lambda>t. (oc_outcome r, t)) (filter (\<lambda>t. oc_ticket r = Some (tc_id t)) (lg_tickets d)))
            (filter (\<lambda>r. oc_account r = a) (lg_orders d)));
          newest = map (\<lambda>(oid, t). (oid, tc_title t, tc_group t)) (sort_key (\<lambda>x. - tc_submitted (snd x)) traded);
          live = concat (map (\<lambda>l. map (\<lambda>g. (ew_outcome l, gw_title g, gw_id g)) (filter (\<lambda>g. gw_id g = ew_group l) (db_groups d))) (db_legs d))
      in fold (\<lambda>(oid, x). set_default oid x) (newest @ live) [])"

definition paper_position_titles :: "database \<Rightarrow> string \<Rightarrow> (string, string) dict" where
  "paper_position_titles d a = map (\<lambda>(oid, title, _). (oid, title)) (paper_position_meta d a)"

subsection \<open>The sink\<close>

text \<open>
  \<open>AccountScopedSink\<close> over \<open>DbPaperPersistenceSink\<close>, the transaction of each event. Without the scope an order is
  written for the account \<open>''''\<close>.
\<close>

definition settle_rows ::
  "(rat \<Rightarrow> rat) \<Rightarrow> string \<Rightarrow> string \<Rightarrow> string \<times> rat \<times> rat \<times> rat \<Rightarrow> database \<Rightarrow> database db_res" where
  "settle_rows num v oid c d = (case c of (a, balance, realized, fees) \<Rightarrow>
     bindE (upsert_paper_balance num a v balance d) (upsert_paper_position num a v oid 0 0 realized fees))"

fun sink_work :: "(rat \<Rightarrow> rat) \<Rightarrow> int \<Rightarrow> string \<Rightarrow> sink_event \<Rightarrow> database \<Rightarrow> database db_res" where
  "sink_work num now scope (OnOrder ord reason) d = insert_paper_order num now scope ord reason d"
| "sink_work num now scope (OnFill ord f) d = insert_paper_fill num (ord_id ord) f d"
| "sink_work num now scope (OnBalance a v amount) d = upsert_paper_balance num a v amount d"
| "sink_work num now scope (OnPosition a oid qty avg realized v fees) d = upsert_paper_position num a v oid qty avg realized fees d"
| "sink_work num now scope (OnSettlement oid resolved v src) d = insert_paper_settlement num now oid v resolved src d"
| "sink_work num now scope (OnSettled oid resolved v src cs) d =
     bindE (foldE (settle_rows num v oid) cs d) (insert_paper_settlement num now oid v resolved src)"

definition unscoped_sink_work :: "(rat \<Rightarrow> rat) \<Rightarrow> int \<Rightarrow> sink_event \<Rightarrow> database \<Rightarrow> database db_res" where
  "unscoped_sink_work num now = sink_work num now ''''"

text \<open>
  \<open>run_write\<close> around a transaction: an attempt the database would commit still fails, for good, where the work itself
  does. \<open>answers\<close> are what the database does with the attempts.
\<close>

definition transact :: "attempt list \<Rightarrow> (database \<Rightarrow> database db_res) \<Rightarrow> database \<times> nat \<Rightarrow> database \<times> nat" where
  "transact answers work dn = (case dn of (d, dropped) \<Rightarrow> (case work d of
     Inl e \<Rightarrow> (d, snd (run_write (map (\<lambda>x. if x = Committed then Broken else x) answers) dropped))
   | Inr d' \<Rightarrow> (case run_write answers dropped of (ok, dropped') \<Rightarrow> (if ok then d' else d, dropped'))))"

text \<open>The writes of a log of sink events, the i-th under the answers \<open>answers i\<close>.\<close>

fun sink_writes ::
  "(rat \<Rightarrow> rat) \<Rightarrow> int \<Rightarrow> string \<Rightarrow> (nat \<Rightarrow> attempt list) \<Rightarrow> sink_event list \<Rightarrow> database \<times> nat \<Rightarrow> database \<times> nat" where
  "sink_writes num now scope answers [] dn = dn"
| "sink_writes num now scope answers (ev # evs) dn =
     sink_writes num now scope (\<lambda>i. answers (Suc i)) evs (transact (answers 0) (sink_work num now scope ev) dn)"

subsection \<open>Hydration\<close>

definition stored_balances :: "database \<Rightarrow> string \<Rightarrow> (string \<times> rat) list" where
  "stored_balances d a = map (\<lambda>r. (bw_venue r, bw_amount r)) (filter (\<lambda>r. bw_account r = a) (db_balances d))"

definition stored_positions :: "database \<Rightarrow> string \<Rightarrow> (string \<times> string \<times> rat \<times> rat \<times> rat \<times> rat) list" where
  "stored_positions d a = map (\<lambda>r. (xw_venue r, xw_outcome r, xw_qty r, xw_avg r, xw_realized r, xw_fees r))
     (filter (\<lambda>r. xw_account r = a) (db_positions d))"

definition REFERENCE_VENUES :: "string list" where
  "REFERENCE_VENUES = [''polymarket_us'', ''kalshi'', ''draftkings'']"

definition seed_reference :: "(string \<Rightarrow> string) \<Rightarrow> string \<Rightarrow> database \<Rightarrow> database db_res" where
  "seed_reference titled a d = ensure_paper_account a (Some a) (fold (\<lambda>v. ensure_venue v (titled v) ''exchange'') REFERENCE_VENUES d)"

text \<open>\<open>bootstrap\<close>: reference rows, groups, balances and positions, each from what is stored then.\<close>

definition bootstrap :: "(rat \<Rightarrow> rat) \<Rightarrow> (string \<Rightarrow> string) \<Rightarrow> app \<Rightarrow> database \<Rightarrow> (app \<times> database) db_res" where
  "bootstrap num titled st d = (let a = app_account st in bindE (seed_reference titled a d) (\<lambda>d.
     let st1 = fold (\<lambda>g. register_one (g, None)) (list_event_groups d) st;
         unfunded = filter (\<lambda>v. v \<notin> fst ` set (stored_balances d a)) (map fst (app_brokers st))
     in bindE (foldE (\<lambda>v. upsert_paper_balance num a v DEFAULT_STARTING_BALANCE) unfunded d) (\<lambda>d'.
        Inr (hydrate (stored_balances d a) (stored_positions d a) st1, d'))))"

subsection \<open>The constraints\<close>

text \<open>Markets and outcomes come from nowhere but \<open>ensure_outcome_placeholder\<close>.\<close>

definition placeholders_only :: "market_row list \<Rightarrow> outcome_row list \<Rightarrow> bool" where
  "placeholders_only ms us \<longleftrightarrow> (\<forall>m \<in> set ms. mw_id m = placeholder_id (mw_native m)) \<and>
     (\<forall>u \<in> set us. ow_market u = placeholder_id (ow_id u) \<and> ow_label u = ow_id u)"

lemma placeholders_only_Nil [simp]: "placeholders_only [] []"
  by (simp add: placeholders_only_def)

definition refs_ok :: "database \<Rightarrow> bool" where
  "refs_ok d \<longleftrightarrow> distinct (map vw_id (db_venues d)) \<and> distinct (map mw_id (db_markets d)) \<and> distinct (map ow_id (db_outcomes d)) \<and>
     distinct (map (\<lambda>m. (mw_venue m, mw_native m)) (db_markets d)) \<and> mw_venue ` set (db_markets d) \<subseteq> vw_id ` set (db_venues d) \<and>
     distinct (map (\<lambda>u. (ow_market u, ow_label u)) (db_outcomes d)) \<and> ow_market ` set (db_outcomes d) \<subseteq> mw_id ` set (db_markets d) \<and>
     distinct (map aw_id (db_accounts d)) \<and> distinct (map aw_name (db_accounts d)) \<and>
     placeholders_only (db_markets d) (db_outcomes d)"

definition groups_ok :: "database \<Rightarrow> bool" where
  "groups_ok d \<longleftrightarrow> distinct (map gw_id (db_groups d)) \<and> distinct (map (\<lambda>l. (ew_group l, ew_outcome l)) (db_legs d)) \<and>
     ew_group ` set (db_legs d) \<subseteq> gw_id ` set (db_groups d) \<and> ew_outcome ` set (db_legs d) \<subseteq> ow_id ` set (db_outcomes d) \<and>
     qw_outcome ` set (db_quotes d) \<subseteq> ow_id ` set (db_outcomes d)"

definition holdings_ok :: "database \<Rightarrow> bool" where
  "holdings_ok d \<longleftrightarrow> distinct (map (\<lambda>r. (bw_account r, bw_venue r)) (db_balances d)) \<and>
     distinct (map (\<lambda>r. (xw_account r, xw_venue r, xw_outcome r)) (db_positions d)) \<and>
     (\<forall>r \<in> set (db_balances d). has_account d (bw_account r) \<and> has_venue d (bw_venue r)) \<and>
     (\<forall>r \<in> set (db_positions d). has_account d (xw_account r) \<and> has_venue d (xw_venue r) \<and> xw_outcome r \<in> ow_id ` set (db_outcomes d)) \<and>
     (\<forall>r \<in> set (db_transfers d). has_account d (tw_account r) \<and> has_venue d (tw_from r) \<and> has_venue d (tw_to r)) \<and>
     (\<forall>r \<in> set (db_snapshots d). has_account d (nw_account r))"

definition trades_ok :: "database \<Rightarrow> bool" where
  "trades_ok d \<longleftrightarrow> distinct (map tc_id (lg_tickets d)) \<and> distinct (map oc_id (lg_orders d)) \<and>
     (\<forall>t \<in> set (lg_tickets d). has_account d (tc_account t)) \<and>
     (\<forall>r \<in> set (lg_orders d). has_account d (oc_account r) \<and> has_venue d (oc_venue r) \<and> oc_outcome r \<in> ow_id ` set (db_outcomes d) \<and>
        opt_holds (\<lambda>t. t \<in> tc_id ` set (lg_tickets d)) (oc_ticket r)) \<and>
     fc_order ` set (lg_fills d) \<subseteq> oc_id ` set (lg_orders d) \<and> sc_outcome ` set (lg_settlements d) \<subseteq> ow_id ` set (db_outcomes d)"

definition database_ok :: "database \<Rightarrow> bool" where
  "database_ok d \<longleftrightarrow> refs_ok d \<and> groups_ok d \<and> holdings_ok d \<and> trades_ok d"

lemmas ok_defs = database_ok_def refs_ok_def groups_ok_def holdings_ok_def trades_ok_def has_account_def has_venue_def

lemma require_Inr [res_simps]: "require c d = Inr d' \<longleftrightarrow> c \<and> d' = d"
  by (auto simp: require_def)

text \<open>What a table keeps: \<open>grown d d'\<close> where venues, outcomes and accounts were at most added.\<close>

definition grown :: "database \<Rightarrow> database \<Rightarrow> bool" where
  "grown d d' \<longleftrightarrow> vw_id ` set (db_venues d) \<subseteq> vw_id ` set (db_venues d') \<and> ow_id ` set (db_outcomes d) \<subseteq> ow_id ` set (db_outcomes d') \<and>
     aw_id ` set (db_accounts d) \<subseteq> aw_id ` set (db_accounts d')"

text \<open>Reference rows added by a placeholder; every other table is as it was.\<close>

lemma placeholder_effect:
  assumes "ensure_outcome_placeholder oid v d = Inr d'"
  obtains ms us where "d' = d\<lparr>db_markets := db_markets d @ ms, db_outcomes := db_outcomes d @ us\<rparr>" "oid \<in> ow_id ` set (db_outcomes d')"
    "us = [] \<or> us = [\<lparr>ow_id = oid, ow_market = placeholder_id oid, ow_label = oid\<rparr>]"
    "refs_ok d \<Longrightarrow> refs_ok d'"
proof (cases "oid \<in> ow_id ` set (db_outcomes d)")
  case True
  with assms show thesis by (intro that [where ms = "[]" and us = "[]"]) (simp_all add: ensure_outcome_placeholder_def)
next
  case False
  let ?u = "\<lparr>ow_id = oid, ow_market = placeholder_id oid, ow_label = oid\<rparr>"
  let ?m = "\<lparr>mw_id = placeholder_id oid, mw_venue = v, mw_native = oid, mw_title = ''auto-placeholder for '' @ oid, mw_kind = ''binary''\<rparr>"
  from assms False consider
    "insert_outcome ?u d = Inr d'" | d1 where "insert_market ?m d = Inr d1" "insert_outcome ?u d1 = Inr d'"
    by (auto simp: ensure_outcome_placeholder_def res_simps split: if_splits)
  then show thesis
  proof cases
    case 1
    then show thesis by (intro that [where ms = "[]" and us = "[?u]"]) (auto simp: insert_outcome_def res_simps refs_ok_def placeholders_only_def)
  next
    case 2
    then show thesis by (intro that [where ms = "[?m]" and us = "[?u]"]) (auto simp: insert_outcome_def insert_market_def res_simps refs_ok_def placeholders_only_def)
  qed
qed

lemma placeholder_ok:
  assumes "ensure_outcome_placeholder oid v d = Inr d'" "database_ok d"
  shows "database_ok d'"
  using assms(1)
proof (rule placeholder_effect)
  fix ms us
  assume d': "d' = d\<lparr>db_markets := db_markets d @ ms, db_outcomes := db_outcomes d @ us\<rparr>" and "refs_ok d \<Longrightarrow> refs_ok d'"
  with assms(2) have "refs_ok d'" by (simp add: database_ok_def)
  moreover have "groups_ok d'" using assms(2) by (auto simp: d' database_ok_def groups_ok_def)
  moreover have "holdings_ok d'" using assms(2) by (auto simp: d' database_ok_def holdings_ok_def has_account_def has_venue_def)
  moreover have "trades_ok d'" using assms(2) by (auto simp: d' database_ok_def trades_ok_def has_account_def has_venue_def)
  ultimately show "database_ok d'" by (simp add: database_ok_def)
qed

lemma upsert_row_rows:
  assumes "upsert_row same upd new allowed rows = Inr rows'" "\<And>r. same r \<longleftrightarrow> key r = key new" "\<And>r. key (upd r) = key r" "distinct (map key rows)"
  shows "distinct (map key rows')"
    "(\<forall>r \<in> set rows. P r) \<Longrightarrow> (\<And>r. P r \<Longrightarrow> P (upd r)) \<Longrightarrow> (allowed \<Longrightarrow> P new) \<Longrightarrow> \<forall>r \<in> set rows'. P r"
    "filter (\<lambda>r. \<not> same r) rows' = filter (\<lambda>r. \<not> same r) rows"
    "filter same rows' = [case filter same rows of [] \<Rightarrow> new | r # _ \<Rightarrow> upd r]"
proof -
  from assms(1) consider "filter same rows = []" "allowed" "rows' = rows @ [new]" |
    r where "filter same rows = [r]" "rows' = map (\<lambda>r. if same r then upd r else r) rows"
    by (auto simp: upsert_row_def split: list.splits if_splits)
  note rows' = this
  have same_new: "same new" using assms(2) by simp
  have same_upd: "same (upd r) \<longleftrightarrow> same r" for r using assms(2,3) by simp
  show "distinct (map key rows')"
    using rows'
  proof cases
    case 1
    then have "key new \<notin> key ` set rows" using assms(2) by (force simp: filter_empty_conv)
    with 1 assms(4) show ?thesis by simp
  next
    case 2
    then have "map key rows' = map key rows" using assms(3) by simp
    with assms(4) show ?thesis by simp
  qed
  show "\<forall>r \<in> set rows'. P r" if "\<forall>r \<in> set rows. P r" "\<And>r. P r \<Longrightarrow> P (upd r)" "allowed \<Longrightarrow> P new"
    using rows' that by cases auto
  have others: "filter (\<lambda>r. \<not> same r) (map (\<lambda>r. if same r then upd r else r) xs) = filter (\<lambda>r. \<not> same r) xs" for xs
    by (induction xs) (auto simp: same_upd)
  show "filter (\<lambda>r. \<not> same r) rows' = filter (\<lambda>r. \<not> same r) rows"
    using rows' by cases (simp_all add: same_new others)
  have mine: "filter same (map (\<lambda>r. if same r then upd r else r) xs) = map upd (filter same xs)" for xs
    by (induction xs) (auto simp: same_upd)
  show "filter same rows' = [case filter same rows of [] \<Rightarrow> new | r # _ \<Rightarrow> upd r]"
    using rows' by cases (simp_all add: same_new mine)
qed

lemma upsert_balance_ok:
  assumes "upsert_paper_balance num a v amount d = Inr d'" "database_ok d"
  shows "database_ok d'"
proof -
  from assms(1) obtain rows where rows: "upsert_row (\<lambda>r. bw_account r = a \<and> bw_venue r = v) (\<lambda>r. r\<lparr>bw_amount := num amount\<rparr>)
      \<lparr>bw_account = a, bw_venue = v, bw_amount = num amount\<rparr> (has_account d a \<and> has_venue d v) (db_balances d) = Inr rows"
    and d': "d' = d\<lparr>db_balances := rows\<rparr>" by (auto simp: upsert_paper_balance_def res_simps)
  have dist: "distinct (map (\<lambda>r. (bw_account r, bw_venue r)) (db_balances d))"
    and P: "\<forall>r \<in> set (db_balances d). has_account d (bw_account r) \<and> has_venue d (bw_venue r)"
    using assms(2) by (simp_all add: database_ok_def holdings_ok_def)
  note r = upsert_row_rows [OF rows, of "\<lambda>r. (bw_account r, bw_venue r)", OF _ _ dist]
  have "distinct (map (\<lambda>r. (bw_account r, bw_venue r)) rows)" by (rule r(1)) auto
  moreover have "\<forall>r \<in> set rows. has_account d (bw_account r) \<and> has_venue d (bw_venue r)" by (rule r(2) [OF _ _ P]) auto
  ultimately show ?thesis using assms(2)
    by (simp add: d' database_ok_def refs_ok_def groups_ok_def holdings_ok_def trades_ok_def has_account_def has_venue_def)
qed

lemma upsert_position_ok:
  assumes "upsert_paper_position num a v oid qty avg realized fees d0 = Inr d'" "database_ok d0"
  shows "database_ok d'"
proof -
  from assms(1) obtain d rows where e: "ensure_outcome_placeholder oid v d0 = Inr d" and rows: "upsert_row
      (\<lambda>r. xw_account r = a \<and> xw_venue r = v \<and> xw_outcome r = oid)
      (\<lambda>r. r\<lparr>xw_qty := num qty, xw_avg := num avg, xw_realized := num realized, xw_fees := num fees\<rparr>)
      \<lparr>xw_account = a, xw_venue = v, xw_outcome = oid, xw_qty = num qty, xw_avg = num avg, xw_realized = num realized, xw_fees = num fees\<rparr>
      (has_account d a \<and> has_venue d v) (db_positions d) = Inr rows"
    and d': "d' = d\<lparr>db_positions := rows\<rparr>" by (auto simp: upsert_paper_position_def res_simps)
  from placeholder_ok [OF e assms(2)] have ok: "database_ok d" .
  from e have oid: "oid \<in> ow_id ` set (db_outcomes d)" by (rule placeholder_effect)
  have dist: "distinct (map (\<lambda>r. (xw_account r, xw_venue r, xw_outcome r)) (db_positions d))"
    and P: "\<forall>r \<in> set (db_positions d). has_account d (xw_account r) \<and> has_venue d (xw_venue r) \<and> xw_outcome r \<in> ow_id ` set (db_outcomes d)"
    using ok by (simp_all add: database_ok_def holdings_ok_def)
  note r = upsert_row_rows [OF rows, of "\<lambda>r. (xw_account r, xw_venue r, xw_outcome r)", OF _ _ dist]
  have "distinct (map (\<lambda>r. (xw_account r, xw_venue r, xw_outcome r)) rows)" by (rule r(1)) auto
  moreover have "\<forall>r \<in> set rows. has_account d (xw_account r) \<and> has_venue d (xw_venue r) \<and> xw_outcome r \<in> ow_id ` set (db_outcomes d)"
    by (rule r(2) [OF _ _ P]) (use oid in auto)
  ultimately show ?thesis using ok
    by (simp add: d' database_ok_def refs_ok_def groups_ok_def holdings_ok_def trades_ok_def has_account_def has_venue_def)
qed

lemma settlement_ok:
  assumes "insert_paper_settlement num now oid v resolved src d0 = Inr d'" "database_ok d0"
  shows "database_ok d'"
proof -
  from assms(1) obtain d where e: "ensure_outcome_placeholder oid v d0 = Inr d" and d': "d' = d\<lparr>lg_settlements := lg_settlements d @
      [\<lparr>sc_outcome = oid, sc_value = num resolved, sc_ts = now, sc_source = src\<rparr>]\<rparr>" by (auto simp: insert_paper_settlement_def res_simps)
  from e have "oid \<in> ow_id ` set (db_outcomes d)" by (rule placeholder_effect)
  with placeholder_ok [OF e assms(2)] show ?thesis
    by (simp add: d' database_ok_def refs_ok_def groups_ok_def holdings_ok_def trades_ok_def has_account_def has_venue_def)
qed

lemma order_ok:
  assumes "insert_paper_order num now a ord reason d0 = Inr d'" "database_ok d0"
  shows "database_ok d'"
proof -
  from assms(1) obtain d where e: "ensure_outcome_placeholder (ord_outcome ord) (ord_venue ord) d0 = Inr d"
    and c: "ord_id ord \<notin> oc_id ` set (lg_orders d)" "has_account d a" "has_venue d (ord_venue ord)" "ord_outcome ord \<in> ow_id ` set (db_outcomes d)"
      "opt_holds (\<lambda>t. t \<in> tc_id ` set (lg_tickets d)) (ord_ticket ord)"
    and d': "d' = d\<lparr>lg_orders := lg_orders d @ [\<lparr>oc_id = ord_id ord, oc_account = a, oc_venue = ord_venue ord, oc_outcome = ord_outcome ord,
          oc_is_buy = ord_is_buy ord, oc_qty = num (ord_qty ord), oc_limit = num (ord_limit ord), oc_status = status_str (ord_status ord),
          oc_submitted = now, oc_ticket = ord_ticket ord, oc_reason = reason\<rparr>]\<rparr>" by (auto simp: insert_paper_order_def res_simps)
  from placeholder_ok [OF e assms(2)] c show ?thesis
    by (auto simp: d' database_ok_def refs_ok_def groups_ok_def holdings_ok_def trades_ok_def has_account_def has_venue_def)
qed

lemma fill_ok: "insert_paper_fill num oid f d = Inr d' \<Longrightarrow> database_ok d \<Longrightarrow> database_ok d'"
  by (auto simp: insert_paper_fill_def res_simps database_ok_def refs_ok_def groups_ok_def holdings_ok_def trades_ok_def has_account_def has_venue_def)

lemma foldE_ok: "foldE f xs d = Inr d' \<Longrightarrow> database_ok d \<Longrightarrow> (\<And>x d d'. x \<in> set xs \<Longrightarrow> f x d = Inr d' \<Longrightarrow> database_ok d \<Longrightarrow> database_ok d') \<Longrightarrow> database_ok d'"
  using foldE_invariant [of f xs d d' database_ok] by blast

lemma sink_work_ok: "sink_work num now scope ev d = Inr d' \<Longrightarrow> database_ok d \<Longrightarrow> database_ok d'"
proof (cases ev)
  case (OnSettled oid x v src cs)
  assume a: "sink_work num now scope ev d = Inr d'" "database_ok d"
  with OnSettled obtain d1 where d1: "foldE (settle_rows num v oid) cs d = Inr d1" "insert_paper_settlement num now oid v x src d1 = Inr d'"
    by (auto simp: res_simps)
  have "database_ok d1" by (rule foldE_ok [OF d1(1) a(2)])
    (auto simp: settle_rows_def res_simps split: prod.splits intro: upsert_position_ok upsert_balance_ok)
  with d1(2) show "database_ok d'" by (rule settlement_ok)
qed (auto intro: order_ok fill_ok upsert_balance_ok upsert_position_ok settlement_ok)

lemma store_leg_ok:
  assumes "store_leg g l d = Inr d'" "database_ok d"
  shows "database_ok d'"
proof -
  from assms(1) obtain d1 where e: "ensure_outcome_placeholder (leg_outcome l) (leg_venue l) d = Inr d1"
    and i: "insert_leg \<lparr>ew_group = g_id g, ew_outcome = leg_outcome l, ew_yes = is_yes_side l,
        ew_resolution = map_of (resolution_source_by_venue g) (leg_venue l)\<rparr> d1 = Inr d'" by (auto simp: store_leg_def res_simps)
  from placeholder_ok [OF e assms(2)] i show ?thesis
    by (auto simp: insert_leg_def res_simps database_ok_def refs_ok_def groups_ok_def holdings_ok_def trades_ok_def has_account_def has_venue_def)
qed

lemma merge_group_id [simp]: "gw_id (merge_group g r) = gw_id r"
  by (simp add: merge_group_def)

definition group_row_of :: "event_group \<Rightarrow> database \<Rightarrow> database" where
  "group_row_of g d = (let d1 = (if g_id g \<in> gw_id ` set (db_groups d)
          then d\<lparr>db_groups := map (\<lambda>r. if gw_id r = g_id g then merge_group g r else r) (db_groups d)\<rparr>
          else d\<lparr>db_groups := db_groups d @ [\<lparr>gw_id = g_id g, gw_title = g_title g, gw_start = start_time g, gw_source = g_source g\<rparr>]\<rparr>)
     in d1\<lparr>db_legs := filter (\<lambda>l. ew_group l \<noteq> g_id g) (db_legs d1)\<rparr>)"

lemma upsert_group_rows_eq: "upsert_group_rows g d = foldE (store_leg g) (g_legs g) (group_row_of g d)"
  by (simp add: upsert_group_rows_def group_row_of_def Let_def)

lemma group_row_of_ok: "database_ok d \<Longrightarrow> database_ok (group_row_of g d)"
proof -
  assume ok: "database_ok d"
  have ids: "map gw_id (map (\<lambda>r. if gw_id r = g_id g then merge_group g r else r) rs) = map gw_id rs" for rs
    by (induction rs) auto
  then have idset: "gw_id ` set (map (\<lambda>r. if gw_id r = g_id g then merge_group g r else r) rs) = gw_id ` set rs" for rs
    by (metis list.set_map)
  have "groups_ok (group_row_of g d)"
    using ok unfolding database_ok_def groups_ok_def group_row_of_def Let_def
    by (cases "g_id g \<in> gw_id ` set (db_groups d)") (simp_all only: if_True if_False, auto simp: distinct_map_filter ids idset simp del: map_map list.set_map)
  with ok show ?thesis
    by (simp add: group_row_of_def Let_def database_ok_def refs_ok_def holdings_ok_def trades_ok_def has_account_def has_venue_def)
qed

lemma upsert_group_ok: "upsert_group_rows g d = Inr d' \<Longrightarrow> database_ok d \<Longrightarrow> database_ok d'"
  unfolding upsert_group_rows_eq by (erule foldE_ok) (auto intro: store_leg_ok group_row_of_ok)

lemma delete_group_ok: "database_ok d \<Longrightarrow> database_ok (delete_event_group gid d)"
  by (auto simp: delete_event_group_def database_ok_def refs_ok_def groups_ok_def holdings_ok_def trades_ok_def has_account_def has_venue_def
      distinct_map_filter)

lemma ensure_venue_ok: "database_ok d \<Longrightarrow> database_ok (ensure_venue v nm kind d)"
  by (auto simp: ensure_venue_def database_ok_def refs_ok_def groups_ok_def holdings_ok_def trades_ok_def has_account_def has_venue_def)

lemma ensure_account_ok: "ensure_paper_account a nm d = Inr d' \<Longrightarrow> database_ok d \<Longrightarrow> database_ok d'"
  by (auto simp: ensure_paper_account_def Let_def res_simps database_ok_def refs_ok_def groups_ok_def holdings_ok_def trades_ok_def has_account_def
      has_venue_def split: if_splits)

lemma insert_quote_ok: "insert_quote num q d = Inr d' \<Longrightarrow> database_ok d \<Longrightarrow> database_ok d'"
  by (auto simp: insert_quote_def res_simps database_ok_def refs_ok_def groups_ok_def holdings_ok_def trades_ok_def has_account_def has_venue_def)

lemma insert_opportunity_ok: "database_ok d \<Longrightarrow> database_ok (insert_opportunity num now opp d)"
  by (auto simp: insert_opportunity_def database_ok_def refs_ok_def groups_ok_def holdings_ok_def trades_ok_def has_account_def has_venue_def)

lemma opt_holds_mono: "opt_holds P x \<Longrightarrow> (\<And>y. P y \<Longrightarrow> Q y) \<Longrightarrow> opt_holds Q x"
  by (cases x) (auto simp: opt_holds_def)

lemma insert_ticket_ok:
  assumes "insert_paper_ticket t d = Inr d'" "database_ok d"
  shows "database_ok d'"
proof -
  from assms(1) have t: "tc_id t \<notin> tc_id ` set (lg_tickets d)" "has_account d (tc_account t)" "d' = d\<lparr>lg_tickets := lg_tickets d @ [t]\<rparr>"
    by (auto simp: insert_paper_ticket_def res_simps)
  have "opt_holds (\<lambda>t. t \<in> tc_id ` set (lg_tickets d')) (oc_ticket r)" if "r \<in> set (lg_orders d)" for r
    by (rule opt_holds_mono [of "\<lambda>t. t \<in> tc_id ` set (lg_tickets d)"])
      (use that assms(2) t(3) in \<open>auto simp: database_ok_def trades_ok_def\<close>)
  with assms(2) t have "trades_ok d'" by (simp add: database_ok_def trades_ok_def has_account_def has_venue_def)
  with assms(2) t(3) show ?thesis by (simp add: database_ok_def refs_ok_def groups_ok_def holdings_ok_def has_account_def has_venue_def)
qed

lemma insert_transfer_ok: "insert_paper_transfer num a v w x src d = Inr d' \<Longrightarrow> database_ok d \<Longrightarrow> database_ok d'"
  by (auto simp: insert_paper_transfer_def res_simps database_ok_def refs_ok_def groups_ok_def holdings_ok_def trades_ok_def has_account_def has_venue_def)

lemma insert_snapshot_ok: "insert_paper_pnl_snapshot num ts a c mtm eq d = Inr d' \<Longrightarrow> database_ok d \<Longrightarrow> database_ok d'"
  by (auto simp: insert_paper_pnl_snapshot_def res_simps database_ok_def refs_ok_def groups_ok_def holdings_ok_def trades_ok_def has_account_def has_venue_def)

lemma ticket_status_ok: "database_ok d \<Longrightarrow> database_ok (update_paper_ticket_status tid status reason d)"
proof -
  assume ok: "database_ok d"
  define ts where "ts = map (\<lambda>t. if tc_id t = tid then t\<lparr>tc_status := status, tc_reason := reason\<rparr> else t) (lg_tickets d)"
  have ids: "map tc_id ts = map tc_id (lg_tickets d)" by (simp add: ts_def)
  then have idset: "tc_id ` set ts = tc_id ` set (lg_tickets d)" by (metis list.set_map)
  have "\<forall>t \<in> set ts. has_account d (tc_account t)" using ok by (auto simp: ts_def database_ok_def trades_ok_def)
  then show ?thesis using ok unfolding update_paper_ticket_status_def ts_def [symmetric]
    by (simp add: database_ok_def refs_ok_def groups_ok_def holdings_ok_def trades_ok_def has_account_def has_venue_def ids idset)
qed

lemma delete_history_ok:
  assumes "delete_paper_history a d = Inr d'" "database_ok d"
  shows "database_ok d'"
proof -
  from assms(1) have free: "\<forall>r \<in> set (lg_orders d). oc_account r \<noteq> a \<longrightarrow> opt_holds (\<lambda>t. t \<notin> tc_id ` {t \<in> set (lg_tickets d). tc_account t = a}) (oc_ticket r)"
    and d': "lg_fills d' = filter (\<lambda>f. fc_order f \<notin> oc_id ` {r \<in> set (lg_orders d). oc_account r = a}) (lg_fills d)"
      "lg_orders d' = filter (\<lambda>r. oc_account r \<noteq> a) (lg_orders d)" "lg_tickets d' = filter (\<lambda>t. tc_account t \<noteq> a) (lg_tickets d)"
      "lg_settlements d' = []" "db_snapshots d' = filter (\<lambda>r. nw_account r \<noteq> a) (db_snapshots d)"
      "db_positions d' = filter (\<lambda>r. xw_account r \<noteq> a) (db_positions d)" "db_transfers d' = filter (\<lambda>r. tw_account r \<noteq> a) (db_transfers d)"
      "db_balances d' = filter (\<lambda>r. bw_account r \<noteq> a) (db_balances d)"
    and same: "db_venues d' = db_venues d" "db_markets d' = db_markets d" "db_outcomes d' = db_outcomes d" "db_groups d' = db_groups d"
      "db_legs d' = db_legs d" "db_quotes d' = db_quotes d" "db_accounts d' = db_accounts d"
    by (auto simp: delete_paper_history_def Let_def res_simps)
  have "trades_ok d'"
  proof -
    have "opt_holds (\<lambda>t. t \<in> tc_id ` set (lg_tickets d')) (oc_ticket r)" if "r \<in> set (lg_orders d')" for r
    proof (cases "oc_ticket r")
      case (Some t)
      with that free have "t \<notin> tc_id ` {t \<in> set (lg_tickets d). tc_account t = a}" by (auto simp: d' opt_holds_def)
      moreover have "t \<in> tc_id ` set (lg_tickets d)"
        using that Some assms(2) by (auto simp: d' database_ok_def trades_ok_def opt_holds_def)
      ultimately show ?thesis using Some by (auto simp: d' opt_holds_def)
    qed (simp add: opt_holds_def)
    moreover have "fc_order ` set (lg_fills d') \<subseteq> oc_id ` set (lg_orders d')"
    proof
      fix oid
      assume "oid \<in> fc_order ` set (lg_fills d')"
      then have "oid \<in> fc_order ` set (lg_fills d)" and live: "oid \<notin> oc_id ` {r \<in> set (lg_orders d). oc_account r = a}" by (auto simp: d')
      with assms(2) obtain r where "r \<in> set (lg_orders d)" "oid = oc_id r" by (auto simp: database_ok_def trades_ok_def)
      with live show "oid \<in> oc_id ` set (lg_orders d')" by (auto simp: d')
    qed
    ultimately show ?thesis
      using assms(2) by (auto simp: d' same database_ok_def trades_ok_def has_account_def has_venue_def distinct_map_filter)
  qed
  then show ?thesis using assms(2)
    by (auto simp: d' same database_ok_def refs_ok_def groups_ok_def holdings_ok_def has_account_def has_venue_def distinct_map_filter)
qed

text \<open>Everything the application does to the database, statement by statement.\<close>

inductive database_step :: "(rat \<Rightarrow> rat) \<Rightarrow> database \<Rightarrow> database \<Rightarrow> bool" for num where
  step_venue: "database_step num d (ensure_venue v nm kind d)"
| step_account: "ensure_paper_account a nm d = Inr d' \<Longrightarrow> database_step num d d'"
| step_outcome: "ensure_outcome_placeholder oid v d = Inr d' \<Longrightarrow> database_step num d d'"
| step_group: "upsert_group_rows g d = Inr d' \<Longrightarrow> database_step num d d'"
| step_retire: "database_step num d (delete_event_group gid d)"
| step_quote: "insert_quote num q d = Inr d' \<Longrightarrow> database_step num d d'"
| step_opportunity: "database_step num d (insert_opportunity num now opp d)"
| step_sink: "sink_work num now scope ev d = Inr d' \<Longrightarrow> database_step num d d'"
| step_ticket: "insert_paper_ticket t d = Inr d' \<Longrightarrow> database_step num d d'"
| step_ticket_status: "database_step num d (update_paper_ticket_status tid status reason d)"
| step_transfer: "insert_paper_transfer num a v w x src d = Inr d' \<Longrightarrow> database_step num d d'"
| step_snapshot: "insert_paper_pnl_snapshot num ts a c mtm equity d = Inr d' \<Longrightarrow> database_step num d d'"
| step_wipe: "delete_paper_history a d = Inr d' \<Longrightarrow> database_step num d d'"

lemma database_step_ok: "database_step num d d' \<Longrightarrow> database_ok d \<Longrightarrow> database_ok d'"
  by (induction rule: database_step.induct)
    (auto intro: ensure_venue_ok ensure_account_ok placeholder_ok upsert_group_ok delete_group_ok insert_quote_ok insert_opportunity_ok
      sink_work_ok insert_ticket_ok ticket_status_ok insert_transfer_ok insert_snapshot_ok delete_history_ok)

definition empty_database :: database where
  "empty_database = \<lparr>lg_tickets = [], lg_orders = [], lg_fills = [], lg_settlements = [], db_venues = [], db_markets = [], db_outcomes = [],
     db_groups = [], db_legs = [], db_quotes = [], db_opps = [], db_accounts = [], db_balances = [], db_positions = [], db_transfers = [],
     db_snapshots = []\<rparr>"

lemma empty_database_ok: "database_ok empty_database"
  by (simp add: empty_database_def database_ok_def refs_ok_def groups_ok_def holdings_ok_def trades_ok_def)


definition some_steps :: "(rat \<Rightarrow> rat) \<Rightarrow> database db_res" where
  "some_steps num = bindE (ensure_paper_account ''default'' None (ensure_venue ''kalshi'' ''Kalshi'' ''exchange'' empty_database)) (\<lambda>d.
     bindE (sink_work num 7 ''default'' (OnPosition ''default'' ''KY'' 25 (2 / 5) 0 ''kalshi'' 1) d)
       (sink_work num 8 ''default'' (OnBalance ''default'' ''kalshi'' 90)))"


subsection \<open>Writes that always go through\<close>

lemma placeholder_total:
  assumes "database_ok d" "has_venue d v"
  shows "\<exists>d'. ensure_outcome_placeholder oid v d = Inr d'"
proof (cases "oid \<in> ow_id ` set (db_outcomes d)")
  case False
  have m: "mw_id m = placeholder_id (mw_native m)" if "m \<in> set (db_markets d)" for m
    using assms(1) that by (simp add: database_ok_def refs_ok_def placeholders_only_def)
  have u: "ow_market u = placeholder_id (ow_id u)" if "u \<in> set (db_outcomes d)" for u
    using assms(1) that by (simp add: database_ok_def refs_ok_def placeholders_only_def)
  have inj: "placeholder_id x = placeholder_id y \<longleftrightarrow> x = y" for x y by (simp add: placeholder_id_def)
  have new: "(placeholder_id oid, oid) \<notin> (\<lambda>u. (ow_market u, ow_label u)) ` set (db_outcomes d)"
    using False u by (auto simp: inj)
  show ?thesis
  proof (cases "placeholder_id oid \<in> mw_id ` set (db_markets d)")
    case True
    with False new show ?thesis by (simp add: ensure_outcome_placeholder_def insert_outcome_def require_def)
  next
    case no: False
    then have "(v, oid) \<notin> (\<lambda>m. (mw_venue m, mw_native m)) ` set (db_markets d)" using m by force
    with False no new assms(2) show ?thesis
      by (simp add: ensure_outcome_placeholder_def insert_outcome_def insert_market_def require_def has_venue_def)
  qed
qed (simp add: ensure_outcome_placeholder_def)

definition balance_rows :: "database \<Rightarrow> string \<Rightarrow> string \<Rightarrow> rat list" where
  "balance_rows d a v = map bw_amount (filter (\<lambda>r. bw_account r = a \<and> bw_venue r = v) (db_balances d))"

definition position_rows :: "database \<Rightarrow> string \<Rightarrow> string \<Rightarrow> string \<Rightarrow> (rat \<times> rat \<times> rat \<times> rat) list" where
  "position_rows d a v oid = map (\<lambda>r. (xw_qty r, xw_avg r, xw_realized r, xw_fees r))
     (filter (\<lambda>r. xw_account r = a \<and> xw_venue r = v \<and> xw_outcome r = oid) (db_positions d))"

text \<open>The holdings of every account on every venue but one account, venue and outcome.\<close>

definition same_refs :: "database \<Rightarrow> database \<Rightarrow> bool" where
  "same_refs d d' \<longleftrightarrow> db_accounts d' = db_accounts d \<and> db_venues d' = db_venues d"

lemma same_refs_has [simp]: "same_refs d d' \<Longrightarrow> has_account d' a = has_account d a" "same_refs d d' \<Longrightarrow> has_venue d' v = has_venue d v"
  by (simp_all add: same_refs_def has_account_def has_venue_def)

lemma distinct_filter_key: "distinct (map key xs) \<Longrightarrow> (\<And>x. P x \<longleftrightarrow> key x = k) \<Longrightarrow> filter P xs = [] \<or> (\<exists>x. filter P xs = [x])"
proof (induction xs)
  case (Cons x xs)
  have "filter P xs = []" if "P x"
  proof -
    have "key y \<noteq> key x" if "y \<in> set xs" for y using Cons.prems(1) that by (metis distinct.simps(2) image_eqI list.set_map list.simps(9))
    with that Cons.prems(2) show ?thesis by (auto simp: filter_empty_conv)
  qed
  with Cons.IH [OF _ Cons.prems(2)] Cons.prems(1) show ?case by (cases "P x") simp_all
qed simp

lemma upsert_row_total:
  assumes "distinct (map key rows)" "\<And>r. same r \<longleftrightarrow> key r = k" "allowed"
  shows "\<exists>rows'. upsert_row same upd new allowed rows = Inr rows'"
  using distinct_filter_key [OF assms(1,2)] assms(3) by (auto simp: upsert_row_def)

lemma filter_other:
  assumes "filter (\<lambda>r. \<not> same r) rows' = filter (\<lambda>r. \<not> same r) rows" "\<And>r. P r \<Longrightarrow> \<not> same r"
  shows "filter P rows' = filter P rows"
proof -
  have "filter P xs = filter P (filter (\<lambda>r. \<not> same r) xs)" for xs using assms(2) by (auto simp: filter_filter intro: filter_cong)
  with assms(1) show ?thesis by metis
qed

lemma upsert_balance_total:
  assumes "database_ok d" "has_account d a" "has_venue d v"
  shows "\<exists>d'. upsert_paper_balance num a v x d = Inr d' \<and> same_refs d d' \<and> position_rows d' = position_rows d \<and>
    (\<forall>a' v'. balance_rows d' a' v' = (if a' = a \<and> v' = v then [num x] else balance_rows d a' v'))"
proof -
  let ?same = "\<lambda>r. bw_account r = a \<and> bw_venue r = v"
  let ?upd = "\<lambda>r. r\<lparr>bw_amount := num x\<rparr>" and ?new = "\<lparr>bw_account = a, bw_venue = v, bw_amount = num x\<rparr>"
  have dist: "distinct (map (\<lambda>r. (bw_account r, bw_venue r)) (db_balances d))" using assms(1) by (simp add: database_ok_def holdings_ok_def)
  have "has_account d a \<and> has_venue d v" using assms(2,3) by simp
  from upsert_row_total [OF dist _ this, of ?same "(a, v)" ?upd ?new] obtain rows
    where rows: "upsert_row ?same ?upd ?new (has_account d a \<and> has_venue d v) (db_balances d) = Inr rows" by auto
  note r = upsert_row_rows [OF rows, of "\<lambda>r. (bw_account r, bw_venue r)", OF _ _ dist]
  have "balance_rows (d\<lparr>db_balances := rows\<rparr>) a v = [num x]"
    using r(4) by (auto simp: balance_rows_def split: list.splits)
  moreover have "balance_rows (d\<lparr>db_balances := rows\<rparr>) a' v' = balance_rows d a' v'" if "\<not> (a' = a \<and> v' = v)" for a' v'
    using filter_other [OF r(3), of "\<lambda>r. bw_account r = a' \<and> bw_venue r = v'"] that by (auto simp: balance_rows_def)
  moreover have "upsert_paper_balance num a v x d = Inr (d\<lparr>db_balances := rows\<rparr>)" unfolding upsert_paper_balance_def rows by simp
  moreover have "same_refs d (d\<lparr>db_balances := rows\<rparr>)" "position_rows (d\<lparr>db_balances := rows\<rparr>) = position_rows d"
    by (simp_all add: same_refs_def position_rows_def [abs_def])
  ultimately show ?thesis by (intro exI [of _ "d\<lparr>db_balances := rows\<rparr>"]) simp
qed

lemma upsert_position_total:
  assumes "database_ok d0" "has_account d0 a" "has_venue d0 v"
  shows "\<exists>d'. upsert_paper_position num a v oid qty avg realized fees d0 = Inr d' \<and> same_refs d0 d' \<and> balance_rows d' = balance_rows d0 \<and>
    (\<forall>a' v' oid'. position_rows d' a' v' oid' = (if a' = a \<and> v' = v \<and> oid' = oid then [(num qty, num avg, num realized, num fees)]
       else position_rows d0 a' v' oid'))"
proof -
  from placeholder_total [OF assms(1,3)] obtain d where e: "ensure_outcome_placeholder oid v d0 = Inr d" by blast
  from placeholder_ok [OF this assms(1)] have ok: "database_ok d" .
  from e obtain ms us where d: "d = d0\<lparr>db_markets := db_markets d0 @ ms, db_outcomes := db_outcomes d0 @ us\<rparr>" by (rule placeholder_effect)
  let ?same = "\<lambda>r. xw_account r = a \<and> xw_venue r = v \<and> xw_outcome r = oid"
  let ?upd = "\<lambda>r. r\<lparr>xw_qty := num qty, xw_avg := num avg, xw_realized := num realized, xw_fees := num fees\<rparr>"
  let ?new = "\<lparr>xw_account = a, xw_venue = v, xw_outcome = oid, xw_qty = num qty, xw_avg = num avg, xw_realized = num realized, xw_fees = num fees\<rparr>"
  have dist: "distinct (map (\<lambda>r. (xw_account r, xw_venue r, xw_outcome r)) (db_positions d))" using ok by (simp add: database_ok_def holdings_ok_def)
  have "has_account d a \<and> has_venue d v" using assms(2,3) by (simp add: d has_account_def has_venue_def)
  from upsert_row_total [OF dist _ this, of ?same "(a, v, oid)" ?upd ?new] obtain rows
    where rows: "upsert_row ?same ?upd ?new (has_account d a \<and> has_venue d v) (db_positions d) = Inr rows" by auto
  note r = upsert_row_rows [OF rows, of "\<lambda>r. (xw_account r, xw_venue r, xw_outcome r)", OF _ _ dist]
  have "position_rows (d\<lparr>db_positions := rows\<rparr>) a v oid = [(num qty, num avg, num realized, num fees)]"
    using r(4) by (auto simp: position_rows_def split: list.splits)
  moreover have "position_rows (d\<lparr>db_positions := rows\<rparr>) a' v' oid' = position_rows d0 a' v' oid'" if "\<not> (a' = a \<and> v' = v \<and> oid' = oid)" for a' v' oid'
    using filter_other [OF r(3), of "\<lambda>r. xw_account r = a' \<and> xw_venue r = v' \<and> xw_outcome r = oid'"] that by (auto simp: position_rows_def d)
  moreover have "upsert_paper_position num a v oid qty avg realized fees d0 = Inr (d\<lparr>db_positions := rows\<rparr>)"
    unfolding upsert_paper_position_def e bindE_simps rows ..
  moreover have "same_refs d0 (d\<lparr>db_positions := rows\<rparr>)" "balance_rows (d\<lparr>db_positions := rows\<rparr>) = balance_rows d0"
    by (simp_all add: same_refs_def balance_rows_def [abs_def] d)
  ultimately show ?thesis by (intro exI [of _ "d\<lparr>db_positions := rows\<rparr>"]) simp
qed

end
