(* ===== verification/Persistence.thy ===== *)
theory Persistence
  imports Database
begin

section \<open>The books and the rows\<close>

text \<open>
  What the database holds of the brokers. The sink writes every ticket, settlement and closure as a transaction, the
  sweep its transfers with the balances they leave; \<open>mirrored\<close> says that the balance and position rows of every venue
  are the accounts of its broker, \<open>recorded\<close> is a step of the books with its writes, and the start of
  \<open>arbys/backend/state.py\<close> reads the rows back. The database answers every transaction within its attempts; what
  a dropped write leaves is not followed. Nothing else writes these rows meanwhile.
\<close>

subsection \<open>What a write leaves of the rows of an account\<close>

definition position_reads :: "account_state \<Rightarrow> string \<Rightarrow> rat \<times> rat \<times> rat \<times> rat" where
  "position_reads st oid = (dict_get 0 (ac_positions st) oid, dict_get 0 (ac_avg_price st) oid,
     dict_get 0 (ac_realized_by_outcome st) oid, dict_get 0 (ac_open_fees st) oid)"

fun in_columns :: "(rat \<Rightarrow> rat) \<Rightarrow> rat \<times> rat \<times> rat \<times> rat \<Rightarrow> rat \<times> rat \<times> rat \<times> rat" where
  "in_columns num (q, p, r, f) = (num q, num p, num r, num f)"

text \<open>The rows of an account on a venue: one balance once it was ever set, one position per outcome ever held.\<close>

definition account_rows :: "(rat \<Rightarrow> rat) \<Rightarrow> string \<Rightarrow> account_state \<Rightarrow> string \<Rightarrow> database \<Rightarrow> bool" where
  "account_rows num v st a d \<longleftrightarrow>
     balance_rows d a v = (case map_of (ac_balances st) v of None \<Rightarrow> [] | Some x \<Rightarrow> [num x]) \<and>
     (\<forall>oid. position_rows d a v oid = (if map_of (ac_positions st) oid = None then [] else [in_columns num (position_reads st oid)]))"

definition keeps_rows :: "database \<Rightarrow> database \<Rightarrow> bool" where
  "keeps_rows d d' \<longleftrightarrow> (database_ok d \<longrightarrow> database_ok d') \<and> same_refs d d' \<and> balance_rows d' = balance_rows d \<and> position_rows d' = position_rows d"

text \<open>A write at one venue leaves the rows of every other venue.\<close>

definition local_to :: "string \<Rightarrow> database \<Rightarrow> database \<Rightarrow> bool" where
  "local_to v d d' \<longleftrightarrow> (\<forall>a v'. v' \<noteq> v \<longrightarrow> balance_rows d' a v' = balance_rows d a v' \<and> (\<forall>oid. position_rows d' a v' oid = position_rows d a v' oid))"

lemma keeps_rows_local: "keeps_rows d d' \<Longrightarrow> local_to v d d'"
  by (simp add: keeps_rows_def local_to_def)

lemma keeps_rows_refl [simp]: "keeps_rows d d"
  by (simp add: keeps_rows_def same_refs_def)

lemma placeholder_keeps:
  assumes "ensure_outcome_placeholder oid v d = Inr d'"
  shows "keeps_rows d d'"
proof -
  from assms obtain ms us where "d' = d\<lparr>db_markets := db_markets d @ ms, db_outcomes := db_outcomes d @ us\<rparr>" by (rule placeholder_effect)
  then have "same_refs d d'" "balance_rows d' = balance_rows d" "position_rows d' = position_rows d"
    by (simp_all add: same_refs_def balance_rows_def [abs_def] position_rows_def [abs_def])
  with placeholder_ok [OF assms] show ?thesis by (simp add: keeps_rows_def)
qed

lemma order_keeps: 
  assumes "insert_paper_order num now a ord reason d = Inr d'"
  shows "keeps_rows d d'"
proof -
  from assms obtain d1 r where e: "ensure_outcome_placeholder (ord_outcome ord) (ord_venue ord) d = Inr d1" and d': "d' = d1\<lparr>lg_orders := lg_orders d1 @ [r]\<rparr>"
    by (auto simp: insert_paper_order_def res_simps)
  have "same_refs d1 d'" "balance_rows d' = balance_rows d1" "position_rows d' = position_rows d1"
    by (simp_all add: d' same_refs_def balance_rows_def [abs_def] position_rows_def [abs_def])
  with placeholder_keeps [OF e] order_ok [OF assms] show ?thesis by (simp add: keeps_rows_def same_refs_def)
qed

lemma fill_keeps:
  assumes "insert_paper_fill num oid f d = Inr d'"
  shows "keeps_rows d d'"
proof -
  from assms obtain r where d': "d' = d\<lparr>lg_fills := lg_fills d @ [r]\<rparr>" by (auto simp: insert_paper_fill_def res_simps)
  have "same_refs d d'" "balance_rows d' = balance_rows d" "position_rows d' = position_rows d"
    by (simp_all add: d' same_refs_def balance_rows_def [abs_def] position_rows_def [abs_def])
  with fill_ok [OF assms] show ?thesis by (simp add: keeps_rows_def)
qed

lemma settlement_keeps:
  assumes "insert_paper_settlement num now oid v x src d = Inr d'"
  shows "keeps_rows d d'"
proof -
  from assms obtain d1 r where e: "ensure_outcome_placeholder oid v d = Inr d1" and d': "d' = d1\<lparr>lg_settlements := lg_settlements d1 @ [r]\<rparr>"
    by (auto simp: insert_paper_settlement_def res_simps)
  have "same_refs d1 d'" "balance_rows d' = balance_rows d1" "position_rows d' = position_rows d1"
    by (simp_all add: d' same_refs_def balance_rows_def [abs_def] position_rows_def [abs_def])
  with placeholder_keeps [OF e] settlement_ok [OF assms] show ?thesis by (simp add: keeps_rows_def same_refs_def)
qed

lemma settlement_total: "database_ok d \<Longrightarrow> has_venue d v \<Longrightarrow> \<exists>d'. insert_paper_settlement num now oid v x src d = Inr d'"
  using placeholder_total [of d v oid] by (auto simp: insert_paper_settlement_def)
text \<open>Cash and position of one account on one venue, written in either of the two ways the sink writes them.\<close>

definition rows_set ::
  "(rat \<Rightarrow> rat) \<Rightarrow> string \<Rightarrow> string \<Rightarrow> string \<Rightarrow> rat option \<Rightarrow> rat \<times> rat \<times> rat \<times> rat \<Rightarrow> database \<Rightarrow> database \<Rightarrow> bool" where
  "rows_set num a v oid cash_amount p d d' \<longleftrightarrow> database_ok d' \<and> same_refs d d' \<and>
     (\<forall>a' v'. balance_rows d' a' v' = (case cash_amount of None \<Rightarrow> balance_rows d a' v'
        | Some x \<Rightarrow> if a' = a \<and> v' = v then [num x] else balance_rows d a' v')) \<and>
     (\<forall>a' v' oid'. position_rows d' a' v' oid' = (if a' = a \<and> v' = v \<and> oid' = oid then [in_columns num p] else position_rows d a' v' oid'))"

lemma refs_kept:
  "rows_set num a v oid x p d d' \<Longrightarrow> database_ok d' \<and> has_account d' = has_account d \<and> has_venue d' = has_venue d"
  by (auto simp: rows_set_def same_refs_def has_account_def [abs_def] has_venue_def [abs_def])

lemma rows_set_local: "rows_set num a v oid x p d d' \<Longrightarrow> local_to v d d'"
  by (auto simp: rows_set_def local_to_def split: option.split)

lemma local_to_trans: "local_to v d d1 \<Longrightarrow> local_to v d1 d' \<Longrightarrow> local_to v d d'"
  by (simp add: local_to_def)

lemma position_set:
  assumes "database_ok d" "has_account d a" "has_venue d v"
  shows "\<exists>d'. upsert_paper_position num a v oid q p r f d = Inr d' \<and> rows_set num a v oid None (q, p, r, f) d d'"
proof -
  from upsert_position_total [OF assms] obtain d' where d': "upsert_paper_position num a v oid q p r f d = Inr d'"
    and "same_refs d d'" "balance_rows d' = balance_rows d"
    "\<forall>a' v' oid'. position_rows d' a' v' oid' = (if a' = a \<and> v' = v \<and> oid' = oid then [(num q, num p, num r, num f)] else position_rows d a' v' oid')"
    by blast
  with upsert_position_ok [OF d' assms(1)] show ?thesis by (intro exI [of _ d']) (simp add: rows_set_def)
qed

lemma balance_position_set:
  assumes "database_ok d" "has_account d a" "has_venue d v"
  shows "\<exists>d1 d'. upsert_paper_balance num a v x d = Inr d1 \<and> upsert_paper_position num a v oid q p r f d1 = Inr d' \<and>
    rows_set num a v oid (Some x) (q, p, r, f) d d'"
proof -
  from upsert_balance_total [OF assms] obtain d1 where d1: "upsert_paper_balance num a v x d = Inr d1" and s: "same_refs d d1"
    and b: "position_rows d1 = position_rows d" "\<forall>a' v'. balance_rows d1 a' v' = (if a' = a \<and> v' = v then [num x] else balance_rows d a' v')"
    by blast
  have "has_account d1 a" "has_venue d1 v" using assms(2,3) s by simp_all
  from position_set [OF upsert_balance_ok [OF d1 assms(1)] this] obtain d'
    where d': "upsert_paper_position num a v oid q p r f d1 = Inr d'" "rows_set num a v oid None (q, p, r, f) d1 d'" by blast
  have "rows_set num a v oid (Some x) (q, p, r, f) d d'" using d'(2) s b by (simp add: rows_set_def same_refs_def)
  with d1 d'(1) show ?thesis by blast
qed

text \<open>A list of accounts, each with its cash and its position in the outcome settled.\<close>

definition settled_rows ::
  "(rat \<Rightarrow> rat) \<Rightarrow> string \<Rightarrow> string \<Rightarrow> (string \<times> rat option \<times> rat \<times> rat) list \<Rightarrow> database \<Rightarrow> database \<Rightarrow> bool" where
  "settled_rows num v oid cs d d' \<longleftrightarrow> database_ok d' \<and> same_refs d d' \<and> local_to v d d' \<and>
     (\<forall>a. balance_rows d' a v = (case map_of cs a of Some (Some x, _) \<Rightarrow> [num x] | _ \<Rightarrow> balance_rows d a v)) \<and>
     (\<forall>a oid'. position_rows d' a v oid' = (case map_of cs a of
        Some (_, r, f) \<Rightarrow> if oid' = oid then [in_columns num (0, 0, r, f)] else position_rows d a v oid' | None \<Rightarrow> position_rows d a v oid'))"

lemma settled_refs_kept:
  "settled_rows num v oid cs d d' \<Longrightarrow> database_ok d' \<and> has_account d' = has_account d \<and> has_venue d' = has_venue d"
  by (auto simp: settled_rows_def same_refs_def has_account_def [abs_def] has_venue_def [abs_def])

lemma settled_rows_Nil: "database_ok d \<Longrightarrow> settled_rows num v oid [] d d"
  by (simp add: settled_rows_def same_refs_def local_to_def)

lemma settled_rows_Cons:
  assumes "rows_set num a v oid x (0, 0, r, f) d d1" "settled_rows num v oid cs d1 d'" "a \<notin> fst ` set cs"
  shows "settled_rows num v oid ((a, x, r, f) # cs) d d'"
proof -
  have n: "map_of cs a = None" using assms(3) by (simp add: map_of_eq_None_iff)
  have "balance_rows d' b v = (case map_of ((a, x, r, f) # cs) b of Some (Some x, _) \<Rightarrow> [num x] | _ \<Rightarrow> balance_rows d b v)" for b
    using assms(1,2) n by (auto simp: settled_rows_def rows_set_def split: option.split prod.split)
  moreover have "position_rows d' b v oid' = (case map_of ((a, x, r, f) # cs) b of
        Some (_, r, f) \<Rightarrow> if oid' = oid then [in_columns num (0, 0, r, f)] else position_rows d b v oid' | None \<Rightarrow> position_rows d b v oid')" for b oid'
    using assms(1,2) n by (auto simp: settled_rows_def rows_set_def split: option.split prod.split)
  moreover have "local_to v d d'" using local_to_trans [OF rows_set_local [OF assms(1)]] assms(2) by (simp add: settled_rows_def)
  ultimately show ?thesis using assms(1,2) by (simp add: settled_rows_def rows_set_def same_refs_def)
qed

lemma settle_rows_fold:
  assumes "database_ok d" "has_venue d v" "distinct (map fst cs)" "\<forall>a \<in> fst ` set cs. has_account d a"
  shows "\<exists>d'. foldE (settle_rows num v oid) cs d = Inr d' \<and> settled_rows num v oid (map (\<lambda>(a, x, rf). (a, Some x, rf)) cs) d d'"
  using assms
proof (induction cs arbitrary: d)
  case (Cons c cs)
  obtain a x r f where c: "c = (a, x, r, f)" by (cases c)
  have "has_account d a" using Cons.prems(4) by (simp add: c)
  from balance_position_set [OF Cons.prems(1) this Cons.prems(2), of num x oid 0 0 r f] obtain d1
    where s: "settle_rows num v oid c d = Inr d1" and r1: "rows_set num a v oid (Some x) (0, 0, r, f) d d1"
    by (auto simp: settle_rows_def c)
  have "database_ok d1" "has_venue d1 v" "\<forall>b \<in> fst ` set cs. has_account d1 b"
    using refs_kept [OF r1] Cons.prems(2,4) by simp_all
  with Cons.IH [of d1] Cons.prems(3) obtain d'
    where d': "foldE (settle_rows num v oid) cs d1 = Inr d'" "settled_rows num v oid (map (\<lambda>(a, x, rf). (a, Some x, rf)) cs) d1 d'" by auto
  have "a \<notin> fst ` set (map (\<lambda>(a, x, rf). (a, Some x, rf)) cs)" using Cons.prems(3) by (auto simp: c split_def image_image)
  from settled_rows_Cons [OF r1 d'(2) this] d'(1) s show ?case by (simp add: c)
qed (simp add: settled_rows_Nil)

lemma settled_rows_keeps:
  assumes "settled_rows num v oid cs d d1" "keeps_rows d1 d'"
  shows "settled_rows num v oid cs d d'"
  using assms by (simp add: settled_rows_def keeps_rows_def same_refs_def local_to_def)

text \<open>One event against a database that commits: what is refused leaves the database as it was.\<close>

definition commit :: "(rat \<Rightarrow> rat) \<Rightarrow> int \<Rightarrow> string \<Rightarrow> sink_event \<Rightarrow> database \<Rightarrow> database" where
  "commit num now scope ev d = (case sink_work num now scope ev d of Inl _ \<Rightarrow> d | Inr d' \<Rightarrow> d')"

definition all_commit :: "(nat \<Rightarrow> attempt list) \<Rightarrow> bool" where
  "all_commit answers \<longleftrightarrow> (\<forall>i. fst (write_loop 1 (answers i)))"

lemma sink_writes_commit: "all_commit answers \<Longrightarrow> fst (sink_writes num now scope answers evs dn) = fold (commit num now scope) evs (fst dn)"
proof (induction evs arbitrary: answers dn)
  case (Cons ev evs)
  have "fst (transact (answers 0) (sink_work num now scope ev) dn) = commit num now scope ev (fst dn)"
    using Cons.prems by (cases dn) (auto simp: all_commit_def transact_def run_write_def commit_def Let_def split: sum.split)
  moreover have "all_commit (\<lambda>i. answers (Suc i))" using Cons.prems by (simp add: all_commit_def)
  ultimately show ?case using Cons.IH by simp
qed simp

lemma settled_commit:
  assumes "database_ok d" "has_venue d v" "distinct (map fst cs)" "\<forall>a \<in> fst ` set cs. has_account d a"
  shows "settled_rows num v oid (map (\<lambda>(a, x, rf). (a, Some x, rf)) cs) d (commit num now scope (OnSettled oid y v src cs) d)"
proof -
  from settle_rows_fold [OF assms] obtain d1 where d1: "foldE (settle_rows num v oid) cs d = Inr d1"
    and s: "settled_rows num v oid (map (\<lambda>(a, x, rf). (a, Some x, rf)) cs) d d1" by blast
  from settled_refs_kept [OF s] have "database_ok d1" "has_venue d1 v" using assms(2) by simp_all
  from settlement_total [OF this] obtain d' where d': "insert_paper_settlement num now oid v y src d1 = Inr d'" by blast
  have "commit num now scope (OnSettled oid y v src cs) d = d'" by (simp add: commit_def d1 d')
  with settled_rows_keeps [OF s settlement_keeps [OF d']] show ?thesis by simp
qed

lemma closed_commits:
  assumes "database_ok d" "has_venue d v" "distinct (map fst cs)" "\<forall>a \<in> fst ` set cs. has_account d a"
  shows "settled_rows num v oid (map (\<lambda>(a, r). (a, None, r, 0)) cs) d
    (fold (commit num now scope) (map (\<lambda>(a, r). OnPosition a oid 0 0 r v 0) cs) d)"
  using assms
proof (induction cs arbitrary: d)
  case (Cons c cs)
  obtain a r where c: "c = (a, r)" by (cases c)
  have "has_account d a" using Cons.prems(4) by (simp add: c)
  from position_set [OF Cons.prems(1) this Cons.prems(2), of num oid 0 0 r 0] obtain d1
    where s: "commit num now scope (OnPosition a oid 0 0 r v 0) d = d1" and r1: "rows_set num a v oid None (0, 0, r, 0) d d1"
    by (auto simp: commit_def)
  have "database_ok d1" "has_venue d1 v" "\<forall>b \<in> fst ` set cs. has_account d1 b"
    using refs_kept [OF r1] Cons.prems(2,4) by simp_all
  with Cons.IH [of d1] Cons.prems(3) have "settled_rows num v oid (map (\<lambda>(a, r). (a, None, r, 0)) cs) d1
    (fold (commit num now scope) (map (\<lambda>(a, r). OnPosition a oid 0 0 r v 0) cs) d1)" by simp
  moreover have "a \<notin> fst ` set (map (\<lambda>(a, r). (a, None :: rat option, r, 0 :: rat)) cs)" using Cons.prems(3) by (auto simp: c split_def image_image)
  ultimately have "settled_rows num v oid ((a, None, r, 0) # map (\<lambda>(a, r). (a, None, r, 0)) cs) d
    (fold (commit num now scope) (map (\<lambda>(a, r). OnPosition a oid 0 0 r v 0) cs) d1)" by (rule settled_rows_Cons [OF r1])
  then show ?case by (simp add: c s)
qed (simp add: settled_rows_Nil)

lemma commit_order: "keeps_rows d (commit num now scope (OnOrder ord reason) d)"
  by (auto simp: commit_def order_keeps split: sum.split)

lemma commit_fill: "keeps_rows d (commit num now scope (OnFill ord f) d)"
  by (auto simp: commit_def fill_keeps split: sum.split)

lemma keeps_rows_trans: "keeps_rows d d1 \<Longrightarrow> keeps_rows d1 d' \<Longrightarrow> keeps_rows d d'"
  by (simp add: keeps_rows_def same_refs_def)

lemma filled_commit:
  assumes "database_ok d" "has_account d a" "has_venue d v"
  shows "rows_set num a v oid (Some x) (q, p, r, f) d
    (fold (commit num now scope) [OnOrder ord None, OnFill ord fl, OnBalance a v x, OnPosition a oid q p r v f] d)"
proof -
  define d1 where "d1 = commit num now scope (OnFill ord fl) (commit num now scope (OnOrder ord None) d)"
  have k: "keeps_rows d d1" unfolding d1_def by (rule keeps_rows_trans [OF commit_order commit_fill])
  then have "database_ok d1" "has_account d1 a" "has_venue d1 v"
    using assms by (auto simp: keeps_rows_def same_refs_def has_account_def has_venue_def)
  from balance_position_set [OF this, of num x oid q p r f] obtain d2 d'
    where "upsert_paper_balance num a v x d1 = Inr d2" "upsert_paper_position num a v oid q p r f d2 = Inr d'"
      and s: "rows_set num a v oid (Some x) (q, p, r, f) d1 d'" by blast
  then have "fold (commit num now scope) [OnOrder ord None, OnFill ord fl, OnBalance a v x, OnPosition a oid q p r v f] d = d'"
    by (simp add: d1_def [symmetric]) (simp add: commit_def)
  moreover have "rows_set num a v oid (Some x) (q, p, r, f) d d'" using s k by (simp add: rows_set_def keeps_rows_def same_refs_def)
  ultimately show ?thesis by simp
qed

subsection \<open>What an operation leaves of an account\<close>

text \<open>An operation on one outcome: its position is known afterwards, every other outcome reads as before.\<close>

definition touched :: "string \<Rightarrow> string \<Rightarrow> rat option \<Rightarrow> account_state \<Rightarrow> account_state \<Rightarrow> bool" where
  "touched v oid x st st' \<longleftrightarrow> map_of (ac_positions st') oid \<noteq> None \<and>
     map_of (ac_balances st') v = (case x of None \<Rightarrow> map_of (ac_balances st) v | Some c \<Rightarrow> Some c) \<and>
     (\<forall>o'. o' \<noteq> oid \<longrightarrow> map_of (ac_positions st') o' = map_of (ac_positions st) o' \<and> position_reads st' o' = position_reads st o')"

lemma account_rows_touched:
  assumes "account_rows num v st a d" "touched v oid x st st'"
    and "balance_rows d' a v = (case x of None \<Rightarrow> balance_rows d a v | Some c \<Rightarrow> [num c])"
    and "\<And>o'. position_rows d' a v o' = (if o' = oid then [in_columns num (position_reads st' oid)] else position_rows d a v o')"
  shows "account_rows num v st' a d'"
  using assms by (auto simp: account_rows_def touched_def split: option.split)

lemma account_rows_same:
  assumes "account_rows num v st a d" "balance_rows d' a v = balance_rows d a v" "\<And>o'. position_rows d' a v o' = position_rows d a v o'"
  shows "account_rows num v st a d'"
  using assms by (simp add: account_rows_def)

lemma consume_fees_reads:
  assumes "consume_fees st oid q h = (st', share)" "o' \<noteq> oid"
  shows "dict_get 0 (ac_open_fees st') o' = dict_get 0 (ac_open_fees st) o'"
  using assms by (rule consume_fees_other)

lemma fill_touches:
  "\<exists>c. touched (br_venue br) (il_outcome l) (Some c) st (fill_account br st l px f) \<and> map_of (ac_balances (fill_account br st l px f)) (br_venue br) = Some c"
proof -
  define b where "b = (if il_is_buy l then dsub (venue_cash br st) (dadd (dmul px (il_qty l)) f) else dadd (venue_cash br st) (dsub (dmul px (il_qty l)) f))"
  define s1 where "s1 = set_cash br b (st\<lparr>ac_open_fees := dict_set (il_outcome l) (dadd (dict_get 0 (ac_open_fees st) (il_outcome l)) f) (ac_open_fees st)\<rparr>)"
  have s1: "ac_positions s1 = ac_positions st" "ac_avg_price s1 = ac_avg_price st" "ac_realized_by_outcome s1 = ac_realized_by_outcome st"
    "map_of (ac_balances s1) (br_venue br) = Some b"
    "\<And>o'. o' \<noteq> il_outcome l \<Longrightarrow> dict_get 0 (ac_open_fees s1) o' = dict_get 0 (ac_open_fees st) o'"
    by (simp_all add: s1_def set_cash_def)
  show ?thesis
  proof (cases "il_is_buy l")
    case True
    then have "fill_account br st l px f = acquire s1 (il_outcome l) (il_qty l) px" by (simp add: fill_account_def Let_def s1_def b_def)
    with s1 show ?thesis by (simp add: touched_def acquire_def Let_def position_reads_def)
  next
    case False
    then have f: "fill_account br st l px f = release s1 (il_outcome l) (il_qty l) px" by (simp add: fill_account_def Let_def s1_def b_def)
    obtain s2 share where c: "consume_fees s1 (il_outcome l) (il_qty l) (dict_get 0 (ac_positions s1) (il_outcome l)) = (s2, share)"
      by (cases "consume_fees s1 (il_outcome l) (il_qty l) (dict_get 0 (ac_positions s1) (il_outcome l))")
    from s1 consume_fees_keeps [OF c] consume_fees_reads [OF c] show ?thesis
      by (simp add: f touched_def release_def c [unfolded s1(1)] Let_def position_reads_def book_realized_def)
  qed
qed

lemma settle_touches:
  "touched (br_venue br) oid (Some (venue_cash br (settle_account br oid y st))) st (settle_account br oid y st)"
  "position_reads (settle_account br oid y st) oid = (0, 0, dict_get 0 (ac_realized_by_outcome (settle_account br oid y st)) oid,
     dict_get 0 (ac_open_fees (settle_account br oid y st)) oid)"
proof -
  obtain s2 share where c: "consume_fees st oid (dict_get 0 (ac_positions st) oid) (dict_get 0 (ac_positions st) oid) = (s2, share)"
    by (cases "consume_fees st oid (dict_get 0 (ac_positions st) oid) (dict_get 0 (ac_positions st) oid)")
  from consume_fees_keeps [OF c] consume_fees_reads [OF c]
  show "touched (br_venue br) oid (Some (venue_cash br (settle_account br oid y st))) st (settle_account br oid y st)"
    by (simp add: touched_def settle_account_def c Let_def position_reads_def book_realized_def zero_position_def venue_cash_def set_cash_def)
  show "position_reads (settle_account br oid y st) oid = (0, 0, dict_get 0 (ac_realized_by_outcome (settle_account br oid y st)) oid,
     dict_get 0 (ac_open_fees (settle_account br oid y st)) oid)"
    by (simp add: settle_account_def c Let_def position_reads_def zero_position_def)
qed

lemma close_touches:
  "touched v oid None st (close_account oid st)"
  "position_reads (close_account oid st) oid = (0, 0, dict_get 0 (ac_realized_by_outcome st) oid, 0)"
  by (simp_all add: touched_def close_account_def zero_position_def position_reads_def)

subsection \<open>The mirror\<close>

text \<open>
  The database mirrors a broker: it knows the broker's venue and accounts, and its rows at that venue are the
  accounts. The broker persists to a sink that takes settlements whole, as \<open>AccountScopedSink\<close> does.
\<close>

definition mirrors :: "(rat \<Rightarrow> rat) \<Rightarrow> paper_broker \<Rightarrow> database \<Rightarrow> bool" where
  "mirrors num br d \<longleftrightarrow> database_ok d \<and> has_venue d (br_venue br) \<and> dict_ok (br_accounts br) \<and>
     (\<exists>s. br_sink br = Some s \<and> has_on_settled s) \<and> (\<forall>a \<in> fst ` set (br_accounts br). has_account d a) \<and>
     (\<forall>a. account_rows num (br_venue br) (acct br a) a d)"

definition broker_log :: "paper_broker \<Rightarrow> sink_event list" where
  "broker_log br = (case br_sink br of None \<Rightarrow> [] | Some s \<Rightarrow> sink_log s)"

definition emitted :: "paper_broker \<Rightarrow> paper_broker \<Rightarrow> sink_event list" where
  "emitted br br' = drop (length (broker_log br)) (broker_log br')"

lemma emitted_append:
  "br_sink br = Some s \<Longrightarrow> br_sink br' = Some (s\<lparr>sink_log := sink_log s @ evs\<rparr>) \<Longrightarrow> emitted br br' = evs"
  by (simp add: emitted_def broker_log_def)

lemma mirror_rejected:
  assumes "mirrors num br d" "br_accounts br' = br_accounts br" "br_venue br' = br_venue br" "\<exists>s. br_sink br' = Some s \<and> has_on_settled s"
    and "keeps_rows d d'"
  shows "mirrors num br' d'"
proof -
  have "acct br' = acct br" using assms(2) by (simp add: acct_def [abs_def])
  moreover have "has_account d' = has_account d" "has_venue d' = has_venue d" using assms(5)
    by (auto simp: keeps_rows_def same_refs_def has_account_def [abs_def] has_venue_def [abs_def])
  moreover have "account_rows num v st a d'" if "account_rows num v st a d" for v st a
    using account_rows_same [OF that] assms(5) by (simp add: keeps_rows_def)
  ultimately show ?thesis using assms by (simp add: mirrors_def keeps_rows_def)
qed

lemma mirror_place:
  assumes "mirrors num br d" "has_account d a" "place_order br lk i a t l = (br', r)"
  shows "mirrors num br' (fold (commit num now scope) (emitted br br') d) \<and> local_to (br_venue br) d (fold (commit num now scope) (emitted br br') d)"
proof -
  define v where "v = br_venue br"
  from assms(1) obtain s where s: "br_sink br = Some s" "has_on_settled s" by (auto simp: mirrors_def)
  obtain br1 ord fl reason where f: "apply_fill br lk i a t l = (br1, ord, fl, reason)" by (cases "apply_fill br lk i a t l")
  have br': "br' = fst (emit_order_events br1 a ord fl reason)" using place_order_broker [of br lk i a t l] by (simp add: assms(3) f)
  show ?thesis
  proof (cases fl)
    case None
    with f have b1: "br1 = record_order br ord" using apply_fill_rejected(2) by blast
    have e: "br' = emit [OnOrder ord reason] br1" using s by (simp add: br' None emit_order_events_def b1 record_order_def)
    have "emitted br br' = [OnOrder ord reason]" by (rule emitted_append [OF s(1)]) (simp add: e b1 s emit_def record_order_def)
    moreover have "mirrors num br' (commit num now scope (OnOrder ord reason) d)"
      by (rule mirror_rejected [OF assms(1) _ _ _ commit_order]) (simp_all add: e b1 emit_def record_order_def s)
    ultimately show ?thesis using keeps_rows_local [OF commit_order] by simp
  next
    case (Some fl')
    with f have "apply_fill br lk i a t l = (br1, ord, Some fl', reason)" by simp
    then obtain px where ord: "ord = mk_order br i l FILLED t"
      and b1: "br1 = record_fill (record_order (put_acct br a (fill_account br (acct br a) l px (fill_fee fl'))) ord) fl'"
      by (rule apply_fill_filled) blast
    define st' where "st' = fill_account br (acct br a) l px (fill_fee fl')"
    obtain c where tch: "touched v (il_outcome l) (Some c) (acct br a) st'" and c: "map_of (ac_balances st') v = Some c"
      unfolding v_def st'_def using fill_touches by blast
    have a1: "acct br1 b = (if b = a then st' else acct br b)" for b by (simp add: b1 st'_def)
    have v1: "br_venue br1 = v" "br_sink br1 = Some s" by (simp_all add: b1 v_def s record_fill_def record_order_def put_acct_def)
    obtain q p rl fe where rd: "position_reads st' (il_outcome l) = (q, p, rl, fe)" by (cases "position_reads st' (il_outcome l)")
    define evs where "evs = [OnOrder ord None, OnFill ord fl', OnBalance a v c, OnPosition a (il_outcome l) q p rl v fe]"
    have pe: "position_event br1 a (il_outcome l) st' = OnPosition a (il_outcome l) q p rl v fe"
      using rd by (simp add: position_event_def position_reads_def v1)
    have e: "br' = emit evs br1"
      using c by (simp add: br' Some emit_order_events_def a1 v1 Let_def evs_def emit_def pe [symmetric] ord mk_order_def position_event_def)
    have em: "emitted br br' = evs" by (rule emitted_append [OF s(1)]) (simp add: e v1 emit_def)
    have "database_ok d" "has_venue d v" using assms(1) by (simp_all add: mirrors_def v_def)
    then have rs: "rows_set num a v (il_outcome l) (Some c) (q, p, rl, fe) d (fold (commit num now scope) evs d)"
      unfolding evs_def by (rule filled_commit [OF _ assms(2)])
    define d' where "d' = fold (commit num now scope) evs d"
    note rs = rs [folded d'_def]
    note k = refs_kept [OF rs]
    have acc: "acct br' b = (if b = a then st' else acct br b)" for b by (simp add: e acct_def emit_def flip: a1)
    have old: "account_rows num v (acct br b) b d" for b using assms(1) by (simp add: mirrors_def v_def)
    have "account_rows num v st' a d'"
      by (rule account_rows_touched [OF old tch]) (use rs rd in \<open>simp_all add: rows_set_def\<close>)
    moreover have "account_rows num v (acct br b) b d'" if "b \<noteq> a" for b
      by (rule account_rows_same [OF old]) (use rs that in \<open>simp_all add: rows_set_def\<close>)
    ultimately have "\<forall>b. account_rows num v (acct br' b) b d'" by (simp add: acc)
    moreover have "br_accounts br' = dict_set a st' (br_accounts br)" "br_venue br' = v"
      by (simp_all add: e b1 emit_def record_fill_def record_order_def put_acct_def st'_def v_def)
    moreover have "fst ` set (dict_set a st' (br_accounts br)) = insert a (fst ` set (br_accounts br))" by (simp add: dom_update)
    moreover have "\<exists>s. br_sink br' = Some s \<and> has_on_settled s" using s by (simp add: e v1 emit_def)
    ultimately show ?thesis using assms(1,2) k rows_set_local [OF rs] by (simp add: mirrors_def em d'_def [symmetric] v_def)
  qed
qed

lemma mirror_settled:
  assumes "mirrors num br d" "settled_rows num (br_venue br) oid cs d d'"
    and "br_venue br' = br_venue br" "map fst (br_accounts br') = map fst (br_accounts br)" "\<exists>s. br_sink br' = Some s \<and> has_on_settled s"
    and eff: "\<And>a. case map_of cs a of None \<Rightarrow> acct br' a = acct br a
      | Some (x, r, f) \<Rightarrow> touched (br_venue br) oid x (acct br a) (acct br' a) \<and> position_reads (acct br' a) oid = (0, 0, r, f)"
  shows "mirrors num br' d'"
proof -
  have old: "account_rows num (br_venue br) (acct br a) a d" for a using assms(1) by (simp add: mirrors_def)
  have "account_rows num (br_venue br) (acct br' a) a d'" for a
  proof (cases "map_of cs a")
    case None
    with eff [of a] have "acct br' a = acct br a" by simp
    moreover have "account_rows num (br_venue br) (acct br a) a d'"
      by (rule account_rows_same [OF old]) (use assms(2) None in \<open>simp_all add: settled_rows_def\<close>)
    ultimately show ?thesis by simp
  next
    case (Some c)
    obtain x r f where c: "c = (x, r, f)" by (cases c)
    with eff [of a] Some have e: "touched (br_venue br) oid x (acct br a) (acct br' a)" "position_reads (acct br' a) oid = (0, 0, r, f)" by simp_all
    show ?thesis
      by (rule account_rows_touched [OF old e(1)])
        (use assms(2) Some in \<open>simp_all add: settled_rows_def c e(2) split: option.split\<close>)
  qed
  moreover have "fst ` set (br_accounts br') = fst ` set (br_accounts br)" using assms(4) by (metis list.set_map)
  ultimately show ?thesis using assms settled_refs_kept [OF assms(2)] by (simp add: mirrors_def)
qed

lemma map_of_holders:
  assumes "dict_ok (br_accounts br)"
  shows "map_of (map (\<lambda>(a, st). (a, g st)) (filter (\<lambda>(_, st). holds oid st) (br_accounts br))) a =
    (if holds oid (acct br a) then Some (g (acct br a)) else None)"
  using map_of_filter_dict [OF assms, of "\<lambda>(_, st). holds oid st" a]
  by (auto simp: map_of_map_values acct_def dict_get_def split: option.split)

lemma mirror_settle:
  assumes "mirrors num br d"
  shows "mirrors num (settle_outcome_async br oid y src) (fold (commit num now scope) (emitted br (settle_outcome_async br oid y src)) d) \<and>
    local_to (br_venue br) d (fold (commit num now scope) (emitted br (settle_outcome_async br oid y src)) d)"
proof -
  define br' where "br' = settle_outcome_async br oid y src"
  define closed where "closed = closed_accounts br oid y"
  from assms obtain s where s: "br_sink br = Some s" "has_on_settled s" and ok: "dict_ok (br_accounts br)" by (auto simp: mirrors_def)
  have snk: "br_sink br' = Some (s\<lparr>sink_log := sink_log s @ [OnSettled oid y (br_venue br) src closed]\<rparr>)"
    using s by (simp add: br'_def closed_def settle_outcome_async_def Let_def emit_def)
  have em: "emitted br br' = [OnSettled oid y (br_venue br) src closed]" by (rule emitted_append [OF s(1) snk])
  have keys: "map fst closed = map fst (filter (\<lambda>(_, st). holds oid st) (br_accounts br))"
    by (simp add: closed_def closed_accounts_def Let_def split_def comp_def)
  then have d: "distinct (map fst closed)" using ok by (simp add: distinct_map_filter)
  have "fst ` set closed \<subseteq> fst ` set (br_accounts br)" using arg_cong [OF keys, of set] by auto
  moreover have "\<forall>a \<in> fst ` set (br_accounts br). has_account d a" "database_ok d" "has_venue d (br_venue br)"
    using assms unfolding mirrors_def by blast+
  ultimately have known: "\<forall>a \<in> fst ` set closed. has_account d a" "database_ok d" "has_venue d (br_venue br)" 
    by (blast dest: subsetD)+
  then have sr: "settled_rows num (br_venue br) oid (map (\<lambda>(a, x, rf). (a, Some x, rf)) closed) d (fold (commit num now scope) (emitted br br') d)"
    using d unfolding em by (simp only: fold.simps comp_apply id_apply) (rule settled_commit [OF known(2,3) d known(1)])
  have acc: "acct br' a = settle_if_held br oid y (acct br a)" for a
    using acct_settle [of br oid y a] by (simp add: br'_def acct_def settle_async_accounts)
  define g where "g st = (let st' = settle_account br oid y st in
     (Some (venue_cash br st'), dict_get 0 (ac_realized_by_outcome st') oid, dict_get 0 (ac_open_fees st') oid))" for st :: account_state
  have "map (\<lambda>(a, x, rf). (a, Some x, rf)) closed = map (\<lambda>(a, st). (a, g st)) (filter (\<lambda>(_, st). holds oid st) (br_accounts br))"
    by (simp add: closed_def closed_accounts_def g_def Let_def split_def comp_def)
  then have m: "map_of (map (\<lambda>(a, x, rf). (a, Some x, rf)) closed) a = (if holds oid (acct br a) then Some (g (acct br a)) else None)" for a
    by (simp only: map_of_holders [OF ok])
  have kept: "br_venue br' = br_venue br" "map fst (br_accounts br') = map fst (br_accounts br)"
    by (simp_all add: br'_def settle_async_accounts settle_outcome_def split_def comp_def)
  have "mirrors num br' (fold (commit num now scope) (emitted br br') d)"
    by (rule mirror_settled [OF assms sr kept]) (use s in \<open>auto simp: snk m acc g_def Let_def settle_if_held_def settle_touches\<close>)
  with sr show ?thesis by (simp add: br'_def settled_rows_def)
qed

lemma mirror_close:
  assumes "mirrors num br d" "close_already_settled br oid = (br', k)"
  shows "mirrors num br' (fold (commit num now scope) (emitted br br') d) \<and> local_to (br_venue br) d (fold (commit num now scope) (emitted br br') d)"
proof -
  define held where "held = map (\<lambda>(a, st). (a, dict_get 0 (ac_realized_by_outcome st) oid)) (filter (\<lambda>(_, st). holds oid st) (br_accounts br))"
  define evs where "evs = map (\<lambda>(a, r). OnPosition a oid 0 0 r (br_venue br) 0) held"
  from assms obtain s where s: "br_sink br = Some s" "has_on_settled s" and ok: "dict_ok (br_accounts br)" by (auto simp: mirrors_def)
  have br': "br' = emit evs (br\<lparr>br_accounts := map (\<lambda>(a, st). (a, if holds oid st then close_account oid st else st)) (br_accounts br)\<rparr>)"
    using assms(2) by (auto simp: close_already_settled_def Let_def evs_def held_def split_def comp_def)
  have snk: "br_sink br' = Some (s\<lparr>sink_log := sink_log s @ evs\<rparr>)" by (simp add: br' s emit_def)
  have em: "emitted br br' = evs" by (rule emitted_append [OF s(1) snk])
  have keys: "map fst held = map fst (filter (\<lambda>(_, st). holds oid st) (br_accounts br))" by (simp add: held_def split_def comp_def)
  then have d: "distinct (map fst held)" using ok by (simp add: distinct_map_filter)
  have "fst ` set held \<subseteq> fst ` set (br_accounts br)" using arg_cong [OF keys, of set] by auto
  moreover have "\<forall>a \<in> fst ` set (br_accounts br). has_account d a" "database_ok d" "has_venue d (br_venue br)"
    using assms(1) unfolding mirrors_def by blast+
  ultimately have known: "\<forall>a \<in> fst ` set held. has_account d a" "database_ok d" "has_venue d (br_venue br)" 
    by (blast dest: subsetD)+
  then have sr: "settled_rows num (br_venue br) oid (map (\<lambda>(a, r). (a, None, r, 0)) held) d (fold (commit num now scope) (emitted br br') d)"
    using d unfolding em evs_def by (intro closed_commits)
  have acc: "acct br' a = (if holds oid (acct br a) then close_account oid (acct br a) else acct br a)" for a
    using acct_close [of br oid a] by (simp add: assms(2))
  define g where "g st = (None :: rat option, dict_get 0 (ac_realized_by_outcome st) oid, 0 :: rat)" for st :: account_state
  have "map (\<lambda>(a, r). (a, None, r, 0)) held = map (\<lambda>(a, st). (a, g st)) (filter (\<lambda>(_, st). holds oid st) (br_accounts br))"
    by (simp add: held_def g_def split_def comp_def)
  then have m: "map_of (map (\<lambda>(a, r). (a, None, r, 0)) held) a = (if holds oid (acct br a) then Some (g (acct br a)) else None)" for a
    by (simp only: map_of_holders [OF ok])
  have kept: "br_venue br' = br_venue br" "map fst (br_accounts br') = map fst (br_accounts br)"
    by (simp_all add: br' emit_def split_def comp_def)
  have "mirrors num br' (fold (commit num now scope) (emitted br br') d)"
    by (rule mirror_settled [OF assms(1) sr kept]) (use s in \<open>auto simp: snk m acc g_def close_touches\<close>)
  with sr show ?thesis by (simp add: settled_rows_def)
qed

subsection \<open>Sweeps\<close>

text \<open>What a sweep does to a broker: only the account's cash moved.\<close>

definition moved_cash :: "string \<Rightarrow> paper_broker \<Rightarrow> paper_broker \<Rightarrow> bool" where
  "moved_cash a br br' \<longleftrightarrow> br_venue br' = br_venue br \<and> br_sink br' = br_sink br \<and> (dict_ok (br_accounts br) \<longrightarrow> dict_ok (br_accounts br')) \<and>
     fst ` set (br_accounts br') \<subseteq> insert a (fst ` set (br_accounts br)) \<and> (\<forall>b. b \<noteq> a \<longrightarrow> acct br' b = acct br b) \<and>
     ac_positions (acct br' a) = ac_positions (acct br a) \<and> position_reads (acct br' a) = position_reads (acct br a) \<and>
     map_of (ac_balances (acct br' a)) (br_venue br) = Some (cash br' a)"

lemma moved_cash_trans: "moved_cash a br br1 \<Longrightarrow> moved_cash a br1 br' \<Longrightarrow> moved_cash a br br'"
proof -
  assume m: "moved_cash a br br1" "moved_cash a br1 br'"
  then have "fst ` set (br_accounts br') \<subseteq> insert a (fst ` set (br_accounts br))" unfolding moved_cash_def by blast
  with m show "moved_cash a br br'" by (simp add: moved_cash_def)
qed

lemma put_cash_moves: "moved_cash a br (put_acct br a (set_cash br x (acct br a)))"
  by (auto simp: moved_cash_def put_acct_def position_reads_def [abs_def] set_cash_def acct_def cash_def venue_cash_def dict_get_def dom_update)

lemma deposit_moves: "moved_cash a br (deposit br a x)"
  by (simp add: deposit_def put_cash_moves)

lemma withdraw_moves: "withdraw br a x = (br', ok) \<Longrightarrow> if ok then moved_cash a br br' else br' = br"
  by (auto simp: withdraw_def Let_def put_cash_moves split: if_splits)

definition swept :: "string \<Rightarrow> string set \<Rightarrow> brokers \<Rightarrow> brokers \<Rightarrow> bool" where
  "swept a T bs bs' \<longleftrightarrow> map fst bs' = map fst bs \<and> (\<forall>v. case map_of bs v of None \<Rightarrow> v \<notin> T
     | Some br \<Rightarrow> \<exists>br'. map_of bs' v = Some br' \<and> (if v \<in> T then moved_cash a br br' else br' = br))"

lemma swept_refl: "swept a {} bs bs"
  by (simp add: swept_def split: option.split)

lemma swept_Some:
  assumes "swept a T bs bs'" "map_of bs v = Some br"
  obtains br' where "map_of bs' v = Some br'" "if v \<in> T then moved_cash a br br' else br' = br"
proof -
  have "case map_of bs v of None \<Rightarrow> v \<notin> T
     | Some br \<Rightarrow> \<exists>br'. map_of bs' v = Some br' \<and> (if v \<in> T then moved_cash a br br' else br' = br)"
    using assms(1) unfolding swept_def by blast
  with assms(2) that show thesis by auto
qed

lemma swept_None: "swept a T bs bs' \<Longrightarrow> map_of bs v = None \<Longrightarrow> map_of bs' v = None"
  unfolding swept_def map_of_eq_None_iff list.set_map [symmetric] by (elim conjE) (simp only: simp_thms)

lemma swept_in:
  assumes "swept a T bs bs'" "v \<in> T"
  shows "map_of bs v \<noteq> None"
proof
  assume n: "map_of bs v = None"
  have "case map_of bs v of None \<Rightarrow> v \<notin> T
     | Some br \<Rightarrow> \<exists>br'. map_of bs' v = Some br' \<and> (if v \<in> T then moved_cash a br br' else br' = br)"
    using assms(1) unfolding swept_def by blast
  with n assms(2) show False by simp
qed

lemma swept_trans:
  assumes "swept a T bs bs1" "swept a U bs1 bs'"
  shows "swept a (T \<union> U) bs bs'"
proof -
  have "case map_of bs v of None \<Rightarrow> v \<notin> T \<union> U
     | Some br \<Rightarrow> \<exists>br'. map_of bs' v = Some br' \<and> (if v \<in> T \<union> U then moved_cash a br br' else br' = br)" for v
  proof (cases "map_of bs v")
    case None
    with assms(1) have "v \<notin> T" by (auto simp: swept_def dest: spec [of _ v])
    moreover have "map_of bs1 v = None" by (rule swept_None [OF assms(1) None])
    then have "v \<notin> U" using assms(2) by (auto simp: swept_def dest: spec [of _ v])
    ultimately show ?thesis using None by simp
  next
    case (Some br)
    with assms(1) obtain b1 where 1: "map_of bs1 v = Some b1" "if v \<in> T then moved_cash a br b1 else b1 = br" by (rule swept_Some)
    from assms(2) 1(1) obtain b' where 2: "map_of bs' v = Some b'" "if v \<in> U then moved_cash a b1 b' else b' = b1" by (rule swept_Some)
    from 1(2) 2(2) have "if v \<in> T \<union> U then moved_cash a br b' else b' = br" by (auto intro: moved_cash_trans split: if_splits)
    with Some 2(1) show ?thesis by simp
  qed
  with assms show ?thesis by (simp add: swept_def)
qed

lemma swept_set:
  assumes "map_of bs v = Some br" "moved_cash a br br'"
  shows "swept a {v} bs (dict_set v br' bs)"
proof -
  have "v \<in> set (map fst bs)" using assms(1) by (force dest: map_of_SomeD)
  then have "map fst (dict_set v br' bs) = map fst bs" by (simp add: update_keys)
  moreover have "case map_of bs w of None \<Rightarrow> w \<notin> {v}
     | Some b \<Rightarrow> \<exists>b'. map_of (dict_set v br' bs) w = Some b' \<and> (if w \<in> {v} then moved_cash a b b' else b' = b)" for w
    using assms by (cases "map_of bs w") auto
  ultimately show ?thesis by (simp add: swept_def)
qed

lemma dict_set_same: "map_of bs v = Some br \<Longrightarrow> dict_set v br bs = bs"
  by (induction bs) auto

lemma apply_transfer_swept:
  assumes "apply_transfer a t bs = (bs', ok)"
  shows "swept a (if ok then {from_venue t, to_venue t} else {}) bs bs'"
proof (cases ok)
  case False
  with assms have "bs' = bs"
    by (auto simp: apply_transfer_def Let_def dict_set_same split: option.splits prod.splits bool.splits dest!: withdraw_moves)
  with False show ?thesis by (simp add: swept_refl)
next
  case True
  with assms obtain src src' where f: "map_of bs (from_venue t) = Some src" "withdraw src a (tr_amount t) = (src', True)"
    and t: "map_of bs (to_venue t) \<noteq> None"
    and b: "bs' = (case map_of (dict_set (from_venue t) src' bs) (to_venue t) of None \<Rightarrow> dict_set (from_venue t) src' bs
       | Some dst \<Rightarrow> dict_set (to_venue t) (deposit dst a (tr_amount t)) (dict_set (from_venue t) src' bs))"
    by (auto simp: apply_transfer_def Let_def split: option.splits prod.splits bool.splits)
  define bs1 where "bs1 = dict_set (from_venue t) src' bs"
  from withdraw_moves [OF f(2)] have s1: "swept a {from_venue t} bs bs1" unfolding bs1_def by (intro swept_set [OF f(1)]) simp
  from t obtain dst where d: "map_of bs1 (to_venue t) = Some dst" by (cases "map_of bs1 (to_venue t)") (auto simp: bs1_def split: if_splits)
  then have "bs' = dict_set (to_venue t) (deposit dst a (tr_amount t)) bs1" using b by (simp add: bs1_def)
  with swept_trans [OF s1 swept_set [OF d deposit_moves]] True show ?thesis by (simp add: insert_commute)
qed

lemma apply_transfers_swept:
  "apply_transfers a plan bs = (bs', moved) \<Longrightarrow> swept a (from_venue ` set moved \<union> to_venue ` set moved) bs bs'"
proof (induction plan arbitrary: bs moved)
  case (Cons t plan)
  obtain bs1 ok where 1: "apply_transfer a t bs = (bs1, ok)" by (cases "apply_transfer a t bs")
  with Cons.prems obtain moved1 where 2: "apply_transfers a plan bs1 = (bs', moved1)" "moved = (if ok then t # moved1 else moved1)"
    by (auto split: prod.splits)
  have "(if ok then {from_venue t, to_venue t} else {}) \<union> (from_venue ` set moved1 \<union> to_venue ` set moved1) =
    from_venue ` set moved \<union> to_venue ` set moved" by (auto simp: 2(2))
  with swept_trans [OF apply_transfer_swept [OF 1] Cons.IH [OF 2(1)]] show ?case by metis
qed (simp add: swept_refl)
text \<open>\<open>_persist\<close> of \<open>cash_sweep_service.py\<close>: the transfers and every touched balance in one transaction.\<close>

definition sweep_work :: "(rat \<Rightarrow> rat) \<Rightarrow> string \<Rightarrow> cash_transfer list \<Rightarrow> (string \<times> rat) list \<Rightarrow> database \<Rightarrow> database db_res" where
  "sweep_work num a moved amounts d =
     bindE (foldE (\<lambda>t. insert_paper_transfer num a (from_venue t) (to_venue t) (tr_amount t) ''sweep'') moved d)
       (foldE (\<lambda>(v, x). upsert_paper_balance num a v x) amounts)"

lemma transfers_fold:
  assumes "database_ok d" "has_account d a" "\<forall>t \<in> set moved. has_venue d (from_venue t) \<and> has_venue d (to_venue t)"
  shows "\<exists>d'. foldE (\<lambda>t. insert_paper_transfer num a (from_venue t) (to_venue t) (tr_amount t) src) moved d = Inr d' \<and> keeps_rows d d'"
  using assms
proof (induction moved arbitrary: d)
  case (Cons t moved)
  obtain d1 where 1: "insert_paper_transfer num a (from_venue t) (to_venue t) (tr_amount t) src d = Inr d1"
    and e: "\<exists>r. d1 = d\<lparr>db_transfers := db_transfers d @ [r]\<rparr>"
    using Cons.prems(2,3) by (auto simp: insert_paper_transfer_def require_def)
  have k: "keeps_rows d d1" using e insert_transfer_ok [OF 1]
    by (auto simp: keeps_rows_def same_refs_def balance_rows_def [abs_def] position_rows_def [abs_def])
  have "database_ok d1" "has_account d1 a" "\<forall>t \<in> set moved. has_venue d1 (from_venue t) \<and> has_venue d1 (to_venue t)"
    using k Cons.prems by (auto simp: keeps_rows_def same_refs_def has_account_def has_venue_def)
  with Cons.IH obtain d' where "foldE (\<lambda>t. insert_paper_transfer num a (from_venue t) (to_venue t) (tr_amount t) src) moved d1 = Inr d'" "keeps_rows d1 d'"
    by blast
  with 1 keeps_rows_trans [OF k] show ?case by auto
qed simp

definition balances_set :: "(rat \<Rightarrow> rat) \<Rightarrow> string \<Rightarrow> (string \<times> rat) list \<Rightarrow> database \<Rightarrow> database \<Rightarrow> bool" where
  "balances_set num a amounts d d' \<longleftrightarrow> database_ok d' \<and> same_refs d d' \<and> position_rows d' = position_rows d \<and>
     (\<forall>b v. balance_rows d' b v = (case map_of amounts v of None \<Rightarrow> balance_rows d b v | Some x \<Rightarrow> if b = a then [num x] else balance_rows d b v))"

lemma balances_fold:
  assumes "database_ok d" "has_account d a" "\<forall>v \<in> fst ` set amounts. has_venue d v" "distinct (map fst amounts)"
  shows "\<exists>d'. foldE (\<lambda>(v, x). upsert_paper_balance num a v x) amounts d = Inr d' \<and> balances_set num a amounts d d'"
  using assms
proof (induction amounts arbitrary: d)
  case (Cons c amounts)
  obtain v x where c: "c = (v, x)" by (cases c)
  have "has_venue d v" using Cons.prems(3) by (simp add: c)
  from upsert_balance_total [OF Cons.prems(1,2) this, of num x] obtain d1 where 1: "upsert_paper_balance num a v x d = Inr d1"
    and r: "same_refs d d1" "position_rows d1 = position_rows d" "\<forall>a' v'. balance_rows d1 a' v' = (if a' = a \<and> v' = v then [num x] else balance_rows d a' v')"
    by blast
  have "database_ok d1" by (rule upsert_balance_ok [OF 1 Cons.prems(1)])
  moreover have "has_account d1 a" "\<forall>v \<in> fst ` set amounts. has_venue d1 v"
    using r(1) Cons.prems(2,3) by (auto simp: same_refs_def has_account_def has_venue_def)
  ultimately obtain d' where 2: "foldE (\<lambda>(v, x). upsert_paper_balance num a v x) amounts d1 = Inr d'" "balances_set num a amounts d1 d'"
    using Cons.IH [of d1] Cons.prems(4) by (auto simp: c)
  have "map_of amounts v = None" using Cons.prems(4) by (simp add: c map_of_eq_None_iff)
  then have "balances_set num a (c # amounts) d d'"
    using 2(2) r by (simp add: balances_set_def c same_refs_def split: option.split)
  moreover have "foldE (\<lambda>(v, x). upsert_paper_balance num a v x) (c # amounts) d = Inr d'" using 1 2(1) by (simp add: c)
  ultimately show ?case by blast
next
  case Nil
  have "balances_set num a [] d d" using Nil(1) by (simp add: balances_set_def same_refs_def)
  then show ?case by (intro exI [of _ d] conjI) simp_all
qed

lemma sweep_work_sets:
  assumes "database_ok d" "has_account d a" "\<forall>t \<in> set moved. has_venue d (from_venue t) \<and> has_venue d (to_venue t)"
    and "\<forall>v \<in> fst ` set amounts. has_venue d v" "distinct (map fst amounts)"
  shows "\<exists>d'. sweep_work num a moved amounts d = Inr d' \<and> balances_set num a amounts d d'"
proof -
  from transfers_fold [OF assms(1,2,3), of num "''sweep''"] obtain d1
    where 1: "foldE (\<lambda>t. insert_paper_transfer num a (from_venue t) (to_venue t) (tr_amount t) ''sweep'') moved d = Inr d1" and k: "keeps_rows d d1"
    by blast
  have "database_ok d1" "has_account d1 a" "\<forall>v \<in> fst ` set amounts. has_venue d1 v"
    using k assms by (auto simp: keeps_rows_def same_refs_def has_account_def has_venue_def)
  from balances_fold [OF this assms(5), of num] obtain d' where 2: "foldE (\<lambda>(v, x). upsert_paper_balance num a v x) amounts d1 = Inr d'"
    "balances_set num a amounts d1 d'" by blast
  have "balances_set num a amounts d d'" using 2(2) k by (simp add: balances_set_def keeps_rows_def same_refs_def split: option.split)
  with 1 2(1) show ?thesis by (simp add: sweep_work_def)
qed

lemma mirror_swept:
  assumes "mirrors num br d" "moved_cash a br br'" "balances_set num a amounts d d'" "map_of amounts (br_venue br) = Some (cash br' a)" "has_account d a"
  shows "mirrors num br' d'"
proof -
  have old: "account_rows num (br_venue br) (acct br b) b d" for b using assms(1) by (simp add: mirrors_def)
  have refs: "has_account d' = has_account d" "has_venue d' = has_venue d" using assms(3)
    by (auto simp: balances_set_def same_refs_def has_account_def [abs_def] has_venue_def [abs_def])
  have "account_rows num (br_venue br) (acct br' b) b d'" for b
  proof (cases "b = a")
    case True
    with old [of a] assms(2,3,4) show ?thesis by (simp add: account_rows_def moved_cash_def balances_set_def)
  next
    case False
    then have "acct br' b = acct br b" using assms(2) by (simp add: moved_cash_def)
    moreover have "account_rows num (br_venue br) (acct br b) b d'"
      by (rule account_rows_same [OF old]) (use assms(3) False in \<open>auto simp: balances_set_def split: option.split\<close>)
    ultimately show ?thesis by simp
  qed
  moreover have "has_account d b" if "b \<in> fst ` set (br_accounts br')" for b
  proof -
    have "b \<in> insert a (fst ` set (br_accounts br))" using assms(2) that unfolding moved_cash_def by (elim conjE) (rule subsetD)
    moreover have "\<forall>b \<in> fst ` set (br_accounts br). has_account d b" using assms(1) unfolding mirrors_def by (elim conjE)
    ultimately show ?thesis using assms(5) by blast
  qed
  moreover have "database_ok d'" using assms(3) by (simp add: balances_set_def)
  ultimately show ?thesis using assms(1,2) refs by (simp add: mirrors_def moved_cash_def)
qed

lemma mirror_elsewhere:
  assumes "mirrors num br d" "database_ok d'" "same_refs d d'"
    and "\<And>b. balance_rows d' b (br_venue br) = balance_rows d b (br_venue br)" "\<And>b oid. position_rows d' b (br_venue br) oid = position_rows d b (br_venue br) oid"
  shows "mirrors num br d'"
proof -
  have refs: "has_account d' = has_account d" "has_venue d' = has_venue d" using assms(3)
    by (auto simp: same_refs_def has_account_def [abs_def] has_venue_def [abs_def])
  have "account_rows num (br_venue br) (acct br b) b d'" for b
    by (rule account_rows_same) (use assms in \<open>simp_all add: mirrors_def\<close>)
  with assms(1,2) refs show ?thesis by (simp add: mirrors_def)
qed

subsection \<open>The books and the database\<close>

text \<open>Every venue's broker is mirrored.\<close>

definition mirrored :: "(rat \<Rightarrow> rat) \<Rightarrow> brokers \<Rightarrow> database \<Rightarrow> bool" where
  "mirrored num bs d \<longleftrightarrow> dict_ok bs \<and> database_ok d \<and> (\<forall>v br. map_of bs v = Some br \<longrightarrow> br_venue br = v \<and> mirrors num br d)"

definition persist ::
  "(rat \<Rightarrow> rat) \<Rightarrow> int \<Rightarrow> string \<Rightarrow> (nat \<Rightarrow> attempt list) \<Rightarrow> paper_broker \<Rightarrow> paper_broker \<Rightarrow> database \<times> nat \<Rightarrow> database \<times> nat" where
  "persist num now scope answers br br' = sink_writes num now scope answers (emitted br br')"

text \<open>The transactions of the entries a sweep added to its log\<close>

definition sweep_writes :: "(rat \<Rightarrow> rat) \<Rightarrow> attempt list \<Rightarrow> sweep \<Rightarrow> sweep \<Rightarrow> database \<times> nat \<Rightarrow> database \<times> nat" where
  "sweep_writes num answers sw sw' = fold (\<lambda>(a, moved, amounts). transact answers (sweep_work num a moved amounts))
     (drop (length (sw_writes sw)) (sw_writes sw'))"

text \<open>
  What changes the books, each with the transactions it asks for. The database answers every transaction within
  its attempts; what it then refuses is dropped. Orders and sweeps are for an account the database knows.
\<close>

inductive recorded :: "(rat \<Rightarrow> rat) \<Rightarrow> brokers \<times> database \<times> nat \<Rightarrow> brokers \<times> database \<times> nat \<Rightarrow> bool" for num where
  rec_place: "map_of bs v = Some br \<Longrightarrow> all_commit answers \<Longrightarrow> has_account (fst dn) a \<Longrightarrow> place_order br lk i a t l = (br', r) \<Longrightarrow>
    recorded num (bs, dn) (dict_set v br' bs, persist num now scope answers br br' dn)"
| rec_settle: "map_of bs v = Some br \<Longrightarrow> all_commit answers \<Longrightarrow> br' = settle_outcome_async br oid x src \<Longrightarrow>
    recorded num (bs, dn) (dict_set v br' bs, persist num now scope answers br br' dn)"
| rec_close: "map_of bs v = Some br \<Longrightarrow> all_commit answers \<Longrightarrow> close_already_settled br oid = (br', k) \<Longrightarrow>
    recorded num (bs, dn) (dict_set v br' bs, persist num now scope answers br br' dn)"
| rec_sweep: "sw_brokers sw = bs \<Longrightarrow> fst (write_loop 1 answer) \<Longrightarrow> has_account (fst dn) a \<Longrightarrow> sweep_account least a sw = (sw', moved) \<Longrightarrow>
    recorded num (bs, dn) (sw_brokers sw', sweep_writes num answer sw sw' dn)"

lemma bindE_InrE: "bindE m f = Inr b \<Longrightarrow> (\<And>a. m = Inr a \<Longrightarrow> f a = Inr b \<Longrightarrow> P) \<Longrightarrow> P"
  by (auto simp: res_simps)

lemma upsert_balance_refs:
  assumes "upsert_paper_balance num a v x d = Inr d'"
  shows "same_refs d d'"
proof -
  from assms have "\<exists>rows. d' = d\<lparr>db_balances := rows\<rparr>" unfolding upsert_paper_balance_def by (rule bindE_InrE) auto
  then show ?thesis by (auto simp: same_refs_def)
qed

lemma upsert_position_refs:
  assumes "upsert_paper_position num a v oid q p r f d = Inr d'"
  shows "same_refs d d'"
proof -
  from assms obtain d1 where e: "ensure_outcome_placeholder oid v d = Inr d1" and "\<exists>rows. d' = d1\<lparr>db_positions := rows\<rparr>"
    unfolding upsert_paper_position_def by (elim bindE_InrE) auto
  with placeholder_keeps [OF e] show ?thesis by (auto simp: keeps_rows_def same_refs_def)
qed

lemma same_refs_trans: "same_refs d d1 \<Longrightarrow> same_refs d1 d' \<Longrightarrow> same_refs d d'"
  by (simp add: same_refs_def)

lemma same_refs_refl [simp]: "same_refs d d"
  by (simp add: same_refs_def)

lemma settle_fold_refs: "foldE (settle_rows num v oid) cs d = Inr d' \<Longrightarrow> same_refs d d'"
  by (rule foldE_invariant [of "settle_rows num v oid" cs d d' "same_refs d"])
    (auto simp: settle_rows_def elim!: bindE_InrE intro: same_refs_trans [OF same_refs_trans] upsert_balance_refs upsert_position_refs)

lemma commit_refs: "same_refs d (commit num now scope ev d)"
proof (cases "sink_work num now scope ev d")
  case (Inr d')
  have "same_refs d d'"
  proof (cases ev)
    case (OnSettled oid y v src cs)
    with Inr obtain d1 where "foldE (settle_rows num v oid) cs d = Inr d1" "insert_paper_settlement num now oid v y src d1 = Inr d'"
      by (auto simp: res_simps)
    with settle_fold_refs settlement_keeps show ?thesis by (metis keeps_rows_def same_refs_trans)
  qed (use Inr in \<open>auto dest: order_keeps fill_keeps settlement_keeps upsert_balance_refs upsert_position_refs simp: keeps_rows_def\<close>)
  with Inr show ?thesis by (simp add: commit_def)
qed (simp add: commit_def)

lemma commits_refs: "same_refs d (fold (commit num now scope) evs d)"
  by (induction evs arbitrary: d) (auto intro: same_refs_trans commit_refs)

lemma mirrored_update:
  assumes "mirrored num bs d" "map_of bs v = Some br" "br_venue br' = br_venue br"
    and "mirrors num br' d' \<and> local_to (br_venue br) d d'" "same_refs d d'"
  shows "mirrored num (dict_set v br' bs) d'"
proof -
  have v: "br_venue br = v" using assms(1,2) by (simp add: mirrored_def)
  have loc: "local_to v d d'" "mirrors num br' d'" using assms(4) v by simp_all
  have "br_venue b = w \<and> mirrors num b d'" if "map_of (dict_set v br' bs) w = Some b" for w b
  proof (cases "w = v")
    case True
    with that have "b = br'" by simp
    with True assms(3) v loc(2) show ?thesis by simp
  next
    case False
    with that have "map_of bs w = Some b" by simp
    with assms(1) have b: "br_venue b = w" "mirrors num b d" by (simp_all add: mirrored_def)
    have ok: "database_ok d'" using loc(2) by (simp add: mirrors_def)
    have "mirrors num b d'"
      by (rule mirror_elsewhere [OF b(2) ok assms(5)]) (use loc(1) False b(1) in \<open>simp_all add: local_to_def\<close>)
    with b(1) show ?thesis by simp
  qed
  moreover have "dict_ok (dict_set v br' bs)" using assms(1) by (simp add: mirrored_def)
  moreover have "database_ok d'" using loc(2) by (simp add: mirrors_def)
  ultimately show ?thesis unfolding mirrored_def by blast
qed

lemma mirrored_sweep:
  assumes "mirrored num (sw_brokers sw) (fst dn)" "fst (write_loop 1 answer)" "has_account (fst dn) a" "sweep_account least a sw = (sw', r)"
  shows "mirrored num (sw_brokers sw') (fst (sweep_writes num answer sw sw' dn))"
proof (cases "sw' = sw")
  case True
  with assms(1) show ?thesis by (simp add: sweep_writes_def)
next
  case False
  with assms(4) obtain plan bs' moved where ap: "apply_transfers a plan (sw_brokers sw) = (bs', moved)"
    and b': "sw_brokers sw' = bs'"
    and w: "if moved = [] then sw_writes sw' = sw_writes sw else sw_writes sw' = sw_writes sw @
      [(a, moved, map (\<lambda>(v, b). (v, cash b a)) (filter (\<lambda>(v, _). v \<in> set (map from_venue moved @ map to_venue moved)) bs'))]"
    by (auto simp: sweep_account_def sweep_persist_def Let_def split: sum.splits if_splits prod.splits)
  define T where "T = from_venue ` set moved \<union> to_venue ` set moved"
  define amounts where "amounts = map (\<lambda>(v, b). (v, cash b a)) (filter (\<lambda>(v, _). v \<in> T) bs')"
  have sp: "swept a T (sw_brokers sw) bs'" unfolding T_def by (rule apply_transfers_swept [OF ap])
  have ok: "dict_ok bs'" using sp assms(1) by (simp add: swept_def mirrored_def)
  have m: "map_of amounts v = (case map_of bs' v of None \<Rightarrow> None | Some b \<Rightarrow> if v \<in> T then Some (cash b a) else None)" for v
    unfolding amounts_def by (auto simp: map_of_map_values map_of_filter_dict [OF ok] split: option.split)
  have "\<exists>d'. fst (sweep_writes num answer sw sw' dn) = d' \<and> balances_set num a amounts (fst dn) d'"
  proof (cases "moved = []")
    case True
    have "amounts = []" by (simp add: amounts_def T_def True)
    then show ?thesis using assms(1) w True by (simp add: sweep_writes_def balances_set_def mirrored_def)
  next
    case False
    have hv: "has_venue (fst dn) v" if "map_of (sw_brokers sw) v \<noteq> None" for v
    proof -
      from that obtain b where "map_of (sw_brokers sw) v = Some b" by blast
      with assms(1) have "br_venue b = v" "mirrors num b (fst dn)" by (simp_all add: mirrored_def)
      then show ?thesis by (simp add: mirrors_def)
    qed
    have T: "map_of (sw_brokers sw) v \<noteq> None" if "v \<in> T" for v
      by (rule swept_in [OF sp that])
    have "\<forall>t \<in> set moved. has_venue (fst dn) (from_venue t) \<and> has_venue (fst dn) (to_venue t)"
      using hv T by (auto simp: T_def)
    moreover have "\<forall>v \<in> fst ` set amounts. has_venue (fst dn) v" using hv T by (auto simp: amounts_def)
    moreover have "distinct (map fst amounts)" using ok by (simp add: amounts_def split_def comp_def distinct_map_filter)
    moreover have "database_ok (fst dn)" using assms(1) by (simp add: mirrored_def)
    ultimately obtain d' where d': "sweep_work num a moved amounts (fst dn) = Inr d'" "balances_set num a amounts (fst dn) d'"
      using sweep_work_sets [OF _ assms(3)] by blast
    have "set (map from_venue moved @ map to_venue moved) = T" by (simp add: T_def)
    with w False have "sw_writes sw' = sw_writes sw @ [(a, moved, amounts)]" by (simp only: amounts_def if_False)
    then have "drop (length (sw_writes sw)) (sw_writes sw') = [(a, moved, amounts)]" by simp
    then have "fst (sweep_writes num answer sw sw' dn) = d'"
      using assms(2) d'(1) by (cases dn) (simp add: sweep_writes_def transact_def run_write_def Let_def)
    with d'(2) show ?thesis by simp
  qed
  then have bs: "balances_set num a amounts (fst dn) (fst (sweep_writes num answer sw sw' dn))" by simp
  have "br_venue b' = v \<and> mirrors num b' (fst (sweep_writes num answer sw sw' dn))" if b: "map_of bs' v = Some b'" for v b'
  proof -
    obtain b where 0: "map_of (sw_brokers sw) v = Some b"
      using swept_None [OF sp, of v] b by (cases "map_of (sw_brokers sw) v") simp_all
    from sp 0 obtain b1 where b1: "map_of bs' v = Some b1" "if v \<in> T then moved_cash a b b1 else b1 = b" by (rule swept_Some)
    have "b1 = b'" using b1(1) b by simp
    then have e: "if v \<in> T then moved_cash a b b' else b' = b" using b1(2) by (rule subst)
    from assms(1) 0 have o: "br_venue b = v" "mirrors num b (fst dn)" by (simp_all add: mirrored_def)
    show ?thesis
    proof (cases "v \<in> T")
      case True
      with e have mc: "moved_cash a b b'" by simp
      have "map_of amounts (br_venue b) = Some (cash b' a)" using m [of v] b True by (simp add: o)
      from mirror_swept [OF o(2) mc bs this assms(3)] mc o(1) show ?thesis by (simp add: moved_cash_def)
    next
      case False
      then have n: "map_of amounts v = None" using m [of v] b by simp
      have "mirrors num b (fst (sweep_writes num answer sw sw' dn))"
        by (rule mirror_elsewhere [OF o(2)]) (use bs n o(1) in \<open>simp_all add: balances_set_def\<close>)
      with e False o(1) show ?thesis by simp
    qed
  qed
  moreover have "database_ok (fst (sweep_writes num answer sw sw' dn))" using bs by (simp add: balances_set_def)
  ultimately show ?thesis using ok by (simp add: mirrored_def b')
qed

lemma apply_fill_venue: "apply_fill br lk i a t l = (br1, ord, fl, r) \<Longrightarrow> br_venue br1 = br_venue br"
  by (auto simp: apply_fill_def Let_def split: sum.splits if_splits)

lemma recorded_mirrored: "recorded num s s' \<Longrightarrow> mirrored num (fst s) (fst (snd s)) \<Longrightarrow> mirrored num (fst s') (fst (snd s'))"
proof (induction rule: recorded.induct)
  case (rec_place bs v br answers dn a lk i t l br' r now scope)
  then have m: "mirrored num bs (fst dn)" "mirrors num br (fst dn)" by (simp_all add: mirrored_def)
  from rec_place(4) have "br_venue br' = br_venue br"
    by (cases "apply_fill br lk i a t l") (use place_order_broker [of br lk i a t l] in \<open>simp add: apply_fill_venue\<close>)
  with mirrored_update [OF m(1) rec_place(1) _ mirror_place [OF m(2) rec_place(3,4)] commits_refs] rec_place(2)
  show ?case by (simp add: persist_def sink_writes_commit)
next
  case (rec_settle bs v br answers br' oid x src dn now scope)
  then have m: "mirrored num bs (fst dn)" "mirrors num br (fst dn)" by (simp_all add: mirrored_def)
  have "br_venue br' = br_venue br" by (simp add: rec_settle(3) settle_async_accounts)
  with mirrored_update [OF m(1) rec_settle(1) _ mirror_settle [OF m(2)] commits_refs] rec_settle(2,3)
  show ?case by (simp add: persist_def sink_writes_commit)
next
  case (rec_close bs v br answers oid br' k dn now scope)
  then have m: "mirrored num bs (fst dn)" "mirrors num br (fst dn)" by (simp_all add: mirrored_def)
  have "br_venue br' = br_venue br" using rec_close(3) by (auto simp: close_already_settled_def Let_def emit_def)
  with mirrored_update [OF m(1) rec_close(1) _ mirror_close [OF m(2) rec_close(3)] commits_refs] rec_close(2)
  show ?case by (simp add: persist_def sink_writes_commit)
next
  case (rec_sweep sw bs answer dn a least sw' moved)
  then have "mirrored num (sw_brokers sw) (fst dn)" by simp
  from mirrored_sweep [OF this rec_sweep(2,3,4)] show ?case by simp
qed

lemma recorded_run_mirrored:
  "(recorded num)\<^sup>*\<^sup>* s s' \<Longrightarrow> mirrored num (fst s) (fst (snd s)) \<Longrightarrow> mirrored num (fst s') (fst (snd s'))"
  by (induction rule: rtranclp_induct) (auto dest: recorded_mirrored)

lemma mirroredD: "mirrored num bs d \<Longrightarrow> map_of bs v = Some br \<Longrightarrow> br_venue br = v \<and> mirrors num br d"
  unfolding mirrored_def by blast


subsection \<open>Restarting\<close>

lemma fold_at_account:
  "map_of (fold (\<lambda>(v, x). at_account_broker (f x) v) xs bs) v = map_option (fold f (map snd (filter (\<lambda>(w, _). w = v) xs))) (map_of bs v)"
proof (induction xs arbitrary: bs)
  case Nil
  show ?case by (cases "map_of bs v") simp_all
next
  case (Cons x xs)
  obtain w y where x: "x = (w, y)" by (cases x)
  have "map_of (at_account_broker (f y) w bs) v = (if w = v then map_option (f y) (map_of bs v) else map_of bs v)"
    by (auto simp: at_account_broker_def split: option.split)
  with Cons show ?case by (simp add: x option.map_comp comp_def)
qed

lemma reads_hydrate:
  "position_reads (acct (hydrate_position br a oid q p r f) a) oid' = (if oid' = oid then (q, p, r, f) else position_reads (acct br a) oid')"
  "cash (hydrate_position br a oid q p r f) a = cash br a"
  by (simp_all add: hydrate_position_def Let_def position_reads_def cash_def venue_cash_def)

lemma reads_hydrate_balance:
  "position_reads (acct (hydrate_balance br a x) a) oid = position_reads (acct br a) oid" "cash (hydrate_balance br a x) a = x"
  by (simp_all add: hydrate_balance_def position_reads_def cash_def set_cash_def venue_cash_def)

definition hydrate_row :: "string \<Rightarrow> string \<times> rat \<times> rat \<times> rat \<times> rat \<Rightarrow> paper_broker \<Rightarrow> paper_broker" where
  "hydrate_row a x br = (case x of (oid, q, p, r, f) \<Rightarrow> hydrate_position br a oid q p r f)"

lemma fold_hydrate_rows:
  "position_reads (acct (fold (hydrate_row a) xs br) a) oid = (case map_of (rev xs) oid of None \<Rightarrow> position_reads (acct br a) oid | Some p \<Rightarrow> p) \<and>
   cash (fold (hydrate_row a) xs br) a = cash br a"
proof (induction xs arbitrary: br)
  case (Cons x xs)
  obtain oid' q p r f where x: "x = (oid', q, p, r, f)" by (cases x)
  have "position_reads (acct (hydrate_row a x br) a) oid = (if oid = oid' then (q, p, r, f) else position_reads (acct br a) oid)"
    "cash (hydrate_row a x br) a = cash br a" by (simp_all add: hydrate_row_def x reads_hydrate)
  with Cons.IH [of "hydrate_row a x br"] show ?case by (auto simp: x split: option.split)
qed simp

lemma fold_hydrate_balance:
  "cash (fold (\<lambda>x br. hydrate_balance br a x) xs br) a = (if xs = [] then cash br a else last xs) \<and>
   position_reads (acct (fold (\<lambda>x br. hydrate_balance br a x) xs br) a) oid = position_reads (acct br a) oid"
  by (induction xs arbitrary: br) (simp_all add: reads_hydrate_balance)

lemma map_of_single_key:
  assumes "map snd (filter (\<lambda>(k, _). k = oid) xs) = ys" "length ys \<le> 1"
  shows "map_of (rev xs) oid = (case ys of [] \<Rightarrow> None | y # _ \<Rightarrow> Some y)"
proof (cases "map_of (rev xs) oid")
  case None
  then have "(oid, y) \<notin> set xs" for y by (force simp: map_of_eq_None_iff)
  then have "filter (\<lambda>(k, _). k = oid) xs = []" by (auto simp: filter_empty_conv)
  with assms(1) None show ?thesis by simp
next
  case (Some y)
  then have "(oid, y) \<in> set xs" by (auto dest: map_of_SomeD)
  then have "y \<in> set ys" unfolding assms(1) [symmetric] by force
  with Some assms(2) show ?thesis by (cases ys) auto
qed

lemma seed_reference_keeps:
  assumes "seed_reference titled a d = Inr e"
  shows "db_balances e = db_balances d" "db_positions e = db_positions d"
proof -
  have v: "db_balances (fold (\<lambda>v. ensure_venue v (titled v) ''exchange'') vs d) = db_balances d \<and>
    db_positions (fold (\<lambda>v. ensure_venue v (titled v) ''exchange'') vs d) = db_positions d" for vs
    by (induction vs arbitrary: d) (simp_all add: ensure_venue_def)
  from assms obtain nm where "e = fold (\<lambda>v. ensure_venue v (titled v) ''exchange'') REFERENCE_VENUES d \<or>
      e = (fold (\<lambda>v. ensure_venue v (titled v) ''exchange'') REFERENCE_VENUES d)\<lparr>db_accounts := nm\<rparr>"
    by (auto simp: seed_reference_def ensure_paper_account_def Let_def require_def split: if_splits)
  with v [of REFERENCE_VENUES] show "db_balances e = db_balances d" "db_positions e = db_positions d" by auto
qed

lemma fold_register_brokers:
  "app_brokers (fold (\<lambda>g. register_one (g, None)) gs st) = app_brokers st \<and> app_account (fold (\<lambda>g. register_one (g, None)) gs st) = app_account st"
  by (induction gs arbitrary: st) (simp_all add: register_one_def)

lemma hydrated:
  fixes balances positions v st
  defines "bal \<equiv> map snd (filter (\<lambda>(w, _). w = v) balances)" and "pos \<equiv> map snd (filter (\<lambda>(w, _). w = v) positions)" and "a \<equiv> app_account st"
  assumes "map_of (app_brokers st) v = Some fresh" "br_accounts fresh = []"
  shows "\<exists>again. map_of (app_brokers (hydrate balances positions st)) v = Some again \<and>
    cash again a = (if bal = [] then DEFAULT_STARTING_BALANCE else last bal) \<and>
    (\<forall>oid. position_reads (acct again a) oid = (case map_of (rev pos) oid of None \<Rightarrow> (0, 0, 0, 0) | Some p \<Rightarrow> p))"
proof -
  define bs1 where "bs1 = fold (\<lambda>(v, amount). at_account_broker (\<lambda>br. hydrate_balance br a amount) v) balances (app_brokers st)"
  define bs2 where "bs2 = fold (\<lambda>(v, x). at_account_broker (hydrate_row a x) v) positions bs1"
  define ws where "ws = filter (\<lambda>v. v \<notin> fst ` set balances) (map fst bs2)"
  define g where "g = (\<lambda>(x :: rat) br. hydrate_balance br a x)"
  have p: "(\<lambda>(v, oid, qty, avg, realized, fees). at_account_broker (\<lambda>br. hydrate_position br a oid qty avg realized fees) v) =
      (\<lambda>(v, x). at_account_broker (hydrate_row a x) v)"
    by (auto simp: fun_eq_iff hydrate_row_def [abs_def])
  have w: "fold (at_account_broker (\<lambda>br. hydrate_balance br a DEFAULT_STARTING_BALANCE)) ws bs2 =
      fold (\<lambda>(v, x). at_account_broker (g x) v) (map (\<lambda>w. (w, DEFAULT_STARTING_BALANCE)) ws) bs2"
    by (simp add: fold_map comp_def g_def)
  have final: "app_brokers (hydrate balances positions st) = fold (\<lambda>(v, x). at_account_broker (g x) v) (map (\<lambda>w. (w, DEFAULT_STARTING_BALANCE)) ws) bs2"
    unfolding hydrate_def Let_def a_def [symmetric] p bs1_def [symmetric] bs2_def [symmetric] ws_def [symmetric] w
    by (simp add: db_def put_brokers_def)
  define b1 where "b1 = fold g bal fresh"
  define b2 where "b2 = fold (hydrate_row a) pos b1"
  define wv where "wv = map snd (filter (\<lambda>(w, _). w = v) (map (\<lambda>w. (w, DEFAULT_STARTING_BALANCE)) ws))"
  have 1: "map_of bs1 v = Some b1"
    using fold_at_account [of "\<lambda>x br. hydrate_balance br a x" balances "app_brokers st" v] assms(4) by (simp add: bs1_def b1_def bal_def g_def)
  have 2: "map_of bs2 v = Some b2"
    using fold_at_account [of "hydrate_row a" positions bs1 v] 1 by (simp add: bs2_def b2_def pos_def)
  have 3: "map_of (app_brokers (hydrate balances positions st)) v = Some (fold g wv b2)"
    unfolding final fold_at_account wv_def 2 by simp
  have acc: "acct fresh a = empty_account" by (simp add: acct_def assms(5))
  have cb: "cash b2 a = (if bal = [] then 0 else last bal)"
    using fold_hydrate_rows [of a pos b1] fold_hydrate_balance [of a bal fresh] by (simp add: b2_def b1_def g_def cash_def venue_cash_def acc empty_account_def)
  have rb: "position_reads (acct b2 a) oid = (case map_of (rev pos) oid of None \<Rightarrow> (0, 0, 0, 0) | Some p \<Rightarrow> p)" for oid
    using fold_hydrate_rows [of a pos b1 oid] fold_hydrate_balance [of a bal fresh oid]
    by (simp add: b2_def b1_def g_def acc position_reads_def empty_account_def split: option.split)
  have "v \<in> set (map fst bs2)" using 2 by (force dest: map_of_SomeD)
  moreover have "bal = [] \<longleftrightarrow> v \<notin> fst ` set balances" by (force simp: bal_def filter_empty_conv)
  ultimately have "v \<in> set ws \<longleftrightarrow> bal = []" unfolding ws_def by simp
  moreover have "wv = [] \<longleftrightarrow> v \<notin> set ws" by (auto simp: wv_def filter_empty_conv)
  ultimately have wb: "wv = [] \<longleftrightarrow> bal \<noteq> []" by simp
  have "set wv \<subseteq> {DEFAULT_STARTING_BALANCE}" by (auto simp: wv_def)
  then have "last wv = DEFAULT_STARTING_BALANCE" if "wv \<noteq> []" using last_in_set [OF that] by blast
  then have "cash (fold g wv b2) a = (if bal = [] then DEFAULT_STARTING_BALANCE else last bal)"
    using fold_hydrate_balance [of a wv b2] wb cb by (simp add: g_def)
  moreover have "position_reads (acct (fold g wv b2) a) oid = position_reads (acct b2 a) oid" for oid
    using fold_hydrate_balance [of a wv b2 oid] by (simp add: g_def)
  ultimately show ?thesis using 3 rb by auto
qed

lemma stored_at_venue:
  "map snd (filter (\<lambda>(w, _). w = v) (stored_balances d a)) = balance_rows d a v"
  "map snd (filter (\<lambda>(oid', _). oid' = oid) (map snd (filter (\<lambda>(w, _). w = v) (stored_positions d a)))) = position_rows d a v oid"
  by (simp_all add: stored_balances_def stored_positions_def balance_rows_def position_rows_def filter_map comp_def filter_filter conj_ac)

lemma bootstrap_hydrates:
  "bootstrap num titled st d = Inr (st', d') \<Longrightarrow> \<exists>e. seed_reference titled (app_account st) d = Inr e \<and>
     st' = hydrate (stored_balances e (app_account st)) (stored_positions e (app_account st))
       (fold (\<lambda>g. register_one (g, None)) (list_event_groups e) st)"
  unfolding bootstrap_def Let_def
  by (elim bindE_InrE) (intro exI conjI, assumption, simp only: sum.inject prod.inject)


text \<open>A start on a database that knows the account and on the reference venues goes through.\<close>

lemma ensure_venues_ok:
  "database_ok d \<Longrightarrow> database_ok (fold (\<lambda>v. ensure_venue v (titled v) kind) vs d) \<and>
     vw_id ` set (db_venues (fold (\<lambda>v. ensure_venue v (titled v) kind) vs d)) = vw_id ` set (db_venues d) \<union> set vs \<and>
     db_accounts (fold (\<lambda>v. ensure_venue v (titled v) kind) vs d) = db_accounts d"
proof (induction vs arbitrary: d)
  case (Cons v vs)
  have "vw_id ` set (db_venues (ensure_venue v (titled v) kind d)) = insert v (vw_id ` set (db_venues d))"
    "db_accounts (ensure_venue v (titled v) kind d) = db_accounts d" by (auto simp: ensure_venue_def)
  with Cons.IH [OF ensure_venue_ok [OF Cons.prems]] show ?case by simp
qed simp

lemma fund_total:
  assumes "database_ok d" "has_account d a" "\<forall>v \<in> set vs. has_venue d v"
  shows "\<exists>d'. foldE (\<lambda>v. upsert_paper_balance num a v x) vs d = Inr d'"
  using assms
proof (induction vs arbitrary: d)
  case (Cons v vs)
  from upsert_balance_total [OF Cons.prems(1,2), of v num x] Cons.prems(3) obtain d1
    where 1: "upsert_paper_balance num a v x d = Inr d1" and r: "same_refs d d1" by auto
  have "has_account d1 a" "\<forall>v \<in> set vs. has_venue d1 v" using r Cons.prems(2,3) by (auto simp: same_refs_def has_account_def has_venue_def)
  from Cons.IH [OF upsert_balance_ok [OF 1 Cons.prems(1)] this] 1 show ?case by simp
qed simp

lemma bootstrap_total:
  assumes "database_ok d" "has_account d (app_account st)" "fst ` set (app_brokers st) \<subseteq> set REFERENCE_VENUES"
  shows "\<exists>st' d'. bootstrap num titled st d = Inr (st', d')"
proof -
  define e where "e = fold (\<lambda>v. ensure_venue v (titled v) ''exchange'') REFERENCE_VENUES d"
  have ok: "database_ok e" and v: "vw_id ` set (db_venues e) = vw_id ` set (db_venues d) \<union> set REFERENCE_VENUES" and "db_accounts e = db_accounts d"
    using ensure_venues_ok [OF assms(1), of titled "''exchange''" REFERENCE_VENUES] by (simp_all add: e_def)
  then have a: "has_account e (app_account st)" using assms(2) by (simp add: has_account_def)
  then have s: "seed_reference titled (app_account st) d = Inr e" by (simp add: seed_reference_def ensure_paper_account_def Let_def flip: e_def)
  have "\<forall>v \<in> set (filter (\<lambda>v. v \<notin> fst ` set (stored_balances e (app_account st))) (map fst (app_brokers st))). has_venue e v"
    using assms(3) v by (auto simp: has_venue_def)
  from fund_total [OF ok a this, of num DEFAULT_STARTING_BALANCE] obtain d' where
    "foldE (\<lambda>v. upsert_paper_balance num (app_account st) v DEFAULT_STARTING_BALANCE)
      (filter (\<lambda>v. v \<notin> fst ` set (stored_balances e (app_account st))) (map fst (app_brokers st))) e = Inr d'" by blast
  then show ?thesis unfolding bootstrap_def Let_def s bindE_simps by (simp only: bindE_simps) blast
qed

subsection \<open>A worked run\<close>

definition ex_db :: database where
  "ex_db = empty_database\<lparr>db_venues := [\<lparr>vw_id = ''kalshi'', vw_name = ''Kalshi'', vw_kind = ''exchange''\<rparr>],
     db_accounts := [\<lparr>aw_id = ''demo'', aw_name = ''demo''\<rparr>],
     db_balances := [\<lparr>bw_account = ''demo'', bw_venue = ''kalshi'', bw_amount = 500\<rparr>]\<rparr>"

definition ex_start :: app where
  "ex_start = ex_app\<lparr>app_account := ''demo'', app_brokers := [(''kalshi'', new_broker ''kalshi'' kalshi_default 0 (Some ex_sink))]\<rparr>"

definition ex_recorded :: "database \<times> nat" where
  "ex_recorded = persist id 0 ''demo'' (\<lambda>_. [Committed]) ex_broker ex_held (ex_db, 0)"

lemma ex_mirrored: "mirrored id [(''kalshi'', ex_broker)] ex_db"
proof -
  have ok: "database_ok ex_db" by (simp add: ok_defs ex_db_def empty_database_def)
  have "map_of (br_accounts ex_broker) = [''demo'' \<mapsto> acct ex_broker ''demo'']" "map fst (br_accounts ex_broker) = [''demo'']"
    "br_venue ex_broker = ''kalshi''" "br_sink ex_broker = Some ex_sink" "has_on_settled ex_sink"
    "ac_balances (acct ex_broker ''demo'') = [(''kalshi'', 500)]" "ac_positions (acct ex_broker ''demo'') = []"
    by (simp_all add: eval_rules fun_eq_iff)
  note b = this
  have "set (map fst (br_accounts ex_broker)) = {''demo''}" by (simp only: b) simp
  then have keys: "fst ` set (br_accounts ex_broker) = {''demo''}" by simp
  have "account_rows id ''kalshi'' (acct ex_broker a) a ex_db" for a
  proof (cases "a = ''demo''")
    case True
    then show ?thesis by (simp add: account_rows_def b(6,7)) (simp add: balance_rows_def position_rows_def ex_db_def empty_database_def)
  next
    case False
    then have "map_of (br_accounts ex_broker) a = None" by (simp add: b(1))
    then have "acct ex_broker a = empty_account" by (simp add: acct_def dict_get_def)
    with False show ?thesis by (simp add: account_rows_def empty_account_def) (simp add: balance_rows_def position_rows_def ex_db_def empty_database_def)
  qed
  moreover have "has_account ex_db ''demo''" "has_venue ex_db ''kalshi''" by (simp_all add: has_account_def has_venue_def ex_db_def)
  moreover have "dict_ok (br_accounts ex_broker)" by (simp add: b(2))
  ultimately have "mirrors id ex_broker ex_db" unfolding mirrors_def keys b(3) using ok b(4,5) by blast
  then have "br_venue br = v \<and> mirrors id br ex_db" if "map_of [(''kalshi'', ex_broker)] v = Some br" for v br
    using that b(3) by (simp split: if_splits)
  with ok show ?thesis unfolding mirrored_def by simp
qed

lemma ex_run:
  "(recorded id)\<^sup>*\<^sup>* ([(''kalshi'', ex_broker)], ex_db, 0) ([(''kalshi'', ex_held)], fst ex_recorded, snd ex_recorded)"
  "same_refs ex_db (fst ex_recorded)"
proof -
  obtain ord where p: "place_order ex_broker ex_book ''o1'' ''demo'' None ex_buy = (ex_held, ord)"
    by (cases "place_order ex_broker ex_book ''o1'' ''demo'' None ex_buy") (simp add: ex_held_def)
  have c: "all_commit (\<lambda>_. [Committed])" by (simp add: all_commit_def)
  have "has_account (fst (ex_db, 0 :: nat)) ''demo''" by (simp add: has_account_def ex_db_def)
  from rec_place [OF _ c this p, where bs = "[(''kalshi'', ex_broker)]" and v = "''kalshi''" and num = id and now = 0 and scope = "''demo''"]
  have "recorded id ([(''kalshi'', ex_broker)], ex_db, 0) ([(''kalshi'', ex_held)], fst ex_recorded, snd ex_recorded)"
    by (simp add: ex_recorded_def [symmetric])
  then show "(recorded id)\<^sup>*\<^sup>* ([(''kalshi'', ex_broker)], ex_db, 0) ([(''kalshi'', ex_held)], fst ex_recorded, snd ex_recorded)" by (rule r_into_rtranclp)
  show "same_refs ex_db (fst ex_recorded)"
    using commits_refs [of ex_db id 0 "''demo''" "emitted ex_broker ex_held"] sink_writes_commit [OF c, of id 0 "''demo''" "emitted ex_broker ex_held" "(ex_db, 0)"]
    by (simp add: ex_recorded_def persist_def)
qed



end
