(* ===== verification/Ticket_Service.thy ===== *)
theory Ticket_Service
  imports App_State
begin

section \<open>Submitting a ticket\<close>

text \<open>
  \<open>arbys/backend/ticket_service.py\<close>: the guards of a ticket in the order the code applies them, the audit
  rows it writes and the call of the router, over the shared state of App_State. A submission reads the
  wall clock once and the quote book's clock at detection and again at execution; between the two the
  service awaits the write of the pending row, and what other coroutines do to the state meanwhile is the
  function \<open>sub_between\<close>. Reasons are values of \<open>reason\<close>. All venues of the router are the paper brokers.
\<close>

record submission =
  sub_ticket :: string
  sub_utc :: int
  sub_clock :: rat
  sub_exec_clock :: rat
  sub_uid :: "nat \<Rightarrow> string"
  sub_between :: "app \<Rightarrow> app"

record ticket_result =
  res_ticket :: string
  res_status :: string
  res_orders :: "string list"
  res_reason :: "reason option"

definition buy_legs :: "arb_opportunity \<Rightarrow> string list" where
  "buy_legs opp = map al_outcome (filter al_is_buy (opp_legs opp))"

definition match_live :: "app \<Rightarrow> rat \<Rightarrow> arb_opportunity \<Rightarrow> arb_opportunity option res" where
  "match_live st now opp = bindE (live_opportunities_for st now (opp_group opp)) (\<lambda>cands.
     Inr (find (\<lambda>c. opp_group c = opp_group opp \<and> set (buy_legs c) = set (buy_legs opp)) cands))"

definition ticket_title :: "app \<Rightarrow> string \<Rightarrow> string" where
  "ticket_title st gid = (case map_of (app_groups st) (base_group_id gid) of Some g \<Rightarrow> g_title g | None \<Rightarrow> gid)"

definition starts_at :: "app \<Rightarrow> string \<Rightarrow> py_datetime option" where
  "starts_at st gid = (case map_of (app_groups st) (base_group_id gid) of Some g \<Rightarrow> start_time g | None \<Rightarrow> None)"

definition already_settled :: "app \<Rightarrow> string \<Rightarrow> bool" where
  "already_settled st gid = is_settled gid (app_settler st)"

definition ticket_economics :: "arb_opportunity \<Rightarrow> rat \<times> rat \<times> rat" where
  "ticket_economics opp = (total_stake opp, guaranteed_profit opp, guaranteed_profit_bps opp)"

definition write_ticket ::
  "string \<Rightarrow> string \<Rightarrow> arb_opportunity \<Rightarrow> string \<Rightarrow> string \<Rightarrow> string \<Rightarrow> reason option \<Rightarrow> arb_opportunity option
    \<Rightarrow> py_datetime option \<Rightarrow> app \<Rightarrow> app" where
  "write_ticket tid account opp title source status why economics starts st =
     db [TicketInsert \<lparr>tk_id = tid, tk_account = account, tk_group = opp_group opp, tk_title = title,
           tk_starts_at = starts, tk_source = source, tk_economics = map_option ticket_economics economics\<rparr>
         status why] st"

definition set_status :: "string \<Rightarrow> string \<Rightarrow> reason option \<Rightarrow> app \<Rightarrow> app" where
  "set_status tid status why st = db [TicketStatus tid status why] st"

definition write_rejected_legs :: "string \<Rightarrow> string \<Rightarrow> arb_opportunity \<Rightarrow> (string, string) dict \<Rightarrow> app \<Rightarrow> app" where
  "write_rejected_legs tid account live reasons st =
     db (map (\<lambda>a. RejectedLeg tid account a (dict_get ''ticket_rejected'' reasons (al_outcome a))) (opp_legs live)) st"

subsection \<open>The guards\<close>

fun leg_ages :: "quotebook \<Rightarrow> rat \<Rightarrow> arb_leg list \<Rightarrow> (string, rat) dict \<Rightarrow> (string, rat) dict option" where
  "leg_ages b now [] ages = Some ages"
| "leg_ages b now (a # as) ages =
     (if \<not> al_is_buy a then leg_ages b now as ages
      else case qb_get_with_age b now (al_outcome a) of
        None \<Rightarrow> None | Some (_, age) \<Rightarrow> leg_ages b now as (dict_set (al_outcome a) age ages))"

definition max_list :: "rat list \<Rightarrow> rat" where
  "max_list xs = foldl max (hd xs) (tl xs)"

definition min_list_rat :: "rat list \<Rightarrow> rat" where
  "min_list_rat xs = foldl min (hd xs) (tl xs)"

definition stale_leg_skew :: "app \<Rightarrow> rat \<Rightarrow> arb_opportunity \<Rightarrow> reason option" where
  "stale_leg_skew st now live = (case max_leg_age_skew_s (app_env st) of
     None \<Rightarrow> None
   | Some limit \<Rightarrow> (case leg_ages (app_book st) now (opp_legs live) [] of
        None \<Rightarrow> None
      | Some ages \<Rightarrow>
          if length ages < 2 then None
          else let skew = fsub (max_list (map snd ages)) (min_list_rat (map snd ages)) in
            if num_le (Fin skew) limit then None else Some (StaleLegSkew skew limit (sort ages))))"

definition implausible_edge :: "app \<Rightarrow> arb_opportunity \<Rightarrow> reason option res" where
  "implausible_edge st live = bindE (max_plausible_edge (app_env st)) (\<lambda>limit. case limit of
     None \<Rightarrow> Inr None
   | Some highest \<Rightarrow>
       (let costs = map al_price (filter al_is_buy (opp_legs live)); edge = net_edge_per_contract costs
        in Inr (if num_le (Fin edge) highest then None
                else Some (ImplausibleEdge edge (opp_group live) highest (length costs) (dsum costs)))))"

definition group_outcomes :: "app \<Rightarrow> arb_opportunity \<Rightarrow> string list" where
  "group_outcomes st live = (case map_of (app_groups st) (base_group_id (opp_group live)) of
     Some g \<Rightarrow> map leg_outcome (g_legs g) | None \<Rightarrow> map al_outcome (opp_legs live))"

definition held_cost :: "string list \<Rightarrow> string \<Rightarrow> brokers \<Rightarrow> rat" where
  "held_cost outcomes a bs = foldl (\<lambda>h br. foldl (\<lambda>h (oid, qty, avg, _).
     if oid \<in> set outcomes then dadd h (dmul qty avg) else h) h (snd (account_snapshot br a))) 0 (map snd bs)"

definition cap_breach :: "app \<Rightarrow> arb_opportunity \<Rightarrow> string \<Rightarrow> reason option res" where
  "cap_breach st live a = bindE (max_outcome_stake (app_env st)) (\<lambda>limit. case limit of
     None \<Rightarrow> Inr None
   | Some cap \<Rightarrow>
       (let h = held_cost (group_outcomes st live) a (app_brokers st)
        in Inr (if num_lt cap (Fin (dadd h (total_stake live)))
                then Some (PositionCap (opp_group live) cap h (total_stake live)) else None)))"

definition starts_too_far_out :: "app \<Rightarrow> int \<Rightarrow> arb_opportunity \<Rightarrow> reason option" where
  "starts_too_far_out st utc opp = (case max_days_to_start (app_env st) of
     None \<Rightarrow> None
   | Some limit_days \<Rightarrow> (case starts_at st (opp_group opp) of
        None \<Rightarrow> None
      | Some start \<Rightarrow>
          (let days_ahead = flt_round (total_seconds (as_utc start - utc) / 86400)
           in if days_ahead \<le> limit_days then None
              else Some (StartsTooFarOut (opp_group opp) days_ahead limit_days))))"

subsection \<open>Submission\<close>

definition ticket_intent :: "string \<Rightarrow> string \<Rightarrow> arb_opportunity \<Rightarrow> execution_intent" where
  "ticket_intent tid account live = \<lparr>ei_group = opp_group live, ei_account = account,
     ei_legs = map (\<lambda>a. \<lparr>il_venue = al_venue a, il_outcome = al_outcome a, il_is_buy = al_is_buy a,
       il_qty = al_qty a, il_limit = al_price a\<rparr>) (opp_legs live),
     ei_ticket = Some tid\<rparr>"

definition router_of :: "brokers \<Rightarrow> unit adapters" where
  "router_of bs = map (\<lambda>(v, br). (v, Paper br)) bs"

definition brokers_of :: "unit adapters \<Rightarrow> brokers" where
  "brokers_of ads = List.map_filter (\<lambda>(v, ad). case ad of Paper br \<Rightarrow> Some (v, br) | Live _ \<Rightarrow> None) ads"

definition nonfill :: "string \<Rightarrow> string \<Rightarrow> reason \<Rightarrow> ticket_result" where
  "nonfill tid status why = \<lparr>res_ticket = tid, res_status = status, res_orders = [], res_reason = Some why\<rparr>"

text \<open>The router call and the writes that follow it.\<close>

definition execute_ticket :: "submission \<Rightarrow> string \<Rightarrow> arb_opportunity \<Rightarrow> app \<Rightarrow> app \<times> ticket_result res" where
  "execute_ticket sub account live st =
     (let tid = sub_ticket sub in
      case submit no_live (qb_get (app_book st) (sub_exec_clock sub)) (sub_uid sub) (router_of (app_brokers st))
             (ticket_intent tid account live) of (ads, r) \<Rightarrow>
        let st1 = put_brokers (brokers_of ads) st in
        case r of
          Raised e \<Rightarrow> (st1, Inl e)
        | Refused e \<Rightarrow>
            (let why = RouterRefused (ie_message e);
                 st2 = set_status tid ''rejected'' (Some why) st1;
                 reasons = fold (\<lambda>r. dict_set (rej_outcome r) (rej_reason r)) (ie_rejections e) [];
                 st3 = (if ie_persisted e then st2 else write_rejected_legs tid account live reasons st2)
             in (st3, Inr (nonfill tid ''rejected'' why)))
        | Submitted orders \<Rightarrow>
            (set_status tid ''filled'' None st1,
             Inr \<lparr>res_ticket = tid, res_status = ''filled'', res_orders = map ord_id orders, res_reason = None\<rparr>))"

text \<open>A refusal before execution: a row if it is to be recorded, and the result.\<close>

definition refuse ::
  "submission \<Rightarrow> string \<Rightarrow> bool \<Rightarrow> string \<Rightarrow> py_datetime option \<Rightarrow> string \<Rightarrow> string \<Rightarrow> arb_opportunity
    \<Rightarrow> arb_opportunity option \<Rightarrow> reason \<Rightarrow> app \<Rightarrow> app \<times> ticket_result res" where
  "refuse sub account record_nonfill title starts source status opp economics why st =
     (if record_nonfill
      then write_ticket (sub_ticket sub) account opp title source status (Some why) economics starts st else st,
      Inr (nonfill (sub_ticket sub) status why))"

definition submit_checked ::
  "submission \<Rightarrow> string \<Rightarrow> bool \<Rightarrow> string \<Rightarrow> py_datetime option \<Rightarrow> string \<Rightarrow> arb_opportunity \<Rightarrow> app
    \<Rightarrow> app \<times> ticket_result res" where
  "submit_checked sub account record_nonfill title starts source opp st =
     (let no = refuse sub account record_nonfill title starts source in
      case match_live st (sub_clock sub) opp of
        Inl e \<Rightarrow> (st, Inl e)
      | Inr None \<Rightarrow> no ''missed'' opp None (EdgeGone (opp_group opp)) st
      | Inr (Some live) \<Rightarrow>
          (case implausible_edge st live of
             Inl e \<Rightarrow> (st, Inl e)
           | Inr (Some why) \<Rightarrow> no ''rejected'' live (Some live) why st
           | Inr None \<Rightarrow>
               (case stale_leg_skew st (sub_clock sub) live of
                  Some why \<Rightarrow> no ''rejected'' live (Some live) why st
                | None \<Rightarrow>
                    (case cap_breach st live account of
                       Inl e \<Rightarrow> (st, Inl e)
                     | Inr (Some why) \<Rightarrow> no ''rejected'' live (Some live) why st
                     | Inr None \<Rightarrow> execute_ticket sub account live (sub_between sub
                         (write_ticket (sub_ticket sub) account live title source ''pending'' None (Some live) starts st))))))"

definition account_or_default :: "app \<Rightarrow> string option \<Rightarrow> string" where
  "account_or_default st a = (case a of Some (c # cs) \<Rightarrow> c # cs | _ \<Rightarrow> app_account st)"

definition submit_arb_ticket ::
  "submission \<Rightarrow> string \<Rightarrow> string option \<Rightarrow> bool \<Rightarrow> arb_opportunity \<Rightarrow> app \<Rightarrow> app \<times> ticket_result res" where
  "submit_arb_ticket sub source account_id record_nonfill opp st =
     (let account = account_or_default st account_id; gid = opp_group opp;
          title = ticket_title st gid; starts = starts_at st gid;
          no = refuse sub account record_nonfill title starts source ''rejected'' opp None
      in if app_draining st then no (Draining gid) st
         else if already_settled st gid then no (AlreadySettled gid) st
         else case starts_too_far_out st (sub_utc sub) opp of
           Some why \<Rightarrow> no why st
         | None \<Rightarrow>
             (case submit_checked sub account record_nonfill title starts source opp (enter_ticket st) of
                (st', r) \<Rightarrow> (exit_ticket st', r)))"

definition submit_arb_ticket_for_descriptor ::
  "submission \<Rightarrow> string \<Rightarrow> string option \<Rightarrow> string list option \<Rightarrow> string \<Rightarrow> app \<Rightarrow> app \<times> ticket_result res" where
  "submit_arb_ticket_for_descriptor sub source account_id outcome_ids gid st =
     (let account = account_or_default st account_id in
      case live_opportunities_for st (sub_clock sub) gid of
        Inl e \<Rightarrow> (st, Inl e)
      | Inr cands \<Rightarrow>
          (case find (\<lambda>c. opp_group c = gid \<and>
                  (case outcome_ids of None \<Rightarrow> True | Some oids \<Rightarrow> set (buy_legs c) = set oids)) cands of
             Some c \<Rightarrow> submit_arb_ticket sub source (Some account) True c st
           | None \<Rightarrow>
               (db [TicketInsert \<lparr>tk_id = sub_ticket sub, tk_account = account, tk_group = gid,
                      tk_title = ticket_title st gid, tk_starts_at = starts_at st gid, tk_source = source,
                      tk_economics = None\<rparr> ''missed'' (Some (EdgeGoneForPair gid))] st,
                Inr (nonfill (sub_ticket sub) ''missed'' (EdgeGoneForPair gid)))))"

text \<open>The two pre-checks and the submission that the auto-trader gets from the application state.\<close>

definition auto_would_breach_cap :: "app \<Rightarrow> arb_opportunity \<Rightarrow> bool res" where
  "auto_would_breach_cap st opp = bindE (cap_breach st opp (app_account st)) (\<lambda>r. Inr (r \<noteq> None))"

definition auto_would_start_too_late :: "int \<Rightarrow> app \<Rightarrow> arb_opportunity \<Rightarrow> bool res" where
  "auto_would_start_too_late utc st opp = Inr (starts_too_far_out st utc opp \<noteq> None)"

definition auto_submit_ticket :: "submission \<Rightarrow> arb_opportunity \<Rightarrow> bool \<Rightarrow> app \<Rightarrow> app \<times> string res" where
  "auto_submit_ticket sub opp record_nonfill st =
     (case submit_arb_ticket sub ''auto'' None record_nonfill opp st of (st', r) \<Rightarrow>
        (st', bindE r (\<lambda>t. Inr (res_status t))))"

declare buy_legs_def [eval_rules] match_live_def [eval_rules] ticket_title_def [eval_rules] starts_at_def [eval_rules]
  already_settled_def [eval_rules] ticket_economics_def [eval_rules] write_ticket_def [eval_rules]
  set_status_def [eval_rules] write_rejected_legs_def [eval_rules] max_list_def [eval_rules]
  min_list_rat_def [eval_rules] stale_leg_skew_def [eval_rules] implausible_edge_def [eval_rules]
  group_outcomes_def [eval_rules] held_cost_def [eval_rules] cap_breach_def [eval_rules]
  starts_too_far_out_def [eval_rules] ticket_intent_def [eval_rules] router_of_def [eval_rules]
  brokers_of_def [eval_rules] nonfill_def [eval_rules] execute_ticket_def [eval_rules] refuse_def [eval_rules]
  submit_checked_def [eval_rules] account_or_default_def [eval_rules] submit_arb_ticket_def [eval_rules]
  submit_arb_ticket_for_descriptor_def [eval_rules] auto_submit_ticket_def [eval_rules]

subsection \<open>The ways a submission ends\<close>

definition idle_ok :: "app \<Rightarrow> bool" where
  "idle_ok st \<longleftrightarrow> app_idle st = (app_inflight st = 0)"

text \<open>Every guard lets the ticket through, and \<open>live\<close> is the re-detected opportunity it is priced by.\<close>

definition cleared :: "submission \<Rightarrow> string \<Rightarrow> arb_opportunity \<Rightarrow> app \<Rightarrow> arb_opportunity \<Rightarrow> bool" where
  "cleared sub account opp st live \<longleftrightarrow> match_live st (sub_clock sub) opp = Inr (Some live) \<and>
     implausible_edge st live = Inr None \<and> stale_leg_skew st (sub_clock sub) live = None \<and>
     cap_breach st live account = Inr None"

definition pending_row ::
  "submission \<Rightarrow> string \<Rightarrow> string \<Rightarrow> string \<Rightarrow> py_datetime option \<Rightarrow> arb_opportunity \<Rightarrow> app \<Rightarrow> app" where
  "pending_row sub account source title starts live =
     write_ticket (sub_ticket sub) account live title source ''pending'' None (Some live) starts"

lemma refuse_row:
  "\<exists>row. tk_id row = sub_ticket sub \<and>
     refuse sub account rec title starts source status opp economics why st =
       (db (if rec then [TicketInsert row status (Some why)] else []) st, Inr (nonfill (sub_ticket sub) status why))"
  by (rule exI [of _ "\<lparr>tk_id = sub_ticket sub, tk_account = account, tk_group = opp_group opp, tk_title = title,
      tk_starts_at = starts, tk_source = source, tk_economics = map_option ticket_economics economics\<rparr>"])
    (simp add: refuse_def write_ticket_def db_def)

definition refused_with :: "submission \<Rightarrow> bool \<Rightarrow> app \<Rightarrow> app \<times> ticket_result res \<Rightarrow> bool" where
  "refused_with sub rec st out \<longleftrightarrow> (\<exists>row status why. tk_id row = sub_ticket sub \<and> status \<noteq> ''filled'' \<and>
     out = (db (if rec then [TicketInsert row status (Some why)] else []) st, Inr (nonfill (sub_ticket sub) status why)))"

lemma refused_withI:
  "status \<noteq> ''filled'' \<Longrightarrow> refused_with sub rec st (refuse sub account rec title starts source status opp economics why st)"
  unfolding refused_with_def using refuse_row [of sub account rec title starts source status opp economics why st] by blast

lemma submit_checked_cases:
  obtains (raised) e where "submit_checked sub account rec title starts source opp st = (st, Inl e)"
  | (refused) "refused_with sub rec st (submit_checked sub account rec title starts source opp st)"
  | (executed) live where "cleared sub account opp st live"
      "submit_checked sub account rec title starts source opp st =
         execute_ticket sub account live (sub_between sub (pending_row sub account source title starts live st))"
proof -
  note d = submit_checked_def Let_def
  show thesis
  proof (cases "match_live st (sub_clock sub) opp")
    case (Inl e)
    then show ?thesis by (intro raised) (simp add: d)
  next
    case (Inr m)
    show ?thesis
    proof (cases m)
      case None
      with Inr show ?thesis by (intro refused) (simp add: d refused_withI)
    next
      case (Some live)
      note m = Inr [unfolded Some]
      show ?thesis
      proof (cases "implausible_edge st live")
        case (Inl e)
        then show ?thesis by (intro raised) (simp add: d m)
      next
        case (Inr edge)
        show ?thesis
        proof (cases "edge = None \<and> stale_leg_skew st (sub_clock sub) live = None")
          case False
          with Inr show ?thesis
            by (intro refused) (auto simp: d m refused_withI split: option.split)
        next
          case True
          show ?thesis
          proof (cases "cap_breach st live account")
            case (Inl e)
            with True \<open>implausible_edge st live = Inr edge\<close> show ?thesis by (intro raised) (simp add: d m)
          next
            case (Inr cap)
            with True \<open>implausible_edge st live = Inr edge\<close> show ?thesis
              by (cases cap) (auto simp: d m refused_withI cleared_def pending_row_def intro: refused executed)
          qed
        qed
      qed
    qed
  qed
qed

text \<open>The in-flight counter is not read by any guard.\<close>

lemma enter_fields [simp]:
  "app_book (enter_ticket st) = app_book st" "app_env (enter_ticket st) = app_env st"
  "app_engine (enter_ticket st) = app_engine st" "app_groups (enter_ticket st) = app_groups st"
  "app_brokers (enter_ticket st) = app_brokers st" "app_writes (enter_ticket st) = app_writes st"
  "app_inflight (enter_ticket st) = Suc (app_inflight st)"
  by (simp_all add: enter_ticket_def)

lemma group_outcomes_enter [simp]: "group_outcomes (enter_ticket st) live = group_outcomes st live"
  by (simp add: group_outcomes_def)

lemma guards_enter [simp]:
  "match_live (enter_ticket st) now opp = match_live st now opp" "implausible_edge (enter_ticket st) live = implausible_edge st live"
  "stale_leg_skew (enter_ticket st) now live = stale_leg_skew st now live"
  "cap_breach (enter_ticket st) live a = cap_breach st live a"
  by (simp_all add: match_live_def live_opportunities_for_def implausible_edge_def stale_leg_skew_def cap_breach_def
      cong: option.case_cong)

lemma cleared_enter [simp]: "cleared sub a opp (enter_ticket st) live = cleared sub a opp st live"
  by (simp add: cleared_def)

lemma db_Nil [simp]: "db [] st = st"
  by (simp add: db_def)

lemma exit_enter: "idle_ok st \<Longrightarrow> exit_ticket (db ws (enter_ticket st)) = db ws st"
  by (cases st) (simp add: idle_ok_def exit_ticket_def enter_ticket_def db_def)

definition accepted :: "submission \<Rightarrow> arb_opportunity \<Rightarrow> app \<Rightarrow> bool" where
  "accepted sub opp st \<longleftrightarrow> \<not> app_draining st \<and> \<not> already_settled st (opp_group opp) \<and>
     starts_too_far_out st (sub_utc sub) opp = None"

lemma submit_ticket_cases:
  fixes sub source aid rec opp st
  defines "account \<equiv> account_or_default st aid"
  assumes "idle_ok st"
  obtains (raised) e where "submit_arb_ticket sub source aid rec opp st = (st, Inl e)"
  | (refused) "refused_with sub rec st (submit_arb_ticket sub source aid rec opp st)"
  | (executed) live s r where "accepted sub opp st" "cleared sub account opp st live"
      "execute_ticket sub account live (sub_between sub (pending_row sub account source
         (ticket_title st (opp_group opp)) (starts_at st (opp_group opp)) live (enter_ticket st))) = (s, r)"
      "submit_arb_ticket sub source aid rec opp st = (exit_ticket s, r)"
proof (cases "accepted sub opp st")
  case False
  then show thesis
    by (intro refused) (auto simp: submit_arb_ticket_def accepted_def Let_def refused_withI split: option.split)
next
  case True
  let ?t = "ticket_title st (opp_group opp)" and ?s = "starts_at st (opp_group opp)"
  let ?c = "submit_checked sub account rec ?t ?s source opp (enter_ticket st)"
  have e: "submit_arb_ticket sub source aid rec opp st = (exit_ticket (fst ?c), snd ?c)"
    using True by (simp add: submit_arb_ticket_def accepted_def Let_def account_def case_prod_unfold)
  show thesis
  proof (cases rule: submit_checked_cases [of sub account rec ?t ?s source opp "enter_ticket st"])
    case (raised x)
    with e exit_enter [OF assms(2), of "[]"] show thesis by (intro that(1) [of x]) simp
  next
    case refused
    then obtain row status why where "tk_id row = sub_ticket sub" "status \<noteq> ''filled''"
        "?c = (db (if rec then [TicketInsert row status (Some why)] else []) (enter_ticket st),
          Inr (nonfill (sub_ticket sub) status why))"
      unfolding refused_with_def by blast
    then show thesis
      unfolding e by (intro that(2)) (auto simp only: refused_with_def e fst_conv snd_conv exit_enter [OF assms(2)])
  next
    case (executed live)
    then show thesis using e True by (intro that(3) [of live "fst ?c" "snd ?c"]) simp_all
  qed
qed

subsection \<open>Executing a ticket\<close>

lemma put_brokers_fields [simp]:
  "app_brokers (put_brokers bs st) = bs" "app_writes (put_brokers bs st) = app_writes st"
  "app_inflight (put_brokers bs st) = app_inflight st" "app_idle (put_brokers bs st) = app_idle st"
  by (simp_all add: put_brokers_def)

lemma db_fields [simp]:
  "app_brokers (db ws st) = app_brokers st" "app_writes (db ws st) = app_writes st @ ws"
  "app_inflight (db ws st) = app_inflight st" "app_idle (db ws st) = app_idle st" "app_book (db ws st) = app_book st"
  by (simp_all add: db_def)

lemma exit_fields [simp]:
  "app_brokers (exit_ticket st) = app_brokers st" "app_writes (exit_ticket st) = app_writes st"
  "app_inflight (exit_ticket st) = app_inflight st - 1"
  by (simp_all add: exit_ticket_def Let_def)

lemma idle_ok_exit: "idle_ok st \<Longrightarrow> idle_ok (exit_ticket st)"
  by (auto simp: idle_ok_def exit_ticket_def Let_def)

text \<open>What the router is called with and what its answers turn into.\<close>

abbreviation routed :: "submission \<Rightarrow> string \<Rightarrow> arb_opportunity \<Rightarrow> app \<Rightarrow> unit adapters \<times> submit_result" where
  "routed sub account live st \<equiv> submit no_live (qb_get (app_book st) (sub_exec_clock sub)) (sub_uid sub)
     (router_of (app_brokers st)) (ticket_intent (sub_ticket sub) account live)"

lemma execute_ticket_cases:
  assumes "execute_ticket sub account live st = (st', r)"
  obtains (raised) e ads where "routed sub account live st = (ads, Raised e)" "r = Inl e"
      "st' = put_brokers (brokers_of ads) st"
  | (refused) e ads ws where "routed sub account live st = (ads, Refused e)"
      "r = Inr (nonfill (sub_ticket sub) ''rejected'' (RouterRefused (ie_message e)))"
      "st' = db (TicketStatus (sub_ticket sub) ''rejected'' (Some (RouterRefused (ie_message e))) # ws)
         (put_brokers (brokers_of ads) st)"
      "ws = (if ie_persisted e then []
         else map (\<lambda>a. RejectedLeg (sub_ticket sub) account a (dict_get ''ticket_rejected''
                (fold (\<lambda>r. dict_set (rej_outcome r) (rej_reason r)) (ie_rejections e) []) (al_outcome a))) (opp_legs live))"
  | (submitted) ords ads where "routed sub account live st = (ads, Submitted ords)"
      "r = Inr \<lparr>res_ticket = sub_ticket sub, res_status = ''filled'', res_orders = map ord_id ords, res_reason = None\<rparr>"
      "st' = db [TicketStatus (sub_ticket sub) ''filled'' None] (put_brokers (brokers_of ads) st)"
proof -
  obtain ads res where s: "routed sub account live st = (ads, res)" by fastforce
  show thesis
  proof (cases res)
    case (Submitted ords)
    with assms s show thesis by (intro submitted) (auto simp: execute_ticket_def Let_def set_status_def)
  next
    case (Refused e)
    with assms s show thesis
      by (intro refused [of ads e]) (auto simp: execute_ticket_def Let_def set_status_def write_rejected_legs_def db_def)
  next
    case (Raised e)
    with assms s show thesis by (intro raised) (auto simp: execute_ticket_def Let_def)
  qed
qed

subsection \<open>In-flight tickets\<close>

lemma execute_ticket_frames:
  assumes "execute_ticket sub account live st = (st', r)"
  shows "app_inflight st' = app_inflight st \<and> app_idle st' = app_idle st"
  using assms by (cases rule: execute_ticket_cases) auto

subsection \<open>A worked submission\<close>

definition ex_trading :: app where
  "ex_trading = (hydrate [] [] (new_app (\<lambda>_. None) (Some 200) 0 []))\<lparr>app_engine := ex_engine,
     app_groups := [(''g'', ex_group)],
     app_book := fold (\<lambda>(_, q) b. qb_upsert b 1000 q) (ex_quotes (2 / 5) (1 / 2)) (empty_book (Some 600))\<rparr>"

definition ex_sub :: submission where
  "ex_sub = \<lparr>sub_ticket = ''t1'', sub_utc = 0, sub_clock = 1001, sub_exec_clock = 1002, sub_uid = ex_uid, sub_between = id\<rparr>"

declare ex_trading_def [eval_rules] ex_sub_def [eval_rules]

lemma ex_trading_fields:
  "idle_ok ex_trading" "app_draining ex_trading = False" "app_env ex_trading = (\<lambda>_. None)" "app_account ex_trading = ''default''"
  "app_groups ex_trading = [(''g'', ex_group)]" "app_engine ex_trading = ex_engine" "app_inflight ex_trading = 0"
  "se_settled (app_settler ex_trading) = []" "app_writes ex_trading = [BalanceUpsert ''default'' ''polymarket_us'' 4000,
     BalanceUpsert ''default'' ''kalshi'' 4000]"
  by (simp_all add: idle_ok_def eval_rules)

lemma ex_trading_quotes:
  "now = 1001 \<or> now = 1002 \<Longrightarrow> qb_get (app_book ex_trading) now = ex_live_lk"
  by (auto simp: fun_eq_iff eval_rules)

lemma ex_match: "match_live ex_trading 1001 ex_opp = Inr (Some ex_opp)"
proof -
  have "base_group_id (opp_group ex_opp) = ''g''" by (simp add: ex_opp_def eval_rules)
  then show ?thesis
    by (simp add: match_live_def live_opportunities_for_def ex_trading_quotes ex_trading_fields ex_evaluate)
qed

lemma ex_guards:
  "implausible_edge ex_trading ex_opp = Inr None" "stale_leg_skew ex_trading 1001 ex_opp = None"
  "cap_breach ex_trading ex_opp ''default'' = Inr None"
  by (simp_all add: eval_rules ex_opp_def)

lemma ex_account: "account_or_default ex_trading None = ''default''"
  by (simp add: account_or_default_def ex_trading_fields)

lemma ex_cleared:
  "accepted (ex_sub\<lparr>sub_exec_clock := now\<rparr>) ex_opp ex_trading"
  "cleared (ex_sub\<lparr>sub_exec_clock := now\<rparr>) ''default'' ex_opp ex_trading ex_opp"
  using ex_match ex_guards
  by (simp_all add: accepted_def cleared_def ex_sub_def ex_trading_fields already_settled_def is_settled_def
      starts_too_far_out_def starts_at_def max_days_to_start_def ex_opp_def ex_group_def base_group_id_def)

lemma submit_executes:
  assumes "accepted sub opp st" "cleared sub (account_or_default st aid) opp st live"
  shows "submit_arb_ticket sub source aid rec opp st =
    (let out = execute_ticket sub (account_or_default st aid) live (sub_between sub (pending_row sub
         (account_or_default st aid) source (ticket_title st (opp_group opp)) (starts_at st (opp_group opp)) live
         (enter_ticket st)))
     in (exit_ticket (fst out), snd out))"
  using assms
  by (simp add: submit_arb_ticket_def accepted_def submit_checked_def cleared_def pending_row_def Let_def case_prod_unfold)

lemma ex_routed:
  "\<exists>ads ords. submit no_live ex_live_lk ex_uid (router_of (app_brokers ex_trading))
     (ticket_intent ''t1'' ''default'' ex_opp) = (ads, Submitted ords)"
  "\<exists>ads e. submit no_live (\<lambda>_. None) ex_uid (router_of (app_brokers ex_trading))
     (ticket_intent ''t1'' ''default'' ex_opp) = (ads, Refused e)"
  by (simp_all add: eval_rules ex_opp_def)

lemma pending_row_fields [simp]:
  "app_brokers (pending_row sub a source title starts live st) = app_brokers st"
  "app_book (pending_row sub a source title starts live st) = app_book st"
  by (simp_all add: pending_row_def write_ticket_def)

lemma ex_late_quotes: "qb_get (app_book ex_trading) 5000 = (\<lambda>_. None)"
  by (auto simp: fun_eq_iff eval_rules)

text \<open>The ticket fills; had the quotes gone stale before execution, the router would have refused it.\<close>

lemma ex_submitted:
  "\<exists>st' t. submit_arb_ticket ex_sub ''auto'' None True ex_opp ex_trading = (st', Inr t) \<and> res_status t = ''filled''"
proof -
  obtain ads ords where r: "submit no_live ex_live_lk ex_uid (router_of (app_brokers ex_trading))
     (ticket_intent ''t1'' ''default'' ex_opp) = (ads, Submitted ords)" using ex_routed(1) by blast
  have "ex_sub\<lparr>sub_exec_clock := 1002\<rparr> = ex_sub" by (simp add: ex_sub_def)
  with ex_cleared [of 1002] have "accepted ex_sub ex_opp ex_trading" "cleared ex_sub ''default'' ex_opp ex_trading ex_opp"
    by simp_all
  with submit_executes [of ex_sub ex_opp ex_trading None ex_opp "''auto''" True] r show ?thesis
    by (simp add: ex_account execute_ticket_def ex_trading_quotes Let_def) (simp add: ex_sub_def ex_trading_quotes)
qed

lemma ex_refused:
  "\<exists>st' t. submit_arb_ticket (ex_sub\<lparr>sub_exec_clock := 5000\<rparr>) ''auto'' None True ex_opp ex_trading = (st', Inr t) \<and>
     res_status t = ''rejected''"
proof -
  obtain ads e where r: "submit no_live (\<lambda>_. None) ex_uid (router_of (app_brokers ex_trading))
     (ticket_intent ''t1'' ''default'' ex_opp) = (ads, Refused e)" using ex_routed(2) by blast
  with submit_executes [of "ex_sub\<lparr>sub_exec_clock := 5000\<rparr>" ex_opp ex_trading None ex_opp "''auto''" True] ex_cleared [of 5000]
  show ?thesis by (simp add: ex_account ex_sub_def execute_ticket_def ex_late_quotes Let_def nonfill_def)
qed

text \<open>
  C8: every way out of a submission, refusals and exceptions included, takes back its own count: the
  in-flight counter ends where it was, or where the other coroutines moved it while this one waited, and
  the idle event is set exactly when the counter is zero, so a drain neither hangs nor ends early.
\<close>

theorem submit_balances_inflight:
  assumes "idle_ok st" "submit_arb_ticket sub source aid rec opp st = (st', r)"
    and "\<forall>s. idle_ok s \<longrightarrow> idle_ok (sub_between sub s)"
    and "\<forall>s. int (app_inflight (sub_between sub s)) = int (app_inflight s) + \<delta>" "0 \<le> int (app_inflight st) + \<delta>"
  shows "idle_ok st' \<and> int (app_inflight st') \<in> {int (app_inflight st), int (app_inflight st) + \<delta>}"
  using assms(1)
proof (cases rule: submit_ticket_cases [of st sub source aid rec opp])
  case (raised e)
  with assms(1,2) show ?thesis by simp
next
  case refused
  with assms(1,2) show ?thesis by (auto simp: refused_with_def idle_ok_def)
next
  case (executed live s r')
  let ?p = "pending_row sub (account_or_default st aid) source (ticket_title st (opp_group opp))
    (starts_at st (opp_group opp)) live (enter_ticket st)"
  have p: "idle_ok ?p" "app_inflight ?p = Suc (app_inflight st)"
    by (simp_all add: pending_row_def write_ticket_def idle_ok_def) (simp add: enter_ticket_def)
  from assms(3) p(1) have b: "idle_ok (sub_between sub ?p)" by blast
  have n: "int (app_inflight (sub_between sub ?p)) = int (app_inflight st) + 1 + \<delta>"
    using assms(4) [rule_format, of ?p] p(2) by simp
  from executed assms(2) have st': "st' = exit_ticket s" by simp
  from execute_ticket_frames [OF executed(3)] have f: "app_inflight s = app_inflight (sub_between sub ?p)"
    "app_idle s = app_idle (sub_between sub ?p)" by auto
  with b have "idle_ok st'" unfolding st' by (intro idle_ok_exit) (simp add: idle_ok_def)
  moreover have "int (app_inflight st') = int (app_inflight st) + \<delta>"
    unfolding st' using n f(1) assms(5) by simp
  ultimately show ?thesis by simp
qed

theorem submit_balances_inflight_witness:
  "\<exists>st' t. submit_arb_ticket ex_sub ''auto'' None True ex_opp ex_trading = (st', Inr t) \<and> idle_ok st' \<and> app_inflight st' = 0"
proof -
  obtain st' t where s: "submit_arb_ticket ex_sub ''auto'' None True ex_opp ex_trading = (st', Inr t)"
    using ex_submitted by blast
  from submit_balances_inflight [OF ex_trading_fields(1) s, of 0] s show ?thesis
    by (simp add: ex_sub_def ex_trading_fields)
qed

subsection \<open>The audit log\<close>

text \<open>What the rows written so far say of a ticket: its status and reason; an update needs a row.\<close>

fun log_step :: "string \<Rightarrow> db_write \<Rightarrow> (string \<times> reason option) option \<Rightarrow> (string \<times> reason option) option" where
  "log_step tid (TicketInsert row status why) s = (if tk_id row = tid then Some (status, why) else s)"
| "log_step tid (TicketStatus t status why) s = (if t = tid then map_option (\<lambda>_. (status, why)) s else s)"
| "log_step tid _ s = s"

definition ticket_state :: "string \<Rightarrow> db_write list \<Rightarrow> (string \<times> reason option) option" where
  "ticket_state tid ws = fold (log_step tid) ws None"

lemma ticket_state_append: "ticket_state tid (ws @ ws') = fold (log_step tid) ws' (ticket_state tid ws)"
  by (simp add: ticket_state_def)

lemma ticket_state_rejected_legs:
  "fold (log_step tid) (map (\<lambda>a. RejectedLeg t account a (f a)) legs) s = s"
  by (induction legs) auto

lemma execute_ticket_logged:
  assumes "execute_ticket sub account live st = (st', Inr t)" "ticket_state (sub_ticket sub) (app_writes st) = Some p"
  shows "res_ticket t = sub_ticket sub \<and>
    ticket_state (sub_ticket sub) (app_writes st') = Some (res_status t, res_reason t)"
  using assms(1)
proof (cases rule: execute_ticket_cases)
  case (refused e ads ws)
  then have "fold (log_step (sub_ticket sub)) ws s = s" for s
    by (simp add: ticket_state_rejected_legs)
  with refused assms(2) show ?thesis by (simp add: ticket_state_append nonfill_def)
next
  case (submitted ords ads)
  with assms(2) show ?thesis by (simp add: ticket_state_append)
qed simp

text \<open>
  No submission goes unrecorded: when it returns, the log says of its ticket exactly the status and
  reason it returned, with a pending row behind every fill and every refusal by the router; the one
  exception is a refusal before execution that the caller asked not to record, which writes nothing.
\<close>

theorem submission_is_logged:
  assumes "idle_ok st" "submit_arb_ticket sub source aid rec opp st = (st', Inr t)"
    and "\<forall>s. ticket_state (sub_ticket sub) (app_writes (sub_between sub s)) = ticket_state (sub_ticket sub) (app_writes s)"
  shows "res_ticket t = sub_ticket sub \<and>
    (ticket_state (sub_ticket sub) (app_writes st') = Some (res_status t, res_reason t) \<or>
     \<not> rec \<and> res_status t \<noteq> ''filled'' \<and> st' = st)"
  using assms(1)
proof (cases rule: submit_ticket_cases [of st sub source aid rec opp])
  case (raised e)
  with assms(2) show ?thesis by simp
next
  case refused
  then obtain row status why where "tk_id row = sub_ticket sub" "status \<noteq> ''filled''"
      "st' = db (if rec then [TicketInsert row status (Some why)] else []) st" "t = nonfill (sub_ticket sub) status why"
    using assms(2) by (auto simp: refused_with_def)
  then show ?thesis by (cases rec) (simp_all add: nonfill_def ticket_state_append)
next
  case (executed live s r)
  let ?p = "pending_row sub (account_or_default st aid) source (ticket_title st (opp_group opp))
    (starts_at st (opp_group opp)) live (enter_ticket st)"
  have "ticket_state (sub_ticket sub) (app_writes ?p) = Some (''pending'', None)"
    by (simp add: pending_row_def write_ticket_def ticket_state_append)
  with assms(3) have "ticket_state (sub_ticket sub) (app_writes (sub_between sub ?p)) = Some (''pending'', None)" by simp
  with execute_ticket_logged executed assms(2) show ?thesis by auto
qed

theorem submission_is_logged_witness:
  "\<exists>st' t. submit_arb_ticket ex_sub ''auto'' None True ex_opp ex_trading = (st', Inr t) \<and>
     ticket_state ''t1'' (app_writes st') = Some (''filled'', res_reason t)"
proof -
  obtain st' t where s: "submit_arb_ticket ex_sub ''auto'' None True ex_opp ex_trading = (st', Inr t)" "res_status t = ''filled''"
    using ex_submitted by blast
  from submission_is_logged [OF ex_trading_fields(1) s(1)] s show ?thesis by (simp add: ex_sub_def)
qed

subsection \<open>What a fill has passed\<close>

lemma match_live_found:
  assumes "match_live st now opp = Inr (Some live)"
  obtains found where "evaluate_now (qb_get (app_book st) now) (app_engine st) (base_group_id (opp_group opp)) = Inr found"
    "live \<in> set found" "opp_group live = opp_group opp" "set (buy_legs live) = set (buy_legs opp)"
  using assms by (auto simp: match_live_def live_opportunities_for_def res_simps find_Some_iff)

lemma cap_breach_within:
  "cap_breach st live a = Inr None \<Longrightarrow> max_outcome_stake (app_env st) = Inr (Some cap) \<Longrightarrow>
   num_le (Fin (dadd (held_cost (group_outcomes st live) a (app_brokers st)) (total_stake live))) cap"
  using decimal_limit_pos [of "app_env st" "''ARBYS_MAX_OUTCOME_STAKE''" DEFAULT_MAX_OUTCOME_STAKE cap]
  by (cases cap) (auto simp: cap_breach_def Let_def num_le_def max_outcome_stake_def DEFAULT_MAX_OUTCOME_STAKE_def
      split: if_splits)

text \<open>
  C1: a filled ticket has passed every guard: the service was not draining, the group not settled and
  not too far out, and the edge was found again at the quotes live at submission with the same buy
  legs; its stake is below the payout whatever wins, the price was plausible, the legs of one age, and
  the cost already held in the group plus the stake within the cap at that moment.
\<close>

theorem filled_ticket_cleared:
  assumes "idle_ok st" "submit_arb_ticket sub source aid rec opp st = (st', Inr t)" "res_status t = ''filled''"
  shows "accepted sub opp st \<and>
    (\<exists>live. opp_group live = opp_group opp \<and> set (buy_legs live) = set (buy_legs opp) \<and>
       (\<forall>a \<in> set (opp_legs live). al_is_buy a \<and>
          (\<exists>q. qb_get (app_book st) (sub_clock sub) (al_outcome a) = Some q \<and> al_price a = ask q)) \<and>
       ((\<Sum>a \<leftarrow> opp_legs live. v (al_outcome a)) = 1 \<longrightarrow> total_stake live < opp_payout v live) \<and>
       implausible_edge st live = Inr None \<and> stale_leg_skew st (sub_clock sub) live = None \<and>
       (\<forall>cap. max_outcome_stake (app_env st) = Inr (Some cap) \<longrightarrow>
          num_le (Fin (dadd (held_cost (group_outcomes st live) (account_or_default st aid) (app_brokers st))
            (total_stake live))) cap))"
  using assms(1)
proof (cases rule: submit_ticket_cases [of st sub source aid rec opp])
  case (raised e)
  with assms(2) show ?thesis by simp
next
  case refused
  with assms(2,3) show ?thesis by (auto simp: refused_with_def nonfill_def)
next
  case (executed live s r)
  from executed(2) have m: "match_live st (sub_clock sub) opp = Inr (Some live)" by (simp add: cleared_def)
  from match_live_found [OF m] obtain found where
    f: "evaluate_now (qb_get (app_book st) (sub_clock sub)) (app_engine st) (base_group_id (opp_group opp)) = Inr found"
       "live \<in> set found" "opp_group live = opp_group opp" "set (buy_legs live) = set (buy_legs opp)" .
  from evaluate_now_locked [OF f(1,2), of v] f(3,4) executed(1,2) show ?thesis
    by (auto simp: cleared_def intro: cap_breach_within intro!: exI [of _ live])
qed

theorem filled_ticket_cleared_witness:
  "\<exists>st' t live. submit_arb_ticket ex_sub ''auto'' None True ex_opp ex_trading = (st', Inr t) \<and>
     opp_group live = ''g'' \<and> implausible_edge ex_trading live = Inr None \<and>
     num_le (Fin (dadd (held_cost (group_outcomes ex_trading live) ''default'' (app_brokers ex_trading)) (total_stake live))) (Fin 500)"
proof -
  obtain st' t where s: "submit_arb_ticket ex_sub ''auto'' None True ex_opp ex_trading = (st', Inr t)" "res_status t = ''filled''"
    using ex_submitted by blast
  have m: "max_outcome_stake (app_env ex_trading) = Inr (Some (Fin 500))"
    by (simp add: ex_trading_fields eval_rules)
  have g: "opp_group ex_opp = ''g''" by (simp add: ex_opp_def)
  from filled_ticket_cleared [OF ex_trading_fields(1) s, unfolded ex_account g] obtain live where
    "opp_group live = ''g''" "implausible_edge ex_trading live = Inr None"
    "\<forall>cap. max_outcome_stake (app_env ex_trading) = Inr (Some cap) \<longrightarrow>
       num_le (Fin (dadd (held_cost (group_outcomes ex_trading live) ''default'' (app_brokers ex_trading)) (total_stake live))) cap"
    by blast
  with m s(1) show ?thesis by blast
qed

subsection \<open>A ticket that is not filled\<close>

lemma paper_router [simp]: "paper_at (router_of bs) v = map_of bs v"
  by (induction bs) (auto simp: router_of_def paper_at_def)

lemma map_of_router: "map_of (router_of bs) v = map_option Paper (map_of bs v)"
  by (simp add: router_of_def map_of_map_values)

lemma brokers_of_paper: "paper_at ads v = Some br \<Longrightarrow> map_of (brokers_of ads) v = Some br"
proof (induction ads)
  case (Cons p ads)
  obtain w ad where p: "p = (w, ad)" by (cases p)
  with Cons show ?case
    by (cases ad) (auto simp: brokers_of_def paper_at_def List.map_filter_simps split: if_splits)
qed (simp add: paper_at_def)

text \<open>On paper brokers only, a leg without a venue is already refused in preview.\<close>

lemma refused_router:
  assumes "submit no_live lk uid (router_of bs) intent = (ads, Refused e)" "fresh_ids uid (router_of bs)"
    and "map_of bs v = Some br"
  shows "\<exists>br'. map_of (brokers_of ads) v = Some br' \<and> same_trace br br' a i"
proof (cases "preview_all (router_of bs) lk intent = []")
  case True
  have "map_of bs (il_venue l) \<noteq> None" if "l \<in> set (ei_legs intent)" for l
  proof
    assume "map_of bs (il_venue l) = None"
    then have "preview_leg (router_of bs) lk (ei_account intent) l \<noteq> None"
      by (simp add: preview_leg_def map_of_router)
    with True that show False by (simp add: preview_all_Nil)
  qed
  then have "all_paper (router_of bs) intent" by (simp add: all_paper_def list_all_iff)
  from submit_refused_trace [OF assms(1) this assms(2), of v br a i] assms(3) show ?thesis
    using brokers_of_paper [of ads v] by auto
next
  case False
  with assms(1) have "ads = router_of bs" by (simp add: submit_def Let_def)
  with brokers_of_paper [of "router_of bs" v br] assms(3) show ?thesis
    by (intro exI [of _ br]) (simp add: same_trace_def)
qed

text \<open>The state in which the router is called: the row is written and the other coroutines have run.\<close>

definition awaited :: "submission \<Rightarrow> string \<Rightarrow> string option \<Rightarrow> arb_opportunity \<Rightarrow> app \<Rightarrow> arb_opportunity \<Rightarrow> app" where
  "awaited sub source aid opp st live = sub_between sub (pending_row sub (account_or_default st aid) source
     (ticket_title st (opp_group opp)) (starts_at st (opp_group opp)) live (enter_ticket st))"


lemma ex_fresh_books: "fresh_ids ex_uid (router_of (app_brokers ex_trading))"
proof -
  have "list_all (\<lambda>(v, br). br_orders br = [] \<and> br_fills br = []) (app_brokers ex_trading)"
    by (simp add: eval_rules)
  then have "br_orders br = [] \<and> br_fills br = []" if "map_of (app_brokers ex_trading) v = Some br" for v br
    using map_of_SomeD [OF that] by (auto simp: list_all_iff)
  then show ?thesis by (simp add: fresh_ids_def)
qed


text \<open>
  A leg-skew limit of \<open>nan\<close> stops all trading: it parses, it does not count as off, and no skew
  compares as within it, so every ticket with two quoted buy outcomes is refused as stale.
\<close>

theorem nan_skew_limit_refuses_all:
  assumes "max_leg_age_skew_s (app_env st) = Some NaN" "leg_ages (app_book st) now (opp_legs live) [] = Some ages"
    and "2 \<le> length ages"
  shows "\<exists>skew. stale_leg_skew st now live = Some (StaleLegSkew skew NaN (sort ages))"
  using assms by (auto simp: stale_leg_skew_def Let_def num_le_def)

theorem nan_skew_limit_refuses_all_witness:
  "\<exists>skew. stale_leg_skew (ex_trading\<lparr>app_env := (\<lambda>_. None)(''ARBYS_MAX_LEG_AGE_SKEW_S'' := Some ''nan'')\<rparr>) 1001 ex_opp =
     Some (StaleLegSkew skew NaN [(''KY'', 1), (''PN'', 1)])"
proof -
  let ?st = "ex_trading\<lparr>app_env := (\<lambda>_. None)(''ARBYS_MAX_LEG_AGE_SKEW_S'' := Some ''nan'')\<rparr>"
  have "max_leg_age_skew_s (app_env ?st) = Some NaN" by (simp add: eval_rules)
  moreover have "leg_ages (app_book ?st) 1001 (opp_legs ex_opp) [] = Some [(''KY'', 1), (''PN'', 1)]"
    by (simp add: eval_rules ex_opp_def)
  ultimately show ?thesis using nan_skew_limit_refuses_all [of ?st 1001 ex_opp] by simp
qed

end
