(* ===== verification/Api.thy ===== *)
theory Api
  imports Persistence Ticket_Service Loop_Health
begin

section \<open>The HTTP endpoints\<close>

text \<open>
  The handlers of \<open>create_app\<close> in \<open>arbys/backend/app.py\<close> over the application state and the database, with the
  request and response models of \<open>schemas.py\<close>; the ledger, the performance and the monitored rows are in their own
  theories. A handler is one step. \<open>ok\<close> says whether the database commits the request's transaction; an exception
  that no handler catches is \<open>Unhandled\<close> and leaves what was done before it. The clock, the ticket ids
  and what the columns keep of a decimal are arguments.
\<close>

record server =
  sv_app :: app
  sv_db :: database

datatype detail = Text string | Why reason

datatype http_error = Refused nat detail | Unhandled

type_synonym 'a response = "server \<times> (http_error + 'a)"

text \<open>\<open>session_scope\<close>: commit, or roll back and raise.\<close>

definition session_scope :: "bool \<Rightarrow> (database \<Rightarrow> database db_res) \<Rightarrow> database \<Rightarrow> http_error + database" where
  "session_scope ok work d = (case work d of Inl _ \<Rightarrow> Inl Unhandled | Inr d' \<Rightarrow> if ok then Inr d' else Inl Unhandled)"

subsection \<open>Groups\<close>

record group_body =
  gb_id :: string
  gb_title :: string
  gb_legs :: "event_group_leg list"

definition group_out :: "event_group \<Rightarrow> group_body" where
  "group_out g = \<lparr>gb_id = g_id g, gb_title = g_title g, gb_legs = g_legs g\<rparr>"

definition list_groups :: "app \<Rightarrow> group_body list" where
  "list_groups st = map (group_out \<circ> snd) (app_groups st)"

definition group_of :: "group_body \<Rightarrow> event_group" where
  "group_of body = \<lparr>g_id = gb_id body, g_title = gb_title body, resolution_source_by_venue = [], g_legs = gb_legs body,
     start_time = None, in_play = None, ended = None, g_source = ''manual''\<rparr>"

definition create_group :: "bool \<Rightarrow> group_body \<Rightarrow> server \<Rightarrow> group_body response" where
  "create_group ok body sv = (let g = group_of body; st = sv_app sv in
     case session_scope ok (upsert_group_rows g) (sv_db sv) of
       Inl e \<Rightarrow> (sv, Inl e)
     | Inr d \<Rightarrow> (\<lparr>sv_app = sync_ingest (st\<lparr>app_groups := dict_set (g_id g) g (app_groups st),
          app_engine := register_group g (app_engine st)\<rparr>), sv_db = d\<rparr>, Inr body))"

definition delete_group :: "bool \<Rightarrow> string \<Rightarrow> server \<Rightarrow> unit response" where
  "delete_group ok gid sv = (let st = sv_app sv in
     case session_scope ok (\<lambda>d. Inr (delete_event_group gid d)) (sv_db sv) of
       Inl e \<Rightarrow> (sv, Inl e)
     | Inr d \<Rightarrow> (\<lparr>sv_app = sync_ingest (st\<lparr>app_groups := dict_pop gid (app_groups st),
          app_engine := unregister_group gid (app_engine st)\<rparr>), sv_db = d\<rparr>, Inr ()))"

subsection \<open>Quotes and opportunities\<close>

record quote_body =
  qb_outcome :: string
  qb_bid :: rat
  qb_ask :: rat
  qb_bid_size :: "rat option"
  qb_ask_size :: "rat option"

text \<open>The callback the application gives the engine\<close>

fun on_engine_event :: "engine_event \<Rightarrow> app \<Rightarrow> app" where
  "on_engine_event (FoundOpp _) st = st"
| "on_engine_event (FoundSet gid opps) st = set_group_opportunities gid opps st"

definition quote_rows :: "(rat \<Rightarrow> rat) \<Rightarrow> quote \<Rightarrow> database \<Rightarrow> database db_res" where
  "quote_rows num q d = bindE (ensure_outcome_placeholder (q_outcome_id q) ''unknown'' d) (insert_quote num q)"

text \<open>The clock is read when the quote is stored, \<open>t0\<close>, and when the engine reads the book, \<open>t1\<close>.\<close>

definition push_quote :: "(rat \<Rightarrow> rat) \<Rightarrow> bool \<Rightarrow> rat \<Rightarrow> rat \<Rightarrow> quote_body \<Rightarrow> server \<Rightarrow> unit response" where
  "push_quote num ok t0 t1 body sv =
     (case quote_init \<lparr>q_outcome_id = qb_outcome body, bid = qb_bid body, ask = qb_ask body, bid_size = qb_bid_size body,
         ask_size = qb_ask_size body, source_age_s = None\<rparr> of
        Inl _ \<Rightarrow> (sv, Inl Unhandled)
      | Inr q \<Rightarrow>
          (let st = (sv_app sv)\<lparr>app_book := qb_upsert (app_book (sv_app sv)) t0 q\<rparr>
           in case session_scope ok (quote_rows num q) (sv_db sv) of
                Inl e \<Rightarrow> (sv\<lparr>sv_app := st\<rparr>, Inl e)
              | Inr d \<Rightarrow> (case engine_on_quote True (qb_get (app_book st) t1) (app_engine st) q of (events, exc) \<Rightarrow>
                  (\<lparr>sv_app = fold on_engine_event events st, sv_db = d\<rparr>, if exc = None then Inr () else Inl Unhandled))))"

text \<open>\<open>xs[:limit]\<close>\<close>

definition list_opps :: "int \<Rightarrow> app \<Rightarrow> arb_opportunity list" where
  "list_opps limit st = (let xs = opportunities st in
     take (nat (if 0 \<le> limit then limit else int (length xs) + limit)) xs)"

subsection \<open>Accounts\<close>

record account_summary =
  as_account :: string
  as_balances :: "(string, rat) dict"
  as_positions :: "(string, rat) dict"
  as_realized :: "(string, rat) dict"
  as_cash :: rat
  as_position_value :: rat
  as_equity :: rat
  as_unrealized :: rat
  as_open_tickets :: nat

definition add_held :: "string \<times> rat \<Rightarrow> (string, rat) dict \<Rightarrow> (string, rat) dict" where
  "add_held h d = (case h of (oid, qty) \<Rightarrow> if qty \<noteq> 0 then dict_set oid (dadd (dict_get 0 d oid) qty) d else d)"

definition paper_summary :: "rat \<Rightarrow> string \<Rightarrow> server \<Rightarrow> account_summary" where
  "paper_summary now a sv =
     (let bs = app_brokers (sv_app sv);
          eq = account_equity (qb_get (app_book (sv_app sv)) now) bs a
      in \<lparr>as_account = a,
          as_balances = map (\<lambda>(v, br). (v, dict_get 0 (get_balances br a) v)) bs,
          as_positions = fold add_held (concat (map (\<lambda>(_, br). get_positions br a) bs)) [],
          as_realized = map (\<lambda>(v, br). (v, realized_pnl br a)) bs,
          as_cash = eq_cash eq, as_position_value = eq_position_value eq, as_equity = eq_equity eq,
          as_unrealized = eq_unrealized eq,
          as_open_tickets = count_open_paper_tickets (ledger.truncate (sv_db sv)) a\<rparr>)"

record position_out =
  po_venue :: string
  po_outcome :: string
  po_title :: string
  po_group :: "string option"
  po_qty :: rat
  po_avg :: rat
  po_mark :: "rat option"
  po_unrealized :: rat

definition position_of :: "(string \<Rightarrow> quote option) \<Rightarrow> (string, string \<times> string) dict \<Rightarrow> string \<Rightarrow> string \<times> rat \<times> rat \<times> rat \<Rightarrow> position_out" where
  "position_of lk meta v p = (case p of (oid, qty, avg, _) \<Rightarrow>
     let m = map_option mid (lk oid); effective = (case m of None \<Rightarrow> avg | Some x \<Rightarrow> x)
     in \<lparr>po_venue = v, po_outcome = oid, po_title = (case map_of meta oid of None \<Rightarrow> oid | Some (title, _) \<Rightarrow> title),
         po_group = map_option snd (map_of meta oid), po_qty = qty, po_avg = avg, po_mark = m,
         po_unrealized = dmul (dsub effective avg) qty\<rparr>)"

definition paper_positions :: "rat \<Rightarrow> string \<Rightarrow> server \<Rightarrow> position_out list" where
  "paper_positions now a sv =
     (let meta = paper_position_meta (sv_db sv) a
      in concat (map (\<lambda>(v, br). map (position_of (qb_get (app_book (sv_app sv)) now) meta v) (snd (account_snapshot br a)))
           (app_brokers (sv_app sv))))"

definition paper_orders :: "string \<Rightarrow> server \<Rightarrow> order_rec list" where
  "paper_orders a sv = list_paper_orders (sv_db sv) a"

definition paper_pnl :: "string \<Rightarrow> nat \<Rightarrow> server \<Rightarrow> snapshot_row list" where
  "paper_pnl a limit sv = list_pnl_snapshots (sv_db sv) a limit"

subsection \<open>Reset\<close>

text \<open>The last loop of \<open>reset_paper_account\<close>, a transaction per venue; it stops at the first that fails.\<close>

fun reseed ::
  "(rat \<Rightarrow> rat) \<Rightarrow> (string \<Rightarrow> bool) \<Rightarrow> string \<Rightarrow> string list \<Rightarrow> brokers \<times> database \<Rightarrow> (brokers \<times> database) \<times> http_error option" where
  "reseed num ok a [] bd = (bd, None)"
| "reseed num ok a (v # vs) bd = (case bd of (bs, d) \<Rightarrow>
     let bs' = at_account_broker (\<lambda>br. hydrate_balance br a DEFAULT_STARTING_BALANCE) v bs
     in case session_scope (ok v) (upsert_paper_balance num a v DEFAULT_STARTING_BALANCE) d of
          Inl e \<Rightarrow> ((bs', d), Some e) | Inr d' \<Rightarrow> reseed num ok a vs (bs', d'))"

text \<open>What is left to do once the balances are written\<close>

definition clear_services :: "app \<Rightarrow> app" where
  "clear_services st = st\<lparr>app_settler := clear_settled (app_settler st), app_trader := clear_cooldowns (app_trader st),
     app_sweep := (app_sweep st)\<lparr>sw_transfers := 0, sw_moved := 0\<rparr>, app_venue_settle := reset_counters (app_venue_settle st)\<rparr>"

definition paper_reset ::
  "(rat \<Rightarrow> rat) \<Rightarrow> bool \<Rightarrow> (string \<Rightarrow> bool) \<Rightarrow> rat \<Rightarrow> string \<Rightarrow> server \<Rightarrow> account_summary response" where
  "paper_reset num deletes ok now a sv =
     (let st = sv_app sv; bs0 = map (\<lambda>(v, br). (v, reset_account br a)) (app_brokers st)
      in case session_scope deletes (delete_paper_history a) (sv_db sv) of
           Inl e \<Rightarrow> (sv\<lparr>sv_app := put_brokers bs0 st\<rparr>, Inl e)
         | Inr d \<Rightarrow> (case reseed num ok a (map fst bs0) (bs0, d) of
             ((bs, d'), Some e) \<Rightarrow> (\<lparr>sv_app = put_brokers bs st, sv_db = d'\<rparr>, Inl e)
           | ((bs, d'), None) \<Rightarrow> (let sv' = \<lparr>sv_app = clear_services (put_brokers bs st), sv_db = d'\<rparr>
               in (sv', Inr (paper_summary now a sv')))))"

subsection \<open>Settlement and execution\<close>

text \<open>The last pass, without the time it finished at.\<close>

record settle_report =
  sr_checked :: nat
  sr_settled :: nat
  sr_recorded :: nat
  sr_closed :: nat
  sr_not_started :: nat
  sr_unresolved :: "(string \<times> string) list"

definition settle_status :: "bool \<Rightarrow> app \<Rightarrow> bool \<times> settle_report option" where
  "settle_status running st = (running, map_option (\<lambda>r. \<lparr>sr_checked = vr_checked r, sr_settled = length (vr_settled r),
     sr_recorded = length (vr_recorded r), sr_closed = length (vr_ghosts_closed r), sr_not_started = vr_skipped_not_started r,
     sr_unresolved = vr_unresolved r\<rparr>) (vs_last_result (app_venue_settle st)))"

record execute_body =
  ex_index :: int
  ex_account :: "string option"
  ex_group :: "string option"
  ex_outcomes :: "string list option"

definition execution_answer :: "database \<Rightarrow> app \<times> ticket_result res \<Rightarrow> string list response" where
  "execution_answer d r = (case r of (st, Inl _) \<Rightarrow> (\<lparr>sv_app = st, sv_db = d\<rparr>, Inl Unhandled)
     | (st, Inr res) \<Rightarrow> (\<lparr>sv_app = st, sv_db = d\<rparr>,
         if res_status res \<noteq> ''filled'' then Inl (Refused 409 (case res_reason res of None \<Rightarrow> Text (res_status res) | Some why \<Rightarrow> Why why))
         else Inr (res_orders res)))"

text \<open>The rows a ticket writes go through the logs of the state and of the sinks.\<close>

definition paper_execute :: "submission \<Rightarrow> execute_body \<Rightarrow> server \<Rightarrow> string list response" where
  "paper_execute sub body sv = (let st = sv_app sv in case ex_group body of
       Some gid \<Rightarrow> execution_answer (sv_db sv)
         (submit_arb_ticket_for_descriptor sub ''manual'' (ex_account body) (if ex_outcomes body = Some [] then None else ex_outcomes body) gid st)
     | None \<Rightarrow> (let opps = opportunities st in
         if ex_index body < 0 \<or> int (length opps) \<le> ex_index body then (sv, Inl (Refused 404 (Text ''opportunity_index out of range'')))
         else execution_answer (sv_db sv) (submit_arb_ticket sub ''manual'' (ex_account body) True (opps ! nat (ex_index body)) st)))"

subsection \<open>Health\<close>

record health =
  he_dropped :: nat
  he_adapters :: "(string, string) dict"
  he_lag :: lag_stats
  he_transfers :: nat
  he_moved :: rat
  he_settled :: nat
  he_unresolved :: nat
  he_ghosts :: nat
  he_recorded :: nat
  he_running :: bool

definition health_report :: "nat \<Rightarrow> lag_monitor \<Rightarrow> bool \<Rightarrow> app \<Rightarrow> health" where
  "health_report dropped lag running st = \<lparr>he_dropped = dropped, he_adapters = app_modes st, he_lag = lag_stats lag,
     he_transfers = sw_transfers (app_sweep st), he_moved = sw_moved (app_sweep st),
     he_settled = vs_settled_total (app_venue_settle st), he_unresolved = last_unresolved (app_venue_settle st),
     he_ghosts = vs_ghosts_closed_total (app_venue_settle st), he_recorded = vs_recorded_total (app_venue_settle st),
     he_running = running\<rparr>"

subsection \<open>Groups read back\<close>

definition stored_venues :: "database \<Rightarrow> string \<Rightarrow> string list" where
  "stored_venues d oid = concat (map (\<lambda>u. map mw_venue (filter (\<lambda>m. mw_id m = ow_market u) (db_markets d)))
     (filter (\<lambda>u. ow_id u = oid) (db_outcomes d)))"

lemma leg_venues_stored: "leg_venues d l = stored_venues d (ew_outcome l)"
  by (simp add: leg_venues_def stored_venues_def)

lemma distinct_filter_single:
  "distinct (map f xs) \<Longrightarrow> x \<in> set xs \<Longrightarrow> filter (\<lambda>y. f y = f x) xs = [x]"
proof (induction xs)
  case (Cons y ys)
  show ?case
  proof (cases "x = y")
    case True
    with Cons.prems(1) have "filter (\<lambda>z. f z = f x) ys = []" by (auto simp: filter_empty_conv image_iff)
    with True show ?thesis by simp
  next
    case False
    with Cons.prems have "x \<in> set ys" by simp
    moreover from this Cons.prems(1) have "f y \<noteq> f x" by auto
    ultimately show ?thesis using Cons by simp
  qed
qed simp

lemma stored_venue:
  assumes "database_ok d" "oid \<in> ow_id ` set (db_outcomes d)"
  shows "\<exists>m \<in> set (db_markets d). mw_native m = oid \<and> stored_venues d oid = [mw_venue m]"
proof -
  from assms(2) obtain u where u: "u \<in> set (db_outcomes d)" "ow_id u = oid" by blast
  have r: "distinct (map ow_id (db_outcomes d))" "distinct (map mw_id (db_markets d))" "ow_market ` set (db_outcomes d) \<subseteq> mw_id ` set (db_markets d)"
    "placeholders_only (db_markets d) (db_outcomes d)" using assms(1) by (simp_all add: database_ok_def refs_ok_def)
  have "ow_market u \<in> mw_id ` set (db_markets d)" by (rule subsetD [OF r(3)]) (rule imageI [OF u(1)])
  then obtain m where m: "m \<in> set (db_markets d)" "mw_id m = ow_market u" by auto
  have "filter (\<lambda>x. ow_id x = oid) (db_outcomes d) = [u]" using distinct_filter_single [OF r(1) u(1)] by (simp add: u(2))
  moreover have "filter (\<lambda>x. mw_id x = ow_market u) (db_markets d) = [m]" using distinct_filter_single [OF r(2) m(1)] by (simp add: m(2))
  ultimately have "stored_venues d oid = [mw_venue m]" by (simp add: stored_venues_def)
  moreover have "mw_native m = oid" using r(4) m u by (simp add: placeholders_only_def placeholder_id_def)
  ultimately show ?thesis using m(1) by blast
qed

definition leg_row :: "event_group \<Rightarrow> event_group_leg \<Rightarrow> group_leg_row" where
  "leg_row g l = \<lparr>ew_group = g_id g, ew_outcome = leg_outcome l, ew_yes = is_yes_side l,
     ew_resolution = map_of (resolution_source_by_venue g) (leg_venue l)\<rparr>"

text \<open>No market a leg's outcome already has is of another venue.\<close>

definition venues_agree :: "market_row list \<Rightarrow> event_group_leg list \<Rightarrow> bool" where
  "venues_agree ms ls \<longleftrightarrow> (\<forall>m \<in> set ms. \<forall>l \<in> set ls. mw_native m = leg_outcome l \<longrightarrow> mw_venue m = leg_venue l)"

lemma insert_market_InrD: "insert_market r d = Inr d' \<Longrightarrow> d' = d\<lparr>db_markets := db_markets d @ [r]\<rparr>"
  unfolding insert_market_def require_Inr by (elim conjE)

lemma insert_outcome_InrD: "insert_outcome r d = Inr d' \<Longrightarrow> d' = d\<lparr>db_outcomes := db_outcomes d @ [r]\<rparr>"
  unfolding insert_outcome_def require_Inr by (elim conjE)

lemma placeholder_markets:
  assumes "ensure_outcome_placeholder oid v d = Inr d'"
  shows "db_legs d' = db_legs d \<and> db_groups d' = db_groups d \<and>
    (\<forall>m \<in> set (db_markets d'). m \<in> set (db_markets d) \<or> mw_native m = oid \<and> mw_venue m = v)"
proof (cases "oid \<in> ow_id ` set (db_outcomes d)")
  case True
  with assms show ?thesis by (simp add: ensure_outcome_placeholder_def)
next
  case False
  define mk where "mk = \<lparr>mw_id = placeholder_id oid, mw_venue = v, mw_native = oid, mw_title = ''auto-placeholder for '' @ oid, mw_kind = ''binary''\<rparr>"
  have mk: "mw_native mk = oid" "mw_venue mk = v" by (simp_all add: mk_def)
  from assms False obtain d1 u where 1: "d1 = d \<or> insert_market mk d = Inr d1" and 2: "insert_outcome u d1 = Inr d'"
    unfolding ensure_outcome_placeholder_def mk_def [symmetric] by (auto elim!: bindE_InrE split: if_splits)
  from 1 insert_market_InrD have "d1 = d \<or> d1 = d\<lparr>db_markets := db_markets d @ [mk]\<rparr>" by blast
  then have "db_legs d1 = db_legs d \<and> db_groups d1 = db_groups d \<and> (\<forall>m \<in> set (db_markets d1). m \<in> set (db_markets d) \<or> m = mk)" by auto
  with insert_outcome_InrD [OF 2] mk show ?thesis by auto
qed

lemma store_legs:
  assumes "foldE (store_leg g) ls d = Inr d'"
  shows "db_legs d' = db_legs d @ map (leg_row g) ls \<and> db_groups d' = db_groups d \<and>
    (\<forall>m \<in> set (db_markets d'). m \<in> set (db_markets d) \<or> (\<exists>l \<in> set ls. mw_native m = leg_outcome l \<and> mw_venue m = leg_venue l))"
  using assms
proof (induction ls arbitrary: d)
  case (Cons l ls)
  then obtain d1 where 1: "store_leg g l d = Inr d1" and 2: "foldE (store_leg g) ls d1 = Inr d'" by (auto simp: res_simps)
  from 1 obtain d0 where 0: "ensure_outcome_placeholder (leg_outcome l) (leg_venue l) d = Inr d0" and "d1 = d0\<lparr>db_legs := db_legs d0 @ [leg_row g l]\<rparr>"
    by (auto simp: store_leg_def insert_leg_def leg_row_def res_simps)
  then have "db_legs d1 = db_legs d @ [leg_row g l]" "db_groups d1 = db_groups d"
    "\<forall>m \<in> set (db_markets d1). m \<in> set (db_markets d) \<or> mw_native m = leg_outcome l \<and> mw_venue m = leg_venue l"
    using placeholder_markets [OF 0] by simp_all
  with Cons.IH [OF 2] show ?case by (auto 0 3)
qed simp

lemma stored_legs_of:
  assumes "database_ok d" "upsert_group_rows g d = Inr d'" "venues_agree (db_markets d) (g_legs g)"
  shows "stored_legs d' (g_id g) = g_legs g"
proof -
  have ok: "database_ok d'" by (rule upsert_group_ok [OF assms(2,1)])
  from assms(2) obtain e where s: "foldE (store_leg g) (g_legs g) e = Inr d'" and e: "db_markets e = db_markets d"
    "filter (\<lambda>l. ew_group l = g_id g) (db_legs e) = []"
    unfolding upsert_group_rows_def Let_def by (rule that) (simp_all add: filter_filter filter_empty_conv)
  note st = store_legs [OF s]
  have "filter (\<lambda>l. ew_group l = g_id g) (map (leg_row g) (g_legs g)) = map (leg_row g) (g_legs g)" by (simp add: leg_row_def)
  with st e(2) have rows: "filter (\<lambda>l. ew_group l = g_id g) (db_legs d') = map (leg_row g) (g_legs g)" by simp
  have "distinct (map (\<lambda>l. (ew_group l, ew_outcome l)) (db_legs d'))" using ok by (simp add: database_ok_def groups_ok_def)
  with st have "distinct (map (\<lambda>l. (ew_group l, ew_outcome l)) (map (leg_row g) (g_legs g)))" by simp
  then have dist: "distinct (map leg_outcome (g_legs g))" by (simp add: leg_row_def comp_def distinct_map inj_on_def)
  have v: "stored_venues d' (leg_outcome l) = [leg_venue l]" if l: "l \<in> set (g_legs g)" for l
  proof -
    have "leg_row g l \<in> set (db_legs d')" using st l by simp
    then have "ew_outcome (leg_row g l) \<in> ow_id ` set (db_outcomes d')" using ok by (auto simp: database_ok_def groups_ok_def)
    then have "leg_outcome l \<in> ow_id ` set (db_outcomes d')" by (simp add: leg_row_def)
    from stored_venue [OF ok this] obtain m where m: "m \<in> set (db_markets d')" "mw_native m = leg_outcome l" "stored_venues d' (leg_outcome l) = [mw_venue m]"
      by blast
    from st m(1) have "m \<in> set (db_markets d) \<or> (\<exists>l \<in> set (g_legs g). mw_native m = leg_outcome l \<and> mw_venue m = leg_venue l)" by (simp add: e(1))
    then have "mw_venue m = leg_venue l"
    proof
      assume "m \<in> set (db_markets d)"
      with assms(3) l m(2) show ?thesis by (simp add: venues_agree_def)
    next
      assume "\<exists>l \<in> set (g_legs g). mw_native m = leg_outcome l \<and> mw_venue m = leg_venue l"
      then obtain k where k: "k \<in> set (g_legs g)" "mw_native m = leg_outcome k" "mw_venue m = leg_venue k" by blast
      with m(2) dist l have "k = l" by (simp add: distinct_map inj_on_def)
      with k show ?thesis by simp
    qed
    with m(3) show ?thesis by simp
  qed
  have "map (\<lambda>l. map (\<lambda>v. \<lparr>leg_outcome = ew_outcome l, leg_venue = v, is_yes_side = ew_yes l\<rparr>) (leg_venues d' l)) (map (leg_row g) (g_legs g)) =
      map (\<lambda>l. [l]) (g_legs g)"
    using v by (simp add: leg_venues_stored leg_row_def comp_def)
  then show ?thesis unfolding stored_legs_def rows by (simp only:) simp
qed
lemma group_row_stored:
  assumes "upsert_group_rows g d = Inr d'"
  shows "\<exists>r \<in> set (db_groups d'). gw_id r = g_id g \<and> gw_title r = g_title g \<and> gw_source r = g_source g \<and>
    (start_time g = None \<or> gw_start r = start_time g)"
proof -
  have "db_groups d' = db_groups (group_row_of g d)" using store_legs [OF assms [unfolded upsert_group_rows_eq]] by simp
  moreover have "\<exists>r \<in> set (db_groups (group_row_of g d)). gw_id r = g_id g \<and> gw_title r = g_title g \<and> gw_source r = g_source g \<and>
      (start_time g = None \<or> gw_start r = start_time g)"
  proof (cases "g_id g \<in> gw_id ` set (db_groups d)")
    case True
    then obtain r where "r \<in> set (db_groups d)" "gw_id r = g_id g" by auto
    then have "merge_group g r \<in> set (db_groups (group_row_of g d))" using True by (auto simp: group_row_of_def Let_def)
    then show ?thesis by (rule bexI [rotated]) (simp add: merge_group_def \<open>gw_id r = g_id g\<close> split: option.split)
  next
    case False
    then show ?thesis by (simp add: group_row_of_def Let_def)
  qed
  ultimately show ?thesis by simp
qed

lemma group_listed:
  assumes "database_ok d" "upsert_group_rows g d = Inr d'" "venues_agree (db_markets d) (g_legs g)"
  shows "\<exists>g' \<in> set (list_event_groups d'). g_id g' = g_id g \<and> g_title g' = g_title g \<and> g_legs g' = g_legs g \<and> g_source g' = g_source g"
proof -
  from group_row_stored [OF assms(2)] obtain r where r: "r \<in> set (db_groups d')" "gw_id r = g_id g" "gw_title r = g_title g" "gw_source r = g_source g"
    by blast
  define f where "f = (\<lambda>r :: group_row. \<lparr>g_id = gw_id r, g_title = gw_title r, resolution_source_by_venue = [],
     g_legs = stored_legs d' (gw_id r), start_time = gw_start r, in_play = None, ended = None, g_source = gw_source r\<rparr>)"
  have "f r \<in> set (list_event_groups d')" using r(1) by (simp add: list_event_groups_def f_def)
  moreover have "g_id (f r) = g_id g" "g_title (f r) = g_title g" "g_legs (f r) = g_legs g" "g_source (f r) = g_source g"
    using r stored_legs_of [OF assms] by (simp_all add: f_def)
  ultimately show ?thesis by blast
qed

lemma listed_ids: "map g_id (list_event_groups d) = map gw_id (db_groups d)"
  by (simp add: list_event_groups_def comp_def)

lemma list_event_groups_cong:
  "db_groups e = db_groups d \<Longrightarrow> db_legs e = db_legs d \<Longrightarrow> db_outcomes e = db_outcomes d \<Longrightarrow> db_markets e = db_markets d \<Longrightarrow>
     list_event_groups e = list_event_groups d"
  by (simp add: list_event_groups_def stored_legs_def leg_venues_def)

lemma seed_reference_groups:
  assumes "seed_reference titled a d = Inr e"
  shows "list_event_groups e = list_event_groups d"
proof -
  define f where "f = fold (\<lambda>v. ensure_venue v (titled v) ''exchange'') REFERENCE_VENUES d"
  have v: "db_groups (fold (\<lambda>v. ensure_venue v (titled v) ''exchange'') vs d) = db_groups d \<and>
    db_legs (fold (\<lambda>v. ensure_venue v (titled v) ''exchange'') vs d) = db_legs d \<and>
    db_outcomes (fold (\<lambda>v. ensure_venue v (titled v) ''exchange'') vs d) = db_outcomes d \<and>
    db_markets (fold (\<lambda>v. ensure_venue v (titled v) ''exchange'') vs d) = db_markets d" for vs
    by (induction vs arbitrary: d) (simp_all add: ensure_venue_def)
  from assms have "e = f \<or> (\<exists>rows. e = f\<lparr>db_accounts := rows\<rparr>)"
    by (auto simp: seed_reference_def ensure_paper_account_def Let_def require_def simp flip: f_def split: if_splits)
  with v [of REFERENCE_VENUES, folded f_def] show ?thesis by (auto intro!: list_event_groups_cong)
qed

lemma hydrate_groups: "app_groups (hydrate bals poss st) = app_groups st"
  by (simp add: hydrate_def Let_def db_def put_brokers_def)

lemma map_of_registered:
  assumes "distinct (map g_id gs)" "g \<in> set gs"
  shows "map_of (app_groups (fold (\<lambda>g. register_one (g, None)) gs st)) (g_id g) = Some g"
proof -
  have "fold (\<lambda>g. register_one (g, None)) gs st = fold register_one (map (\<lambda>g. (g, None)) gs) st" by (simp add: fold_map comp_def)
  then have "map_of (app_groups (fold (\<lambda>g. register_one (g, None)) gs st)) (g_id g) =
      (map_of (app_groups st) ++ map_of (rev (map (\<lambda>g. (g_id g, g)) gs))) (g_id g)"
    by (simp add: fold_register_lookup comp_def)
  moreover have "map_of (rev (map (\<lambda>g. (g_id g, g)) gs)) (g_id g) = Some g"
    using assms by (intro map_of_is_SomeI) (simp_all add: rev_map [symmetric] comp_def distinct_map)
  ultimately show ?thesis by (simp add: map_add_def)
qed

text \<open>
  C35: A group created by hand is registered when the request is answered, and is there again after a restart, with its
  title and its legs in order: unless one of its outcomes was stored before under another venue, for
  then the leg comes back under the old one.
\<close>

theorem created_group_survives:
  assumes "create_group ok body sv = (sv', Inr out)" "database_ok (sv_db sv)" "venues_agree (db_markets (sv_db sv)) (gb_legs body)"
    and "bootstrap num titled st (sv_db sv') = Inr (st', d')"
  shows "map_of (app_groups (sv_app sv')) (gb_id body) = Some (group_of body) \<and>
    (\<exists>g. map_of (app_groups st') (gb_id body) = Some g \<and> group_out g = body \<and> g_source g = ''manual'')"
proof -
  define d where "d = sv_db sv'"
  from assms(1) have up: "upsert_group_rows (group_of body) (sv_db sv) = Inr d"
    and st1: "sv_app sv' = sync_ingest ((sv_app sv)\<lparr>app_groups := dict_set (gb_id body) (group_of body) (app_groups (sv_app sv)),
      app_engine := register_group (group_of body) (app_engine (sv_app sv))\<rparr>)"
    by (auto simp: create_group_def session_scope_def Let_def d_def group_of_def split: sum.splits if_splits)
  have agree: "venues_agree (db_markets (sv_db sv)) (g_legs (group_of body))" using assms(3) by (simp add: group_of_def)
  from group_listed [OF assms(2) up agree] obtain g where g: "g \<in> set (list_event_groups d)" "g_id g = gb_id body" "g_title g = gb_title body"
    "g_legs g = gb_legs body" "g_source g = ''manual''" by (auto simp: group_of_def)
  note hyd = bootstrap_hydrates [OF assms(4), folded d_def]
  obtain e where e: "seed_reference titled (app_account st) d = Inr e"
    and st': "st' = hydrate (stored_balances e (app_account st)) (stored_positions e (app_account st)) (fold (\<lambda>g. register_one (g, None)) (list_event_groups e) st)"
    using hyd by (elim exE conjE) (rule that, assumption+)
  have "database_ok d" by (rule upsert_group_ok [OF up assms(2)])
  then have "distinct (map g_id (list_event_groups d))" by (simp add: listed_ids database_ok_def groups_ok_def)
  from map_of_registered [OF this g(1)] have "map_of (app_groups st') (gb_id body) = Some g"
    by (simp add: st' hydrate_groups seed_reference_groups [OF e] g(2))
  moreover have "group_out g = body" using g by (simp add: group_out_def)
  moreover have "map_of (app_groups (sv_app sv')) (gb_id body) = Some (group_of body)" by (simp add: st1 sync_frame)
  ultimately show ?thesis using g(5) by blast
qed
text \<open>
  A deleted group is gone from the registry, the engine and the database, but what it last offered stays in the list of
  opportunities: the engine finds nothing for it any more, so no evaluation ever replaces it.
\<close>

theorem deleted_group_still_offered:
  "case delete_group True gid sv of (sv', r) \<Rightarrow> r = Inr () \<and> map_of (app_groups (sv_app sv')) gid = None \<and>
     gid \<notin> g_id ` set (list_event_groups (sv_db sv')) \<and> evaluate_now lk (app_engine (sv_app sv')) gid = Inr [] \<and>
     opportunities (sv_app sv') = opportunities (sv_app sv)"
proof -
  have e: "app_engine (sync_ingest st) = app_engine st" "app_opps (sync_ingest st) = app_opps st" for st
    by (simp_all add: sync_ingest_def restart_ingest_def start_ingest_def stop_ingest_def Let_def)
  have "map_of (en_groups (unregister_group gid en)) gid = None" for en by (simp add: unregister_group_def split: option.split)
  moreover have "gid \<notin> g_id ` set (list_event_groups (delete_event_group gid d))" for d
    unfolding list.set_map [symmetric] listed_ids by (auto simp: delete_event_group_def)
  ultimately show ?thesis by (simp add: delete_group_def session_scope_def Let_def sync_frame e evaluate_now_def opportunities_def)
qed

text \<open>
  A quote pushed for an outcome the database does not know, with no venue \<open>unknown\<close>, ends in an exception: the
  book has taken the quote, no row is written and the engine is not told.
\<close>

theorem unknown_quote_half_taken:
  assumes "quote_init q = Inr q" "source_age_s q = None" "oid = q_outcome_id q"
    and "oid \<notin> ow_id ` set (db_outcomes (sv_db sv))" "placeholder_id oid \<notin> mw_id ` set (db_markets (sv_db sv))" "\<not> has_venue (sv_db sv) ''unknown''"
  shows "push_quote num ok t0 t1 \<lparr>qb_outcome = oid, qb_bid = bid q, qb_ask = ask q, qb_bid_size = bid_size q, qb_ask_size = ask_size q\<rparr> sv =
    (sv\<lparr>sv_app := (sv_app sv)\<lparr>app_book := qb_upsert (app_book (sv_app sv)) t0 q\<rparr>\<rparr>, Inl Unhandled)"
proof -
  have q: "\<lparr>q_outcome_id = q_outcome_id q, bid = bid q, ask = ask q, bid_size = bid_size q, ask_size = ask_size q, source_age_s = None\<rparr> = q"
    using assms(2) by (cases q) simp
  have "insert_market m (sv_db sv) = Inl IntegrityError" if "mw_venue m = ''unknown''" for m
    using assms(6) that by (simp add: insert_market_def require_def has_venue_def)
  then have "ensure_outcome_placeholder oid ''unknown'' (sv_db sv) = Inl IntegrityError"
    using assms(4,5) by (simp add: ensure_outcome_placeholder_def)
  then show ?thesis by (simp add: push_quote_def assms(1,3) q session_scope_def quote_rows_def)
qed

subsection \<open>A reset\<close>

lemma history_rows:
  assumes "delete_paper_history a d = Inr d'"
  shows "same_refs d d'" "balance_rows d' b v = (if b = a then [] else balance_rows d b v)"
    "position_rows d' b v oid = (if b = a then [] else position_rows d b v oid)"
proof -
  from assms obtain f r t where "d' = d\<lparr>lg_fills := f, lg_orders := r, lg_tickets := t, lg_settlements := [],
      db_snapshots := filter (\<lambda>r. nw_account r \<noteq> a) (db_snapshots d), db_positions := filter (\<lambda>r. xw_account r \<noteq> a) (db_positions d),
      db_transfers := filter (\<lambda>r. tw_account r \<noteq> a) (db_transfers d), db_balances := filter (\<lambda>r. bw_account r \<noteq> a) (db_balances d)\<rparr>"
    unfolding delete_paper_history_def Let_def require_Inr by (elim conjE)
  note d' = this
  show "same_refs d d'" by (simp add: d' same_refs_def)
  show "balance_rows d' b v = (if b = a then [] else balance_rows d b v)"
    by (auto simp: d' balance_rows_def filter_empty_conv intro!: arg_cong [of _ _ "map bw_amount"] filter_cong)
  show "position_rows d' b v oid = (if b = a then [] else position_rows d b v oid)"
    by (auto simp: d' position_rows_def filter_empty_conv intro!: arg_cong [where f = "map _"] filter_cong)
qed

lemma dom_delete_keys: "fst ` set (dict_pop a d) \<subseteq> fst ` set d"
  by (force simp: AList.delete_eq)

lemma reset_mirrors:
  assumes "mirrors num br d" "delete_paper_history a d = Inr d'"
  shows "mirrors num (reset_account br a) d'"
proof -
  have acc: "acct (reset_account br a) b = (if b = a then empty_account else acct br b)" for b
    by (simp add: reset_account_def acct_def dict_get_def)
  note h = history_rows [OF assms(2)]
  have refs: "has_account d' = has_account d" "has_venue d' = has_venue d" using h(1)
    by (auto simp: same_refs_def has_account_def [abs_def] has_venue_def [abs_def])
  have "account_rows num (br_venue br) (acct (reset_account br a) b) b d'" for b
  proof (cases "b = a")
    case True
    then show ?thesis by (simp add: acc account_rows_def h(2,3) empty_account_def)
  next
    case False
    have "account_rows num (br_venue br) (acct br b) b d" using assms(1) by (simp add: mirrors_def)
    then have "account_rows num (br_venue br) (acct br b) b d'" by (rule account_rows_same) (use False in \<open>simp_all add: h(2,3)\<close>)
    with False show ?thesis by (simp add: acc)
  qed
  moreover have "database_ok d'" using delete_history_ok [OF assms(2)] assms(1) by (simp add: mirrors_def)
  moreover have "fst ` set (br_accounts (reset_account br a)) \<subseteq> fst ` set (br_accounts br)" using dom_delete_keys [of a "br_accounts br"] by (simp add: reset_account_def)
  moreover have "br_venue (reset_account br a) = br_venue br" "br_sink (reset_account br a) = br_sink br"
    "br_accounts (reset_account br a) = dict_pop a (br_accounts br)" by (simp_all add: reset_account_def)
  moreover have "\<forall>b \<in> fst ` set (br_accounts (reset_account br a)). has_account d b"
  proof
    fix b assume "b \<in> fst ` set (br_accounts (reset_account br a))"
    with \<open>fst ` set (br_accounts (reset_account br a)) \<subseteq> fst ` set (br_accounts br)\<close> have "b \<in> fst ` set (br_accounts br)" by (rule subsetD)
    with assms(1) show "has_account d b" unfolding mirrors_def by (elim conjE) (rule bspec)
  qed
  ultimately show ?thesis using assms(1) refs by (simp add: mirrors_def)
qed

lemma reset_mirrored:
  assumes "mirrored num bs d" "delete_paper_history a d = Inr d'"
  shows "mirrored num (map (\<lambda>(v, br). (v, reset_account br a)) bs) d'"
proof -
  have "br_venue b = v \<and> mirrors num b d'" if "map_of (map (\<lambda>(v, br). (v, reset_account br a)) bs) v = Some b" for v b
  proof -
    from that obtain br where "map_of bs v = Some br" "b = reset_account br a" by (auto simp: map_of_map_values)
    with mirroredD [OF assms(1) this(1)] reset_mirrors [OF _ assms(2)] show ?thesis by (simp add: reset_account_def)
  qed
  moreover have "dict_ok (map (\<lambda>(v, br). (v, reset_account br a)) bs)" "database_ok d"
    using assms(1) by (simp_all add: mirrored_def split_def comp_def)
  ultimately show ?thesis using delete_history_ok [OF assms(2)] unfolding mirrored_def by blast
qed

lemma reseed_mirrored:
  assumes "mirrored num bs d" "has_account d a" "distinct vs" "set vs \<subseteq> fst ` set bs"
  shows "\<exists>bs' d'. reseed num (\<lambda>_. True) a vs (bs, d) = ((bs', d'), None) \<and> mirrored num bs' d' \<and>
    (\<forall>v. map_of bs' v = (if v \<in> set vs then map_option (\<lambda>br. hydrate_balance br a DEFAULT_STARTING_BALANCE) (map_of bs v) else map_of bs v))"
  using assms
proof (induction vs arbitrary: bs d)
  case (Cons v vs)
  from Cons.prems(4) obtain br where br: "map_of bs v = Some br" by (cases "map_of bs v") (auto simp: map_of_eq_None_iff)
  from mirroredD [OF Cons.prems(1) br] have b: "br_venue br = v" "mirrors num br d" by simp_all
  then have "has_venue d v" "database_ok d" by (simp_all add: mirrors_def)
  from upsert_balance_total [OF this(2) Cons.prems(2) this(1), of num DEFAULT_STARTING_BALANCE] obtain d1
    where d1: "upsert_paper_balance num a v DEFAULT_STARTING_BALANCE d = Inr d1" and r: "same_refs d d1" "position_rows d1 = position_rows d"
      "\<forall>a' v'. balance_rows d1 a' v' = (if a' = a \<and> v' = v then [num DEFAULT_STARTING_BALANCE] else balance_rows d a' v')" by blast
  define br1 where "br1 = hydrate_balance br a DEFAULT_STARTING_BALANCE"
  define bs1 where "bs1 = dict_set v br1 bs"
  have a1: "at_account_broker (\<lambda>br. hydrate_balance br a DEFAULT_STARTING_BALANCE) v bs = bs1" by (simp add: at_account_broker_def br bs1_def br1_def)
  have "balances_set num a [(v, DEFAULT_STARTING_BALANCE)] d d1"
    using r upsert_balance_ok [OF d1 \<open>database_ok d\<close>] by (simp add: balances_set_def)
  moreover have mc: "moved_cash a br br1" by (simp add: br1_def hydrate_balance_def put_cash_moves)
  moreover have "cash br1 a = DEFAULT_STARTING_BALANCE" by (simp add: br1_def reads_hydrate_balance)
  ultimately have "mirrors num br1 d1" using mirror_swept [OF b(2) mc, of _ d1] b(1) Cons.prems(2) by simp
  moreover have "local_to v d d1" using r by (simp add: local_to_def)
  moreover have "br_venue br1 = br_venue br" using mc by (simp add: moved_cash_def)
  ultimately have m1: "mirrored num bs1 d1" using mirrored_update [OF Cons.prems(1) br _ _ r(1)] b(1) by (simp add: bs1_def)
  have "has_account d1 a" using r(1) Cons.prems(2) by (simp add: same_refs_def has_account_def)
  moreover have "set vs \<subseteq> fst ` set bs1" using Cons.prems(4) by (auto simp: bs1_def dom_update)
  ultimately obtain bs' d' where rs: "reseed num (\<lambda>_. True) a vs (bs1, d1) = ((bs', d'), None)" "mirrored num bs' d'"
    "\<forall>w. map_of bs' w = (if w \<in> set vs then map_option (\<lambda>br. hydrate_balance br a DEFAULT_STARTING_BALANCE) (map_of bs1 w) else map_of bs1 w)"
    using Cons.IH [OF m1] Cons.prems(3) by auto
  have "map_of bs' w = (if w \<in> set (v # vs) then map_option (\<lambda>br. hydrate_balance br a DEFAULT_STARTING_BALANCE) (map_of bs w) else map_of bs w)" for w
    using rs(3) Cons.prems(3) br by (auto simp: bs1_def br1_def)
  moreover have "reseed num (\<lambda>_. True) a (v # vs) (bs, d) = ((bs', d'), None)" by (simp add: a1 session_scope_def d1 rs(1))
  ultimately show ?case using rs(2) by blast
qed simp

text \<open>
  A reset whose first transaction fails has already emptied the account: every venue has no cash left in memory,
  nothing is held, and the database still has it all.
\<close>

theorem failed_reset_empties:
  "case paper_reset num False ok now a sv of (sv', r) \<Rightarrow> r = Inl Unhandled \<and> sv_db sv' = sv_db sv \<and>
     (\<forall>(v, br) \<in> set (app_brokers (sv_app sv')). cash br a = 0 \<and> get_positions br a = [])"
proof -
  have "session_scope False w d = Inl Unhandled" for w d by (simp add: session_scope_def split: sum.split)
  moreover have "acct (reset_account br a) a = empty_account" for br by (simp add: reset_account_def acct_def dict_get_def)
  ultimately show ?thesis
    by (auto simp: paper_reset_def Let_def put_brokers_def cash_def venue_cash_def get_positions_def empty_account_def)
qed

subsection \<open>A worked server\<close>

definition ex_server :: server where
  "ex_server = \<lparr>sv_app = ex_start\<lparr>app_brokers := [(''kalshi'', ex_broker)]\<rparr>, sv_db = ex_db\<rparr>"

definition ex_body :: group_body where
  "ex_body = \<lparr>gb_id = ''hand'', gb_title = ''Rivals'', gb_legs = [\<lparr>leg_outcome = ''KA:YES'', leg_venue = ''kalshi'', is_yes_side = True\<rparr>,
     \<lparr>leg_outcome = ''KA:NO'', leg_venue = ''kalshi'', is_yes_side = False\<rparr>]\<rparr>"

lemma ex_db_ok: "database_ok ex_db" "has_account ex_db ''demo''"
  by (simp_all add: ok_defs ex_db_def empty_database_def)

theorem created_group_survives_witness:
  "\<exists>sv' st' d' g. create_group True ex_body ex_server = (sv', Inr ex_body) \<and> bootstrap id id ex_start (sv_db sv') = Inr (st', d') \<and>
     map_of (app_groups st') ''hand'' = Some g \<and> group_out g = ex_body"
proof -
  have "case upsert_group_rows (group_of ex_body) ex_db of Inl _ \<Rightarrow> False | Inr d \<Rightarrow> aw_id ` set (db_accounts d) = {''demo''}" by code_simp
  then obtain d where up: "upsert_group_rows (group_of ex_body) ex_db = Inr d" and acc: "aw_id ` set (db_accounts d) = {''demo''}" by (auto split: sum.splits)
  define sv' where "sv' = fst (create_group True ex_body ex_server)"
  have c: "create_group True ex_body ex_server = (sv', Inr ex_body)" and d: "sv_db sv' = d"
    by (simp_all add: sv'_def create_group_def Let_def session_scope_def up ex_server_def)
  have "database_ok d" by (rule upsert_group_ok [OF up ex_db_ok(1)])
  moreover have "has_account d ''demo''" using acc by (simp add: has_account_def)
  moreover have "fst ` set (app_brokers ex_start) \<subseteq> set REFERENCE_VENUES" "app_account ex_start = ''demo''" by (simp_all add: ex_start_def REFERENCE_VENUES_def)
  ultimately obtain st' d' where b: "bootstrap id id ex_start (sv_db sv') = Inr (st', d')" using bootstrap_total [of d ex_start id id] by (auto simp: d)
  have k: "database_ok (sv_db ex_server)" by (simp add: ex_server_def ex_db_ok)
  have a: "venues_agree (db_markets (sv_db ex_server)) (gb_legs ex_body)" by (simp add: venues_agree_def ex_server_def ex_db_def empty_database_def)
  have i: "gb_id ex_body = ''hand''" by (simp add: ex_body_def)
  from created_group_survives [OF c k a b] have "\<exists>g. map_of (app_groups st') ''hand'' = Some g \<and> group_out g = ex_body"
    unfolding i by (elim conjE exE) (intro exI conjI)
  then obtain g where "map_of (app_groups st') ''hand'' = Some g" "group_out g = ex_body" by (elim exE conjE)
  with c b show ?thesis by (intro exI conjI)
qed


end
