(* ===== verification/Kalshi_Book.thy ===== *)
theory Kalshi_Book
  imports Config
begin

section \<open>The Kalshi order book\<close>

text \<open>
  The market-data half of \<open>arbys/adapters/kalshi_ws.py\<close>: the two price ladders of a market
  (\<open>_MarketBook\<close>), the snapshot and delta messages that move them and the quotes they give. A message is
  what \<open>json.loads\<close> returned, reduced to the fields the code reads: a level is the text of its price and
  size (\<open>None\<close> where indexing it fails) and a field that is not a string is \<open>None\<close>. Ladders are keyed by
  the price's text, as in the code. A message with no ticker is \<open>OtherMsg\<close>. Infinite and NaN sizes and
  prices, which \<open>Decimal\<close> also reads, are outside the model: it takes their texts as unreadable.
\<close>

record market_book =
  mb_yes :: "(string, rat) dict"
  mb_no :: "(string, rat) dict"

definition empty_market_book :: market_book where
  "empty_market_book = \<lparr>mb_yes = [], mb_no = []\<rparr>"

definition read_decimal :: "string \<Rightarrow> rat res" where
  "read_decimal s = (case py_decimal s of Some (Fin r) \<Rightarrow> Inr r | _ \<Rightarrow> Inl InvalidOperation)"

type_synonym level = "(string \<times> string) option"

text \<open>An unreadable size raises InvalidOperation, which the \<open>except\<close> around it does not list.\<close>

fun levels_to_dict :: "level list \<Rightarrow> (string, rat) dict \<Rightarrow> (string, rat) dict res" where
  "levels_to_dict [] out = Inr out"
| "levels_to_dict (None # ls) out = levels_to_dict ls out"
| "levels_to_dict (Some (price, sz) # ls) out =
     bindE (read_decimal sz) (\<lambda>x. levels_to_dict ls (dict_set price x out))"

definition ladder :: "level list option \<Rightarrow> (string, rat) dict res" where
  "ladder levels = (case levels of None \<Rightarrow> Inr [] | Some ls \<Rightarrow> levels_to_dict ls [])"

definition apply_snapshot :: "level list option \<Rightarrow> level list option \<Rightarrow> market_book \<Rightarrow> market_book \<times> py_exc option" where
  "apply_snapshot yes no b = (case ladder yes of
     Inl e \<Rightarrow> (b, Some e)
   | Inr y \<Rightarrow> (case ladder no of
        Inl e \<Rightarrow> (b\<lparr>mb_yes := y\<rparr>, Some e)
      | Inr n \<Rightarrow> (b\<lparr>mb_yes := y, mb_no := n\<rparr>, None)))"

definition move_level :: "string \<Rightarrow> rat \<Rightarrow> (string, rat) dict \<Rightarrow> (string, rat) dict" where
  "move_level price change d = (let new = dadd (dict_get 0 d price) change in
     if new \<le> 0 then dict_pop price d else dict_set price new d)"

definition apply_delta :: "string \<Rightarrow> string \<Rightarrow> string \<Rightarrow> market_book \<Rightarrow> market_book \<times> py_exc option" where
  "apply_delta sd price delta_fp b = (case read_decimal delta_fp of
     Inl e \<Rightarrow> (b, Some e)
   | Inr change \<Rightarrow>
       (if sd = ''yes'' then b\<lparr>mb_yes := move_level price change (mb_yes b)\<rparr>
        else b\<lparr>mb_no := move_level price change (mb_no b)\<rparr>, None))"

definition max_price_and_size :: "(string, rat) dict \<Rightarrow> (rat \<times> rat) option" where
  "max_price_and_size d = foldl (\<lambda>best (p_str, sz). case read_decimal p_str of
     Inl _ \<Rightarrow> best
   | Inr p \<Rightarrow> (case best of None \<Rightarrow> Some (p, sz) | Some (q, s) \<Rightarrow> if q < p then Some (p, sz) else Some (q, s))) None d"

definition best_yes :: "market_book \<Rightarrow> (rat \<times> rat) option" where
  "best_yes b = max_price_and_size (mb_yes b)"

definition best_no :: "market_book \<Rightarrow> (rat \<times> rat) option" where
  "best_no b = max_price_and_size (mb_no b)"

subsection \<open>Quotes\<close>

definition side_quote :: "string \<Rightarrow> rat \<Rightarrow> rat \<Rightarrow> rat \<Rightarrow> rat \<Rightarrow> quote option" where
  "side_quote oid b a b_size a_size =
     (case quote_init \<lparr>q_outcome_id = oid, bid = (if a < b then a else b), ask = a, bid_size = Some b_size,
        ask_size = Some a_size, source_age_s = None\<rparr> of Inl _ \<Rightarrow> None | Inr q \<Rightarrow> Some q)"

text \<open>A side's ask is one minus the other side's best bid, with the size resting there.\<close>

definition implied_ask :: "(rat \<times> rat) option \<Rightarrow> rat \<times> rat" where
  "implied_ask other = (case other of None \<Rightarrow> (1, 0) | Some (b, sz) \<Rightarrow> (dsub 1 b, sz))"

definition bid_of :: "(rat \<times> rat) option \<Rightarrow> rat \<times> rat" where
  "bid_of own = (case own of None \<Rightarrow> (0, 0) | Some p \<Rightarrow> p)"

definition quotes_for :: "string \<Rightarrow> market_book \<Rightarrow> quote list" where
  "quotes_for ticker b =
     (let yb = best_yes b; nb = best_no b in
      (case side_quote (ticker @ '':YES'') (fst (bid_of yb)) (fst (implied_ask nb)) (snd (bid_of yb)) (snd (implied_ask nb)) of
         None \<Rightarrow> [] | Some q \<Rightarrow> [q]) @
      (case side_quote (ticker @ '':NO'') (fst (bid_of nb)) (fst (implied_ask yb)) (snd (bid_of nb)) (snd (implied_ask yb)) of
         None \<Rightarrow> [] | Some q \<Rightarrow> [q]))"

subsection \<open>Messages\<close>

datatype kalshi_msg =
    OrderbookSnapshot string "level list option" "level list option"
  | OrderbookDelta string "string option" "string option" "string option"
  | OtherMsg

type_synonym kalshi_books = "(string, market_book) dict"

definition handle_message :: "kalshi_msg \<Rightarrow> kalshi_books \<Rightarrow> kalshi_books \<times> quote list res" where
  "handle_message msg books = (case msg of
     OrderbookSnapshot ticker yes no \<Rightarrow> (case map_of books ticker of
         None \<Rightarrow> (books, Inr [])
       | Some b \<Rightarrow> (case apply_snapshot yes no b of
             (b', Some e) \<Rightarrow> (dict_set ticker b' books, Inl e)
           | (b', None) \<Rightarrow> (dict_set ticker b' books, Inr (quotes_for ticker b'))))
   | OrderbookDelta ticker sd price delta \<Rightarrow> (case map_of books ticker of
         None \<Rightarrow> (books, Inr [])
       | Some b \<Rightarrow> (case (sd, price, delta) of
             (Some s, Some p, Some d) \<Rightarrow> (case apply_delta s p d b of
                 (b', Some e) \<Rightarrow> (dict_set ticker b' books, Inl e)
               | (b', None) \<Rightarrow> (dict_set ticker b' books, Inr (quotes_for ticker b')))
           | _ \<Rightarrow> (books, Inr [])))
   | OtherMsg \<Rightarrow> (books, Inr []))"

text \<open>The tickers a connection subscribes to, each with an empty book.\<close>

definition market_tickers :: "string list \<Rightarrow> string list" where
  "market_tickers oids = sort (remdups (map (takeWhile (\<lambda>c. c \<noteq> CHR '':'')) oids))"

definition new_books :: "string list \<Rightarrow> kalshi_books" where
  "new_books oids = map (\<lambda>t. (t, empty_market_book)) (market_tickers oids)"

text \<open>One connection: messages until the first exception, which ends it. The books outlive it.\<close>

fun connection :: "kalshi_msg list \<Rightarrow> kalshi_books \<Rightarrow> kalshi_books \<times> quote list \<times> py_exc option" where
  "connection [] books = (books, [], None)"
| "connection (m # ms) books = (case handle_message m books of
     (books', Inl e) \<Rightarrow> (books', [], Some e)
   | (books', Inr qs) \<Rightarrow> (case connection ms books' of (books'', qs', r) \<Rightarrow> (books'', qs @ qs', r)))"

text \<open>
  The streaming loop: after a connection that gave no quote the wait doubles up to the highest one; a quote
  resets it. A wait is given without its random factor between one half and three halves.
\<close>

definition next_backoff :: "rat \<Rightarrow> rat \<Rightarrow> rat" where
  "next_backoff highest b = min (2 * b) highest"

fun stream_quotes :: "rat \<Rightarrow> rat \<Rightarrow> kalshi_msg list list \<Rightarrow> rat \<Rightarrow> kalshi_books \<Rightarrow> kalshi_books \<times> quote list \<times> rat list" where
  "stream_quotes initial highest [] b books = (books, [], [])"
| "stream_quotes initial highest (ms # mss) b books = (case connection ms books of
     (books', qs, _) \<Rightarrow>
       (let wait = (if qs = [] then b else initial) in
        case stream_quotes initial highest mss (next_backoff highest wait) books' of
          (books'', qs', waits) \<Rightarrow> (books'', qs @ qs', wait # waits)))"

text \<open>\<open>Outcome\<close> is built without its label, which has no default, so any ticker makes this raise.\<close>

definition list_markets :: "string list \<Rightarrow> outcome list res" where
  "list_markets oids = (if market_tickers oids = [] then Inr [] else Inl TypeError)"

text \<open>The price-only variant behind \<open>best_yes_bid\<close> and \<open>best_no_bid\<close>: it does not catch InvalidOperation.\<close>

fun max_price_from :: "rat option \<Rightarrow> (string, rat) dict \<Rightarrow> rat option res" where
  "max_price_from best [] = Inr best"
| "max_price_from best ((p_str, _) # d) = bindE (read_decimal p_str) (\<lambda>p.
     max_price_from (case best of None \<Rightarrow> Some p | Some q \<Rightarrow> Some (if q < p then p else q)) d)"

definition max_price :: "(string, rat) dict \<Rightarrow> rat option res" where
  "max_price = max_price_from None"

subsection \<open>The best level\<close>

abbreviation keep_best :: "(rat \<times> rat) option \<Rightarrow> string \<times> rat \<Rightarrow> (rat \<times> rat) option" where
  "keep_best best x \<equiv> (case x of (p_str, sz) \<Rightarrow> (case read_decimal p_str of
     Inl _ \<Rightarrow> best
   | Inr p \<Rightarrow> (case best of None \<Rightarrow> Some (p, sz) | Some (q, s) \<Rightarrow> if q < p then Some (p, sz) else Some (q, s))))"

definition is_best :: "(rat \<times> rat) set \<Rightarrow> (rat \<times> rat) option \<Rightarrow> bool" where
  "is_best L best \<longleftrightarrow> (case best of None \<Rightarrow> L = {} | Some (p, sz) \<Rightarrow> (p, sz) \<in> L \<and> (\<forall>(q, _) \<in> L. q \<le> p))"

definition priced :: "(string, rat) dict \<Rightarrow> (rat \<times> rat) set" where
  "priced d = {(p, sz). \<exists>tx. (tx, sz) \<in> set d \<and> read_decimal tx = Inr p}"

lemma priced_simps [simp]:
  "priced [] = {}"
  "priced ((tx, sz) # d) = (case read_decimal tx of Inl _ \<Rightarrow> {} | Inr p \<Rightarrow> {(p, sz)}) \<union> priced d"
  by (auto simp: priced_def split: sum.splits)

lemma keep_best_fold: "is_best L best \<Longrightarrow> is_best (L \<union> priced d) (foldl keep_best best d)"
proof (induction d arbitrary: best L)
  case (Cons x d)
  obtain tx sz where x: "x = (tx, sz)" by (cases x)
  show ?case
  proof (cases "read_decimal tx")
    case (Inl e)
    with Cons x show ?thesis by simp
  next
    case (Inr p)
    have "is_best (insert (p, sz) L) (keep_best best x)"
      using Cons.prems Inr x by (cases best) (fastforce simp: is_best_def)+
    from Cons.IH [OF this] Inr x show ?thesis by simp
  qed
qed simp

lemma max_price_and_size_best: "is_best (priced d) (max_price_and_size d)"
  using keep_best_fold [of "{}" None d] by (simp add: is_best_def max_price_and_size_def)

lemma max_price_and_size_in:
  "max_price_and_size d = Some (p, sz) \<Longrightarrow> (p, sz) \<in> priced d \<and> (\<forall>(q, _) \<in> priced d. q \<le> p)"
  using max_price_and_size_best [of d] by (simp add: is_best_def)

text \<open>Both variants find the same price once every price text is readable.\<close>

lemma max_price_from_agrees:
  "list_all (\<lambda>(tx, _). \<exists>p. read_decimal tx = Inr p) d \<Longrightarrow>
   max_price_from (map_option fst best) d = Inr (map_option fst (foldl keep_best best d))"
proof (induction d arbitrary: best)
  case (Cons x d)
  obtain tx sz where x: "x = (tx, sz)" by (cases x)
  with Cons.prems obtain p where p: "read_decimal tx = Inr p" by auto
  have "(case map_option fst best of None \<Rightarrow> Some p | Some q \<Rightarrow> Some (if q < p then p else q)) =
      map_option fst (keep_best best x)"
    by (cases best) (auto simp: x p)
  with Cons x p show ?case by simp
qed simp

lemma max_price_agrees:
  "list_all (\<lambda>(tx, _). \<exists>p. read_decimal tx = Inr p) d \<Longrightarrow>
   max_price d = Inr (map_option fst (max_price_and_size d))"
  using max_price_from_agrees [of d None] by (simp add: max_price_def max_price_and_size_def)

subsection \<open>Ladders as functions from price texts to sizes\<close>

text \<open>
  The abstract book gives every ticker, side and price text the size resting there. A snapshot replaces
  both sides by the last entry of each price; a delta moves one level and never takes it below zero.
\<close>

type_synonym abs_book = "string \<Rightarrow> bool \<Rightarrow> string \<Rightarrow> rat"

definition abs_of :: "kalshi_books \<Rightarrow> abs_book" where
  "abs_of books t is_yes price = (case map_of books t of None \<Rightarrow> 0
     | Some b \<Rightarrow> dict_get 0 (if is_yes then mb_yes b else mb_no b) price)"

definition size_at :: "level list option \<Rightarrow> string \<Rightarrow> rat" where
  "size_at levels price = (case levels of None \<Rightarrow> 0 | Some ls \<Rightarrow>
     foldl (\<lambda>acc l. case l of None \<Rightarrow> acc
       | Some (p, sz) \<Rightarrow> if p = price then (case read_decimal sz of Inl _ \<Rightarrow> acc | Inr x \<Rightarrow> x) else acc) 0 ls)"

definition abs_step :: "string set \<Rightarrow> kalshi_msg \<Rightarrow> abs_book \<Rightarrow> abs_book" where
  "abs_step subscribed m B = (\<lambda>t is_yes price. case m of
     OrderbookSnapshot u yes no \<Rightarrow>
       if t = u \<and> u \<in> subscribed then size_at (if is_yes then yes else no) price else B t is_yes price
   | OrderbookDelta u (Some s) (Some p) (Some d) \<Rightarrow>
       if t = u \<and> u \<in> subscribed \<and> p = price \<and> is_yes = (s = ''yes'')
       then (case read_decimal d of Inl _ \<Rightarrow> B t is_yes price | Inr c \<Rightarrow> max 0 (dadd (B t is_yes price) c))
       else B t is_yes price
   | _ \<Rightarrow> B t is_yes price)"

lemma levels_to_dict_get:
  "levels_to_dict ls out = Inr d \<Longrightarrow> dict_get 0 d price =
   foldl (\<lambda>acc l. case l of None \<Rightarrow> acc
     | Some (p, sz) \<Rightarrow> if p = price then (case read_decimal sz of Inl _ \<Rightarrow> acc | Inr x \<Rightarrow> x) else acc)
     (dict_get 0 out price) ls"
  by (induction ls out rule: levels_to_dict.induct) (auto simp: res_simps)

lemma ladder_size_at: "ladder levels = Inr d \<Longrightarrow> dict_get 0 d price = size_at levels price"
  by (cases levels) (auto simp: ladder_def size_at_def levels_to_dict_get)

lemma move_level_get:
  "dict_get 0 (move_level p c d) price = (if p = price then max 0 (dadd (dict_get 0 d p) c) else dict_get 0 d price)"
  by (auto simp: move_level_def Let_def dict_get_def)

lemma handle_message_abs:
  assumes "handle_message m books = (books', Inr qs)"
  shows "abs_of books' = abs_step (dom (map_of books)) m (abs_of books) \<and> dom (map_of books') = dom (map_of books)"
proof (cases m)
  case (OrderbookSnapshot t yes no)
  show ?thesis
  proof (cases "map_of books t")
    case None
    with assms OrderbookSnapshot show ?thesis by (auto simp: handle_message_def abs_step_def fun_eq_iff)
  next
    case (Some b)
    with assms OrderbookSnapshot obtain y n where "ladder yes = Inr y" "ladder no = Inr n"
      and "books' = dict_set t (b\<lparr>mb_yes := y, mb_no := n\<rparr>) books"
      by (auto simp: handle_message_def apply_snapshot_def split: sum.splits)
    with Some OrderbookSnapshot show ?thesis
      by (auto simp: abs_step_def abs_of_def fun_eq_iff ladder_size_at dom_def)
  qed
next
  case (OrderbookDelta t sd price delta)
  show ?thesis
  proof (cases "map_of books t")
    case None
    with assms OrderbookDelta show ?thesis
      by (auto simp: handle_message_def abs_step_def fun_eq_iff split: option.splits)
  next
    case (Some b)
    show ?thesis
    proof (cases "\<exists>s p d. sd = Some s \<and> price = Some p \<and> delta = Some d")
      case True
      then obtain s p d where args: "sd = Some s" "price = Some p" "delta = Some d" by blast
      with assms OrderbookDelta Some obtain c where c: "read_decimal d = Inr c"
        by (auto simp: handle_message_def apply_delta_def split: sum.splits)
      with assms OrderbookDelta Some args have "books' = dict_set t
          (if s = ''yes'' then b\<lparr>mb_yes := move_level p c (mb_yes b)\<rparr> else b\<lparr>mb_no := move_level p c (mb_no b)\<rparr>) books"
        by (auto simp: handle_message_def apply_delta_def)
      with Some OrderbookDelta args c show ?thesis
        by (auto simp: abs_step_def abs_of_def fun_eq_iff move_level_get dom_def)
    next
      case False
      with assms OrderbookDelta Some have "books' = books"
        by (cases sd; cases price; cases delta) (simp_all add: handle_message_def)
      with False OrderbookDelta show ?thesis
        by (cases sd; cases price; cases delta) (auto simp: abs_step_def fun_eq_iff)
    qed
  qed
next
  case OtherMsg
  with assms show ?thesis by (simp add: handle_message_def abs_step_def fun_eq_iff)
qed

lemma connection_abs:
  "connection ms books = (books', qs, None) \<Longrightarrow>
   abs_of books' = fold (abs_step (dom (map_of books))) ms (abs_of books) \<and> dom (map_of books') = dom (map_of books)"
proof (induction ms arbitrary: books books' qs)
  case (Cons m ms)
  then obtain b1 qs1 qs2 where 1: "handle_message m books = (b1, Inr qs1)" "connection ms b1 = (books', qs2, None)"
    by (auto split: prod.splits sum.splits)
  note 2 = handle_message_abs [OF 1(1)]
  from Cons.IH [OF 1(2)] 2 show ?case by simp
qed simp

lemma connection_append:
  "connection ms books = (books1, qs1, None) \<Longrightarrow>
   connection (ms @ ms') books = (case connection ms' books1 of (b, qs, r) \<Rightarrow> (b, qs1 @ qs, r))"
proof (induction ms arbitrary: books qs1)
  case (Cons m ms)
  then obtain b1 qs2 qs3 where "handle_message m books = (b1, Inr qs2)" "connection ms b1 = (books1, qs3, None)"
    "qs1 = qs2 @ qs3"
    by (auto split: prod.splits sum.splits)
  with Cons.IH [of b1 qs3] show ?case by (simp split: prod.splits)
qed (simp split: prod.splits)

lemma new_books_lookup: "map_of (new_books oids) t = (if t \<in> set (market_tickers oids) then Some empty_market_book else None)"
proof -
  have "map_of (map (\<lambda>t. (t, v)) ts) t = (if t \<in> set ts then Some v else None)" for ts and v :: market_book
    by (induction ts) auto
  then show ?thesis by (simp add: new_books_def)
qed

lemma abs_of_new_books: "abs_of (new_books oids) = (\<lambda>_ _ _. 0)"
  by (auto simp: abs_of_def new_books_lookup empty_market_book_def fun_eq_iff)

lemma dom_new_books: "dom (map_of (new_books oids)) = set (market_tickers oids)"
  by (auto simp: dom_def new_books_lookup)

lemma quotes_for_ok: "q \<in> set (quotes_for t b) \<Longrightarrow> quote_ok q \<and> q_outcome_id q \<in> {t @ '':YES'', t @ '':NO''}"
  by (auto simp: quotes_for_def side_quote_def Let_def split: option.splits sum.splits dest!: quote_init_ok)

lemma handle_message_quotes:
  "handle_message m books = (books', Inr qs) \<Longrightarrow> q \<in> set qs \<Longrightarrow>
   \<exists>t \<in> dom (map_of books). \<exists>b. q \<in> set (quotes_for t b)"
  by (cases m) (auto simp: handle_message_def split: option.splits sum.splits prod.splits)

lemma handle_message_dom: "handle_message m books = (books', r) \<Longrightarrow> dom (map_of books') = dom (map_of books)"
  by (cases m) (auto simp: handle_message_def dom_def split: option.splits sum.splits prod.splits if_splits)

lemma connection_quotes:
  "connection ms books = (books', qs, r) \<Longrightarrow> q \<in> set qs \<Longrightarrow> \<exists>t \<in> dom (map_of books). \<exists>b. q \<in> set (quotes_for t b)"
proof (induction ms arbitrary: books books' qs r)
  case (Cons m ms)
  obtain b1 r1 where 1: "handle_message m books = (b1, r1)" by fastforce
  show ?case
  proof (cases r1)
    case (Inr qs1)
    obtain b2 qs2 r2 where 2: "connection ms b1 = (b2, qs2, r2)" by (cases "connection ms b1")
    from Cons.prems 1 2 Inr have "q \<in> set qs1 \<or> q \<in> set qs2" by auto
    then show ?thesis
      using handle_message_quotes [of m books b1 qs1 q] Cons.IH [OF 2] handle_message_dom [OF 1] 1 Inr by auto
  qed (use Cons.prems 1 in auto)
qed simp

subsection \<open>Properties of the stream\<close>

text \<open>
  C13: The ladders refine the abstract book: after any messages a connection survives, the size at every
  ticker, side and price text is what replaying the messages on the abstract book gives, starting from
  empty ladders for the subscribed tickers; messages for other tickers change nothing.
\<close>

theorem kalshi_book_refines:
  assumes "connection ms (new_books oids) = (books', qs, None)"
  shows "abs_of books' = fold (abs_step (set (market_tickers oids))) ms (\<lambda>_ _ _. 0)"
  using connection_abs [OF assms] by (simp add: abs_of_new_books dom_new_books)

text \<open>
  Every quote a connection gives, whether it ends in an exception or not, is a well-formed quote
  (bid at most ask, both between 0 and 1) for the YES or NO outcome of a ticker that was subscribed.
\<close>

theorem kalshi_quotes_wf:
  assumes "connection ms (new_books oids) = (books', qs, r)" "q \<in> set qs"
  shows "quote_ok q \<and> (\<exists>t \<in> set (market_tickers oids). q_outcome_id q \<in> {t @ '':YES'', t @ '':NO''})"
  using connection_quotes [OF assms] quotes_for_ok [of q] unfolding dom_new_books by blast

text \<open>What a side's quote says of the two ladders: the ask sells into the other side's best bid.\<close>

definition ask_matches :: "quote \<Rightarrow> (rat \<times> rat) set \<Rightarrow> bool" where
  "ask_matches q other \<longleftrightarrow>
     (if other = {} then ask q = 1 \<and> ask_size q = Some 0
      else \<exists>(p, sz) \<in> other. ask q = dsub 1 p \<and> ask_size q = Some sz \<and> (\<forall>(p', _) \<in> other. p' \<le> p))"

definition bid_matches :: "quote \<Rightarrow> (rat \<times> rat) set \<Rightarrow> bool" where
  "bid_matches q own \<longleftrightarrow>
     (if own = {} then bid q = 0 \<and> bid_size q = Some 0
      else \<exists>(p, sz) \<in> own. bid q = min p (ask q) \<and> bid_size q = Some sz \<and> (\<forall>(p', _) \<in> own. p' \<le> p))"

definition unit_prices :: "(rat \<times> rat) set \<Rightarrow> bool" where
  "unit_prices L \<longleftrightarrow> (\<forall>(p, _) \<in> L. 0 \<le> p \<and> p \<le> 1)"

lemma dsub_1_unit: "0 \<le> p \<Longrightarrow> p \<le> 1 \<Longrightarrow> 0 \<le> dsub 1 p \<and> dsub 1 p \<le> 1"
proof -
  assume p: "0 \<le> p" "p \<le> 1"
  have "dec_round 1 = 1" using dec_round_rep [OF dec_rep_1] .
  from dec.le_fixed [OF this, of "1 - p"] p show ?thesis by (simp add: dsub_def)
qed

lemma side_quote_matches:
  fixes own other :: "(string, rat) dict"
  defines "b \<equiv> bid_of (max_price_and_size own)" and "a \<equiv> implied_ask (max_price_and_size other)"
  assumes "unit_prices (priced own)" "unit_prices (priced other)"
  shows "\<exists>q. side_quote oid (fst b) (fst a) (snd b) (snd a) = Some q \<and> q_outcome_id q = oid \<and>
    ask_matches q (priced other) \<and> bid_matches q (priced own)"
proof -
  have b: "0 \<le> fst b \<and> fst b \<le> 1"
    using max_price_and_size_best [of own] assms(3)
    by (auto simp: b_def bid_of_def is_best_def unit_prices_def split: option.splits)
  have a: "0 \<le> fst a \<and> fst a \<le> 1"
    using max_price_and_size_best [of other] assms(4) dsub_1_unit
    by (auto simp: a_def implied_ask_def is_best_def unit_prices_def split: option.splits)
  let ?q = "\<lparr>q_outcome_id = oid, bid = min (fst b) (fst a), ask = fst a, bid_size = Some (snd b),
    ask_size = Some (snd a), source_age_s = None\<rparr>"
  have "side_quote oid (fst b) (fst a) (snd b) (snd a) = Some ?q"
    using a b by (auto simp: side_quote_def quote_init_def min_def)
  moreover have "ask_matches ?q (priced other)"
    using max_price_and_size_best [of other]
    by (auto simp: ask_matches_def a_def implied_ask_def is_best_def split: option.splits)
  moreover have "bid_matches ?q (priced own)"
    using max_price_and_size_best [of own] a
    by (auto simp: bid_matches_def b_def bid_of_def is_best_def split: option.splits)
  ultimately show ?thesis by auto
qed

text \<open>
  When every readable price of a book lies in the unit interval, both outcomes are quoted: each ask is one
  minus the other side's highest bid with the size of that level (one, and known empty, without one), each
  bid is the side's own highest, held below the ask.
\<close>

theorem kalshi_quotes_both_sides:
  assumes "unit_prices (priced (mb_yes b))" "unit_prices (priced (mb_no b))"
  shows "\<exists>y n. quotes_for t b = [y, n] \<and> q_outcome_id y = t @ '':YES'' \<and> q_outcome_id n = t @ '':NO'' \<and>
    ask_matches y (priced (mb_no b)) \<and> bid_matches y (priced (mb_yes b)) \<and>
    ask_matches n (priced (mb_yes b)) \<and> bid_matches n (priced (mb_no b))"
  using side_quote_matches [OF assms, of "t @ '':YES''"] side_quote_matches [OF assms(2,1), of "t @ '':NO''"]
  by (auto simp: quotes_for_def Let_def best_yes_def best_no_def)

text \<open>
  A delta whose size text is not a number ends the connection with InvalidOperation, which the handler
  around the conversion does not list: nothing after it is read, the book keeps its levels.
\<close>

theorem kalshi_bad_delta_ends_connection:
  assumes "connection ms (new_books oids) = (books, qs, None)" "t \<in> set (market_tickers oids)"
    and "py_decimal d = None"
  shows "connection (ms @ OrderbookDelta t (Some s) (Some p) (Some d) # rest) (new_books oids) =
    (dict_set t (the (map_of books t)) books, qs, Some InvalidOperation)"
proof -
  from connection_abs [OF assms(1)] assms(2) obtain b where "map_of books t = Some b"
    by (auto simp: dom_new_books)
  with assms(3) show ?thesis
    by (simp add: connection_append [OF assms(1)] handle_message_def apply_delta_def read_decimal_def)
qed

subsection \<open>Concrete runs\<close>

definition sample_messages :: "kalshi_msg list" where
  "sample_messages =
     [OrderbookSnapshot ''T'' (Some [Some (''0.40'', ''10''), Some (''0.42'', ''5'')]) (Some [Some (''0.55'', ''7'')]),
      OrderbookDelta ''T'' (Some ''yes'') (Some ''0.42'') (Some ''-5'')]"

lemma sample_numbers:
  "read_decimal ''0.40'' = Inr (40/100)" "read_decimal ''0.42'' = Inr (42/100)" "read_decimal ''0.55'' = Inr (55/100)"
  "read_decimal ''10'' = Inr 10" "read_decimal ''5'' = Inr 5" "read_decimal ''7'' = Inr 7" "read_decimal ''-5'' = Inr (-5)"
  by (simp_all add: read_decimal_def eval_rules)

lemma sample_sums:
  "dadd 5 (-5) = 0" "dsub 1 (2/5) = 3/5" "dsub 1 (21/50) = 29/50" "dsub 1 (11/20) = 9/20"
  by (simp_all add: eval_rules)

lemma sample_tickers: "market_tickers [''T:YES'', ''T:NO''] = [''T'']"
  by (simp add: market_tickers_def)

lemmas book_rules = new_books_def empty_market_book_def handle_message_def apply_snapshot_def ladder_def
  apply_delta_def move_level_def quotes_for_def best_yes_def best_no_def side_quote_def quote_init_def
  implied_ask_def bid_of_def max_price_and_size_def dict_get_def Let_def

lemma sample_run:
  "connection sample_messages (new_books [''T:YES'', ''T:NO'']) =
     ([(''T'', \<lparr>mb_yes = [(''0.40'', 10)], mb_no = [(''0.55'', 7)]\<rparr>)],
      [\<lparr>q_outcome_id = ''T:YES'', bid = 42/100, ask = 45/100, bid_size = Some 5, ask_size = Some 7, source_age_s = None\<rparr>,
       \<lparr>q_outcome_id = ''T:NO'', bid = 55/100, ask = 58/100, bid_size = Some 7, ask_size = Some 5, source_age_s = None\<rparr>,
       \<lparr>q_outcome_id = ''T:YES'', bid = 40/100, ask = 45/100, bid_size = Some 10, ask_size = Some 7, source_age_s = None\<rparr>,
       \<lparr>q_outcome_id = ''T:NO'', bid = 55/100, ask = 60/100, bid_size = Some 7, ask_size = Some 10, source_age_s = None\<rparr>],
      None)"
  by (simp add: sample_messages_def book_rules sample_numbers sample_sums sample_tickers)

theorem kalshi_book_refines_witness:
  "\<exists>books' qs. connection sample_messages (new_books [''T:YES'', ''T:NO'']) = (books', qs, None) \<and>
     abs_of books' = fold (abs_step {''T''}) sample_messages (\<lambda>_ _ _. 0) \<and> abs_of books' ''T'' True ''0.42'' = 0"
proof -
  let ?b = "[(''T'', \<lparr>mb_yes = [(''0.40'', 10)], mb_no = [(''0.55'', 7)]\<rparr>)] :: kalshi_books"
  have "abs_of ?b = fold (abs_step {''T''}) sample_messages (\<lambda>_ _ _. 0)"
    using kalshi_book_refines [OF sample_run] by (simp add: sample_tickers)
  moreover have "abs_of ?b ''T'' True ''0.42'' = 0" by (simp add: abs_of_def dict_get_def)
  ultimately show ?thesis using sample_run by blast
qed

theorem kalshi_quotes_wf_witness:
  "\<exists>books' qs q. connection sample_messages (new_books [''T:YES'', ''T:NO'']) = (books', qs, None) \<and>
     q \<in> set qs \<and> bid q = 42/100 \<and> quote_ok q"
  using kalshi_quotes_wf [OF sample_run, of "\<lparr>q_outcome_id = ''T:YES'', bid = 42/100, ask = 45/100,
    bid_size = Some 5, ask_size = Some 7, source_age_s = None\<rparr>"]
  by (simp add: sample_run) (rule exI, rule conjI, rule disjI1, rule refl, simp)

definition sample_book :: market_book where
  "sample_book = \<lparr>mb_yes = [(''0.40'', 10)], mb_no = [(''0.55'', 7)]\<rparr>"

theorem kalshi_quotes_both_sides_witness:
  "\<exists>y n. quotes_for ''T'' sample_book = [y, n] \<and> ask_matches y {(55/100, 7)} \<and> bid_matches n {(55/100, 7)}"
proof -
  have 1: "priced (mb_yes sample_book) = {(2/5, 10)}" "priced (mb_no sample_book) = {(11/20, 7)}"
    by (simp_all add: sample_book_def sample_numbers)
  have "unit_prices (priced (mb_yes sample_book))" "unit_prices (priced (mb_no sample_book))"
    unfolding 1 by (simp_all add: unit_prices_def)
  from kalshi_quotes_both_sides [OF this, of "''T''"] show ?thesis unfolding 1 by auto
qed

theorem kalshi_bad_delta_ends_connection_witness:
  "\<exists>books qs. connection (sample_messages @ [OrderbookDelta ''T'' (Some ''yes'') (Some ''0.40'') (Some ''1,5''), OtherMsg])
     (new_books [''T:YES'', ''T:NO'']) = (books, qs, Some InvalidOperation) \<and> length qs = 4"
proof -
  have "''T'' \<in> set (market_tickers [''T:YES'', ''T:NO''])" "py_decimal ''1,5'' = None"
    by (simp_all add: sample_tickers eval_rules)
  from kalshi_bad_delta_ends_connection [OF sample_run this, of "''yes''" "''0.40''" "[OtherMsg]"]
  show ?thesis by simp
qed

end
