(* ===== verification/Polymarket_Ws.thy ===== *)
theory Polymarket_Ws
  imports Kalshi_Book
begin

section \<open>The Polymarket US market-data socket\<close>

text \<open>
  \<open>arbys/adapters/polymarket_us_ws.py\<close> with the quote derivation of \<open>polymarket_us.py\<close>: the markets are
  spread over several connections; each one subscribes, turns frames into quotes, asks again for markets
  that went silent and, for games under way, drops itself to be rebuilt. Times are monotonic clock readings
  in seconds; what a wait or a callback answered is part of the event. A frame is the decoded message
  reduced to the fields read: the text of a price or size, and the instant \<open>datetime.fromisoformat\<close> reads
  from \<open>transactTime\<close>. Sets of names are lists. As in \<open>Kalshi_Book\<close> infinite and NaN texts are unreadable.
\<close>

subsection \<open>Quotes from a ladder\<close>

record pm_level =
  px_value :: "string option"
  px_qty :: string

definition pm_price :: "string option \<Rightarrow> rat option" where
  "pm_price node = (case node of None \<Rightarrow> None | Some s \<Rightarrow> (case read_decimal s of Inl _ \<Rightarrow> None | Inr p \<Rightarrow> Some p))"

definition pm_size :: "string \<Rightarrow> rat" where
  "pm_size s = (case read_decimal s of Inl _ \<Rightarrow> 0 | Inr x \<Rightarrow> x)"

definition pair_to_quotes ::
  "string \<Rightarrow> rat option \<Rightarrow> rat option \<Rightarrow> rat option \<Rightarrow> rat option \<Rightarrow> rat option \<Rightarrow> quote list" where
  "pair_to_quotes slug bd ak bd_size ak_size age =
     (if bd = None \<and> ak = None then []
      else let bd_size' = (if bd = None then Some 0 else bd_size); bd' = (case bd of None \<Rightarrow> the ak | Some p \<Rightarrow> p);
               ak_size' = (if ak = None then Some 0 else ak_size); ak' = (case ak of None \<Rightarrow> bd' | Some p \<Rightarrow> p);
               long = \<lparr>q_outcome_id = slug @ '':LONG'', bid = bd', ask = ak', bid_size = bd_size', ask_size = ak_size',
                 source_age_s = age\<rparr>;
               short = \<lparr>q_outcome_id = slug @ '':SHORT'', bid = dsub 1 ak', ask = dsub 1 bd', bid_size = ak_size',
                 ask_size = bd_size', source_age_s = age\<rparr>
           in case (quote_init long, quote_init short) of (Inr l, Inr s) \<Rightarrow> [l, s] | _ \<Rightarrow> [])"

definition quotes_from_bbo :: "string \<Rightarrow> string option \<Rightarrow> string option \<Rightarrow> quote list" where
  "quotes_from_bbo slug best_bid best_ask = pair_to_quotes slug (pm_price best_bid) (pm_price best_ask) None None None"

text \<open>Level 0 of a ladder; \<open>None\<close> in the list is a level that is not an object.\<close>

definition top_level :: "pm_level option list \<Rightarrow> rat option \<times> rat option" where
  "top_level levels = (case levels of Some l # _ \<Rightarrow> (pm_price (px_value l), Some (pm_size (px_qty l))) | _ \<Rightarrow> (None, None))"

definition quotes_from_levels :: "string \<Rightarrow> pm_level option list \<Rightarrow> pm_level option list \<Rightarrow> rat option \<Rightarrow> quote list" where
  "quotes_from_levels slug bids offers age =
     (let b = top_level bids; a = top_level offers in pair_to_quotes slug (fst b) (fst a) (snd b) (snd a) age)"

text \<open>\<open>split_outcome_id(oid)[0]\<close>: what stands before the last colon.\<close>

definition slug_of :: "string \<Rightarrow> string" where
  "slug_of oid = rev (drop 1 (dropWhile (\<lambda>c. c \<noteq> CHR '':'') (rev oid)))"

definition frame_age_s :: "rat option \<Rightarrow> rat \<Rightarrow> rat option" where
  "frame_age_s stamp now = map_option (\<lambda>s. max 0 (fsub now s)) stamp"

subsection \<open>State\<close>

definition MAX_SLUGS_PER_SUBSCRIPTION :: nat where
  "MAX_SLUGS_PER_SUBSCRIPTION = 100"

definition FEED_REPORT_INTERVAL_S :: rat where
  "FEED_REPORT_INTERVAL_S = 30"

definition MAX_REPAIR_ATTEMPTS :: nat where
  "MAX_REPAIR_ATTEMPTS = 5"

definition MAX_ESCALATIONS_PER_SLUG :: nat where
  "MAX_ESCALATIONS_PER_SLUG = 2"

definition RECONNECT_COOLDOWN_S :: rat where
  "RECONNECT_COOLDOWN_S = 120"

record ws_config =
  wc_shard_size :: nat
  wc_dark_after :: rat
  wc_priority_dark_after :: rat
  wc_repair_sweep :: rat
  wc_slugs :: "string list"

record feed =
  fd_last_ws_at :: "(string, rat) dict"
  fd_reconnect_at :: "(nat, rat) dict"
  fd_escalations :: "(string, nat) dict"

record shard_stats =
  ss_frames :: nat
  ss_quotes :: nat
  ss_unknown :: nat
  ss_no_data :: nat
  ss_replayed :: nat
  ss_seen :: "string list"
  ss_since :: rat

record conn =
  cn_delivered :: "string list"
  cn_attempts :: "(string, nat) dict"
  cn_next_repair :: rat
  cn_stats :: shard_stats

definition reset_stats :: "rat \<Rightarrow> shard_stats" where
  "reset_stats now = \<lparr>ss_frames = 0, ss_quotes = 0, ss_unknown = 0, ss_no_data = 0, ss_replayed = 0, ss_seen = [], ss_since = now\<rparr>"

definition ws_init :: "string list \<Rightarrow> int \<Rightarrow> rat \<Rightarrow> rat \<Rightarrow> rat \<Rightarrow> ws_config" where
  "ws_init oids sz dark priority_dark sweep = \<lparr>wc_shard_size = nat (max 1 sz), wc_dark_after = dark,
     wc_priority_dark_after = priority_dark, wc_repair_sweep = sweep, wc_slugs = sort (remdups (map slug_of oids))\<rparr>"

definition shards :: "ws_config \<Rightarrow> string list list" where
  "shards cfg = chunks (wc_shard_size cfg) (wc_slugs cfg)"

definition start_feed :: "ws_config \<Rightarrow> rat \<Rightarrow> feed" where
  "start_feed cfg started = \<lparr>fd_last_ws_at = map (\<lambda>s. (s, started)) (wc_slugs cfg), fd_reconnect_at = [], fd_escalations = []\<rparr>"

definition ws_list_markets :: "ws_config \<Rightarrow> outcome list" where
  "ws_list_markets cfg = concat (map (\<lambda>slug. map (\<lambda>(sd, y). \<lparr>o_id = slug @ '':'' @ sd, o_venue_id = ''polymarket_us'',
     o_market_id = slug, o_label = slug @ '' ('' @ sd @ '')'', o_side = Some y\<rparr>) [(''LONG'', YES), (''SHORT'', NO)]) (wc_slugs cfg))"

subsection \<open>Frames\<close>

datatype pm_msg =
    NotAnObject
  | NoMarketData
  | MarketData string "pm_level option list option" "pm_level option list option" "rat option"

definition quotes_from_message ::
  "ws_config \<Rightarrow> pm_msg \<Rightarrow> rat \<Rightarrow> rat \<Rightarrow> feed \<Rightarrow> shard_stats \<Rightarrow> feed \<times> shard_stats \<times> quote list" where
  "quotes_from_message cfg msg wall now fd ss = (case msg of
     NotAnObject \<Rightarrow> (fd, ss, [])
   | NoMarketData \<Rightarrow> (fd, ss\<lparr>ss_no_data := Suc (ss_no_data ss)\<rparr>, [])
   | MarketData slug bids offers stamp \<Rightarrow>
       (if slug \<notin> set (wc_slugs cfg) then (fd, ss\<lparr>ss_unknown := Suc (ss_unknown ss)\<rparr>, [])
        else let ss1 = ss\<lparr>ss_seen := List.insert slug (ss_seen ss)\<rparr> in case (bids, offers) of
          (Some bs, Some os) \<Rightarrow>
            (let age = frame_age_s stamp wall;
                 ss2 = (case age of None \<Rightarrow> ss1
                   | Some a \<Rightarrow> if wc_priority_dark_after cfg < a then ss1\<lparr>ss_replayed := Suc (ss_replayed ss1)\<rparr> else ss1)
             in (fd\<lparr>fd_last_ws_at := dict_set slug now (fd_last_ws_at fd)\<rparr>, ss2, quotes_from_levels slug bs os age))
        | _ \<Rightarrow> (fd, ss1, [])))"

definition is_live_frame :: "ws_config \<Rightarrow> quote \<Rightarrow> bool" where
  "is_live_frame cfg q = (case source_age_s q of None \<Rightarrow> True | Some a \<Rightarrow> a \<le> wc_priority_dark_after cfg)"

definition deliver :: "ws_config \<Rightarrow> quote \<Rightarrow> feed \<times> conn \<Rightarrow> feed \<times> conn" where
  "deliver cfg q st = (case st of (fd, cn) \<Rightarrow> let slug = slug_of (q_outcome_id q); ss = cn_stats cn in
     (if is_live_frame cfg q then fd\<lparr>fd_escalations := dict_pop slug (fd_escalations fd)\<rparr> else fd,
      cn\<lparr>cn_delivered := List.insert slug (cn_delivered cn), cn_attempts := dict_pop slug (cn_attempts cn),
         cn_stats := ss\<lparr>ss_quotes := Suc (ss_quotes ss)\<rparr>\<rparr>))"

definition maybe_report :: "rat \<Rightarrow> shard_stats \<Rightarrow> shard_stats" where
  "maybe_report now ss = (if fsub now (ss_since ss) < FEED_REPORT_INTERVAL_S then ss else reset_stats now)"

subsection \<open>Repair and escalation\<close>

definition silent_for :: "rat \<Rightarrow> feed \<Rightarrow> string \<Rightarrow> rat" where
  "silent_for now fd slug = fsub now (dict_get now (fd_last_ws_at fd) slug)"

definition dark_slugs :: "ws_config \<Rightarrow> rat \<Rightarrow> string list \<Rightarrow> feed \<Rightarrow> (string, nat) dict \<Rightarrow> string list \<Rightarrow> string list" where
  "dark_slugs cfg now priority fd attempts slugs = filter (\<lambda>s. \<not> MAX_REPAIR_ATTEMPTS \<le> dict_get 0 attempts s \<and>
     \<not> silent_for now fd s \<le> (if s \<in> set priority then wc_priority_dark_after cfg else wc_dark_after cfg)) slugs"

definition stuck_slugs :: "ws_config \<Rightarrow> rat \<Rightarrow> string list \<Rightarrow> feed \<Rightarrow> (string, nat) dict \<Rightarrow> string list \<Rightarrow> string list" where
  "stuck_slugs cfg now confirmed fd attempts slugs = filter (\<lambda>s. s \<in> set confirmed \<and>
     MAX_REPAIR_ATTEMPTS \<le> dict_get 0 attempts s \<and> wc_priority_dark_after cfg < silent_for now fd s \<and>
     dict_get 0 (fd_escalations fd) s < MAX_ESCALATIONS_PER_SLUG) slugs"

definition count_up :: "string list \<Rightarrow> (string, nat) dict \<Rightarrow> (string, nat) dict" where
  "count_up = fold (\<lambda>s d. dict_set s (Suc (dict_get 0 d s)) d)"

text \<open>Returns whether \<open>DarkMarkets\<close> is raised.\<close>

definition maybe_escalate ::
  "ws_config \<Rightarrow> nat \<Rightarrow> string list \<Rightarrow> string list \<Rightarrow> (string, nat) dict \<Rightarrow> rat \<Rightarrow> feed \<Rightarrow> feed \<times> bool" where
  "maybe_escalate cfg index slugs confirmed attempts now fd =
     (let stuck = stuck_slugs cfg now confirmed fd attempts slugs in
      if stuck = [] then (fd, False)
      else if (case map_of (fd_reconnect_at fd) index of None \<Rightarrow> False | Some t \<Rightarrow> fsub now t < RECONNECT_COOLDOWN_S) then (fd, False)
      else (fd\<lparr>fd_reconnect_at := dict_set index now (fd_reconnect_at fd), fd_escalations := count_up stuck (fd_escalations fd)\<rparr>, True))"

definition repair_subscriptions ::
  "ws_config \<Rightarrow> nat \<Rightarrow> string list \<Rightarrow> rat \<Rightarrow> string list \<Rightarrow> string list \<Rightarrow> feed \<times> conn \<Rightarrow> (feed \<times> conn) \<times> string list list \<times> bool" where
  "repair_subscriptions cfg index slugs now priority confirmed st = (case st of (fd, cn) \<Rightarrow>
     let dark = dark_slugs cfg now priority fd (cn_attempts cn) slugs in
     if dark = [] then (st, [], False)
     else let attempts = count_up dark (cn_attempts cn) in
       case maybe_escalate cfg index slugs confirmed attempts now fd of
         (fd', raised) \<Rightarrow> ((fd', cn\<lparr>cn_attempts := attempts\<rparr>), chunks MAX_SLUGS_PER_SUBSCRIPTION dark, raised))"

subsection \<open>One connection\<close>

text \<open>
  What one turn of the receive loop meets: a frame with the clock readings around it, a frame that is not
  JSON (which also skips the sweep of its turn), or a timeout. \<open>pr\<close>
  and \<open>cf\<close> are what the two callbacks would answer (the empty set when they are missing or raise).
\<close>

datatype ws_event =
    Received pm_msg rat rat rat "string list" "string list"
  | Garbled
  | Timeout rat "string list" "string list"

definition sweep_due ::
  "ws_config \<Rightarrow> nat \<Rightarrow> string list \<Rightarrow> rat \<Rightarrow> string list \<Rightarrow> string list \<Rightarrow> feed \<times> conn \<Rightarrow> (feed \<times> conn) \<times> string list list \<times> bool" where
  "sweep_due cfg index slugs now pr cf st = (case st of (fd, cn) \<Rightarrow>
     if cn_next_repair cn \<le> now
     then repair_subscriptions cfg index slugs now pr cf (fd, cn\<lparr>cn_next_repair := fadd now (wc_repair_sweep cfg)\<rparr>)
     else (st, [], False))"

definition ws_step ::
  "ws_config \<Rightarrow> nat \<Rightarrow> string list \<Rightarrow> ws_event \<Rightarrow> feed \<times> conn \<Rightarrow> (feed \<times> conn) \<times> quote list \<times> string list list \<times> bool" where
  "ws_step cfg index slugs ev st = (case ev of
     Timeout now pr cf \<Rightarrow> (case sweep_due cfg index slugs now pr cf st of (st', sends, raised) \<Rightarrow> (st', [], sends, raised))
   | Garbled \<Rightarrow> (st, [], [], False)
   | Received msg wall now later pr cf \<Rightarrow> (case st of (fd, cn) \<Rightarrow>
       let ss = (cn_stats cn)\<lparr>ss_frames := Suc (ss_frames (cn_stats cn))\<rparr> in
       case quotes_from_message cfg msg wall now fd ss of (fd1, ss1, qs) \<Rightarrow>
         let (fd2, cn2) = fold (deliver cfg) qs (fd1, cn\<lparr>cn_stats := ss1\<rparr>);
             cn3 = cn2\<lparr>cn_stats := maybe_report later (cn_stats cn2)\<rparr>
         in (case sweep_due cfg index slugs later pr cf (fd2, cn3) of (st', sends, raised) \<Rightarrow> (st', qs, sends, raised))))"

definition connect :: "ws_config \<Rightarrow> string list \<Rightarrow> rat \<Rightarrow> feed \<Rightarrow> (feed \<times> conn) \<times> string list list" where
  "connect cfg slugs now fd =
     ((fd\<lparr>fd_last_ws_at := fold (\<lambda>s. dict_set s now) slugs (fd_last_ws_at fd)\<rparr>,
       \<lparr>cn_delivered = [], cn_attempts = [], cn_next_repair = fadd now (wc_repair_sweep cfg), cn_stats = reset_stats now\<rparr>),
      chunks MAX_SLUGS_PER_SUBSCRIPTION slugs)"

text \<open>The loop of one connection: until \<open>DarkMarkets\<close>, or until the socket closes after the last event.\<close>

fun ws_loop :: "ws_config \<Rightarrow> nat \<Rightarrow> string list \<Rightarrow> ws_event list \<Rightarrow> feed \<times> conn \<Rightarrow> (feed \<times> conn) \<times> quote list \<times> bool" where
  "ws_loop cfg index slugs [] st = (st, [], False)"
| "ws_loop cfg index slugs (ev # evs) st = (case ws_step cfg index slugs ev st of (st1, qs, _, raised) \<Rightarrow>
     if raised then (st1, qs, True)
     else (case ws_loop cfg index slugs evs st1 of (st2, qs', r) \<Rightarrow> (st2, qs @ qs', r)))"

text \<open>
  One shard: connection after connection. A connection only ever ends by an exception, so the line after the
  call that resets the backoff is never reached; the waits are given without their random factor.
\<close>

fun run_shard :: "ws_config \<Rightarrow> nat \<Rightarrow> string list \<Rightarrow> rat \<Rightarrow> (rat \<times> ws_event list) list \<Rightarrow> rat \<Rightarrow> feed \<Rightarrow> feed \<times> quote list \<times> bool list \<times> rat list" where
  "run_shard cfg index slugs highest [] backoff fd = (fd, [], [], [])"
| "run_shard cfg index slugs highest ((now, evs) # cs) backoff fd =
     (case ws_loop cfg index slugs evs (fst (connect cfg slugs now fd)) of ((fd1, _), qs, dark) \<Rightarrow>
        case run_shard cfg index slugs highest cs (next_backoff highest backoff) fd1 of
          (fd2, qs', darks, waits) \<Rightarrow> (fd2, qs @ qs', dark # darks, backoff # waits))"

subsection \<open>Counters\<close>

lemma count_up_get: "distinct ss \<Longrightarrow> dict_get 0 (count_up ss d) s = dict_get 0 d s + (if s \<in> set ss then 1 else 0)"
  by (induction ss arbitrary: d) (auto simp: count_up_def)

lemma dark_slugs_distinct: "distinct slugs \<Longrightarrow> distinct (dark_slugs cfg now pr fd att slugs)"
  by (simp add: dark_slugs_def)

lemma stuck_slugs_distinct: "distinct slugs \<Longrightarrow> distinct (stuck_slugs cfg now cf fd att slugs)"
  by (simp add: stuck_slugs_def)

definition counters_ok :: "feed \<times> conn \<Rightarrow> bool" where
  "counters_ok st \<longleftrightarrow> (\<forall>s. dict_get 0 (cn_attempts (snd st)) s \<le> MAX_REPAIR_ATTEMPTS) \<and>
     (\<forall>s. dict_get 0 (fd_escalations (fst st)) s \<le> MAX_ESCALATIONS_PER_SLUG)"

lemma counters_okI:
  "(\<And>s. dict_get 0 (cn_attempts cn) s \<le> MAX_REPAIR_ATTEMPTS) \<Longrightarrow>
   (\<And>s. dict_get 0 (fd_escalations fd) s \<le> MAX_ESCALATIONS_PER_SLUG) \<Longrightarrow> counters_ok (fd, cn)"
  by (simp add: counters_ok_def)

lemma dict_get_pop: "dict_get z (dict_pop k d) s = (if s = k then z else dict_get z d s)"
  by (simp add: dict_get_def)

lemma deliver_ok: "counters_ok st \<Longrightarrow> counters_ok (deliver cfg q st)"
  by (cases st) (auto simp: deliver_def counters_ok_def dict_get_pop Let_def)

lemma fold_deliver_ok: "counters_ok st \<Longrightarrow> counters_ok (fold (deliver cfg) qs st)"
  by (induction qs arbitrary: st) (simp, metis fold_simps(2) deliver_ok)

text \<open>What a raise means, and what it leaves.\<close>

lemma maybe_escalate_cases:
  assumes "maybe_escalate cfg index slugs cf attempts now fd = (fd', raised)"
  obtains "\<not> raised" "fd' = fd"
  | "raised" "stuck_slugs cfg now cf fd attempts slugs \<noteq> []"
    "\<And>t. map_of (fd_reconnect_at fd) index = Some t \<Longrightarrow> RECONNECT_COOLDOWN_S \<le> fsub now t"
    "fd' = fd\<lparr>fd_reconnect_at := dict_set index now (fd_reconnect_at fd),
       fd_escalations := count_up (stuck_slugs cfg now cf fd attempts slugs) (fd_escalations fd)\<rparr>"
proof (cases raised)
  case True
  with assms have "stuck_slugs cfg now cf fd attempts slugs \<noteq> []"
    "\<not> (case map_of (fd_reconnect_at fd) index of None \<Rightarrow> False | Some t \<Rightarrow> fsub now t < RECONNECT_COOLDOWN_S)"
    "fd' = fd\<lparr>fd_reconnect_at := dict_set index now (fd_reconnect_at fd),
       fd_escalations := count_up (stuck_slugs cfg now cf fd attempts slugs) (fd_escalations fd)\<rparr>"
    unfolding maybe_escalate_def Let_def by (auto split: if_splits)
  then show ?thesis by (intro that(2)) (simp_all add: True not_less split: option.splits)
next
  case False
  with assms have "fd' = fd" unfolding maybe_escalate_def Let_def by (auto split: if_splits)
  with False show ?thesis by (rule that(1))
qed

lemma maybe_escalate_escalations:
  assumes "maybe_escalate cfg index slugs cf attempts now fd = (fd', raised)" "distinct slugs"
    "\<And>s. dict_get 0 (fd_escalations fd) s \<le> MAX_ESCALATIONS_PER_SLUG"
  shows "dict_get 0 (fd_escalations fd') s \<le> MAX_ESCALATIONS_PER_SLUG"
  using assms(1)
proof (cases rule: maybe_escalate_cases)
  case 2
  have "s \<in> set (stuck_slugs cfg now cf fd attempts slugs) \<Longrightarrow> dict_get 0 (fd_escalations fd) s < MAX_ESCALATIONS_PER_SLUG"
    by (simp add: stuck_slugs_def)
  with assms(3) [of s] show ?thesis
    by (auto simp: 2(4) count_up_get stuck_slugs_distinct assms(2))
qed (use assms(3) in simp)

lemma repair_cases:
  assumes "repair_subscriptions cfg index slugs now pr cf (fd, cn) = (st', sends, raised)"
  obtains "st' = (fd, cn)" "\<not> raised" "dark_slugs cfg now pr fd (cn_attempts cn) slugs = []"
  | fd' where "maybe_escalate cfg index slugs cf (count_up (dark_slugs cfg now pr fd (cn_attempts cn) slugs) (cn_attempts cn)) now fd = (fd', raised)"
    "st' = (fd', cn\<lparr>cn_attempts := count_up (dark_slugs cfg now pr fd (cn_attempts cn) slugs) (cn_attempts cn)\<rparr>)"
    "dark_slugs cfg now pr fd (cn_attempts cn) slugs \<noteq> []"
  using assms by (auto simp: repair_subscriptions_def Let_def split: if_splits prod.splits)

lemma repair_ok:
  assumes "repair_subscriptions cfg index slugs now pr cf (fd, cn) = (st', sends, raised)"
    and "counters_ok (fd, cn)" "distinct slugs"
  shows "counters_ok st'"
  using assms(1)
proof (cases rule: repair_cases)
  case (2 fd')
  let ?dark = "dark_slugs cfg now pr fd (cn_attempts cn) slugs"
  have "dict_get 0 (count_up ?dark (cn_attempts cn)) s \<le> MAX_REPAIR_ATTEMPTS" for s
  proof -
    have "s \<in> set ?dark \<Longrightarrow> \<not> MAX_REPAIR_ATTEMPTS \<le> dict_get 0 (cn_attempts cn) s" by (simp add: dark_slugs_def)
    moreover have "dict_get 0 (cn_attempts cn) s \<le> MAX_REPAIR_ATTEMPTS" using assms(2) by (simp add: counters_ok_def)
    ultimately show ?thesis by (auto simp: count_up_get [OF dark_slugs_distinct [OF assms(3)]])
  qed
  moreover have "dict_get 0 (fd_escalations fd') s \<le> MAX_ESCALATIONS_PER_SLUG" for s
    by (rule maybe_escalate_escalations [OF 2(1) assms(3)]) (use assms(2) in \<open>simp add: counters_ok_def\<close>)
  ultimately show ?thesis unfolding 2(2) by (intro counters_okI) simp_all
qed (use assms(2) in simp)

lemma sweep_due_ok:
  assumes "sweep_due cfg index slugs now pr cf (fd, cn) = (st', sends, raised)" "counters_ok (fd, cn)" "distinct slugs"
  shows "counters_ok st'"
proof (cases "cn_next_repair cn \<le> now")
  case True
  have "counters_ok (fd, cn\<lparr>cn_next_repair := fadd now (wc_repair_sweep cfg)\<rparr>)" using assms(2) by (simp add: counters_ok_def)
  with True assms(1) show ?thesis by (auto simp: sweep_due_def intro: repair_ok [OF _ _ assms(3)])
qed (use assms in \<open>auto simp: sweep_due_def\<close>)

text \<open>One turn of the loop is a change of the counters by the quotes of the frame, then a sweep.\<close>

lemma quotes_from_message_feed:
  "quotes_from_message cfg msg wall now fd ss = (fd', ss', qs) \<Longrightarrow>
   fd_escalations fd' = fd_escalations fd \<and> fd_reconnect_at fd' = fd_reconnect_at fd"
  by (auto simp: quotes_from_message_def Let_def split: pm_msg.splits if_splits option.splits)

lemma ws_step_cases:
  assumes "ws_step cfg index slugs ev (fd, cn) = (st', qs, sends, raised)"
  obtains fd1 cn1 fd2 cn2 now pr cf where "fd_escalations fd1 = fd_escalations fd" "fd_reconnect_at fd1 = fd_reconnect_at fd"
    "cn_attempts cn1 = cn_attempts cn" "fold (deliver cfg) qs (fd1, cn1) = (fd2, cn2)"
    "\<exists>ss. sweep_due cfg index slugs now pr cf (fd2, cn2\<lparr>cn_stats := ss\<rparr>) = (st', sends, raised)"
proof (cases ev)
  case (Timeout now pr cf)
  with assms have "qs = []" "sweep_due cfg index slugs now pr cf (fd, cn) = (st', sends, raised)"
    by (auto simp: ws_step_def split: prod.splits)
  then show ?thesis
    by (intro that [of fd cn fd cn now pr cf]) (auto intro: exI [of _ "cn_stats cn"])
next
  case (Received msg wall now later pr cf)
  obtain fd1 ss1 qs1 where 1: "quotes_from_message cfg msg wall now fd ((cn_stats cn)\<lparr>ss_frames := Suc (ss_frames (cn_stats cn))\<rparr>) = (fd1, ss1, qs1)"
    by (metis prod_cases3)
  obtain fd2 cn2 where 2: "fold (deliver cfg) qs1 (fd1, cn\<lparr>cn_stats := ss1\<rparr>) = (fd2, cn2)" by fastforce
  from assms 1 2 Received have 3: "qs = qs1"
    "sweep_due cfg index slugs later pr cf (fd2, cn2\<lparr>cn_stats := maybe_report later (cn_stats cn2)\<rparr>) = (st', sends, raised)"
    by (auto simp: ws_step_def Let_def split: prod.splits)
  from quotes_from_message_feed [OF 1] 2 3 show ?thesis
    by (intro that [of fd1 "cn\<lparr>cn_stats := ss1\<rparr>" fd2 cn2 later pr cf]) auto
next
  case Garbled
  with assms have "qs = []" "sweep_due cfg index slugs (cn_next_repair cn - 1) [] [] (fd, cn) = (st', sends, raised)"
    by (auto simp: ws_step_def sweep_due_def)
  then show ?thesis
    by (intro that [of fd cn fd cn "cn_next_repair cn - 1" "[]" "[]"]) (auto intro: exI [of _ "cn_stats cn"])
qed

lemma ws_step_ok:
  assumes "ws_step cfg index slugs ev (fd, cn) = (st', qs, sends, raised)" "counters_ok (fd, cn)" "distinct slugs"
  shows "counters_ok st'"
proof -
  from assms(1) obtain fd1 cn1 fd2 cn2 now pr cf ss where 1: "fd_escalations fd1 = fd_escalations fd"
    "cn_attempts cn1 = cn_attempts cn" "fold (deliver cfg) qs (fd1, cn1) = (fd2, cn2)"
    "sweep_due cfg index slugs now pr cf (fd2, cn2\<lparr>cn_stats := ss\<rparr>) = (st', sends, raised)"
    by (rule ws_step_cases) blast
  have "counters_ok (fd1, cn1)" using assms(2) 1(1,2) by (simp add: counters_ok_def)
  from fold_deliver_ok [OF this, of cfg qs] 1(3) have "counters_ok (fd2, cn2\<lparr>cn_stats := ss\<rparr>)"
    by (simp add: counters_ok_def)
  from sweep_due_ok [OF 1(4) this assms(3)] show ?thesis .
qed

subsection \<open>Escalation ends\<close>

definition spent :: "string list \<Rightarrow> feed \<Rightarrow> nat" where
  "spent slugs fd = sum_list (map (dict_get 0 (fd_escalations fd)) slugs)"

lemma fold_deliver_stale:
  "\<forall>q \<in> set qs. \<not> is_live_frame cfg q \<Longrightarrow> fd_escalations (fst (fold (deliver cfg) qs st)) = fd_escalations (fst st)"
proof (induction qs arbitrary: st)
  case (Cons q qs)
  have "fd_escalations (fst (deliver cfg q st)) = fd_escalations (fst st)"
    using Cons.prems by (cases st) (simp add: deliver_def Let_def)
  with Cons show ?case by simp
qed simp

lemma fold_deliver_reconnect: "fd_reconnect_at (fst (fold (deliver cfg) qs st)) = fd_reconnect_at (fst st)"
proof (induction qs arbitrary: st)
  case (Cons q qs)
  have "fd_reconnect_at (fst (deliver cfg q st)) = fd_reconnect_at (fst st)" by (cases st) (simp add: deliver_def Let_def)
  with Cons show ?case by simp
qed simp

lemma maybe_escalate_spends:
  assumes "maybe_escalate cfg index slugs cf attempts now fd = (fd', raised)" "distinct slugs"
  shows "spent slugs fd + (if raised then 1 else 0) \<le> spent slugs fd'"
  using assms(1)
proof (cases rule: maybe_escalate_cases)
  case 2
  let ?st = "stuck_slugs cfg now cf fd attempts slugs"
  from 2(2) obtain x where x: "x \<in> set ?st" by (cases ?st) auto
  have eq: "dict_get 0 (fd_escalations fd') s = dict_get 0 (fd_escalations fd) s + (if s \<in> set ?st then 1 else 0)" for s
    by (simp add: 2(4) count_up_get stuck_slugs_distinct assms(2))
  have "sum_list (map (\<lambda>s. dict_get 0 (fd_escalations fd) s + (if s \<in> set ?st then 1 else 0)) slugs) =
      spent slugs fd + sum_list (map (\<lambda>s. if s \<in> set ?st then 1 else 0) slugs)"
    by (simp add: spent_def sum_list_addf)
  moreover have "x \<in> set slugs" using x by (simp add: stuck_slugs_def)
  then have "1 \<le> sum_list (map (\<lambda>s. if s \<in> set ?st then 1 else 0 :: nat) slugs)"
    using x member_le_sum_list [of 1 "map (\<lambda>s. if s \<in> set ?st then 1 else 0) slugs"] by force
  moreover have "spent slugs fd' = sum_list (map (\<lambda>s. dict_get 0 (fd_escalations fd) s + (if s \<in> set ?st then 1 else 0)) slugs)"
    unfolding spent_def by (rule arg_cong [where f = sum_list], rule map_cong [OF refl], rule eq)
  ultimately show ?thesis using 2(1) by simp
qed simp

lemma sweep_due_spends:
  assumes "sweep_due cfg index slugs now pr cf (fd, cn) = (st', sends, raised)" "distinct slugs"
  shows "spent slugs fd + (if raised then 1 else 0) \<le> spent slugs (fst st')"
proof (cases "cn_next_repair cn \<le> now")
  case True
  with assms(1) have "repair_subscriptions cfg index slugs now pr cf
      (fd, cn\<lparr>cn_next_repair := fadd now (wc_repair_sweep cfg)\<rparr>) = (st', sends, raised)" by (simp add: sweep_due_def)
  then show ?thesis
  proof (cases rule: repair_cases)
    case (2 fd')
    from maybe_escalate_spends [OF 2(1) assms(2)] show ?thesis by (simp add: 2(2))
  qed simp
qed (use assms(1) in \<open>auto simp: sweep_due_def\<close>)

lemma ws_step_spends:
  assumes "ws_step cfg index slugs ev (fd, cn) = (st', qs, sends, raised)" "distinct slugs"
    and "\<forall>q \<in> set qs. \<not> is_live_frame cfg q"
  shows "spent slugs fd + (if raised then 1 else 0) \<le> spent slugs (fst st')"
proof -
  from assms(1) obtain fd1 cn1 fd2 cn2 now pr cf ss where 1: "fd_escalations fd1 = fd_escalations fd"
    "fold (deliver cfg) qs (fd1, cn1) = (fd2, cn2)"
    "sweep_due cfg index slugs now pr cf (fd2, cn2\<lparr>cn_stats := ss\<rparr>) = (st', sends, raised)"
    by (rule ws_step_cases) blast
  have "fd_escalations fd2 = fd_escalations fd"
    using fold_deliver_stale [OF assms(3), of "(fd1, cn1)"] 1(1,2) by simp
  with sweep_due_spends [OF 1(3) assms(2)] show ?thesis by (simp add: spent_def)
qed

lemma ws_loop_spends:
  "ws_loop cfg index slugs evs st = (st', qs, raised) \<Longrightarrow> counters_ok st \<Longrightarrow> distinct slugs \<Longrightarrow>
   counters_ok st' \<and> ((\<forall>q \<in> set qs. \<not> is_live_frame cfg q) \<longrightarrow>
     spent slugs (fst st) + (if raised then 1 else 0) \<le> spent slugs (fst st'))"
proof (induction evs arbitrary: st qs)
  case (Cons ev evs)
  obtain fd cn where st: "st = (fd, cn)" by (cases st)
  obtain st1 qs1 sends r1 where 1: "ws_step cfg index slugs ev (fd, cn) = (st1, qs1, sends, r1)" by (metis prod_cases4)
  have ok: "counters_ok st1" using ws_step_ok [OF 1 Cons.prems(2) [unfolded st] Cons.prems(3)] .
  note sp = ws_step_spends [OF 1 Cons.prems(3)]
  show ?case
  proof (cases r1)
    case True
    with Cons.prems(1) 1 st ok sp show ?thesis by simp
  next
    case False
    obtain st2 qs2 r2 where 2: "ws_loop cfg index slugs evs st1 = (st2, qs2, r2)" by (metis prod_cases3)
    from Cons.prems(1) 1 2 st False have eqs: "st' = st2" "qs = qs1 @ qs2" "raised = r2" by simp_all
    note IH = Cons.IH [OF 2 [folded eqs(1,3)] ok Cons.prems(3)]
    have "spent slugs (fst st) + (if raised then 1 else 0) \<le> spent slugs (fst st')"
      if "\<forall>q \<in> set qs. \<not> is_live_frame cfg q"
    proof -
      from that have "\<forall>q \<in> set qs1. \<not> is_live_frame cfg q" "\<forall>q \<in> set qs2. \<not> is_live_frame cfg q"
        unfolding eqs(2) by simp_all
      with IH sp [OF this(1)] False show ?thesis by (simp add: st)
    qed
    with IH show ?thesis by blast
  qed
qed simp

lemma spent_le: "(\<And>s. dict_get 0 (fd_escalations fd) s \<le> MAX_ESCALATIONS_PER_SLUG) \<Longrightarrow> spent slugs fd \<le> 2 * length slugs"
proof (induction slugs)
  case (Cons s slugs)
  have "spent slugs fd \<le> 2 * length slugs" "dict_get 0 (fd_escalations fd) s \<le> 2"
    using Cons.IH Cons.prems by (simp_all add: MAX_ESCALATIONS_PER_SLUG_def)
  then show ?case by (simp add: spent_def)
qed (simp add: spent_def)

lemma run_shard_spends:
  "run_shard cfg index slugs highest cs b fd = (fd', qs, darks, waits) \<Longrightarrow> distinct slugs \<Longrightarrow>
   (\<And>s. dict_get 0 (fd_escalations fd) s \<le> MAX_ESCALATIONS_PER_SLUG) \<Longrightarrow>
   (\<forall>s. dict_get 0 (fd_escalations fd') s \<le> MAX_ESCALATIONS_PER_SLUG) \<and>
   ((\<forall>q \<in> set qs. \<not> is_live_frame cfg q) \<longrightarrow> spent slugs fd + length (filter id darks) \<le> spent slugs fd')"
proof (induction cs arbitrary: b fd qs darks waits)
  case (Cons c cs)
  obtain now evs where c: "c = (now, evs)" by (cases c)
  let ?st0 = "fst (connect cfg slugs now fd)"
  obtain fd1 cn1 qs1 dark where 1: "ws_loop cfg index slugs evs ?st0 = ((fd1, cn1), qs1, dark)" by (metis prod.exhaust)
  obtain qs2 darks2 waits2 where 2: "run_shard cfg index slugs highest cs (next_backoff highest b) fd1 = (fd', qs2, darks2, waits2)"
    and eqs: "qs = qs1 @ qs2" "darks = dark # darks2"
    using Cons.prems(1) c 1 by (auto split: prod.splits)
  have ok: "counters_ok ?st0" using Cons.prems(3) by (simp add: connect_def counters_ok_def)
  have "spent slugs (fst ?st0) = spent slugs fd" by (simp add: connect_def spent_def)
  with ws_loop_spends [OF 1 ok Cons.prems(2)] have
    A: "\<And>s. dict_get 0 (fd_escalations fd1) s \<le> MAX_ESCALATIONS_PER_SLUG"
       "(\<forall>q \<in> set qs1. \<not> is_live_frame cfg q) \<Longrightarrow> spent slugs fd + (if dark then 1 else 0) \<le> spent slugs fd1"
    by (simp_all add: counters_ok_def)
  from Cons.IH [OF 2 Cons.prems(2) A(1)] A(2) show ?case by (auto simp: eqs)
qed simp


subsection \<open>When a connection is dropped\<close>


subsection \<open>A budget spent inside the cooldown\<close>

text \<open>
  Once every market of a shard has used up its repairs on a connection, the sweep finds nothing to do and
  the check for a drop is not made any more: however long the markets stay silent, no further timeout drops
  the connection, even if the cooldown that stopped the last drop has long expired.
\<close>

theorem spent_shard_never_dropped:
  assumes "\<forall>s \<in> set slugs. MAX_REPAIR_ATTEMPTS \<le> dict_get 0 (cn_attempts cn) s"
    and "\<forall>ev \<in> set evs. \<exists>now pr cf. ev = Timeout now pr cf"
  shows "\<exists>cn'. ws_loop cfg index slugs evs (fd, cn) = ((fd, cn'), [], False)"
  using assms
proof (induction evs arbitrary: cn)
  case (Cons ev evs)
  from Cons.prems(2) obtain now pr cf where ev: "ev = Timeout now pr cf" by auto
  have none: "dark_slugs cfg now pr fd (cn_attempts cn) slugs = []"
    using Cons.prems(1) by (auto simp: dark_slugs_def filter_empty_conv)
  define cn1 where "cn1 = (if cn_next_repair cn \<le> now then cn\<lparr>cn_next_repair := fadd now (wc_repair_sweep cfg)\<rparr> else cn)"
  have cn1: "ws_step cfg index slugs ev (fd, cn) = ((fd, cn1), [], [], False)" "cn_attempts cn1 = cn_attempts cn"
    using none by (simp_all add: cn1_def ev ws_step_def sweep_due_def repair_subscriptions_def Let_def)
  from Cons.IH [of cn1] Cons.prems cn1(2) obtain cn' where "ws_loop cfg index slugs evs (fd, cn1) = ((fd, cn'), [], False)"
    by auto
  with cn1(1) show ?case by simp
qed simp

subsection \<open>Waits\<close>

text \<open>
  The wait before the k-th reconnect is the initial one doubled k times up to the highest: it depends on how
  many connections there were, not on how long they lived or what they delivered.
\<close>

theorem backoff_never_resets:
  assumes "run_shard cfg index slugs highest cs b fd = (fd', qs, darks, waits)" "b \<le> highest" "0 \<le> b"
  shows "waits = map (\<lambda>k. min (2 ^ k * b) highest) [0..<length cs]"
  using assms
proof (induction cs arbitrary: b fd qs darks waits)
  case (Cons c cs)
  obtain now evs where c: "c = (now, evs)" by (cases c)
  from Cons.prems(1) obtain fd1 qs2 darks2 waits2 where
    2: "run_shard cfg index slugs highest cs (next_backoff highest b) fd1 = (fd', qs2, darks2, waits2)" "waits = b # waits2"
    by (auto simp: c split: prod.splits)
  have nb: "next_backoff highest b \<le> highest" "0 \<le> next_backoff highest b"
    using Cons.prems(2,3) by (auto simp: next_backoff_def)
  have "min (2 ^ k * next_backoff highest b) highest = min (2 ^ Suc k * b) highest" for k
  proof (cases "2 * b \<le> highest")
    case False
    have "(1::rat) \<le> 2 ^ k" by simp
    then have "1 * highest \<le> 2 ^ k * highest" "1 * highest \<le> 2 ^ k * (2 * b)"
      using False Cons.prems(2,3) by (intro mult_mono; simp)+
    with False show ?thesis by (simp add: next_backoff_def mult.assoc mult.left_commute)
  qed (simp add: next_backoff_def mult.left_commute)
  with Cons.IH [OF 2(1) nb] have "waits2 = map (\<lambda>k. min (2 ^ Suc k * b) highest) [0..<length cs]" by simp
  then have "waits2 = map (\<lambda>k. min (2 ^ k * b) highest) [Suc 0..<Suc (length cs)]"
    by (simp add: map_Suc_upt [symmetric] comp_def del: upt_Suc power_Suc)
  moreover have "[0..<length (c # cs)] = 0 # [Suc 0..<Suc (length cs)]" by (simp add: upt_conv_Cons del: upt_Suc)
  ultimately show ?case using 2(2) Cons.prems(2) by (simp add: min_def del: upt_Suc)
qed simp

subsection \<open>Shards and quotes\<close>

text \<open>
  The shards are the subscribed markets, each in exactly one shard, in order, no shard empty or larger than
  the size allowed (at least one, whatever the setting).
\<close>

theorem shards_partition:
  "concat (shards (ws_init oids sz d p sw)) = wc_slugs (ws_init oids sz d p sw) \<and>
   distinct (concat (shards (ws_init oids sz d p sw))) \<and>
   list_all (\<lambda>c. c \<noteq> [] \<and> int (length c) \<le> max 1 sz) (shards (ws_init oids sz d p sw))"
proof -
  let ?cfg = "ws_init oids sz d p sw"
  have pos: "0 < wc_shard_size ?cfg" by (simp add: ws_init_def)
  have 1: "concat (shards ?cfg) = wc_slugs ?cfg" unfolding shards_def by (rule concat_chunks [OF pos])
  moreover have "distinct (wc_slugs ?cfg)" by (simp add: ws_init_def)
  moreover have "int (wc_shard_size ?cfg) = max 1 sz" by (simp add: ws_init_def)
  then have "list_all (\<lambda>c. c \<noteq> [] \<and> int (length c) \<le> max 1 sz) (shards ?cfg)"
    unfolding list_all_iff shards_def using chunks_length by (metis of_nat_le_iff)
  ultimately show ?thesis by simp
qed

lemma pair_to_quotes_pair:
  assumes "pair_to_quotes slug bd ak bs as age \<noteq> []"
  obtains l s where "pair_to_quotes slug bd ak bs as age = [l, s]" "quote_ok l" "quote_ok s"
    "q_outcome_id l = slug @ '':LONG''" "q_outcome_id s = slug @ '':SHORT''"
    "bid s = dsub 1 (ask l)" "ask s = dsub 1 (bid l)" "bid_size s = ask_size l" "ask_size s = bid_size l"
    "source_age_s l = age" "source_age_s s = age" "bd \<noteq> None \<Longrightarrow> bid l = the bd" "ak \<noteq> None \<Longrightarrow> ask l = the ak"
    "bd = None \<Longrightarrow> bid_size l = Some 0" "ak = None \<Longrightarrow> ask_size l = Some 0"
  using assms
  by (auto simp: pair_to_quotes_def Let_def split: if_splits sum.splits dest!: quote_init_ok)

text \<open>
  The two quotes of a frame are well-formed and one book seen from its two sides: SHORT's prices are one
  minus LONG's the other way round and its sizes are LONG's swapped; a side the frame did not quote is known
  to be empty; both carry the age of the frame. A book that is crossed or out of range gives no quote.
\<close>

theorem frame_quotes_complement:
  assumes "quotes_from_message cfg (MarketData slug (Some bids) (Some offers) stamp) wall now fd ss = (fd', ss', qs)" "qs \<noteq> []"
  shows "\<exists>l s. qs = [l, s] \<and> quote_ok l \<and> quote_ok s \<and> slug \<in> set (wc_slugs cfg) \<and>
    q_outcome_id l = slug @ '':LONG'' \<and> q_outcome_id s = slug @ '':SHORT'' \<and>
    bid s = dsub 1 (ask l) \<and> ask s = dsub 1 (bid l) \<and> bid_size s = ask_size l \<and> ask_size s = bid_size l \<and>
    (fst (top_level bids) = None \<longrightarrow> bid_size l = Some 0) \<and> (fst (top_level offers) = None \<longrightarrow> ask_size l = Some 0) \<and>
    source_age_s l = frame_age_s stamp wall \<and> source_age_s s = frame_age_s stamp wall"
proof -
  from assms have slug: "slug \<in> set (wc_slugs cfg)" and qs: "qs = pair_to_quotes slug (fst (top_level bids))
      (fst (top_level offers)) (snd (top_level bids)) (snd (top_level offers)) (frame_age_s stamp wall)"
    by (auto simp: quotes_from_message_def Let_def quotes_from_levels_def split: if_splits)
  from assms(2) show ?thesis unfolding qs by (rule pair_to_quotes_pair) (use slug in auto)
qed

subsection \<open>A concrete shard\<close>

definition ws_cfg :: ws_config where
  "ws_cfg = ws_init [''s:LONG'', ''s:SHORT''] 100 120 6 15"

lemma ws_cfg_fields:
  "wc_slugs ws_cfg = [''s'']" "wc_dark_after ws_cfg = 120" "wc_priority_dark_after ws_cfg = 6" "wc_repair_sweep ws_cfg = 15"
  by (simp_all add: ws_cfg_def ws_init_def slug_of_def)

text \<open>The shard last dropped at 0, is back at 1, and hears nothing.\<close>

definition quiet :: "rat \<Rightarrow> ws_event" where
  "quiet now = Timeout now [''s''] [''s'']"

definition ws_feed :: feed where
  "ws_feed = (start_feed ws_cfg 0)\<lparr>fd_reconnect_at := [(0, 0)], fd_escalations := [(''s'', 1)]\<rparr>"

lemma flt_small:
  "flt_round 15 = 15" "flt_round 16 = 16" "flt_round 30 = 30" "flt_round 31 = 31" "flt_round 45 = 45" "flt_round 46 = 46"
  "flt_round 60 = 60" "flt_round 61 = 61" "flt_round 75 = 75" "flt_round 76 = 76" "flt_round 91 = 91" "flt_round 121 = 121"
  "flt_round 120 = 120" "flt_round 136 = 136" "flt_round 135 = 135"
  by (simp_all add: flt_round_literal eval_rules)

lemma chunk_one: "chunks 100 [x] = [[x]]"
  by (simp add: chunks.simps)

lemmas ws_rules = connect_def ws_step_def sweep_due_def repair_subscriptions_def dark_slugs_def silent_for_def count_up_def
  maybe_escalate_def stuck_slugs_def fadd_def fsub_def flt_small MAX_REPAIR_ATTEMPTS_def MAX_ESCALATIONS_PER_SLUG_def
  RECONNECT_COOLDOWN_S_def MAX_SLUGS_PER_SUBSCRIPTION_def Let_def dict_get_def chunk_one ws_cfg_fields

text \<open>The fifth repair, at 76, falls inside the two minutes after the drop at 0.\<close>

lemma quiet_run:
  "\<exists>cn. ws_loop ws_cfg 0 [''s''] [quiet 16, quiet 31, quiet 46, quiet 61, quiet 76] (fst (connect ws_cfg [''s''] 1 ws_feed)) =
     ((ws_feed\<lparr>fd_last_ws_at := [(''s'', 1)]\<rparr>, cn), [], False) \<and> cn_attempts cn = [(''s'', 5)]"
  by (simp add: ws_feed_def start_feed_def quiet_def ws_rules)

theorem spent_shard_never_dropped_witness:
  "\<exists>fd cn cn'. ws_loop ws_cfg 0 [''s''] [quiet 16, quiet 31, quiet 46, quiet 61, quiet 76] (fst (connect ws_cfg [''s''] 1 ws_feed)) =
       ((fd, cn), [], False) \<and>
     ws_loop ws_cfg 0 [''s''] [quiet 91, quiet 136] (fd, cn) = ((fd, cn'), [], False) \<and>
     RECONNECT_COOLDOWN_S \<le> fsub 136 0 \<and> wc_priority_dark_after ws_cfg < silent_for 136 fd ''s'' \<and>
     dict_get 0 (fd_escalations fd) ''s'' < MAX_ESCALATIONS_PER_SLUG"
proof -
  let ?fd = "ws_feed\<lparr>fd_last_ws_at := [(''s'', 1)]\<rparr>"
  from quiet_run obtain cn :: conn where
    cn: "ws_loop ws_cfg 0 [''s''] [quiet 16, quiet 31, quiet 46, quiet 61, quiet 76] (fst (connect ws_cfg [''s''] 1 ws_feed)) =
      ((?fd, cn), [], False)" "cn_attempts cn = [(''s'', 5)]" by blast
  have "\<forall>s \<in> set [''s'']. MAX_REPAIR_ATTEMPTS \<le> dict_get 0 (cn_attempts cn) s"
    "\<forall>ev \<in> set [quiet 91, quiet 136]. \<exists>now pr cf. ev = Timeout now pr cf"
    by (simp_all add: cn(2) MAX_REPAIR_ATTEMPTS_def dict_get_def quiet_def)
  from spent_shard_never_dropped [OF this, of ws_cfg 0 ?fd] obtain cn' where
    "ws_loop ws_cfg 0 [''s''] [quiet 91, quiet 136] (?fd, cn) = ((?fd, cn'), [], False)" by blast
  moreover have "RECONNECT_COOLDOWN_S \<le> fsub 136 0" "wc_priority_dark_after ws_cfg < silent_for 136 ?fd ''s''"
    "dict_get 0 (fd_escalations ?fd) ''s'' < MAX_ESCALATIONS_PER_SLUG"
    by (simp_all add: ws_rules ws_feed_def)
  ultimately show ?thesis using cn(1) by blast
qed

text \<open>Without a recent drop the fifth repair does drop the connection.\<close>

lemma quiet_drop:
  "\<exists>fd' cn'. ws_step ws_cfg 0 [''s''] (quiet 76) (start_feed ws_cfg 1,
       \<lparr>cn_delivered = [], cn_attempts = [(''s'', 4)], cn_next_repair = 76, cn_stats = reset_stats 1\<rparr>) =
     ((fd', cn'), [], [[''s'']], True)"
  by (simp add: start_feed_def quiet_def ws_rules)



theorem backoff_never_resets_witness:
  "\<exists>fd' qs darks. run_shard ws_cfg 0 [''s''] 30 [(1, [quiet 16]), (31, [quiet 46]), (61, [])] 1 (start_feed ws_cfg 0) =
     (fd', qs, darks, [1, 2, 4])"
proof -
  obtain fd' qs darks waits where
    1: "run_shard ws_cfg 0 [''s''] 30 [(1, [quiet 16]), (31, [quiet 46]), (61, [])] 1 (start_feed ws_cfg 0) = (fd', qs, darks, waits)"
    by (metis prod_cases4)
  from backoff_never_resets [OF this] have "waits = [1, 2, 4]" by simp
  with 1 show ?thesis by blast
qed

lemma ws_prices: "pm_price (Some ''0.40'') = Some (2/5)" "pm_price (Some ''0.55'') = Some (11/20)" "pm_size ''10'' = 10"
  by (simp_all add: pm_price_def pm_size_def sample_numbers)

theorem frame_quotes_complement_witness:
  "\<exists>fd' ss' l s. quotes_from_message ws_cfg (MarketData ''s'' (Some [Some \<lparr>px_value = Some ''0.40'', px_qty = ''10''\<rparr>])
       (Some [Some \<lparr>px_value = Some ''0.55'', px_qty = ''10''\<rparr>]) None) 0 0 ws_feed (reset_stats 0) = (fd', ss', [l, s]) \<and>
     bid s = 9/20 \<and> ask s = 3/5 \<and> quote_ok s"
proof -
  let ?run = "quotes_from_message ws_cfg (MarketData ''s'' (Some [Some \<lparr>px_value = Some ''0.40'', px_qty = ''10''\<rparr>])
       (Some [Some \<lparr>px_value = Some ''0.55'', px_qty = ''10''\<rparr>]) None) 0 0 ws_feed (reset_stats 0)"
  obtain fd' ss' qs where 1: "?run = (fd', ss', qs)" by (metis prod_cases3)
  then have qs: "qs = pair_to_quotes ''s'' (Some (2/5)) (Some (11/20)) (Some 10) (Some 10) None"
    by (simp add: quotes_from_message_def Let_def ws_cfg_fields quotes_from_levels_def top_level_def ws_prices frame_age_s_def)
  then have "qs \<noteq> []" "bid (hd qs) = 2/5" "ask (hd qs) = 11/20"
    by (simp_all add: pair_to_quotes_def Let_def quote_init_def sample_sums)
  with frame_quotes_complement [OF 1] obtain l s where ls: "qs = [l, s]" "quote_ok s" "bid s = dsub 1 (ask l)" "ask s = dsub 1 (bid l)"
    by blast
  with \<open>bid (hd qs) = 2/5\<close> \<open>ask (hd qs) = 11/20\<close> have "bid l = 2/5" "ask l = 11/20" by simp_all
  then have "bid s = 9/20" "ask s = 3/5" using ls(3,4) by (simp_all only: sample_sums)
  with 1 ls(1,2) show ?thesis by blast
qed

end
