(* ===== verification/Rest_Adapters.thy ===== *)
theory Rest_Adapters
  imports Polymarket_Ws Matcher Fees
begin

section \<open>The polling adapters\<close>

text \<open>
  \<open>arbys/adapters/kalshi.py\<close>, the polling half of \<open>polymarket_us.py\<close> and \<open>draftkings.py\<close>. A request is a
  function from what is asked for to its reply: the exception of the client, of \<open>raise_for_status\<close> or of
  \<open>json()\<close>, or the decoded body reduced to the fields read. Bodies are JSON objects. A level is what indexing
  it gives: the text of its price and of its size, \<open>None\<close> where indexing fails; \<open>Keyed\<close> is a level that is an
  object, where the index is a missing key. As in \<open>Kalshi_Book\<close> infinite and NaN texts are unreadable. A
  polling loop has no end; a run of it is a number of rounds, cut short by the first exception that escapes.
\<close>

definition catching :: "py_exc list \<Rightarrow> 'a \<Rightarrow> 'a res \<Rightarrow> 'a res" where
  "catching excs d m = (case m of Inl e \<Rightarrow> if e \<in> set excs then Inr d else Inl e | Inr a \<Rightarrow> Inr a)"

lemma catching_simps [simp]:
  "catching excs d (Inr a) = Inr a"
  "catching excs d (Inl e) = (if e \<in> set excs then Inr d else Inl e)"
  by (simp_all add: catching_def)

lemma catching_Inr_iff [res_simps]:
  "catching excs d m = Inr a \<longleftrightarrow> m = Inr a \<or> (\<exists>e. m = Inl e \<and> e \<in> set excs \<and> a = d)"
  by (cases m) auto

subsection \<open>Kalshi: levels\<close>

datatype 'p rest_level = Indexed "'p option" "string option" | Keyed

definition level_size :: "string option \<Rightarrow> rat" where
  "level_size sz = (case sz of None \<Rightarrow> 0 | Some s \<Rightarrow> (case read_decimal s of Inl _ \<Rightarrow> 0 | Inr x \<Rightarrow> x))"

text \<open>The highest price seen so far, the first of equals, with the size beside it.\<close>

fun best_level :: "('p \<Rightarrow> 'v::linorder option) \<Rightarrow> ('v \<times> rat) option \<Rightarrow> 'p rest_level list \<Rightarrow> ('v \<times> rat) option res" where
  "best_level read best [] = Inr best"
| "best_level read best (Keyed # ls) = Inl KeyError"
| "best_level read best (Indexed p sz # ls) = (case Option.bind p read of
     None \<Rightarrow> best_level read best ls
   | Some x \<Rightarrow> best_level read
       (case best of None \<Rightarrow> Some (x, level_size sz) | Some (y, s) \<Rightarrow> if y < x then Some (x, level_size sz) else Some (y, s)) ls)"

definition decimal_text :: "string \<Rightarrow> rat option" where
  "decimal_text s = (case read_decimal s of Inl _ \<Rightarrow> None | Inr p \<Rightarrow> Some p)"

definition best_price_dollars :: "string rest_level list option \<Rightarrow> (rat \<times> rat) option res" where
  "best_price_dollars levels = (case levels of None \<Rightarrow> Inr None | Some ls \<Rightarrow> best_level decimal_text None ls)"

text \<open>A price in cents is what \<open>int\<close> reads of it.\<close>

definition best_price_cents :: "int rest_level list option \<Rightarrow> (rat \<times> rat) option res" where
  "best_price_cents levels = (case levels of None \<Rightarrow> Inr None | Some ls \<Rightarrow>
     bindE (best_level Some None ls) (\<lambda>best. case best of
       None \<Rightarrow> Inr None
     | Some (c, sz) \<Rightarrow> bindE (ddiv (of_int c) 100) (\<lambda>p. Inr (Some (p, sz)))))"

subsection \<open>Kalshi: markets and quotes\<close>

record rest_market =
  rm_ticker :: "string option"
  rm_title :: "string option"
  rm_subtitle :: "string option"

definition rest_outcomes :: "rest_market \<Rightarrow> outcome list" where
  "rest_outcomes m = (case rm_ticker m of None \<Rightarrow> [] | Some ticker \<Rightarrow>
     if ticker = [] then [] else let title = or_else (rm_title m) (or_else (rm_subtitle m) ticker) in
       map (\<lambda>(sd, y). \<lparr>o_id = ticker @ '':'' @ sd, o_venue_id = ''kalshi'', o_market_id = ticker,
         o_label = title @ '' ('' @ sd @ '')'', o_side = Some y\<rparr>) [(''YES'', YES), (''NO'', NO)])"

definition rest_list_markets :: "rest_market list res \<Rightarrow> outcome list res" where
  "rest_list_markets reply = bindE reply (\<lambda>ms. Inr (concat (map rest_outcomes ms)))"

text \<open>\<open>rsplit(":", 1)\<close>, whose single part does not unpack without a colon.\<close>

definition split_outcome_id :: "string \<Rightarrow> (string \<times> side) res" where
  "split_outcome_id oid = (if CHR '':'' \<notin> set oid then Inl ValueError
     else Inr (slug_of oid, if to_upper (rev (takeWhile (\<lambda>c. c \<noteq> CHR '':'') (rev oid))) = ''YES'' then YES else NO))"

datatype order_reply =
    OrderbookFp "string rest_level list option" "string rest_level list option"
  | OrderbookCents "int rest_level list option" "int rest_level list option"

definition reply_sides :: "order_reply \<Rightarrow> ((rat \<times> rat) option \<times> (rat \<times> rat) option) res" where
  "reply_sides body = (case body of
     OrderbookFp yes no \<Rightarrow> bindE (best_price_dollars yes) (\<lambda>y. bindE (best_price_dollars no) (\<lambda>n. Inr (y, n)))
   | OrderbookCents yes no \<Rightarrow> bindE (best_price_cents yes) (\<lambda>y. bindE (best_price_cents no) (\<lambda>n. Inr (y, n))))"

definition rest_quote :: "string \<Rightarrow> (rat \<times> rat) option \<Rightarrow> (rat \<times> rat) option \<Rightarrow> quote option res" where
  "rest_quote oid own other =
     (let b = (case own of None \<Rightarrow> (0, 0) | Some x \<Rightarrow> x);
          a = (case other of None \<Rightarrow> (1, 0) | Some (p, sz) \<Rightarrow> (dsub 1 p, sz));
          b_price = (if fst a < fst b then fst a else fst b)
      in catching [ValueError] None (bindE (quote_init \<lparr>q_outcome_id = oid, bid = b_price, ask = fst a,
           bid_size = Some (snd b), ask_size = Some (snd a), source_age_s = None\<rparr>) (\<lambda>q. Inr (Some q))))"

definition parse_orderbook :: "string \<Rightarrow> side \<Rightarrow> order_reply \<Rightarrow> quote option res" where
  "parse_orderbook oid sd body =
     bindE (catching [ValueError, TypeError, KeyError] None (bindE (reply_sides body) (\<lambda>sides. Inr (Some sides))))
       (\<lambda>sides. case sides of None \<Rightarrow> Inr None
         | Some (y, n) \<Rightarrow> (case sd of YES \<Rightarrow> rest_quote oid y n | NO \<Rightarrow> rest_quote oid n y))"

definition kalshi_fetch_quote :: "(string \<Rightarrow> order_reply res) \<Rightarrow> string \<Rightarrow> quote option res" where
  "kalshi_fetch_quote get oid =
     bindE (catching [HTTPError, ValueError, KeyError] None
       (bindE (split_outcome_id oid) (\<lambda>(ticker, sd). bindE (get ticker) (\<lambda>body. Inr (Some (sd, body))))))
       (\<lambda>r. case r of None \<Rightarrow> Inr None | Some (sd, body) \<Rightarrow> parse_orderbook oid sd body)"

subsection \<open>Polling\<close>

fun poll_round :: "('k \<Rightarrow> quote list res) \<Rightarrow> 'k list \<Rightarrow> quote list \<times> py_exc option" where
  "poll_round fetch [] = ([], None)"
| "poll_round fetch (k # ks) = (case fetch k of
     Inl e \<Rightarrow> ([], Some e)
   | Inr qs \<Rightarrow> (case poll_round fetch ks of (qs', r) \<Rightarrow> (qs @ qs', r)))"

fun poll_rounds :: "(nat \<Rightarrow> 'k \<Rightarrow> quote list res) \<Rightarrow> 'k list \<Rightarrow> nat \<Rightarrow> quote list \<times> py_exc option" where
  "poll_rounds fetch ks 0 = ([], None)"
| "poll_rounds fetch ks (Suc n) = (case poll_rounds fetch ks n of
     (qs, Some e) \<Rightarrow> (qs, Some e)
   | (qs, None) \<Rightarrow> (case poll_round (fetch n) ks of (qs', r) \<Rightarrow> (qs @ qs', r)))"

definition kalshi_rest_stream :: "(nat \<Rightarrow> string \<Rightarrow> order_reply res) \<Rightarrow> string list \<Rightarrow> nat \<Rightarrow> quote list \<times> py_exc option" where
  "kalshi_rest_stream get oids n = (if oids = [] then ([], None)
     else poll_rounds (\<lambda>k oid. bindE (kalshi_fetch_quote (get k) oid)
       (\<lambda>q. Inr (case q of None \<Rightarrow> [] | Some q \<Rightarrow> [q]))) oids n)"

subsection \<open>Polymarket US\<close>

definition rest_slugs :: "string list \<Rightarrow> string list" where
  "rest_slugs oids = sort (remdups (map slug_of oids))"

text \<open>Events and their markets; \<open>None\<close> stands for one that is not an object.\<close>

record pm_rest_market =
  pr_slug :: "string option"
  pr_question :: "string option"

definition pm_rest_outcomes :: "pm_rest_market option \<Rightarrow> outcome list" where
  "pm_rest_outcomes m = (case m of None \<Rightarrow> [] | Some m \<Rightarrow> (case pr_slug m of None \<Rightarrow> [] | Some slug \<Rightarrow>
     if slug = [] then [] else let title = or_else (pr_question m) slug in
       map (\<lambda>(sd, y). \<lparr>o_id = slug @ '':'' @ sd, o_venue_id = ''polymarket_us'', o_market_id = slug,
         o_label = title @ '' ('' @ sd @ '')'', o_side = Some y\<rparr>) [(''LONG'', YES), (''SHORT'', NO)]))"

definition pm_rest_list_markets :: "pm_rest_market option list option list res \<Rightarrow> outcome list res" where
  "pm_rest_list_markets reply = bindE reply (\<lambda>events. Inr (concat (map (\<lambda>event. case event of
     None \<Rightarrow> [] | Some markets \<Rightarrow> concat (map pm_rest_outcomes markets)) events)))"

text \<open>A reply is the best bid and offer of \<open>marketData\<close>, \<open>None\<close> where that is not an object.\<close>

definition pm_fetch_quotes :: "(string \<Rightarrow> (string option \<times> string option) option res) \<Rightarrow> string \<Rightarrow> quote list res" where
  "pm_fetch_quotes get slug = catching [HTTPError, ValueError] [] (bindE (get slug) (\<lambda>md. Inr (case md of
     None \<Rightarrow> [] | Some (b, a) \<Rightarrow> quotes_from_bbo slug b a)))"

definition pm_rest_stream ::
  "(nat \<Rightarrow> string \<Rightarrow> (string option \<times> string option) option res) \<Rightarrow> string list \<Rightarrow> nat \<Rightarrow> quote list \<times> py_exc option" where
  "pm_rest_stream get oids n = (if rest_slugs oids = [] then ([], None)
     else poll_rounds (\<lambda>k. pm_fetch_quotes (get k)) (rest_slugs oids) n)"

subsection \<open>DraftKings\<close>

text \<open>Ids are the texts \<open>str\<close> makes of them; the odds are the text of \<open>oddsAmerican\<close>.\<close>

record dk_selection =
  dk_label :: "string option"
  dk_american :: "string option"

record dk_market =
  dk_market_id :: string
  dk_selections :: "dk_selection list"

record dk_event =
  dk_event_id :: string
  dk_name :: string
  dk_groups :: "dk_market list list"

definition dk_outcome_id :: "string \<Rightarrow> string \<Rightarrow> nat \<Rightarrow> string" where
  "dk_outcome_id ev mid i = ''dks:'' @ ev @ '':'' @ mid @ '':'' @ nat_str i"

definition dk_walk :: "(dk_event \<Rightarrow> dk_market \<Rightarrow> nat \<times> dk_selection \<Rightarrow> 'a) \<Rightarrow> dk_event list \<Rightarrow> 'a list" where
  "dk_walk f events = concat (map (\<lambda>ev. concat (map (\<lambda>grp. concat (map (\<lambda>m.
     map (f ev m) (enumerate 0 (dk_selections m))) grp)) (dk_groups ev))) events)"

definition dk_outcome :: "dk_event \<Rightarrow> dk_market \<Rightarrow> nat \<times> dk_selection \<Rightarrow> outcome" where
  "dk_outcome ev m x = (case x of (i, sel) \<Rightarrow>
     \<lparr>o_id = dk_outcome_id (dk_event_id ev) (dk_market_id m) i, o_venue_id = ''draftkings'',
      o_market_id = dk_event_id ev @ '':'' @ dk_market_id m,
      o_label = dk_name ev @ '': '' @ (case dk_label sel of None \<Rightarrow> ''outcome'' @ nat_str i | Some l \<Rightarrow> l),
      o_side = Some (if i = 0 then YES else NO)\<rparr>)"

definition dk_list_markets :: "(string \<Rightarrow> dk_event list res) \<Rightarrow> string list \<Rightarrow> outcome list res" where
  "dk_list_markets get leagues = bindE (mapE (\<lambda>league. catching [HTTPError] []
     (bindE (get league) (\<lambda>events. Inr (dk_walk dk_outcome events)))) leagues) (\<lambda>oss. Inr (concat oss))"

definition dk_quote :: "dk_event \<Rightarrow> dk_market \<Rightarrow> nat \<times> dk_selection \<Rightarrow> quote list res" where
  "dk_quote ev m x = (case x of (i, sel) \<Rightarrow> (case dk_american sel of None \<Rightarrow> Inr [] | Some tx \<Rightarrow>
     bindE (catching [ValueError] None (bindE (case py_int tx of None \<Rightarrow> Inl ValueError | Some n \<Rightarrow> Inr n)
       (\<lambda>n. bindE (american_to_implied_prob n) (\<lambda>p. Inr (Some p)))))
     (\<lambda>prob. case prob of None \<Rightarrow> Inr [] | Some p \<Rightarrow>
        bindE (quote_init \<lparr>q_outcome_id = dk_outcome_id (dk_event_id ev) (dk_market_id m) i, bid = p, ask = p,
          bid_size = None, ask_size = None, source_age_s = None\<rparr>) (\<lambda>q. Inr [q]))))"

definition dk_fetch_quotes :: "(string \<Rightarrow> dk_event list res) \<Rightarrow> string \<Rightarrow> quote list res" where
  "dk_fetch_quotes get league = bindE (catching [HTTPError] [] (get league)) (\<lambda>events.
     bindE (mapE id (dk_walk dk_quote events)) (\<lambda>qss. Inr (concat qss)))"

definition dk_stream :: "(nat \<Rightarrow> string \<Rightarrow> dk_event list res) \<Rightarrow> string list \<Rightarrow> nat \<Rightarrow> quote list \<times> py_exc option" where
  "dk_stream get leagues n = (if leagues = [] then ([], None) else poll_rounds (\<lambda>k. dk_fetch_quotes (get k)) leagues n)"

subsection \<open>The socket and the poll read the same book\<close>

abbreviation rest_of :: "string \<times> string \<Rightarrow> string rest_level" where
  "rest_of \<equiv> \<lambda>(p, sz). Indexed (Some p) (Some sz)"

abbreviation sized :: "(string \<times> string) list \<Rightarrow> (string, rat) dict" where
  "sized \<equiv> map (\<lambda>(p, sz). (p, level_size (Some sz)))"

lemma dict_set_new: "k \<notin> fst ` set d \<Longrightarrow> dict_set k v d = d @ [(k, v)]"
  by (induction d) auto

lemma levels_to_dict_sized:
  "levels_to_dict (map Some ls) out = Inr d \<Longrightarrow> distinct (map fst ls) \<Longrightarrow> fst ` set ls \<inter> fst ` set out = {} \<Longrightarrow>
   d = out @ sized ls"
proof (induction ls arbitrary: out)
  case (Cons l ls)
  obtain p sz where l: "l = (p, sz)" by (cases l)
  with Cons.prems obtain x where x: "read_decimal sz = Inr x" "levels_to_dict (map Some ls) (dict_set p x out) = Inr d"
    by (auto simp: res_simps)
  have new: "dict_set p x out = out @ [(p, x)]" by (rule dict_set_new) (use Cons.prems(3) l in auto)
  have "d = dict_set p x out @ sized ls"
    by (rule Cons.IH [OF x(2)]) (use Cons.prems l new in auto)
  with new l x(1) show ?case by (simp add: level_size_def)
qed simp

lemma best_level_sized: "best_level decimal_text best (map rest_of ls) = Inr (foldl keep_best best (sized ls))"
  by (induction ls arbitrary: best) (auto simp: decimal_text_def split: sum.splits option.splits)

lemma best_price_dollars_ladder:
  assumes "ladder (Some (map Some ls)) = Inr d" "distinct (map fst ls)"
  shows "best_price_dollars (Some (map rest_of ls)) = Inr (max_price_and_size d)"
proof -
  have "d = sized ls" using levels_to_dict_sized [of ls "[]" d] assms by (simp add: ladder_def)
  then show ?thesis by (simp add: best_price_dollars_def best_level_sized max_price_and_size_def)
qed

lemma rest_quote_side_quote:
  "rest_quote oid own other = Inr (side_quote oid (fst (bid_of own)) (fst (implied_ask other)) (snd (bid_of own)) (snd (implied_ask other)))"
  unfolding rest_quote_def side_quote_def bid_of_def implied_ask_def Let_def quote_init_def by simp

lemma split_outcome_id_simps:
  "split_outcome_id (t @ '':YES'') = Inr (t, YES)" "split_outcome_id (t @ '':NO'') = Inr (t, NO)"
  by (simp_all add: split_outcome_id_def slug_of_def to_upper_def)

text \<open>
  C38: The two Kalshi adapters give the same quotes: when a snapshot the socket accepted and the reply to
  the poll carry the same ladders, with each price once, one round of polling both outcomes of the market
  yields exactly the quotes the socket gave, prices and depth alike.
\<close>

theorem socket_and_poll_agree:
  assumes "handle_message (OrderbookSnapshot t (Some (map Some yes)) (Some (map Some no))) books = (books', Inr qs)"
    and "map_of books t \<noteq> None" "distinct (map fst yes)" "distinct (map fst no)"
    and "get t = Inr (OrderbookFp (Some (map rest_of yes)) (Some (map rest_of no)))"
  shows "kalshi_rest_stream (\<lambda>_. get) [t @ '':YES'', t @ '':NO''] 1 = (qs, None)"
proof -
  from assms(1,2) obtain b y n where y: "ladder (Some (map Some yes)) = Inr y" and n: "ladder (Some (map Some no)) = Inr n"
    and qs: "qs = quotes_for t (b\<lparr>mb_yes := y, mb_no := n\<rparr>)"
    by (auto simp: handle_message_def apply_snapshot_def split: sum.splits option.splits)
  note sides = best_price_dollars_ladder [OF y assms(3)] best_price_dollars_ladder [OF n assms(4)]
  have q: "kalshi_fetch_quote get (t @ '':YES'') = rest_quote (t @ '':YES'') (max_price_and_size y) (max_price_and_size n)"
    "kalshi_fetch_quote get (t @ '':NO'') = rest_quote (t @ '':NO'') (max_price_and_size n) (max_price_and_size y)"
    by (simp_all add: kalshi_fetch_quote_def split_outcome_id_simps assms(5) parse_orderbook_def reply_sides_def sides
        rest_quote_side_quote)
  show ?thesis
    by (simp add: kalshi_rest_stream_def q rest_quote_side_quote qs quotes_for_def Let_def best_yes_def best_no_def
        split: option.splits)
qed

definition ex_books :: kalshi_books where
  "ex_books = [(''T'', empty_market_book)]"

theorem socket_and_poll_agree_witness:
  "\<exists>qs. snd (handle_message (OrderbookSnapshot ''T'' (Some [Some (''0.40'', ''10''), Some (''0.42'', ''5'')])
       (Some [Some (''0.55'', ''7'')])) ex_books) = Inr qs \<and> length qs = 2 \<and>
     kalshi_rest_stream (\<lambda>_ _. Inr (OrderbookFp (Some [Indexed (Some ''0.40'') (Some ''10''), Indexed (Some ''0.42'') (Some ''5'')])
       (Some [Indexed (Some ''0.55'') (Some ''7'')]))) [''T:YES'', ''T:NO''] 1 = (qs, None)"
proof -
  let ?m = "OrderbookSnapshot ''T'' (Some (map Some [(''0.40'', ''10''), (''0.42'', ''5'')])) (Some (map Some [(''0.55'', ''7'')]))"
  have r: "\<exists>books' y n. handle_message ?m ex_books = (books', Inr [y, n])"
    by (simp add: ex_books_def book_rules sample_numbers sample_sums)
  then obtain books' y n where h: "handle_message ?m ex_books = (books', Inr [y, n])" by blast
  have m: "map_of ex_books ''T'' \<noteq> None" by (simp add: ex_books_def)
  from socket_and_poll_agree [OF h m, of "\<lambda>_. Inr (OrderbookFp (Some [Indexed (Some ''0.40'') (Some ''10''),
      Indexed (Some ''0.42'') (Some ''5'')]) (Some [Indexed (Some ''0.55'') (Some ''7'')]))"] h
  show ?thesis by simp
qed

text \<open>The legacy schema, in cents, gives the quotes of the current one for the same ladder.\<close>

lemma dec_round_cents: "0 \<le> c \<Longrightarrow> c \<le> 100 \<Longrightarrow> dec_round (of_int c / 100) = of_int c / (100 :: rat)"
proof -
  assume c: "0 \<le> c" "c \<le> 100"
  have "of_int c / 100 = of_int c * powz 10 (-2)" by (simp add: powz_def)
  then have "dec_rep (of_int c / 100)" unfolding dec_rep_form using c by (intro exI [of _ c] exI [of _ "-2"]) auto
  then show ?thesis by (rule dec_round_rep)
qed

abbreviation in_dollars :: "(int \<times> rat) option \<Rightarrow> (rat \<times> rat) option" where
  "in_dollars \<equiv> map_option (\<lambda>(c, sz). (of_int c / 100, sz))"

lemma best_level_cents:
  assumes "\<forall>(c, tx, sz) \<in> set ls. decimal_text tx = Some (of_int c / 100)"
  shows "best_level decimal_text (in_dollars best) (map (\<lambda>(c, tx, sz). Indexed (Some tx) sz) ls) =
    bindE (best_level Some best (map (\<lambda>(c, tx, sz). Indexed (Some c) sz) ls)) (\<lambda>b. Inr (in_dollars b))"
  using assms
proof (induction ls arbitrary: best)
  case (Cons l ls)
  obtain c tx sz where l: "l = (c, tx, sz)" by (cases l)
  have "(case in_dollars best of None \<Rightarrow> Some (of_int c / 100, level_size sz)
      | Some (y, s) \<Rightarrow> if y < of_int c / 100 then Some (of_int c / 100, level_size sz) else Some (y, s)) =
    in_dollars (case best of None \<Rightarrow> Some (c, level_size sz)
      | Some (y, s) \<Rightarrow> if y < c then Some (c, level_size sz) else Some (y, s))"
    by (cases best) (auto simp: divide_less_cancel)
  with Cons l show ?case by simp
qed simp

lemma best_level_in:
  fixes best :: "(int \<times> rat) option"
  shows "best_level Some best ls = Inr (Some (c, sz)) \<Longrightarrow> best = Some (c, sz) \<or> (\<exists>s. Indexed (Some c) s \<in> set ls)"
proof (induction ls arbitrary: best)
  case (Cons l ls)
  show ?case
  proof (cases l)
    case (Indexed p s)
    with Cons show ?thesis by (cases p) (fastforce split: option.splits if_splits prod.splits)+
  qed (use Cons in simp)
qed simp

lemma best_price_schemas:
  assumes "\<forall>(c, tx, sz) \<in> set ls. decimal_text tx = Some (of_int c / 100) \<and> 0 \<le> c \<and> c \<le> 100"
  shows "best_price_cents (Some (map (\<lambda>(c, tx, sz). Indexed (Some c) sz) ls)) =
    best_price_dollars (Some (map (\<lambda>(c, tx, sz). Indexed (Some tx) sz) ls))"
proof -
  have "\<forall>(c, tx, sz) \<in> set ls. decimal_text tx = Some (of_int c / 100)" using assms by auto
  from best_level_cents [OF this, of None] show ?thesis
    using best_level_in [of None "map (\<lambda>(c, tx, sz). Indexed (Some c) sz) ls"] assms
    by (cases "best_level Some None (map (\<lambda>(c, tx, sz). Indexed (Some c) sz) ls)")
      (fastforce simp: best_price_cents_def best_price_dollars_def ddiv_def dec_round_cents split: option.splits)+
qed

theorem schemas_agree:
  assumes "\<forall>(c, tx, sz) \<in> set yes \<union> set no. decimal_text tx = Some (of_int c / 100) \<and> 0 \<le> c \<and> c \<le> 100"
  shows "parse_orderbook oid sd (OrderbookCents (Some (map (\<lambda>(c, tx, sz). Indexed (Some c) sz) yes))
      (Some (map (\<lambda>(c, tx, sz). Indexed (Some c) sz) no))) =
    parse_orderbook oid sd (OrderbookFp (Some (map (\<lambda>(c, tx, sz). Indexed (Some tx) sz) yes))
      (Some (map (\<lambda>(c, tx, sz). Indexed (Some tx) sz) no)))"
  using best_price_schemas [of yes] best_price_schemas [of no] assms
  by (simp add: parse_orderbook_def reply_sides_def ball_Un)

subsection \<open>What a poller yields\<close>

text \<open>
  What the three streams share: a fetch that gives well-formed quotes of what it was asked for and raises
  nothing. The stream then gives such quotes only and never ends by an exception.
\<close>

locale poller =
  fixes fetch :: "nat \<Rightarrow> 'k \<Rightarrow> quote list res" and belongs :: "'k \<Rightarrow> quote \<Rightarrow> bool"
  assumes fetched: "fetch n k = Inr qs \<Longrightarrow> q \<in> set qs \<Longrightarrow> quote_ok q \<and> belongs k q"
begin

lemma round_wf: "poll_round (fetch n) ks = (qs, r) \<Longrightarrow> q \<in> set qs \<Longrightarrow> quote_ok q \<and> (\<exists>k \<in> set ks. belongs k q)"
proof (induction ks arbitrary: qs r)
  case (Cons k ks)
  show ?case
  proof (cases "fetch n k")
    case (Inr qs1)
    obtain qs2 r2 where 2: "poll_round (fetch n) ks = (qs2, r2)" by (cases "poll_round (fetch n) ks")
    with Cons.prems Inr have "q \<in> set qs1 \<or> q \<in> set qs2" by auto
    then show ?thesis using fetched [OF Inr, of q] Cons.IH [OF 2] by auto
  qed (use Cons.prems in simp)
qed simp

lemma rounds_wf: "poll_rounds fetch ks n = (qs, r) \<Longrightarrow> q \<in> set qs \<Longrightarrow> quote_ok q \<and> (\<exists>k \<in> set ks. belongs k q)"
proof (induction n arbitrary: qs r)
  case (Suc n)
  obtain qs1 r1 where 1: "poll_rounds fetch ks n = (qs1, r1)" by (cases "poll_rounds fetch ks n")
  show ?case
  proof (cases r1)
    case None
    obtain qs2 r2 where 2: "poll_round (fetch n) ks = (qs2, r2)" by (cases "poll_round (fetch n) ks")
    with 1 None Suc.prems have "q \<in> set qs1 \<or> q \<in> set qs2" by auto
    then show ?thesis using Suc.IH [OF 1] round_wf [OF 2] by blast
  qed (use 1 Suc in auto)
qed simp

end

lemma round_survives: "\<forall>k \<in> set ks. \<exists>qs. fetch k = Inr qs \<Longrightarrow> \<exists>qs. poll_round fetch ks = (qs, None)"
  by (induction ks) (auto split: sum.splits prod.splits)

lemma rounds_survive: "\<forall>n. \<forall>k \<in> set ks. \<exists>qs. fetch n k = Inr qs \<Longrightarrow> \<exists>qs. poll_rounds fetch ks n = (qs, None)"
proof (induction n)
  case (Suc n)
  then obtain qs1 qs2 where "poll_rounds fetch ks n = (qs1, None)" "poll_round (fetch n) ks = (qs2, None)"
    using round_survives [of ks "fetch n"] by auto
  then show ?case by simp
qed simp

abbreviation kalshi_fetch :: "(string \<Rightarrow> order_reply res) \<Rightarrow> string \<Rightarrow> quote list res" where
  "kalshi_fetch get oid \<equiv> bindE (kalshi_fetch_quote get oid) (\<lambda>q. Inr (case q of None \<Rightarrow> [] | Some q \<Rightarrow> [q]))"

lemma side_quote_ok: "side_quote oid b a bs as = Some q \<Longrightarrow> quote_ok q \<and> q_outcome_id q = oid"
  by (auto simp: side_quote_def split: sum.splits dest!: quote_init_ok)

lemma parse_orderbook_ok: "parse_orderbook oid sd body = Inr (Some q) \<Longrightarrow> quote_ok q \<and> q_outcome_id q = oid"
  by (cases sd) (auto simp: parse_orderbook_def res_simps rest_quote_side_quote side_quote_ok split: prod.splits option.splits)

lemma kalshi_fetch_quote_ok: "kalshi_fetch_quote get oid = Inr (Some q) \<Longrightarrow> quote_ok q \<and> q_outcome_id q = oid"
  by (auto simp: kalshi_fetch_quote_def res_simps split: option.splits prod.splits dest: parse_orderbook_ok)

interpretation kalshi_poll: poller "\<lambda>n. kalshi_fetch (get n)" "\<lambda>oid q. q_outcome_id q = oid"
  for get :: "nat \<Rightarrow> string \<Rightarrow> order_reply res"
  by unfold_locales (auto simp: res_simps split: option.splits dest: kalshi_fetch_quote_ok)

lemma pair_to_quotes_ok:
  "q \<in> set (pair_to_quotes slug b a bs as age) \<Longrightarrow> quote_ok q \<and> q_outcome_id q \<in> {slug @ '':LONG'', slug @ '':SHORT''}"
  by (auto simp: pair_to_quotes_def Let_def split: if_splits sum.splits dest!: quote_init_ok [OF sym])

interpretation pm_poll: poller "\<lambda>n. pm_fetch_quotes (get n)" "\<lambda>slug q. q_outcome_id q \<in> {slug @ '':LONG'', slug @ '':SHORT''}"
  for get :: "nat \<Rightarrow> string \<Rightarrow> (string option \<times> string option) option res"
  by unfold_locales
    (auto simp: pm_fetch_quotes_def res_simps quotes_from_bbo_def split: option.splits prod.splits dest: pair_to_quotes_ok)

lemma mapE_in: "mapE f xs = Inr ys \<Longrightarrow> y \<in> set ys \<Longrightarrow> \<exists>x \<in> set xs. f x = Inr y"
  by (induction xs arbitrary: ys) (auto simp: res_simps)

definition dk_quote_of :: "quote \<Rightarrow> bool" where
  "dk_quote_of q \<longleftrightarrow> (\<exists>ev mid i. q_outcome_id q = dk_outcome_id ev mid i) \<and> bid q = ask q"

lemma dk_quote_ok: "dk_quote ev m x = Inr qs \<Longrightarrow> q \<in> set qs \<Longrightarrow> quote_ok q \<and> dk_quote_of q"
proof -
  assume h: "dk_quote ev m x = Inr qs" "q \<in> set qs"
  obtain i sel where x: "x = (i, sel)" by (cases x)
  from h obtain p where "quote_init \<lparr>q_outcome_id = dk_outcome_id (dk_event_id ev) (dk_market_id m) i, bid = p, ask = p,
      bid_size = None, ask_size = None, source_age_s = None\<rparr> = Inr q"
    by (auto simp: dk_quote_def x bindE_Inr_iff split: option.splits)
  from quote_init_ok [OF this] show ?thesis by (auto simp: dk_quote_of_def)
qed

lemma dk_walk_in: "y \<in> set (dk_walk f events) \<Longrightarrow> \<exists>ev m x. y = f ev m x"
  by (auto simp: dk_walk_def)

interpretation dk_poll: poller "\<lambda>n. dk_fetch_quotes (get n)" "\<lambda>_. dk_quote_of"
  for get :: "nat \<Rightarrow> string \<Rightarrow> dk_event list res"
proof unfold_locales
  fix n league qs q assume "dk_fetch_quotes (get n) league = Inr qs" and q: "q \<in> set qs"
  then obtain events qss where qss: "mapE id (dk_walk dk_quote events) = Inr qss" "qs = concat qss"
    by (auto simp: dk_fetch_quotes_def res_simps)
  with q obtain qs1 where "qs1 \<in> set qss" "q \<in> set qs1" by auto
  with mapE_in [OF qss(1)] dk_walk_in [of _ dk_quote events] dk_quote_ok show "quote_ok q \<and> dk_quote_of q"
    by (metis id_apply)
qed

text \<open>DraftKings odds always make a probability or a ValueError, so no selection stops the poll.\<close>

lemma implied_prob_unit: "american_to_implied_prob n = Inr p \<Longrightarrow> 0 \<le> p \<and> p \<le> 1"
proof -
  assume "american_to_implied_prob n = Inr p"
  then obtain d where d: "1 < d" "p = dec_round (1 / d)"
    by (auto simp: american_to_implied_prob_def decimal_to_implied_prob_def res_simps not_le split: if_splits)
  have "dec_round 1 = 1" using dec_round_rep [OF dec_rep_1] .
  from dec.le_fixed [OF this, of "1 / d"] dec.nonneg [of "1 / d"] d show ?thesis by simp
qed

lemma american_errors: "american_to_implied_prob n = Inl e \<Longrightarrow> e = ValueError"
  by (auto simp: american_to_implied_prob_def american_to_decimal_def decimal_to_implied_prob_def ddiv_def res_simps
      split: if_splits)

lemma dk_quote_total: "\<exists>qs. dk_quote ev m x = Inr qs"
proof -
  obtain i sel where x: "x = (i, sel)" by (cases x)
  show ?thesis
  proof (cases "dk_american sel")
    case (Some tx)
    show ?thesis
    proof (cases "py_int tx")
      case (Some n)
      show ?thesis
      proof (cases "american_to_implied_prob n")
        case (Inl e)
        with american_errors [OF Inl] x Some \<open>dk_american sel = Some tx\<close> show ?thesis by (simp add: dk_quote_def)
      next
        case (Inr p)
        with implied_prob_unit [OF Inr] x Some \<open>dk_american sel = Some tx\<close> show ?thesis
          by (simp add: dk_quote_def quote_init_def)
      qed
    qed (use x Some in \<open>simp add: dk_quote_def\<close>)
  qed (use x in \<open>simp add: dk_quote_def\<close>)
qed

lemma mapE_total: "\<forall>x \<in> set xs. \<exists>y. f x = Inr y \<Longrightarrow> \<exists>ys. mapE f xs = Inr ys"
  by (induction xs) auto

lemma dk_walk_total: "\<exists>qss. mapE id (dk_walk dk_quote events) = Inr qss"
  by (rule mapE_total) (metis dk_walk_in dk_quote_total id_apply)

lemma best_level_errors: "best_level read best ls = Inl e \<Longrightarrow> e = KeyError"
  by (induction read best ls rule: best_level.induct) (auto split: option.splits)

lemma best_price_errors:
  "best_price_dollars levels = Inl e \<Longrightarrow> e = KeyError" "best_price_cents cents = Inl e \<Longrightarrow> e = KeyError"
  by (auto simp: best_price_dollars_def best_price_cents_def ddiv_def res_simps split: option.splits dest: best_level_errors)

lemma reply_sides_errors: "reply_sides body = Inl e \<Longrightarrow> e = KeyError"
  by (cases body) (auto simp: reply_sides_def res_simps dest: best_price_errors)

lemma parse_orderbook_total: "\<exists>q. parse_orderbook oid sd body = Inr q"
  using reply_sides_errors [of body]
  by (cases "reply_sides body"; cases sd) (auto simp: parse_orderbook_def rest_quote_side_quote split: prod.splits)

definition tolerated :: "py_exc list \<Rightarrow> (nat \<Rightarrow> 'k \<Rightarrow> 'b res) \<Rightarrow> bool" where
  "tolerated excs get \<longleftrightarrow> (\<forall>n k e. get n k = Inl e \<longrightarrow> e \<in> set excs)"

lemma kalshi_fetch_total:
  assumes "tolerated [HTTPError, ValueError, KeyError] get" shows "\<exists>qs. kalshi_fetch (get n) oid = Inr qs"
proof (cases "split_outcome_id oid")
  case (Inl e)
  then show ?thesis by (auto simp: kalshi_fetch_quote_def split_outcome_id_def split: if_splits)
next
  case (Inr x)
  obtain t sd where x: "x = (t, sd)" by (cases x)
  show ?thesis
  proof (cases "get n t")
    case (Inl e)
    with assms Inr x show ?thesis by (auto simp: kalshi_fetch_quote_def tolerated_def)
  next
    case (Inr body)
    obtain q where "parse_orderbook oid sd body = Inr q" using parse_orderbook_total by blast
    with Inr x \<open>split_outcome_id oid = Inr x\<close> show ?thesis by (simp add: kalshi_fetch_quote_def)
  qed
qed

lemma pm_fetch_total:
  assumes "tolerated [HTTPError, ValueError] get" shows "\<exists>qs. pm_fetch_quotes (get n) slug = Inr qs"
  using assms by (cases "get n slug") (auto simp: pm_fetch_quotes_def tolerated_def)

lemma dk_fetch_total:
  assumes "tolerated [HTTPError] get" shows "\<exists>qs. dk_fetch_quotes (get n) league = Inr qs"
proof (cases "get n league")
  case (Inl e)
  with assms dk_walk_total [of "[]"] show ?thesis by (auto simp: dk_fetch_quotes_def tolerated_def)
next
  case (Inr events)
  obtain qss where "mapE id (dk_walk dk_quote events) = Inr qss" using dk_walk_total by blast
  with Inr show ?thesis by (simp add: dk_fetch_quotes_def)
qed

lemma slug_of_side: "slug_of (t @ '':LONG'') = t" "slug_of (t @ '':SHORT'') = t"
  by (simp_all add: slug_of_def)

text \<open>
  A polling stream yields only well-formed quotes of what it was built for (Kalshi: the outcome asked
  for; Polymarket US: a side of a market among its outcomes; DraftKings: one price for both sides), and a
  reply that fails the way requests fail (transport errors, and for the two exchanges bodies that do not
  parse) skips that market instead of ending the stream.
\<close>

theorem polls_yield_valid_quotes:
  assumes "kalshi_rest_stream gk oids n = (ks, rk)" "pm_rest_stream gp oids n = (ps, rp)"
    and "dk_stream gd leagues n = (ds, rd)"
  shows "(\<forall>q \<in> set ks. quote_ok q \<and> q_outcome_id q \<in> set oids) \<and>
    (\<forall>q \<in> set ps. quote_ok q \<and> slug_of (q_outcome_id q) \<in> slug_of ` set oids) \<and>
    (\<forall>q \<in> set ds. quote_ok q \<and> bid q = ask q) \<and>
    (tolerated [HTTPError, ValueError, KeyError] gk \<longrightarrow> rk = None) \<and>
    (tolerated [HTTPError, ValueError] gp \<longrightarrow> rp = None) \<and> (tolerated [HTTPError] gd \<longrightarrow> rd = None)"
proof (intro conjI)
  show "\<forall>q \<in> set ks. quote_ok q \<and> q_outcome_id q \<in> set oids"
    using kalshi_poll.rounds_wf [of gk oids n ks rk] assms(1) by (auto simp: kalshi_rest_stream_def split: if_splits)
  show "\<forall>q \<in> set ps. quote_ok q \<and> slug_of (q_outcome_id q) \<in> slug_of ` set oids"
    using pm_poll.rounds_wf [of gp "rest_slugs oids" n ps rp] assms(2)
    by (fastforce simp: pm_rest_stream_def rest_slugs_def slug_of_side split: if_splits)
  show "\<forall>q \<in> set ds. quote_ok q \<and> bid q = ask q"
    using dk_poll.rounds_wf [of gd leagues n ds rd] assms(3) by (auto simp: dk_stream_def dk_quote_of_def split: if_splits)
  show "tolerated [HTTPError, ValueError, KeyError] gk \<longrightarrow> rk = None"
    using rounds_survive [of oids "\<lambda>n. kalshi_fetch (gk n)" n] kalshi_fetch_total assms(1)
    by (auto simp: kalshi_rest_stream_def split: if_splits)
  show "tolerated [HTTPError, ValueError] gp \<longrightarrow> rp = None"
    using rounds_survive [of "rest_slugs oids" "\<lambda>n. pm_fetch_quotes (gp n)" n] pm_fetch_total assms(2)
    by (auto simp: pm_rest_stream_def split: if_splits)
  show "tolerated [HTTPError] gd \<longrightarrow> rd = None"
    using rounds_survive [of leagues "\<lambda>n. dk_fetch_quotes (gd n)" n] dk_fetch_total assms(3)
    by (auto simp: dk_stream_def split: if_splits)
qed

definition ex_kalshi_replies :: "nat \<Rightarrow> string \<Rightarrow> order_reply res" where
  "ex_kalshi_replies n t = (if n = 0 then Inl HTTPError
     else Inr (OrderbookFp (Some [Indexed (Some ''0.40'') (Some ''10'')]) (Some [Indexed (Some ''0.55'') None])))"

definition ex_dk_replies :: "nat \<Rightarrow> string \<Rightarrow> dk_event list res" where
  "ex_dk_replies n league = Inr [\<lparr>dk_event_id = ''7'', dk_name = ''A at B'', dk_groups = [[\<lparr>dk_market_id = ''1'',
     dk_selections = [\<lparr>dk_label = Some ''A'', dk_american = Some ''+100''\<rparr>, \<lparr>dk_label = None, dk_american = Some ''EVEN''\<rparr>]\<rparr>]]\<rparr>]"

lemma ex_kalshi_stream:
  "kalshi_rest_stream ex_kalshi_replies [''T:YES''] 2 =
     ([\<lparr>q_outcome_id = ''T:YES'', bid = 2/5, ask = 9/20, bid_size = Some 10, ask_size = Some 0, source_age_s = None\<rparr>], None)"
  by (simp add: kalshi_rest_stream_def numeral_2_eq_2 ex_kalshi_replies_def kalshi_fetch_quote_def split_outcome_id_def
      slug_of_def to_upper_def parse_orderbook_def reply_sides_def best_price_dollars_def decimal_text_def sample_numbers
      level_size_def rest_quote_def Let_def quote_init_def sample_sums)

lemma ex_dk_stream:
  "dk_stream ex_dk_replies [''nfl''] 1 =
     ([\<lparr>q_outcome_id = ''dks:7:1:0'', bid = 1/2, ask = 1/2, bid_size = None, ask_size = None, source_age_s = None\<rparr>], None)"
proof -
  have "py_int ''+100'' = Some 100" "py_int ''EVEN'' = None" "american_to_implied_prob 100 = Inr (1/2)"
    by (simp_all add: eval_rules)
  then show ?thesis
    by (simp add: dk_stream_def dk_fetch_quotes_def ex_dk_replies_def dk_walk_def dk_quote_def quote_init_def
        dk_outcome_id_def nat_str.simps)
qed

theorem polls_yield_valid_quotes_witness:
  "\<exists>ks ds. kalshi_rest_stream ex_kalshi_replies [''T:YES''] 2 = (ks, None) \<and> length ks = 1 \<and> (\<forall>q \<in> set ks. quote_ok q) \<and>
     dk_stream ex_dk_replies [''nfl''] 1 = (ds, None) \<and> length ds = 1 \<and> (\<forall>q \<in> set ds. quote_ok q \<and> bid q = ask q)"
proof -
  have p: "pm_rest_stream (\<lambda>_ _. Inr None) [''T:YES''] 2 = ([], None)"
    by (simp add: pm_rest_stream_def numeral_2_eq_2 pm_fetch_quotes_def rest_slugs_def slug_of_def)
  have d: "dk_stream (\<lambda>_. ex_dk_replies 0) [''nfl''] 2 = (let q = \<lparr>q_outcome_id = ''dks:7:1:0'', bid = 1/2, ask = 1/2,
      bid_size = None, ask_size = None, source_age_s = None\<rparr> in ([q, q], None))"
    using ex_dk_stream by (simp add: dk_stream_def numeral_2_eq_2 ex_dk_replies_def Let_def split: sum.splits prod.splits)
  show ?thesis using polls_yield_valid_quotes [OF ex_kalshi_stream p d [unfolded Let_def]] ex_kalshi_stream ex_dk_stream
    by simp
qed

end
