(* ===== verification/Credentials.thy ===== *)
theory Credentials
  imports Rest_Adapters App_State
begin

section \<open>Venue credentials and the adapter they choose\<close>

text \<open>
  The key readers and request headers of \<open>arbys/adapters/kalshi_ws.py\<close> and \<open>polymarket_us_auth.py\<close> and the
  adapter factories of \<open>arbys/backend/state.py\<close>. Third-party cryptography is a parameter: \<open>load_pem\<close> is
  \<open>load_pem_private_key\<close>, \<open>seed_key\<close> is \<open>from_private_bytes\<close> and \<open>sign\<close> a key's signature; \<open>read_file\<close> is the
  text of a path or an error. Bytes are numbers below 256. Base64 and the whitespace of \<open>str.split\<close> are written
  out; a decoded text outside ASCII counts as undecodable, as no PEM holds any, and padding after a complete
  group of four is refused, as the deployed Python does. Messages of exceptions are left out.
\<close>

subsection \<open>Base64\<close>

definition B64_ALPHABET :: string where
  "B64_ALPHABET = ''ABCDEFGHIJKLMNOPQRSTUVWXYZabcdefghijklmnopqrstuvwxyz0123456789+/''"

definition b64_val :: "char \<Rightarrow> nat option" where
  "b64_val c = map_of (zip B64_ALPHABET [0..<64]) c"

definition b64_char :: "nat \<Rightarrow> char" where
  "b64_char n = B64_ALPHABET ! n"

fun b64encode :: "nat list \<Rightarrow> string" where
  "b64encode [] = []"
| "b64encode [a] = [b64_char (a div 4), b64_char (a mod 4 * 16), CHR ''='', CHR ''='']"
| "b64encode [a, b] = [b64_char (a div 4), b64_char (a mod 4 * 16 + b div 16), b64_char (b mod 16 * 4), CHR ''='']"
| "b64encode (a # b # c # bs) = b64_char (a div 4) # b64_char (a mod 4 * 16 + b div 16) #
     b64_char (b mod 16 * 4 + c div 64) # b64_char (c mod 64) # b64encode bs"

definition b64_first :: "nat \<Rightarrow> nat \<Rightarrow> nat" where "b64_first w x = w * 4 + x div 16"
definition b64_second :: "nat \<Rightarrow> nat \<Rightarrow> nat" where "b64_second x y = x mod 16 * 16 + y div 4"
definition b64_third :: "nat \<Rightarrow> nat \<Rightarrow> nat" where "b64_third y z = y mod 4 * 64 + z"

text \<open>Strict decoding: groups of four, padding in the last one only.\<close>

fun b64decode :: "string \<Rightarrow> nat list option" where
  "b64decode [] = Some []"
| "b64decode (p # q # r # s # cs) =
     (if s = CHR ''='' then
        (if cs \<noteq> [] then None
         else if r = CHR ''='' then (case (b64_val p, b64_val q) of (Some w, Some x) \<Rightarrow> Some [b64_first w x] | _ \<Rightarrow> None)
         else (case (b64_val p, b64_val q, b64_val r) of
             (Some w, Some x, Some y) \<Rightarrow> Some [b64_first w x, b64_second x y] | _ \<Rightarrow> None))
      else (case (b64_val p, b64_val q, b64_val r, b64_val s) of
          (Some w, Some x, Some y, Some z) \<Rightarrow>
            map_option (\<lambda>bs. b64_first w x # b64_second x y # b64_third y z # bs) (b64decode cs)
        | _ \<Rightarrow> None))"
| "b64decode _ = None"

text \<open>\<open>decode("utf-8")\<close>, for texts within ASCII.\<close>

definition ascii_text :: "nat list \<Rightarrow> string option" where
  "ascii_text bs = (if list_all (\<lambda>b. b < 128) bs then Some (map char_of bs) else None)"

subsection \<open>Kalshi: reading a PEM\<close>

definition NL :: char where "NL = CHR 0x0A"
definition BACKSLASH :: char where "BACKSLASH = CHR 0x5C"

fun has_sub :: "string \<Rightarrow> string \<Rightarrow> bool" where
  "has_sub sub [] = (sub = [])"
| "has_sub sub (c # s) = (take (length sub) (c # s) = sub \<or> has_sub sub s)"

text \<open>\<open>replace\<close> of a backslash followed by n, and \<open>"".join(s.split())\<close>.\<close>

fun unflatten :: "string \<Rightarrow> string" where
  "unflatten (a # b # s) = (if a = BACKSLASH \<and> b = CHR ''n'' then NL # unflatten s else a # unflatten (b # s))"
| "unflatten s = s"

definition drop_space :: "string \<Rightarrow> string" where
  "drop_space = filter (\<lambda>c. \<not> is_space c)"

definition text_after :: "string \<Rightarrow> string \<Rightarrow> string option" where
  "text_after pre s = (if take (length pre) s = pre then Some (drop (length pre) s) else None)"

fun up_to_marker :: "string \<Rightarrow> string \<Rightarrow> string option" where
  "up_to_marker marker [] = (if marker = [] then Some [] else None)"
| "up_to_marker marker (c # s) = (if take (length marker) (c # s) = marker then Some [] else map_option ((#) c) (up_to_marker marker s))"

definition label_char :: "char \<Rightarrow> bool" where
  "label_char c \<longleftrightarrow> c \<in> set ''ABCDEFGHIJKLMNOPQRSTUVWXYZ ''"

text \<open>
  \<open>_PEM_RE\<close> at the start of a text. The label cannot contain a dash, so it is all that stands before the
  next character that is not a capital or a space; the body ends at the first end marker of that label.
\<close>

definition pem_at :: "string \<Rightarrow> (string \<times> string) option" where
  "pem_at s = Option.bind (text_after ''-----BEGIN '' s) (\<lambda>r. let label = takeWhile label_char r in
     if label = [] then None
     else Option.bind (text_after ''-----'' (dropWhile label_char r))
       (\<lambda>t. map_option (Pair label) (up_to_marker (''-----END '' @ label @ ''-----'') t)))"

fun pem_search :: "string \<Rightarrow> (string \<times> string) option" where
  "pem_search [] = None"
| "pem_search (c # s) = (case pem_at (c # s) of Some r \<Rightarrow> Some r | None \<Rightarrow> pem_search s)"

definition pem_lines :: "string \<Rightarrow> string \<Rightarrow> string list" where
  "pem_lines label body = [''-----BEGIN '' @ label @ ''-----''] @ chunks 64 body @ [''-----END '' @ label @ ''-----'', []]"

fun join_lines :: "string list \<Rightarrow> string" where
  "join_lines [] = []"
| "join_lines [l] = l"
| "join_lines (l # ls) = l @ NL # join_lines ls"

definition repair_pem :: "string \<Rightarrow> string option" where
  "repair_pem data = (case pem_search data of None \<Rightarrow> None | Some (label, raw) \<Rightarrow>
     let body = drop_space raw in if body = [] then None else Some (join_lines (pem_lines label body)))"

datatype key_exc = KeyOSError | KeyValueError | KeyTypeError | KeyOtherError | KeyRuntimeError

datatype 'k pem_key = RSAKey 'k | OtherKey

definition unwrap_pem :: "string \<Rightarrow> string" where
  "unwrap_pem data0 =
     (let data = (if has_sub [BACKSLASH, CHR ''n''] data0 \<and> NL \<notin> set data0 then unflatten data0 else data0)
      in if has_sub ''-----BEGIN'' data then data
         else (case Option.bind (b64decode (drop_space data)) ascii_text of
             None \<Rightarrow> data
           | Some decoded \<Rightarrow> if has_sub ''-----BEGIN'' decoded then decoded else data))"

definition parse_kalshi_pem :: "(string \<Rightarrow> key_exc + 'k pem_key) \<Rightarrow> string \<Rightarrow> key_exc + 'k" where
  "parse_kalshi_pem load_pem data0 =
     (let data = unwrap_pem data0;
          key = (case load_pem data of
              Inl KeyValueError \<Rightarrow> (case repair_pem data of None \<Rightarrow> Inl KeyValueError | Some repaired \<Rightarrow> load_pem repaired)
            | r \<Rightarrow> r)
      in bindE key (\<lambda>k. case k of RSAKey rsa \<Rightarrow> Inr rsa | OtherKey \<Rightarrow> Inl KeyTypeError))"

definition load_kalshi_private_key ::
  "(string \<Rightarrow> key_exc + string) \<Rightarrow> (string \<Rightarrow> key_exc + 'k pem_key) \<Rightarrow> string \<Rightarrow> key_exc + 'k" where
  "load_kalshi_private_key read_file load_pem path = bindE (read_file path) (parse_kalshi_pem load_pem)"

text \<open>A variable that is unset or empty is falsy.\<close>

definition is_set :: "env \<Rightarrow> string \<Rightarrow> bool" where
  "is_set env name \<longleftrightarrow> (case env name of None \<Rightarrow> False | Some v \<Rightarrow> v \<noteq> [])"

definition kalshi_ws_creds_from_env ::
  "(string \<Rightarrow> key_exc + string) \<Rightarrow> (string \<Rightarrow> key_exc + 'k pem_key) \<Rightarrow> env \<Rightarrow> key_exc + (string \<times> 'k) option" where
  "kalshi_ws_creds_from_env read_file load_pem env =
     (let key_id = is_set env ''KALSHI_API_KEY_ID''; inl = is_set env ''KALSHI_PRIVATE_KEY'';
          path = is_set env ''KALSHI_PRIVATE_KEY_PATH''
      in if \<not> key_id \<and> \<not> inl \<and> \<not> path then Inr None
         else if \<not> key_id then Inl KeyRuntimeError
         else if \<not> inl \<and> \<not> path then Inl KeyRuntimeError
         else (case (if inl then parse_kalshi_pem load_pem (the (env ''KALSHI_PRIVATE_KEY''))
                     else load_kalshi_private_key read_file load_pem (the (env ''KALSHI_PRIVATE_KEY_PATH''))) of
             Inl _ \<Rightarrow> Inl KeyRuntimeError
           | Inr k \<Rightarrow> Inr (Some (the (env ''KALSHI_API_KEY_ID''), k))))"

subsection \<open>Polymarket US: secret key and headers\<close>

definition ED25519_SEED_BYTES :: nat where
  "ED25519_SEED_BYTES = 32"

definition load_secret_key :: "(nat list \<Rightarrow> 'k) \<Rightarrow> string \<Rightarrow> key_exc + 'k" where
  "load_secret_key seed_key secret_b64 = (case b64decode (strip secret_b64) of
     None \<Rightarrow> Inl KeyValueError
   | Some raw \<Rightarrow> if length raw < ED25519_SEED_BYTES then Inl KeyValueError
       else Inr (seed_key (take ED25519_SEED_BYTES raw)))"

definition signing_message :: "string \<Rightarrow> string \<Rightarrow> string \<Rightarrow> string" where
  "signing_message timestamp_ms method path = timestamp_ms @ to_upper method @ path"

definition auth_headers ::
  "('k \<Rightarrow> string \<Rightarrow> nat list) \<Rightarrow> string \<times> 'k \<Rightarrow> string \<Rightarrow> string \<Rightarrow> nat \<Rightarrow> (string, string) dict" where
  "auth_headers sign creds method path timestamp_ms =
     (let ts = nat_str timestamp_ms; message = signing_message ts method path
      in [(''X-PM-Access-Key'', fst creds), (''X-PM-Timestamp'', ts),
          (''X-PM-Signature'', b64encode (sign (snd creds) message)), (''Content-Type'', ''application/json'')])"

definition pm_creds_from_env ::
  "(string \<Rightarrow> key_exc + string) \<Rightarrow> (nat list \<Rightarrow> 'k) \<Rightarrow> env \<Rightarrow> key_exc + (string \<times> 'k) option" where
  "pm_creds_from_env read_file seed_key env =
     (let key_id = is_set env ''POLYMARKET_US_API_KEY_ID''; inl = is_set env ''POLYMARKET_US_PRIVATE_KEY'';
          path = is_set env ''POLYMARKET_US_PRIVATE_KEY_PATH''
      in if \<not> key_id \<and> \<not> inl \<and> \<not> path then Inr None
         else if \<not> key_id then Inl KeyRuntimeError
         else if \<not> inl \<and> \<not> path then Inl KeyRuntimeError
         else (case bindE (if inl then Inr (the (env ''POLYMARKET_US_PRIVATE_KEY''))
                           else read_file (the (env ''POLYMARKET_US_PRIVATE_KEY_PATH''))) (load_secret_key seed_key) of
             Inl e \<Rightarrow> Inl (if e = KeyOSError \<or> e = KeyValueError then KeyRuntimeError else e)
           | Inr k \<Rightarrow> Inr (Some (the (env ''POLYMARKET_US_API_KEY_ID''), k))))"

text \<open>The headers of the Kalshi handshake; the padding of its signature belongs to \<open>sign\<close>.\<close>

definition kalshi_auth_headers :: "('k \<Rightarrow> string \<Rightarrow> nat list) \<Rightarrow> string \<Rightarrow> 'k \<Rightarrow> string \<Rightarrow> nat \<Rightarrow> (string, string) dict" where
  "kalshi_auth_headers sign key_id key path now_ms =
     (let ts = nat_str now_ms
      in [(''KALSHI-ACCESS-KEY'', key_id), (''KALSHI-ACCESS-TIMESTAMP'', ts),
          (''KALSHI-ACCESS-SIGNATURE'', b64encode (sign key (ts @ ''GET'' @ path)))])"

subsection \<open>Adapter factories\<close>

datatype ('k, 'p) venue_adapter =
    KalshiWebSocketAdapter "string list" string 'k
  | KalshiAdapter "string list"
  | PolymarketUsWebSocketAdapter "string list" "string \<times> 'p" int pynum pynum
  | PolymarketUsAdapter "string list" pynum

text \<open>
  A factory answers an adapter or raises. \<open>DraftKingsAdapter\<close> takes no \<open>outcome_ids\<close>, so building it by that
  keyword raises a TypeError.
\<close>

definition default_adapter_factories ::
  "(string \<Rightarrow> key_exc + string) \<Rightarrow> (string \<Rightarrow> key_exc + 'k pem_key) \<Rightarrow> (nat list \<Rightarrow> 'p) \<Rightarrow> env \<Rightarrow>
   key_exc + (string, string list \<Rightarrow> key_exc + ('k, 'p) venue_adapter) dict" where
  "default_adapter_factories read_file load_pem seed_key env =
     bindE (kalshi_ws_creds_from_env read_file load_pem env) (\<lambda>kalshi_creds.
       Inr ([(''polymarket_us'', \<lambda>oids. bindE (pm_creds_from_env read_file seed_key env) (\<lambda>creds. Inr (case creds of
               Some c \<Rightarrow> PolymarketUsWebSocketAdapter oids c (polymarket_us_ws_shard_size env)
                 (polymarket_us_dark_after_s env) (polymarket_us_priority_dark_after_s env)
             | None \<Rightarrow> PolymarketUsAdapter oids (polymarket_us_poll_s env)))),
            (''kalshi'', \<lambda>oids. Inr (case kalshi_creds of
               Some (key_id, key) \<Rightarrow> KalshiWebSocketAdapter oids key_id key | None \<Rightarrow> KalshiAdapter oids))] @
            (if draftkings_enabled env then [(''draftkings'', \<lambda>oids. Inl KeyTypeError)] else [])))"

definition adapter_mode :: "('k, 'p) venue_adapter \<Rightarrow> string" where
  "adapter_mode a = (case a of KalshiWebSocketAdapter _ _ _ \<Rightarrow> ''websocket'' | PolymarketUsWebSocketAdapter _ _ _ _ _ \<Rightarrow> ''websocket''
     | _ \<Rightarrow> ''rest'')"

subsection \<open>Base64 decodes what it encoded\<close>

lemma alphabet_facts: "distinct B64_ALPHABET" "length B64_ALPHABET = 64" "CHR ''='' \<notin> set B64_ALPHABET"
  by (simp_all add: B64_ALPHABET_def)

lemma b64_val_char: "n < 64 \<Longrightarrow> b64_val (b64_char n) = Some n"
proof -
  assume n: "n < 64"
  have "(B64_ALPHABET ! n, [0..<64] ! n) \<in> set (zip B64_ALPHABET [0..<64])"
    unfolding set_zip using n alphabet_facts(2) by auto
  moreover have "distinct (map fst (zip B64_ALPHABET [0..<64]))" by (simp add: alphabet_facts)
  ultimately show ?thesis using n by (simp add: b64_val_def b64_char_def)
qed

lemma b64_char_not_pad: "n < 64 \<Longrightarrow> b64_char n \<noteq> CHR ''=''"
  using alphabet_facts(2,3) unfolding b64_char_def by (metis nth_mem)

lemma sextets:
  assumes "a < 256" "b < 256" "c < (256 :: nat)"
  shows "a div 4 < 64" "a mod 4 * 16 < 64" "a mod 4 * 16 + b div 16 < 64" "b mod 16 * 4 < 64"
    "b mod 16 * 4 + c div 64 < 64" "c mod 64 < 64"
proof -
  have "a div 4 < 64" "b div 16 < 16" "c div 64 < 4" using assms by (simp_all add: less_mult_imp_div_less)
  moreover have "a mod 4 < 4" "b mod 16 < 16" "c mod 64 < 64" by simp_all
  ultimately show "a div 4 < 64" "a mod 4 * 16 < 64" "a mod 4 * 16 + b div 16 < 64" "b mod 16 * 4 < 64"
    "b mod 16 * 4 + c div 64 < 64" "c mod 64 < 64" by linarith+
qed

lemma octets:
  "b < 256 \<Longrightarrow> b64_first (a div 4) (a mod 4 * 16 + b div 16) = a" "b64_first (a div 4) (a mod 4 * 16) = a"
  "b < 256 \<Longrightarrow> c < 256 \<Longrightarrow> b64_second (a mod 4 * 16 + b div 16) (b mod 16 * 4 + c div 64) = b"
  "b < 256 \<Longrightarrow> b64_second (a mod 4 * 16 + b div 16) (b mod 16 * 4) = b"
  "c < 256 \<Longrightarrow> b64_third (b mod 16 * 4 + c div 64) (c mod 64) = c"
proof -
  have lt: "b < 256 \<Longrightarrow> b div 16 < 16" "c < 256 \<Longrightarrow> c div 64 < 4" by (simp_all add: less_mult_imp_div_less)
  have b1: "b < 256 \<Longrightarrow> (a mod 4 * 16 + b div 16) mod 16 = b div 16"
    "b < 256 \<Longrightarrow> (a mod 4 * 16 + b div 16) div 16 = a mod 4" using lt(1) by simp_all
  have c1: "c < 256 \<Longrightarrow> (b mod 16 * 4 + c div 64) div 4 = b mod 16"
    "c < 256 \<Longrightarrow> (b mod 16 * 4 + c div 64) mod 4 = c div 64" using lt(2) by simp_all
  show "b < 256 \<Longrightarrow> b64_first (a div 4) (a mod 4 * 16 + b div 16) = a" "b64_first (a div 4) (a mod 4 * 16) = a"
    "b < 256 \<Longrightarrow> c < 256 \<Longrightarrow> b64_second (a mod 4 * 16 + b div 16) (b mod 16 * 4 + c div 64) = b"
    "b < 256 \<Longrightarrow> b64_second (a mod 4 * 16 + b div 16) (b mod 16 * 4) = b"
    "c < 256 \<Longrightarrow> b64_third (b mod 16 * 4 + c div 64) (c mod 64) = c"
    by (simp_all add: b64_first_def b64_second_def b64_third_def b1 c1)
qed

lemma b64_roundtrip: "list_all (\<lambda>b. b < 256) bs \<Longrightarrow> b64decode (b64encode bs) = Some bs"
proof (induction bs rule: b64encode.induct)
  case (2 a)
  then show ?case using sextets [of a 0 0] by (simp add: octets b64_val_char)
next
  case (3 a b)
  then show ?case using sextets [of a b 0] by (simp add: octets b64_val_char b64_char_not_pad)
next
  case (4 a b c bs)
  then show ?case using sextets [of a b c] by (simp add: octets b64_val_char b64_char_not_pad)
qed simp

lemma b64encode_chars: "list_all (\<lambda>b. b < 256) bs \<Longrightarrow> c \<in> set (b64encode bs) \<Longrightarrow> c \<in> insert CHR ''='' (set B64_ALPHABET)"
proof (induction bs rule: b64encode.induct)
  case (2 a)
  with sextets [of a 0 0] show ?case using nth_mem [of _ B64_ALPHABET] by (auto simp: b64_char_def alphabet_facts)
next
  case (3 a b)
  with sextets [of a b 0] show ?case using nth_mem [of _ B64_ALPHABET] by (auto simp: b64_char_def alphabet_facts)
next
  case (4 a b d bs)
  with sextets [of a b d] show ?case using nth_mem [of _ B64_ALPHABET] by (auto simp: b64_char_def alphabet_facts)
qed simp

subsection \<open>A PEM and the ways it arrives\<close>

definition pem_text :: "string \<Rightarrow> string \<Rightarrow> string" where
  "pem_text label body = join_lines (pem_lines label body)"

definition pem_ok :: "string \<Rightarrow> string \<Rightarrow> bool" where
  "pem_ok label body \<longleftrightarrow> label \<noteq> [] \<and> list_all label_char label \<and> body \<noteq> [] \<and>
     list_all (\<lambda>c. c \<in> set (CHR ''='' # B64_ALPHABET)) body"

text \<open>Every line break replaced by the same text.\<close>

definition subst_nl :: "string \<Rightarrow> string \<Rightarrow> string" where
  "subst_nl w s = concat (map (\<lambda>c. if c = NL then w else [c]) s)"

lemma subst_nl_simps [simp]:
  "subst_nl w [] = []" "subst_nl w (c # s) = (if c = NL then w else [c]) @ subst_nl w s"
  "subst_nl w (s @ t) = subst_nl w s @ subst_nl w t"
  by (simp_all add: subst_nl_def)

lemma subst_nl_id [simp]: "NL \<notin> set s \<Longrightarrow> subst_nl w s = s"
  by (induction s) auto

lemma char_facts:
  "is_space NL" "\<not> is_space BACKSLASH" "NL \<noteq> BACKSLASH" "CHR ''-'' \<noteq> NL" "CHR ''-'' \<noteq> BACKSLASH" "\<not> is_space CHR ''-''"
  "\<not> is_space CHR ''n''" "\<not> label_char CHR ''-''" "BACKSLASH \<noteq> CHR ''n''" "NL \<noteq> CHR ''n''" "NL \<noteq> CHR ''B''"
  by (simp_all add: is_space_def NL_def BACKSLASH_def label_char_def)

lemma body_chars: "list_all (\<lambda>c. \<not> is_space c \<and> c \<noteq> CHR ''-'' \<and> c \<noteq> BACKSLASH \<and> c \<noteq> NL \<and> (of_char c :: nat) < 128)
   (CHR ''='' # B64_ALPHABET)"
  by code_simp

lemma label_chars: "list_all (\<lambda>c. c \<noteq> CHR ''-'' \<and> c \<noteq> BACKSLASH \<and> c \<noteq> NL \<and> (of_char c :: nat) < 128)
   ''ABCDEFGHIJKLMNOPQRSTUVWXYZ ''"
  by code_simp

lemma body_char:
  assumes "c \<in> set (CHR ''='' # B64_ALPHABET)"
  shows "\<not> is_space c" "c \<noteq> CHR ''-''" "c \<noteq> BACKSLASH" "c \<noteq> NL" "(of_char c :: nat) < 128"
  using bspec [OF body_chars [unfolded list_all_iff] assms] by (simp_all only: simp_thms)

lemma label_char_facts:
  assumes "label_char c" shows "c \<noteq> CHR ''-''" "c \<noteq> BACKSLASH" "c \<noteq> NL" "(of_char c :: nat) < 128"
  using bspec [OF label_chars [unfolded list_all_iff] assms [unfolded label_char_def]] by (simp_all only: simp_thms)

abbreviation begin_line :: "string \<Rightarrow> string" where
  "begin_line label \<equiv> ''-----BEGIN '' @ label @ ''-----''"

abbreviation end_line :: "string \<Rightarrow> string" where
  "end_line label \<equiv> ''-----END '' @ label @ ''-----''"

definition wrapped :: "string \<Rightarrow> string" where
  "wrapped body = NL # concat (map (\<lambda>l. l @ [NL]) (chunks 64 body))"

lemma join_lines_framed: "join_lines (l # ls @ [e, []]) = l @ NL # concat (map (\<lambda>l. l @ [NL]) ls) @ e @ [NL]"
  by (induction ls arbitrary: l) auto

lemma pem_text_parts: "pem_text label body = begin_line label @ wrapped body @ end_line label @ [NL]"
  by (simp add: pem_text_def pem_lines_def join_lines_framed wrapped_def)

lemma drop_space_append [simp]: "drop_space (s @ t) = drop_space s @ drop_space t"
  by (simp add: drop_space_def)

lemma drop_space_lines: "drop_space (concat (map (\<lambda>l. l @ [NL]) ls)) = drop_space (concat ls)"
  by (induction ls) (simp_all add: drop_space_def char_facts)

lemma drop_space_wrapped:
  assumes "list_all (\<lambda>c. c \<in> set (CHR ''='' # B64_ALPHABET)) body" shows "drop_space (wrapped body) = body"
proof -
  have "drop_space (wrapped body) = drop_space body"
    using drop_space_lines [of "chunks 64 body"] by (simp add: wrapped_def concat_chunks drop_space_def char_facts)
  also have "\<dots> = body" using assms body_char(1) by (auto simp: drop_space_def list_all_iff filter_id_conv)
  finally show ?thesis .
qed

lemma wrapped_chars: "c \<in> set (wrapped body) \<Longrightarrow> c = NL \<or> c \<in> set body"
proof -
  assume "c \<in> set (wrapped body)"
  then have "c = NL \<or> c \<in> set (concat (chunks 64 body))" by (auto simp: wrapped_def split: if_splits)
  then show ?thesis by (simp add: concat_chunks)
qed

lemma drop_space_subst: "list_all is_space w \<Longrightarrow> drop_space (subst_nl w s) = drop_space s"
  by (induction s) (auto simp: drop_space_def char_facts list_all_iff)

lemma subst_nl_chars: "c \<in> set (subst_nl w s) \<Longrightarrow> c \<in> set w \<or> c \<in> set s"
  by (induction s) (auto split: if_splits)

lemma has_sub_start: "s \<noteq> [] \<Longrightarrow> take (length sub) s = sub \<Longrightarrow> has_sub sub s"
  by (cases s) auto

lemma has_sub_set: "has_sub sub s \<Longrightarrow> set sub \<subseteq> set s"
proof (induction s)
  case (Cons c s)
  then show ?case by (auto dest: in_set_takeD simp del: take_Suc_Cons) (metis in_set_takeD set_ConsD)+
qed simp

lemma has_sub_mid: "sub \<noteq> [] \<Longrightarrow> has_sub sub (pre @ sub @ post)"
  by (induction pre) (auto intro: has_sub_start)

lemma up_to_marker_first:
  "CHR ''-'' \<notin> set raw \<Longrightarrow> up_to_marker (CHR ''-'' # m) (raw @ (CHR ''-'' # m) @ post) = Some raw"
  by (induction raw) auto

lemma pem_at_framed:
  assumes "label \<noteq> []" "list_all label_char label" "CHR ''-'' \<notin> set raw"
  shows "pem_at (begin_line label @ raw @ end_line label @ post) = Some (label, raw)"
proof -
  have "takeWhile label_char (label @ CHR ''-'' # t) = label" "dropWhile label_char (label @ CHR ''-'' # t) = CHR ''-'' # t" for t
    using assms(2) by (simp_all add: char_facts list_all_iff takeWhile_append2 dropWhile_append2)
  moreover have "up_to_marker (end_line label) (raw @ end_line label @ post) = Some raw"
    using up_to_marker_first [OF assms(3), of "''----END '' @ label @ ''-----''" post] by simp
  ultimately show ?thesis using assms(1) by (simp add: pem_at_def text_after_def)
qed

lemma pem_search_framed:
  assumes "label \<noteq> []" "list_all label_char label" "CHR ''-'' \<notin> set raw"
  shows "pem_search (begin_line label @ raw @ end_line label @ post) = Some (label, raw)"
  using pem_at_framed [OF assms, of post] by simp

lemma repair_framed:
  assumes "pem_ok label body" "CHR ''-'' \<notin> set raw" "drop_space raw = body"
  shows "repair_pem (begin_line label @ raw @ end_line label @ post) = Some (pem_text label body)"
  using assms pem_search_framed [of label raw post] by (simp add: repair_pem_def pem_ok_def pem_text_def)

lemma pem_chars:
  assumes "pem_ok label body"
  shows "BACKSLASH \<notin> set (pem_text label body)" "list_all (\<lambda>c. (of_char c :: nat) < 128) (pem_text label body)"
    "NL \<in> set (pem_text label body)" "CHR ''-'' \<notin> set (wrapped body)" "BACKSLASH \<notin> set (wrapped body)"
proof -
  have b: "c \<in> set (wrapped body) \<Longrightarrow> c \<noteq> CHR ''-'' \<and> c \<noteq> BACKSLASH \<and> (of_char c :: nat) < 128" for c
  proof -
    assume "c \<in> set (wrapped body)"
    then consider "c = NL" | "c \<in> set (CHR ''='' # B64_ALPHABET)"
      using wrapped_chars [of c body] assms unfolding pem_ok_def list_all_iff by blast
    then show ?thesis
    proof cases
      case 1
      then show ?thesis by (simp add: NL_def BACKSLASH_def)
    next
      case 2
      from body_char [OF 2] show ?thesis by blast
    qed
  qed
  have l: "c \<in> set label \<Longrightarrow> c \<noteq> BACKSLASH \<and> (of_char c :: nat) < 128" for c
  proof -
    assume "c \<in> set label"
    then have "label_char c" using assms by (simp add: pem_ok_def list_all_iff)
    from label_char_facts [OF this] show ?thesis by blast
  qed
  show "CHR ''-'' \<notin> set (wrapped body)" "BACKSLASH \<notin> set (wrapped body)" using b by blast+
  show "NL \<in> set (pem_text label body)" by (simp add: pem_text_parts)
  have lits: "\<forall>c \<in> set ''-----BEGIN END''. c \<noteq> BACKSLASH \<and> (of_char c :: nat) < 128"
    "NL \<noteq> BACKSLASH \<and> (of_char NL :: nat) < 128"
    by (simp_all add: BACKSLASH_def NL_def)
  have part: "c \<in> set (pem_text label body) \<Longrightarrow> c \<in> set ''-----BEGIN END'' \<or> c = NL \<or> c \<in> set label \<or> c \<in> set (wrapped body)" for c
    unfolding pem_text_parts set_append by (elim UnE; auto)
  have all: "\<forall>c \<in> set (pem_text label body). c \<noteq> BACKSLASH \<and> (of_char c :: nat) < 128"
  proof
    fix c assume "c \<in> set (pem_text label body)"
    from part [OF this] show "c \<noteq> BACKSLASH \<and> (of_char c :: nat) < 128"
      by (elim disjE) (rule bspec [OF lits(1)], assumption, simp only: lits(2) simp_thms, erule l, drule b, elim conjE, intro conjI)
  qed
  then show "BACKSLASH \<notin> set (pem_text label body)" by blast
  from all show "list_all (\<lambda>c. (of_char c :: nat) < 128) (pem_text label body)" by (simp add: list_all_iff)
qed

lemma begins: "has_sub ''-----BEGIN'' (begin_line label @ t)"
  by (rule has_sub_start) simp_all

lemma no_escape: "BACKSLASH \<notin> set s \<Longrightarrow> \<not> has_sub [BACKSLASH, CHR ''n''] s"
  using has_sub_set [of "[BACKSLASH, CHR ''n'']" s] by auto

lemma unflatten_subst: "BACKSLASH \<notin> set s \<Longrightarrow> unflatten (subst_nl [BACKSLASH, CHR ''n''] s) = s"
proof (induction s)
  case (Cons c s)
  show ?case
  proof (cases "c = NL")
    case False
    with Cons show ?thesis by (cases "subst_nl [BACKSLASH, CHR ''n''] s") auto
  qed (use Cons in \<open>simp add: char_facts\<close>)
qed simp

lemma ascii_text_of: "list_all (\<lambda>c. (of_char c :: nat) < 128) s \<Longrightarrow> ascii_text (map of_char s) = Some s"
  by (simp add: ascii_text_def list_all_iff comp_def)

lemma subst_nl_framed: "subst_nl w (a @ r @ e @ [NL]) = subst_nl w a @ subst_nl w r @ subst_nl w e @ w"
  by simp

lemma subst_pem:
  assumes "pem_ok label body"
  shows "subst_nl w (pem_text label body) = begin_line label @ subst_nl w (wrapped body) @ end_line label @ w"
proof -
  have nl: "NL \<notin> set label" using assms label_char_facts(3) unfolding pem_ok_def list_all_iff by blast
  have "NL \<notin> set (begin_line label)" using nl by (simp add: NL_def)
  then have 1: "subst_nl w (begin_line label) = begin_line label" by (rule subst_nl_id)
  have "NL \<notin> set (end_line label)" using nl by (simp add: NL_def)
  then have 2: "subst_nl w (end_line label) = end_line label" by (rule subst_nl_id)
  show ?thesis unfolding pem_text_parts subst_nl_framed 1 2 ..
qed

lemma unwrap_pem_text: "BACKSLASH \<notin> set data \<Longrightarrow> has_sub ''-----BEGIN'' data \<Longrightarrow> unwrap_pem data = data"
  by (simp add: unwrap_pem_def no_escape)

lemma begins_pem: "has_sub ''-----BEGIN'' (pem_text label body)"
  unfolding pem_text_parts by (rule begins)

lemma unwrap_escaped:
  assumes "pem_ok label body"
  shows "unwrap_pem (subst_nl [BACKSLASH, CHR ''n''] (pem_text label body)) = pem_text label body"
proof -
  let ?pem = "pem_text label body" and ?e = "[BACKSLASH, CHR ''n'']"
  have nl: "NL \<notin> set (subst_nl ?e s)" for s by (induction s) (simp_all add: char_facts)
  have "has_sub ?e (subst_nl ?e s)" if "NL \<in> set s" for s
  proof -
    from that obtain a b where "s = a @ NL # b" by (metis split_list)
    then show ?thesis using has_sub_mid [of ?e "subst_nl ?e a" "subst_nl ?e b"] by simp
  qed
  with nl pem_chars(1,3) [OF assms] begins_pem show ?thesis
    by (simp add: unwrap_pem_def unflatten_subst)
qed

lemma unwrap_encoded:
  assumes "pem_ok label body" "drop_space data = b64encode (map of_char (pem_text label body))" "BACKSLASH \<notin> set data"
  shows "unwrap_pem data = pem_text label body"
proof -
  let ?pem = "pem_text label body"
  have bytes: "list_all (\<lambda>b. b < 256) (map of_char ?pem :: nat list)"
    using pem_chars(2) [OF assms(1)] by (fastforce simp: list_all_iff)
  have "CHR ''-'' \<notin> set (drop_space data)"
  proof
    assume "CHR ''-'' \<in> set (drop_space data)"
    then have "CHR ''-'' \<in> set (b64encode (map of_char ?pem))" unfolding assms(2) .
    from b64encode_chars [OF bytes this]
    show False by (simp add: B64_ALPHABET_def)
  qed
  then have "CHR ''-'' \<notin> set data" by (simp add: drop_space_def char_facts)
  then have "\<not> has_sub ''-----BEGIN'' data" using has_sub_set [of "''-----BEGIN''" data] by auto
  then show ?thesis
    using b64_roundtrip [OF bytes] ascii_text_of [OF pem_chars(2) [OF assms(1)]] begins_pem assms(2)
    by (simp add: unwrap_pem_def no_escape [OF assms(3)])
qed

text \<open>
  C40: A Kalshi key loads however the place that held it treated its line breaks: written as backslash-n,
  base64-encoded whole and wrapped anywhere, or with every line break replaced by any run of whitespace
  (nothing, a space, two breaks), as long as the PEM itself loads and the library rejects the mangled text
  as malformed rather than reading another key from it.
\<close>

theorem mangled_key_loads:
  assumes "pem_ok label body" "load_pem (pem_text label body) = Inr (RSAKey k)"
  shows "(data = subst_nl [BACKSLASH, CHR ''n''] (pem_text label body) \<or>
      drop_space data = b64encode (map of_char (pem_text label body)) \<and> BACKSLASH \<notin> set data \<longrightarrow>
        parse_kalshi_pem load_pem data = Inr k) \<and>
    (data = subst_nl w (pem_text label body) \<and> list_all is_space w \<and>
        load_pem data \<in> {Inl KeyValueError, Inr (RSAKey k)} \<longrightarrow> parse_kalshi_pem load_pem data = Inr k)"
proof (intro conjI impI)
  assume "data = subst_nl [BACKSLASH, CHR ''n''] (pem_text label body) \<or>
      drop_space data = b64encode (map of_char (pem_text label body)) \<and> BACKSLASH \<notin> set data"
  then have "unwrap_pem data = pem_text label body" using unwrap_escaped unwrap_encoded assms(1) by blast
  with assms(2) show "parse_kalshi_pem load_pem data = Inr k" by (simp add: parse_kalshi_pem_def)
next
  assume h: "data = subst_nl w (pem_text label body) \<and> list_all is_space w \<and> load_pem data \<in> {Inl KeyValueError, Inr (RSAKey k)}"
  then have w: "CHR ''-'' \<notin> set w" "BACKSLASH \<notin> set w" by (auto simp: list_all_iff char_facts)
  have data: "data = begin_line label @ subst_nl w (wrapped body) @ end_line label @ w" using h subst_pem [OF assms(1)] by simp
  have "BACKSLASH \<notin> set data" using h subst_nl_chars pem_chars(1) [OF assms(1)] w(2) by blast
  moreover have "has_sub ''-----BEGIN'' data" unfolding data by (rule begins)
  ultimately have u: "unwrap_pem data = data" by (rule unwrap_pem_text)
  have "CHR ''-'' \<notin> set (subst_nl w (wrapped body))"
    using subst_nl_chars pem_chars(4) [OF assms(1)] w(1) by blast
  moreover have "drop_space (subst_nl w (wrapped body)) = body"
    using drop_space_subst [of w "wrapped body"] drop_space_wrapped [of body] h assms(1) by (simp add: pem_ok_def)
  ultimately have "repair_pem data = Some (pem_text label body)" unfolding data by (rule repair_framed [OF assms(1)])
  with u h assms(2) show "parse_kalshi_pem load_pem data = Inr k" by (auto simp: parse_kalshi_pem_def)
qed

text \<open>
  A line break after the written-out ones, as an editor or \<open>echo\<close> leaves at the end of a file, keeps them
  from being read as line breaks: what reaches the library still holds a backslash.
\<close>

theorem escaped_key_with_newline_refused:
  assumes "pem_ok label body" "\<forall>t. BACKSLASH \<in> set t \<longrightarrow> load_pem t = Inl KeyValueError"
  shows "parse_kalshi_pem load_pem (subst_nl [BACKSLASH, CHR ''n''] (pem_text label body) @ [NL]) = Inl KeyValueError"
proof -
  let ?e = "[BACKSLASH, CHR ''n'']"
  let ?raw = "subst_nl ?e (wrapped body)"
  let ?data = "begin_line label @ ?raw @ end_line label @ ?e @ [NL]"
  have data: "subst_nl ?e (pem_text label body) @ [NL] = ?data" unfolding subst_pem [OF assms(1)] by simp
  have "has_sub ''-----BEGIN'' ?data" by (rule begins)
  then have u: "unwrap_pem ?data = ?data" by (simp add: unwrap_pem_def)
  have dash: "CHR ''-'' \<notin> set ?raw"
    using subst_nl_chars [of "CHR ''-''" ?e "wrapped body"] pem_chars(4) [OF assms(1)] char_facts(5) by auto
  have "BACKSLASH \<in> set ?raw" by (simp add: wrapped_def)
  then have bs: "BACKSLASH \<in> set (drop_space ?raw)" by (simp add: drop_space_def char_facts)
  have "pem_search ?data = Some (label, ?raw)"
    by (rule pem_search_framed) (use assms(1) dash in \<open>simp_all add: pem_ok_def\<close>)
  moreover have "BACKSLASH \<in> set (join_lines (pem_lines label (drop_space ?raw)))"
  proof -
    have "BACKSLASH \<in> set (concat (chunks 64 (drop_space ?raw)))" using bs by (simp add: concat_chunks)
    then obtain l where l: "l \<in> set (chunks 64 (drop_space ?raw))" "BACKSLASH \<in> set l" by auto
    have "join_lines (pem_lines label b) = begin_line label @ NL # concat (map (\<lambda>l. l @ [NL]) (chunks 64 b)) @ end_line label @ [NL]"
      for b using pem_text_parts [of label b] by (simp add: pem_text_def wrapped_def)
    then show ?thesis using l by fastforce
  qed
  ultimately show ?thesis unfolding data using u assms(2) bs
    by (auto simp: parse_kalshi_pem_def repair_pem_def Let_def)
qed

subsection \<open>Which adapter a venue gets\<close>

definition any_set :: "env \<Rightarrow> string list \<Rightarrow> bool" where
  "any_set env names \<longleftrightarrow> list_ex (is_set env) names"

definition KALSHI_VARS :: "string list" where
  "KALSHI_VARS = [''KALSHI_API_KEY_ID'', ''KALSHI_PRIVATE_KEY'', ''KALSHI_PRIVATE_KEY_PATH'']"

definition POLYMARKET_VARS :: "string list" where
  "POLYMARKET_VARS = [''POLYMARKET_US_API_KEY_ID'', ''POLYMARKET_US_PRIVATE_KEY'', ''POLYMARKET_US_PRIVATE_KEY_PATH'']"

lemma kalshi_creds_cases:
  "(kalshi_ws_creds_from_env rf lp env = Inr None \<longleftrightarrow> \<not> any_set env KALSHI_VARS) \<and>
   kalshi_ws_creds_from_env rf lp env \<in> {Inr None, Inl KeyRuntimeError} \<union> range (Inr \<circ> Some)"
  by (auto simp: kalshi_ws_creds_from_env_def Let_def any_set_def KALSHI_VARS_def split: sum.split)

lemma pm_creds_none: "pm_creds_from_env rf sk env = Inr None \<longleftrightarrow> \<not> any_set env POLYMARKET_VARS"
  by (auto simp: pm_creds_from_env_def Let_def any_set_def POLYMARKET_VARS_def split: sum.split)


text \<open>With DraftKings enabled its factory exists and raises for any outcomes it is given.\<close>

theorem draftkings_factory_raises:
  assumes "default_adapter_factories read_file load_pem seed_key env = Inr fs" "draftkings_enabled env"
  shows "\<exists>f. map_of fs ''draftkings'' = Some f \<and> f oids = Inl KeyTypeError"
  using assms by (auto simp: default_adapter_factories_def res_simps)

subsection \<open>The Polymarket US secret and the signed headers\<close>

text \<open>A secret exported as seed and public key together, with a line break after it, gives the seed's key.\<close>

theorem exported_secret_loads:
  assumes "length seed = 32" "list_all (\<lambda>b. b < 256) (seed @ pub)"
  shows "load_secret_key seed_key (b64encode (seed @ pub) @ [NL]) = Inr (seed_key seed)"
proof -
  have chars: "\<forall>c \<in> set (b64encode (seed @ pub)). \<not> is_space c"
    using b64encode_chars [OF assms(2)] body_char(1) by (metis list.simps(15))
  have dw: "dropWhile is_space s = s" if "\<forall>c \<in> set s. \<not> is_space c" for s :: string
    using that by (cases s) auto
  have "seed @ pub \<noteq> []" using assms(1) by auto
  then have ne: "b64encode (seed @ pub) \<noteq> []" by (cases "seed @ pub" rule: b64encode.cases) auto
  have "strip (b64encode (seed @ pub) @ [NL]) = b64encode (seed @ pub)"
    using chars ne by (cases "b64encode (seed @ pub)") (simp_all add: strip_def dw char_facts)
  then show ?thesis using b64_roundtrip [OF assms(2)] assms(1) by (simp add: load_secret_key_def ED25519_SEED_BYTES_def)
qed

theorem headers_carry_signature:
  assumes "list_all (\<lambda>b. b < 256) (sign key (nat_str ts @ to_upper method @ path))"
  shows "map_of (auth_headers sign (key_id, key) method path ts) ''X-PM-Timestamp'' = Some (nat_str ts) \<and>
    Option.bind (map_of (auth_headers sign (key_id, key) method path ts) ''X-PM-Signature'') b64decode =
      Some (sign key (nat_str ts @ to_upper method @ path))"
  using b64_roundtrip [OF assms] by (simp add: auth_headers_def signing_message_def Let_def)

subsection \<open>Concrete runs\<close>

text \<open>A library that reads one PEM and calls everything else malformed.\<close>

definition ex_load_pem :: "string \<Rightarrow> key_exc + string pem_key" where
  "ex_load_pem t = (if t = pem_text ''PRIVATE KEY'' ''QUJD'' then Inr (RSAKey ''k'') else Inl KeyValueError)"

definition ex_env :: "(string \<times> string) list \<Rightarrow> env" where
  "ex_env = map_of"

lemma ex_pem_ok: "pem_ok ''PRIVATE KEY'' ''QUJD''"
  by (simp add: pem_ok_def label_char_def B64_ALPHABET_def)

theorem mangled_key_loads_witness:
  "parse_kalshi_pem ex_load_pem (subst_nl [CHR '' ''] (pem_text ''PRIVATE KEY'' ''QUJD'')) = Inr ''k'' \<and>
   parse_kalshi_pem ex_load_pem (subst_nl [BACKSLASH, CHR ''n''] (pem_text ''PRIVATE KEY'' ''QUJD'')) = Inr ''k''"
proof -
  let ?pem = "pem_text ''PRIVATE KEY'' ''QUJD''"
  have l: "ex_load_pem ?pem = Inr (RSAKey ''k'')" by (simp add: ex_load_pem_def)
  have "list_all is_space [CHR '' '']" "ex_load_pem (subst_nl [CHR '' ''] ?pem) \<in> {Inl KeyValueError, Inr (RSAKey ''k'')}"
    by (simp_all add: is_space_def ex_load_pem_def)
  then show ?thesis
    using mangled_key_loads [where load_pem = ex_load_pem and data = "subst_nl [CHR '' ''] ?pem" and w = "[CHR '' '']", OF ex_pem_ok l]
      mangled_key_loads [where load_pem = ex_load_pem and data = "subst_nl [BACKSLASH, CHR ''n''] ?pem" and w = "[]", OF ex_pem_ok l] by blast
qed

theorem escaped_key_with_newline_refused_witness:
  "parse_kalshi_pem ex_load_pem (subst_nl [BACKSLASH, CHR ''n''] (pem_text ''PRIVATE KEY'' ''QUJD'') @ [NL]) = Inl KeyValueError"
proof -
  have "\<forall>t. BACKSLASH \<in> set t \<longrightarrow> ex_load_pem t = Inl KeyValueError"
    using pem_chars(1) [OF ex_pem_ok] by (auto simp: ex_load_pem_def)
  from escaped_key_with_newline_refused [where load_pem = ex_load_pem, OF ex_pem_ok this] show ?thesis .
qed


theorem draftkings_factory_raises_witness:
  "\<exists>fs f. default_adapter_factories (\<lambda>_. Inl KeyOSError) ex_load_pem id (ex_env [(''ARBYS_ENABLE_DRAFTKINGS'', ''1'')]) = Inr fs \<and>
     map_of fs ''draftkings'' = Some f \<and> f [''dks:1:2:0''] = Inl KeyTypeError"
proof -
  let ?env = "ex_env [(''ARBYS_ENABLE_DRAFTKINGS'', ''1'')]"
  have "\<not> any_set ?env KALSHI_VARS" by (simp add: any_set_def KALSHI_VARS_def is_set_def ex_env_def)
  then have "\<exists>fs. default_adapter_factories (\<lambda>_. Inl KeyOSError) ex_load_pem id ?env = Inr fs"
    using kalshi_creds_cases [of "\<lambda>_. Inl KeyOSError" ex_load_pem ?env] by (simp add: default_adapter_factories_def)
  then obtain fs where fs: "default_adapter_factories (\<lambda>_. Inl KeyOSError) ex_load_pem id ?env = Inr fs" by blast
  have "draftkings_enabled ?env" by (simp add: draftkings_enabled_def getenv_def ex_env_def)
  from draftkings_factory_raises [OF fs this] fs show ?thesis by blast
qed

end
