(* ===== verification/Lifecycle.thy ===== *)
theory Lifecycle
  imports Ticket_Service Credentials
begin

section \<open>Start, drain and shutdown\<close>

text \<open>
  The life of the process: \<open>AppState.bootstrap\<close> and \<open>shutdown\<close> of \<open>arbys/backend/state.py\<close>, the singleton lock
  of \<open>arbys/db/session.py\<close>, the start and stop of every background service under \<open>arbys/ingest\<close> and
  \<open>arbys/discovery\<close> and the subscriptions to opportunities. A service holds at most one task; a task that was
  cancelled and awaited is gone. Queues are named by numbers, for their identity; their contents are
  \<open>app_queues\<close> of \<open>App_State\<close>. Every \<open>await\<close> of \<open>shutdown\<close> is a step of a relation, so that tickets, passes of
  discovery and the end of the trader's task can come between any two of them. Requests arrive only while
  the process serves: the server closes its connections before it shuts the application down.
\<close>

datatype task = NoTask | Running | Finished

record services =
  svc_pnl :: task
  svc_auto_settle :: task
  svc_sweep :: task
  svc_venue_settle :: task
  svc_manual :: task
  svc_discovery :: task
  svc_trader :: task
  svc_trader_queue :: "nat option"

datatype phase = Off | Serving | StopTrader | Drain | Teardown nat | Down | Aborted

record life =
  lf_app :: app
  lf_services :: services
  lf_subscribers :: "nat list"
  lf_next_queue :: nat
  lf_locked :: bool
  lf_forced :: bool
  lf_phase :: phase

definition no_services :: services where
  "no_services = \<lparr>svc_pnl = NoTask, svc_auto_settle = NoTask, svc_sweep = NoTask, svc_venue_settle = NoTask,
     svc_manual = NoTask, svc_discovery = NoTask, svc_trader = NoTask, svc_trader_queue = None\<rparr>"

definition new_life :: "app \<Rightarrow> life" where
  "new_life st = \<lparr>lf_app = st, lf_services = no_services, lf_subscribers = [], lf_next_queue = 0, lf_locked = False,
     lf_forced = False, lf_phase = Off\<rparr>"

subsection \<open>One service\<close>

text \<open>\<open>start\<close>: nothing if there is a task, finished or not.\<close>

definition start_task :: "task \<Rightarrow> task" where
  "start_task t = (if t \<noteq> NoTask then t else Running)"

definition pnl_start :: "services \<Rightarrow> services" where
  "pnl_start sv = sv\<lparr>svc_pnl := start_task (svc_pnl sv)\<rparr>"

definition pnl_stop :: "services \<Rightarrow> services" where
  "pnl_stop sv = (if svc_pnl sv = NoTask then sv else sv\<lparr>svc_pnl := NoTask\<rparr>)"

definition auto_settle_start :: "services \<Rightarrow> services" where
  "auto_settle_start sv = sv\<lparr>svc_auto_settle := start_task (svc_auto_settle sv)\<rparr>"

definition auto_settle_stop :: "services \<Rightarrow> services" where
  "auto_settle_stop sv = (if svc_auto_settle sv = NoTask then sv else sv\<lparr>svc_auto_settle := NoTask\<rparr>)"

definition cash_sweep_start :: "services \<Rightarrow> services" where
  "cash_sweep_start sv = sv\<lparr>svc_sweep := start_task (svc_sweep sv)\<rparr>"

definition cash_sweep_stop :: "services \<Rightarrow> services" where
  "cash_sweep_stop sv = (if svc_sweep sv = NoTask then sv else sv\<lparr>svc_sweep := NoTask\<rparr>)"

definition venue_settle_start :: "services \<Rightarrow> services" where
  "venue_settle_start sv = sv\<lparr>svc_venue_settle := start_task (svc_venue_settle sv)\<rparr>"

definition venue_settle_stop :: "services \<Rightarrow> services" where
  "venue_settle_stop sv = sv\<lparr>svc_venue_settle := NoTask, svc_manual := NoTask\<rparr>"

text \<open>\<open>locked\<close> says whether a pass is under way. Returns whether a new one was started.\<close>

definition trigger :: "bool \<Rightarrow> services \<Rightarrow> services \<times> bool" where
  "trigger locked sv = (if locked \<or> svc_manual sv = Running then (sv, False) else (sv\<lparr>svc_manual := Running\<rparr>, True))"

definition discovery_start :: "services \<Rightarrow> services" where
  "discovery_start sv = sv\<lparr>svc_discovery := start_task (svc_discovery sv)\<rparr>"

definition discovery_stop :: "services \<Rightarrow> services" where
  "discovery_stop sv = sv\<lparr>svc_discovery := NoTask\<rparr>"

subsection \<open>Subscriptions and the auto-trader\<close>

definition subscribe :: "life \<Rightarrow> life \<times> nat" where
  "subscribe l = (l\<lparr>lf_subscribers := lf_subscribers l @ [lf_next_queue l], lf_next_queue := Suc (lf_next_queue l)\<rparr>,
     lf_next_queue l)"

definition unsubscribe :: "nat \<Rightarrow> life \<Rightarrow> life" where
  "unsubscribe q l = (if q \<in> set (lf_subscribers l) then l\<lparr>lf_subscribers := remove1 q (lf_subscribers l)\<rparr> else l)"

definition drop_queue :: "life \<Rightarrow> life" where
  "drop_queue l = (case svc_trader_queue (lf_services l) of None \<Rightarrow> l
     | Some q \<Rightarrow> (unsubscribe q l)\<lparr>lf_services := (lf_services l)\<lparr>svc_trader_queue := None\<rparr>\<rparr>)"

definition trader_start :: "life \<Rightarrow> life" where
  "trader_start l = (if svc_trader (lf_services l) = Running then l
     else let l1 = (if svc_trader (lf_services l) = Finished then drop_queue l else l) in
       (case subscribe l1 of (l2, q) \<Rightarrow> l2\<lparr>lf_services := (lf_services l2)\<lparr>svc_trader := Running, svc_trader_queue := Some q\<rparr>\<rparr>))"

text \<open>
  \<open>stop\<close> waits for the consumer to end its current ticket; \<open>interrupted\<close> says whether the wait itself was
  cancelled, which it passes on after the \<open>finally\<close> block. A consumer that outlives the wait is cancelled, one
  that crashed is logged; both are then gone like one that ended.
\<close>

definition trader_stop :: "bool \<Rightarrow> life \<Rightarrow> life \<times> bool" where
  "trader_stop interrupted l = (if svc_trader (lf_services l) = NoTask then (l, True)
     else (drop_queue (l\<lparr>lf_services := (lf_services l)\<lparr>svc_trader := NoTask\<rparr>\<rparr>), \<not> interrupted))"

subsection \<open>The singleton lock and the start\<close>

text \<open>
  \<open>answer\<close> is what \<open>pg_try_advisory_lock\<close> gave. Returns whether the connection is kept open and the result.
\<close>

definition acquire_singleton_lock :: "string \<Rightarrow> bool \<Rightarrow> bool res \<Rightarrow> bool \<times> bool res" where
  "acquire_singleton_lock backend conn_open answer =
     (if backend \<noteq> ''postgresql'' then (conn_open, Inr True)
      else if conn_open then (conn_open, Inr True)
      else (case answer of Inl e \<Rightarrow> (False, Inl e) | Inr got \<Rightarrow> (got, Inr got)))"

definition release_singleton_lock :: "life \<Rightarrow> life" where
  "release_singleton_lock l = l\<lparr>lf_locked := False\<rparr>"

definition at_services :: "(services \<Rightarrow> services) \<Rightarrow> life \<Rightarrow> life" where
  "at_services f l = l\<lparr>lf_services := f (lf_services l)\<rparr>"

definition at_app :: "(app \<Rightarrow> app) \<Rightarrow> life \<Rightarrow> life" where
  "at_app f l = l\<lparr>lf_app := f (lf_app l)\<rparr>"

definition start_services :: "env \<Rightarrow> life \<Rightarrow> life" where
  "start_services env l =
     (let l1 = at_services (auto_settle_start \<circ> pnl_start) l;
          l2 = (if cash_sweep_enabled env then at_services cash_sweep_start l1 else l1);
          l3 = (if auto_trade_enabled env then trader_start l2 else l2);
          l4 = (if ingest_enabled env \<and> venue_settle_enabled env then at_services venue_settle_start l3 else l3);
          l5 = (if ingest_enabled env then at_app start_ingest l4 else l4)
      in if discovery_enabled env then at_services discovery_start l5 else l5)"

text \<open>
  \<open>bootstrap\<close> after the lock: \<open>hydrated\<close> is the application with its groups and books read from the database
  (\<open>Persistence\<close>). \<open>None\<close> is the RuntimeError of a lock another instance holds, or the error of the attempt.
\<close>

definition boot :: "string \<Rightarrow> bool res \<Rightarrow> app \<Rightarrow> life \<Rightarrow> life \<times> bool" where
  "boot backend answer hydrated l = (case acquire_singleton_lock backend (lf_locked l) answer of
     (conn_open, Inr True) \<Rightarrow>
       ((start_services (app_env hydrated) (l\<lparr>lf_locked := conn_open, lf_app := hydrated\<rparr>))\<lparr>lf_phase := Serving\<rparr>, True)
   | (conn_open, _) \<Rightarrow> (l\<lparr>lf_locked := conn_open\<rparr>, False))"

subsection \<open>Shutdown\<close>

text \<open>What is stopped after the drain, in the code's order.\<close>

definition TEARDOWN :: "(life \<Rightarrow> life) list" where
  "TEARDOWN = [at_services discovery_stop, at_app stop_ingest, at_services cash_sweep_stop,
     at_services venue_settle_stop, at_services auto_settle_stop, at_services pnl_stop]"

text \<open>
  The steps of the process. \<open>ticket_in\<close> and \<open>ticket_out\<close> are the two ends of \<open>submit_arb_ticket\<close>; a pass of
  discovery may change the groups and end in \<open>sync_ingest\<close>; \<open>elsewhere\<close> is everything that moves other parts
  of the application. The drain ends when no ticket is in flight or after its timeout.
\<close>

definition quiet :: "app \<Rightarrow> app \<Rightarrow> bool" where
  "quiet st st' \<longleftrightarrow> app_draining st' = app_draining st \<and> app_inflight st' = app_inflight st \<and>
     app_idle st' = app_idle st \<and> app_worker st' = app_worker st"

inductive lstep :: "life \<Rightarrow> life \<Rightarrow> bool" where
  start: "lf_phase l = Off \<Longrightarrow> boot backend answer hydrated l = (l', ok) \<Longrightarrow> quiet (lf_app l) hydrated \<Longrightarrow> lstep l l'"
| ticket_in: "\<not> app_draining (lf_app l) \<Longrightarrow> lf_phase l \<noteq> Off \<Longrightarrow> lstep l (at_app enter_ticket l)"
| ticket_out: "0 < app_inflight (lf_app l) \<Longrightarrow> lstep l (at_app exit_ticket l)"
| elsewhere: "quiet (lf_app l) st \<Longrightarrow> lstep l (l\<lparr>lf_app := st\<rparr>)"
| pass: "svc_discovery (lf_services l) = Running \<Longrightarrow> lstep l (at_app (\<lambda>st. sync_ingest (st\<lparr>app_groups := gs\<rparr>)) l)"
| trader_ends: "svc_trader (lf_services l) = Running \<Longrightarrow> lstep l (at_services (\<lambda>sv. sv\<lparr>svc_trader := Finished\<rparr>) l)"
| connect: "lf_phase l = Serving \<Longrightarrow> lstep l (fst (subscribe l))"
| disconnect: "lf_phase l = Serving \<Longrightarrow> Some q \<noteq> svc_trader_queue (lf_services l) \<Longrightarrow> lstep l (unsubscribe q l)"
| settle_now: "lf_phase l = Serving \<Longrightarrow> lstep l (at_services (fst \<circ> trigger locked) l)"
| settled_now: "svc_manual (lf_services l) = Running \<Longrightarrow> lstep l (at_services (\<lambda>sv. sv\<lparr>svc_manual := Finished\<rparr>) l)"
| halt: "lf_phase l = Serving \<Longrightarrow> lstep l ((at_app begin_draining l)\<lparr>lf_phase := StopTrader\<rparr>)"
| trader_stopped: "lf_phase l = StopTrader \<Longrightarrow> trader_stop interrupted l = (l', ok) \<Longrightarrow>
    lstep l (l'\<lparr>lf_phase := if ok then Drain else Aborted\<rparr>)"
| drained: "lf_phase l = Drain \<Longrightarrow> app_inflight (lf_app l) = 0 \<or> app_idle (lf_app l) \<Longrightarrow> lstep l (l\<lparr>lf_phase := Teardown 0\<rparr>)"
| drain_timeout: "lf_phase l = Drain \<Longrightarrow> app_inflight (lf_app l) \<noteq> 0 \<Longrightarrow> lstep l (l\<lparr>lf_phase := Teardown 0, lf_forced := True\<rparr>)"
| teardown: "lf_phase l = Teardown k \<Longrightarrow> k < length TEARDOWN \<Longrightarrow> lstep l ((TEARDOWN ! k) l\<lparr>lf_phase := Teardown (Suc k)\<rparr>)"
| off: "lf_phase l = Teardown k \<Longrightarrow> k = length TEARDOWN \<Longrightarrow> lstep l (l\<lparr>lf_phase := Down\<rparr>)"

inductive_cases lstepE: "lstep l l'"

subsection \<open>What every reachable state satisfies\<close>

fun stopping :: "phase \<Rightarrow> bool" where
  "stopping Off = False" | "stopping Serving = False" | "stopping _ = True"

fun trader_gone :: "phase \<Rightarrow> bool" where
  "trader_gone Drain = True" | "trader_gone (Teardown _) = True" | "trader_gone Down = True" | "trader_gone Aborted = True"
| "trader_gone _ = False"

fun stage :: "phase \<Rightarrow> nat" where
  "stage (Teardown k) = Suc k" | "stage Down = Suc (length TEARDOWN)" | "stage _ = 0"

definition trader_ok :: "life \<Rightarrow> bool" where
  "trader_ok l \<longleftrightarrow> distinct (lf_subscribers l) \<and> (\<forall>q \<in> set (lf_subscribers l). q < lf_next_queue l) \<and>
     (case svc_trader_queue (lf_services l) of None \<Rightarrow> svc_trader (lf_services l) = NoTask
      | Some q \<Rightarrow> svc_trader (lf_services l) \<noteq> NoTask \<and> q \<in> set (lf_subscribers l))"

definition torn_down :: "nat \<Rightarrow> life \<Rightarrow> bool" where
  "torn_down k l \<longleftrightarrow> (let sv = lf_services l in
     (1 < k \<longrightarrow> svc_discovery sv = NoTask) \<and> (2 < k \<longrightarrow> \<not> app_worker (lf_app l)) \<and> (3 < k \<longrightarrow> svc_sweep sv = NoTask) \<and>
     (4 < k \<longrightarrow> svc_venue_settle sv = NoTask \<and> svc_manual sv = NoTask) \<and> (5 < k \<longrightarrow> svc_auto_settle sv = NoTask) \<and>
     (6 < k \<longrightarrow> svc_pnl sv = NoTask))"

definition life_ok :: "life \<Rightarrow> bool" where
  "life_ok l \<longleftrightarrow> idle_ok (lf_app l) \<and> trader_ok l \<and>
     (lf_phase l = Off \<longrightarrow> lf_services l = no_services \<and> app_inflight (lf_app l) = 0 \<and> \<not> app_worker (lf_app l)) \<and>
     (stopping (lf_phase l) \<longrightarrow> app_draining (lf_app l)) \<and>
     (trader_gone (lf_phase l) \<longrightarrow> svc_trader (lf_services l) = NoTask) \<and>
     (0 < stage (lf_phase l) \<longrightarrow> lf_forced l \<or> app_inflight (lf_app l) = 0) \<and>
     torn_down (stage (lf_phase l)) l"

lemma torn_down_0 [simp]: "torn_down 0 l" "torn_down (Suc 0) l"
  by (simp_all add: torn_down_def Let_def)

lemma TEARDOWN_length [simp]: "length TEARDOWN = 6"
  by (simp add: TEARDOWN_def)

lemma sync_keeps [simp]:
  "app_draining (sync_ingest st) = app_draining st" "app_inflight (sync_ingest st) = app_inflight st"
  "app_idle (sync_ingest st) = app_idle st" "app_draining (start_ingest st) = app_draining st"
  "app_inflight (start_ingest st) = app_inflight st" "app_idle (start_ingest st) = app_idle st"
  "app_draining (stop_ingest st) = app_draining st" "app_inflight (stop_ingest st) = app_inflight st"
  "app_idle (stop_ingest st) = app_idle st"
  by (simp_all add: sync_ingest_def restart_ingest_def start_ingest_def stop_ingest_def Let_def)

lemma at_simps [simp]:
  "lf_phase (at_services f l) = lf_phase l" "lf_phase (at_app g l) = lf_phase l"
  "lf_app (at_services f l) = lf_app l" "lf_services (at_app g l) = lf_services l"
  "lf_services (at_services f l) = f (lf_services l)" "lf_app (at_app g l) = g (lf_app l)"
  "lf_subscribers (at_services f l) = lf_subscribers l" "lf_subscribers (at_app g l) = lf_subscribers l"
  "lf_next_queue (at_services f l) = lf_next_queue l" "lf_next_queue (at_app g l) = lf_next_queue l"
  "lf_forced (at_services f l) = lf_forced l" "lf_forced (at_app g l) = lf_forced l"
  "lf_locked (at_services f l) = lf_locked l" "lf_locked (at_app g l) = lf_locked l"
  by (simp_all add: at_services_def at_app_def)

lemma trader_ok_at_app [simp]: "trader_ok (at_app f l) = trader_ok l"
  by (simp add: trader_ok_def split: option.split)

lemma trader_ok_services:
  "svc_trader (f (lf_services l)) = svc_trader (lf_services l) \<Longrightarrow>
   svc_trader_queue (f (lf_services l)) = svc_trader_queue (lf_services l) \<Longrightarrow> trader_ok (at_services f l) = trader_ok l"
  by (simp add: trader_ok_def split: option.split)

lemma trader_ok_update [simp]:
  "trader_ok (l\<lparr>lf_phase := p\<rparr>) = trader_ok l" "trader_ok (l\<lparr>lf_app := st\<rparr>) = trader_ok l"
  "trader_ok (l\<lparr>lf_forced := b\<rparr>) = trader_ok l" "trader_ok (l\<lparr>lf_locked := b\<rparr>) = trader_ok l"
  by (simp_all add: trader_ok_def split: option.split)

lemma idle_ok_steps: "idle_ok st \<Longrightarrow> idle_ok (enter_ticket st)" "idle_ok st \<Longrightarrow> 0 < app_inflight st \<Longrightarrow> idle_ok (exit_ticket st)"
  by (auto simp: idle_ok_def enter_ticket_def exit_ticket_def Let_def)

lemma ticket_simps [simp]:
  "app_draining (enter_ticket st) = app_draining st" "app_draining (exit_ticket st) = app_draining st"
  "app_worker (enter_ticket st) = app_worker st" "app_worker (exit_ticket st) = app_worker st"
  "app_inflight (exit_ticket st) = app_inflight st - 1"
  by (simp_all add: enter_ticket_def exit_ticket_def Let_def)

lemma drop_queue_simps [simp]:
  "lf_phase (drop_queue l) = lf_phase l" "lf_app (drop_queue l) = lf_app l" "lf_forced (drop_queue l) = lf_forced l"
  "svc_trader (lf_services (drop_queue l)) = svc_trader (lf_services l)"
  "svc_trader_queue (lf_services (drop_queue l)) = None"
  by (simp_all add: drop_queue_def unsubscribe_def split: option.split)

lemma drop_queue_ok: "trader_ok l \<Longrightarrow> trader_ok (drop_queue (l\<lparr>lf_services := (lf_services l)\<lparr>svc_trader := NoTask\<rparr>\<rparr>))"
  by (auto simp: trader_ok_def drop_queue_def unsubscribe_def distinct_remove1 dest: notin_set_remove1 split: option.splits)

lemma trader_start_ok: "trader_ok l \<Longrightarrow> trader_ok (trader_start l)"
  by (auto simp: trader_ok_def trader_start_def drop_queue_def unsubscribe_def subscribe_def Let_def distinct_remove1
      split: option.splits if_splits dest: notin_set_remove1)

lemma subscribe_ok: "trader_ok l \<Longrightarrow> trader_ok (fst (subscribe l))"
  by (auto simp: trader_ok_def subscribe_def split: option.splits)

lemma unsubscribe_ok: "trader_ok l \<Longrightarrow> Some q \<noteq> svc_trader_queue (lf_services l) \<Longrightarrow> trader_ok (unsubscribe q l)"
  by (auto simp: trader_ok_def unsubscribe_def split: option.splits dest: notin_set_remove1)

lemma trader_start_simps [simp]:
  "lf_app (trader_start l) = lf_app l" "lf_forced (trader_start l) = lf_forced l"
  by (simp_all add: trader_start_def Let_def subscribe_def)

lemmas service_defs = pnl_start_def pnl_stop_def auto_settle_start_def auto_settle_stop_def cash_sweep_start_def
  cash_sweep_stop_def venue_settle_start_def venue_settle_stop_def discovery_start_def discovery_stop_def trigger_def

lemma trader_ok_starts:
  "trader_ok (at_services (auto_settle_start \<circ> pnl_start) l) = trader_ok l"
  "trader_ok (at_services cash_sweep_start l) = trader_ok l" "trader_ok (at_services venue_settle_start l) = trader_ok l"
  "trader_ok (at_services discovery_start l) = trader_ok l"
  by (rule trader_ok_services; simp add: service_defs)+

lemma start_services_ok:
  "trader_ok l \<Longrightarrow> trader_ok (start_services env l)"
  "app_draining (lf_app (start_services env l)) = app_draining (lf_app l)"
  "app_inflight (lf_app (start_services env l)) = app_inflight (lf_app l)"
  "app_idle (lf_app (start_services env l)) = app_idle (lf_app l)"
  by (simp_all add: start_services_def Let_def trader_ok_starts trader_start_ok)

lemma boot_ok:
  assumes "life_ok l" "lf_phase l = Off" "boot backend answer hydrated l = (l', ok)" "quiet (lf_app l) hydrated"
  shows "life_ok l'"
proof (cases "acquire_singleton_lock backend (lf_locked l) answer")
  case (Pair h r)
  show ?thesis
  proof (cases "r = Inr True")
    case True
    with Pair assms(3) have "l' = (start_services (app_env hydrated) (l\<lparr>lf_locked := h, lf_app := hydrated\<rparr>))\<lparr>lf_phase := Serving\<rparr>"
      by (simp add: boot_def)
    with assms start_services_ok [where env = "app_env hydrated" and l = "l\<lparr>lf_locked := h, lf_app := hydrated\<rparr>"]
    show ?thesis by (simp add: life_ok_def quiet_def idle_ok_def)
  next
    case False
    with Pair assms(3) have "l' = l\<lparr>lf_locked := h\<rparr>" by (auto simp: boot_def split: sum.splits if_splits bool.splits)
    with assms(1,2) show ?thesis by (simp add: life_ok_def torn_down_def)
  qed
qed

lemma stage_trader: "0 < stage p \<Longrightarrow> trader_gone p \<and> stopping p"
  by (cases p) auto

lemma teardown_cases: "k < length TEARDOWN \<Longrightarrow> k = 0 \<or> k = 1 \<or> k = 2 \<or> k = 3 \<or> k = 4 \<or> k = 5"
  by auto

lemma trader_ok_stops:
  "trader_ok (at_services discovery_stop l) = trader_ok l" "trader_ok (at_services cash_sweep_stop l) = trader_ok l"
  "trader_ok (at_services venue_settle_stop l) = trader_ok l" "trader_ok (at_services auto_settle_stop l) = trader_ok l"
  "trader_ok (at_services pnl_stop l) = trader_ok l"
  by (rule trader_ok_services; simp add: service_defs)+

lemma TEARDOWN_nth:
  "TEARDOWN ! 0 = at_services discovery_stop" "TEARDOWN ! 1 = at_app stop_ingest" "TEARDOWN ! 2 = at_services cash_sweep_stop"
  "TEARDOWN ! 3 = at_services venue_settle_stop" "TEARDOWN ! 4 = at_services auto_settle_stop" "TEARDOWN ! 5 = at_services pnl_stop"
  by (simp_all add: TEARDOWN_def)

lemma teardown_keeps:
  assumes "k < length TEARDOWN"
  shows "app_draining (lf_app ((TEARDOWN ! k) l)) = app_draining (lf_app l) \<and>
    app_inflight (lf_app ((TEARDOWN ! k) l)) = app_inflight (lf_app l) \<and>
    app_idle (lf_app ((TEARDOWN ! k) l)) = app_idle (lf_app l) \<and>
    svc_trader (lf_services ((TEARDOWN ! k) l)) = svc_trader (lf_services l) \<and>
    trader_ok ((TEARDOWN ! k) l) = trader_ok l \<and> lf_forced ((TEARDOWN ! k) l) = lf_forced l"
  using teardown_cases [OF assms]
  by (elim disjE; simp add: TEARDOWN_nth [simplified] trader_ok_stops) (simp_all add: service_defs)

lemma teardown_advances:
  assumes "k < length TEARDOWN" "torn_down (Suc k) l" shows "torn_down (Suc (Suc k)) ((TEARDOWN ! k) l)"
  using teardown_cases [OF assms(1)] assms(2)
  by (elim disjE; simp add: TEARDOWN_nth [simplified] torn_down_def Let_def service_defs stop_ingest_def)

lemma life_okD:
  assumes "life_ok l"
  shows "idle_ok (lf_app l)" "trader_ok l" "lf_phase l = Off \<Longrightarrow> app_inflight (lf_app l) = 0 \<and> \<not> app_worker (lf_app l)"
    "lf_phase l = Off \<Longrightarrow> lf_services l = no_services" "torn_down (stage (lf_phase l)) l"
  using assms by (simp_all add: life_ok_def)

lemma torn_down_app:
  "torn_down k l \<Longrightarrow> (2 < k \<Longrightarrow> app_worker st = app_worker (lf_app l)) \<Longrightarrow> torn_down k (l\<lparr>lf_app := st\<rparr>)"
  by (auto simp: torn_down_def Let_def)

lemma torn_down_phase [simp]: "torn_down k (l\<lparr>lf_phase := p\<rparr>) = torn_down k l"
  by (simp add: torn_down_def)

lemma life_ok_app:
  assumes "life_ok l" "idle_ok st" "app_draining st = app_draining (lf_app l)"
    and "app_inflight st \<le> app_inflight (lf_app l) \<or> \<not> app_draining (lf_app l)"
    and "lf_phase l = Off \<longrightarrow> app_inflight st = 0 \<and> \<not> app_worker st"
    and "2 < stage (lf_phase l) \<longrightarrow> app_worker st = app_worker (lf_app l)"
  shows "life_ok (l\<lparr>lf_app := st\<rparr>)"
proof -
  have "0 < stage (lf_phase l) \<longrightarrow> lf_forced l \<or> app_inflight st = 0"
    using assms(1,4) stage_trader [of "lf_phase l"] by (auto simp: life_ok_def)
  then show ?thesis
    using assms torn_down_app [of "stage (lf_phase l)" l st] by (simp add: life_ok_def)
qed

lemma at_app_eq: "at_app f l = l\<lparr>lf_app := f (lf_app l)\<rparr>"
  by (simp add: at_app_def)

lemma ok_pass:
  assumes "life_ok l" "svc_discovery (lf_services l) = Running"
  shows "life_ok (at_app (\<lambda>st. sync_ingest (st\<lparr>app_groups := gs\<rparr>)) l)"
proof -
  note d = life_okD [OF assms(1)]
  have "lf_phase l \<noteq> Off" using d(4) assms(2) by (auto simp: no_services_def)
  moreover have "\<not> 1 < stage (lf_phase l)" using d(5) assms(2) by (simp add: torn_down_def Let_def)
  ultimately show ?thesis using d unfolding at_app_eq
    by (intro life_ok_app [OF assms(1)]) (simp_all add: idle_ok_def)
qed

lemma ok_trader_ends:
  assumes "life_ok l" "svc_trader (lf_services l) = Running"
  shows "life_ok (at_services (\<lambda>sv. sv\<lparr>svc_trader := Finished\<rparr>) l)" (is "life_ok ?l")
proof -
  note d = life_okD [OF assms(1)]
  have "trader_ok ?l" using d(2) assms(2) by (simp add: trader_ok_def split: option.splits)
  moreover have "lf_phase l \<noteq> Off" using d(4) assms(2) by (auto simp: no_services_def)
  moreover have "torn_down k ?l" if "torn_down k l" for k using that by (simp add: torn_down_def Let_def)
  ultimately show ?thesis using assms by (simp add: life_ok_def)
qed

lemma ok_settled_now:
  assumes "life_ok l" "svc_manual (lf_services l) = Running"
  shows "life_ok (at_services (\<lambda>sv. sv\<lparr>svc_manual := Finished\<rparr>) l)" (is "life_ok ?l")
proof -
  note d = life_okD [OF assms(1)]
  have "trader_ok ?l = trader_ok l" by (rule trader_ok_services) simp_all
  moreover have "lf_phase l \<noteq> Off" using d(4) assms(2) by (auto simp: no_services_def)
  moreover have "torn_down k ?l" if "torn_down k l" for k using that assms(2) by (simp add: torn_down_def Let_def)
  ultimately show ?thesis using assms by (simp add: life_ok_def)
qed

lemma ok_trader_stopped:
  assumes "life_ok l" "lf_phase l = StopTrader" "trader_stop interrupted l = (l1, ok)"
  shows "life_ok (l1\<lparr>lf_phase := if ok then Drain else Aborted\<rparr>)"
proof -
  have l1: "lf_app l1 = lf_app l" "svc_trader (lf_services l1) = NoTask"
    using assms(3) by (auto simp: trader_stop_def split: if_splits)
  have "trader_ok l1"
    using assms(3) drop_queue_ok [OF life_okD(2) [OF assms(1)]] life_okD(2) [OF assms(1)]
    by (auto simp: trader_stop_def split: if_splits)
  with assms l1 show ?thesis by (simp add: life_ok_def)
qed

lemma step_keeps: assumes "lstep l l'" "life_ok l" shows "life_ok l'"
  using assms(1)
proof cases
  case (start backend answer hydrated ok)
  show ?thesis by (rule boot_ok [OF assms(2) start])
next
  case ticket_in
  with life_okD [OF assms(2)] show ?thesis unfolding at_app_eq
    by (simp add: life_ok_app [OF assms(2)] idle_ok_steps)
next
  case ticket_out
  then have "lf_phase l \<noteq> Off" using life_okD(3) [OF assms(2)] by auto
  with ticket_out life_okD(1) [OF assms(2)] show ?thesis unfolding at_app_eq
    by (simp add: life_ok_app [OF assms(2)] idle_ok_steps)
next
  case (elsewhere st)
  with life_okD [OF assms(2)] show ?thesis by (simp add: life_ok_app [OF assms(2)] quiet_def idle_ok_def)
next
  case connect
  with assms(2) subscribe_ok [of l] show ?thesis by (simp add: life_ok_def subscribe_def)
next
  case (disconnect q)
  with assms(2) unsubscribe_ok [of l q] show ?thesis by (simp add: life_ok_def unsubscribe_def)
next
  case (settle_now locked)
  have "trader_ok l' = trader_ok l" unfolding settle_now(1) by (rule trader_ok_services) (simp_all add: trigger_def)
  with assms(2) settle_now show ?thesis by (simp add: life_ok_def)
next
  case (teardown k)
  with assms(2) teardown_keeps [of k l] teardown_advances [of k l] show ?thesis by (simp add: life_ok_def idle_ok_def)
next
  case (trader_stopped interrupted l1 ok)
  show ?thesis unfolding trader_stopped(1) by (rule ok_trader_stopped [OF assms(2) trader_stopped(2,3)])
next
  case halt
  with assms(2) show ?thesis by (simp add: life_ok_def idle_ok_def begin_draining_def)
next
  case drained
  with assms(2) show ?thesis by (auto simp: life_ok_def idle_ok_def)
next
  case drain_timeout
  have "torn_down (Suc 0) l'" by simp
  with assms(2) drain_timeout show ?thesis by (simp add: life_ok_def)
next
  case (off k)
  with assms(2) show ?thesis by (simp add: life_ok_def)
qed (use assms(2) in \<open>simp_all add: ok_pass ok_trader_ends ok_settled_now\<close>)

subsection \<open>A stopped application is still\<close>

definition reachable_life :: "app \<Rightarrow> life \<Rightarrow> bool" where
  "reachable_life st l \<longleftrightarrow> lstep\<^sup>*\<^sup>* (new_life st) l"

lemma reachable_life_ok:
  assumes "reachable_life st l" "idle_ok st" "app_inflight st = 0" "\<not> app_worker st"
  shows "life_ok l"
  using assms(1) unfolding reachable_life_def
proof (induction rule: rtranclp_induct)
  case base
  from assms(2-4) show ?case by (simp add: new_life_def life_ok_def trader_ok_def no_services_def)
qed (rule step_keeps)

text \<open>Once the drain has begun no step adds a ticket, and the drain is never taken back.\<close>

lemma draining_step:
  assumes "lstep l l'" "app_draining (lf_app l)" "lf_phase l \<noteq> Off"
  shows "app_draining (lf_app l') \<and> app_inflight (lf_app l') \<le> app_inflight (lf_app l) \<and> lf_phase l' \<noteq> Off"
  using assms(1)
proof cases
  case (trader_stopped interrupted l1 ok)
  with assms show ?thesis by (auto simp: trader_stop_def split: if_splits)
next
  case (teardown k)
  with assms teardown_keeps [of k l] show ?thesis by simp
qed (use assms in \<open>simp_all add: quiet_def begin_draining_def subscribe_def unsubscribe_def\<close>)

lemma draining_steps:
  assumes "lstep\<^sup>*\<^sup>* l l'" "app_draining (lf_app l)" "lf_phase l \<noteq> Off"
  shows "app_draining (lf_app l') \<and> app_inflight (lf_app l') \<le> app_inflight (lf_app l) \<and> lf_phase l' \<noteq> Off"
  using assms
proof (induction rule: rtranclp_induct)
  case (step l1 l2)
  with draining_step [of l1 l2] show ?case by auto
qed simp

text \<open>
  C37: Whatever tickets, passes of discovery, client connections, crashes of the trader and settlement
  requests come between its steps: when shutdown ends no service has a task, no adapter streams, the
  trader's subscription is gone, no ticket is accepted, and none is in flight unless the drain timed out;
  the feeds and the settlement services are only stopped after that drain.
\<close>

theorem shutdown_quiesces:
  assumes "reachable_life st l" "idle_ok st" "app_inflight st = 0" "\<not> app_worker st"
  shows "(lf_phase l = Down \<longrightarrow> lf_services l = no_services \<and> \<not> app_worker (lf_app l)) \<and>
    (lf_phase l = Down \<or> (\<exists>k. lf_phase l = Teardown k) \<longrightarrow>
       app_draining (lf_app l) \<and> svc_trader (lf_services l) = NoTask \<and> svc_trader_queue (lf_services l) = None \<and>
       (lf_forced l \<or> app_inflight (lf_app l) = 0 \<and>
          (\<forall>l'. lstep\<^sup>*\<^sup>* l l' \<longrightarrow> app_inflight (lf_app l') = 0)))"
proof -
  have ok: "life_ok l" using reachable_life_ok [OF assms] .
  have q: "svc_trader_queue (lf_services l) = None" if "svc_trader (lf_services l) = NoTask"
    using ok that by (auto simp: life_ok_def trader_ok_def split: option.splits)
  have "lf_services l = no_services \<and> \<not> app_worker (lf_app l)" if "lf_phase l = Down"
    using ok q that by (cases "lf_services l") (simp add: life_ok_def torn_down_def Let_def no_services_def)
  moreover have "app_draining (lf_app l) \<and> svc_trader (lf_services l) = NoTask \<and>
      (lf_forced l \<or> app_inflight (lf_app l) = 0)" if "lf_phase l = Down \<or> (\<exists>k. lf_phase l = Teardown k)"
    using ok that by (auto simp: life_ok_def)
  moreover have "app_inflight (lf_app l') = 0"
    if "lf_phase l = Down \<or> (\<exists>k. lf_phase l = Teardown k)" "app_inflight (lf_app l) = 0" "lstep\<^sup>*\<^sup>* l l'" for l'
    using draining_steps [OF that(3)] that(1,2) ok by (auto simp: life_ok_def)
  ultimately show ?thesis using q by blast
qed

text \<open>The guard the step \<open>ticket_in\<close> stands for: a draining application refuses and changes no count.\<close>

lemma draining_refuses:
  assumes "app_draining st"
  shows "app_inflight (fst (submit_arb_ticket sub source aid rec opp st)) = app_inflight st"
  using assms by (simp add: submit_arb_ticket_def Let_def refuse_def nonfill_def write_ticket_def db_def)

subsection \<open>A run from start to end\<close>

definition ex_life :: app where
  "ex_life = new_app (\<lambda>_. None) None 0 []"

definition ex_serving :: life where
  "ex_serving = fst (boot ''sqlite'' (Inr True) ex_life (new_life ex_life))"

lemma ex_life_facts: "idle_ok ex_life" "app_inflight ex_life = 0" "\<not> app_worker ex_life" "quiet ex_life ex_life"
  "app_env ex_life = (\<lambda>_. None)" "app_idle ex_life"
  by (simp_all add: ex_life_def new_app_def Let_def idle_ok_def quiet_def)

lemma ex_serving_facts: "boot ''sqlite'' (Inr True) ex_life (new_life ex_life) = (ex_serving, True)"
  "lf_phase ex_serving = Serving" "lf_app ex_serving = ex_life" "svc_trader (lf_services ex_serving) = NoTask"
  "svc_pnl (lf_services ex_serving) = Running" "\<not> lf_forced ex_serving"
  by (simp_all add: ex_serving_def boot_def acquire_singleton_lock_def start_services_def Let_def ex_life_facts
      cash_sweep_enabled_def auto_trade_enabled_def ingest_enabled_def venue_settle_enabled_def discovery_enabled_def
      getenv_def new_life_def no_services_def service_defs start_task_def at_services_def)

fun run_down :: "nat \<Rightarrow> life \<Rightarrow> life" where
  "run_down 0 l = l\<lparr>lf_phase := Teardown 0\<rparr>"
| "run_down (Suc k) l = (TEARDOWN ! k) (run_down k l)\<lparr>lf_phase := Teardown (Suc k)\<rparr>"

lemma run_down_reaches:
  "k \<le> length TEARDOWN \<Longrightarrow> lstep\<^sup>*\<^sup>* (l\<lparr>lf_phase := Teardown 0\<rparr>) (run_down k l) \<and> lf_phase (run_down k l) = Teardown k"
proof (induction k)
  case (Suc k)
  then have "lstep\<^sup>*\<^sup>* (l\<lparr>lf_phase := Teardown 0\<rparr>) (run_down k l)" "lstep (run_down k l) (run_down (Suc k) l)"
    by (simp_all add: lstep.teardown)
  then show ?case by simp
qed simp

lemma run_down_forced: "k \<le> length TEARDOWN \<Longrightarrow> lf_forced (run_down k l) = lf_forced l"
proof (induction k)
  case (Suc k)
  with teardown_keeps [of k "run_down k l"] show ?case by simp
qed simp

theorem shutdown_quiesces_witness:
  "\<exists>l. reachable_life ex_life l \<and> lf_phase l = Down \<and> lf_services l = no_services \<and> app_inflight (lf_app l) = 0"
proof -
  let ?l1 = "(at_app begin_draining ex_serving)\<lparr>lf_phase := StopTrader\<rparr>"
  let ?l2 = "?l1\<lparr>lf_phase := Drain\<rparr>"
  let ?l3 = "run_down 6 ?l2"
  have s1: "lstep (new_life ex_life) ex_serving"
    by (rule lstep.start [OF _ ex_serving_facts(1)]) (simp_all add: new_life_def ex_life_facts)
  have s2: "lstep ex_serving ?l1" by (rule lstep.halt) (rule ex_serving_facts)
  have s3: "lstep ?l1 ?l2"
    using lstep.trader_stopped [of ?l1 False ?l1 True] ex_serving_facts(4) by (simp add: trader_stop_def)
  have s4: "lstep ?l2 (?l2\<lparr>lf_phase := Teardown 0\<rparr>)"
    by (rule lstep.drained) (simp_all add: ex_serving_facts ex_life_facts begin_draining_def)
  have s5: "lstep\<^sup>*\<^sup>* (?l2\<lparr>lf_phase := Teardown 0\<rparr>) ?l3" using run_down_reaches [of 6 ?l2] by simp
  have s6: "lstep ?l3 (?l3\<lparr>lf_phase := Down\<rparr>)"
    by (rule lstep.off [where k = 6]) (use run_down_reaches [of 6 ?l2] in simp_all)
  note path = converse_rtranclp_into_rtranclp [of lstep]
  have r: "reachable_life ex_life (?l3\<lparr>lf_phase := Down\<rparr>)" unfolding reachable_life_def
    by (rule path [OF s1 path [OF s2 path [OF s3 path [OF s4 rtranclp.rtrancl_into_rtrancl [OF s5 s6]]]]])
  have "\<not> lf_forced (?l3\<lparr>lf_phase := Down\<rparr>)" using run_down_forced [of 6 ?l2] ex_serving_facts(6) by simp
  with shutdown_quiesces [OF r ex_life_facts(1-3)] r show ?thesis by auto
qed

end
