(* ===== verification/Teams.thy ===== *)
theory Teams
  imports Config "HOL-Library.Sublist"
begin

section \<open>Teams and the names venues give them\<close>

text \<open>
  \<open>arbys/discovery/teams.py\<close>: the rosters, and the resolver that maps a ticker code, a Kalshi title or a
  Polymarket name to a team. \<open>TeamResolver\<close> is a record of the dictionaries its constructor fills. Strings are
  taken as Latin-1 with case only for ASCII letters (all the tables are); a nickname is not empty.
\<close>

datatype team = Team (t_code: string) (t_full: string) (t_city: string) (t_nick: string)

record team_index =
  ti_code :: "(string, team) dict"
  ti_prefix :: "(string \<times> string, team) dict"
  ti_full :: "(string, team) dict"
  ti_city :: "(string, team) dict"
  ti_alias :: "(string, team) dict"

definition low :: "string \<Rightarrow> string" where
  "low = map lower"

definition index_by :: "('t \<Rightarrow> 'k) \<Rightarrow> 't list \<Rightarrow> ('k, 't) dict \<Rightarrow> ('k, 't) dict" where
  "index_by key ts d = foldl (\<lambda>d t. dict_set (key t) t d) d ts"

definition prefix_key :: "team \<Rightarrow> string \<times> string" where
  "prefix_key t = (low (t_city t), to_upper (take 1 (t_nick t)))"

definition unique_in :: "('t \<Rightarrow> string) \<Rightarrow> 't list \<Rightarrow> 't \<Rightarrow> bool" where
  "unique_in key ts t \<longleftrightarrow> count_list (map key ts) (key t) = 1"

definition low_nick :: "team \<Rightarrow> string" where
  "low_nick t = low (t_nick t)"

definition low_city :: "team \<Rightarrow> string" where
  "low_city t = low (t_city t)"

definition add_names :: "team list \<Rightarrow> (string, team) dict \<Rightarrow> team \<Rightarrow> (string, team) dict" where
  "add_names ts d t = (let d1 = dict_set (low (t_city t @ '' '' @ t_nick t)) t d in
     if unique_in low_nick ts t then dict_set (low_nick t) t d1 else d1)"

definition add_alias ::
  "(string, team) dict \<Rightarrow> (string \<Rightarrow> string) \<Rightarrow> (string, team) dict \<Rightarrow> string \<times> string \<Rightarrow> (string, team) dict" where
  "add_alias codes key d x = (case map_of codes (to_upper (snd x)) of None \<Rightarrow> d | Some t \<Rightarrow> dict_set (key (fst x)) t d)"

definition new_index :: "team list \<Rightarrow> (string \<times> string) list \<Rightarrow> (string \<times> string) list \<Rightarrow> team_index" where
  "new_index ts aliases code_aliases =
     (let codes = index_by (\<lambda>t. to_upper (t_code t)) ts [] in
      \<lparr>ti_code = codes, ti_prefix = index_by prefix_key ts [],
       ti_full = foldl (add_alias codes (\<lambda>a. low (strip a))) (foldl (add_names ts) (index_by (\<lambda>t. low (t_full t)) ts []) ts) aliases,
       ti_city = index_by low_city (filter (unique_in low_city ts) ts) [],
       ti_alias = foldl (add_alias codes to_upper) [] code_aliases\<rparr>)"

definition by_code :: "team_index \<Rightarrow> string \<Rightarrow> team option" where
  "by_code ix code = (case map_of (ti_code ix) (to_upper code) of None \<Rightarrow> map_of (ti_alias ix) (to_upper code) | Some t \<Rightarrow> Some t)"

text \<open>\<open>t.rsplit(" ", 1)\<close>, and \<open>q.split(sep, 1)\<close>.\<close>

definition split_last_word :: "string \<Rightarrow> (string \<times> string) option" where
  "split_last_word s = (if CHR '' '' \<notin> set s then None
     else Some (rev (drop 1 (dropWhile (\<lambda>c. c \<noteq> CHR '' '') (rev s))), rev (takeWhile (\<lambda>c. c \<noteq> CHR '' '') (rev s))))"

fun split_once :: "string \<Rightarrow> string \<Rightarrow> (string \<times> string) option" where
  "split_once sep s = (if prefix sep s then Some ([], drop (length sep) s)
     else (case s of [] \<Rightarrow> None | c # cs \<Rightarrow> map_option (apfst ((#) c)) (split_once sep cs)))"

declare split_once.simps [simp del]

definition by_kalshi_title :: "team_index \<Rightarrow> string \<Rightarrow> team option" where
  "by_kalshi_title ix title = (let t = strip title in
     if t = [] then None
     else case map_of (ti_full ix) (low t) of Some team \<Rightarrow> Some team
       | None \<Rightarrow> (case (case split_last_word t of None \<Rightarrow> None
             | Some (city_part, nick_part) \<Rightarrow> map_of (ti_prefix ix) (low city_part, to_upper (take 1 nick_part))) of
           Some team \<Rightarrow> Some team
         | None \<Rightarrow> map_of (ti_city ix) (low t)))"

definition by_polymarket_name :: "team_index \<Rightarrow> string \<Rightarrow> team option" where
  "by_polymarket_name ix name = (let n = low (strip name) in
     case map_of (ti_full ix) n of Some team \<Rightarrow> Some team | None \<Rightarrow> map_of (ti_city ix) n)"

fun parse_vs_with :: "string list \<Rightarrow> team_index \<Rightarrow> string \<Rightarrow> (team \<times> team) option" where
  "parse_vs_with [] ix q = None"
| "parse_vs_with (sep # seps) ix q = (case split_once sep q of
     None \<Rightarrow> parse_vs_with seps ix q
   | Some (left, right) \<Rightarrow> (case (by_polymarket_name ix left, by_polymarket_name ix right) of
       (Some a, Some b) \<Rightarrow> Some (a, b) | _ \<Rightarrow> None))"

definition parse_vs_question :: "team_index \<Rightarrow> string \<Rightarrow> (team \<times> team) option" where
  "parse_vs_question ix question = parse_vs_with ['' vs. '', '' vs '', '' @ '', '' at ''] ix (strip question)"

subsection \<open>Rosters\<close>

definition MLB_TEAMS :: "team list" where
  "MLB_TEAMS = [
     Team ''ARI'' ''Arizona Diamondbacks'' ''Arizona'' ''Diamondbacks'',
     Team ''ATL'' ''Atlanta Braves'' ''Atlanta'' ''Braves'',
     Team ''BAL'' ''Baltimore Orioles'' ''Baltimore'' ''Orioles'',
     Team ''BOS'' ''Boston Red Sox'' ''Boston'' ''Red Sox'',
     Team ''CHC'' ''Chicago Cubs'' ''Chicago'' ''Cubs'',
     Team ''CIN'' ''Cincinnati Reds'' ''Cincinnati'' ''Reds'',
     Team ''CLE'' ''Cleveland Guardians'' ''Cleveland'' ''Guardians'',
     Team ''COL'' ''Colorado Rockies'' ''Colorado'' ''Rockies'',
     Team ''CWS'' ''Chicago White Sox'' ''Chicago'' ''White Sox'',
     Team ''DET'' ''Detroit Tigers'' ''Detroit'' ''Tigers'',
     Team ''HOU'' ''Houston Astros'' ''Houston'' ''Astros'',
     Team ''KC'' ''Kansas City Royals'' ''Kansas City'' ''Royals'',
     Team ''LAA'' ''Los Angeles Angels'' ''Los Angeles'' ''Angels'',
     Team ''LAD'' ''Los Angeles Dodgers'' ''Los Angeles'' ''Dodgers'',
     Team ''MIA'' ''Miami Marlins'' ''Miami'' ''Marlins'',
     Team ''MIL'' ''Milwaukee Brewers'' ''Milwaukee'' ''Brewers'',
     Team ''MIN'' ''Minnesota Twins'' ''Minnesota'' ''Twins'',
     Team ''NYM'' ''New York Mets'' ''New York'' ''Mets'',
     Team ''NYY'' ''New York Yankees'' ''New York'' ''Yankees'',
     Team ''ATH'' ''Athletics'' ''Oakland'' ''Athletics'',
     Team ''PHI'' ''Philadelphia Phillies'' ''Philadelphia'' ''Phillies'',
     Team ''PIT'' ''Pittsburgh Pirates'' ''Pittsburgh'' ''Pirates'',
     Team ''SD'' ''San Diego Padres'' ''San Diego'' ''Padres'',
     Team ''SEA'' ''Seattle Mariners'' ''Seattle'' ''Mariners'',
     Team ''SF'' ''San Francisco Giants'' ''San Francisco'' ''Giants'',
     Team ''STL'' ''St. Louis Cardinals'' ''St. Louis'' ''Cardinals'',
     Team ''TB'' ''Tampa Bay Rays'' ''Tampa Bay'' ''Rays'',
     Team ''TEX'' ''Texas Rangers'' ''Texas'' ''Rangers'',
     Team ''TOR'' ''Toronto Blue Jays'' ''Toronto'' ''Blue Jays'',
     Team ''WSH'' ''Washington Nationals'' ''Washington'' ''Nationals'']"

definition MLB_ALIASES :: "(string \<times> string) list" where
  "MLB_ALIASES = [
     (''a's'', ''ATH''),
     (''as'', ''ATH''),
     (''oakland athletics'', ''ATH'')]"

definition MLB_CODE_ALIASES :: "(string \<times> string) list" where
  "MLB_CODE_ALIASES = [(''AZ'', ''ARI'')]"

definition MLB_RESOLVER :: team_index where
  "MLB_RESOLVER = new_index MLB_TEAMS MLB_ALIASES MLB_CODE_ALIASES"

definition NFL_TEAMS :: "team list" where
  "NFL_TEAMS = [
     Team ''ARI'' ''Arizona Cardinals'' ''Arizona'' ''Cardinals'',
     Team ''ATL'' ''Atlanta Falcons'' ''Atlanta'' ''Falcons'',
     Team ''BAL'' ''Baltimore Ravens'' ''Baltimore'' ''Ravens'',
     Team ''BUF'' ''Buffalo Bills'' ''Buffalo'' ''Bills'',
     Team ''CAR'' ''Carolina Panthers'' ''Carolina'' ''Panthers'',
     Team ''CHI'' ''Chicago Bears'' ''Chicago'' ''Bears'',
     Team ''CIN'' ''Cincinnati Bengals'' ''Cincinnati'' ''Bengals'',
     Team ''CLE'' ''Cleveland Browns'' ''Cleveland'' ''Browns'',
     Team ''DAL'' ''Dallas Cowboys'' ''Dallas'' ''Cowboys'',
     Team ''DEN'' ''Denver Broncos'' ''Denver'' ''Broncos'',
     Team ''DET'' ''Detroit Lions'' ''Detroit'' ''Lions'',
     Team ''GB'' ''Green Bay Packers'' ''Green Bay'' ''Packers'',
     Team ''HOU'' ''Houston Texans'' ''Houston'' ''Texans'',
     Team ''IND'' ''Indianapolis Colts'' ''Indianapolis'' ''Colts'',
     Team ''JAX'' ''Jacksonville Jaguars'' ''Jacksonville'' ''Jaguars'',
     Team ''KC'' ''Kansas City Chiefs'' ''Kansas City'' ''Chiefs'',
     Team ''LV'' ''Las Vegas Raiders'' ''Las Vegas'' ''Raiders'',
     Team ''LAC'' ''Los Angeles Chargers'' ''Los Angeles'' ''Chargers'',
     Team ''LAR'' ''Los Angeles Rams'' ''Los Angeles'' ''Rams'',
     Team ''MIA'' ''Miami Dolphins'' ''Miami'' ''Dolphins'',
     Team ''MIN'' ''Minnesota Vikings'' ''Minnesota'' ''Vikings'',
     Team ''NE'' ''New England Patriots'' ''New England'' ''Patriots'',
     Team ''NO'' ''New Orleans Saints'' ''New Orleans'' ''Saints'',
     Team ''NYG'' ''New York Giants'' ''New York'' ''Giants'',
     Team ''NYJ'' ''New York Jets'' ''New York'' ''Jets'',
     Team ''PHI'' ''Philadelphia Eagles'' ''Philadelphia'' ''Eagles'',
     Team ''PIT'' ''Pittsburgh Steelers'' ''Pittsburgh'' ''Steelers'',
     Team ''SF'' ''San Francisco 49ers'' ''San Francisco'' ''49ers'',
     Team ''SEA'' ''Seattle Seahawks'' ''Seattle'' ''Seahawks'',
     Team ''TB'' ''Tampa Bay Buccaneers'' ''Tampa Bay'' ''Buccaneers'',
     Team ''TEN'' ''Tennessee Titans'' ''Tennessee'' ''Titans'',
     Team ''WAS'' ''Washington Commanders'' ''Washington'' ''Commanders'']"

definition NFL_CODE_ALIASES :: "(string \<times> string) list" where
  "NFL_CODE_ALIASES = [(''JAC'', ''JAX'')]"

definition NFL_RESOLVER :: team_index where
  "NFL_RESOLVER = new_index NFL_TEAMS [] NFL_CODE_ALIASES"

definition WNBA_TEAMS :: "team list" where
  "WNBA_TEAMS = [
     Team ''ATL'' ''Atlanta Dream'' ''Atlanta'' ''Dream'',
     Team ''CHI'' ''Chicago Sky'' ''Chicago'' ''Sky'',
     Team ''CONN'' ''Connecticut Sun'' ''Connecticut'' ''Sun'',
     Team ''DAL'' ''Dallas Wings'' ''Dallas'' ''Wings'',
     Team ''GS'' ''Golden State Valkyries'' ''Golden State'' ''Valkyries'',
     Team ''IND'' ''Indiana Fever'' ''Indiana'' ''Fever'',
     Team ''LA'' ''Los Angeles Sparks'' ''Los Angeles'' ''Sparks'',
     Team ''LV'' ''Las Vegas Aces'' ''Las Vegas'' ''Aces'',
     Team ''MIN'' ''Minnesota Lynx'' ''Minnesota'' ''Lynx'',
     Team ''NY'' ''New York Liberty'' ''New York'' ''Liberty'',
     Team ''PDX'' ''Portland Fire'' ''Portland'' ''Fire'',
     Team ''PHX'' ''Phoenix Mercury'' ''Phoenix'' ''Mercury'',
     Team ''SEA'' ''Seattle Storm'' ''Seattle'' ''Storm'',
     Team ''TOR'' ''Toronto Tempo'' ''Toronto'' ''Tempo'',
     Team ''WSH'' ''Washington Mystics'' ''Washington'' ''Mystics'']"

definition WNBA_RESOLVER :: team_index where
  "WNBA_RESOLVER = new_index WNBA_TEAMS [] []"

definition NBA_TEAMS :: "team list" where
  "NBA_TEAMS = [
     Team ''ATL'' ''Atlanta Hawks'' ''Atlanta'' ''Hawks'',
     Team ''BOS'' ''Boston Celtics'' ''Boston'' ''Celtics'',
     Team ''BKN'' ''Brooklyn Nets'' ''Brooklyn'' ''Nets'',
     Team ''CHA'' ''Charlotte Hornets'' ''Charlotte'' ''Hornets'',
     Team ''CHI'' ''Chicago Bulls'' ''Chicago'' ''Bulls'',
     Team ''CLE'' ''Cleveland Cavaliers'' ''Cleveland'' ''Cavaliers'',
     Team ''DAL'' ''Dallas Mavericks'' ''Dallas'' ''Mavericks'',
     Team ''DEN'' ''Denver Nuggets'' ''Denver'' ''Nuggets'',
     Team ''DET'' ''Detroit Pistons'' ''Detroit'' ''Pistons'',
     Team ''GS'' ''Golden State Warriors'' ''Golden State'' ''Warriors'',
     Team ''HOU'' ''Houston Rockets'' ''Houston'' ''Rockets'',
     Team ''IND'' ''Indiana Pacers'' ''Indiana'' ''Pacers'',
     Team ''LAC'' ''Los Angeles Clippers'' ''Los Angeles'' ''Clippers'',
     Team ''LAL'' ''Los Angeles Lakers'' ''Los Angeles'' ''Lakers'',
     Team ''MEM'' ''Memphis Grizzlies'' ''Memphis'' ''Grizzlies'',
     Team ''MIA'' ''Miami Heat'' ''Miami'' ''Heat'',
     Team ''MIL'' ''Milwaukee Bucks'' ''Milwaukee'' ''Bucks'',
     Team ''MIN'' ''Minnesota Timberwolves'' ''Minnesota'' ''Timberwolves'',
     Team ''NO'' ''New Orleans Pelicans'' ''New Orleans'' ''Pelicans'',
     Team ''NYK'' ''New York Knicks'' ''New York'' ''Knicks'',
     Team ''OKC'' ''Oklahoma City Thunder'' ''Oklahoma City'' ''Thunder'',
     Team ''ORL'' ''Orlando Magic'' ''Orlando'' ''Magic'',
     Team ''PHI'' ''Philadelphia 76ers'' ''Philadelphia'' ''76ers'',
     Team ''PHX'' ''Phoenix Suns'' ''Phoenix'' ''Suns'',
     Team ''POR'' ''Portland Trail Blazers'' ''Portland'' ''Trail Blazers'',
     Team ''SAC'' ''Sacramento Kings'' ''Sacramento'' ''Kings'',
     Team ''SA'' ''San Antonio Spurs'' ''San Antonio'' ''Spurs'',
     Team ''TOR'' ''Toronto Raptors'' ''Toronto'' ''Raptors'',
     Team ''UTA'' ''Utah Jazz'' ''Utah'' ''Jazz'',
     Team ''WAS'' ''Washington Wizards'' ''Washington'' ''Wizards'']"

definition NBA_RESOLVER :: team_index where
  "NBA_RESOLVER = new_index NBA_TEAMS [] []"

definition CFB_TEAMS :: "team list" where
  "CFB_TEAMS = [
     Team ''AFA'' ''Air Force Falcons'' ''Air Force'' ''Falcons'',
     Team ''AKR'' ''Akron Zips'' ''Akron'' ''Zips'',
     Team ''ALBY'' ''University at Albany Great Danes'' ''University at Albany'' ''Great Danes'',
     Team ''ALCN'' ''Alcorn St. Braves'' ''Alcorn St.'' ''Braves'',
     Team ''APP'' ''Appalachian St. Mountaineers'' ''Appalachian St.'' ''Mountaineers'',
     Team ''ARIZ'' ''Arizona Wildcats'' ''Arizona'' ''Wildcats'',
     Team ''ARK'' ''Arkansas Razorbacks'' ''Arkansas'' ''Razorbacks'',
     Team ''ARMY'' ''Army Black Knights'' ''Army'' ''Black Knights'',
     Team ''ARPB'' ''Arkansas-Pine Bluff Golden Lions'' ''Arkansas-Pine Bluff'' ''Golden Lions'',
     Team ''ARST'' ''Arkansas St. Red Wolves'' ''Arkansas St.'' ''Red Wolves'',
     Team ''ASU'' ''Arizona St. Sun Devils'' ''Arizona St.'' ''Sun Devils'',
     Team ''AUB'' ''Auburn Tigers'' ''Auburn'' ''Tigers'',
     Team ''BALL'' ''Ball St. Cardinals'' ''Ball St.'' ''Cardinals'',
     Team ''BAY'' ''Baylor Bears'' ''Baylor'' ''Bears'',
     Team ''BC'' ''Boston College Eagles'' ''Boston College'' ''Eagles'',
     Team ''BGSU'' ''Bowling Green Falcons'' ''Bowling Green'' ''Falcons'',
     Team ''BRY'' ''Bryant Bulldogs'' ''Bryant'' ''Bulldogs'',
     Team ''BSU'' ''Boise St. Broncos'' ''Boise St.'' ''Broncos'',
     Team ''BUFF'' ''Buffalo Bulls'' ''Buffalo'' ''Bulls'',
     Team ''CAL'' ''California Golden Bears'' ''California'' ''Golden Bears'',
     Team ''CCAR'' ''Coastal Carolina Chanticleers'' ''Coastal Carolina'' ''Chanticleers'',
     Team ''CHAR'' ''Charlotte 49ers'' ''Charlotte'' ''49ers'',
     Team ''CHSO'' ''Charleston Southern Buccaneers'' ''Charleston Southern'' ''Buccaneers'',
     Team ''CIN'' ''Cincinnati Bearcats'' ''Cincinnati'' ''Bearcats'',
     Team ''CIT'' ''The Citadel Bulldogs'' ''The Citadel'' ''Bulldogs'',
     Team ''CLEM'' ''Clemson Tigers'' ''Clemson'' ''Tigers'',
     Team ''CMU'' ''Central Michigan Chippewas'' ''Central Michigan'' ''Chippewas'',
     Team ''COLO'' ''Colorado Buffaloes'' ''Colorado'' ''Buffaloes'',
     Team ''COOK'' ''Bethune-Cookman Wildcats'' ''Bethune-Cookman'' ''Wildcats'',
     Team ''CSU'' ''Colorado St. Rams'' ''Colorado St.'' ''Rams'',
     Team ''DEL'' ''Delaware Fightin' Blue Hens'' ''Delaware'' ''Fightin' Blue Hens'',
     Team ''DUKE'' ''Duke Blue Devils'' ''Duke'' ''Blue Devils'',
     Team ''DUQ'' ''Duquesne Dukes'' ''Duquesne'' ''Dukes'',
     Team ''ECU'' ''East Carolina Pirates'' ''East Carolina'' ''Pirates'',
     Team ''EIU'' ''Eastern Illinois Panthers'' ''Eastern Illinois'' ''Panthers'',
     Team ''EKY'' ''Eastern Kentucky Colonels'' ''Eastern Kentucky'' ''Colonels'',
     Team ''EMU'' ''Eastern Michigan Eagles'' ''Eastern Michigan'' ''Eagles'',
     Team ''FAU'' ''Florida Atlantic Owls'' ''Florida Atlantic'' ''Owls'',
     Team ''FIU'' ''Florida International Panthers'' ''Florida International'' ''Panthers'',
     Team ''FLA'' ''Florida Gators'' ''Florida'' ''Gators'',
     Team ''FRES'' ''Fresno St. Bulldogs'' ''Fresno St.'' ''Bulldogs'',
     Team ''FSU'' ''Florida St. Seminoles'' ''Florida St.'' ''Seminoles'',
     Team ''FUR'' ''Furman Paladins'' ''Furman'' ''Paladins'',
     Team ''GASO'' ''Georgia Southern Eagles'' ''Georgia Southern'' ''Eagles'',
     Team ''GT'' ''Georgia Tech Yellow Jackets'' ''Georgia Tech'' ''Yellow Jackets'',
     Team ''HAW'' ''Hawai'i Rainbow Warriors'' ''Hawai'i'' ''Rainbow Warriors'',
     Team ''HCU'' ''Houston Christian Huskies'' ''Houston Christian'' ''Huskies'',
     Team ''HOU'' ''Houston Cougars'' ''Houston'' ''Cougars'',
     Team ''IDHO'' ''Idaho Vandals'' ''Idaho'' ''Vandals'',
     Team ''IDST'' ''Idaho St. Bengals'' ''Idaho St.'' ''Bengals'',
     Team ''ILL'' ''Illinois Fighting Illini'' ''Illinois'' ''Fighting Illini'',
     Team ''IND'' ''Indiana Hoosiers'' ''Indiana'' ''Hoosiers'',
     Team ''INST'' ''Indiana St. Sycamores'' ''Indiana St.'' ''Sycamores'',
     Team ''IOWA'' ''Iowa Hawkeyes'' ''Iowa'' ''Hawkeyes'',
     Team ''ISU'' ''Iowa St. Cyclones'' ''Iowa St.'' ''Cyclones'',
     Team ''JMU'' ''James Madison Dukes'' ''James Madison'' ''Dukes'',
     Team ''JVST'' ''Jacksonville St. Gamecocks'' ''Jacksonville St.'' ''Gamecocks'',
     Team ''KENT'' ''Kent St. Golden Flashes'' ''Kent St.'' ''Golden Flashes'',
     Team ''KSU'' ''Kansas St. Wildcats'' ''Kansas St.'' ''Wildcats'',
     Team ''KU'' ''Kansas Jayhawks'' ''Kansas'' ''Jayhawks'',
     Team ''LAF'' ''Lafayette Leopards'' ''Lafayette'' ''Leopards'',
     Team ''LIB'' ''Liberty Flames'' ''Liberty'' ''Flames'',
     Team ''LIU'' ''LIU Sharks'' ''LIU'' ''Sharks'',
     Team ''LOU'' ''Louisville Cardinals'' ''Louisville'' ''Cardinals'',
     Team ''LSU'' ''LSU Tigers'' ''LSU'' ''Tigers'',
     Team ''LT'' ''Louisiana Tech Bulldogs'' ''Louisiana Tech'' ''Bulldogs'',
     Team ''MEM'' ''Memphis Tigers'' ''Memphis'' ''Tigers'',
     Team ''MIA'' ''Miami (FL) Hurricanes'' ''Miami (FL)'' ''Hurricanes'',
     Team ''MICH'' ''Michigan Wolverines'' ''Michigan'' ''Wolverines'',
     Team ''MINN'' ''Minnesota Golden Gophers'' ''Minnesota'' ''Golden Gophers'',
     Team ''MISS'' ''Ole Miss Rebels'' ''Ole Miss'' ''Rebels'',
     Team ''MIZZ'' ''Missouri Tigers'' ''Missouri'' ''Tigers'',
     Team ''MORG'' ''Morgan St. Bears'' ''Morgan St.'' ''Bears'',
     Team ''MRSH'' ''Marshall Thundering Herd'' ''Marshall'' ''Thundering Herd'',
     Team ''MSST'' ''Mississippi St. Bulldogs'' ''Mississippi St.'' ''Bulldogs'',
     Team ''MSU'' ''Michigan St. Spartans'' ''Michigan St.'' ''Spartans'',
     Team ''MURR'' ''Murray St. Racers'' ''Murray St.'' ''Racers'',
     Team ''NAU'' ''Northern Arizona Lumberjacks'' ''Northern Arizona'' ''Lumberjacks'',
     Team ''NAVY'' ''Navy Midshipmen'' ''Navy'' ''Midshipmen'',
     Team ''NCAT'' ''North Carolina A&T Aggies'' ''North Carolina A&T'' ''Aggies'',
     Team ''ND'' ''Notre Dame Fighting Irish'' ''Notre Dame'' ''Fighting Irish'',
     Team ''NEB'' ''Nebraska Cornhuskers'' ''Nebraska'' ''Cornhuskers'',
     Team ''NEV'' ''Nevada Wolf Pack'' ''Nevada'' ''Wolf Pack'',
     Team ''NICH'' ''Nicholls St. Colonels'' ''Nicholls St.'' ''Colonels'',
     Team ''NIU'' ''Northern Illinois Huskies'' ''Northern Illinois'' ''Huskies'',
     Team ''NMSU'' ''New Mexico St. Aggies'' ''New Mexico St.'' ''Aggies'',
     Team ''NORF'' ''Norfolk St. Spartans'' ''Norfolk St.'' ''Spartans'',
     Team ''NWST'' ''Northwestern St. Demons'' ''Northwestern St.'' ''Demons'',
     Team ''ODU'' ''Old Dominion Monarchs'' ''Old Dominion'' ''Monarchs'',
     Team ''OHIO'' ''Ohio Bobcats'' ''Ohio'' ''Bobcats'',
     Team ''OKLA'' ''Oklahoma Sooners'' ''Oklahoma'' ''Sooners'',
     Team ''OKST'' ''Oklahoma St. Cowboys'' ''Oklahoma St.'' ''Cowboys'',
     Team ''ORE'' ''Oregon Ducks'' ''Oregon'' ''Ducks'',
     Team ''ORST'' ''Oregon St. Beavers'' ''Oregon St.'' ''Beavers'',
     Team ''OSU'' ''Ohio St. Buckeyes'' ''Ohio St.'' ''Buckeyes'',
     Team ''PEAY'' ''Austin Peay Governors'' ''Austin Peay'' ''Governors'',
     Team ''PITT'' ''Pittsburgh Panthers'' ''Pittsburgh'' ''Panthers'',
     Team ''PRST'' ''Portland St. Vikings'' ''Portland St.'' ''Vikings'',
     Team ''PSU'' ''Penn St. Nittany Lions'' ''Penn St.'' ''Nittany Lions'',
     Team ''PUR'' ''Purdue Boilermakers'' ''Purdue'' ''Boilermakers'',
     Team ''RICE'' ''Rice Owls'' ''Rice'' ''Owls'',
     Team ''RUTG'' ''Rutgers Scarlet Knights'' ''Rutgers'' ''Scarlet Knights'',
     Team ''SAC'' ''Sacramento St. Hornets'' ''Sacramento St.'' ''Hornets'',
     Team ''SCAR'' ''South Carolina Gamecocks'' ''South Carolina'' ''Gamecocks'',
     Team ''SDSU'' ''San Diego St. Aztecs'' ''San Diego St.'' ''Aztecs'',
     Team ''SELA'' ''Southeastern Louisiana Lions'' ''Southeastern Louisiana'' ''Lions'',
     Team ''SEMO'' ''Southeast Missouri St. Redhawks'' ''Southeast Missouri St.'' ''Redhawks'',
     Team ''SJSU'' ''San Jose St. Spartans'' ''San Jose St.'' ''Spartans'',
     Team ''SMU'' ''SMU Mustangs'' ''SMU'' ''Mustangs'',
     Team ''STAN'' ''Stanford Cardinal'' ''Stanford'' ''Cardinal'',
     Team ''SYR'' ''Syracuse Orange'' ''Syracuse'' ''Orange'',
     Team ''TCU'' ''TCU Horned Frogs'' ''TCU'' ''Horned Frogs'',
     Team ''TEM'' ''Temple Owls'' ''Temple'' ''Owls'',
     Team ''TENN'' ''Tennessee Volunteers'' ''Tennessee'' ''Volunteers'',
     Team ''TEX'' ''Texas Longhorns'' ''Texas'' ''Longhorns'',
     Team ''TLSA'' ''Tulsa Golden Hurricane'' ''Tulsa'' ''Golden Hurricane'',
     Team ''TOL'' ''Toledo Rockets'' ''Toledo'' ''Rockets'',
     Team ''TOWS'' ''Towson Tigers'' ''Towson'' ''Tigers'',
     Team ''TROY'' ''Troy Trojans'' ''Troy'' ''Trojans'',
     Team ''TTU'' ''Texas Tech Red Raiders'' ''Texas Tech'' ''Red Raiders'',
     Team ''TULN'' ''Tulane Green Wave'' ''Tulane'' ''Green Wave'',
     Team ''TXST'' ''Texas St. Bobcats'' ''Texas St.'' ''Bobcats'',
     Team ''UAB'' ''UAB Blazers'' ''UAB'' ''Blazers'',
     Team ''UCF'' ''UCF Knights'' ''UCF'' ''Knights'',
     Team ''UCLA'' ''UCLA Bruins'' ''UCLA'' ''Bruins'',
     Team ''UK'' ''Kentucky Wildcats'' ''Kentucky'' ''Wildcats'',
     Team ''ULM'' ''Louisiana-Monroe Warhawks'' ''Louisiana-Monroe'' ''Warhawks'',
     Team ''UNA'' ''North Alabama Lions'' ''North Alabama'' ''Lions'',
     Team ''UNC'' ''North Carolina Tar Heels'' ''North Carolina'' ''Tar Heels'',
     Team ''UNH'' ''New Hampshire Wildcats'' ''New Hampshire'' ''Wildcats'',
     Team ''UNLV'' ''UNLV Runnin' Rebels'' ''UNLV'' ''Runnin' Rebels'',
     Team ''UNM'' ''New Mexico Lobos'' ''New Mexico'' ''Lobos'',
     Team ''UNT'' ''North Texas Mean Green'' ''North Texas'' ''Mean Green'',
     Team ''URI'' ''Rhode Island Rams'' ''Rhode Island'' ''Rams'',
     Team ''USA'' ''South Alabama Jaguars'' ''South Alabama'' ''Jaguars'',
     Team ''USC'' ''USC Trojans'' ''USC'' ''Trojans'',
     Team ''USF'' ''South Florida Bulls'' ''South Florida'' ''Bulls'',
     Team ''USM'' ''Southern Miss Golden Eagles'' ''Southern Miss'' ''Golden Eagles'',
     Team ''USU'' ''Utah St. Aggies'' ''Utah St.'' ''Aggies'',
     Team ''UTAH'' ''Utah Utes'' ''Utah'' ''Utes'',
     Team ''UTEP'' ''UTEP Miners'' ''UTEP'' ''Miners'',
     Team ''UVA'' ''Virginia Cavaliers'' ''Virginia'' ''Cavaliers'',
     Team ''VAN'' ''Vanderbilt Commodores'' ''Vanderbilt'' ''Commodores'',
     Team ''VMI'' ''VMI Keydets'' ''VMI'' ''Keydets'',
     Team ''VT'' ''Virginia Tech Hokies'' ''Virginia Tech'' ''Hokies'',
     Team ''WAKE'' ''Wake Forest Demon Deacons'' ''Wake Forest'' ''Demon Deacons'',
     Team ''WASH'' ''Washington Huskies'' ''Washington'' ''Huskies'',
     Team ''WIS'' ''Wisconsin Badgers'' ''Wisconsin'' ''Badgers'',
     Team ''WKU'' ''Western Kentucky Hilltoppers'' ''Western Kentucky'' ''Hilltoppers'',
     Team ''WMU'' ''Western Michigan Broncos'' ''Western Michigan'' ''Broncos'',
     Team ''WSU'' ''Washington St. Cougars'' ''Washington St.'' ''Cougars'',
     Team ''WVU'' ''West Virginia Mountaineers'' ''West Virginia'' ''Mountaineers'',
     Team ''WYO'' ''Wyoming Cowboys'' ''Wyoming'' ''Cowboys'',
     Team ''YSU'' ''Youngstown St. Penguins'' ''Youngstown St.'' ''Penguins'']"

definition CFB_ALIASES :: "(string \<times> string) list" where
  "CFB_ALIASES = [
     (''alcorn state'', ''ALCN''),
     (''appalachian state'', ''APP''),
     (''arizona state'', ''ASU''),
     (''arkansas state'', ''ARST''),
     (''ball state'', ''BALL''),
     (''boise state'', ''BSU''),
     (''colorado state'', ''CSU''),
     (''florida state'', ''FSU''),
     (''fresno state'', ''FRES''),
     (''idaho state'', ''IDST''),
     (''indiana state'', ''INST''),
     (''iowa state'', ''ISU''),
     (''jacksonville state'', ''JVST''),
     (''kansas state'', ''KSU''),
     (''kent state'', ''KENT''),
     (''michigan state'', ''MSU''),
     (''mississippi state'', ''MSST''),
     (''morgan state'', ''MORG''),
     (''murray state'', ''MURR''),
     (''new mexico state'', ''NMSU''),
     (''nicholls state'', ''NICH''),
     (''norfolk state'', ''NORF''),
     (''northwestern state'', ''NWST''),
     (''ohio state'', ''OSU''),
     (''oklahoma state'', ''OKST''),
     (''oregon state'', ''ORST''),
     (''penn state'', ''PSU''),
     (''portland state'', ''PRST''),
     (''sacramento state'', ''SAC''),
     (''san diego state'', ''SDSU''),
     (''san jose state'', ''SJSU''),
     (''southeast missouri state'', ''SEMO''),
     (''texas state'', ''TXST''),
     (''utah state'', ''USU''),
     (''washington state'', ''WSU''),
     (''youngstown state'', ''YSU'')]"

definition CFB_RESOLVER :: team_index where
  "CFB_RESOLVER = new_index CFB_TEAMS CFB_ALIASES []"

definition TEAM_MAPS :: "(string \<times> team_index) list" where
  "TEAM_MAPS = [(''mlb'', MLB_RESOLVER), (''nfl'', NFL_RESOLVER), (''nba'', NBA_RESOLVER)]"

subsection \<open>What the dictionaries hold\<close>

lemma index_by_lookup:
  "map_of (index_by key ts d) k = (case find (\<lambda>t. key t = k) (rev ts) of None \<Rightarrow> map_of d k | Some t \<Rightarrow> Some t)"
proof (induction ts rule: rev_induct)
  case (snoc t ts)
  then show ?case by (simp add: index_by_def)
qed (simp add: index_by_def)

lemma find_member: "find P xs = Some x \<Longrightarrow> x \<in> set xs \<and> P x"
  by (induction xs) (auto split: if_splits)

lemma index_by_Some: "map_of (index_by key ts []) k = Some t \<Longrightarrow> t \<in> set ts \<and> key t = k"
  using find_member [of "\<lambda>t. key t = k" "rev ts" t] by (simp add: index_by_lookup split: option.splits)

lemma index_by_None: "map_of (index_by key ts []) k = None \<longleftrightarrow> k \<notin> key ` set ts"
proof (cases "find (\<lambda>t. key t = k) (rev ts)")
  case None
  then have "k \<notin> key ` set ts" by (auto simp: find_None_iff)
  with None show ?thesis by (simp add: index_by_lookup)
next
  case (Some t)
  from find_member [OF this] Some show ?thesis by (auto simp: index_by_lookup)
qed

lemma add_names_lookup:
  "map_of (add_names ts d t) k = (if k = low (t_city t @ '' '' @ t_nick t) \<or> k = low_nick t \<and> unique_in low_nick ts t
     then Some t else map_of d k)"
  by (auto simp: add_names_def Let_def)

definition full_name_of :: "team list \<Rightarrow> string \<Rightarrow> team \<Rightarrow> bool" where
  "full_name_of ts k t \<longleftrightarrow> k = low (t_full t) \<or> k = low (t_city t @ '' '' @ t_nick t) \<or> k = low_nick t \<and> unique_in low_nick ts t"

lemma foldl_names_Some:
  "map_of (foldl (add_names ts) d us) k = Some t \<Longrightarrow> map_of d k = Some t \<or> t \<in> set us \<and> full_name_of ts k t"
  by (induction us rule: rev_induct) (auto simp: add_names_lookup full_name_of_def split: if_splits)

lemma foldl_names_None:
  "map_of (foldl (add_names ts) d us) k = None \<longleftrightarrow> map_of d k = None \<and>
     (\<forall>t \<in> set us. k \<noteq> low (t_city t @ '' '' @ t_nick t) \<and> \<not> (k = low_nick t \<and> unique_in low_nick ts t))"
  by (induction us rule: rev_induct) (auto simp: add_names_lookup)

lemma foldl_alias_Some:
  "map_of (foldl (add_alias codes key) d as) k = Some t \<Longrightarrow>
   map_of d k = Some t \<or> (\<exists>x \<in> set as. k = key (fst x) \<and> map_of codes (to_upper (snd x)) = Some t)"
  by (induction as rule: rev_induct) (auto simp: add_alias_def split: option.splits if_splits)

lemma foldl_alias_None:
  "map_of (foldl (add_alias codes key) d as) k = None \<longleftrightarrow>
   map_of d k = None \<and> (\<forall>x \<in> set as. k = key (fst x) \<longrightarrow> map_of codes (to_upper (snd x)) = None)"
  by (induction as rule: rev_induct) (auto simp: add_alias_def split: option.splits)

text \<open>The names a team of a roster goes by: its own, an alias, and its city where no other team shares it.\<close>

definition team_codes :: "team list \<Rightarrow> (string, team) dict" where
  "team_codes ts = index_by (\<lambda>t. to_upper (t_code t)) ts []"

definition alias_of :: "team list \<Rightarrow> (string \<times> string) list \<Rightarrow> string \<Rightarrow> team \<Rightarrow> bool" where
  "alias_of ts aliases k t \<longleftrightarrow> (\<exists>x \<in> set aliases. k = low (strip (fst x)) \<and> map_of (team_codes ts) (to_upper (snd x)) = Some t)"

definition bears :: "team list \<Rightarrow> (string \<times> string) list \<Rightarrow> string \<Rightarrow> team \<Rightarrow> bool" where
  "bears ts aliases k t \<longleftrightarrow> full_name_of ts k t \<or> alias_of ts aliases k t \<or> (k = low_city t \<and> unique_in low_city ts t)"

lemma new_index_fields:
  "ti_code (new_index ts al ca) = team_codes ts" "ti_prefix (new_index ts al ca) = index_by prefix_key ts []"
  "ti_full (new_index ts al ca) = foldl (add_alias (team_codes ts) (\<lambda>a. low (strip a)))
     (foldl (add_names ts) (index_by (\<lambda>t. low (t_full t)) ts []) ts) al"
  "ti_city (new_index ts al ca) = index_by low_city (filter (unique_in low_city ts) ts) []"
  "ti_alias (new_index ts al ca) = foldl (add_alias (team_codes ts) to_upper) [] ca"
  by (simp_all add: new_index_def Let_def team_codes_def)

lemma team_codes_in: "map_of (team_codes ts) c = Some t \<Longrightarrow> t \<in> set ts \<and> to_upper (t_code t) = c"
  unfolding team_codes_def by (drule index_by_Some) simp

lemma ti_full_Some:
  assumes "map_of (ti_full (new_index ts al ca)) k = Some t"
  shows "t \<in> set ts \<and> (full_name_of ts k t \<or> alias_of ts al k t)"
  using assms unfolding new_index_fields
  by (auto dest!: foldl_alias_Some foldl_names_Some index_by_Some simp: full_name_of_def alias_of_def dest: team_codes_in)

lemma ti_full_None:
  "map_of (ti_full (new_index ts al ca)) k = None \<longleftrightarrow> (\<forall>t \<in> set ts. \<not> full_name_of ts k t \<and> \<not> alias_of ts al k t)"
  unfolding new_index_fields foldl_alias_None foldl_names_None index_by_None
proof -
  have "(\<forall>x \<in> set al. k = low (strip (fst x)) \<longrightarrow> map_of (team_codes ts) (to_upper (snd x)) = None) \<longleftrightarrow> (\<forall>t. \<not> alias_of ts al k t)"
    unfolding alias_of_def by (metis not_None_eq)
  also have "\<dots> \<longleftrightarrow> (\<forall>t \<in> set ts. \<not> alias_of ts al k t)"
    unfolding alias_of_def using team_codes_in by blast
  finally show "(k \<notin> (\<lambda>t. low (t_full t)) ` set ts \<and>
      (\<forall>t \<in> set ts. k \<noteq> low (t_city t @ '' '' @ t_nick t) \<and> \<not> (k = low_nick t \<and> unique_in low_nick ts t))) \<and>
      (\<forall>x \<in> set al. k = low (strip (fst x)) \<longrightarrow> map_of (team_codes ts) (to_upper (snd x)) = None) \<longleftrightarrow>
      (\<forall>t \<in> set ts. \<not> full_name_of ts k t \<and> \<not> alias_of ts al k t)"
    unfolding full_name_of_def by blast
qed

lemma ti_city_iff:
  "map_of (ti_city (new_index ts al ca)) k = Some t \<longrightarrow> t \<in> set ts \<and> k = low_city t \<and> unique_in low_city ts t"
  "map_of (ti_city (new_index ts al ca)) k = None \<longleftrightarrow> (\<forall>t \<in> set ts. \<not> (k = low_city t \<and> unique_in low_city ts t))"
  unfolding new_index_fields index_by_None by (auto dest!: index_by_Some)

text \<open>
  A name from Polymarket resolves to a team of the roster exactly when some team goes by it, and then to one
  that does: a bare nickname or city that several teams share is no team's name and is not guessed at.
\<close>

theorem polymarket_name_resolution:
  "case by_polymarket_name (new_index ts al ca) name of
     Some t \<Rightarrow> t \<in> set ts \<and> bears ts al (low (strip name)) t
   | None \<Rightarrow> \<not> (\<exists>t \<in> set ts. bears ts al (low (strip name)) t)"
proof (cases "map_of (ti_full (new_index ts al ca)) (low (strip name))")
  case None
  then have no: "\<forall>t \<in> set ts. \<not> full_name_of ts (low (strip name)) t \<and> \<not> alias_of ts al (low (strip name)) t"
    unfolding ti_full_None .
  show ?thesis
  proof (cases "map_of (ti_city (new_index ts al ca)) (low (strip name))")
    case (Some t)
    with None ti_city_iff(1) show ?thesis by (auto simp: by_polymarket_name_def Let_def bears_def)
  next
    case c: None
    then have "\<forall>t \<in> set ts. \<not> (low (strip name) = low_city t \<and> unique_in low_city ts t)" by (simp only: ti_city_iff(2))
    with None c no show ?thesis by (auto simp: by_polymarket_name_def Let_def bears_def)
  qed
next
  case (Some t)
  from ti_full_Some [OF this] Some show ?thesis by (auto simp: by_polymarket_name_def Let_def bears_def)
qed

text \<open>
  A title from Kalshi resolves to a team that goes by it, or to one whose city stands before the title's last
  word and whose nickname starts with that word's first letter; that second reading is tried before the bare
  city. A title some team goes by always resolves.
\<close>

theorem kalshi_title_resolution:
  "case by_kalshi_title (new_index ts al ca) title of
     Some t \<Rightarrow> t \<in> set ts \<and> (bears ts al (low (strip title)) t \<or>
       (\<exists>city nick. split_last_word (strip title) = Some (city, nick) \<and> prefix_key t = (low city, to_upper (take 1 nick))))
   | None \<Rightarrow> \<not> (strip title \<noteq> [] \<and> (\<exists>t \<in> set ts. bears ts al (low (strip title)) t))"
proof -
  let ?ix = "new_index ts al ca" and ?n = "low (strip title)"
  let ?pre = "case split_last_word (strip title) of None \<Rightarrow> None
     | Some (city, nick) \<Rightarrow> map_of (ti_prefix ?ix) (low city, to_upper (take 1 nick))"
  consider "strip title = []" | t where "strip title \<noteq> []" "map_of (ti_full ?ix) ?n = Some t"
    | t where "strip title \<noteq> []" "map_of (ti_full ?ix) ?n = None" "?pre = Some t"
    | "strip title \<noteq> []" "map_of (ti_full ?ix) ?n = None" "?pre = None" by (cases "map_of (ti_full ?ix) ?n"; cases ?pre) auto
  then show ?thesis
  proof cases
    case 1
    then show ?thesis by (simp add: by_kalshi_title_def)
  next
    case 2
    with ti_full_Some [OF 2(2)] show ?thesis by (auto simp: by_kalshi_title_def Let_def bears_def)
  next
    case (3 t)
    then obtain city nick where c: "split_last_word (strip title) = Some (city, nick)"
      "map_of (ti_prefix ?ix) (low city, to_upper (take 1 nick)) = Some t" by (auto split: option.splits)
    then have "t \<in> set ts \<and> prefix_key t = (low city, to_upper (take 1 nick))"
      unfolding new_index_fields by (auto dest: index_by_Some)
    moreover have "by_kalshi_title ?ix title = Some t" using 3 c by (simp add: by_kalshi_title_def)
    ultimately show ?thesis using c(1) by auto
  next
    case 4
    then have r: "by_kalshi_title ?ix title = map_of (ti_city ?ix) ?n" by (simp add: by_kalshi_title_def Let_def)
    have no: "\<forall>t \<in> set ts. \<not> full_name_of ts ?n t \<and> \<not> alias_of ts al ?n t" using 4(2) unfolding ti_full_None .
    show ?thesis
    proof (cases "map_of (ti_city ?ix) ?n")
      case None
      then have "\<forall>t \<in> set ts. \<not> (?n = low_city t \<and> unique_in low_city ts t)" by (simp only: ti_city_iff(2))
      with None r no show ?thesis by (auto simp: bears_def)
    next
      case (Some t)
      with r ti_city_iff(1) show ?thesis by (auto simp: bears_def)
    qed
  qed
qed

text \<open>The first letter of the last word exists: a stripped title does not end in a space.\<close>

lemma strip_last: "strip s \<noteq> [] \<Longrightarrow> \<not> is_space (last (strip s))"
proof -
  assume "strip s \<noteq> []"
  then have ne: "dropWhile is_space (rev (dropWhile is_space s)) \<noteq> []" by (simp add: strip_def)
  then have "\<not> is_space (hd (dropWhile is_space (rev (dropWhile is_space s))))" by (rule hd_dropWhile)
  with ne show ?thesis by (simp add: strip_def last_rev)
qed

lemma last_word_nonempty: "split_last_word (strip s) = Some (a, b) \<Longrightarrow> b \<noteq> []"
proof
  assume 1: "split_last_word (strip s) = Some (a, b)" "b = []"
  then have ne: "strip s \<noteq> []" and "takeWhile (\<lambda>c. c \<noteq> CHR '' '') (rev (strip s)) = []"
    by (auto simp: split_last_word_def split: if_splits)
  then have "last (strip s) = CHR '' ''" by (cases "rev (strip s)") (auto simp: last_rev [symmetric] split: if_splits)
  with strip_last [OF ne] show False by (simp add: is_space_def)
qed

subsection \<open>Two schools read as another\<close>

text \<open>Comparison that stops at the first letter that differs, for evaluation.\<close>

fun low_eq :: "string \<Rightarrow> string \<Rightarrow> bool" where
  "low_eq [] k = (k = [])"
| "low_eq (c # cs) [] = False"
| "low_eq (c # cs) (d # ds) = (if lower c = d then low_eq cs ds else False)"

lemma low_eq_iff: "low_eq s k \<longleftrightarrow> low s = k"
  by (induction s k rule: low_eq.induct) (auto simp: low_def)

lemma cfb_lookup:
  assumes "strip title = n" "n \<noteq> []" "low n = k" "split_last_word n = Some (city, nick)" "(low city, to_upper (take 1 nick)) = c"
    and "list_all (\<lambda>t. \<not> low_eq (t_full t) k \<and> \<not> low_eq (t_city t @ '' '' @ t_nick t) k \<and> \<not> low_eq (t_nick t) k) CFB_TEAMS"
    "list_all (\<lambda>x. \<not> low_eq (strip (fst x)) k) CFB_ALIASES"
    "find (\<lambda>t. if low_eq (t_city t) (fst c) then to_upper (take 1 (t_nick t)) = snd c else False) (rev CFB_TEAMS) = Some t"
  shows "by_kalshi_title CFB_RESOLVER title = Some t"
proof -
  have "map_of (ti_full CFB_RESOLVER) k = None"
    unfolding CFB_RESOLVER_def ti_full_None using assms(6,7) by (auto simp: low_eq_iff list_all_iff alias_of_def full_name_of_def low_nick_def)
  moreover have "(\<lambda>t. if low_eq (t_city t) (fst c) then to_upper (take 1 (t_nick t)) = snd c else False) = (\<lambda>t. prefix_key t = c)"
    by (auto simp: low_eq_iff prefix_key_def prod_eq_iff)
  with assms(8) have "find (\<lambda>t. prefix_key t = c) (rev CFB_TEAMS) = Some t" by simp
  then have "map_of (ti_prefix CFB_RESOLVER) (low city, to_upper (take 1 nick)) = Some t"
    unfolding CFB_RESOLVER_def new_index_fields index_by_lookup assms(5) by simp
  ultimately show ?thesis using assms(1-4) by (simp add: by_kalshi_title_def Let_def)
qed

text \<open>
  In the college roster the title "Oklahoma St.", which is the city the roster itself gives Oklahoma St.,
  resolves to Oklahoma, and "Houston Christian" to Houston: the last word is taken for a shortened nickname.
\<close>

theorem cfb_titles_misread:
  "by_kalshi_title CFB_RESOLVER ''Oklahoma St.'' = Some (Team ''OKLA'' ''Oklahoma Sooners'' ''Oklahoma'' ''Sooners'') \<and>
   Team ''OKST'' ''Oklahoma St. Cowboys'' ''Oklahoma St.'' ''Cowboys'' \<in> set CFB_TEAMS \<and>
   by_kalshi_title CFB_RESOLVER ''Houston Christian'' = Some (Team ''HOU'' ''Houston Cougars'' ''Houston'' ''Cougars'') \<and>
   Team ''HCU'' ''Houston Christian Huskies'' ''Houston Christian'' ''Huskies'' \<in> set CFB_TEAMS"
proof (intro conjI)
  show "by_kalshi_title CFB_RESOLVER ''Oklahoma St.'' = Some (Team ''OKLA'' ''Oklahoma Sooners'' ''Oklahoma'' ''Sooners'')"
    by (rule cfb_lookup [of _ "''Oklahoma St.''" "''oklahoma st.''" "''Oklahoma''" "''St.''" "(''oklahoma'', ''S'')"]) code_simp+
  show "by_kalshi_title CFB_RESOLVER ''Houston Christian'' = Some (Team ''HOU'' ''Houston Cougars'' ''Houston'' ''Cougars'')"
    by (rule cfb_lookup [of _ "''Houston Christian''" "''houston christian''" "''Houston''" "''Christian''" "(''houston'', ''C'')"]) code_simp+
qed (simp_all add: CFB_TEAMS_def)

end
