(* ===== verification/Tickers.thy ===== *)
theory Tickers
  imports Matcher Teams
begin

section \<open>Tickers, dates and requests of the listings\<close>

text \<open>
  The helpers of \<open>arbys/discovery/kalshi_sports.py\<close>, \<open>kalshi_totals.py\<close> and \<open>kalshi_spreads.py\<close>, and
  \<open>_eastern_date\<close> of \<open>polymarket_us.py\<close>: reading a date and a start from an event ticker, splitting its pair of
  team codes, and the retried GET. An instant is its microseconds since the epoch; the calendar is the
  proleptic Gregorian one of \<open>datetime\<close>, and America/New_York changes by the rules in force since 1987.
\<close>

subsection \<open>The calendar\<close>

definition days_in_month :: "int \<Rightarrow> int \<Rightarrow> int" where
  "days_in_month y m = (if m = 2 then (if is_leap y then 29 else 28) else if m \<in> {4, 6, 9, 11} then 30 else 31)"

definition valid_date :: "date \<Rightarrow> bool" where
  "valid_date d = (case d of (y, m, dd) \<Rightarrow> 1 \<le> y \<and> y \<le> 9999 \<and> 1 \<le> m \<and> m \<le> 12 \<and> 1 \<le> dd \<and> dd \<le> days_in_month y m)"

text \<open>\<open>date.fromordinal\<close>: the year by its estimate from 400-year cycles, then the month.\<close>

definition year_of :: "int \<Rightarrow> int" where
  "year_of n = (let y = (n * 400) div 146097 + 1 in
     if days_before_year (y + 1) < n then y + 1 else if n \<le> days_before_year y then y - 1 else y)"

definition month_of :: "int \<Rightarrow> int \<Rightarrow> int" where
  "month_of y r = (case find (\<lambda>m. days_before_month y m < r) [12, 11, 10, 9, 8, 7, 6, 5, 4, 3, 2, 1] of None \<Rightarrow> 1 | Some m \<Rightarrow> m)"

definition fromordinal :: "int \<Rightarrow> date" where
  "fromordinal n = (let y = year_of n; r = n - days_before_year y; m = month_of y r in (y, m, r - days_before_month y m))"

definition EPOCH :: int where
  "EPOCH = 719163"

subsection \<open>Eastern time\<close>

definition sunday_from :: "int \<Rightarrow> int" where
  "sunday_from n = n + (- n) mod 7"

definition dst_first :: "int \<Rightarrow> int" where
  "dst_first y = sunday_from (toordinal (if 2007 \<le> y then (y, 3, 8) else (y, 4, 1)))"

definition dst_last :: "int \<Rightarrow> int" where
  "dst_last y = sunday_from (toordinal (if 2007 \<le> y then (y, 11, 1) else (y, 10, 25)))"

text \<open>
  Seconds since the midnight before ordinal 0, on the wall or in UTC. A wall time that occurs twice is its first
  occurrence and one that does not occur counts as standard time, as \<open>zoneinfo\<close> has it for \<open>fold=0\<close>.
\<close>

definition wall_offset :: "int \<Rightarrow> int \<Rightarrow> int" where
  "wall_offset y w = (if dst_first y * 86400 + 3 * 3600 \<le> w \<and> w < dst_last y * 86400 + 2 * 3600 then - 4 * 3600 else - 5 * 3600)"

definition utc_offset :: "int \<Rightarrow> int \<Rightarrow> int" where
  "utc_offset y u = (if dst_first y * 86400 + 7 * 3600 \<le> u \<and> u < dst_last y * 86400 + 6 * 3600 then - 4 * 3600 else - 5 * 3600)"

definition eastern_to_utc :: "date \<Rightarrow> int \<Rightarrow> int \<Rightarrow> int" where
  "eastern_to_utc d hh mm = (let w = toordinal d * 86400 + hh * 3600 + mm * 60 in
     (w - wall_offset (fst d) w - EPOCH * 86400) * 1000000)"

definition eastern_date :: "int \<Rightarrow> date" where
  "eastern_date t = (let u = t div 1000000 + EPOCH * 86400 in
     fromordinal ((u + utc_offset (fst (fromordinal (u div 86400))) u) div 86400))"

subsection \<open>Tickers\<close>

definition MONTHS :: "(string \<times> int) list" where
  "MONTHS = [(''JAN'', 1), (''FEB'', 2), (''MAR'', 3), (''APR'', 4), (''MAY'', 5), (''JUN'', 6),
     (''JUL'', 7), (''AUG'', 8), (''SEP'', 9), (''OCT'', 10), (''NOV'', 11), (''DEC'', 12)]"

definition slice :: "nat \<Rightarrow> nat \<Rightarrow> 'a list \<Rightarrow> 'a list" where
  "slice i j s = take (j - i) (drop i s)"

definition parse_ticker_date :: "string \<Rightarrow> date option" where
  "parse_ticker_date ticker = (case split_once ''-'' ticker of None \<Rightarrow> None | Some (_, tail) \<Rightarrow>
     if length tail < 7 then None
     else case map_of MONTHS (slice 2 5 tail) of None \<Rightarrow> None | Some mon \<Rightarrow>
       (case (py_int (slice 0 2 tail), py_int (slice 5 7 tail)) of
          (Some yy, Some dd) \<Rightarrow> (let d = (2000 + yy, mon, dd) in if valid_date d then Some d else None)
        | _ \<Rightarrow> None))"

definition parse_ticker_start :: "string \<Rightarrow> int option" where
  "parse_ticker_start ticker = (case split_once ''-'' ticker of None \<Rightarrow> None | Some (_, tail) \<Rightarrow>
     if length tail < 11 then None
     else case map_of MONTHS (slice 2 5 tail) of None \<Rightarrow> None | Some mon \<Rightarrow>
       if \<not> list_all is_digit (slice 7 9 tail @ slice 9 11 tail) then None
       else (case (py_int (slice 0 2 tail), py_int (slice 5 7 tail)) of
          (Some yy, Some dd) \<Rightarrow> (let d = (2000 + yy, mon, dd); hh = digits_val (slice 7 9 tail); mm = digits_val (slice 9 11 tail)
             in if valid_date d \<and> hh \<le> 23 \<and> mm \<le> 59 then Some (eastern_to_utc d hh mm) else None)
        | _ \<Rightarrow> None))"

text \<open>\<open>_TICKER_RE\<close>: the letters after the date, where a newline may end the ticker.\<close>

definition is_upper :: "char \<Rightarrow> bool" where
  "is_upper c \<longleftrightarrow> c \<in> set ''ABCDEFGHIJKLMNOPQRSTUVWXYZ''"

definition code_part :: "string \<Rightarrow> string option" where
  "code_part s = (let body = (if s \<noteq> [] \<and> last s = CHR 10 then butlast s else s) in
     if body \<noteq> [] \<and> list_all is_upper body then Some body else None)"

definition ticker_codes :: "string \<Rightarrow> string option" where
  "ticker_codes ticker = (case split_once ''-'' ticker of None \<Rightarrow> None | Some (series, tail) \<Rightarrow>
     if series \<noteq> [] \<and> list_all (\<lambda>c. is_upper c \<or> is_digit c) series \<and> 7 \<le> length tail \<and>
       list_all is_digit (slice 0 2 tail) \<and> list_all is_upper (slice 2 5 tail) \<and> list_all is_digit (slice 5 7 tail)
     then (let rest = drop 7 tail in
       if 4 \<le> length rest \<and> list_all is_digit (take 4 rest) then code_part (drop 4 rest) else code_part rest)
     else None)"

definition split_team_codes :: "string \<Rightarrow> team_index \<Rightarrow> (string \<times> string) option" where
  "split_team_codes codes ix = map_option (\<lambda>i. (take i codes, drop i codes))
     (find (\<lambda>i. by_code ix (take i codes) \<noteq> None \<and> by_code ix (drop i codes) \<noteq> None) [2..<length codes - 1])"

text \<open>\<open>str.isdigit\<close> on Latin-1 also takes the superscripts.\<close>

definition py_isdigit :: "string \<Rightarrow> bool" where
  "py_isdigit s \<longleftrightarrow> s \<noteq> [] \<and> list_all (\<lambda>c. is_digit c \<or> (of_char c :: nat) \<in> set [178, 179, 185]) s"

definition anchor_code_from_ticker :: "string \<Rightarrow> string \<Rightarrow> string \<times> string \<Rightarrow> string option" where
  "anchor_code_from_ticker market_ticker event_ticker codes =
     (let pre = event_ticker @ ''-'' in
      if \<not> prefix pre market_ticker then None
      else let rest = drop (length pre) market_ticker;
               hits = filter (\<lambda>c. prefix c rest \<and> py_isdigit (drop (length c) rest)) [fst codes, snd codes]
           in if length hits = 1 then Some (hd hits) else None)"

subsection \<open>Requests\<close>

text \<open>
  One reply of a venue: a transport error, or a status with the raw \<open>Retry-After\<close> header and the decoded body,
  \<open>None\<close> when it is not JSON.
\<close>

datatype 'b answer = NoAnswer | Answer nat "string option" "'b option"

definition MAX_RETRIES :: nat where
  "MAX_RETRIES = 4"

text \<open>The header's seconds, the backoff without one; text that is not a number raises.\<close>

definition retry_delay :: "string option \<Rightarrow> rat \<Rightarrow> pynum option" where
  "retry_delay retry_after delay = (case or_else retry_after [] of [] \<Rightarrow> Some (Fin delay) | c # cs \<Rightarrow> py_float (c # cs))"

function retry_loop :: "(nat \<Rightarrow> 'b answer) \<Rightarrow> nat \<Rightarrow> rat \<Rightarrow> (nat \<times> 'b option) res \<times> pynum list" where
  "retry_loop client attempt delay = (case client attempt of
     NoAnswer \<Rightarrow> (Inl HTTPError, [])
   | Answer status retry_after body \<Rightarrow>
       if status \<noteq> 429 \<or> MAX_RETRIES \<le> attempt then (Inr (status, body), [])
       else (case retry_delay retry_after delay of
           None \<Rightarrow> (Inl ValueError, [])
         | Some w \<Rightarrow> (case retry_loop client (Suc attempt) (min (delay * 2) 8) of (r, ws) \<Rightarrow> (r, w # ws))))"
  by pat_completeness auto

termination by (relation "measure (\<lambda>(_, attempt, _). MAX_RETRIES - attempt)") auto

declare retry_loop.simps [simp del]

definition get_with_retry :: "(nat \<Rightarrow> 'b answer) \<Rightarrow> (nat \<times> 'b option) res" where
  "get_with_retry client = fst (retry_loop client 0 (1/2))"

definition raise_for_status :: "nat \<times> 'b option \<Rightarrow> (nat \<times> 'b option) res" where
  "raise_for_status r = (if 200 \<le> fst r \<and> fst r \<le> 299 then Inr r else Inl HTTPError)"

definition json :: "nat \<times> 'b option \<Rightarrow> 'b res" where
  "json r = (case snd r of None \<Rightarrow> Inl ValueError | Some b \<Rightarrow> Inr b)"

subsection \<open>The calendar is the calendar\<close>

lemma leap_year_length: "days_before_year (y + 1) = days_before_year y + (if is_leap y then 366 else 365)"
proof -
  have d: "y div k = (y - 1) div k + (if y mod k = 0 then 1 else 0)" if "0 < k" for k :: int
  proof -
    have "0 \<le> y mod k" "y mod k < k" using that by simp_all
    then have "(y - 1) div k = y div k - (if y mod k = 0 then 1 else 0)"
      using div_mult_mod_eq [of y k]
      by (intro int_div_pos_eq [where r = "if y mod k = 0 then k - 1 else y mod k - 1"]) (auto simp: algebra_simps)
    then show ?thesis by simp
  qed
  have m: "y mod 400 = 0 \<Longrightarrow> y mod 100 = 0" "y mod 100 = 0 \<Longrightarrow> y mod 4 = 0"
    by (auto simp: mod_eq_0_iff_dvd elim: dvd_trans [rotated])
  define a b c where "a = (y - 1) div 4" and "b = (y - 1) div 100" and "c = (y - 1) div 400"
  have e: "y div 4 = a + (if y mod 4 = 0 then 1 else 0)" "y div 100 = b + (if y mod 100 = 0 then 1 else 0)"
    "y div 400 = c + (if y mod 400 = 0 then 1 else 0)" unfolding a_def b_def c_def by (rule d; simp)+
  have "days_before_year (y + 1) = y * 365 + y div 4 - y div 100 + y div 400" "days_before_year y = (y - 1) * 365 + a - b + c"
    by (simp_all add: days_before_year_def a_def b_def c_def)
  then show ?thesis unfolding is_leap_def e using m by (cases "y mod 4 = 0"; cases "y mod 100 = 0"; cases "y mod 400 = 0") simp_all
qed

lemma days_before_year_bounds:
  "146097 * (y - 1) - 699 \<le> 400 * days_before_year y" "400 * days_before_year y \<le> 146097 * (y - 1) + 396"
proof -
  define k a b c where "k = y - 1" and "a = k div 4" and "b = k div 100" and "c = k div 400"
  have b: "4 * a \<le> k" "k \<le> 4 * a + 3" "100 * b \<le> k" "k \<le> 100 * b + 99" "400 * c \<le> k" "k \<le> 400 * c + 399"
    unfolding a_def b_def c_def by presburger+
  have "146097 * k - 699 \<le> 400 * (k * 365 + a - b + c)" using b by (simp add: algebra_simps)
  moreover have "400 * (k * 365 + a - b + c) \<le> 146097 * k + 396" using b by (simp add: algebra_simps)
  ultimately show "146097 * (y - 1) - 699 \<le> 400 * days_before_year y" "400 * days_before_year y \<le> 146097 * (y - 1) + 396"
    unfolding days_before_year_def k_def a_def b_def c_def by simp_all
qed

lemma days_before_year_mono: "y \<le> z \<Longrightarrow> days_before_year y \<le> days_before_year z"
proof (induction rule: int_ge_induct)
  case (step z)
  have "days_before_year z \<le> days_before_year (z + 1)" unfolding leap_year_length by simp
  with step show ?case by (rule_tac order_trans)
qed simp

lemma year_of_bounds: "days_before_year (year_of n) < n \<and> n \<le> days_before_year (year_of n + 1)"
proof -
  define q where "q = n * 400 div 146097"
  have q: "146097 * q \<le> 400 * n" "400 * n < 146097 * (q + 1)" 
  proof -
    define r where "r = n * 400 mod 146097"
    have "0 \<le> r" "r < 146097" "q * 146097 + r = n * 400" by (simp_all add: q_def r_def)
    then show "146097 * q \<le> 400 * n" "400 * n < 146097 * (q + 1)" by simp_all
  qed
  have lo: "days_before_year q < n" using days_before_year_bounds(2) [of q] q(1) by simp
  have hi: "n \<le> days_before_year (q + 3)" using days_before_year_bounds(1) [of "q + 3"] q(2) by simp
  show ?thesis
    using lo hi by (auto simp: year_of_def Let_def q_def [symmetric] algebra_simps)
qed

lemma year_of_unique: "days_before_year y < n \<Longrightarrow> n \<le> days_before_year (y + 1) \<Longrightarrow> year_of n = y"
  using year_of_bounds [of n] days_before_year_mono [of "y + 1" "year_of n"] days_before_year_mono [of "year_of n + 1" y]
  by (cases "year_of n" y rule: linorder_cases) auto

lemma valid_month:
  assumes "valid_date (y, m, d)"
  shows "m = 1 \<or> m = 2 \<or> m = 3 \<or> m = 4 \<or> m = 5 \<or> m = 6 \<or> m = 7 \<or> m = 8 \<or> m = 9 \<or> m = 10 \<or> m = 11 \<or> m = 12"
  using assms unfolding valid_date_def by (simp, presburger)

lemma month_of_correct:
  assumes "valid_date (y, m, d)"
  shows "month_of y (days_before_month y m + d) = m \<and> 0 < days_before_month y m + d \<and>
    days_before_month y m + d \<le> (if is_leap y then 366 else 365)"
  using valid_month [OF assms] assms
  by (elim disjE) (simp_all add: valid_date_def month_of_def days_before_month_def days_in_month_def split: if_splits)

lemma toordinal_in_year:
  assumes "valid_date (y, m, d)"
  shows "days_before_year y < toordinal (y, m, d) \<and> toordinal (y, m, d) \<le> days_before_year (y + 1)"
  using month_of_correct [OF assms] by (simp add: leap_year_length)

lemma fromordinal_toordinal: "valid_date d \<Longrightarrow> fromordinal (toordinal d) = d"
proof (cases d)
  case (fields y m dd)
  assume "valid_date d"
  with fields have v: "valid_date (y, m, dd)" by simp
  have "year_of (toordinal d) = y" using year_of_unique toordinal_in_year [OF v] fields by simp
  with month_of_correct [OF v] fields show ?thesis by (simp add: fromordinal_def Let_def add.commute)
qed
subsection \<open>Eastern time there and back\<close>

lemma sunday_bounds: "n \<le> sunday_from n \<and> sunday_from n \<le> n + 6"
proof -
  have "0 \<le> (- n) mod 7" "(- n) mod 7 < 7" by simp_all
  then show ?thesis by (simp add: sunday_from_def)
qed

lemma dst_bounds:
  "days_before_year y + 60 < dst_first y" "dst_first y + 150 < dst_last y" "dst_last y + 50 < days_before_year (y + 1)"
  using sunday_bounds [of "toordinal (y, 3, 8)"] sunday_bounds [of "toordinal (y, 4, 1)"] sunday_bounds [of "toordinal (y, 11, 1)"]
    sunday_bounds [of "toordinal (y, 10, 25)"]
  by (auto simp: dst_first_def dst_last_def days_before_month_def leap_year_length)

text \<open>The date of an instant is the date on the Eastern wall from which it was made; an hour that is skipped moves within its day.\<close>

lemma eastern_date_of_start:
  assumes "valid_date d" "0 \<le> hh" "hh \<le> 23" "0 \<le> mm" "mm \<le> 59"
  shows "eastern_date (eastern_to_utc d hh mm) = d"
proof -
  obtain y m dd where d: "d = (y, m, dd)" by (cases d)
  define D where "D = toordinal d"
  define t where "t = hh * 3600 + mm * 60"
  define w where "w = D * 86400 + t"
  define u where "u = w - wall_offset y w"
  have t: "0 \<le> t" "t < 86400" using assms by (auto simp: t_def)
  have D: "days_before_year y < D" "D \<le> days_before_year (y + 1)"
    using toordinal_in_year [of y m dd] assms(1) by (simp_all add: D_def d)
  have start: "eastern_to_utc d hh mm div 1000000 + EPOCH * 86400 = u"
    by (simp add: eastern_to_utc_def Let_def u_def w_def t_def D_def d add.assoc)
  have day: "x div 86400 = D" if "D * 86400 \<le> x" "x < D * 86400 + 86400" for x
    using that by (intro int_div_pos_eq [where r = "x - D * 86400"]) simp_all
  have wd: "w div 86400 = D" by (rule day) (use t in \<open>simp_all add: w_def\<close>)
  have ud: "u div 86400 = D \<or> u div 86400 = D + 1"
  proof -
    have u: "D * 86400 \<le> u" "u < D * 86400 + 86400 + 86400" using t by (auto simp: u_def w_def wall_offset_def)
    show ?thesis
    proof (cases "u < D * 86400 + 86400")
      case False
      with u have "u div 86400 = D + 1" by (intro int_div_pos_eq [where r = "u - D * 86400 - 86400"]) simp_all
      then show ?thesis ..
    qed (use u day in simp)
  qed
  have utc: "(u + utc_offset (year_of (u div 86400)) u) div 86400 = D"
  proof (cases "u div 86400 \<le> days_before_year (y + 1)")
    case True
    with ud D have "year_of (u div 86400) = y" by (intro year_of_unique) auto
    moreover have "u + utc_offset y u = w \<or> (u + utc_offset y u = w + 3600 \<and> dst_first y * 86400 + 2 * 3600 \<le> w \<and> w < dst_first y * 86400 + 3 * 3600)"
      using dst_bounds [of y] by (auto simp: u_def wall_offset_def utc_offset_def)
    moreover have "w + 3600 < D * 86400 + 86400" if "dst_first y * 86400 + 2 * 3600 \<le> w" "w < dst_first y * 86400 + 3 * 3600"
    proof -
      have "w div 86400 = dst_first y" using that by (intro int_div_pos_eq [where r = "w - dst_first y * 86400"]) simp_all
      then have "dst_first y = D" using wd by simp
      with that show ?thesis by simp
    qed
    ultimately show ?thesis using wd day [of "w + 3600"] t by (auto simp: w_def)
  next
    case False
    with ud D have eq: "u div 86400 = days_before_year (y + 1) + 1" by auto
    then have yr: "year_of (u div 86400) = y + 1" using leap_year_length [of "y + 1"] by (intro year_of_unique) auto
    have "(days_before_year (y + 1) + 1) * 86400 \<le> u" "u < (days_before_year (y + 1) + 2) * 86400"
      using eq by auto
    then have "w = u - 5 * 3600" "utc_offset (y + 1) u = - 5 * 3600"
      using dst_bounds [of y] dst_bounds [of "y + 1"] by (auto simp: u_def wall_offset_def utc_offset_def split: if_splits)
    with yr wd show ?thesis by simp
  qed
  have fst: "fst (fromordinal n) = year_of n" for n by (simp add: fromordinal_def Let_def)
  show ?thesis
    unfolding eastern_date_def start Let_def fst utc using fromordinal_toordinal [OF assms(1)] by (simp add: D_def)
qed
lemma digits_val_nonneg: "list_all is_digit s \<Longrightarrow> 0 \<le> digits_val s"
proof -
  have "0 \<le> digit_val c" if "is_digit c" for c using that by (auto simp: is_digit_def digit_val_def)
  then show "list_all is_digit s \<Longrightarrow> 0 \<le> digits_val s"
    by (induction s rule: rev_induct) (simp_all add: digits_val_def)
qed

lemma parse_ticker_start_parts:
  assumes "parse_ticker_start ticker = Some t"
  obtains d hh mm where "parse_ticker_date ticker = Some d" "valid_date d" "0 \<le> hh" "hh \<le> 23" "0 \<le> mm" "mm \<le> 59"
    "t = eastern_to_utc d hh mm"
proof -
  from assms obtain series tail mon yy dd where 1: "split_once ''-'' ticker = Some (series, tail)" "11 \<le> length tail"
    "map_of MONTHS (slice 2 5 tail) = Some mon" "py_int (slice 0 2 tail) = Some yy" "py_int (slice 5 7 tail) = Some dd"
    "list_all is_digit (slice 7 9 tail)" "list_all is_digit (slice 9 11 tail)" "valid_date (2000 + yy, mon, dd)"
    "digits_val (slice 7 9 tail) \<le> 23" "digits_val (slice 9 11 tail) \<le> 59"
    "t = eastern_to_utc (2000 + yy, mon, dd) (digits_val (slice 7 9 tail)) (digits_val (slice 9 11 tail))"
    by (auto simp: parse_ticker_start_def Let_def split: option.splits if_splits)
  then have "parse_ticker_date ticker = Some (2000 + yy, mon, dd)" by (simp add: parse_ticker_date_def)
  from that [OF this 1(8) _ 1(9) _ 1(10) 1(11)] digits_val_nonneg [OF 1(6)] digits_val_nonneg [OF 1(7)] show ?thesis by blast
qed

text \<open>
  The start read from a ticker falls, in New York, on the date read from the same ticker: the two venues'
  dates agree when their instants do, also for evening games that are on the next day in UTC.
\<close>

theorem ticker_start_on_ticker_date:
  assumes "parse_ticker_start ticker = Some t"
  shows "parse_ticker_date ticker = Some (eastern_date t)"
  using assms by (rule parse_ticker_start_parts) (simp add: eastern_date_of_start)

subsection \<open>Splitting the pair of codes\<close>

definition code_keys :: "team list \<Rightarrow> (string \<times> string) list \<Rightarrow> string list" where
  "code_keys ts ca = map (\<lambda>t. to_upper (t_code t)) ts @
     map (\<lambda>x. to_upper (fst x)) (filter (\<lambda>x. to_upper (snd x) \<in> set (map (\<lambda>t. to_upper (t_code t)) ts)) ca)"

lemma team_codes_None: "map_of (team_codes ts) k = None \<longleftrightarrow> k \<notin> set (map (\<lambda>t. to_upper (t_code t)) ts)"
  by (simp add: team_codes_def index_by_None)

lemma by_code_known: "by_code (new_index ts al ca) c \<noteq> None \<longleftrightarrow> to_upper c \<in> set (code_keys ts ca)"
proof -
  have "by_code (new_index ts al ca) c \<noteq> None \<longleftrightarrow> map_of (team_codes ts) (to_upper c) \<noteq> None \<or>
      map_of (foldl (add_alias (team_codes ts) to_upper) [] ca) (to_upper c) \<noteq> None"
    unfolding by_code_def new_index_fields by (cases "map_of (team_codes ts) (to_upper c)") simp_all
  also have "\<dots> \<longleftrightarrow> to_upper c \<in> set (code_keys ts ca)"
    unfolding foldl_alias_None team_codes_None code_keys_def by auto
  finally show ?thesis .
qed

text \<open>
  A code that extends another is split wrongly only if what remains of it, followed by the second code, is a code:
  \<open>splits_clear\<close> looks for that. \<open>extends\<close> lists the proper extensions.
\<close>

definition splits_clear :: "string list \<Rightarrow> (string \<times> string) list \<Rightarrow> bool" where
  "splits_clear keys ext \<longleftrightarrow> list_all (\<lambda>(c, d). list_all (\<lambda>x. if prefix (drop (length c) d) x
     then drop (length (drop (length c) d)) x \<notin> set keys else True) keys) ext"

lemma to_upper_part: "to_upper s = s \<Longrightarrow> to_upper (take i s) = take i s \<and> to_upper (drop i s) = drop i s"
proof -
  assume e: "to_upper s = s"
  have "take i (to_upper s) = take i s" "drop i (to_upper s) = drop i s" by (simp_all add: e)
  then show ?thesis unfolding to_upper_def take_map drop_map ..
qed

lemma find_first:
  assumes "k \<in> set [m..<n]" "P k" "\<And>i. m \<le> i \<Longrightarrow> i < k \<Longrightarrow> \<not> P i"
  shows "find P [m..<n] = Some k"
proof -
  have "[m..<n] = [m..<k] @ k # [Suc k..<n]" 
  proof -
    have "m \<le> k" "k < n" using assms(1) by simp_all
    then have "[m..<n] = [m..<k] @ [k..<n]" using upt_add_eq_append [of m k "n - k"] by simp
    with \<open>k < n\<close> show ?thesis by (simp add: upt_conv_Cons)
  qed
  moreover have "find P [m..<k] = None" using assms(3) by (auto simp: find_None_iff)
  moreover have "find P (xs @ ys) = (case find P xs of None \<Rightarrow> find P ys | Some x \<Rightarrow> Some x)" for xs ys
    by (induction xs) auto
  ultimately show ?thesis using assms(2) by simp
qed

lemma split_codes:
  assumes known: "\<And>c. by_code ix c \<noteq> None \<longleftrightarrow> to_upper c \<in> set keys"
    and keys: "\<forall>c \<in> set keys. to_upper c = c \<and> 2 \<le> length c"
    and ext: "\<And>c d. c \<in> set keys \<Longrightarrow> d \<in> set keys \<Longrightarrow> strict_prefix c d \<Longrightarrow> (c, d) \<in> set ext" and "splits_clear keys ext"
    and "a \<in> set keys" "b \<in> set keys"
  shows "split_team_codes (a @ b) ix = Some (a, b)"
proof -
  let ?P = "\<lambda>i. by_code ix (take i (a @ b)) \<noteq> None \<and> by_code ix (drop i (a @ b)) \<noteq> None"
  have up: "to_upper (a @ b) = a @ b" "2 \<le> length a" "2 \<le> length b" using keys assms(5,6) by (auto simp: to_upper_def)
  have "\<not> ?P i" if i: "2 \<le> i" "i < length a" for i
  proof
    let ?c = "take i a" and ?x = "drop i a @ b"
    assume "?P i"
    then have c: "?c \<in> set keys" and x: "?x \<in> set keys" unfolding known using to_upper_part [OF up(1), of i] i by simp_all
    have "strict_prefix ?c a" using i by (simp add: strict_prefix_def take_is_prefix)
    from ext [OF c assms(5) this] assms(4) x have "prefix (drop (length ?c) a) ?x \<Longrightarrow> drop (length (drop (length ?c) a)) ?x \<notin> set keys"
      unfolding splits_clear_def list_all_iff by fastforce
    with i assms(6) show False by simp
  qed
  moreover have "?P (length a)" unfolding known using keys assms(5,6) by simp
  moreover have "length a \<in> set [2..<length (a @ b) - 1]" using up by auto
  ultimately have "find ?P [2..<length (a @ b) - 1] = Some (length a)" by (intro find_first) blast+
  then show ?thesis by (simp add: split_team_codes_def)
qed

text \<open>In a sorted list the extensions of a code follow it at once.\<close>

fun extends :: "string list \<Rightarrow> (string \<times> string) list" where
  "extends [] = []"
| "extends (c # cs) = map (Pair c) (takeWhile (prefix c) cs) @ extends cs"

lemma prefix_between: "prefix c d \<Longrightarrow> c \<le> e \<Longrightarrow> e \<le> d \<Longrightarrow> prefix c e" for c d e :: string
proof (induction c arbitrary: d e)
  case (Cons x c)
  then show ?case by (cases d; cases e) auto
qed simp

lemma prefix_le: "prefix c d \<Longrightarrow> c \<le> d" for c d :: string
proof (induction c arbitrary: d)
  case (Cons x c)
  then show ?case by (cases d) auto
qed simp

lemma extends_complete:
  "sorted cs \<Longrightarrow> c \<in> set cs \<Longrightarrow> d \<in> set cs \<Longrightarrow> strict_prefix c d \<Longrightarrow> (c, d) \<in> set (extends cs)" for c d :: string
proof (induction cs)
  case (Cons x cs)
  show ?case
  proof (cases "c = x \<and> d \<in> set cs")
    case True
    then obtain us vs where cs: "cs = us @ d # vs" by (auto simp: in_set_conv_decomp)
    have cd: "prefix c d" using Cons.prems(4) by (simp add: strict_prefix_def)
    have "prefix c e" if "e \<in> set us" for e
    proof -
      have "c \<le> e" "e \<le> d" using Cons.prems(1) True that by (simp_all add: cs sorted_append)
      with cd show ?thesis by (rule prefix_between)
    qed
    then have "takeWhile (prefix c) cs = us @ d # takeWhile (prefix c) vs" using cd by (simp add: cs)
    with True show ?thesis by simp
  next
    case False
    with Cons.prems have "c \<in> set cs" "d \<in> set cs" using prefix_le [of c d] by (auto simp: strict_prefix_def dest: antisym)
    with Cons show ?thesis by simp
  qed
qed simp

definition roster_ok :: "team list \<Rightarrow> (string \<times> string) list \<Rightarrow> bool" where
  "roster_ok ts ca \<longleftrightarrow> (let keys = code_keys ts ca in
     list_all (\<lambda>c. to_upper c = c \<and> 2 \<le> length c) keys \<and> splits_clear keys (extends (sort keys)))"

lemma roster_splits:
  assumes "roster_ok ts ca" "by_code (new_index ts al ca) a \<noteq> None" "by_code (new_index ts al ca) b \<noteq> None"
    and "to_upper a = a" "to_upper b = b"
  shows "split_team_codes (a @ b) (new_index ts al ca) = Some (a, b)"
proof (rule split_codes [OF by_code_known])
  show "\<And>c d. c \<in> set (code_keys ts ca) \<Longrightarrow> d \<in> set (code_keys ts ca) \<Longrightarrow> strict_prefix c d \<Longrightarrow>
      (c, d) \<in> set (extends (sort (code_keys ts ca)))"
    by (rule extends_complete) simp_all
  show "a \<in> set (code_keys ts ca)" "b \<in> set (code_keys ts ca)" using assms(2-5) unfolding by_code_known by simp_all
qed (use assms(1) in \<open>simp_all add: roster_ok_def Let_def list_all_iff\<close>)

lemma rosters_ok:
  "roster_ok MLB_TEAMS MLB_CODE_ALIASES" "roster_ok NFL_TEAMS NFL_CODE_ALIASES" "roster_ok NBA_TEAMS []" "roster_ok WNBA_TEAMS []"
  by code_simp+

lemma cfb_roster_ok: "roster_ok CFB_TEAMS []"
  by code_simp

definition RESOLVERS :: "team_index list" where
  "RESOLVERS = [MLB_RESOLVER, NFL_RESOLVER, NBA_RESOLVER, WNBA_RESOLVER, CFB_RESOLVER]"

text \<open>
  In every league, any two ticker codes a roster knows, its aliases for Kalshi's spellings included, are
  recovered from their concatenation.
\<close>

theorem team_pair_splits:
  assumes "ix \<in> set RESOLVERS" "by_code ix a \<noteq> None" "by_code ix b \<noteq> None" "to_upper a = a" "to_upper b = b"
  shows "split_team_codes (a @ b) ix = Some (a, b)"
proof -
  from assms(1) consider "ix = MLB_RESOLVER" | "ix = NFL_RESOLVER" | "ix = NBA_RESOLVER" | "ix = WNBA_RESOLVER" | "ix = CFB_RESOLVER"
    by (auto simp: RESOLVERS_def)
  moreover have ?thesis if "ix = new_index ts al ca" "roster_ok ts ca" for ts al ca
    using roster_splits [OF that(2)] assms(2-5) unfolding that(1) by blast
  ultimately show ?thesis
    using rosters_ok cfb_roster_ok MLB_RESOLVER_def NFL_RESOLVER_def NBA_RESOLVER_def WNBA_RESOLVER_def CFB_RESOLVER_def by metis
qed

theorem team_pair_splits_witness:
  "split_team_codes ''CLEJAC'' NFL_RESOLVER = Some (''CLE'', ''JAC'')"
proof -
  have "''CLE'' \<in> set (code_keys NFL_TEAMS NFL_CODE_ALIASES)" "''JAC'' \<in> set (code_keys NFL_TEAMS NFL_CODE_ALIASES)" by code_simp+
  moreover have up: "to_upper ''CLE'' = ''CLE''" "to_upper ''JAC'' = ''JAC''" by code_simp+
  ultimately have "by_code NFL_RESOLVER ''CLE'' \<noteq> None" "by_code NFL_RESOLVER ''JAC'' \<noteq> None"
    unfolding NFL_RESOLVER_def by_code_known by simp_all
  from team_pair_splits [OF _ this up] show ?thesis by (simp add: RESOLVERS_def)
qed

theorem ticker_start_on_ticker_date_witness:
  "\<exists>t. parse_ticker_start ''KXMLBGAME-26AUG102210KCLAD'' = Some t \<and> parse_ticker_date ''KXMLBGAME-26AUG102210KCLAD'' = Some (eastern_date t) \<and>
     eastern_date t = (2026, 8, 10)"
proof -
  have 1: "parse_ticker_start ''KXMLBGAME-26AUG102210KCLAD'' = Some (eastern_to_utc (2026, 8, 10) 22 10)" by code_simp
  moreover have "parse_ticker_date ''KXMLBGAME-26AUG102210KCLAD'' = Some (2026, 8, 10)" by code_simp
  ultimately show ?thesis using ticker_start_on_ticker_date [OF 1] by simp
qed

subsection \<open>Retries\<close>

lemma retry_waits: "length (snd (retry_loop client n d)) \<le> MAX_RETRIES - n"
proof (induction client n d rule: retry_loop.induct)
  case (1 client n d)
  show ?case
  proof (cases "client n")
    case (Answer status ra body)
    have "length (snd (retry_loop client (Suc n) (min (d * 2) 8))) < MAX_RETRIES - n"
      if "\<not> (status \<noteq> 429 \<or> MAX_RETRIES \<le> n)" "retry_delay ra d = Some w" for w
      using 1 [OF Answer that] that by linarith
    with Answer show ?thesis by (subst retry_loop.simps) (auto split: option.splits prod.splits)
  qed (subst retry_loop.simps, simp)
qed

lemma get_with_retry_ok:
  "get_with_retry client = Inr (status, body) \<Longrightarrow> \<exists>k retry_after. k \<le> MAX_RETRIES \<and> client k = Answer status retry_after body"
proof -
  have "fst (retry_loop client n d) = Inr (status, body) \<Longrightarrow> n \<le> MAX_RETRIES \<Longrightarrow>
      \<exists>k retry_after. k \<le> MAX_RETRIES \<and> client k = Answer status retry_after body" for n d
  proof (induction client n d rule: retry_loop.induct)
    case (1 client n d)
    from 1(2,3) show ?case
      by (subst (asm) retry_loop.simps)
        (use 1(1) in \<open>auto split: answer.splits option.splits prod.splits list.splits if_splits simp: Suc_le_eq\<close>)
  qed
  then show "get_with_retry client = Inr (status, body) \<Longrightarrow> ?thesis" by (simp add: get_with_retry_def MAX_RETRIES_def)
qed

end
