(* ===== verification/Kalshi_Listings.thy ===== *)
theory Kalshi_Listings
  imports Tickers Kalshi_Book
begin

section \<open>What Kalshi lists\<close>

text \<open>
  The fetchers of \<open>arbys/discovery/kalshi_sports.py\<close>, \<open>kalshi_totals.py\<close>, \<open>kalshi_spreads.py\<close> and
  \<open>kalshi_tennis.py\<close>, with the player names of \<open>players.py\<close>: one venue game per moneyline event, per strike of a
  total, per team and strike of a spread. The HTTP client answers a series with its events and an event ticker
  with its markets; the fields of an event and a market have the types the venue documents, absent ones are
  \<open>None\<close>, and a strike is the text of its number. \<open>today\<close> is the current date; \<open>nfkd\<close> is what the Unicode tables
  of \<open>_normalize\<close> make of a name. The spacing between requests and the closing of the client are not modelled.
\<close>

record kalshi_event =
  ke_ticker :: "string option"
  ke_title :: "string option"

record listed_market =
  lm_ticker :: "string option"
  lm_yes_title :: "string option"
  lm_strike :: "string option"
  lm_strike_type :: "string option"

type_synonym event_client = "string \<Rightarrow> nat \<Rightarrow> kalshi_event list answer"
type_synonym market_client = "string \<Rightarrow> nat \<Rightarrow> listed_market list answer"

definition participant_of :: "team \<Rightarrow> participant" where
  "participant_of t = \<lparr>p_code = t_code t, p_name = t_full t\<rparr>"

definition kalshi_game ::
  "string \<Rightarrow> date \<Rightarrow> participant \<times> participant \<Rightarrow> (string, string) dict \<Rightarrow> string \<Rightarrow> int option \<Rightarrow> venue_game" where
  "kalshi_game sport d ps oids ref start = \<lparr>vg_sport = sport, vg_venue = ''kalshi'', vg_date = d, vg_teams = ps,
     vg_outcomes = oids, vg_ref = ref, vg_market = ''moneyline'', vg_line = None, vg_anchor = None, vg_start = start,
     vg_live = None, vg_ended = None\<rparr>"

text \<open>The events of a series, and the markets of an event.\<close>

definition list_events :: "event_client \<Rightarrow> string \<Rightarrow> kalshi_event list res" where
  "list_events client series = bindE (bindE (get_with_retry (client series)) raise_for_status) json"

definition horizon_or :: "env \<Rightarrow> int option \<Rightarrow> int" where
  "horizon_or env horizon = (case horizon of None \<Rightarrow> discovery_horizon_days env | Some d \<Rightarrow> d)"

definition series_for :: "(string \<times> string) list \<Rightarrow> string option \<Rightarrow> string \<Rightarrow> string res" where
  "series_for table series_ticker sport = (case or_else series_ticker [] of
     [] \<Rightarrow> (case map_of table sport of None \<Rightarrow> Inl ValueError | Some s \<Rightarrow> Inr s) | c # cs \<Rightarrow> Inr (c # cs))"

subsection \<open>Moneylines\<close>

definition SERIES_TICKERS :: "(string \<times> string) list" where
  "SERIES_TICKERS = [(''mlb'', ''KXMLBGAME''), (''nfl'', ''KXNFLGAME''), (''nba'', ''KXNBAGAME''),
     (''wnba'', ''KXWNBAGAME''), (''ncaaf'', ''KXNCAAFGAME'')]"

definition side_step ::
  "team_index \<Rightarrow> listed_market \<Rightarrow> (string, string) dict \<times> (string, team) dict \<Rightarrow> (string, string) dict \<times> (string, team) dict" where
  "side_step ix m st = (let ticker = or_else (lm_ticker m) []; title = or_else (lm_yes_title m) [] in
     if ticker = [] \<or> title = [] then st
     else case by_kalshi_title ix title of None \<Rightarrow> st
       | Some team \<Rightarrow> (dict_set (t_code team) (ticker @ '':YES'') (fst st), dict_set (t_code team) team (snd st)))"

definition parse_kalshi_event ::
  "market_client \<Rightarrow> team_index \<Rightarrow> string \<Rightarrow> date \<Rightarrow> int \<Rightarrow> kalshi_event \<Rightarrow> venue_game option res" where
  "parse_kalshi_event client ix sport today days ev = (let ticker = or_else (ke_ticker ev) [] in
     if ticker = [] then Inr None
     else case parse_ticker_date ticker of None \<Rightarrow> Inr None | Some d \<Rightarrow>
       if \<not> within_horizon d days today then Inr None
       else bindE (bindE (bindE (get_with_retry (client ticker)) raise_for_status) json) (\<lambda>markets.
         case fold (side_step ix) markets ([], []) of (oids, found) \<Rightarrow>
           if length found \<noteq> 2 then Inr None
           else Inr (Some (kalshi_game sport d (participant_of (snd (found ! 0)), participant_of (snd (found ! 1))) oids ticker
             (parse_ticker_start ticker)))))"

definition fetch_kalshi_team_games ::
  "event_client \<Rightarrow> market_client \<Rightarrow> env \<Rightarrow> date \<Rightarrow> team_index \<Rightarrow> string \<Rightarrow> string option \<Rightarrow> int option \<Rightarrow> venue_game list res" where
  "fetch_kalshi_team_games events client env today ix sport series_ticker horizon =
     bindE (series_for SERIES_TICKERS series_ticker sport) (\<lambda>series.
       bindE (list_events events series) (\<lambda>evs.
         bindE (mapE (parse_kalshi_event client ix sport today (horizon_or env horizon)) evs) (\<lambda>gs. Inr (List.map_filter id gs))))"

definition fetch_kalshi_mlb_games :: "event_client \<Rightarrow> market_client \<Rightarrow> env \<Rightarrow> date \<Rightarrow> team_index \<Rightarrow> venue_game list res" where
  "fetch_kalshi_mlb_games events client env today ix = fetch_kalshi_team_games events client env today ix ''mlb'' None None"

subsection \<open>Totals and spreads\<close>

definition TOTALS_SERIES :: "(string \<times> string) list" where
  "TOTALS_SERIES = [(''mlb'', ''KXMLBTOTAL''), (''nfl'', ''KXNFLTOTAL''), (''nba'', ''KXNBATOTAL''),
     (''wnba'', ''KXWNBATOTAL''), (''ncaaf'', ''KXNCAAFTOTAL'')]"

definition SPREADS_SERIES :: "(string \<times> string) list" where
  "SPREADS_SERIES = [(''mlb'', ''KXMLBSPREAD''), (''nfl'', ''KXNFLSPREAD''), (''ncaaf'', ''KXNCAAFSPREAD''),
     (''nba'', ''KXNBASPREAD''), (''wnba'', ''KXWNBASPREAD'')]"

text \<open>\<open>Decimal(str(strike))\<close>, \<open>None\<close> when the strike is absent or no number.\<close>

definition strike_line :: "string option \<Rightarrow> rat option" where
  "strike_line strike = (case strike of None \<Rightarrow> None | Some s \<Rightarrow> (case read_decimal s of Inl _ \<Rightarrow> None | Inr x \<Rightarrow> Some x))"

text \<open>What both parsers read of an event before its markets: date, raw codes and the two teams.\<close>

definition event_teams :: "team_index \<Rightarrow> date \<Rightarrow> int \<Rightarrow> string \<Rightarrow> (date \<times> (string \<times> string) \<times> team \<times> team) option" where
  "event_teams ix today days ticker = (case ticker_codes ticker of None \<Rightarrow> None | Some codes \<Rightarrow>
     case parse_ticker_date ticker of None \<Rightarrow> None | Some d \<Rightarrow>
     case split_team_codes codes ix of None \<Rightarrow> None | Some pair \<Rightarrow>
     case (by_code ix (fst pair), by_code ix (snd pair)) of
       (Some a, Some b) \<Rightarrow> if within_horizon d days today then Some (d, pair, a, b) else None
     | _ \<Rightarrow> None)"

definition markets_of :: "market_client \<Rightarrow> string \<Rightarrow> listed_market list res" where
  "markets_of client ticker = bindE (get_with_retry (client ticker)) (\<lambda>r. if fst r \<noteq> 200 then Inr [] else json r)"

definition total_game :: "string \<Rightarrow> string \<Rightarrow> date \<Rightarrow> team \<Rightarrow> team \<Rightarrow> listed_market \<Rightarrow> venue_game option" where
  "total_game sport ticker d a b mk = (let t = or_else (lm_ticker mk) [] in
     if t = [] then None
     else map_option (\<lambda>line. (kalshi_game sport d (participant_of a, participant_of b)
         [(OVER, t @ '':YES''), (UNDER, t @ '':NO'')] t (parse_ticker_start ticker))\<lparr>vg_market := ''total'', vg_line := Some line\<rparr>)
       (strike_line (lm_strike mk)))"

definition parse_totals_event ::
  "market_client \<Rightarrow> team_index \<Rightarrow> string \<Rightarrow> date \<Rightarrow> int \<Rightarrow> kalshi_event \<Rightarrow> venue_game list res" where
  "parse_totals_event client ix sport today days ev = (let ticker = or_else (ke_ticker ev) [] in
     case event_teams ix today days ticker of None \<Rightarrow> Inr []
     | Some (d, _, a, b) \<Rightarrow> bindE (markets_of client ticker) (\<lambda>ms. Inr (List.map_filter (total_game sport ticker d a b) ms)))"

definition EXPECTED_STRIKE_TYPE :: string where
  "EXPECTED_STRIKE_TYPE = ''greater''"

definition spread_game ::
  "string \<Rightarrow> string \<Rightarrow> date \<Rightarrow> string \<times> string \<Rightarrow> team \<Rightarrow> team \<Rightarrow> listed_market \<Rightarrow> venue_game option" where
  "spread_game sport ticker d pair a b mk = (let t = or_else (lm_ticker mk) [] in
     if t = [] then None
     else case anchor_code_from_ticker t ticker pair of None \<Rightarrow> None | Some raw \<Rightarrow>
       if lm_strike_type mk \<noteq> Some EXPECTED_STRIKE_TYPE then None
       else case strike_line (lm_strike mk) of None \<Rightarrow> None | Some line \<Rightarrow>
         if line \<le> 0 then None
         else (let (anchor, other) = (if raw = fst pair then (a, b) else (b, a)) in
           Some ((kalshi_game sport d (participant_of a, participant_of b)
             (dict_set (t_code other) (t @ '':NO'') [(t_code anchor, t @ '':YES'')]) t (parse_ticker_start ticker))
               \<lparr>vg_market := ''spread'', vg_line := Some line, vg_anchor := Some (t_code anchor)\<rparr>)))"

definition parse_spread_event ::
  "market_client \<Rightarrow> team_index \<Rightarrow> string \<Rightarrow> date \<Rightarrow> int \<Rightarrow> kalshi_event \<Rightarrow> venue_game list res" where
  "parse_spread_event client ix sport today days ev = (let ticker = or_else (ke_ticker ev) [] in
     case event_teams ix today days ticker of None \<Rightarrow> Inr []
     | Some (d, pair, a, b) \<Rightarrow> bindE (markets_of client ticker) (\<lambda>ms. Inr (List.map_filter (spread_game sport ticker d pair a b) ms)))"

definition fetch_kalshi_totals ::
  "event_client \<Rightarrow> market_client \<Rightarrow> env \<Rightarrow> date \<Rightarrow> team_index \<Rightarrow> string \<Rightarrow> string option \<Rightarrow> int option \<Rightarrow> venue_game list res" where
  "fetch_kalshi_totals events client env today ix sport series_ticker horizon =
     bindE (series_for TOTALS_SERIES series_ticker sport) (\<lambda>series.
       bindE (list_events events series) (\<lambda>evs.
         bindE (mapE (parse_totals_event client ix sport today (horizon_or env horizon)) evs) (\<lambda>gs. Inr (concat gs))))"

definition fetch_kalshi_spreads ::
  "event_client \<Rightarrow> market_client \<Rightarrow> env \<Rightarrow> date \<Rightarrow> team_index \<Rightarrow> string \<Rightarrow> string option \<Rightarrow> int option \<Rightarrow> venue_game list res" where
  "fetch_kalshi_spreads events client env today ix sport series_ticker horizon =
     bindE (series_for SPREADS_SERIES series_ticker sport) (\<lambda>series.
       bindE (list_events events series) (\<lambda>evs.
         bindE (mapE (parse_spread_event client ix sport today (horizon_or env horizon)) evs) (\<lambda>gs. Inr (concat gs))))"

subsection \<open>Players\<close>

definition last_word :: "string \<Rightarrow> string" where
  "last_word s = rev (takeWhile (\<lambda>c. \<not> is_space c) (rev (strip s)))"

definition last_name_code :: "(string \<Rightarrow> string) \<Rightarrow> string \<Rightarrow> string" where
  "last_name_code nfkd full_name = to_upper (last_word (nfkd full_name))"

text \<open>\<open>_VS_SPLIT\<close> at the head of a text: white space, \<open>vs\<close> in any case, perhaps a dot, white space; what follows it.\<close>

definition after_vs :: "string \<Rightarrow> string option" where
  "after_vs s = (let r = dropWhile is_space s; d = drop 2 r; e = (if take 1 d = ''.'' then drop 1 d else d) in
     if r \<noteq> s \<and> map lower (take 2 r) = ''vs'' \<and> e \<noteq> [] \<and> is_space (hd e) then Some (dropWhile is_space e) else None)"

fun split_vs :: "string \<Rightarrow> (string \<times> string) option" where
  "split_vs [] = None"
| "split_vs (c # cs) = (case after_vs (c # cs) of Some rest \<Rightarrow> Some ([], rest)
     | None \<Rightarrow> map_option (apfst ((#) c)) (split_vs cs))"

definition player :: "string \<Rightarrow> string \<Rightarrow> participant" where
  "player code full_name = \<lparr>p_code = code, p_name = full_name\<rparr>"

text \<open>A side whose code is not empty has a name, so the fallback of \<open>full_name\<close> to the code never applies.\<close>

definition parse_vs_title :: "(string \<Rightarrow> string) \<Rightarrow> string \<Rightarrow> (participant \<times> participant) option" where
  "parse_vs_title nfkd title = (case split_vs (strip title) of None \<Rightarrow> None
     | Some (left, right) \<Rightarrow> (let a = strip left; b = strip right; ca = last_name_code nfkd a; cb = last_name_code nfkd b in
         if ca = [] \<or> cb = [] \<or> ca = cb then None else Some (player ca a, player cb b)))"

definition TENNIS_SERIES :: "(string \<times> string) list" where
  "TENNIS_SERIES = [(''atp'', ''KXATPMATCH''), (''wta'', ''KXWTAMATCH'')]"

definition UFC_SERIES :: "(string \<times> string) list" where
  "UFC_SERIES = [(''ufc'', ''KXUFCFIGHT'')]"

definition player_step :: "participant \<times> participant \<Rightarrow> listed_market \<Rightarrow> (string, string) dict \<Rightarrow> (string, string) dict" where
  "player_step ps m oids = (let ticker = or_else (lm_ticker m) []; title = strip (or_else (lm_yes_title m) []) in
     if ticker = [] \<or> title = [] then oids
     else let code = to_upper (last_word title) in
       if code = p_code (fst ps) then dict_set code (ticker @ '':YES'') oids
       else if code = p_code (snd ps) then dict_set code (ticker @ '':YES'') oids
       else oids)"

definition parse_kalshi_tennis_event ::
  "(string \<Rightarrow> string) \<Rightarrow> market_client \<Rightarrow> string \<Rightarrow> date \<Rightarrow> kalshi_event \<Rightarrow> venue_game option res" where
  "parse_kalshi_tennis_event nfkd client sport today ev = (let ticker = or_else (ke_ticker ev) [] in
     if ticker = [] then Inr None
     else case parse_vs_title nfkd (or_else (ke_title ev) []) of None \<Rightarrow> Inr None
       | Some ps \<Rightarrow> bindE (markets_of client ticker) (\<lambda>markets.
           let oids = fold (player_step ps) markets [] in
           if length oids \<noteq> 2 then Inr None
           else Inr (Some (kalshi_game sport (case parse_ticker_date ticker of None \<Rightarrow> today | Some d \<Rightarrow> d) ps oids ticker
             (parse_ticker_start ticker)))))"

definition tennis_series_games ::
  "(string \<Rightarrow> string) \<Rightarrow> event_client \<Rightarrow> market_client \<Rightarrow> date \<Rightarrow> string \<times> string \<Rightarrow> venue_game list res" where
  "tennis_series_games nfkd events client today x = bindE (get_with_retry (events (snd x))) (\<lambda>r.
     if fst r \<noteq> 200 then Inr []
     else bindE (json r) (\<lambda>evs. bindE (mapE (parse_kalshi_tennis_event nfkd client (fst x) today) evs) (\<lambda>gs. Inr (List.map_filter id gs))))"

definition fetch_kalshi_tennis_matches ::
  "(string \<Rightarrow> string) \<Rightarrow> event_client \<Rightarrow> market_client \<Rightarrow> date \<Rightarrow> (string \<times> string) list \<Rightarrow> venue_game list res" where
  "fetch_kalshi_tennis_matches nfkd events client today series =
     bindE (mapE (tennis_series_games nfkd events client today) series) (\<lambda>gs. Inr (concat gs))"

fun drop_prefix :: "string \<Rightarrow> string list \<Rightarrow> string" where
  "drop_prefix title [] = title"
| "drop_prefix title (p # ps) = (if prefix (low p) (low title)
     then dropWhile (\<lambda>c. c \<in> set '' -:'') (drop (length p) title) else drop_prefix title ps)"

text \<open>\<open>strip_prefix\<close> drops a tournament name before a colon, or one of the given prefixes in any case.\<close>

definition strip_prefix :: "string \<Rightarrow> string list \<Rightarrow> string" where
  "strip_prefix title heads =
     (case split_once '':'' title of
        Some (_, tail) \<Rightarrow> if strip tail \<noteq> [] then strip tail else drop_prefix title heads
      | None \<Rightarrow> drop_prefix title heads)"

end
