(* ===== verification/Polymarket_Listings.thy ===== *)
theory Polymarket_Listings
  imports Kalshi_Listings
begin

section \<open>What Polymarket US lists\<close>

text \<open>
  \<open>arbys/discovery/polymarket_us.py\<close>: one request per league gives events with all their markets; moneylines,
  totals, spreads and head-to-head contests are read from the same events. Entries of the payload that are not
  objects are left out of the lists or \<open>None\<close>, a side is its \<open>long\<close> flag and its team, a line is the text of its
  number. \<open>fromiso\<close> is what \<open>datetime.fromisoformat\<close> reads from a text, in microseconds, an instant without a zone
  being taken for UTC as the code does.
\<close>

record pm_team =
  tm_abbrev :: "string option"
  tm_safe :: "string option"
  tm_name :: "string option"

record pm_market =
  mk_type :: string
  mk_slug :: "string option"
  mk_line :: "string option"
  mk_title :: "string option"
  mk_sides :: "(bool \<times> pm_team option) list"

record pm_event =
  pe_start :: "string option"
  pe_live :: "bool option"
  pe_ended :: "bool option"
  pe_teams :: "pm_team list"
  pe_markets :: "pm_market list"

type_synonym league_client = "string \<Rightarrow> pm_event list answer"

definition LEAGUE_SLUGS :: "(string \<times> string) list" where
  "LEAGUE_SLUGS = [(''mlb'', ''mlb''), (''nfl'', ''nfl''), (''nba'', ''nba''), (''wnba'', ''wnba''), (''ncaaf'', ''cfb'')]"

definition TENNIS_LEAGUES :: "string list" where
  "TENNIS_LEAGUES = [''atp'', ''wta'']"

definition MONEYLINE_TYPES :: "string list" where
  "MONEYLINE_TYPES = [''baseball_team_full_game_winner'', ''football_team_full_game_winner'', ''basketball_team_full_game_winner'']"

definition TENNIS_WINNER_TYPES :: "string list" where
  "TENNIS_WINNER_TYPES = [''tennis_match_winner'']"

definition UFC_LEAGUES :: "string list" where
  "UFC_LEAGUES = [''ufc'']"

definition UFC_WINNER_TYPES :: "string list" where
  "UFC_WINNER_TYPES = [''ufc_fight_winner'', ''moneyline'']"

definition TOTAL_TYPES :: "string list" where
  "TOTAL_TYPES = [''football_team_full_game_total'', ''baseball_team_full_game_total'', ''basketball_team_full_game_total'']"

definition SPREAD_TYPES :: "string list" where
  "SPREAD_TYPES = [''baseball_team_full_game_spread'', ''football_team_full_game_spread'', ''basketball_team_full_game_spread'']"

subsection \<open>Fields\<close>

text \<open>The text \<open>_parse_utc\<close> gives to \<open>fromisoformat\<close>.\<close>

definition iso_text :: "string \<Rightarrow> string" where
  "iso_text value = (let s = map (\<lambda>c. if c = CHR '' '' then CHR ''T'' else c) (strip value);
      s1 = (if s \<noteq> [] \<and> last s = CHR ''Z'' then butlast s @ ''+00:00'' else s)
    in if 3 \<le> length s1 \<and> s1 ! (length s1 - 3) \<in> set ''+-'' \<and> py_isdigit (drop (length s1 - 2) s1) then s1 @ '':00'' else s1)"

definition parse_utc :: "(string \<Rightarrow> int option) \<Rightarrow> string option \<Rightarrow> int option" where
  "parse_utc fromiso value = (case or_else value [] of [] \<Rightarrow> None | c # cs \<Rightarrow> fromiso (iso_text (c # cs)))"

definition sides :: "pm_market \<Rightarrow> (pm_team option \<times> pm_team option) option" where
  "sides m = (case (filter fst (mk_sides m), filter (\<lambda>s. \<not> fst s) (mk_sides m)) of
     ([l], [s]) \<Rightarrow> Some (snd l, snd s) | _ \<Rightarrow> None)"

definition resolve_team :: "team_index \<Rightarrow> pm_team option \<Rightarrow> team option" where
  "resolve_team ix team = (case team of None \<Rightarrow> None | Some t \<Rightarrow>
     let first = (\<lambda>f v. case or_else v [] of [] \<Rightarrow> None | c # cs \<Rightarrow> f (c # cs)) in
     case first (by_code ix) (tm_abbrev t) of Some found \<Rightarrow> Some found | None \<Rightarrow>
     case first (by_polymarket_name ix) (tm_safe t) of Some found \<Rightarrow> Some found | None \<Rightarrow>
       first (by_polymarket_name ix) (tm_name t))"

definition league_of :: "string \<Rightarrow> string" where
  "league_of sport = dict_get sport LEAGUE_SLUGS sport"

definition fetch_events :: "league_client \<Rightarrow> string \<Rightarrow> pm_event list res" where
  "fetch_events client league = (case client league of NoAnswer \<Rightarrow> Inl HTTPError
     | Answer status _ body \<Rightarrow> bindE (raise_for_status (status, body)) json)"

definition pm_game :: "string \<Rightarrow> int \<Rightarrow> pm_event \<Rightarrow> string \<Rightarrow> participant \<times> participant \<Rightarrow> (string, string) dict \<Rightarrow> venue_game" where
  "pm_game sport start ev slug ps oids = \<lparr>vg_sport = sport, vg_venue = ''polymarket_us'', vg_date = eastern_date start,
     vg_teams = ps, vg_outcomes = oids, vg_ref = slug, vg_market = ''moneyline'', vg_line = None, vg_anchor = None,
     vg_start = Some start, vg_live = pe_live ev, vg_ended = pe_ended ev\<rparr>"

text \<open>A dictionary display with two keys keeps the later value when they are equal.\<close>

definition long_short :: "string \<Rightarrow> string \<Rightarrow> string \<Rightarrow> (string, string) dict" where
  "long_short slug long short = dict_set short (slug @ '':SHORT'') [(long, slug @ '':LONG'')]"

subsection \<open>Markets\<close>

definition moneyline_market :: "team_index \<Rightarrow> string \<Rightarrow> pm_event \<Rightarrow> int \<Rightarrow> pm_market \<Rightarrow> venue_game option" where
  "moneyline_market ix sport ev start m = (let slug = or_else (mk_slug m) [] in
     if mk_type m \<notin> set MONEYLINE_TYPES then None
     else case sides m of None \<Rightarrow> None | Some (l, s) \<Rightarrow>
       if slug = [] then None
       else case (resolve_team ix l, resolve_team ix s) of
         (Some a, Some b) \<Rightarrow> Some (pm_game sport start ev slug (participant_of a, participant_of b) (long_short slug (t_code a) (t_code b)))
       | _ \<Rightarrow> None)"

definition first_two :: "team_index \<Rightarrow> pm_event \<Rightarrow> (team \<times> team) option" where
  "first_two ix ev = (case pe_teams ev of [x, y] \<Rightarrow>
       (case (resolve_team ix (Some x), resolve_team ix (Some y)) of (Some a, Some b) \<Rightarrow> Some (a, b) | _ \<Rightarrow> None)
     | _ \<Rightarrow> None)"

definition total_market :: "string \<Rightarrow> pm_event \<Rightarrow> int \<Rightarrow> team \<times> team \<Rightarrow> pm_market \<Rightarrow> venue_game option" where
  "total_market sport ev start ts m = (let slug = or_else (mk_slug m) [] in
     if mk_type m \<notin> set TOTAL_TYPES then None
     else case strike_line (mk_line m) of None \<Rightarrow> None | Some line \<Rightarrow>
       if slug = [] \<or> sides m = None then None
       else Some ((pm_game sport start ev slug (participant_of (fst ts), participant_of (snd ts))
         [(OVER, slug @ '':LONG''), (UNDER, slug @ '':SHORT'')])\<lparr>vg_market := ''total'', vg_line := Some line\<rparr>))"

text \<open>\<open>_SPREAD_TITLE_RE\<close>: the team before the words \<open>wins by over\<close> and the number after them.\<close>

definition title_number :: "string \<Rightarrow> string option" where
  "title_number r = (let ip = takeWhile is_digit r; r1 = dropWhile is_digit r;
      fp = (if take 1 r1 = ''.'' then takeWhile is_digit (drop 1 r1) else []);
      num = (if fp = [] then ip else ip @ ''.'' @ fp); rest = (if fp = [] then r1 else dropWhile is_digit (drop 1 r1))
    in if ip \<noteq> [] \<and> (rest = '' runs'' \<or> rest = '' points'') then Some num else None)"

fun spread_title :: "string \<Rightarrow> string \<Rightarrow> (string \<times> string) option" where
  "spread_title acc s = (case (if acc \<noteq> [] \<and> prefix '' wins by over '' s then title_number (drop 14 s) else None) of
     Some num \<Rightarrow> Some (rev acc, num)
   | None \<Rightarrow> (case s of [] \<Rightarrow> None | c # cs \<Rightarrow> if c = CHR 10 then None else spread_title (c # acc) cs))"

declare spread_title.simps [simp del]

definition title_agrees :: "string option \<Rightarrow> string option \<Rightarrow> rat \<Rightarrow> bool option" where
  "title_agrees title anchor_name line = (case title of None \<Rightarrow> None | Some t \<Rightarrow>
     case spread_title [] (strip t) of None \<Rightarrow> None | Some (team, num) \<Rightarrow>
       map_option (\<lambda>x. Some team = anchor_name \<and> x = line) (strike_line (Some num)))"

definition spread_market :: "team_index \<Rightarrow> string \<Rightarrow> pm_event \<Rightarrow> int \<Rightarrow> team \<times> team \<Rightarrow> pm_market \<Rightarrow> venue_game option" where
  "spread_market ix sport ev start ts m = (let slug = or_else (mk_slug m) []; (first, second) = ts in
     if mk_type m \<notin> set SPREAD_TYPES then None
     else case strike_line (mk_line m) of None \<Rightarrow> None | Some signed \<Rightarrow>
     case sides m of None \<Rightarrow> None | Some (l, s) \<Rightarrow>
       if slug = [] \<or> signed = 0 then None
       else case (resolve_team ix l, resolve_team ix s) of
         (Some lt, Some st) \<Rightarrow>
           if t_code lt \<noteq> t_code first \<or> t_code st \<noteq> t_code second then None
           else (let anchor_idx = (if signed < 0 then 0 else 1); anchor = (if anchor_idx = 0 then first else second);
                     line = dec_round \<bar>signed\<bar>
             in if title_agrees (mk_title m) (tm_name (pe_teams ev ! anchor_idx)) line = Some False then None
                else Some ((pm_game sport start ev slug (participant_of first, participant_of second)
                    (long_short slug (t_code first) (t_code second)))
                  \<lparr>vg_market := ''spread'', vg_line := Some line, vg_anchor := Some (t_code anchor)\<rparr>))
       | _ \<Rightarrow> None)"

definition contest_market :: "(string \<Rightarrow> string) \<Rightarrow> string list \<Rightarrow> string \<Rightarrow> pm_event \<Rightarrow> int \<Rightarrow> pm_market \<Rightarrow> venue_game option" where
  "contest_market nfkd winner_types sport ev start m = (let slug = or_else (mk_slug m) [] in
     if mk_type m \<notin> set winner_types then None
     else case sides m of None \<Rightarrow> None | Some (l, s) \<Rightarrow>
       if slug = [] then None
       else case (Option.bind l tm_name, Option.bind s tm_name) of
         (Some long_name, Some short_name) \<Rightarrow> (let cl = last_name_code nfkd long_name; cs = last_name_code nfkd short_name in
           if cl = [] \<or> cs = [] \<or> cl = cs then None
           else Some (pm_game sport start ev slug (player cl long_name, player cs short_name) (long_short slug cl cs)))
       | _ \<Rightarrow> None)"

subsection \<open>Events and leagues\<close>

definition moneyline_event :: "(string \<Rightarrow> int option) \<Rightarrow> team_index \<Rightarrow> string \<Rightarrow> pm_event \<Rightarrow> venue_game list" where
  "moneyline_event fromiso ix sport ev = (case parse_utc fromiso (pe_start ev) of None \<Rightarrow> []
     | Some start \<Rightarrow> List.map_filter (moneyline_market ix sport ev start) (pe_markets ev))"

definition total_event :: "(string \<Rightarrow> int option) \<Rightarrow> team_index \<Rightarrow> string \<Rightarrow> pm_event \<Rightarrow> venue_game list" where
  "total_event fromiso ix sport ev = (case (parse_utc fromiso (pe_start ev), first_two ix ev) of
     (Some start, Some ts) \<Rightarrow> List.map_filter (total_market sport ev start ts) (pe_markets ev) | _ \<Rightarrow> [])"

definition spread_event :: "(string \<Rightarrow> int option) \<Rightarrow> team_index \<Rightarrow> string \<Rightarrow> pm_event \<Rightarrow> venue_game list" where
  "spread_event fromiso ix sport ev = (case (parse_utc fromiso (pe_start ev), first_two ix ev) of
     (Some start, Some ts) \<Rightarrow> List.map_filter (spread_market ix sport ev start ts) (pe_markets ev) | _ \<Rightarrow> [])"

definition contest_event :: "(string \<Rightarrow> int option) \<Rightarrow> (string \<Rightarrow> string) \<Rightarrow> string list \<Rightarrow> string \<Rightarrow> pm_event \<Rightarrow> venue_game list" where
  "contest_event fromiso nfkd winner_types sport ev = (case parse_utc fromiso (pe_start ev) of None \<Rightarrow> []
     | Some start \<Rightarrow> List.map_filter (contest_market nfkd winner_types sport ev start) (pe_markets ev))"

definition fetch_polymarket_us_games :: "(string \<Rightarrow> int option) \<Rightarrow> league_client \<Rightarrow> team_index \<Rightarrow> string \<Rightarrow> venue_game list res" where
  "fetch_polymarket_us_games fromiso client ix sport =
     bindE (fetch_events client (league_of sport)) (\<lambda>evs. Inr (concat (map (moneyline_event fromiso ix sport) evs)))"

definition fetch_polymarket_us_totals :: "(string \<Rightarrow> int option) \<Rightarrow> league_client \<Rightarrow> team_index \<Rightarrow> string \<Rightarrow> venue_game list res" where
  "fetch_polymarket_us_totals fromiso client ix sport =
     bindE (fetch_events client (league_of sport)) (\<lambda>evs. Inr (concat (map (total_event fromiso ix sport) evs)))"

definition fetch_polymarket_us_spreads :: "(string \<Rightarrow> int option) \<Rightarrow> league_client \<Rightarrow> team_index \<Rightarrow> string \<Rightarrow> venue_game list res" where
  "fetch_polymarket_us_spreads fromiso client ix sport =
     bindE (fetch_events client (league_of sport)) (\<lambda>evs. Inr (concat (map (spread_event fromiso ix sport) evs)))"

definition fetch_polymarket_us_tennis ::
  "(string \<Rightarrow> int option) \<Rightarrow> (string \<Rightarrow> string) \<Rightarrow> league_client \<Rightarrow> string list \<Rightarrow> string list \<Rightarrow> venue_game list res" where
  "fetch_polymarket_us_tennis fromiso nfkd client leagues winner_types =
     bindE (mapE (\<lambda>league. bindE (fetch_events client league) (\<lambda>evs.
       Inr (concat (map (contest_event fromiso nfkd winner_types league) evs)))) leagues) (\<lambda>gs. Inr (concat gs))"

end
