(* ===== verification/Listing_Terms.thy ===== *)
theory Listing_Terms
  imports Polymarket_Listings
begin

section \<open>What a listing is a bet on\<close>

text \<open>
  The specification the fetchers of \<open>Kalshi_Listings\<close> and \<open>Polymarket_Listings\<close> meet: an outcome key of a listing
  names a proposition on the result of the game, and the venue pays the outcome exactly when it holds. The
  venues' own terms are hypotheses on \<open>pays\<close>, as the docstrings of the fetchers state them. From this follows
  what the scanner rests on: the two sides of a group are one bet, whichever venue a leg is on.
\<close>

record game_result =
  gr_margin :: "string \<Rightarrow> rat"
  gr_total :: rat

text \<open>The proposition of a key. A total asks whether the line is passed, a spread whether its anchor covers it.\<close>

definition says :: "game_result \<Rightarrow> venue_game \<Rightarrow> string \<Rightarrow> bool" where
  "says res g key \<longleftrightarrow>
     (if vg_market g = ''total'' then (the (vg_line g) < gr_total res) = (key = OVER)
      else if vg_market g = ''spread'' then (the (vg_line g) < gr_margin res (the (vg_anchor g))) = (Some key = vg_anchor g)
      else 0 < gr_margin res key)"

definition truthful :: "(string \<Rightarrow> bool) \<Rightarrow> game_result \<Rightarrow> venue_game \<Rightarrow> bool" where
  "truthful pays res g \<longleftrightarrow> (\<forall>(key, oid) \<in> set (vg_outcomes g). pays oid = says res g key)"

text \<open>A line that is written out exactly: 28 digits, 40 decimal places.\<close>

definition line_exact :: "rat \<Rightarrow> bool" where
  "line_exact x \<longleftrightarrow> dec_round x = x \<and> x * 10 ^ 40 \<in> \<int>"

definition two_sided :: "venue_game \<Rightarrow> bool" where
  "two_sided g \<longleftrightarrow> p_code (fst (vg_teams g)) \<noteq> p_code (snd (vg_teams g)) \<and>
     p_code (fst (vg_teams g)) \<noteq> [] \<and> p_code (snd (vg_teams g)) \<noteq> [] \<and> (\<forall>x. vg_line g = Some x \<longrightarrow> line_exact x)"

abbreviation side_codes :: "venue_game \<Rightarrow> string set" where
  "side_codes g \<equiv> {p_code (fst (vg_teams g)), p_code (snd (vg_teams g))}"

definition well_listed :: "venue_game \<Rightarrow> bool" where
  "well_listed g \<longleftrightarrow> two_sided g \<and>
     (vg_market g = ''moneyline'' \<and> vg_line g = None \<and> fst ` set (vg_outcomes g) \<subseteq> side_codes g
      \<or> vg_market g = ''total'' \<and> vg_line g \<noteq> None \<and> fst ` set (vg_outcomes g) \<subseteq> {OVER, UNDER}
      \<or> vg_market g = ''spread'' \<and> vg_line g \<noteq> None \<and> fst ` set (vg_outcomes g) \<subseteq> side_codes g \<and>
        (\<exists>a \<in> side_codes g. vg_anchor g = Some a))"

lemma well_listed_anchor: "well_listed g \<Longrightarrow> vg_market g = ''spread'' \<Longrightarrow> \<exists>a \<in> side_codes g. vg_anchor g = Some a \<and> a \<noteq> []"
  by (auto simp: well_listed_def two_sided_def)

definition listed_keys :: "venue_game \<Rightarrow> string set" where
  "listed_keys g = (if vg_market g = ''total'' then {OVER, UNDER} else side_codes g)"

lemma well_listed_keys: "well_listed g \<Longrightarrow> (key, oid) \<in> set (vg_outcomes g) \<Longrightarrow> key \<in> listed_keys g"
  by (auto simp: well_listed_def listed_keys_def)

text \<open>The two keys of a total or a spread are complements.\<close>

lemma well_listed_sides:
  assumes "well_listed g" "vg_market g \<noteq> ''moneyline''" "key \<in> listed_keys g" "key' \<in> listed_keys g"
  shows "says res g key = says res g key' \<longleftrightarrow> key = key'"
proof (cases "vg_market g = ''total''")
  case True
  with assms(3,4) show ?thesis by (auto simp: says_def listed_keys_def OVER_def UNDER_def)
next
  case False
  with assms(1,2) have m: "vg_market g = ''spread''" by (auto simp: well_listed_def)
  with well_listed_anchor [OF assms(1)] obtain a where "a \<in> side_codes g" "vg_anchor g = Some a" by blast
  with m assms(3,4) show ?thesis by (auto simp: says_def listed_keys_def)
qed

subsection \<open>A line is read back from its text\<close>

lemma digit_val_nth: "n < 10 \<Longrightarrow> digit_val (''0123456789'' ! n) = int n"
proof -
  assume "n < 10"
  then have "n = 0 \<or> n = 1 \<or> n = 2 \<or> n = 3 \<or> n = 4 \<or> n = 5 \<or> n = 6 \<or> n = 7 \<or> n = 8 \<or> n = 9" by presburger
  then show ?thesis by (elim disjE) (simp_all add: digit_val_def)
qed

lemma digit_nth: "n < 10 \<Longrightarrow> ''0123456789'' ! n \<in> set ''0123456789''"
  by (rule nth_mem) simp

lemma digits_val_nat_str: "digits_val (nat_str n) = int n"
proof (induction n rule: nat_str.induct)
  case (1 n)
  show ?case
  proof (cases "n < 10")
    case True
    then show ?thesis by (subst nat_str.simps) (simp add: digits_val_def digit_val_nth)
  next
    case False
    with 1 have "digits_val (nat_str n) = 10 * int (n div 10) + int (n mod 10)"
      by (subst nat_str.simps) (simp add: digits_val_def digit_val_nth)
    also have "\<dots> = int (10 * (n div 10) + n mod 10)" by (simp only: of_nat_add of_nat_mult of_nat_numeral)
    also have "10 * (n div 10) + n mod 10 = n" by simp
    finally show ?thesis .
  qed
qed

lemma nat_str_digits: "c \<in> set (nat_str n) \<Longrightarrow> c \<in> set ''0123456789''"
proof (induction n rule: nat_str.induct)
  case (1 n)
  then show ?case
    by (subst (asm) (2) nat_str.simps) (use digit_nth [of n] digit_nth [of "n mod 10"] in \<open>auto split: if_splits\<close>)
qed

lemma nat_str_ne: "nat_str n \<noteq> []"
  by (subst nat_str.simps) simp

lemma frac_digits_inject:
  "frac_digits k f = frac_digits k g \<Longrightarrow> 0 \<le> f \<Longrightarrow> f < 1 \<Longrightarrow> 0 \<le> g \<Longrightarrow> g < 1 \<Longrightarrow> f * 10 ^ k \<in> \<int> \<Longrightarrow> g * 10 ^ k \<in> \<int> \<Longrightarrow> f = g"
proof (induction k arbitrary: f g)
  case 0
  then obtain i j where "f = of_int i" "g = of_int j" by (auto elim!: Ints_cases)
  with 0 show ?case by simp
next
  case (Suc k)
  show ?case
  proof (cases "f = 0 \<or> g = 0")
    case True
    with Suc.prems(1) show ?thesis by (auto split: if_splits)
  next
    case False
    let ?i = "\<lfloor>10 * f\<rfloor>" and ?j = "\<lfloor>10 * g\<rfloor>"
    have r: "0 \<le> ?i" "?i < 10" "0 \<le> ?j" "?j < 10" using Suc.prems by (simp_all add: floor_less_iff)
    from Suc.prems(1) False have d: "''0123456789'' ! nat ?i = ''0123456789'' ! nat ?j"
      and fr: "frac_digits k (10 * f - of_int ?i) = frac_digits k (10 * g - of_int ?j)" by simp_all
    have "nat ?i < 10" "nat ?j < 10" using r by linarith+
    with d have "int (nat ?i) = int (nat ?j)" by (metis digit_val_nth)
    with r have "?i = ?j" by linarith
    moreover have "(10 * x - of_int i) * 10 ^ k \<in> \<int>" if "x * 10 ^ Suc k \<in> \<int>" for x :: rat and i
    proof -
      have "(10 * x - of_int i) * 10 ^ k = x * 10 ^ Suc k - of_int (i * 10 ^ k)" by (simp add: algebra_simps)
      with that show ?thesis by simp
    qed
    moreover have "0 \<le> z - of_int \<lfloor>z\<rfloor>" "z - of_int \<lfloor>z\<rfloor> < 1" for z :: rat by linarith+
    ultimately have "10 * f - of_int ?i = 10 * g - of_int ?j" using Suc.prems(6,7) by (intro Suc.IH fr) blast+
    with \<open>?i = ?j\<close> show ?thesis by simp
  qed
qed
lemma format_f_inject:
  assumes "format_f x = format_f y" "x * 10 ^ 40 \<in> \<int>" "y * 10 ^ 40 \<in> \<int>"
  shows "x = y"
proof -
  let ?i = "\<lambda>x. \<lfloor>\<bar>x\<bar>\<rfloor>" and ?f = "\<lambda>x. \<bar>x\<bar> - of_int \<lfloor>\<bar>x\<bar>\<rfloor>"
  let ?body = "\<lambda>x. nat_str (nat (?i x)) @ (if frac_digits 40 (?f x) = [] then [] else ''.'' @ frac_digits 40 (?f x))"
  have dig: "c \<noteq> CHR ''-'' \<and> c \<noteq> CHR ''.''" if "c \<in> set (nat_str n)" for c n using nat_str_digits [OF that] by auto
  have hd: "hd (?body x) \<noteq> CHR ''-''" "?body x \<noteq> []" for x using dig [OF hd_in_set [OF nat_str_ne], of "nat (?i x)"] by (simp_all add: nat_str_ne)
  have body: "format_f x = (if x < 0 then ''-'' else []) @ ?body x" for x by (simp add: format_f_def Let_def)
  from assms(1) hd [of x] hd [of y] have neg: "(x < 0) = (y < 0)" and b: "?body x = ?body y"
    unfolding body by (auto split: if_splits) (metis list.sel(1))+
  have tw: "takeWhile (\<lambda>c. c \<noteq> CHR ''.'') (?body x) = nat_str (nat (?i x))"
    "dropWhile (\<lambda>c. c \<noteq> CHR ''.'') (?body x) = (if frac_digits 40 (?f x) = [] then [] else ''.'' @ frac_digits 40 (?f x))" for x
    using dig by (auto simp: takeWhile_append2 dropWhile_append2 takeWhile_eq_all_conv)
  from b have "nat_str (nat (?i x)) = nat_str (nat (?i y))" using tw(1) by metis
  then have "int (nat (?i x)) = int (nat (?i y))" using digits_val_nat_str by metis
  then have i: "?i x = ?i y" by simp
  from b have "frac_digits 40 (?f x) = frac_digits 40 (?f y)" using tw(2) [of x] tw(2) [of y] by (auto split: if_splits)
  moreover have "?f z * 10 ^ 40 \<in> \<int>" if "z * 10 ^ 40 \<in> \<int>" for z :: rat
  proof -
    have "?f z * 10 ^ 40 = \<bar>z * 10 ^ 40\<bar> - of_int (?i z * 10 ^ 40)" by (simp add: algebra_simps abs_mult)
    with that show ?thesis by simp
  qed
  moreover have "0 \<le> ?f z" "?f z < 1" for z :: rat by linarith+
  ultimately have "?f x = ?f y" using assms(2,3) by (intro frac_digits_inject [of 40]) auto
  with i have "\<bar>x\<bar> = \<bar>y\<bar>" by simp
  with neg show ?thesis by linarith
qed

lemma fmt_line_inject: "fmt_line (Some x) = fmt_line (Some y) \<Longrightarrow> line_exact x \<Longrightarrow> line_exact y \<Longrightarrow> x = y"
  by (auto simp: fmt_line_def line_exact_def intro: format_f_inject)

subsection \<open>The legs of a group\<close>

definition settles_yes :: "game_result \<Rightarrow> cross_match \<Rightarrow> bool" where
  "settles_yes res m \<longleftrightarrow>
     (if cm_market m = ''total'' then the (cm_line m) < gr_total res
      else if cm_market m = ''spread'' then the (cm_line m) < gr_margin res (the (cm_anchor m))
      else 0 < gr_margin res (p_code (team_a m)))"

text \<open>A moneyline is settled by a game one side wins.\<close>

definition decided :: "game_result \<Rightarrow> cross_match \<Rightarrow> bool" where
  "decided res m \<longleftrightarrow> gr_margin res (p_code (team_b m)) = - gr_margin res (p_code (team_a m)) \<and>
     (cm_market m = ''moneyline'' \<longrightarrow> gr_margin res (p_code (team_a m)) \<noteq> 0)"

lemma group_leg_origin:
  assumes "l \<in> set (g_legs (match_to_event_group m))"
  obtains v g key where "(v, g) \<in> set (per_venue m)" "(key, leg_outcome l) \<in> set (vg_outcomes g)" "is_yes_side l = (key = yes_key m)"
  using assms by (auto simp: match_to_event_group_def venue_legs_def)

lemma same_key_same_bet:
  assumes "pair_key g = pair_key a" "well_listed g" "well_listed a"
  shows "vg_market g = vg_market a" "vg_line g = vg_line a" "vg_market g = ''spread'' \<Longrightarrow> vg_anchor g = vg_anchor a"
    "{p_code (fst (vg_teams g)), p_code (snd (vg_teams g))} = {p_code (fst (vg_teams a)), p_code (snd (vg_teams a))}"
proof -
  from assms(1) have k: "vg_market g = vg_market a" "fmt_line (vg_line g) = fmt_line (vg_line a)"
    "or_else (vg_anchor g) [] = or_else (vg_anchor a) []"
    "sort (remdups [p_code (fst (vg_teams g)), p_code (snd (vg_teams g))]) =
     sort (remdups [p_code (fst (vg_teams a)), p_code (snd (vg_teams a))])" by (simp_all add: pair_key_def)
  show "vg_market g = vg_market a" by (rule k(1))
  show "vg_line g = vg_line a"
  proof (cases "vg_market a = ''moneyline''")
    case True
    with k(1) assms(2,3) show ?thesis by (simp add: well_listed_def)
  next
    case False
    with k(1) assms(2,3) obtain x y where "vg_line g = Some x" "vg_line a = Some y" by (auto simp: well_listed_def)
    with k(2) assms(2,3) fmt_line_inject [of x y] show ?thesis by (auto simp: well_listed_def two_sided_def)
  qed
  show "vg_anchor g = vg_anchor a" if "vg_market g = ''spread''"
    using k(1,3) well_listed_anchor [OF assms(2)] well_listed_anchor [OF assms(3)] that by (auto simp: or_else_def)
  show "{p_code (fst (vg_teams g)), p_code (snd (vg_teams g))} = {p_code (fst (vg_teams a)), p_code (snd (vg_teams a))}"
    using arg_cong [OF k(4), of set] by (simp only: set_sort set_remdups list.simps)
qed

lemma says_by_side:
  assumes "pair_key g = pair_key a" "well_listed g" "well_listed a" "key \<in> fst ` set (vg_outcomes g)" "decided res m"
    and m: "p_code (team_a m) = min (p_code (fst (vg_teams a))) (p_code (snd (vg_teams a)))"
      "p_code (team_b m) = max (p_code (fst (vg_teams a))) (p_code (snd (vg_teams a)))"
      "cm_market m = vg_market a" "cm_line m = vg_line a" "cm_anchor m = vg_anchor a"
  shows "says res g key = ((key = yes_key m) = settles_yes res m)"
proof -
  note same = same_key_same_bet [OF assms(1-3)]
  have names: "p_code (team_a m) \<noteq> p_code (team_b m)"
    "{p_code (fst (vg_teams a)), p_code (snd (vg_teams a))} = {p_code (team_a m), p_code (team_b m)}"
    using assms(3) m(1,2) by (auto simp: well_listed_def two_sided_def min_def max_def)
  from assms(2) consider "vg_market g = ''moneyline''" | "vg_market g = ''total''" | "vg_market g = ''spread''"
    by (auto simp: well_listed_def)
  then show ?thesis
  proof cases
    case 1
    with assms(2,4) same(4) names(2) have "key = p_code (team_a m) \<or> key = p_code (team_b m)"
      by (auto simp: well_listed_def)
    with 1 same(1) names(1) m(3) assms(5) show ?thesis
      by (auto simp: says_def settles_yes_def yes_key_def decided_def)
  next
    case 2
    with same m(3,4) show ?thesis by (auto simp: says_def settles_yes_def yes_key_def)
  next
    case 3
    with well_listed_anchor [OF assms(2)] obtain c where "vg_anchor g = Some c" "c \<noteq> []" by blast
    with same(3) [OF 3] have "vg_anchor g = Some c" "cm_anchor m = Some c" by (simp_all add: m(5))
    with 3 same(1,2) m(3,4) \<open>c \<noteq> []\<close> show ?thesis by (auto simp: says_def settles_yes_def yes_key_def or_else_def)
  qed
qed

text \<open>
  C27: The YES legs of a group are one bet on every venue, and a NO leg is its complement: whatever the result, two
  legs of the same side pay alike and two legs of opposite sides pay exactly one, for moneylines of decided games,
  totals and spreads, as long as each listing pays what it says.
\<close>

theorem group_sides_complement:
  assumes "0 \<le> days" "m \<in> set (match_games days inputs)" "decided res m"
    and "\<forall>g \<in> set (match_games_of m). well_listed g \<and> truthful pays res g"
    and "l \<in> set (g_legs (match_to_event_group m))" "l' \<in> set (g_legs (match_to_event_group m))"
  shows "pays (leg_outcome l) = pays (leg_outcome l') \<longleftrightarrow> is_yes_side l = is_yes_side l'"
proof -
  from match_games_sound [OF assms(1,2)] obtain a where a: "a \<in> set (match_games_of m)"
    "p_code (team_a m) = min (p_code (fst (vg_teams a))) (p_code (snd (vg_teams a)))"
    "p_code (team_b m) = max (p_code (fst (vg_teams a))) (p_code (snd (vg_teams a)))"
    "cm_market m = vg_market a" "cm_line m = vg_line a" "cm_anchor m = vg_anchor a"
    "\<forall>(v, g) \<in> set (per_venue m). pair_key g = pair_key a"
    unfolding match_sound_def by blast
  have "pays (leg_outcome x) = (is_yes_side x = settles_yes res m)" if "x \<in> set (g_legs (match_to_event_group m))" for x
    using that
  proof (rule group_leg_origin)
    fix v g key
    assume 1: "(v, g) \<in> set (per_venue m)" "(key, leg_outcome x) \<in> set (vg_outcomes g)" "is_yes_side x = (key = yes_key m)"
    then have "g \<in> set (match_games_of m)" by (force simp: match_games_of_def)
    with assms(4) have g: "well_listed g" "truthful pays res g" by auto
    have "pair_key g = pair_key a" using a(7) 1(1) by auto
    from says_by_side [OF this g(1) _ _ assms(3) a(2-6), of key] assms(4) a(1) 1(2) have
      "says res g key = ((key = yes_key m) = settles_yes res m)" by force
    moreover have "pays (leg_outcome x) = says res g key" using g(2) 1(2) by (auto simp: truthful_def)
    ultimately show ?thesis using 1(3) by simp
  qed
  from this [OF assms(5)] this [OF assms(6)] show ?thesis by auto
qed

subsection \<open>The terms of the venues\<close>

text \<open>
  Kalshi: the YES of a strike pays when the quantity of the market passes it, NO otherwise; for a spread the
  quantity is the margin of the team the ticker names, for a total the points scored. A moneyline YES pays when
  the team its title names wins.
\<close>

definition strike_terms :: "(string \<Rightarrow> bool) \<Rightarrow> rat \<Rightarrow> listed_market \<Rightarrow> bool" where
  "strike_terms pays q mk \<longleftrightarrow> (\<forall>t x. lm_ticker mk = Some t \<longrightarrow> strike_line (lm_strike mk) = Some x \<longrightarrow>
     pays (t @ '':YES'') = (x < q) \<and> pays (t @ '':NO'') = (\<not> x < q))"

definition kalshi_spread_terms ::
  "market_client \<Rightarrow> team_index \<Rightarrow> kalshi_event \<Rightarrow> (string \<Rightarrow> bool) \<Rightarrow> game_result \<Rightarrow> bool" where
  "kalshi_spread_terms client ix ev pays res \<longleftrightarrow> (let ticker = or_else (ke_ticker ev) [] in
     \<forall>ms mk t codes pair raw team. markets_of client ticker = Inr ms \<longrightarrow> mk \<in> set ms \<longrightarrow> lm_ticker mk = Some t \<longrightarrow>
       lm_strike_type mk = Some EXPECTED_STRIKE_TYPE \<longrightarrow> ticker_codes ticker = Some codes \<longrightarrow> split_team_codes codes ix = Some pair \<longrightarrow>
       anchor_code_from_ticker t ticker pair = Some raw \<longrightarrow> by_code ix raw = Some team \<longrightarrow> strike_terms pays (gr_margin res (t_code team)) mk)"

definition kalshi_total_terms :: "market_client \<Rightarrow> kalshi_event \<Rightarrow> (string \<Rightarrow> bool) \<Rightarrow> game_result \<Rightarrow> bool" where
  "kalshi_total_terms client ev pays res \<longleftrightarrow>
     (\<forall>ms. markets_of client (or_else (ke_ticker ev) []) = Inr ms \<longrightarrow> (\<forall>mk \<in> set ms. strike_terms pays (gr_total res) mk))"

text \<open>
  Polymarket US: the long side of a spread is its team covering the signed line, read as the docstring reads it; of
  a total, the over; of a moneyline, its team winning. The short side is the complement, or the other team. A
  line has at most 28 digits.
\<close>

definition pm_pays :: "(string \<Rightarrow> bool) \<Rightarrow> pm_market \<Rightarrow> bool \<Rightarrow> bool \<Rightarrow> bool" where
  "pm_pays pays m long short \<longleftrightarrow>
     (\<forall>slug. mk_slug m = Some slug \<longrightarrow> pays (slug @ '':LONG'') = long \<and> pays (slug @ '':SHORT'') = short)"

definition pm_spread_terms :: "team_index \<Rightarrow> pm_event \<Rightarrow> (string \<Rightarrow> bool) \<Rightarrow> game_result \<Rightarrow> bool" where
  "pm_spread_terms ix ev pays res \<longleftrightarrow> (\<forall>m \<in> set (pe_markets ev). \<forall>x l s a b.
     mk_type m \<in> set SPREAD_TYPES \<longrightarrow> strike_line (mk_line m) = Some x \<longrightarrow> sides m = Some (l, s) \<longrightarrow>
     resolve_team ix l = Some a \<longrightarrow> resolve_team ix s = Some b \<longrightarrow> dec_round \<bar>x\<bar> = \<bar>x\<bar> \<and>
     pm_pays pays m (if x < 0 then - x < gr_margin res (t_code a) else \<not> x < gr_margin res (t_code b))
       (if x < 0 then \<not> - x < gr_margin res (t_code a) else x < gr_margin res (t_code b)))"

definition pm_total_terms :: "pm_event \<Rightarrow> (string \<Rightarrow> bool) \<Rightarrow> game_result \<Rightarrow> bool" where
  "pm_total_terms ev pays res \<longleftrightarrow> (\<forall>m \<in> set (pe_markets ev). \<forall>x. mk_type m \<in> set TOTAL_TYPES \<longrightarrow>
     strike_line (mk_line m) = Some x \<longrightarrow> pm_pays pays m (x < gr_total res) (\<not> x < gr_total res))"

definition pm_moneyline_terms :: "team_index \<Rightarrow> pm_event \<Rightarrow> (string \<Rightarrow> bool) \<Rightarrow> game_result \<Rightarrow> bool" where
  "pm_moneyline_terms ix ev pays res \<longleftrightarrow> (\<forall>m \<in> set (pe_markets ev). \<forall>l s a b.
     mk_type m \<in> set MONEYLINE_TYPES \<longrightarrow> sides m = Some (l, s) \<longrightarrow> resolve_team ix l = Some a \<longrightarrow> resolve_team ix s = Some b \<longrightarrow>
     pm_pays pays m (0 < gr_margin res (t_code a)) (0 < gr_margin res (t_code b)))"

subsection \<open>The contract of a fetcher\<close>

text \<open>
  What the matcher needs of a source of listings: under the venue's terms, a two-sided listing is one of the three
  kinds of bet and pays what it says.
\<close>

locale listing_source =
  fixes listed :: "'e \<Rightarrow> venue_game set"
    and terms :: "'e \<Rightarrow> (string \<Rightarrow> bool) \<Rightarrow> game_result \<Rightarrow> bool"
  assumes honest: "g \<in> listed ev \<Longrightarrow> two_sided g \<Longrightarrow> terms ev pays res \<Longrightarrow> well_listed g \<and> truthful pays res g"

text \<open>Two sources on one game: an outcome of one and the outcome of the other under the same key pay alike.\<close>

locale two_sources = A: listing_source listed_a terms_a + B: listing_source listed_b terms_b
  for listed_a :: "'a \<Rightarrow> venue_game set" and terms_a and listed_b :: "'b \<Rightarrow> venue_game set" and terms_b
begin

lemma same_key_pays_alike:
  assumes "g \<in> listed_a ev" "h \<in> listed_b ev'" "two_sided g" "two_sided h" "terms_a ev pays res" "terms_b ev' pays res"
    and "pair_key g = pair_key h" "(key, oid) \<in> set (vg_outcomes g)" "(key, oid') \<in> set (vg_outcomes h)"
  shows "pays oid = pays oid'"
proof -
  have g: "well_listed g" "truthful pays res g" using A.honest assms(1,3,5) by blast+
  have h: "well_listed h" "truthful pays res h" using B.honest assms(2,4,6) by blast+
  note same = same_key_same_bet [OF assms(7) g(1) h(1)]
  have "says res g key = says res h key" using same(1-3) by (simp add: says_def)
  with g(2) h(2) assms(8,9) show ?thesis by (auto simp: truthful_def)
qed

lemma outcomes_agree:
  assumes "g \<in> listed_a ev" "h \<in> listed_b ev'" "two_sided g" "two_sided h" "terms_a ev pays res" "terms_b ev' pays res"
    and "pair_key g = pair_key h" "vg_market g \<noteq> ''moneyline''" "(key, oid) \<in> set (vg_outcomes g)" "(key', oid') \<in> set (vg_outcomes h)"
  shows "pays oid = pays oid' \<longleftrightarrow> key = key'"
proof -
  have g: "well_listed g" "truthful pays res g" using A.honest assms(1,3,5) by blast+
  have h: "well_listed h" "truthful pays res h" using B.honest assms(2,4,6) by blast+
  note same = same_key_same_bet [OF assms(7) g(1) h(1)]
  have "listed_keys g = listed_keys h" using same(1,4) by (simp add: listed_keys_def)
  then have keys: "key \<in> listed_keys g" "key' \<in> listed_keys g"
    using well_listed_keys [OF g(1) assms(9)] well_listed_keys [OF h(1) assms(10)] by simp_all
  have "says res h key' = says res g key'" using same(1-3) by (simp add: says_def)
  with well_listed_sides [OF g(1) assms(8) keys] have "says res g key = says res h key' \<longleftrightarrow> key = key'" by simp
  with g(2) h(2) assms(9,10) show ?thesis by (auto simp: truthful_def)
qed

end

subsection \<open>Kalshi keeps it\<close>

lemma event_teams_parts:
  assumes "event_teams ix today days ticker = Some (d, pair, a, b)"
  obtains codes where "ticker_codes ticker = Some codes" "split_team_codes codes ix = Some pair"
    "by_code ix (fst pair) = Some a" "by_code ix (snd pair) = Some b" "parse_ticker_date ticker = Some d" "within_horizon d days today"
  using assms by (auto simp: event_teams_def split: option.splits if_splits)

lemma anchor_code_cases: "anchor_code_from_ticker t ticker pair = Some raw \<Longrightarrow> raw = fst pair \<or> raw = snd pair"
proof -
  assume 1: "anchor_code_from_ticker t ticker pair = Some raw"
  define hits where "hits = filter (\<lambda>c. prefix c (drop (length (ticker @ ''-'')) t) \<and>
      py_isdigit (drop (length c) (drop (length (ticker @ ''-'')) t))) [fst pair, snd pair]"
  from 1 have "raw = hd hits" "length hits = 1"
    unfolding anchor_code_from_ticker_def Let_def hits_def [symmetric] by (simp_all split: if_splits)
  moreover have "set hits \<subseteq> {fst pair, snd pair}" by (auto simp: hits_def)
  ultimately show ?thesis by (cases hits) auto
qed

lemma or_else_Some: "or_else x [] = s \<Longrightarrow> s \<noteq> [] \<Longrightarrow> x = Some s"
  by (auto simp: or_else_def split: option.splits)
lemma spread_game_honest:
  assumes "spread_game sport ticker d pair a b mk = Some g" "by_code ix (fst pair) = Some a" "by_code ix (snd pair) = Some b" "two_sided g"
    and terms: "\<And>t raw team. lm_ticker mk = Some t \<Longrightarrow> lm_strike_type mk = Some EXPECTED_STRIKE_TYPE \<Longrightarrow>
      anchor_code_from_ticker t ticker pair = Some raw \<Longrightarrow> by_code ix raw = Some team \<Longrightarrow> strike_terms pays (gr_margin res (t_code team)) mk"
  shows "well_listed g \<and> truthful pays res g"
proof -
  from assms(1) obtain t raw line anchor other where 1: "or_else (lm_ticker mk) [] = t" "t \<noteq> []"
    "anchor_code_from_ticker t ticker pair = Some raw" "lm_strike_type mk = Some EXPECTED_STRIKE_TYPE" "strike_line (lm_strike mk) = Some line"
    "(anchor, other) = (if raw = fst pair then (a, b) else (b, a))"
    "g = (kalshi_game sport d (participant_of a, participant_of b)
             (dict_set (t_code other) (t @ '':NO'') [(t_code anchor, t @ '':YES'')]) t (parse_ticker_start ticker))
               \<lparr>vg_market := ''spread'', vg_line := Some line, vg_anchor := Some (t_code anchor)\<rparr>"
    by (auto simp: spread_game_def Let_def split: option.splits if_splits prod.splits)
  note t = or_else_Some [OF 1(1,2)]
  have ab: "t_code a \<noteq> t_code b" "t_code a \<noteq> []" "t_code b \<noteq> []"
    using assms(4) 1(7) by (simp_all add: two_sided_def kalshi_game_def participant_of_def)
  have codes: "by_code ix raw = Some anchor" "t_code other \<noteq> t_code anchor" "t_code anchor \<noteq> []"
    using 1(6) assms(2,3) anchor_code_cases [OF 1(3)] ab by (auto split: if_splits)
  from terms [OF t 1(4,3) codes(1)] t 1(5) have
    "pays (t @ '':YES'') = (line < gr_margin res (t_code anchor))" "pays (t @ '':NO'') = (\<not> line < gr_margin res (t_code anchor))"
    by (simp_all add: strike_terms_def)
  moreover have "t_code anchor \<in> {t_code a, t_code b}" "t_code other \<in> {t_code a, t_code b}" using 1(6) by (auto split: if_splits)
  then have "well_listed g" using assms(4) codes(2,3) by (simp add: well_listed_def 1(7) kalshi_game_def participant_of_def)
  ultimately show ?thesis using codes(2) by (auto simp: truthful_def says_def 1(7) kalshi_game_def)
qed

lemma total_game_honest:
  assumes "total_game sport ticker d a b mk = Some g" "two_sided g" "strike_terms pays (gr_total res) mk"
  shows "well_listed g \<and> truthful pays res g"
proof -
  from assms(1) obtain t line where 1: "or_else (lm_ticker mk) [] = t" "t \<noteq> []" "strike_line (lm_strike mk) = Some line"
    "g = (kalshi_game sport d (participant_of a, participant_of b) [(OVER, t @ '':YES''), (UNDER, t @ '':NO'')] t
           (parse_ticker_start ticker))\<lparr>vg_market := ''total'', vg_line := Some line\<rparr>"
    by (auto simp: total_game_def Let_def split: if_splits)
  from assms(3) or_else_Some [OF 1(1,2)] 1(3) have "pays (t @ '':YES'') = (line < gr_total res)" "pays (t @ '':NO'') = (\<not> line < gr_total res)"
    by (simp_all add: strike_terms_def)
  moreover have "well_listed g" using assms(2) by (simp add: well_listed_def 1(4) kalshi_game_def)
  ultimately show ?thesis by (auto simp: truthful_def says_def 1(4) kalshi_game_def OVER_def UNDER_def)
qed

definition kalshi_spreads_listed :: "market_client \<Rightarrow> team_index \<Rightarrow> string \<Rightarrow> date \<Rightarrow> int \<Rightarrow> kalshi_event \<Rightarrow> venue_game set" where
  "kalshi_spreads_listed client ix sport today days ev =
     (case parse_spread_event client ix sport today days ev of Inl _ \<Rightarrow> {} | Inr gs \<Rightarrow> set gs)"

definition kalshi_totals_listed :: "market_client \<Rightarrow> team_index \<Rightarrow> string \<Rightarrow> date \<Rightarrow> int \<Rightarrow> kalshi_event \<Rightarrow> venue_game set" where
  "kalshi_totals_listed client ix sport today days ev =
     (case parse_totals_event client ix sport today days ev of Inl _ \<Rightarrow> {} | Inr gs \<Rightarrow> set gs)"

lemma map_filter_in: "y \<in> set (List.map_filter f xs) \<longleftrightarrow> (\<exists>x \<in> set xs. f x = Some y)"
  by (force simp: List.map_filter_def)

lemma kalshi_spread_parts:
  assumes "g \<in> kalshi_spreads_listed client ix sport today days ev"
  obtains d pair a b ms mk where "event_teams ix today days (or_else (ke_ticker ev) []) = Some (d, pair, a, b)"
    "markets_of client (or_else (ke_ticker ev) []) = Inr ms" "mk \<in> set ms" "spread_game sport (or_else (ke_ticker ev) []) d pair a b mk = Some g"
  using assms
  by (auto simp: kalshi_spreads_listed_def parse_spread_event_def Let_def res_simps map_filter_in split: sum.splits option.splits)

lemma kalshi_total_parts:
  assumes "g \<in> kalshi_totals_listed client ix sport today days ev"
  obtains d a b ms mk where "markets_of client (or_else (ke_ticker ev) []) = Inr ms" "mk \<in> set ms"
    "total_game sport (or_else (ke_ticker ev) []) d a b mk = Some g"
  using assms
  by (auto simp: kalshi_totals_listed_def parse_totals_event_def Let_def res_simps map_filter_in split: sum.splits option.splits)

interpretation kalshi_spreads: listing_source "kalshi_spreads_listed client ix sport today days" "kalshi_spread_terms client ix"
  for client ix sport today days
proof
  fix g ev pays res
  assume g: "g \<in> kalshi_spreads_listed client ix sport today days ev" and ts: "two_sided g" and terms: "kalshi_spread_terms client ix ev pays res"
  from g obtain d pair a b ms mk where 1: "event_teams ix today days (or_else (ke_ticker ev) []) = Some (d, pair, a, b)"
    "markets_of client (or_else (ke_ticker ev) []) = Inr ms" "mk \<in> set ms" "spread_game sport (or_else (ke_ticker ev) []) d pair a b mk = Some g"
    by (rule kalshi_spread_parts)
  from 1(1) obtain codes where 2: "ticker_codes (or_else (ke_ticker ev) []) = Some codes" "split_team_codes codes ix = Some pair"
    "by_code ix (fst pair) = Some a" "by_code ix (snd pair) = Some b" by (rule event_teams_parts)
  show "well_listed g \<and> truthful pays res g"
    by (rule spread_game_honest [OF 1(4) 2(3,4) ts])
      (use terms 1(2,3) 2(1,2) in \<open>unfold kalshi_spread_terms_def Let_def, blast\<close>)
qed

interpretation kalshi_totals: listing_source "kalshi_totals_listed client ix sport today days" "kalshi_total_terms client"
  for client ix sport today days
proof
  fix g ev pays res
  assume g: "g \<in> kalshi_totals_listed client ix sport today days ev" and ts: "two_sided g" and terms: "kalshi_total_terms client ev pays res"
  from g obtain d a b ms mk where 1: "markets_of client (or_else (ke_ticker ev) []) = Inr ms" "mk \<in> set ms"
    "total_game sport (or_else (ke_ticker ev) []) d a b mk = Some g" by (rule kalshi_total_parts)
  with terms show "well_listed g \<and> truthful pays res g"
    unfolding kalshi_total_terms_def by (intro total_game_honest [OF 1(3) ts]) blast
qed
subsection \<open>Polymarket US keeps it\<close>

lemma long_short_in: "long \<noteq> short \<Longrightarrow> set (long_short slug long short) = {(long, slug @ '':LONG''), (short, slug @ '':SHORT'')}"
  by (simp add: long_short_def)

lemma spread_market_parts:
  assumes "spread_market ix sport ev start ts m = Some g"
  obtains slug signed l s a b where "mk_slug m = Some slug" "mk_type m \<in> set SPREAD_TYPES" "strike_line (mk_line m) = Some signed" "signed \<noteq> 0"
    "sides m = Some (l, s)" "resolve_team ix l = Some a" "resolve_team ix s = Some b" "t_code a = t_code (fst ts)" "t_code b = t_code (snd ts)"
    "title_agrees (mk_title m) (tm_name (pe_teams ev ! (if signed < 0 then 0 else 1))) (dec_round \<bar>signed\<bar>) \<noteq> Some False"
    "g = (pm_game sport start ev slug (participant_of (fst ts), participant_of (snd ts)) (long_short slug (t_code (fst ts)) (t_code (snd ts))))
       \<lparr>vg_market := ''spread'', vg_line := Some (dec_round \<bar>signed\<bar>), vg_anchor := Some (t_code (if signed < 0 then fst ts else snd ts))\<rparr>"
proof -
  obtain first second where ts: "ts = (first, second)" by (cases ts)
  from assms show ?thesis
    unfolding spread_market_def Let_def ts
    by (auto split: option.splits if_splits prod.splits intro!: that or_else_Some [OF refl] simp: ts)
qed

lemma spread_market_honest:
  assumes "spread_market ix sport ev start ts m = Some g" "two_sided g" "m \<in> set (pe_markets ev)" "pm_spread_terms ix ev pays res"
  shows "well_listed g \<and> truthful pays res g"
  using assms(1)
proof (rule spread_market_parts)
  fix slug signed l s a b
  assume 1: "mk_slug m = Some slug" "mk_type m \<in> set SPREAD_TYPES" "strike_line (mk_line m) = Some signed" "signed \<noteq> 0"
    "sides m = Some (l, s)" "resolve_team ix l = Some a" "resolve_team ix s = Some b" "t_code a = t_code (fst ts)" "t_code b = t_code (snd ts)"
    and g: "g = (pm_game sport start ev slug (participant_of (fst ts), participant_of (snd ts)) (long_short slug (t_code (fst ts)) (t_code (snd ts))))
       \<lparr>vg_market := ''spread'', vg_line := Some (dec_round \<bar>signed\<bar>), vg_anchor := Some (t_code (if signed < 0 then fst ts else snd ts))\<rparr>"
  have codes: "t_code (fst ts) \<noteq> t_code (snd ts)" "t_code (fst ts) \<noteq> []" "t_code (snd ts) \<noteq> []"
    using assms(2) by (simp_all add: g two_sided_def pm_game_def participant_of_def)
  from assms(3,4) 1 have "dec_round \<bar>signed\<bar> = \<bar>signed\<bar> \<and>
     pm_pays pays m (if signed < 0 then - signed < gr_margin res (t_code a) else \<not> signed < gr_margin res (t_code b))
       (if signed < 0 then \<not> - signed < gr_margin res (t_code a) else signed < gr_margin res (t_code b))"
    unfolding pm_spread_terms_def by blast
  then have e: "dec_round \<bar>signed\<bar> = \<bar>signed\<bar>" and
    p: "pays (slug @ '':LONG'') = (if signed < 0 then - signed < gr_margin res (t_code (fst ts)) else \<not> signed < gr_margin res (t_code (snd ts)))"
      "pays (slug @ '':SHORT'') = (\<not> pays (slug @ '':LONG''))" using 1(1,8,9) by (auto simp: pm_pays_def)
  have "well_listed g" using assms(2) codes by (simp add: well_listed_def g pm_game_def participant_of_def long_short_in)
  moreover have "signed < 0 \<Longrightarrow> dec_round (- signed) = - signed" "\<not> signed < 0 \<Longrightarrow> dec_round signed = signed" using e by simp_all
  then have "truthful pays res g"
    using p codes(1) 1(4) by (cases "signed < 0") (simp_all add: truthful_def says_def g pm_game_def long_short_in)
  ultimately show ?thesis ..
qed

lemma total_market_honest:
  assumes "total_market sport ev start ts m = Some g" "two_sided g" "m \<in> set (pe_markets ev)" "pm_total_terms ev pays res"
  shows "well_listed g \<and> truthful pays res g"
proof -
  from assms(1) obtain slug line where 1: "mk_slug m = Some slug" "mk_type m \<in> set TOTAL_TYPES" "strike_line (mk_line m) = Some line"
    "g = (pm_game sport start ev slug (participant_of (fst ts), participant_of (snd ts)) [(OVER, slug @ '':LONG''), (UNDER, slug @ '':SHORT'')])
       \<lparr>vg_market := ''total'', vg_line := Some line\<rparr>"
    by (auto simp: total_market_def Let_def split: option.splits if_splits intro: or_else_Some [OF refl])
  from assms(3,4) 1(1-3) have "pays (slug @ '':LONG'') = (line < gr_total res)" "pays (slug @ '':SHORT'') = (\<not> line < gr_total res)"
    by (auto simp: pm_total_terms_def pm_pays_def)
  moreover have "well_listed g" using assms(2) by (simp add: well_listed_def 1(4) pm_game_def)
  ultimately show ?thesis by (auto simp: truthful_def says_def 1(4) pm_game_def OVER_def UNDER_def)
qed

lemma moneyline_market_parts:
  assumes "moneyline_market ix sport ev start m = Some g"
  obtains slug l s a b where "mk_slug m = Some slug" "mk_type m \<in> set MONEYLINE_TYPES" "sides m = Some (l, s)"
    "resolve_team ix l = Some a" "resolve_team ix s = Some b"
    "g = pm_game sport start ev slug (participant_of a, participant_of b) (long_short slug (t_code a) (t_code b))"
proof -
  let ?slug = "or_else (mk_slug m) []"
  from assms obtain l s a b where "?slug \<noteq> []" "mk_type m \<in> set MONEYLINE_TYPES" "sides m = Some (l, s)"
    "resolve_team ix l = Some a" "resolve_team ix s = Some b"
    "g = pm_game sport start ev ?slug (participant_of a, participant_of b) (long_short ?slug (t_code a) (t_code b))"
    unfolding moneyline_market_def Let_def by (auto split: option.splits if_splits)
  with or_else_Some [OF refl] that show ?thesis by blast
qed

lemma moneyline_market_honest:
  assumes "moneyline_market ix sport ev start m = Some g" "two_sided g" "m \<in> set (pe_markets ev)" "pm_moneyline_terms ix ev pays res"
  shows "well_listed g \<and> truthful pays res g"
proof -
  from assms(1) obtain slug l s a b where 1: "mk_slug m = Some slug" "mk_type m \<in> set MONEYLINE_TYPES" "sides m = Some (l, s)"
    "resolve_team ix l = Some a" "resolve_team ix s = Some b"
    "g = pm_game sport start ev slug (participant_of a, participant_of b) (long_short slug (t_code a) (t_code b))"
    by (rule moneyline_market_parts)
  have ab: "t_code a \<noteq> t_code b" using assms(2) by (simp add: 1(6) two_sided_def pm_game_def participant_of_def)
  from assms(3,4) 1(1-5) have "pm_pays pays m (0 < gr_margin res (t_code a)) (0 < gr_margin res (t_code b))"
    unfolding pm_moneyline_terms_def by blast
  with 1(1) have "pays (slug @ '':LONG'') = (0 < gr_margin res (t_code a))" "pays (slug @ '':SHORT'') = (0 < gr_margin res (t_code b))"
    by (simp_all add: pm_pays_def)
  moreover have "well_listed g" using assms(2) ab
    by (auto simp: well_listed_def 1(6) pm_game_def long_short_in participant_of_def)
  ultimately show ?thesis using ab by (auto simp: truthful_def says_def 1(6) pm_game_def long_short_in)
qed

interpretation pm_spreads: listing_source "\<lambda>ev. set (spread_event fromiso ix sport ev)" "pm_spread_terms ix" for fromiso ix sport
  by standard (auto simp: spread_event_def map_filter_in dest: spread_market_honest split: option.splits)

interpretation pm_totals: listing_source "\<lambda>ev. set (total_event fromiso ix sport ev)" pm_total_terms for fromiso ix sport
  by standard (auto simp: total_event_def map_filter_in dest: total_market_honest split: option.splits)

interpretation pm_moneylines: listing_source "\<lambda>ev. set (moneyline_event fromiso ix sport ev)" "pm_moneyline_terms ix" for fromiso ix sport
  by standard (auto simp: moneyline_event_def map_filter_in dest: moneyline_market_honest split: option.splits)

interpretation spreads: two_sources "kalshi_spreads_listed client ix sport today days" "kalshi_spread_terms client ix"
  "\<lambda>ev. set (spread_event fromiso ix sport ev)" "pm_spread_terms ix" for client ix sport today days fromiso ..

interpretation totals: two_sources "kalshi_totals_listed client ix sport today days" "kalshi_total_terms client"
  "\<lambda>ev. set (total_event fromiso ix sport ev)" pm_total_terms for client ix sport today days fromiso ..

subsection \<open>The venues agree on a game\<close>

lemma kalshi_spread_kind: "g \<in> kalshi_spreads_listed client ix sport today days ev \<Longrightarrow> vg_market g = ''spread''"
  by (erule kalshi_spread_parts) (auto simp: spread_game_def Let_def split: option.splits if_splits prod.splits)

lemma kalshi_total_kind: "g \<in> kalshi_totals_listed client ix sport today days ev \<Longrightarrow> vg_market g = ''total''"
  by (erule kalshi_total_parts) (auto simp: total_game_def Let_def split: if_splits)

text \<open>
  A Kalshi spread and a Polymarket US spread the matcher would pair are one bet with one sign: under the
  venues' terms an outcome of one and an outcome of the other pay alike exactly when they stand under the same
  team, whichever team either venue names first and whichever side its signed line favours.
\<close>

theorem spread_sources_agree:
  assumes "parse_spread_event client ix sport today days ev = Inr gs" "g \<in> set gs" "h \<in> set (spread_event fromiso ix sport ev')"
    and "pair_key g = pair_key h" "two_sided g" "two_sided h"
    and "kalshi_spread_terms client ix ev pays res" "pm_spread_terms ix ev' pays res"
    and "(key, oid) \<in> set (vg_outcomes g)" "(key', oid') \<in> set (vg_outcomes h)"
  shows "pays oid = pays oid' \<longleftrightarrow> key = key'"
proof -
  have g: "g \<in> kalshi_spreads_listed client ix sport today days ev" using assms(1,2) by (simp add: kalshi_spreads_listed_def)
  then have "vg_market g \<noteq> ''moneyline''" using kalshi_spread_kind by fastforce
  from spreads.outcomes_agree [OF g assms(3,5-8,4) this assms(9,10)] show ?thesis .
qed

text \<open>
  The same for totals: an over of one venue and an over of the other on the same line pay alike, an over and
  an under never do.
\<close>

theorem total_sources_agree:
  assumes "parse_totals_event client ix sport today days ev = Inr gs" "g \<in> set gs" "h \<in> set (total_event fromiso ix sport ev')"
    and "pair_key g = pair_key h" "two_sided g" "two_sided h"
    and "kalshi_total_terms client ev pays res" "pm_total_terms ev' pays res"
    and "(key, oid) \<in> set (vg_outcomes g)" "(key', oid') \<in> set (vg_outcomes h)"
  shows "pays oid = pays oid' \<longleftrightarrow> key = key'"
proof -
  have g: "g \<in> kalshi_totals_listed client ix sport today days ev" using assms(1,2) by (simp add: kalshi_totals_listed_def)
  then have "vg_market g \<noteq> ''moneyline''" using kalshi_total_kind by fastforce
  from totals.outcomes_agree [OF g assms(3,5-8,4) this assms(9,10)] show ?thesis .
qed

text \<open>A two-team league, its spread by 3.5 points on both venues, and a game the second side wins by seven, the only points.\<close>

definition sample_league :: team_index where
  "sample_league = new_index [Team ''NE'' ''New England Patriots'' ''New England'' ''Patriots'',
     Team ''SEA'' ''Seattle Seahawks'' ''Seattle'' ''Seahawks''] [] []"

definition sample_kalshi_event :: "string \<Rightarrow> kalshi_event" where
  "sample_kalshi_event t = \<lparr>ke_ticker = Some t, ke_title = None\<rparr>"

definition sample_strike :: "string \<Rightarrow> listed_market" where
  "sample_strike t = \<lparr>lm_ticker = Some t, lm_yes_title = None, lm_strike = Some ''3.5'', lm_strike_type = Some ''greater''\<rparr>"

definition sample_kalshi_client :: "string \<Rightarrow> market_client" where
  "sample_kalshi_client t = (\<lambda>_ _. Answer 200 None (Some [sample_strike t]))"

definition sample_pm_event :: "string \<Rightarrow> string \<Rightarrow> pm_event" where
  "sample_pm_event slug kind = (let ne = \<lparr>tm_abbrev = Some ''ne'', tm_safe = None, tm_name = Some ''Patriots''\<rparr>;
      sea = \<lparr>tm_abbrev = Some ''sea'', tm_safe = None, tm_name = Some ''Seahawks''\<rparr>
    in \<lparr>pe_start = Some ''2026-09-10T00:20:00Z'', pe_live = None, pe_ended = None, pe_teams = [ne, sea],
        pe_markets = [\<lparr>mk_type = kind, mk_slug = Some slug, mk_line = Some ''3.5'', mk_title = None,
          mk_sides = [(True, Some ne), (False, Some sea)]\<rparr>]\<rparr>)"

definition sample_pays :: "string \<Rightarrow> bool" where
  "sample_pays oid \<longleftrightarrow> oid \<in> {''KXNFLSPREAD-26SEP09NESEA-SEA4:YES'', ''sp:SHORT'', ''KXNFLTOTAL-26SEP09NESEA-4:YES'', ''tot:LONG'', ''K1:Y'', ''P1:Y''}"

definition sample_result :: game_result where
  "sample_result = \<lparr>gr_margin = (\<lambda>c. if c = ''SEA'' then 7 else if c = ''NE'' then - 7 else if c = ''NYY'' then 2 else - 2), gr_total = 7\<rparr>"

definition sample_line :: rat where
  "sample_line = 7/2"

definition sample_listing :: "string \<Rightarrow> (string, string) dict \<Rightarrow> string \<Rightarrow> int option \<Rightarrow> venue_game" where
  "sample_listing v oids ref start = \<lparr>vg_sport = ''nfl'', vg_venue = v, vg_date = (2026, 9, 9),
     vg_teams = (participant_of (Team ''NE'' ''New England Patriots'' ''New England'' ''Patriots''),
       participant_of (Team ''SEA'' ''Seattle Seahawks'' ''Seattle'' ''Seahawks'')),
     vg_outcomes = oids, vg_ref = ref, vg_market = ''spread'', vg_line = Some sample_line, vg_anchor = Some ''SEA'', vg_start = start,
     vg_live = None, vg_ended = None\<rparr>"

lemma sample_strike_line: "strike_line (Some ''3.5'') = Some sample_line"
  by code_simp

lemma sample_codes:
  "by_code sample_league ''NE'' = Some (Team ''NE'' ''New England Patriots'' ''New England'' ''Patriots'')"
  "by_code sample_league ''SEA'' = Some (Team ''SEA'' ''Seattle Seahawks'' ''Seattle'' ''Seahawks'')"
  "by_code sample_league ''ne'' = Some (Team ''NE'' ''New England Patriots'' ''New England'' ''Patriots'')"
  "by_code sample_league ''sea'' = Some (Team ''SEA'' ''Seattle Seahawks'' ''Seattle'' ''Seahawks'')"
  by code_simp+

lemma sample_split: "ticker_codes ''KXNFLSPREAD-26SEP09NESEA'' = Some ''NESEA''" "split_team_codes ''NESEA'' sample_league = Some (''NE'', ''SEA'')"
  by code_simp+

lemma sample_anchor:
  "anchor_code_from_ticker ''KXNFLSPREAD-26SEP09NESEA-SEA4'' ''KXNFLSPREAD-26SEP09NESEA'' (''NE'', ''SEA'') = Some ''SEA''"
  by code_simp

lemma sample_kalshi_listed:
  "parse_spread_event (sample_kalshi_client ''KXNFLSPREAD-26SEP09NESEA-SEA4'') sample_league ''nfl'' (2026, 9, 1) 0 (sample_kalshi_event ''KXNFLSPREAD-26SEP09NESEA'') =
     Inr [sample_listing ''kalshi'' [(''SEA'', ''KXNFLSPREAD-26SEP09NESEA-SEA4:YES''), (''NE'', ''KXNFLSPREAD-26SEP09NESEA-SEA4:NO'')]
       ''KXNFLSPREAD-26SEP09NESEA-SEA4'' None]"
  by code_simp

lemma sample_pm_listed:
  "spread_event (\<lambda>_. Some 1788999600000000) sample_league ''nfl'' (sample_pm_event ''sp'' ''football_team_full_game_spread'') =
     [sample_listing ''polymarket_us'' [(''NE'', ''sp:LONG''), (''SEA'', ''sp:SHORT'')] ''sp'' (Some 1788999600000000)]"
  by code_simp

lemma sample_line_round: "dec_round sample_line = sample_line" "\<bar>sample_line\<bar> = sample_line" "\<not> sample_line < 0"
  by code_simp+

lemma sample_line_exact: "line_exact sample_line"
proof -
  have "sample_line * 10 ^ 40 = of_int (35 * 10 ^ 39)" by (simp add: sample_line_def)
  then have "sample_line * 10 ^ 40 \<in> \<int>" by (metis Ints_of_int)
  with sample_line_round show ?thesis by (simp add: line_exact_def)
qed

lemma sample_covered: "sample_line < 7" "\<not> sample_line < - 7"
  by (simp_all add: sample_line_def)

lemma sample_two_sided: "two_sided (sample_listing v oids ref start)"
  by (simp add: two_sided_def sample_listing_def participant_of_def sample_line_exact)

lemma sample_same_key: "pair_key (sample_listing v oids ref start) = pair_key (sample_listing v' oids' ref' start')"
  by (simp add: pair_key_def sample_listing_def)

lemma sample_kalshi_terms: "kalshi_spread_terms (sample_kalshi_client ''KXNFLSPREAD-26SEP09NESEA-SEA4'') sample_league (sample_kalshi_event ''KXNFLSPREAD-26SEP09NESEA'') sample_pays sample_result"
proof -
  have "markets_of (sample_kalshi_client ''KXNFLSPREAD-26SEP09NESEA-SEA4'') ''KXNFLSPREAD-26SEP09NESEA'' = Inr [sample_strike ''KXNFLSPREAD-26SEP09NESEA-SEA4'']" by code_simp
  then show ?thesis
    by (simp add: kalshi_spread_terms_def Let_def sample_kalshi_event_def or_else_def sample_split sample_codes sample_strike_def
      sample_anchor strike_terms_def sample_strike_line sample_pays_def sample_result_def sample_covered)
qed

lemma sample_pm_terms: "pm_spread_terms sample_league (sample_pm_event ''sp'' kind) sample_pays sample_result"
proof -
  have "resolve_team sample_league (Some \<lparr>tm_abbrev = Some ''ne'', tm_safe = None, tm_name = Some ''Patriots''\<rparr>) =
      Some (Team ''NE'' ''New England Patriots'' ''New England'' ''Patriots'')"
    "resolve_team sample_league (Some \<lparr>tm_abbrev = Some ''sea'', tm_safe = None, tm_name = Some ''Seahawks''\<rparr>) =
      Some (Team ''SEA'' ''Seattle Seahawks'' ''Seattle'' ''Seahawks'')" by code_simp+
  then show ?thesis
    by (simp add: pm_spread_terms_def sample_pm_event_def Let_def sides_def sample_strike_line pm_pays_def sample_pays_def sample_result_def
      sample_line_round sample_covered)
qed

theorem spread_sources_agree_witness:
  "sample_pays ''KXNFLSPREAD-26SEP09NESEA-SEA4:YES'' = sample_pays ''sp:SHORT'' \<and>
   sample_pays ''KXNFLSPREAD-26SEP09NESEA-SEA4:YES'' \<noteq> sample_pays ''sp:LONG''"
proof -
  let ?g = "sample_listing ''kalshi'' [(''SEA'', ''KXNFLSPREAD-26SEP09NESEA-SEA4:YES''), (''NE'', ''KXNFLSPREAD-26SEP09NESEA-SEA4:NO'')]
       ''KXNFLSPREAD-26SEP09NESEA-SEA4'' None"
  let ?h = "sample_listing ''polymarket_us'' [(''NE'', ''sp:LONG''), (''SEA'', ''sp:SHORT'')] ''sp'' (Some 1788999600000000)"
  have "?g \<in> set [?g]" "?h \<in> set (spread_event (\<lambda>_. Some 1788999600000000) sample_league ''nfl'' (sample_pm_event ''sp'' ''football_team_full_game_spread''))"
    by (simp_all add: sample_pm_listed)
  note agree = spread_sources_agree [OF sample_kalshi_listed this sample_same_key sample_two_sided sample_two_sided
    sample_kalshi_terms sample_pm_terms]
  show ?thesis
    using agree [of "''SEA''" "''KXNFLSPREAD-26SEP09NESEA-SEA4:YES''" "''SEA''" "''sp:SHORT''"]
      agree [of "''SEA''" "''KXNFLSPREAD-26SEP09NESEA-SEA4:YES''" "''NE''" "''sp:LONG''"]
    by (simp add: sample_listing_def)
qed

lemma sample_kalshi_total:
  "parse_totals_event (sample_kalshi_client ''KXNFLTOTAL-26SEP09NESEA-4'') sample_league ''nfl'' (2026, 9, 1) 0
      (sample_kalshi_event ''KXNFLTOTAL-26SEP09NESEA'') =
     Inr [sample_listing ''kalshi'' [(OVER, ''KXNFLTOTAL-26SEP09NESEA-4:YES''), (UNDER, ''KXNFLTOTAL-26SEP09NESEA-4:NO'')]
       ''KXNFLTOTAL-26SEP09NESEA-4'' None \<lparr>vg_market := ''total'', vg_anchor := None\<rparr>]"
  by code_simp

lemma sample_pm_total:
  "total_event (\<lambda>_. Some 1788999600000000) sample_league ''nfl'' (sample_pm_event ''tot'' ''football_team_full_game_total'') =
     [sample_listing ''polymarket_us'' [(OVER, ''tot:LONG''), (UNDER, ''tot:SHORT'')] ''tot'' (Some 1788999600000000)
       \<lparr>vg_market := ''total'', vg_anchor := None\<rparr>]"
  by code_simp

theorem total_sources_agree_witness:
  "sample_pays ''KXNFLTOTAL-26SEP09NESEA-4:YES'' = sample_pays ''tot:LONG'' \<and>
   sample_pays ''KXNFLTOTAL-26SEP09NESEA-4:NO'' \<noteq> sample_pays ''tot:LONG''"
proof -
  let ?g = "sample_listing ''kalshi'' [(OVER, ''KXNFLTOTAL-26SEP09NESEA-4:YES''), (UNDER, ''KXNFLTOTAL-26SEP09NESEA-4:NO'')]
       ''KXNFLTOTAL-26SEP09NESEA-4'' None \<lparr>vg_market := ''total'', vg_anchor := None\<rparr>"
  let ?h = "sample_listing ''polymarket_us'' [(OVER, ''tot:LONG''), (UNDER, ''tot:SHORT'')] ''tot'' (Some 1788999600000000)
       \<lparr>vg_market := ''total'', vg_anchor := None\<rparr>"
  let ?ev = "sample_pm_event ''tot'' ''football_team_full_game_total''"
  have 1: "?g \<in> set [?g]" "?h \<in> set (total_event (\<lambda>_. Some 1788999600000000) sample_league ''nfl'' ?ev)"
    by (simp_all add: sample_pm_total)
  have 2: "pair_key ?g = pair_key ?h" "two_sided ?g" "two_sided ?h"
    by (simp_all add: pair_key_def two_sided_def sample_listing_def participant_of_def sample_line_exact)
  have "markets_of (sample_kalshi_client ''KXNFLTOTAL-26SEP09NESEA-4'') ''KXNFLTOTAL-26SEP09NESEA'' =
      Inr [sample_strike ''KXNFLTOTAL-26SEP09NESEA-4'']" by code_simp
  then have 3: "kalshi_total_terms (sample_kalshi_client ''KXNFLTOTAL-26SEP09NESEA-4'') (sample_kalshi_event ''KXNFLTOTAL-26SEP09NESEA'')
      sample_pays sample_result"
    by (simp add: kalshi_total_terms_def sample_kalshi_event_def or_else_def strike_terms_def sample_strike_def sample_strike_line
      sample_pays_def sample_result_def sample_covered)
  have 4: "pm_total_terms ?ev sample_pays sample_result"
    by (simp add: pm_total_terms_def sample_pm_event_def Let_def sample_strike_line pm_pays_def sample_pays_def sample_result_def sample_covered)
  note agree = total_sources_agree [OF sample_kalshi_total 1 2 3 4]
  show ?thesis
    using agree [of OVER "''KXNFLTOTAL-26SEP09NESEA-4:YES''" OVER "''tot:LONG''"]
      agree [of UNDER "''KXNFLTOTAL-26SEP09NESEA-4:NO''" OVER "''tot:LONG''"]
    by (simp add: sample_listing_def OVER_def UNDER_def)
qed

theorem group_sides_complement_witness:
  "\<exists>l \<in> set (g_legs (match_to_event_group sample_match)). \<exists>l' \<in> set (g_legs (match_to_event_group sample_match)).
     leg_venue l \<noteq> leg_venue l' \<and> is_yes_side l \<noteq> is_yes_side l' \<and> sample_pays (leg_outcome l) \<noteq> sample_pays (leg_outcome l')"
proof -
  let ?k = "sample_game ''kalshi'' [(''NYY'', ''K1:Y''), (''BOS'', ''K1:B'')] 0"
  let ?p = "sample_game ''poly'' [(''NYY'', ''P1:Y''), (''BOS'', ''P1:B'')] 60000000"
  have f: "p_code (team_a sample_match) = ''BOS''" "p_code (team_b sample_match) = ''NYY''" "cm_market sample_match = ''moneyline''"
    by (simp_all add: sample_match_def build_match_teams build_match_fields)
  have 1: "sample_match \<in> set (match_games 0 sample_slate)" by (simp add: sample_matches)
  have 2: "decided sample_result sample_match" by (simp add: decided_def f sample_result_def)
  have 3: "\<forall>g \<in> set (match_games_of sample_match). well_listed g \<and> truthful sample_pays sample_result g"
    by (simp add: match_games_of_def sample_match_venues)
      (simp add: well_listed_def two_sided_def truthful_def says_def sample_game_def sample_pays_def sample_result_def)
  have legs: "g_legs (match_to_event_group sample_match) = venue_legs ''BOS'' (''kalshi'', ?k) @ venue_legs ''BOS'' (''poly'', ?p)"
    by (simp add: match_to_event_group_def sample_match_venues yes_key_def f)
  let ?l = "\<lparr>leg_outcome = ''K1:Y'', leg_venue = ''kalshi'', is_yes_side = False\<rparr>"
  let ?l' = "\<lparr>leg_outcome = ''P1:B'', leg_venue = ''poly'', is_yes_side = True\<rparr>"
  have l: "?l \<in> set (g_legs (match_to_event_group sample_match))" "?l' \<in> set (g_legs (match_to_event_group sample_match))"
    unfolding legs by (simp_all add: venue_legs_def)
  from group_sides_complement [OF _ 1 2 3 l] l show ?thesis by force
qed

end
