(* ===== verification/Spec2Isabelle.thy ===== *)
theory Spec2Isabelle
  imports Sizing Monitored Access Api Lifecycle Performance Listing_Terms
begin

text \<open>
  Arbys: a prediction-market arbitrage scanner with a paper broker (Python, under \<open>src/arbys\<close>). Venue adapters
  stream quotes into a shared book; discovery pairs the venues' listings into event groups; the engine looks
  for groups whose two sides can be bought for less than they pay; a ticket buys all legs or none on paper
  accounts; settlement pays the positions out when the games end. This theory collects the development; each
  theory below models one part and opens with what it holds.

  \<^bold>\<open>Parts and theories.\<close>
  \<^item> \<open>Prelude\<close>: exceptions as a sum (\<open>py_exc\<close>, \<open>bindE\<close>, \<open>foldE\<close>), Python dictionaries as association lists in
    insertion order, shared lemmas and the collections \<open>eval_rules\<close>, \<open>res_simps\<close>, \<open>dict_simps\<close>.
  \<^item> \<open>Decimal\<close>: \<open>Decimal\<close> and \<open>float\<close> as rationals rounded half-even to 28 digits and to 53 bits. The locale
    \<open>rounding\<close> states what the proofs use of a rounding; both are interpretations.
  \<^item> \<open>Types\<close>, \<open>Fees\<close>, \<open>Qty\<close>: \<open>shared/types.py\<close>, \<open>shared/fees.py\<close>, \<open>shared/odds.py\<close>, \<open>shared/qty.py\<close>.
  \<^item> \<open>Arb_Engine\<close>, \<open>Sizing\<close>: the two detectors of \<open>shared/arb_engine.py\<close> and the bankroll sizing.
  \<^item> \<open>QuoteBook\<close>: \<open>shared/quote_book.py\<close>, freshness and the refusal of replayed snapshots.
  \<^item> \<open>Paper_Broker\<close>, \<open>Execution_Router\<close>: orders, fills, fees, settlement; the all-or-nothing submission.
  \<^item> \<open>Cash\<close>: \<open>shared/cash.py\<close>, the sweep service, the equity strip and the P&L snapshots.
  \<^item> \<open>Engine_Runtime\<close>: the group index and quote handling of \<open>ingest/engine_runtime.py\<close>, the pump of
    \<open>ingest/worker.py\<close> and the backtest replay.
  \<^item> \<open>Auto_Settle\<close>, \<open>Settlement\<close>, \<open>Venue_Settle\<close>: settlement from prices, the venues' published results and the
    pass that applies them.
  \<^item> \<open>Config\<close>, \<open>Auto_Trade\<close>, \<open>App_State\<close>, \<open>Ticket_Service\<close>: the environment readers, the auto-trader, the state
    that ties the services together and the one path a ticket takes, with every guard.
  \<^item> \<open>Kalshi_Book\<close>: the ladders, messages and quotes of the Kalshi WebSocket adapter.
  \<^item> \<open>Polymarket_Ws\<close>: \<open>adapters/polymarket_us_ws.py\<close> with the quote derivation of \<open>polymarket_us.py\<close>: shards,
    frames, the repair of silent subscriptions, the drop of a connection and its budget, reconnection.
  \<^item> \<open>Matcher\<close>: \<open>discovery/matcher.py\<close> and \<open>horizon.py\<close>, from listings to event groups.
  \<^item> \<open>Discovery\<close>: \<open>discovery/service.py\<close> with \<open>run_write\<close> of \<open>db/session.py\<close> and \<open>upsert_event_group\<close>: passes over
    the venues, batched registration, retirement.
  \<^item> \<open>Teams\<close>, \<open>Tickers\<close>: \<open>discovery/teams.py\<close> (rosters, aliases, the resolver) and the dates, stages and team
    codes inside venue tickers.
  \<^item> \<open>Kalshi_Listings\<close>, \<open>Polymarket_Listings\<close>: \<open>discovery/kalshi_*.py\<close>, \<open>players.py\<close> and
    \<open>discovery/polymarket_us.py\<close>: the fetchers, from the decoded replies to the listings, with retried requests.
  \<^item> \<open>Listing_Terms\<close>: what the two parsers together say of a bet: the sides of a group complement each other.
  \<^item> \<open>Performance\<close>, \<open>Ledger\<close>: the report of \<open>backend/performance.py\<close>; the ticket queries of
    \<open>db/repositories.py\<close>, the paged ledger of \<open>backend/app.py\<close> and its equality with the report's scores.
  \<^item> \<open>Monitored\<close>: the monitored endpoint, its legs, priced pairs and the order of its rows.
  \<^item> \<open>Access\<close>, \<open>Loop_Health\<close>: \<open>backend/access.py\<close> (key cache, choice of key, the dependency of every route,
    the prefix rewrite) and the window of samples of \<open>backend/loop_health.py\<close>.
  \<^item> \<open>Database\<close>: the tables of \<open>db/models.py\<close> as lists of rows with the constraints that make an insertion fail,
    and every function of \<open>db/repositories.py\<close>.
  \<^item> \<open>Persistence\<close>: \<open>shared/persistence.py\<close>, the transaction each sink event runs, its retries, and the start
    that reads the rows back.
  \<^item> \<open>Rest_Adapters\<close>: \<open>adapters/kalshi.py\<close>, the polling half of \<open>polymarket_us.py\<close> and \<open>draftkings.py\<close>.
  \<^item> \<open>Credentials\<close>: the key readers and signed headers of \<open>kalshi_ws.py\<close> and \<open>polymarket_us_auth.py\<close>, with
    base64 written out, and the adapter factories of \<open>backend/state.py\<close> they decide.
  \<^item> \<open>Lifecycle\<close>: start, singleton lock, the tasks of the services, drain and shutdown as a step relation.
  \<^item> \<open>Api\<close>: the endpoints of \<open>backend/app.py\<close> over the application state, the engine, the brokers and the rows.

  \<^bold>\<open>Correspondence.\<close> A dataclass or the instance state of a class is a record, an enumeration a datatype, a
  method a function from the state to the state and its result. A raise is \<open>Inl\<close> of the exception, an early
  return a branch. Money is a rational that every operation rounds as the decimal context does; a float
  operation rounds to 53 bits. What a coroutine can interleave with at an \<open>await\<close> is a parameter (an
  arbitrary change of the state, or the list of answers it gets). Clock readings, random order ids, venue
  replies and the messages a socket delivers are arguments. In the brokers and the ticket path an order sink
  is the log of the calls made; \<open>Persistence\<close> runs those calls against the tables of \<open>Database\<close>.

  \<^bold>\<open>What the lemmas show.\<close> Detection: what is returned is a locked profit at live prices and the best pair,
  with the rounding of every operation counted. Brokers: solvency over all reachable states, fills,
  settlement and rollback to the cent. Tickets: a fill passed every guard, a refusal moves nothing, the log
  says what happened. Services: cooldowns, publication, levelling of cash, settlement only of published or
  decided results. Market data: the ladders refine a map from prices to sizes and give well-formed quotes; a
  connection is dropped only for a live market its repairs did not bring back, and only so often. Discovery:
  matches are the same bet and fixture, complete where listings are unambiguous; a pass keeps state, engine
  and database together, changes only what it found, and converges. Report: counts
  reconcile, ids parse back, the pages of the ledger hold every ticket once and score it as the report does.
  Database: the tables keep their keys and references through every function; after each broker event the rows
  mirror the books, and a start from those rows gives back brokers with the same books. Endpoints: a group
  created is the group a later start reads, a reset leaves fresh accounts in memory and rows alike, the
  monitored table shows what the engine publishes, a route answers only to a verified token. Adapters: the poll
  and the socket of Kalshi quote the same ladders alike, every poller yields valid quotes and survives failed
  requests, a mangled key still loads and a bad one never downgrades the feed silently. Lifecycle: an invariant
  of all reachable states, by which a finished shutdown leaves nothing running and, unless the drain timed out, no ticket in flight.

  \<^bold>\<open>Bounds and fuel.\<close> Every loop is structural recursion on its list; the retry loops have the code's own
  bounds (five requests in \<open>Settlement\<close> and in the listings, three attempts of a write in \<open>Discovery\<close> and
  \<open>Persistence\<close>); a connection runs over the list of the events it meets; the walk over the ledger's pages has
  fuel one more than the number of tickets, and each page it takes is a ticket shorter; line texts are written
  to 40 decimal places (venues list halves).
  Interfaces are locales: \<open>rounding\<close> of \<open>Decimal\<close>, \<open>fee_schedule\<close> of \<open>Fees\<close>, \<open>quote_source\<close> of \<open>QuoteBook\<close>,
  \<open>cash_book\<close> of \<open>Paper_Broker\<close>, \<open>detector\<close> of \<open>Engine_Runtime\<close>, \<open>resolver\<close> of \<open>Settlement\<close>, \<open>window\<close> of \<open>Auto_Trade\<close>,
  \<open>listing_source\<close> and \<open>two_sources\<close> of \<open>Listing_Terms\<close>, \<open>poller\<close> of \<open>Rest_Adapters\<close>. Each is interpreted on the model's own definitions.

  \<^bold>\<open>Not modelled, and why.\<close> Sockets, the cryptography behind signatures and keys, the database engine with
  its sessions, connection URLs and migrations are third-party code and I/O; the response schemas
  (\<open>backend/schemas.py\<close>) rename the fields of the modelled records. The timer loops around the services repeat
  the modelled passes and log what they raise. The opportunity socket and the single-page application serve
  what \<open>App_State\<close> publishes. Logging setup, operator scripts and the user interface are outside.
\<close>

end
